(* ===== verification/Prelude.thy ===== *)
theory Prelude
  imports Complex_Main "HOL-Library.Multiset" "HOL-Library.Char_ord"
    "HOL-Library.List_Lexorder" "HOL-Library.Product_Lexorder"
begin

text \<open>
  The shared vocabulary of the development: the part of Python and of its standard library
  that the modelled code uses.

  A Python \<open>str\<close> is a \<^typ>\<open>string\<close>: a list of code points, here those of the Latin-1 range
  (\<^typ>\<open>char\<close>), so that \<open>len\<close> is \<^const>\<open>length\<close>.  A \<open>dict\<close> is an association list in
  insertion order without repeated keys, since the code iterates over dicts and over
  \<open>OrderedDict\<close>s.  An \<open>Any\<close> value is a \<open>pyval\<close>.  An exception is the left part of a sum.
  Slices and negative indices are written out as Python defines them.
\<close>

named_theorems py_str \<open>equations of the string operations\<close>
named_theorems py_dict \<open>laws of the ordered dictionaries\<close>

subsection \<open>Values, errors and results\<close>

datatype pyval =
    PyNone
  | PyBool bool
  | PyInt int
  | PyFloat rat
  | PyStr string
  | PyList "pyval list"
  | PyDict "(string \<times> pyval) list"

text \<open>
  \<open>ValidationError f\<close> is the code's own exception with its field \<open>f\<close>.  \<open>Unmodelled\<close> is not an
  exception of the code: it marks an untyped value that the code would store as it is although
  the declared type of the field is another one.
\<close>

datatype pyerror =
    ValueError
  | TypeError
  | KeyError
  | IndexError
  | ZeroDivisionError
  | ConfigurationError
  | DimensionError
  | ValidationError string
  | AttributeError
  | RuntimeError
  | FileNotFoundError
  | ModelError
  | Unmodelled

type_synonym 'a result = "pyerror + 'a"

definition bind_result :: "'a result \<Rightarrow> ('a \<Rightarrow> 'b result) \<Rightarrow> 'b result" where
  "bind_result r f = (case r of Inl e \<Rightarrow> Inl e | Inr x \<Rightarrow> f x)"

lemma bind_result_simps [simp]:
  "bind_result (Inl e) f = Inl e"
  "bind_result (Inr x) f = f x"
  by (simp_all add: bind_result_def)

lemma bind_result_eq_Inr_iff:
  "bind_result r f = Inr y \<longleftrightarrow> (\<exists>x. r = Inr x \<and> f x = Inr y)"
  by (cases r) auto

fun map_result :: "('a \<Rightarrow> 'b result) \<Rightarrow> 'a list \<Rightarrow> 'b list result" where
  "map_result f [] = Inr []"
| "map_result f (x # xs) =
     bind_result (f x) (\<lambda>y. bind_result (map_result f xs) (\<lambda>ys. Inr (y # ys)))"

lemma map_result_pure: "(\<And>x. x \<in> set xs \<Longrightarrow> f x = Inr (g x)) \<Longrightarrow> map_result f xs = Inr (map g xs)"
  by (induction xs) auto

lemma map_result_length: "map_result f xs = Inr ys \<Longrightarrow> length ys = length xs"
  by (induction xs arbitrary: ys) (auto simp: bind_result_eq_Inr_iff)

lemma map_result_nth:
  "map_result f xs = Inr ys \<Longrightarrow> list_all2 (\<lambda>x y. f x = Inr y) xs ys"
  by (induction xs arbitrary: ys) (auto simp: bind_result_eq_Inr_iff)

subsection \<open>Truth values of optional strings and numbers\<close>

definition truthy_str :: "string option \<Rightarrow> bool" where
  "truthy_str s \<longleftrightarrow> (case s of None \<Rightarrow> False | Some t \<Rightarrow> t \<noteq> [])"

lemma truthy_str_simps [simp]: "\<not> truthy_str None" "truthy_str (Some t) \<longleftrightarrow> t \<noteq> []"
  by (simp_all add: truthy_str_def)

text \<open>\<open>bool(v)\<close> of a Python value, \<open>v or w\<close>, and \<open>d.get(k)\<close> with its default \<open>None\<close>.\<close>

fun py_truthy :: "pyval \<Rightarrow> bool" where
  "py_truthy PyNone = False"
| "py_truthy (PyBool b) = b"
| "py_truthy (PyInt i) = (i \<noteq> 0)"
| "py_truthy (PyFloat q) = (q \<noteq> 0)"
| "py_truthy (PyStr s) = (s \<noteq> [])"
| "py_truthy (PyList xs) = (xs \<noteq> [])"
| "py_truthy (PyDict d) = (d \<noteq> [])"

definition py_or :: "pyval \<Rightarrow> pyval \<Rightarrow> pyval" where
  "py_or v w = (if py_truthy v then v else w)"

definition get_or_none :: "(string \<times> pyval) list \<Rightarrow> string \<Rightarrow> pyval" where
  "get_or_none d k = (case map_of d k of None \<Rightarrow> PyNone | Some v \<Rightarrow> v)"

subsection \<open>Characters and strings\<close>

text \<open>
  \<open>py_space\<close> is \<open>str.isspace\<close> of one code point; \<open>str.strip()\<close> and the \<open>\s\<close> of a \<open>str\<close>
  regular expression use the same set.
\<close>

definition py_space :: "char \<Rightarrow> bool" where
  "py_space c \<longleftrightarrow>
     (let n = (of_char c :: nat)
      in (9 \<le> n \<and> n \<le> 13) \<or> (28 \<le> n \<and> n \<le> 32) \<or> n = 133 \<or> n = 160)"

abbreviation nl :: char where "nl \<equiv> CHR 0x0A"
abbreviation cr :: char where "cr \<equiv> CHR 0x0D"

definition py_lstrip :: "string \<Rightarrow> string" where
  "py_lstrip s = dropWhile py_space s"

definition py_rstrip :: "string \<Rightarrow> string" where
  "py_rstrip s = rev (dropWhile py_space (rev s))"

definition py_strip :: "string \<Rightarrow> string" where
  "py_strip s = py_rstrip (py_lstrip s)"

definition lower_char :: "char \<Rightarrow> char" where
  "lower_char c =
     (let n = (of_char c :: nat)
      in if (65 \<le> n \<and> n \<le> 90) \<or> (192 \<le> n \<and> n \<le> 222 \<and> n \<noteq> 215)
         then char_of (n + 32) else c)"

definition py_lower :: "string \<Rightarrow> string" where
  "py_lower s = map lower_char s"

definition upper_char :: "char \<Rightarrow> char" where
  "upper_char c =
     (let n = (of_char c :: nat) in if 97 \<le> n \<and> n \<le> 122 then char_of (n - 32) else c)"

text \<open>\<open>str.upper\<close> is used by the code on ASCII names only (the values of its enums).\<close>

definition ascii_upper :: "string \<Rightarrow> string" where
  "ascii_upper s = map upper_char s"

definition starts_with :: "string \<Rightarrow> string \<Rightarrow> bool" where
  "starts_with s p \<longleftrightarrow> take (length p) s = p"

definition ends_with :: "string \<Rightarrow> string \<Rightarrow> bool" where
  "ends_with s p \<longleftrightarrow> length p \<le> length s \<and> drop (length s - length p) s = p"

fun str_contains :: "string \<Rightarrow> string \<Rightarrow> bool" where
  "str_contains s p = (starts_with s p \<or> (case s of [] \<Rightarrow> False | _ # s' \<Rightarrow> str_contains s' p))"

text \<open>\<open>s.replace(old, new)\<close> for a non-empty \<open>old\<close>: leftmost, non-overlapping.\<close>

function str_replace :: "string \<Rightarrow> string \<Rightarrow> string \<Rightarrow> string" where
  "str_replace old new s =
     (case s of [] \<Rightarrow> []
      | c # s' \<Rightarrow>
          if old \<noteq> [] \<and> starts_with s old then new @ str_replace old new (drop (length old) s)
          else c # str_replace old new s')"
  by pat_completeness auto
termination
  by (relation "measure (\<lambda>(old, new, s). length s)") (auto simp: length_greater_0_conv)

declare str_replace.simps [simp del]
declare str_contains.simps [simp del]

text \<open>\<open>s.split(c)\<close> for a one-character separator, and \<open>sep.join(xs)\<close>.\<close>

fun split_on :: "char \<Rightarrow> string \<Rightarrow> string list" where
  "split_on c [] = [[]]"
| "split_on c (x # xs) =
     (if x = c then [] # split_on c xs
      else (case split_on c xs of [] \<Rightarrow> [[x]] | l # ls \<Rightarrow> (x # l) # ls))"

fun join_with :: "string \<Rightarrow> string list \<Rightarrow> string" where
  "join_with sep [] = []"
| "join_with sep [x] = x"
| "join_with sep (x # y # xs) = x @ sep @ join_with sep (y # xs)"

lemma split_on_not_Nil [simp]: "split_on c s \<noteq> []"
  by (cases s) (auto split: list.split)

lemma length_split_on: "length (split_on c s) = Suc (count_list s c)"
  by (induction s) (auto split: list.split)

lemma split_on_no_sep: "l \<in> set (split_on c s) \<Longrightarrow> c \<notin> set l"
proof (induction s arbitrary: l)
  case (Cons x xs)
  then show ?case
    by (cases "split_on c xs") (auto split: if_splits)
qed simp

lemma join_with_Cons: "xs \<noteq> [] \<Longrightarrow> join_with sep (x # xs) = x @ sep @ join_with sep xs"
  by (cases xs) auto

lemma join_split_on: "join_with [c] (split_on c s) = s"
proof (induction s)
  case (Cons x xs)
  then show ?case
    by (cases "split_on c xs" rule: list.exhaust; cases "tl (split_on c xs)")
      (auto simp: join_with_Cons)
qed simp

lemma split_on_sep_free: "c \<notin> set s \<Longrightarrow> split_on c s = [s]"
  by (induction s) auto

lemma split_on_append_sep: "c \<notin> set s \<Longrightarrow> split_on c (s @ c # t) = s # split_on c t"
  by (induction s) auto

lemma split_join:
  "ls \<noteq> [] \<Longrightarrow> \<forall>l\<in>set ls. c \<notin> set l \<Longrightarrow> split_on c (join_with [c] ls) = ls"
proof (induction ls rule: list_nonempty_induct)
  case (single x)
  then show ?case by (simp add: split_on_sep_free)
next
  case (cons x xs)
  then show ?case by (simp add: join_with_Cons split_on_append_sep)
qed

lemma join_append:
  "xs \<noteq> [] \<Longrightarrow> ys \<noteq> [] \<Longrightarrow> join_with sep (xs @ ys) = join_with sep xs @ sep @ join_with sep ys"
  by (induction xs rule: list_nonempty_induct) (auto simp: join_with_Cons)

lemma count_list_join:
  "ls \<noteq> [] \<Longrightarrow> \<forall>l\<in>set ls. c \<notin> set l \<Longrightarrow> count_list (join_with [c] ls) c = length ls - 1"
  using length_split_on [of c "join_with [c] ls"] split_join [of ls c] by simp

text \<open>
  \<open>s.rfind(c, 0, stop)\<close> for a one-character \<open>c\<close> and a stop already clipped to \<open>0..len(s)\<close>:
  the last index below \<open>stop\<close> that holds \<open>c\<close>, or \<open>-1\<close>.
\<close>

fun rfind_below :: "char \<Rightarrow> string \<Rightarrow> nat \<Rightarrow> int" where
  "rfind_below c s 0 = -1"
| "rfind_below c s (Suc n) =
     (if n < length s \<and> s ! n = c then int n else rfind_below c s n)"

lemma rfind_below_bounds: "-1 \<le> rfind_below c s n \<and> rfind_below c s n < int n"
  by (induction n) auto

lemma rfind_below_less_length: "rfind_below c s n < int (length s)"
  by (induction n) auto

text \<open>
  Python's slice bound: a negative bound counts from the end, everything is clipped.
  \<open>py_take\<close> is \<open>s[:n]\<close> and \<open>py_drop\<close> is \<open>s[n:]\<close>.
\<close>

definition slice_bound :: "'a list \<Rightarrow> int \<Rightarrow> nat" where
  "slice_bound s n = min (length s) (nat (if n < 0 then int (length s) + n else n))"

definition py_take :: "int \<Rightarrow> 'a list \<Rightarrow> 'a list" where
  "py_take n s = take (slice_bound s n) s"

definition py_drop :: "int \<Rightarrow> 'a list \<Rightarrow> 'a list" where
  "py_drop n s = drop (slice_bound s n) s"

lemma py_take_drop [simp]: "py_take n s @ py_drop n s = s"
  by (simp add: py_take_def py_drop_def)

lemma py_take_nonneg: "0 \<le> n \<Longrightarrow> py_take n s = take (nat n) s"
  by (simp add: py_take_def slice_bound_def min_def)

lemma py_drop_nonneg: "0 \<le> n \<Longrightarrow> py_drop n s = drop (nat n) s"
  by (simp add: py_drop_def slice_bound_def min_def)

text \<open>Decimal rendering, \<open>str(n)\<close>.\<close>

fun str_nat :: "nat \<Rightarrow> string" where
  "str_nat n = (if n < 10 then [char_of (48 + n)] else str_nat (n div 10) @ [char_of (48 + n mod 10)])"

declare str_nat.simps [simp del]

definition str_int :: "int \<Rightarrow> string" where
  "str_int i = (if i < 0 then ''-'' @ str_nat (nat (- i)) else str_nat (nat i))"

lemma str_nat_not_Nil [simp]: "str_nat n \<noteq> []"
  by (subst str_nat.simps) simp

text \<open>
  \<open>int(s)\<close> of a string: surrounding white space, a sign, and digits that may be grouped by
  single underscores.  \<open>digits_val acc u s\<close> reads the rest of the digits; \<open>u\<close> says that an
  underscore may follow.
\<close>

fun digits_val :: "nat \<Rightarrow> bool \<Rightarrow> string \<Rightarrow> nat option" where
  "digits_val acc u [] = (if u then Some acc else None)"
| "digits_val acc u (c # s) =
     (if c = CHR ''_'' then (if u then digits_val acc False s else None)
      else let n = (of_char c :: nat)
           in if 48 \<le> n \<and> n \<le> 57 then digits_val (10 * acc + (n - 48)) True s else None)"

definition py_int_of_str :: "string \<Rightarrow> int result" where
  "py_int_of_str s =
     (case py_strip s of
        [] \<Rightarrow> Inl ValueError
      | c # t \<Rightarrow>
          (case (if c = CHR ''-'' \<or> c = CHR ''+'' then digits_val 0 False t else digits_val 0 False (c # t)) of
             None \<Rightarrow> Inl ValueError
           | Some n \<Rightarrow> Inr (if c = CHR ''-'' then - int n else int n)))"

fun py_int_of :: "pyval \<Rightarrow> int result" where
  "py_int_of (PyInt i) = Inr i"
| "py_int_of (PyBool b) = Inr (if b then 1 else 0)"
| "py_int_of (PyFloat q) = Inr (if 0 \<le> q then \<lfloor>q\<rfloor> else \<lceil>q\<rceil>)"
| "py_int_of (PyStr s) = py_int_of_str s"
| "py_int_of _ = Inl TypeError"

subsection \<open>Stripping\<close>

lemma py_lstrip_Nil [simp]: "py_lstrip [] = []"
  by (simp add: py_lstrip_def)

lemma py_strip_Nil [simp]: "py_strip [] = []"
  by (simp add: py_strip_def py_rstrip_def)

lemma length_py_lstrip: "length (py_lstrip s) \<le> length s"
  by (simp add: py_lstrip_def length_dropWhile_le)

lemma hd_dropWhile_py: "dropWhile P s \<noteq> [] \<Longrightarrow> \<not> P (hd (dropWhile P s))"
  by (rule hd_dropWhile)

lemma dropWhile_fixed: "s = [] \<or> \<not> P (hd s) \<Longrightarrow> dropWhile P s = s"
  by (cases s) auto

lemma py_rstrip_decomp: "\<exists>t. s = py_rstrip s @ t \<and> (\<forall>c\<in>set t. py_space c)"
proof -
  let ?t = "rev (takeWhile py_space (rev s))"
  have "rev s = takeWhile py_space (rev s) @ dropWhile py_space (rev s)" by simp
  then have "s = py_rstrip s @ ?t"
    unfolding py_rstrip_def by (metis rev_append rev_rev_ident)
  moreover have "\<forall>c\<in>set ?t. py_space c" using set_takeWhileD by fastforce
  ultimately show ?thesis by blast
qed

lemma py_strip_ends:
  assumes "py_strip s \<noteq> []"
  shows "\<not> py_space (hd (py_strip s))" and "\<not> py_space (last (py_strip s))"
proof -
  let ?l = "py_lstrip s"
  obtain t where t: "?l = py_strip s @ t" "\<forall>c\<in>set t. py_space c"
    unfolding py_strip_def using py_rstrip_decomp by blast
  from t(1) assms have "?l \<noteq> []" and "hd ?l = hd (py_strip s)" by auto
  then show "\<not> py_space (hd (py_strip s))"
    unfolding py_lstrip_def using hd_dropWhile by metis
  have "dropWhile py_space (rev ?l) \<noteq> []"
    using assms by (simp add: py_strip_def py_rstrip_def)
  then show "\<not> py_space (last (py_strip s))"
    using hd_dropWhile [of py_space "rev ?l"] by (simp add: py_strip_def py_rstrip_def last_rev)
qed

lemma py_strip_fixed:
  assumes "s = [] \<or> \<not> py_space (hd s) \<and> \<not> py_space (last s)"
  shows "py_strip s = s"
proof (cases "s = []")
  case False
  with assms have "py_lstrip s = s" by (simp add: py_lstrip_def dropWhile_fixed)
  moreover from False assms have "dropWhile py_space (rev s) = rev s"
    by (simp add: dropWhile_fixed hd_rev)
  ultimately show ?thesis by (simp add: py_strip_def py_rstrip_def)
qed simp

lemma py_strip_idem [simp]: "py_strip (py_strip s) = py_strip s"
  using py_strip_ends by (intro py_strip_fixed) blast

lemma set_py_strip: "set (py_strip s) \<subseteq> set s"
  unfolding py_strip_def py_rstrip_def py_lstrip_def
  by (metis set_dropWhileD set_rev subsetI)

lemma py_strip_eq_Nil_iff: "py_strip s = [] \<longleftrightarrow> (\<forall>c\<in>set s. py_space c)"
proof
  assume "py_strip s = []"
  then have "dropWhile py_space s = []"
    using hd_dropWhile [of py_space s] by (auto simp: py_strip_def py_rstrip_def py_lstrip_def dropWhile_eq_Nil_conv)
  then show "\<forall>c\<in>set s. py_space c" by simp
next
  assume "\<forall>c\<in>set s. py_space c"
  then have "py_lstrip s = []" by (simp add: py_lstrip_def)
  then show "py_strip s = []" by (simp add: py_strip_def py_rstrip_def)
qed

text \<open>\<open>int(str(i)) = i\<close>.\<close>

lemma digit_char [simp]: "d < 10 \<Longrightarrow> (of_char (char_of (48 + d) :: char) :: nat) = 48 + d"
  by (simp add: of_char_mod_256)

lemma str_nat_digits: "c \<in> set (str_nat n) \<Longrightarrow> 48 \<le> (of_char c :: nat) \<and> (of_char c :: nat) \<le> 57"
proof (induction n arbitrary: c rule: str_nat.induct)
  case (1 n)
  then show ?case by (subst (asm) (2) str_nat.simps) (auto split: if_splits)
qed

lemma digits_val_str_nat:
  "\<exists>k. \<forall>s. digits_val acc u (str_nat n @ s) = digits_val (acc * 10 ^ k + n) True s"
proof (induction n arbitrary: acc u rule: str_nat.induct)
  case (1 n)
  have step: "digits_val a v (char_of (48 + d) # s) = digits_val (10 * a + d) True s" if "d < 10" for a v d s
    using that by (auto simp: Let_def dest: arg_cong [where f = "of_char :: char \<Rightarrow> nat"])
  show ?case
  proof (cases "n < 10")
    case True
    then show ?thesis by (subst str_nat.simps) (auto simp: step mult.commute simp del: digits_val.simps intro!: exI [of _ 1])
  next
    case False
    then obtain k where k: "\<And>s. digits_val acc u (str_nat (n div 10) @ s) = digits_val (acc * 10 ^ k + n div 10) True s"
      using 1 by blast
    have "digits_val acc u (str_nat n @ s) = digits_val (acc * 10 ^ Suc k + n) True s" for s
      using False by (subst str_nat.simps) (simp add: k step algebra_simps del: digits_val.simps)
    then show ?thesis by blast
  qed
qed

lemma py_strip_no_space: "\<forall>c\<in>set s. \<not> py_space c \<Longrightarrow> py_strip s = s"
  by (intro py_strip_fixed) (auto simp: hd_in_set last_in_set)

lemma py_int_of_str_int [simp]: "py_int_of_str (str_int i) = Inr i"
proof -
  have d: "digits_val 0 False (str_nat n) = Some n" for n
    using digits_val_str_nat [of 0 False n] by (metis add_0 append_Nil2 digits_val.simps(1) mult_0)
  have "\<forall>c\<in>set (str_int i). \<not> py_space c"
    using str_nat_digits by (fastforce simp: str_int_def py_space_def Let_def split: if_splits)
  then have strip: "py_strip (str_int i) = str_int i" by (rule py_strip_no_space)
  show ?thesis
  proof (cases "i < 0")
    case True
    then show ?thesis using strip by (simp add: py_int_of_str_def d str_int_def)
  next
    case False
    obtain c t where ct: "str_nat (nat i) = c # t" by (cases "str_nat (nat i)") auto
    with str_nat_digits [of c "nat i"] have "c \<noteq> CHR ''-''" "c \<noteq> CHR ''+''" by auto
    then show ?thesis using strip d [of "nat i"] False by (simp add: py_int_of_str_def str_int_def ct)
  qed
qed

subsection \<open>Ordered dictionaries\<close>

text \<open>
  Assignment to an existing key keeps its position, a new key goes to the end, \<open>del\<close> and
  \<open>pop\<close> remove the entry, \<open>move_to_end\<close> makes it the last one.
\<close>

type_synonym ('k, 'v) pydict = "('k \<times> 'v) list"

abbreviation dict_get :: "('k, 'v) pydict \<Rightarrow> 'k \<Rightarrow> 'v option" where
  "dict_get d k \<equiv> map_of d k"

definition dict_keys :: "('k, 'v) pydict \<Rightarrow> 'k list" where
  "dict_keys d = map fst d"

definition dict_values :: "('k, 'v) pydict \<Rightarrow> 'v list" where
  "dict_values d = map snd d"

fun dict_set :: "'k \<Rightarrow> 'v \<Rightarrow> ('k, 'v) pydict \<Rightarrow> ('k, 'v) pydict" where
  "dict_set k v [] = [(k, v)]"
| "dict_set k v ((k', v') # d) = (if k' = k then (k, v) # d else (k', v') # dict_set k v d)"

definition dict_del :: "'k \<Rightarrow> ('k, 'v) pydict \<Rightarrow> ('k, 'v) pydict" where
  "dict_del k d = filter (\<lambda>e. fst e \<noteq> k) d"

definition dict_move_to_end :: "'k \<Rightarrow> ('k, 'v) pydict \<Rightarrow> ('k, 'v) pydict" where
  "dict_move_to_end k d = dict_del k d @ filter (\<lambda>e. fst e = k) d"

definition dict_ok :: "('k, 'v) pydict \<Rightarrow> bool" where
  "dict_ok d \<longleftrightarrow> distinct (map fst d)"

lemma dict_ok_Nil [simp, intro]: "dict_ok []"
  by (simp add: dict_ok_def)

lemma dict_get_set [py_dict, simp]: "dict_get (dict_set k v d) = (dict_get d)(k \<mapsto> v)"
  by (induction d) (auto simp: fun_eq_iff)

lemma map_fst_dict_set:
  "map fst (dict_set k v d) = (if k \<in> fst ` set d then map fst d else map fst d @ [k])"
  by (induction d) (auto, force+)

lemma keys_dict_set [py_dict]: "fst ` set (dict_set k v d) = insert k (fst ` set d)"
  using arg_cong [OF map_fst_dict_set, of set k v d] by (auto split: if_splits)

lemma dict_ok_set [py_dict, intro]: "dict_ok d \<Longrightarrow> dict_ok (dict_set k v d)"
  by (simp add: dict_ok_def map_fst_dict_set)

lemma dict_set_new: "k \<notin> fst ` set d \<Longrightarrow> dict_set k v d = d @ [(k, v)]"
  by (induction d) auto

lemma length_dict_set: "length (dict_set k v d) = (if k \<in> fst ` set d then length d else Suc (length d))"
  using arg_cong [OF map_fst_dict_set, of length k v d] by (simp split: if_splits)

lemma dict_get_None_iff: "dict_get d k = None \<longleftrightarrow> k \<notin> fst ` set d"
  by (simp add: map_of_eq_None_iff)

lemma dict_get_Some_iff: "dict_ok d \<Longrightarrow> dict_get d k = Some v \<longleftrightarrow> (k, v) \<in> set d"
  by (simp add: dict_ok_def)

lemma dict_get_del [py_dict, simp]: "dict_get (dict_del k d) = (dict_get d)(k := None)"
  by (induction d) (auto simp: dict_del_def fun_eq_iff)

lemma dict_ok_del [py_dict, intro]: "dict_ok d \<Longrightarrow> dict_ok (dict_del k d)"
  by (simp add: dict_ok_def dict_del_def distinct_map_filter)

lemma keys_dict_del [py_dict]: "fst ` set (dict_del k d) = fst ` set d - {k}"
  by (auto simp: dict_del_def)

lemma set_dict_set_subset: "set (dict_set k v d) \<subseteq> insert (k, v) (set d)"
  by (induction d) (auto split: if_splits)

lemma set_dict_del_subset: "set (dict_del k d) \<subseteq> set d"
  by (auto simp: dict_del_def)

lemma filter_key_ok:
  "dict_ok d \<Longrightarrow> filter (\<lambda>e. fst e = k) d = (case dict_get d k of None \<Rightarrow> [] | Some v \<Rightarrow> [(k, v)])"
proof (induction d)
  case (Cons e d)
  then show ?case
    by (cases e) (auto simp: dict_ok_def filter_empty_conv split: option.split, force+)
qed simp

lemma length_dict_del:
  "dict_ok d \<Longrightarrow> length (dict_del k d) = (if k \<in> fst ` set d then length d - 1 else length d)"
proof -
  assume ok: "dict_ok d"
  have "length d = length (dict_del k d) + length (filter (\<lambda>e. fst e = k) d)"
    unfolding dict_del_def using sum_length_filter_compl [of "\<lambda>e. fst e = k" d] by simp
  then show ?thesis
    using filter_key_ok [OF ok, of k] dict_get_None_iff [of d k] by (auto split: option.splits)
qed

lemma dict_ok_move [py_dict, intro]: "dict_ok d \<Longrightarrow> dict_ok (dict_move_to_end k d)"
  using dict_ok_del [of d k] filter_key_ok [of d k] keys_dict_del [of k d]
  by (auto simp: dict_move_to_end_def dict_ok_def split: option.splits)

lemma dict_get_move [py_dict, simp]: "dict_ok d \<Longrightarrow> dict_get (dict_move_to_end k d) = dict_get d"
  using filter_key_ok [of d k]
  by (auto simp: dict_move_to_end_def map_add_def fun_eq_iff split: option.split)

lemma mset_dict_move: "mset (dict_move_to_end k d) = mset d"
  by (simp add: dict_move_to_end_def dict_del_def union_filter_mset_complement)

lemma length_dict_move [simp]: "length (dict_move_to_end k d) = length d"
  using mset_dict_move by (metis size_mset)

lemma set_dict_move [simp]: "set (dict_move_to_end k d) = set d"
  using mset_dict_move by (metis set_mset_mset)

lemma last_dict_move:
  "dict_ok d \<Longrightarrow> dict_get d k = Some v \<Longrightarrow> dict_move_to_end k d = dict_del k d @ [(k, v)]"
  using filter_key_ok [of d k] by (simp add: dict_move_to_end_def)

subsection \<open>Enums with string values\<close>

text \<open>
  The contract of \<open>Enum(value)\<close>: the members are all listed and have distinct values, so
  looking a value up in the listing finds its member, and only a member's value is found.
\<close>

locale string_enum =
  fixes members :: "'a list" and "value" :: "'a \<Rightarrow> string"
  assumes all_members: "x \<in> set members"
    and distinct_values: "distinct (map value members)"
begin

lemma value_inject: "value x = value y \<longleftrightarrow> x = y"
  using distinct_values all_members by (auto simp: distinct_map inj_on_def)

lemma find_value: "find (\<lambda>t. value t = value x) members = Some x"
proof -
  have "find (\<lambda>t. t = x) xs = Some x" if "x \<in> set xs" for xs
    using that by (induction xs) auto
  then show ?thesis using all_members by (simp add: value_inject)
qed

lemma find_value_None_iff: "find (\<lambda>t. value t = s) members = None \<longleftrightarrow> s \<notin> range value"
  using all_members by (auto simp: find_None_iff)

end

end
