(* ===== verification/Py_Regex.thy ===== *)
theory Py_Regex
  imports Prelude
begin

text \<open>
  The pieces of Python's \<open>re\<close> that several components use: the character classes \<open>\d\<close> and \<open>\w\<close>,
  the assertion \<open>\b\<close>, literals and digit runs, and the laws of \<open>str.replace\<close>.  The expressions of
  the code are deterministic where they are used, so a match is a function of the text.
\<close>

subsection \<open>Digits and literals\<close>

definition is_digit :: "char \<Rightarrow> bool" where
  "is_digit c \<longleftrightarrow> (let n = (of_char c :: nat) in 48 \<le> n \<and> n \<le> 57)"

definition match_lit :: "string \<Rightarrow> string \<Rightarrow> string option" where
  "match_lit p s = (if starts_with s p then Some (drop (length p) s) else None)"

definition match_digits :: "string \<Rightarrow> (string \<times> string) option" where
  "match_digits s =
     (if takeWhile is_digit s = [] then None else Some (takeWhile is_digit s, dropWhile is_digit s))"

definition digits_int :: "string \<Rightarrow> int" where
  "digits_int d = projr (py_int_of_str d)"

text \<open>
  \<open>\w\<close> on Latin-1: the characters for which \<open>isalnum\<close> holds and the underscore.  \<open>\b\<close> holds between
  two characters (or text ends) of which exactly one is such a character.
\<close>

definition is_word :: "char \<Rightarrow> bool" where
  "is_word c \<longleftrightarrow>
     (let n = (of_char c :: nat)
      in (48 \<le> n \<and> n \<le> 57) \<or> (65 \<le> n \<and> n \<le> 90) \<or> n = 95 \<or> (97 \<le> n \<and> n \<le> 122)
         \<or> n = 170 \<or> n = 178 \<or> n = 179 \<or> n = 181 \<or> n = 185 \<or> n = 186 \<or> (188 \<le> n \<and> n \<le> 190)
         \<or> (192 \<le> n \<and> n \<noteq> 215 \<and> n \<noteq> 247))"

definition word_before :: "char option \<Rightarrow> bool" where
  "word_before prev = (case prev of None \<Rightarrow> False | Some c \<Rightarrow> is_word c)"

definition word_after :: "string \<Rightarrow> bool" where
  "word_after s = (case s of [] \<Rightarrow> False | c # _ \<Rightarrow> is_word c)"

lemma match_lit_append [simp]: "match_lit p (p @ s) = Some s"
  by (simp add: match_lit_def starts_with_def)

lemma is_digit_str_nat: "list_all is_digit (str_nat n)"
  using str_nat_digits [of _ n] by (auto simp: list_all_iff is_digit_def Let_def)

lemma match_digits_str_nat:
  "s = [] \<or> \<not> is_digit (hd s) \<Longrightarrow> match_digits (str_nat n @ s) = Some (str_nat n, s)"
proof -
  assume "s = [] \<or> \<not> is_digit (hd s)"
  then have "takeWhile is_digit s = []" "dropWhile is_digit s = s" by (cases s; simp)+
  moreover have "takeWhile is_digit (str_nat n @ s) = str_nat n @ takeWhile is_digit s"
    "dropWhile is_digit (str_nat n @ s) = dropWhile is_digit s"
    using is_digit_str_nat [of n] by (simp_all add: list_all_iff)
  ultimately show ?thesis by (simp add: match_digits_def)
qed

lemma digits_int_str_nat [simp]: "digits_int (str_nat n) = int n"
  using py_int_of_str_int [of "int n"] by (simp add: digits_int_def str_int_def)

lemma match_lit_Some_iff: "match_lit p s = Some r \<longleftrightarrow> s = p @ r"
  unfolding match_lit_def starts_with_def by (metis append_eq_conv_conj append_take_drop_id option.inject option.simps(3))

lemma match_digits_Some_iff:
  "match_digits s = Some (ds, r) \<longleftrightarrow>
     s = ds @ r \<and> ds \<noteq> [] \<and> list_all is_digit ds \<and> (r = [] \<or> \<not> is_digit (hd r))"
proof
  assume "match_digits s = Some (ds, r)"
  then have "ds = takeWhile is_digit s" "r = dropWhile is_digit s" "ds \<noteq> []"
    by (auto simp: match_digits_def split: if_splits)
  then show "s = ds @ r \<and> ds \<noteq> [] \<and> list_all is_digit ds \<and> (r = [] \<or> \<not> is_digit (hd r))"
    using hd_dropWhile [of is_digit s] by (auto simp: list_all_iff dest: set_takeWhileD)
next
  assume r: "s = ds @ r \<and> ds \<noteq> [] \<and> list_all is_digit ds \<and> (r = [] \<or> \<not> is_digit (hd r))"
  then have "takeWhile is_digit r = []" "dropWhile is_digit r = r" by (cases r; simp)+
  moreover have "takeWhile is_digit (ds @ r) = ds @ takeWhile is_digit r"
    "dropWhile is_digit (ds @ r) = dropWhile is_digit r"
    using r by (simp_all add: list_all_iff)
  ultimately show "match_digits s = Some (ds, r)" using r by (simp add: match_digits_def)
qed

subsection \<open>Laws of \<open>str.replace\<close>\<close>

lemma str_replace_empty [simp]: "str_replace old new [] = []"
  by (subst str_replace.simps) simp

lemma str_replace_match: "old \<noteq> [] \<Longrightarrow> str_replace old new (old @ s) = new @ str_replace old new s"
  by (cases old; subst str_replace.simps) (simp_all add: starts_with_def)

lemma str_replace_skip: "\<not> starts_with (c # s) old \<Longrightarrow> str_replace old new (c # s) = c # str_replace old new s"
  by (subst str_replace.simps) simp

lemma str_replace_skip_free:
  assumes "hd old \<notin> set u" and "old \<noteq> []"
  shows "str_replace old new (u @ s) = u @ str_replace old new s"
  using assms(1)
proof (induction u)
  case (Cons c u)
  then have "\<not> starts_with (c # u @ s) old" using assms(2) by (cases old) (auto simp: starts_with_def)
  with Cons show ?case by (simp add: str_replace_skip)
qed simp

end
