(* ===== verification/Py_Float.thy ===== *)
theory Py_Float
  imports Prelude
begin

text \<open>
  Python's \<open>float\<close> arithmetic as far as the code relies on it: IEEE 754 binary64 with
  rounding to nearest, ties to even.  A finite float is the rational number it denotes;
  \<open>fl q\<close> is the float that the exact result \<open>q\<close> of an operation is rounded to (53 bits of
  significand).  The exponent is not bounded: the values rounded here are ratios and products
  of string lengths, line counts and token counts, far from overflow and underflow.

  Python divides two ints with a single correct rounding (\<open>py_truediv\<close>) and converts an int
  operand of a mixed product to a float first (\<open>py_fmul\<close>).  \<open>py_trunc\<close> is \<open>int(x)\<close>.
  The lemmas give what the clients need: rounding is monotone, keeps the sign, and is exact
  on the integers of at most 53 bits.
\<close>

fun ilog2 :: "nat \<Rightarrow> nat" where
  "ilog2 n = (if n < 2 then 0 else Suc (ilog2 (n div 2)))"

declare ilog2.simps [simp del]

definition rat_log2 :: "rat \<Rightarrow> int" where
  "rat_log2 q =
     (if 1 \<le> q then int (ilog2 (nat \<lfloor>q\<rfloor>))
      else (let k = ilog2 (nat \<lfloor>1 / q\<rfloor>) in if 1 / q = 2 ^ k then - int k else - int (Suc k)))"

definition round_half_even :: "rat \<Rightarrow> int" where
  "round_half_even q =
     (let f = \<lfloor>q\<rfloor>; d = q - of_int f
      in if d < 1 / 2 then f else if 1 / 2 < d then f + 1 else if even f then f else f + 1)"

definition fl :: "rat \<Rightarrow> rat" where
  "fl q =
     (if q = 0 then 0
      else (let e = rat_log2 \<bar>q\<bar> - 52
            in sgn q * (of_int (round_half_even (\<bar>q\<bar> / 2 powi e)) * 2 powi e)))"

definition py_truediv :: "int \<Rightarrow> int \<Rightarrow> rat" where
  "py_truediv a b = fl (of_int a / of_int b)"

definition py_fmul :: "rat \<Rightarrow> int \<Rightarrow> rat" where
  "py_fmul x n = fl (x * fl (of_int n))"

definition py_trunc :: "rat \<Rightarrow> int" where
  "py_trunc q = (if 0 \<le> q then \<lfloor>q\<rfloor> else \<lceil>q\<rceil>)"

subsection \<open>The binary exponent\<close>

lemma ilog2_bounds: "0 < n \<Longrightarrow> 2 ^ ilog2 n \<le> n \<and> n < 2 ^ Suc (ilog2 n)"
proof (induction n rule: ilog2.induct)
  case (1 n)
  show ?case
  proof (cases "n < 2")
    case True
    with "1.prems" show ?thesis by (simp add: ilog2.simps [of n])
  next
    case False
    then have "2 ^ ilog2 (n div 2) \<le> n div 2 \<and> n div 2 < 2 ^ Suc (ilog2 (n div 2))"
      using "1.IH" by simp
    then have "2 * 2 ^ ilog2 (n div 2) \<le> n" and "n < 2 * 2 ^ Suc (ilog2 (n div 2))" by auto
    with False show ?thesis by (simp add: ilog2.simps [of n])
  qed
qed

lemma ilog2_floor_bounds:
  assumes "1 \<le> (q::rat)"
  shows "2 ^ ilog2 (nat \<lfloor>q\<rfloor>) \<le> q" and "q < 2 ^ Suc (ilog2 (nat \<lfloor>q\<rfloor>))"
proof -
  let ?k = "ilog2 (nat \<lfloor>q\<rfloor>)"
  from assms have f: "1 \<le> \<lfloor>q\<rfloor>" by (simp add: le_floor_iff)
  then have b: "2 ^ ?k \<le> nat \<lfloor>q\<rfloor>" "nat \<lfloor>q\<rfloor> < 2 ^ Suc ?k" using ilog2_bounds [of "nat \<lfloor>q\<rfloor>"] by auto
  from b(1) f have "(2::int) ^ ?k \<le> \<lfloor>q\<rfloor>" by (metis nat_le_iff not_le numeral_power_le_nat_cancel_iff)
  then show "2 ^ ?k \<le> q" by (simp add: le_floor_iff)
  from b(2) f have "\<lfloor>q\<rfloor> < (2::int) ^ Suc ?k"
    by (metis nat_less_numeral_power_cancel_iff)
  then show "q < 2 ^ Suc ?k" by (simp add: floor_less_iff)
qed

lemma powi2_neg_of_nat: "(2::rat) powi (- int k) = 1 / 2 ^ k"
  by (simp add: power_int_minus inverse_eq_divide)

lemma powi2_neg_of_nat_plus1: "(2::rat) powi (- int k + 1) = 2 / 2 ^ k"
  by (subst power_int_add) (simp_all only: powi2_neg_of_nat, simp_all)

lemma powi2_minus_52: "(2::rat) ^ 52 * 2 powi (e - 52) = 2 powi e"
  by (simp add: power_int_diff)

lemma powi2_minus_52': "(2::rat) ^ 53 * 2 powi (e - 52) = 2 powi (e + 1)"
  by (simp add: power_int_diff power_int_add)

lemma rat_log2_bounds:
  assumes "0 < q"
  shows "2 powi rat_log2 q \<le> q" and "q < 2 powi (rat_log2 q + 1)"
proof -
  have "2 powi rat_log2 q \<le> q \<and> q < 2 powi (rat_log2 q + 1)"
  proof (cases "1 \<le> q")
    case True
    have s: "int (ilog2 (nat \<lfloor>q\<rfloor>)) + 1 = int (Suc (ilog2 (nat \<lfloor>q\<rfloor>)))" by simp
    show ?thesis
      using True ilog2_floor_bounds [OF True]
      unfolding rat_log2_def if_P [OF True] s power_int_of_nat by blast
  next
    case False
    define k where "k = ilog2 (nat \<lfloor>1 / q\<rfloor>)"
    from False assms have "1 \<le> 1 / q" by simp
    then have b: "2 ^ k \<le> 1 / q" "1 / q < 2 ^ Suc k" unfolding k_def by (rule ilog2_floor_bounds)+
    have le: "q \<le> 1 / 2 ^ k" and lt: "1 / 2 ^ Suc k < q"
      using b assms by (simp_all add: field_simps)
    show ?thesis
    proof (cases "1 / q = 2 ^ k")
      case True
      then have "q = 1 / 2 ^ k" using assms by (simp add: field_simps)
      moreover from True False have "rat_log2 q = - int k" by (simp add: rat_log2_def k_def Let_def)
      ultimately show ?thesis
        using assms by (simp only: powi2_neg_of_nat powi2_neg_of_nat_plus1) (simp add: divide_simps)
    next
      case neq: False
      then have "q \<noteq> 1 / 2 ^ k" by auto
      with le have "q < 1 / 2 ^ k" by (rule order.not_eq_order_implies_strict [rotated])
      moreover from neq False have e: "rat_log2 q = - int (Suc k)" by (simp add: rat_log2_def k_def Let_def)
      ultimately show ?thesis using lt
        unfolding e powi2_neg_of_nat powi2_neg_of_nat_plus1 by simp
    qed
  qed
  then show "2 powi rat_log2 q \<le> q" and "q < 2 powi (rat_log2 q + 1)" by simp_all
qed

lemma powi2_mono: "a \<le> b \<Longrightarrow> (2::rat) powi a \<le> 2 powi b"
  by (rule power_int_increasing) simp_all

lemma rat_log2_mono: "0 < p \<Longrightarrow> p \<le> q \<Longrightarrow> rat_log2 p \<le> rat_log2 q"
proof (rule ccontr)
  assume "0 < p" "p \<le> q" "\<not> rat_log2 p \<le> rat_log2 q"
  then have "(2::rat) powi (rat_log2 q + 1) \<le> 2 powi rat_log2 p" by (intro powi2_mono) simp
  with rat_log2_bounds [of p] rat_log2_bounds [of q] \<open>0 < p\<close> \<open>p \<le> q\<close> show False by simp
qed

subsection \<open>Rounding\<close>

lemma round_half_even_near: "of_int (round_half_even q) - 1 / 2 \<le> q \<and> q \<le> of_int (round_half_even q) + 1 / 2"
  by (auto simp: round_half_even_def Let_def) linarith+

lemma round_half_even_of_int [simp]: "round_half_even (of_int n) = n"
  by (simp add: round_half_even_def)

lemma round_half_even_mono:
  assumes "p \<le> q"
  shows "round_half_even p \<le> round_half_even q"
proof (cases "\<lfloor>p\<rfloor> = \<lfloor>q\<rfloor>")
  case True
  with assms show ?thesis by (auto simp: round_half_even_def Let_def)
next
  case False
  with assms have "\<lfloor>p\<rfloor> + 1 \<le> \<lfloor>q\<rfloor>" using floor_mono [OF assms] by linarith
  moreover have "round_half_even p \<le> \<lfloor>p\<rfloor> + 1" and "\<lfloor>q\<rfloor> \<le> round_half_even q"
    by (simp_all add: round_half_even_def Let_def)
  ultimately show ?thesis by linarith
qed

lemma fl_0 [simp]: "fl 0 = 0"
  by (simp add: fl_def)

lemma fl_pos_eq:
  "0 < q \<Longrightarrow> fl q = of_int (round_half_even (q / 2 powi (rat_log2 q - 52))) * 2 powi (rat_log2 q - 52)"
  by (simp add: fl_def Let_def)

lemma fl_minus: "fl (- q) = - fl q"
  by (simp add: fl_def Let_def)

text \<open>The significand of a positive number lies between \<open>2 ^ 52\<close> and \<open>2 ^ 53\<close>.\<close>

lemma significand_bounds:
  assumes "0 < q"
  shows "2 ^ 52 \<le> round_half_even (q / 2 powi (rat_log2 q - 52))"
    and "round_half_even (q / 2 powi (rat_log2 q - 52)) \<le> 2 ^ 53"
proof -
  let ?e = "rat_log2 q - 52"
  have p: "0 < (2::rat) powi ?e" by simp
  have lo: "of_int (2 ^ 52) * 2 powi ?e \<le> q"
    using rat_log2_bounds(1) [OF assms] powi2_minus_52 [of "rat_log2 q"] by simp
  have hi: "q \<le> of_int (2 ^ 53) * 2 powi ?e"
    using rat_log2_bounds(2) [OF assms] powi2_minus_52' [of "rat_log2 q"] by simp
  from lo p have "of_int (2 ^ 52) \<le> q / 2 powi ?e" by (simp add: pos_le_divide_eq)
  from round_half_even_mono [OF this] show "2 ^ 52 \<le> round_half_even (q / 2 powi ?e)"
    by (simp only: round_half_even_of_int)
  from hi p have "q / 2 powi ?e \<le> of_int (2 ^ 53)" by (simp add: pos_divide_le_eq)
  from round_half_even_mono [OF this] show "round_half_even (q / 2 powi ?e) \<le> 2 ^ 53"
    by (simp only: round_half_even_of_int)
qed

lemma fl_pos_bounds:
  assumes "0 < q"
  shows "2 powi rat_log2 q \<le> fl q" and "fl q \<le> 2 powi (rat_log2 q + 1)"
proof -
  let ?e = "rat_log2 q - 52" and ?m = "round_half_even (q / 2 powi (rat_log2 q - 52))"
  have m: "(2::rat) ^ 52 \<le> of_int ?m" "(of_int ?m :: rat) \<le> 2 ^ 53"
    using significand_bounds [OF assms, THEN of_int_le_iff [where 'a = rat, THEN iffD2]] by simp_all
  have "2 powi rat_log2 q = 2 ^ 52 * (2::rat) powi ?e" by (rule powi2_minus_52 [symmetric])
  also have "\<dots> \<le> of_int ?m * 2 powi ?e" by (rule mult_right_mono [OF m(1)]) simp
  finally show "2 powi rat_log2 q \<le> fl q" by (simp add: fl_pos_eq [OF assms])
  have "of_int ?m * 2 powi ?e \<le> 2 ^ 53 * (2::rat) powi ?e" by (rule mult_right_mono [OF m(2)]) simp
  also have "\<dots> = 2 powi (rat_log2 q + 1)" by (rule powi2_minus_52')
  finally show "fl q \<le> 2 powi (rat_log2 q + 1)" by (simp add: fl_pos_eq [OF assms])
qed

lemma fl_pos: "0 < q \<Longrightarrow> 0 < fl q"
  using fl_pos_bounds(1) [of q] by (rule less_le_trans [rotated]) simp_all

lemma fl_mono_pos:
  assumes "0 < p" "p \<le> q"
  shows "fl p \<le> fl q"
proof (cases "rat_log2 p = rat_log2 q")
  case True
  from assms have "p / 2 powi (rat_log2 q - 52) \<le> q / 2 powi (rat_log2 q - 52)"
    by (intro divide_right_mono) simp_all
  then have "round_half_even (p / 2 powi (rat_log2 q - 52)) \<le> round_half_even (q / 2 powi (rat_log2 q - 52))"
    by (rule round_half_even_mono)
  with True assms show ?thesis by (simp add: fl_pos_eq mult_right_mono)
next
  case False
  with rat_log2_mono [OF assms] have "rat_log2 p + 1 \<le> rat_log2 q" by simp
  then have "(2::rat) powi (rat_log2 p + 1) \<le> 2 powi rat_log2 q" by (rule powi2_mono)
  with fl_pos_bounds(2) [of p] fl_pos_bounds(1) [of q] assms show ?thesis by simp
qed

theorem fl_mono: "p \<le> q \<Longrightarrow> fl p \<le> fl q"
proof (cases "0 < p"; cases "0 \<le> q")
  assume "p \<le> q" "\<not> 0 < p" "\<not> 0 \<le> q"
  then show ?thesis using fl_mono_pos [of "- q" "- p"] by (simp add: fl_minus)
next
  assume "p \<le> q" "\<not> 0 < p" "0 \<le> q"
  moreover have "fl p \<le> 0" using fl_pos [of "- p"] \<open>\<not> 0 < p\<close> by (cases "p = 0") (auto simp: fl_minus)
  moreover have "0 \<le> fl q" using fl_pos [of q] \<open>0 \<le> q\<close> by (cases "q = 0") auto
  ultimately show ?thesis by linarith
qed (auto intro: fl_mono_pos)

lemma fl_nonneg: "0 \<le> q \<Longrightarrow> 0 \<le> fl q"
  using fl_mono [of 0 q] by simp

lemma fl_exact_pos_int:
  assumes "0 < n" "n \<le> 2 ^ 53"
  shows "fl (of_int n) = of_int n"
proof -
  let ?l = "rat_log2 (of_int n)"
  have pos: "(0::rat) < of_int n" using assms by simp
  have "(2::rat) powi ?l \<le> of_int n" using rat_log2_bounds(1) [OF pos] .
  also have n53: "(of_int n :: rat) \<le> 2 powi 53"
    using assms(2) by (metis of_int_le_iff of_int_numeral of_int_power power_int_numeral)
  finally have le: "(2::rat) powi ?l \<le> 2 powi 53" .
  have "?l \<le> 53"
  proof (rule ccontr)
    assume "\<not> ?l \<le> 53"
    then have "(2::rat) powi 54 \<le> 2 powi ?l" by (intro powi2_mono) simp
    with le show False by simp
  qed
  have ex: "\<exists>m. of_int n / (2::rat) powi (?l - 52) = of_int m"
  proof (cases "?l = 53")
    case True
    have "(2::rat) powi 53 \<le> of_int n" using rat_log2_bounds(1) [OF pos] True by simp
    then have "n = 2 ^ 53" using assms(2)
      by (metis antisym of_int_le_iff of_int_numeral of_int_power power_int_numeral)
    with True show ?thesis by (intro exI [of _ "2 ^ 52"]) simp
  next
    case False
    with \<open>?l \<le> 53\<close> have "0 \<le> 52 - ?l" by simp
    then have "(2::rat) powi (?l - 52) = 1 / 2 ^ nat (52 - ?l)"
      by (metis minus_diff_eq power_int_def power_int_minus inverse_eq_divide)
    then show ?thesis by (intro exI [of _ "n * 2 ^ nat (52 - ?l)"]) simp
  qed
  then obtain m where m: "of_int n / (2::rat) powi (?l - 52) = of_int m" ..
  then have "of_int n = of_int m * (2::rat) powi (?l - 52)" by (simp add: divide_eq_eq)
  moreover have "round_half_even (of_int n / 2 powi (?l - 52)) = m" unfolding m by simp
  ultimately show ?thesis unfolding fl_pos_eq [OF pos] by simp
qed

theorem fl_exact_int: "\<bar>n\<bar> \<le> 2 ^ 53 \<Longrightarrow> fl (of_int n) = of_int n"
  using fl_exact_pos_int [of n] fl_exact_pos_int [of "- n"] fl_minus [of "of_int n"]
  by (cases n "0::int" rule: linorder_cases) auto

lemma fl_le_int: "q \<le> of_int n \<Longrightarrow> \<bar>n\<bar> \<le> 2 ^ 53 \<Longrightarrow> fl q \<le> of_int n"
  using fl_mono fl_exact_int by metis

lemma int_le_fl: "of_int n \<le> q \<Longrightarrow> \<bar>n\<bar> \<le> 2 ^ 53 \<Longrightarrow> of_int n \<le> fl q"
  using fl_mono fl_exact_int by metis

subsection \<open>Division, product and truncation\<close>

lemma py_truediv_nonneg: "0 \<le> a \<Longrightarrow> 0 \<le> b \<Longrightarrow> 0 \<le> py_truediv a b"
  by (simp add: py_truediv_def fl_nonneg)

lemma py_truediv_mono: "a \<le> a' \<Longrightarrow> 0 \<le> b \<Longrightarrow> py_truediv a b \<le> py_truediv a' b"
  unfolding py_truediv_def by (intro fl_mono divide_right_mono) simp_all

lemma py_truediv_le_1: "0 \<le> a \<Longrightarrow> a \<le> b \<Longrightarrow> 0 < b \<Longrightarrow> py_truediv a b \<le> 1"
  unfolding py_truediv_def using fl_le_int [of "of_int a / of_int b" 1] by simp

lemma py_fmul_nonneg: "0 \<le> x \<Longrightarrow> 0 \<le> n \<Longrightarrow> 0 \<le> py_fmul x n"
  by (simp add: py_fmul_def fl_nonneg)

lemma py_fmul_mono: "x \<le> y \<Longrightarrow> 0 \<le> n \<Longrightarrow> py_fmul x n \<le> py_fmul y n"
  unfolding py_fmul_def by (intro fl_mono mult_right_mono fl_nonneg) simp_all

lemma py_fmul_le: "x \<le> 1 \<Longrightarrow> 0 \<le> n \<Longrightarrow> n \<le> 2 ^ 53 \<Longrightarrow> py_fmul x n \<le> of_int n"
  unfolding py_fmul_def
  by (intro fl_le_int) (simp_all add: fl_exact_int mult_left_le_one_le mult_right_mono [of x 1, simplified])

lemma py_trunc_nonneg: "0 \<le> q \<Longrightarrow> 0 \<le> py_trunc q"
  by (simp add: py_trunc_def)

lemma py_trunc_mono:
  assumes "p \<le> q"
  shows "py_trunc p \<le> py_trunc q"
proof (cases "0 \<le> p")
  case True
  with assms show ?thesis by (simp add: py_trunc_def floor_mono)
next
  case neg: False
  then have "\<lceil>p\<rceil> \<le> 0" by (simp add: ceiling_le_iff)
  with neg assms show ?thesis
    by (cases "0 \<le> q") (auto simp: py_trunc_def ceiling_mono intro: order_trans [of _ 0])
qed

lemma py_trunc_of_int [simp]: "py_trunc (of_int n) = n"
  by (simp add: py_trunc_def)

lemma py_trunc_le: "q \<le> of_int n \<Longrightarrow> py_trunc q \<le> n"
  using py_trunc_mono [of q "of_int n"] by simp

lemma le_py_trunc: "of_int n \<le> q \<Longrightarrow> n \<le> py_trunc q"
  using py_trunc_mono [of "of_int n" q] by simp

end
