(* ===== verification/Core_Types.thy ===== *)
theory Core_Types
  imports Prelude
begin

text \<open>
  \<open>chunkhound/core/types/common.py\<close>: the enums \<open>ChunkType\<close> and \<open>Language\<close> with their
  classification properties and the detection of a language from a file name, together with
  the table \<open>EXTENSION_TO_LANGUAGE\<close> of \<open>chunkhound/parsers/parser_factory.py\<close> that the
  file-pattern methods read, and the content-based disambiguation of
  \<open>chunkhound/core/detection/language_detector.py\<close>.

  Whether the SCSS grammar is installed is decided by a third-party package at import time;
  it is the argument \<open>scss\<close> of the definitions that depend on it.
\<close>

subsection \<open>Chunk types\<close>

datatype ChunkType =
    CT_FUNCTION | CT_METHOD | CT_CLASS | CT_INTERFACE | CT_STRUCT | CT_ENUM | CT_NAMESPACE |
    CT_CONSTRUCTOR | CT_PROPERTY | CT_FIELD | CT_TYPE_ALIAS | CT_CLOSURE | CT_TRAIT |
    CT_SCRIPT | CT_OBJECT | CT_COMPANION_OBJECT | CT_DATA_CLASS | CT_EXTENSION_FUNCTION |
    CT_PROGRAM | CT_FUNCTION_BLOCK | CT_ACTION | CT_VARIABLE | CT_TYPE | CT_MACRO |
    CT_COMMENT | CT_DOCSTRING | CT_HEADER_1 | CT_HEADER_2 | CT_HEADER_3 | CT_HEADER_4 |
    CT_HEADER_5 | CT_HEADER_6 | CT_PARAGRAPH | CT_CODE_BLOCK | CT_TABLE | CT_KEY_VALUE |
    CT_ARRAY | CT_IMPORT | CT_EMBEDDED_SQL | CT_BLOCK | CT_UNKNOWN

primrec chunk_type_value :: "ChunkType \<Rightarrow> string" where
  "chunk_type_value CT_FUNCTION = ''function''"
| "chunk_type_value CT_METHOD = ''method''"
| "chunk_type_value CT_CLASS = ''class''"
| "chunk_type_value CT_INTERFACE = ''interface''"
| "chunk_type_value CT_STRUCT = ''struct''"
| "chunk_type_value CT_ENUM = ''enum''"
| "chunk_type_value CT_NAMESPACE = ''namespace''"
| "chunk_type_value CT_CONSTRUCTOR = ''constructor''"
| "chunk_type_value CT_PROPERTY = ''property''"
| "chunk_type_value CT_FIELD = ''field''"
| "chunk_type_value CT_TYPE_ALIAS = ''type_alias''"
| "chunk_type_value CT_CLOSURE = ''closure''"
| "chunk_type_value CT_TRAIT = ''trait''"
| "chunk_type_value CT_SCRIPT = ''script''"
| "chunk_type_value CT_OBJECT = ''object''"
| "chunk_type_value CT_COMPANION_OBJECT = ''companion_object''"
| "chunk_type_value CT_DATA_CLASS = ''data_class''"
| "chunk_type_value CT_EXTENSION_FUNCTION = ''extension_function''"
| "chunk_type_value CT_PROGRAM = ''program''"
| "chunk_type_value CT_FUNCTION_BLOCK = ''function_block''"
| "chunk_type_value CT_ACTION = ''action''"
| "chunk_type_value CT_VARIABLE = ''variable''"
| "chunk_type_value CT_TYPE = ''type''"
| "chunk_type_value CT_MACRO = ''macro''"
| "chunk_type_value CT_COMMENT = ''comment''"
| "chunk_type_value CT_DOCSTRING = ''docstring''"
| "chunk_type_value CT_HEADER_1 = ''header_1''"
| "chunk_type_value CT_HEADER_2 = ''header_2''"
| "chunk_type_value CT_HEADER_3 = ''header_3''"
| "chunk_type_value CT_HEADER_4 = ''header_4''"
| "chunk_type_value CT_HEADER_5 = ''header_5''"
| "chunk_type_value CT_HEADER_6 = ''header_6''"
| "chunk_type_value CT_PARAGRAPH = ''paragraph''"
| "chunk_type_value CT_CODE_BLOCK = ''code_block''"
| "chunk_type_value CT_TABLE = ''table''"
| "chunk_type_value CT_KEY_VALUE = ''key_value''"
| "chunk_type_value CT_ARRAY = ''array''"
| "chunk_type_value CT_IMPORT = ''import''"
| "chunk_type_value CT_EMBEDDED_SQL = ''embedded_sql''"
| "chunk_type_value CT_BLOCK = ''block''"
| "chunk_type_value CT_UNKNOWN = ''unknown''"

definition chunk_types :: "ChunkType list" where
  "chunk_types =
    [CT_FUNCTION, CT_METHOD, CT_CLASS, CT_INTERFACE, CT_STRUCT, CT_ENUM, CT_NAMESPACE,
     CT_CONSTRUCTOR, CT_PROPERTY, CT_FIELD, CT_TYPE_ALIAS, CT_CLOSURE, CT_TRAIT, CT_SCRIPT,
     CT_OBJECT, CT_COMPANION_OBJECT, CT_DATA_CLASS, CT_EXTENSION_FUNCTION, CT_PROGRAM,
     CT_FUNCTION_BLOCK, CT_ACTION, CT_VARIABLE, CT_TYPE, CT_MACRO, CT_COMMENT, CT_DOCSTRING,
     CT_HEADER_1, CT_HEADER_2, CT_HEADER_3, CT_HEADER_4, CT_HEADER_5, CT_HEADER_6,
     CT_PARAGRAPH, CT_CODE_BLOCK, CT_TABLE, CT_KEY_VALUE, CT_ARRAY, CT_IMPORT, CT_EMBEDDED_SQL,
     CT_BLOCK, CT_UNKNOWN]"

definition chunk_type_from_string :: "string \<Rightarrow> ChunkType" where
  "chunk_type_from_string s =
     (case find (\<lambda>t. chunk_type_value t = s) chunk_types of None \<Rightarrow> CT_UNKNOWN | Some t \<Rightarrow> t)"

definition is_code :: "ChunkType \<Rightarrow> bool" where
  "is_code t \<longleftrightarrow> t \<in> set
    [CT_FUNCTION, CT_METHOD, CT_CLASS, CT_INTERFACE, CT_STRUCT, CT_ENUM, CT_NAMESPACE,
     CT_CONSTRUCTOR, CT_PROPERTY, CT_FIELD, CT_TYPE_ALIAS, CT_CLOSURE, CT_TRAIT, CT_SCRIPT,
     CT_TABLE, CT_OBJECT, CT_COMPANION_OBJECT, CT_DATA_CLASS, CT_EXTENSION_FUNCTION, CT_BLOCK,
     CT_VARIABLE, CT_TYPE, CT_MACRO, CT_IMPORT, CT_EMBEDDED_SQL, CT_PROGRAM, CT_FUNCTION_BLOCK,
     CT_ACTION]"

definition is_documentation :: "ChunkType \<Rightarrow> bool" where
  "is_documentation t \<longleftrightarrow> t \<in> set
    [CT_COMMENT, CT_DOCSTRING, CT_HEADER_1, CT_HEADER_2, CT_HEADER_3, CT_HEADER_4, CT_HEADER_5,
     CT_HEADER_6, CT_PARAGRAPH, CT_CODE_BLOCK]"

subsection \<open>Languages\<close>

datatype Language =
    L_PYTHON | L_JAVA | L_CSHARP | L_TYPESCRIPT | L_JAVASCRIPT | L_TSX | L_JSX | L_GROOVY |
    L_KOTLIN | L_GO | L_HASKELL | L_RUST | L_ZIG | L_BASH | L_MAKEFILE | L_C | L_CPP |
    L_METAL | L_MATLAB | L_HCL | L_OBJC | L_PHP | L_VUE | L_SVELTE | L_SQL | L_SWIFT | L_DART |
    L_ELIXIR | L_LUA | L_POWERSHELL | L_TWINCAT | L_HTML | L_CSS | L_SCSS | L_JINJA |
    L_MARKDOWN | L_JSON | L_YAML | L_TOML | L_TEXT | L_PDF | L_UNKNOWN | L_GIT_DIFF

primrec language_value :: "Language \<Rightarrow> string" where
  "language_value L_PYTHON = ''python''"
| "language_value L_JAVA = ''java''"
| "language_value L_CSHARP = ''csharp''"
| "language_value L_TYPESCRIPT = ''typescript''"
| "language_value L_JAVASCRIPT = ''javascript''"
| "language_value L_TSX = ''tsx''"
| "language_value L_JSX = ''jsx''"
| "language_value L_GROOVY = ''groovy''"
| "language_value L_KOTLIN = ''kotlin''"
| "language_value L_GO = ''go''"
| "language_value L_HASKELL = ''haskell''"
| "language_value L_RUST = ''rust''"
| "language_value L_ZIG = ''zig''"
| "language_value L_BASH = ''bash''"
| "language_value L_MAKEFILE = ''makefile''"
| "language_value L_C = ''c''"
| "language_value L_CPP = ''cpp''"
| "language_value L_METAL = ''metal''"
| "language_value L_MATLAB = ''matlab''"
| "language_value L_HCL = ''hcl''"
| "language_value L_OBJC = ''objc''"
| "language_value L_PHP = ''php''"
| "language_value L_VUE = ''vue''"
| "language_value L_SVELTE = ''svelte''"
| "language_value L_SQL = ''sql''"
| "language_value L_SWIFT = ''swift''"
| "language_value L_DART = ''dart''"
| "language_value L_ELIXIR = ''elixir''"
| "language_value L_LUA = ''lua''"
| "language_value L_POWERSHELL = ''powershell''"
| "language_value L_TWINCAT = ''twincat''"
| "language_value L_HTML = ''html''"
| "language_value L_CSS = ''css''"
| "language_value L_SCSS = ''scss''"
| "language_value L_JINJA = ''jinja''"
| "language_value L_MARKDOWN = ''markdown''"
| "language_value L_JSON = ''json''"
| "language_value L_YAML = ''yaml''"
| "language_value L_TOML = ''toml''"
| "language_value L_TEXT = ''text''"
| "language_value L_PDF = ''pdf''"
| "language_value L_UNKNOWN = ''unknown''"
| "language_value L_GIT_DIFF = ''git_diff''"

definition languages :: "Language list" where
  "languages =
    [L_PYTHON, L_JAVA, L_CSHARP, L_TYPESCRIPT, L_JAVASCRIPT, L_TSX, L_JSX, L_GROOVY, L_KOTLIN,
     L_GO, L_HASKELL, L_RUST, L_ZIG, L_BASH, L_MAKEFILE, L_C, L_CPP, L_METAL, L_MATLAB, L_HCL,
     L_OBJC, L_PHP, L_VUE, L_SVELTE, L_SQL, L_SWIFT, L_DART, L_ELIXIR, L_LUA, L_POWERSHELL,
     L_TWINCAT, L_HTML, L_CSS, L_SCSS, L_JINJA, L_MARKDOWN, L_JSON, L_YAML, L_TOML, L_TEXT,
     L_PDF, L_UNKNOWN, L_GIT_DIFF]"

definition language_from_string :: "string \<Rightarrow> Language" where
  "language_from_string s =
     (case find (\<lambda>l. language_value l = s) languages of None \<Rightarrow> L_UNKNOWN | Some l \<Rightarrow> l)"

definition is_programming_language :: "Language \<Rightarrow> bool" where
  "is_programming_language l \<longleftrightarrow> l \<in> set
    [L_PYTHON, L_JAVA, L_CSHARP, L_TYPESCRIPT, L_JAVASCRIPT, L_TSX, L_JSX, L_GROOVY, L_KOTLIN,
     L_GO, L_HASKELL, L_RUST, L_BASH, L_MAKEFILE, L_C, L_CPP, L_METAL, L_MATLAB, L_OBJC, L_PHP,
     L_SQL, L_VUE, L_SVELTE, L_SWIFT, L_DART, L_ELIXIR, L_LUA, L_POWERSHELL, L_TWINCAT]"

definition supports_classes :: "Language \<Rightarrow> bool" where
  "supports_classes l \<longleftrightarrow> l \<in> set
    [L_PYTHON, L_JAVA, L_CSHARP, L_TYPESCRIPT, L_TSX, L_GROOVY, L_KOTLIN, L_GO, L_CPP, L_METAL,
     L_MATLAB, L_OBJC, L_PHP, L_VUE, L_SVELTE, L_SWIFT, L_DART, L_POWERSHELL]"

definition supports_interfaces :: "Language \<Rightarrow> bool" where
  "supports_interfaces l \<longleftrightarrow> l \<in> set
    [L_JAVA, L_CSHARP, L_TYPESCRIPT, L_TSX, L_PHP, L_VUE, L_SVELTE, L_SWIFT]"

definition is_structured_config_language :: "Language \<Rightarrow> bool" where
  "is_structured_config_language l \<longleftrightarrow> l \<in> set
    [L_JSON, L_YAML, L_TOML, L_HCL]"

subsection \<open>File names\<close>

text \<open>
  The parts of a POSIX path that \<open>pathlib\<close> keeps (empty and \<open>.\<close> components are dropped),
  its last component \<open>Path.name\<close> and its \<open>Path.suffix\<close>: from the last dot on, unless that dot
  starts or ends the name.
\<close>

definition path_parts :: "string \<Rightarrow> string list" where
  "path_parts p = filter (\<lambda>c. c \<noteq> [] \<and> c \<noteq> ''.'') (split_on CHR ''/'' p)"

definition path_name :: "string \<Rightarrow> string" where
  "path_name p = (if path_parts p = [] then [] else last (path_parts p))"

definition path_suffix :: "string \<Rightarrow> string" where
  "path_suffix p =
     (let n = path_name p; i = rfind_below CHR ''.'' n (length n)
      in if 0 < i \<and> i < int (length n) - 1 then drop (nat i) n else [])"

definition filename_map :: "(string, Language) pydict" where
  "filename_map =
    [(''makefile'', L_MAKEFILE), (''gnumakefile'', L_MAKEFILE), (''dockerfile'', L_TEXT),
     (''jenkinsfile'', L_TEXT)]"

definition extension_map :: "bool \<Rightarrow> (string, Language) pydict" where
  "extension_map scss =
    [(''.py'', L_PYTHON), (''.pyi'', L_PYTHON), (''.pyw'', L_PYTHON), (''.java'', L_JAVA),
     (''.cs'', L_CSHARP), (''.csx'', L_CSHARP), (''.ts'', L_TYPESCRIPT),
     (''.mts'', L_TYPESCRIPT), (''.cts'', L_TYPESCRIPT), (''.js'', L_JAVASCRIPT),
     (''.mjs'', L_JAVASCRIPT), (''.cjs'', L_JAVASCRIPT), (''.tsx'', L_TSX), (''.jsx'', L_JSX),
     (''.groovy'', L_GROOVY), (''.gvy'', L_GROOVY), (''.gy'', L_GROOVY), (''.gsh'', L_GROOVY),
     (''.kt'', L_KOTLIN), (''.kts'', L_KOTLIN), (''.go'', L_GO), (''.hs'', L_HASKELL),
     (''.lhs'', L_HASKELL), (''.hs-boot'', L_HASKELL), (''.hsig'', L_HASKELL),
     (''.hsc'', L_HASKELL), (''.sh'', L_BASH), (''.bash'', L_BASH), (''.zsh'', L_BASH),
     (''.fish'', L_BASH), (''.mk'', L_MAKEFILE), (''.mak'', L_MAKEFILE),
     (''.make'', L_MAKEFILE), (''.md'', L_MARKDOWN), (''.markdown'', L_MARKDOWN),
     (''.mdown'', L_MARKDOWN), (''.mkd'', L_MARKDOWN), (''.mdx'', L_MARKDOWN),
     (''.dart'', L_DART), (''.hcl'', L_HCL), (''.tf'', L_HCL), (''.tfvars'', L_HCL),
     (''.json'', L_JSON), (''.yaml'', L_YAML), (''.yml'', L_YAML), (''.toml'', L_TOML),
     (''.txt'', L_TEXT), (''.text'', L_TEXT), (''.pdf'', L_PDF), (''.c'', L_C), (''.h'', L_C),
     (''.cpp'', L_CPP), (''.cxx'', L_CPP), (''.cc'', L_CPP), (''.c++'', L_CPP),
     (''.hpp'', L_CPP), (''.hxx'', L_CPP), (''.hh'', L_CPP), (''.h++'', L_CPP),
     (''.metal'', L_METAL), (''.rs'', L_RUST), (''.zig'', L_ZIG), (''.m'', L_MATLAB),
     (''.mm'', L_OBJC), (''.php'', L_PHP), (''.phtml'', L_PHP), (''.php3'', L_PHP),
     (''.php4'', L_PHP), (''.php5'', L_PHP), (''.phps'', L_PHP), (''.vue'', L_VUE),
     (''.svelte'', L_SVELTE), (''.sql'', L_SQL), (''.swift'', L_SWIFT),
     (''.swiftinterface'', L_SWIFT), (''.ex'', L_ELIXIR), (''.exs'', L_ELIXIR),
     (''.lua'', L_LUA), (''.ps1'', L_POWERSHELL), (''.psm1'', L_POWERSHELL),
     (''.scss'', (if scss then L_SCSS else L_TEXT)), (''.html'', L_HTML), (''.htm'', L_HTML),
     (''.xhtml'', L_HTML), (''.css'', L_CSS), (''.sass'', L_TEXT), (''.haml'', L_TEXT),
     (''.jinja'', L_JINJA), (''.j2'', L_JINJA), (''.njk'', L_JINJA), (''.tcpou'', L_TWINCAT),
     (''.proto'', L_TEXT), (''.graphql'', L_TEXT), (''.gql'', L_TEXT), (''.xml'', L_TEXT),
     (''.ini'', L_TEXT), (''.properties'', L_TEXT), (''.conf'', L_TEXT), (''.cfg'', L_TEXT)]"

definition EXTENSION_TO_LANGUAGE :: "bool \<Rightarrow> (string, Language) pydict" where
  "EXTENSION_TO_LANGUAGE scss =
    [(''.py'', L_PYTHON), (''.pyi'', L_PYTHON), (''.pyw'', L_PYTHON), (''.js'', L_JAVASCRIPT),
     (''.mjs'', L_JAVASCRIPT), (''.cjs'', L_JAVASCRIPT), (''.jsx'', L_JSX),
     (''.ts'', L_TYPESCRIPT), (''.tsx'', L_TSX), (''.mts'', L_TYPESCRIPT),
     (''.cts'', L_TYPESCRIPT), (''.java'', L_JAVA), (''.kt'', L_KOTLIN), (''.kts'', L_KOTLIN),
     (''.groovy'', L_GROOVY), (''.gvy'', L_GROOVY), (''.gy'', L_GROOVY), (''.gsh'', L_GROOVY),
     (''.c'', L_C), (''.h'', L_C), (''.cpp'', L_CPP), (''.cxx'', L_CPP), (''.cc'', L_CPP),
     (''.c++'', L_CPP), (''.hpp'', L_CPP), (''.hxx'', L_CPP), (''.hh'', L_CPP),
     (''.h++'', L_CPP), (''.metal'', L_METAL), (''.cs'', L_CSHARP), (''.csx'', L_CSHARP),
     (''.go'', L_GO), (''.hs'', L_HASKELL), (''.lhs'', L_HASKELL), (''.hs-boot'', L_HASKELL),
     (''.hsig'', L_HASKELL), (''.hsc'', L_HASKELL), (''.rs'', L_RUST), (''.zig'', L_ZIG),
     (''.sh'', L_BASH), (''.bash'', L_BASH), (''.zsh'', L_BASH), (''.fish'', L_BASH),
     (''.m'', L_MATLAB), (''.dart'', L_DART), (''.ex'', L_ELIXIR), (''.exs'', L_ELIXIR),
     (''.mm'', L_OBJC), (''.php'', L_PHP), (''.phtml'', L_PHP), (''.php3'', L_PHP),
     (''.php4'', L_PHP), (''.php5'', L_PHP), (''.phps'', L_PHP), (''.sql'', L_SQL),
     (''.swift'', L_SWIFT), (''.swiftinterface'', L_SWIFT), (''.lua'', L_LUA),
     (''.ps1'', L_POWERSHELL), (''.psm1'', L_POWERSHELL), (''.vue'', L_VUE),
     (''.svelte'', L_SVELTE), (''.json'', L_JSON), (''.yaml'', L_YAML), (''.yml'', L_YAML),
     (''.toml'', L_TOML), (''.hcl'', L_HCL), (''.tf'', L_HCL), (''.tfvars'', L_HCL),
     (''.md'', L_MARKDOWN), (''.markdown'', L_MARKDOWN), (''.mdown'', L_MARKDOWN),
     (''.mkd'', L_MARKDOWN), (''.mdx'', L_MARKDOWN), (''makefile'', L_MAKEFILE),
     (''Makefile'', L_MAKEFILE), (''GNUmakefile'', L_MAKEFILE), (''.mk'', L_MAKEFILE),
     (''.mak'', L_MAKEFILE), (''.html'', L_HTML), (''.htm'', L_HTML), (''.xhtml'', L_HTML),
     (''.jinja'', L_JINJA), (''.j2'', L_JINJA), (''.njk'', L_JINJA), (''.css'', L_CSS),
     (''.scss'', (if scss then L_SCSS else L_TEXT)), (''.sass'', L_TEXT), (''.haml'', L_TEXT),
     (''.make'', L_MAKEFILE), (''.txt'', L_TEXT), (''.text'', L_TEXT), (''.pdf'', L_PDF),
     (''.TcPOU'', L_TWINCAT), (''.tcpou'', L_TWINCAT), (''.proto'', L_TEXT),
     (''.graphql'', L_TEXT), (''.gql'', L_TEXT), (''.xml'', L_TEXT), (''.ini'', L_TEXT),
     (''.properties'', L_TEXT), (''.conf'', L_TEXT), (''.cfg'', L_TEXT),
     (''Dockerfile'', L_TEXT), (''dockerfile'', L_TEXT), (''Jenkinsfile'', L_TEXT),
     (''jenkinsfile'', L_TEXT)]"

definition from_file_extension :: "bool \<Rightarrow> string \<Rightarrow> Language" where
  "from_file_extension scss p =
     (case dict_get filename_map (py_lower (path_name p)) of
        Some l \<Rightarrow> l
      | None \<Rightarrow>
          (case dict_get (extension_map scss) (py_lower (path_suffix p)) of
             Some l \<Rightarrow> l
           | None \<Rightarrow> L_UNKNOWN))"

definition get_all_extensions :: "bool \<Rightarrow> string set" where
  "get_all_extensions scss =
     set (filter (\<lambda>k. starts_with k ''.'') (dict_keys (EXTENSION_TO_LANGUAGE scss)))"

definition get_all_filename_patterns :: "bool \<Rightarrow> string set" where
  "get_all_filename_patterns scss =
     set (map py_lower (filter (\<lambda>k. \<not> starts_with k ''.'') (dict_keys (EXTENSION_TO_LANGUAGE scss))))"

definition is_known_path :: "bool \<Rightarrow> string \<Rightarrow> bool" where
  "is_known_path scss p \<longleftrightarrow>
     py_lower (path_suffix p) \<in> py_lower ` get_all_extensions scss
     \<or> py_lower (path_name p) \<in> get_all_filename_patterns scss"

definition get_file_patterns :: "bool \<Rightarrow> string list" where
  "get_file_patterns scss =
     map (\<lambda>k. if starts_with k ''.'' then ''**/*'' @ k else ''**/'' @ k)
       (dict_keys (EXTENSION_TO_LANGUAGE scss))"

definition is_supported_file :: "bool \<Rightarrow> string \<Rightarrow> bool" where
  "is_supported_file scss p \<longleftrightarrow> from_file_extension scss p \<noteq> L_UNKNOWN"

subsection \<open>Content-based detection\<close>

text \<open>
  The file system is the argument \<open>header\<close>: the first 1024 bytes of a file decoded as UTF-8
  with undecodable bytes dropped, or \<^const>\<open>None\<close> when the file cannot be read.
\<close>

type_synonym header_reader = "string \<Rightarrow> string option"

definition is_ambiguous_extension :: "string \<Rightarrow> bool" where
  "is_ambiguous_extension p \<longleftrightarrow> py_lower (path_suffix p) = ''.m''"

definition detect_objc_vs_matlab :: "header_reader \<Rightarrow> string \<Rightarrow> Language" where
  "detect_objc_vs_matlab header p =
     (case header p of
        None \<Rightarrow> L_MATLAB
      | Some h \<Rightarrow>
          if list_ex (str_contains h) [''@interface'', ''@implementation'', ''@protocol'', ''@class'']
          then L_OBJC
          else if str_contains h ''#import'' then L_OBJC
          else L_MATLAB)"

definition detect_from_content :: "header_reader \<Rightarrow> string \<Rightarrow> Language option" where
  "detect_from_content header p =
     (if py_lower (path_suffix p) = ''.m'' then Some (detect_objc_vs_matlab header p) else None)"

definition detect_language :: "bool \<Rightarrow> header_reader \<Rightarrow> string \<Rightarrow> Language" where
  "detect_language scss header p =
     (case (if is_ambiguous_extension p then detect_from_content header p else None) of
        Some l \<Rightarrow> l
      | None \<Rightarrow>
          (let l = from_file_extension scss p in if l \<noteq> L_UNKNOWN then l else L_UNKNOWN))"

subsection \<open>The enums as string enums\<close>

interpretation ct: string_enum chunk_types chunk_type_value
proof
  show "x \<in> set chunk_types" for x by (cases x) (simp_all add: chunk_types_def)
  show "distinct (map chunk_type_value chunk_types)" by code_simp
qed

interpretation lang: string_enum languages language_value
proof
  show "x \<in> set languages" for x by (cases x) (simp_all add: languages_def)
  show "distinct (map language_value languages)" by code_simp
qed

lemma chunk_type_from_string_value [simp]: "chunk_type_from_string (chunk_type_value t) = t"
  by (simp add: chunk_type_from_string_def ct.find_value)

lemma language_from_string_value [simp]: "language_from_string (language_value l) = l"
  by (simp add: language_from_string_def lang.find_value)

lemma chunk_type_from_string_unknown:
  "s \<notin> range chunk_type_value \<Longrightarrow> chunk_type_from_string s = CT_UNKNOWN"
  by (simp add: chunk_type_from_string_def ct.find_value_None_iff [symmetric])

lemma language_from_string_unknown:
  "s \<notin> range language_value \<Longrightarrow> language_from_string s = L_UNKNOWN"
  by (simp add: language_from_string_def lang.find_value_None_iff [symmetric])

subsection \<open>The two extension tables agree\<close>

lemma extension_keys:
  "set (map py_lower (filter (\<lambda>k. starts_with k ''.'') (dict_keys (EXTENSION_TO_LANGUAGE scss))))
   = set (map fst (extension_map scss))"
proof -
  have "remdups_adj (sort (map py_lower
      (filter (\<lambda>k. starts_with k ''.'') (dict_keys (EXTENSION_TO_LANGUAGE scss)))))
    = sort (map fst (extension_map scss))" by code_simp
  from arg_cong [OF this, of set] show ?thesis by (simp only: remdups_adj_set set_sort)
qed

lemma filename_keys: "get_all_filename_patterns scss = set (map fst filename_map)"
  unfolding get_all_filename_patterns_def by code_simp

lemma extension_map_known: "L_UNKNOWN \<notin> snd ` set (extension_map scss)"
  by (simp add: extension_map_def)

lemma filename_map_known: "L_UNKNOWN \<notin> snd ` set filename_map"
  by (simp add: filename_map_def)

lemma dict_get_known: "u \<notin> snd ` set d \<Longrightarrow> dict_get d k \<noteq> Some u"
  by (force dest: map_of_SomeD)

lemma from_file_extension_unknown_iff:
  "from_file_extension scss p = L_UNKNOWN \<longleftrightarrow>
     py_lower (path_name p) \<notin> fst ` set filename_map
     \<and> py_lower (path_suffix p) \<notin> fst ` set (extension_map scss)"
  using dict_get_known [OF filename_map_known] dict_get_known [OF extension_map_known]
  by (auto simp: from_file_extension_def dict_get_None_iff [symmetric] split: option.split)

lemma is_known_path_iff:
  "is_known_path scss p \<longleftrightarrow>
     py_lower (path_suffix p) \<in> fst ` set (extension_map scss)
     \<or> py_lower (path_name p) \<in> fst ` set filename_map"
  using extension_keys [of scss] filename_keys [of scss]
  by (simp add: is_known_path_def get_all_extensions_def)

subsection \<open>Properties\<close>

text \<open>
  the path filter and the language detector agree.  \<open>is_known_path\<close> reads the parser
  factory's table, \<open>from_file_extension\<close> a table of its own; a path is known to the one exactly
  when the other gives it a language, whatever the case of its name and whether or not the SCSS
  grammar is installed.
\<close>

theorem is_known_path_eq_supported: "is_known_path scss p \<longleftrightarrow> is_supported_file scss p"
  by (auto simp: is_known_path_iff is_supported_file_def from_file_extension_unknown_iff)

text \<open>
  a stored type or language string names the member it came from, every other string falls
  back to the \<open>UNKNOWN\<close> member, and the classification of chunk types as code or documentation
  is exclusive, with \<open>KEY_VALUE\<close>, \<open>ARRAY\<close> and \<open>UNKNOWN\<close> in neither class.
\<close>

theorem enum_strings_roundtrip:
  "chunk_type_from_string (chunk_type_value t) = t \<and>
   language_from_string (language_value l) = l \<and>
   (chunk_type_from_string s \<noteq> CT_UNKNOWN \<longleftrightarrow> s \<in> range chunk_type_value \<and> s \<noteq> ''unknown'') \<and>
   (language_from_string s \<noteq> L_UNKNOWN \<longleftrightarrow> s \<in> range language_value \<and> s \<noteq> ''unknown'') \<and>
   \<not> (is_code t \<and> is_documentation t) \<and>
   (\<not> is_code t \<and> \<not> is_documentation t \<longleftrightarrow> t \<in> {CT_KEY_VALUE, CT_ARRAY, CT_UNKNOWN})"
proof (intro conjI)
  have cu: "chunk_type_value CT_UNKNOWN = ''unknown''" and lu: "language_value L_UNKNOWN = ''unknown''"
    by simp_all
  show "chunk_type_from_string s \<noteq> CT_UNKNOWN \<longleftrightarrow> s \<in> range chunk_type_value \<and> s \<noteq> ''unknown''"
    by (metis chunk_type_from_string_unknown chunk_type_from_string_value cu rangeE)
  show "language_from_string s \<noteq> L_UNKNOWN \<longleftrightarrow> s \<in> range language_value \<and> s \<noteq> ''unknown''"
    by (metis language_from_string_unknown language_from_string_value lu rangeE)
  show "\<not> (is_code t \<and> is_documentation t)"
    by (cases t) (simp_all add: is_code_def is_documentation_def)
  show "\<not> is_code t \<and> \<not> is_documentation t \<longleftrightarrow> t \<in> {CT_KEY_VALUE, CT_ARRAY, CT_UNKNOWN}"
    by (cases t) (simp_all add: is_code_def is_documentation_def)
qed simp_all

end
