(* ===== verification/Text_Utils.thy ===== *)
theory Text_Utils
  imports Py_Float
begin

text \<open>
  The text utilities every indexing component shares: \<open>utils/normalization.py\<close> (content
  normalisation), \<open>core/utils/token_utils.py\<close> and \<open>core/utils/openai_utils.py\<close> (token
  estimates), \<open>utils/chunk_hashing.py\<close> (content-based chunk ids),
  \<open>core/utils/embedding_utils.py\<close> (the text sent to an embedding model),
  \<open>providers/database/like_utils.py\<close> and \<open>utils/text.py\<close>.

  Third-party code is an argument: the tokenizer tables of \<open>tiktoken\<close> (\<open>encs\<close> and \<open>cl100k\<close>,
  \<^const>\<open>None\<close> where the package or the download is missing) and the 64-bit digest of
  \<open>xxhash\<close> (\<open>xxh\<close>, the digest of the concatenation of all updates).
\<close>

subsection \<open>Normalisation\<close>

definition normalize_content :: "string \<Rightarrow> string" where
  "normalize_content content = py_strip (str_replace [cr] [nl] (str_replace [cr, nl] [nl] content))"

text \<open>Replacing CRLF and then CR is one left-to-right pass.\<close>

fun unix_lines :: "string \<Rightarrow> string" where
  "unix_lines [] = []"
| "unix_lines [c] = [if c = cr then nl else c]"
| "unix_lines (c # d # s) =
     (if c = cr then (if d = nl then nl # unix_lines s else nl # unix_lines (d # s))
      else c # unix_lines (d # s))"

lemma unix_lines_Cons: "c \<noteq> cr \<Longrightarrow> unix_lines (c # s) = c # unix_lines s"
  by (cases s) auto

lemma str_replace_Nil [simp]: "str_replace old new [] = []"
  by (simp add: str_replace.simps)

lemma str_replace_Cons:
  "str_replace old new (c # s) =
     (if old \<noteq> [] \<and> starts_with (c # s) old then new @ str_replace old new (drop (length old) (c # s))
      else c # str_replace old new s)"
  by (subst str_replace.simps) simp

lemma str_replace_char: "str_replace [a] [b] s = map (\<lambda>c. if c = a then b else c) s"
  by (induction s) (auto simp: str_replace_Cons starts_with_def)

lemma crlf_step:
  "str_replace [cr, nl] [nl] (c # s) =
     (if c = cr \<and> (\<exists>s'. s = nl # s') then nl # str_replace [cr, nl] [nl] (tl s)
      else c # str_replace [cr, nl] [nl] s)"
  by (cases s) (auto simp: str_replace_Cons starts_with_def)

lemma unix_lines_eq: "str_replace [cr] [nl] (str_replace [cr, nl] [nl] s) = unix_lines s"
  by (induction s rule: unix_lines.induct) (auto simp: str_replace_char crlf_step)

lemma normalize_content_eq: "normalize_content s = py_strip (unix_lines s)"
  by (simp add: normalize_content_def unix_lines_eq)

lemma unix_lines_no_cr: "cr \<notin> set (unix_lines s)"
  by (induction s rule: unix_lines.induct) auto

lemma unix_lines_id: "cr \<notin> set s \<Longrightarrow> unix_lines s = s"
  by (induction s rule: unix_lines.induct) auto

fun to_crlf :: "string \<Rightarrow> string" where
  "to_crlf [] = []"
| "to_crlf (c # s) = (if c = nl then cr # nl # to_crlf s else c # to_crlf s)"

lemma unix_lines_to_crlf: "cr \<notin> set s \<Longrightarrow> unix_lines (to_crlf s) = s"
  by (induction s) (auto simp: unix_lines_Cons)

lemma normalize_content_idem: "normalize_content (normalize_content s) = normalize_content s"
proof -
  have "cr \<notin> set (normalize_content s)"
    using unix_lines_no_cr [of s] set_py_strip [of "unix_lines s"] by (auto simp: normalize_content_eq)
  then show ?thesis by (simp add: normalize_content_eq unix_lines_id)
qed

lemma normalize_content_crlf: "cr \<notin> set s \<Longrightarrow> normalize_content (to_crlf s) = normalize_content s"
  by (simp add: normalize_content_eq unix_lines_to_crlf unix_lines_id)

lemma py_space_unix: "py_space cr" "py_space nl"
  by (simp_all add: py_space_def)

lemma unix_lines_all_space: "(\<forall>c\<in>set (unix_lines s). py_space c) \<longleftrightarrow> (\<forall>c\<in>set s. py_space c)"
  by (induction s rule: unix_lines.induct) (auto simp: py_space_unix)

lemma normalize_content_empty_iff: "normalize_content s = [] \<longleftrightarrow> (\<forall>c\<in>set s. py_space c)"
  by (simp add: normalize_content_eq py_strip_eq_Nil_iff unix_lines_all_space)

text \<open>
  What the chunk cache, the deduplication and the chunk ids rely on: a normaliser that is
  idempotent and does not see the line-ending convention of a file.
\<close>

locale content_normalizer =
  fixes norm :: "string \<Rightarrow> string"
  assumes norm_idem: "norm (norm s) = norm s"
    and norm_crlf: "cr \<notin> set s \<Longrightarrow> norm (to_crlf s) = norm s"
begin

lemma norm_same_crlf: "cr \<notin> set s \<Longrightarrow> norm s = norm t \<longleftrightarrow> norm (to_crlf s) = norm t"
  by (simp add: norm_crlf)

lemma norm_range: "t \<in> range norm \<longleftrightarrow> norm t = t"
  by (metis norm_idem rangeE rangeI)

end

interpretation cn: content_normalizer normalize_content
  by unfold_locales (rule normalize_content_idem, rule normalize_content_crlf)

subsection \<open>Token estimates\<close>

definition LLM_CHARS_PER_TOKEN :: int where "LLM_CHARS_PER_TOKEN = 4"
definition EMBEDDING_CHARS_PER_TOKEN :: int where "EMBEDDING_CHARS_PER_TOKEN = 3"
definition DEFAULT_CHARS_PER_TOKEN :: rat where "DEFAULT_CHARS_PER_TOKEN = 7 / 2"

definition estimate_tokens_llm :: "string \<Rightarrow> int" where
  "estimate_tokens_llm t = (if t = [] then 0 else max 1 (int (length t) div LLM_CHARS_PER_TOKEN))"

definition estimate_tokens_chunking :: "string \<Rightarrow> int" where
  "estimate_tokens_chunking t =
     (if t = [] then 0 else max 1 (int (length t) div EMBEDDING_CHARS_PER_TOKEN))"

definition estimate_tokens_voyageai :: "string \<Rightarrow> int" where
  "estimate_tokens_voyageai t = max 1 (int (length t) div EMBEDDING_CHARS_PER_TOKEN)"

text \<open>\<open>len(text) / 3.5\<close> converts the length to a float first; the quotient is rounded again.\<close>

definition estimate_tokens_default :: "string \<Rightarrow> int" where
  "estimate_tokens_default t =
     max 1 (py_trunc (fl (fl (of_int (int (length t))) / DEFAULT_CHARS_PER_TOKEN)))"

definition strip_slashes :: "string \<Rightarrow> string" where
  "strip_slashes s = rev (dropWhile (\<lambda>c. c = CHR ''/'') (rev s))"

definition is_azure_openai_endpoint :: "string option \<Rightarrow> bool" where
  "is_azure_openai_endpoint e =
     (case e of None \<Rightarrow> False
      | Some u \<Rightarrow>
          if u = [] then False
          else (let endpoint = strip_slashes (py_lower u)
                in starts_with endpoint ''https://'' \<and> ends_with endpoint ''.openai.azure.com''))"

definition is_official_openai_endpoint :: "string option \<Rightarrow> bool" where
  "is_official_openai_endpoint base_url =
     (case base_url of None \<Rightarrow> True
      | Some u \<Rightarrow>
          if u = [] then True
          else starts_with u ''https://api.openai.com'' \<and>
            (u = ''https://api.openai.com'' \<or> starts_with u ''https://api.openai.com/''))"

definition uses_openai_tokenizer :: "string \<Rightarrow> string option \<Rightarrow> bool" where
  "uses_openai_tokenizer provider base_url =
     (if provider = ''azure_openai'' then True
      else provider = ''openai'' \<and> is_official_openai_endpoint base_url)"

type_synonym encoding = "string \<Rightarrow> nat list"

definition estimate_tokens_openai ::
  "(string \<Rightarrow> encoding option) \<Rightarrow> encoding option \<Rightarrow> string \<Rightarrow> string \<Rightarrow> bool \<Rightarrow> int" where
  "estimate_tokens_openai encs cl100k t model cl100k_fallback_ok =
     (let enc = (case encs model of
                   Some e \<Rightarrow> Some e
                 | None \<Rightarrow> if cl100k_fallback_ok then cl100k else None)
      in case enc of
           Some e \<Rightarrow> int (length (e t))
         | None \<Rightarrow> max 1 (int (length t) div EMBEDDING_CHARS_PER_TOKEN))"

text \<open>The embedding section of the registry configuration, \<^const>\<open>None\<close> when there is none.\<close>

record embedding_settings =
  es_provider :: string
  es_model :: "string option"
  es_base_url :: "string option"

definition estimate_with ::
  "(string \<Rightarrow> encoding option) \<Rightarrow> encoding option \<Rightarrow> string \<Rightarrow> string \<Rightarrow> string option \<Rightarrow> string option \<Rightarrow> int" where
  "estimate_with encs cl100k t provider model base_url =
     (if provider \<in> {''openai'', ''azure_openai''}
      then estimate_tokens_openai encs cl100k t (case model of None \<Rightarrow> [] | Some md \<Rightarrow> md)
             (uses_openai_tokenizer provider base_url)
      else if provider = ''voyageai'' then estimate_tokens_voyageai t
      else estimate_tokens_default t)"

definition estimate_tokens ::
  "(string \<Rightarrow> encoding option) \<Rightarrow> encoding option \<Rightarrow> embedding_settings option \<Rightarrow> string \<Rightarrow>
     string option \<Rightarrow> string option \<Rightarrow> bool \<Rightarrow> string option \<Rightarrow> int result" where
  "estimate_tokens encs cl100k config t provider model require_provider base_url =
     (if t = [] then Inr 0
      else case provider of
        Some p \<Rightarrow> Inr (estimate_with encs cl100k t p model base_url)
      | None \<Rightarrow>
          (case config of
             Some c \<Rightarrow>
               Inr (estimate_with encs cl100k t (es_provider c)
                     (Some (case es_model c of None \<Rightarrow> [] | Some md \<Rightarrow> md)) (es_base_url c))
           | None \<Rightarrow> if require_provider then Inl ValueError else Inr (estimate_tokens_default t)))"

definition get_chars_to_tokens_ratio :: "string \<Rightarrow> string \<Rightarrow> rat" where
  "get_chars_to_tokens_ratio provider model =
     (if provider \<in> {''openai'', ''azure_openai''} then of_int EMBEDDING_CHARS_PER_TOKEN
      else if provider = ''voyageai'' then of_int EMBEDDING_CHARS_PER_TOKEN
      else DEFAULT_CHARS_PER_TOKEN)"

lemmas token_defs = estimate_tokens_llm_def estimate_tokens_chunking_def estimate_tokens_voyageai_def
  LLM_CHARS_PER_TOKEN_def EMBEDDING_CHARS_PER_TOKEN_def

text \<open>
  The splitter and the batcher rely on an estimate that is zero only for the empty text and
  grows with the length.
\<close>

locale token_estimator =
  fixes est :: "string \<Rightarrow> int"
  assumes est_pos: "t \<noteq> [] \<Longrightarrow> 1 \<le> est t"
    and est_mono: "t \<noteq> [] \<Longrightarrow> length t \<le> length u \<Longrightarrow> est t \<le> est u"
begin

lemma est_same_length: "t \<noteq> [] \<Longrightarrow> length t = length u \<Longrightarrow> est t = est u"
  using est_mono [of t u] est_mono [of u t] by (cases "u = []") auto

lemma est_part: "t \<noteq> [] \<Longrightarrow> est t \<le> est (s @ t @ u)"
  by (rule est_mono) auto

end

interpretation llm_est: token_estimator estimate_tokens_llm
  by unfold_locales (auto simp: token_defs zdiv_mono1 max_def)

interpretation chunking_est: token_estimator estimate_tokens_chunking
  by unfold_locales (auto simp: token_defs zdiv_mono1 max_def)

interpretation voyage_est: token_estimator estimate_tokens_voyageai
  by unfold_locales (auto simp: token_defs zdiv_mono1 max_def)

lemma default_tokens_mono: "length t \<le> length u \<Longrightarrow> estimate_tokens_default t \<le> estimate_tokens_default u"
  unfolding estimate_tokens_default_def DEFAULT_CHARS_PER_TOKEN_def
  by (intro max.mono py_trunc_mono fl_mono divide_right_mono) simp_all

interpretation default_est: token_estimator estimate_tokens_default
  by unfold_locales (simp add: estimate_tokens_default_def, rule default_tokens_mono)

lemma default_tokens_at:
  "estimate_tokens_default (replicate 5 CHR ''x'') = 1"
  "estimate_tokens_default (replicate 8 CHR ''x'') = 2"
  "estimate_tokens_default (replicate 11 CHR ''x'') = 3"
  by code_simp+

lemma length_le_2_53: "length t \<le> 2 ^ 53 \<Longrightarrow> \<bar>int (length t)\<bar> \<le> 2 ^ 53"
  by (metis abs_of_nat of_nat_le_iff of_nat_numeral of_nat_power)

lemma default_le_chunking_small:
  assumes "t \<noteq> []" "length t \<le> 11"
  shows "estimate_tokens_default t \<le> estimate_tokens_chunking t"
proof -
  from assms(2) consider "length t \<le> 5" | "6 \<le> length t \<and> length t \<le> 8" | "9 \<le> length t \<and> length t \<le> 11"
    by linarith
  then show ?thesis
  proof cases
    case 1
    then show ?thesis
      using assms(1) default_tokens_mono [of t "replicate 5 CHR ''x''"] default_tokens_at chunking_est.est_pos [of t]
      by simp
  next
    case 2
    then show ?thesis
      using assms(1) default_tokens_mono [of t "replicate 8 CHR ''x''"] default_tokens_at
      by (auto simp: token_defs max_def)
  next
    case 3
    then show ?thesis
      using assms(1) default_tokens_mono [of t "replicate 11 CHR ''x''"] default_tokens_at
      by (auto simp: token_defs max_def)
  qed
qed

lemma default_tokens_exact:
  "length t \<le> 2 ^ 53 \<Longrightarrow>
     estimate_tokens_default t = max 1 (py_trunc (fl (of_int (2 * int (length t)) / of_int 7)))"
  using fl_exact_int [OF length_le_2_53, of t]
  by (simp add: estimate_tokens_default_def DEFAULT_CHARS_PER_TOKEN_def mult.commute)

lemma int_frac_le:
  "a \<le> 7 * b \<Longrightarrow> (of_int a :: rat) / of_int 7 \<le> of_int b"
  "7 * b \<le> a \<Longrightarrow> of_int b \<le> (of_int a :: rat) / of_int 7"
  using of_int_le_iff [where ?'a = rat, of a "7 * b"] of_int_le_iff [where ?'a = rat, of "7 * b" a]
  by (simp_all del: of_int_le_iff add: field_simps)

lemma default_le_chunking:
  assumes "t \<noteq> []" "length t \<le> 2 ^ 53"
  shows "estimate_tokens_default t \<le> estimate_tokens_chunking t"
proof (cases "length t \<le> 11")
  case True
  with assms(1) show ?thesis by (rule default_le_chunking_small)
next
  case False
  let ?n = "int (length t)"
  have "2 * ?n \<le> 7 * (?n div 3)" using False by linarith
  moreover have "\<bar>?n div 3\<bar> \<le> 2 ^ 53" using length_le_2_53 [OF assms(2)] by linarith
  ultimately have "py_trunc (fl (of_int (2 * ?n) / of_int 7)) \<le> ?n div 3"
    by (intro py_trunc_le fl_le_int int_frac_le)
  then show ?thesis
    unfolding default_tokens_exact [OF assms(2)] using assms(1) by (simp add: token_defs)
qed

lemma llm_le_default:
  assumes "t \<noteq> []" "length t \<le> 2 ^ 53"
  shows "estimate_tokens_llm t \<le> estimate_tokens_default t"
proof -
  let ?n = "int (length t)"
  have "7 * (?n div 4) \<le> 2 * ?n" by linarith
  moreover have "\<bar>?n div 4\<bar> \<le> 2 ^ 53" using length_le_2_53 [OF assms(2)] by linarith
  ultimately have "?n div 4 \<le> py_trunc (fl (of_int (2 * ?n) / of_int 7))"
    by (intro le_py_trunc int_le_fl int_frac_le)
  then show ?thesis
    unfolding default_tokens_exact [OF assms(2)] using assms(1) by (simp add: token_defs)
qed

text \<open>
  the three character heuristics are ordered: for a text of at most \<open>2 ^ 53\<close> characters the
  LLM estimate (4 characters per token) is at most the default one (3.5, computed in floating
  point), which is at most the one the splitter uses (3); all three are at least 1 on a
  non-empty text, and an unknown provider without configuration gets the middle one unless a
  provider is required, which is a ValueError.
\<close>

theorem token_estimates_ordered:
  assumes "t \<noteq> []" "length t \<le> 2 ^ 53"
  shows "1 \<le> estimate_tokens_llm t \<and> estimate_tokens_llm t \<le> estimate_tokens_default t
    \<and> estimate_tokens_default t \<le> estimate_tokens_chunking t
    \<and> estimate_tokens encs cl100k None t None model False base_url = Inr (estimate_tokens_default t)
    \<and> estimate_tokens encs cl100k None t None model True base_url = Inl ValueError"
  using assms llm_le_default [OF assms] default_le_chunking [OF assms] llm_est.est_pos
  by (simp add: estimate_tokens_def)

theorem token_estimates_ordered_witness:
  "estimate_tokens_llm (replicate 29 CHR ''x'') = 7 \<and> estimate_tokens_default (replicate 29 CHR ''x'') = 8
   \<and> estimate_tokens_chunking (replicate 29 CHR ''x'') = 9
   \<and> (7::int) \<le> 8 \<and> estimate_tokens (\<lambda>_. None) None None (replicate 29 CHR ''x'') None None False None = Inr 8"
proof -
  let ?t = "replicate 29 CHR ''x''"
  have e: "estimate_tokens_llm ?t = 7" "estimate_tokens_default ?t = 8" "estimate_tokens_chunking ?t = 9"
    by code_simp+
  moreover have "?t \<noteq> []" "length ?t \<le> 2 ^ 53" by simp_all
  ultimately show ?thesis
    using token_estimates_ordered [of ?t "\<lambda>_. None" None None None] by simp
qed

subsection \<open>Chunk ids\<close>

text \<open>UTF-8 of the Latin-1 code points.\<close>

definition utf8_char :: "char \<Rightarrow> nat list" where
  "utf8_char c = (let n = of_char c in if n < 128 then [n] else [192 + n div 64, 128 + n mod 64])"

definition utf8 :: "string \<Rightarrow> nat list" where
  "utf8 s = concat (map utf8_char s)"

definition generate_chunk_id :: "(nat list \<Rightarrow> int) \<Rightarrow> int \<Rightarrow> string \<Rightarrow> string option \<Rightarrow> int" where
  "generate_chunk_id xxh file_id content concept =
     (let normalized = normalize_content content;
          updates = utf8 (str_int file_id) @ utf8 normalized @
                    (case concept of None \<Rightarrow> [] | Some c \<Rightarrow> utf8 c);
          unsigned_hash = xxh updates
      in if 2 ^ 63 \<le> unsigned_hash then unsigned_hash - 2 ^ 64 else unsigned_hash)"

lemma utf8_append: "utf8 (s @ t) = utf8 s @ utf8 t"
  by (simp add: utf8_def)

lemma nat_div_mod_64: "a div 64 = b div 64 \<Longrightarrow> a mod 64 = b mod 64 \<Longrightarrow> a = (b :: nat)"
  by (metis div_mult_mod_eq)

lemma utf8_char_inject: "utf8_char c @ xs = utf8_char d @ ys \<longleftrightarrow> c = d \<and> xs = ys"
proof
  assume a: "utf8_char c @ xs = utf8_char d @ ys"
  have lt: "(of_char c :: nat) < 256" "(of_char d :: nat) < 256" by simp_all
  have "of_char c = (of_char d :: nat) \<and> xs = ys"
    using a lt nat_div_mod_64 [of "of_char c" "of_char d"]
    by (auto simp: utf8_char_def Let_def split: if_splits)
  then show "c = d \<and> xs = ys" by simp
qed simp

lemma utf8_char_not_Nil: "utf8_char c \<noteq> []"
  by (simp add: utf8_char_def Let_def)

lemma utf8_inject: "utf8 s = utf8 t \<longleftrightarrow> s = t"
proof (induction s arbitrary: t)
  case Nil
  then show ?case by (cases t) (auto simp: utf8_def utf8_char_not_Nil)
next
  case (Cons c s)
  then show ?case by (cases t) (auto simp: utf8_def utf8_char_not_Nil utf8_char_inject)
qed

lemma chunk_id_bytes:
  "generate_chunk_id xxh f s c =
     (let u = xxh (utf8 (str_int f @ normalize_content s @ (case c of None \<Rightarrow> [] | Some k \<Rightarrow> k)))
      in if 2 ^ 63 \<le> u then u - 2 ^ 64 else u)"
  by (simp add: generate_chunk_id_def utf8_append Let_def utf8_def split: option.split)

text \<open>
  a chunk id is a signed 64-bit integer, it does not see the line-ending convention of the
  file, and two ids are equal exactly when the digests of the normalised inputs are: nothing is
  lost by the conversion from unsigned to signed.
\<close>

theorem chunk_id_signed_digest:
  assumes range: "\<And>b. 0 \<le> xxh b \<and> xxh b < 2 ^ 64" and no_cr: "cr \<notin> set s"
  shows "- (2 ^ 63) \<le> generate_chunk_id xxh f s c \<and> generate_chunk_id xxh f s c < 2 ^ 63
    \<and> generate_chunk_id xxh f (to_crlf s) c = generate_chunk_id xxh f s c
    \<and> (generate_chunk_id xxh f s c = generate_chunk_id xxh g t d \<longleftrightarrow>
        xxh (utf8 (str_int f @ normalize_content s @ (case c of None \<Rightarrow> [] | Some k \<Rightarrow> k)))
        = xxh (utf8 (str_int g @ normalize_content t @ (case d of None \<Rightarrow> [] | Some k \<Rightarrow> k))))"
proof -
  let ?u = "\<lambda>f s c. xxh (utf8 (str_int f @ normalize_content s @ (case c of None \<Rightarrow> [] | Some k \<Rightarrow> k)))"
  have "0 \<le> ?u f s c \<and> ?u f s c < 2 ^ 64" "0 \<le> ?u g t d \<and> ?u g t d < 2 ^ 64" using range by blast+
  then have "- (2 ^ 63) \<le> generate_chunk_id xxh f s c \<and> generate_chunk_id xxh f s c < 2 ^ 63"
    and "generate_chunk_id xxh f s c = generate_chunk_id xxh g t d \<longleftrightarrow> ?u f s c = ?u g t d"
    unfolding chunk_id_bytes Let_def by auto
  moreover have "generate_chunk_id xxh f (to_crlf s) c = generate_chunk_id xxh f s c"
    by (simp add: chunk_id_bytes cn.norm_crlf [OF no_cr])
  ultimately show ?thesis by blast
qed

definition toy_digest :: "nat list \<Rightarrow> int" where
  "toy_digest b = int (foldl (\<lambda>h x. (h * 16777619 + x + 1) mod 2 ^ 64) 14695981039346656037 b)"

lemma toy_digest_range: "0 \<le> toy_digest b \<and> toy_digest b < 2 ^ 64"
  by (induction b rule: rev_induct) (simp_all add: toy_digest_def)

theorem chunk_id_signed_digest_witness:
  "generate_chunk_id toy_digest 7 (''ab'' @ [cr, nl] @ ''c'') None = generate_chunk_id toy_digest 7 (''ab'' @ [nl] @ ''c'') None"
  using chunk_id_signed_digest [of toy_digest "''ab'' @ [nl] @ ''c''" 7 None 7 "''ab'' @ [nl] @ ''c''" None]
    toy_digest_range
  by (simp del: power_numeral)

text \<open>
  The file id and the content are hashed without a separator, so the digest of chunk \<open>2x\<close> of
  file 1 is the digest of chunk \<open>x\<close> of file 12, whatever the hash function is.
\<close>

theorem chunk_id_cross_file_collision:
  "generate_chunk_id xxh 1 ''2x'' None = generate_chunk_id xxh 12 ''x'' None"
proof -
  have "str_int 1 @ normalize_content ''2x'' = str_int 12 @ normalize_content ''x''" by code_simp
  then show ?thesis unfolding chunk_id_bytes by (simp del: append_assoc add: append_assoc [symmetric])
qed

subsection \<open>LIKE patterns\<close>

abbreviation backslash :: char where "backslash \<equiv> CHR 0x5C"
abbreviation quote :: char where "quote \<equiv> CHR 0x27"

definition escape_like_pattern :: "string \<Rightarrow> bool \<Rightarrow> string" where
  "escape_like_pattern v escape_quotes =
     (let escaped =
        str_replace ''['' [backslash, CHR ''['']
          (str_replace ''_'' [backslash, CHR ''_'']
            (str_replace ''%'' [backslash, CHR ''%'']
              (str_replace [backslash] [backslash, backslash] v)))
      in if escape_quotes then str_replace [quote] [quote, quote] escaped else escaped)"

definition like_escape_char :: "char \<Rightarrow> string" where
  "like_escape_char c = (if c \<in> {backslash, CHR ''%'', CHR ''_'', CHR ''[''} then [backslash, c] else [c])"

lemma str_replace_char_string: "str_replace [a] t s = concat (map (\<lambda>c. if c = a then t else [c]) s)"
  by (induction s) (auto simp: str_replace_Cons starts_with_def)

lemma escape_like_pattern_eq: "escape_like_pattern v False = concat (map like_escape_char v)"
  by (induction v) (auto simp: escape_like_pattern_def str_replace_char_string like_escape_char_def)

text \<open>A quoted SQL literal denotes its body with every doubled quote read as one.\<close>

fun sql_unquote :: "string \<Rightarrow> string option" where
  "sql_unquote [] = Some []"
| "sql_unquote [c] = (if c = quote then None else Some [c])"
| "sql_unquote (c # d # s) =
     (if c = quote then (if d = quote then map_option ((#) quote) (sql_unquote s) else None)
      else map_option ((#) c) (sql_unquote (d # s)))"

lemma sql_unquote_Cons: "c \<noteq> quote \<Longrightarrow> sql_unquote (c # s) = map_option ((#) c) (sql_unquote s)"
  by (cases s) auto

lemma sql_unquote_doubled: "sql_unquote (str_replace [quote] [quote, quote] s) = Some s"
  by (induction s) (auto simp: str_replace_char_string sql_unquote_Cons)

text \<open>
  The \<open>LIKE ... ESCAPE\<close> operator of the database, by the laws SQL gives it; \<open>sql_like\<close> is one
  operator with these laws.
\<close>

locale like_operator =
  fixes like :: "string \<Rightarrow> string \<Rightarrow> bool"
  assumes like_Nil: "like [] s \<longleftrightarrow> s = []"
    and like_escape: "like (backslash # c # p) s \<longleftrightarrow> (\<exists>t. s = c # t \<and> like p t)"
    and like_plain: "c \<notin> {backslash, CHR ''%'', CHR ''_'', CHR ''[''} \<Longrightarrow>
      like (c # p) s \<longleftrightarrow> (\<exists>t. s = c # t \<and> like p t)"
    and like_any: "like (CHR ''%'' # p) s \<longleftrightarrow> (\<exists>u v. s = u @ v \<and> like p v)"
begin

lemma like_literal: "like (concat (map like_escape_char v) @ p) s \<longleftrightarrow> (\<exists>t. s = v @ t \<and> like p t)"
proof (induction v arbitrary: s)
  case (Cons c v)
  then show ?case
    by (cases "c \<in> {backslash, CHR ''%'', CHR ''_'', CHR ''[''}")
      (auto simp: like_escape_char_def like_escape like_plain)
qed simp

lemma like_prefix: "like (concat (map like_escape_char v) @ ''%'') s \<longleftrightarrow> starts_with s v"
  by (auto simp: like_literal like_any like_Nil starts_with_def) (metis append_take_drop_id)

lemma like_contains:
  "like (''%'' @ concat (map like_escape_char v) @ ''%'') s \<longleftrightarrow> (\<exists>a b. s = a @ v @ b)"
  by (auto simp: like_any like_literal like_Nil)

end

fun sql_like :: "string \<Rightarrow> string \<Rightarrow> bool" where
  "sql_like [] s = (s = [])"
| "sql_like [c] s =
     (if c = CHR ''%'' then True
      else if c = CHR ''_'' then length s = 1
      else s = [c])"
| "sql_like (c # d # p) s =
     (if c = backslash then (case s of [] \<Rightarrow> False | x # t \<Rightarrow> x = d \<and> sql_like p t)
      else if c = CHR ''%'' then list_ex (\<lambda>i. sql_like (d # p) (drop i s)) [0..<Suc (length s)]
      else (case s of [] \<Rightarrow> False | x # t \<Rightarrow> (c = CHR ''_'' \<or> x = c) \<and> sql_like (d # p) t))"

lemma sql_like_any: "sql_like (CHR ''%'' # p) s \<longleftrightarrow> (\<exists>u v. s = u @ v \<and> sql_like p v)"
proof (cases p)
  case (Cons d p')
  have "(\<exists>i\<in>{0..<Suc (length s)}. Q (drop i s)) \<longleftrightarrow> (\<exists>u v. s = u @ v \<and> Q v)" for Q
    by (metis append_eq_conv_conj append_take_drop_id atLeastLessThan_iff le_add1 le_imp_less_Suc
        length_append le0)
  then show ?thesis by (simp add: Cons list_ex_iff del: upt_Suc)
qed auto

interpretation sql: like_operator sql_like
proof
  fix c p s
  show "sql_like (backslash # c # p) s \<longleftrightarrow> (\<exists>t. s = c # t \<and> sql_like p t)"
    by (cases s) auto
  show "c \<notin> {backslash, CHR ''%'', CHR ''_'', CHR ''[''} \<Longrightarrow>
      sql_like (c # p) s \<longleftrightarrow> (\<exists>t. s = c # t \<and> sql_like p t)"
    by (cases p; cases s) auto
qed (simp_all add: sql_like_any)

text \<open>
  under the laws of \<open>LIKE ... ESCAPE\<close>, the escaped value followed by \<open>%\<close> matches exactly the
  strings that start with the value, and between two \<open>%\<close> exactly the strings that contain it,
  whatever metacharacters the value has; with \<open>escape_quotes\<close> the result reads back inside a
  quoted SQL literal as the pattern without it.
\<close>

theorem escape_like_pattern_literal:
  assumes "like_operator like"
  shows "(like (escape_like_pattern v False @ ''%'') s \<longleftrightarrow> starts_with s v)
    \<and> (like (''%'' @ escape_like_pattern v False @ ''%'') s \<longleftrightarrow> (\<exists>a b. s = a @ v @ b))
    \<and> sql_unquote (escape_like_pattern v True) = Some (escape_like_pattern v False)"
  unfolding escape_like_pattern_eq
  using like_operator.like_prefix [OF assms] like_operator.like_contains [OF assms]
    sql_unquote_doubled [of "concat (map like_escape_char v)"] escape_like_pattern_eq [of v]
  by (simp add: escape_like_pattern_def Let_def)

theorem escape_like_pattern_literal_witness:
  "sql_like (escape_like_pattern ''50%_a'' False @ ''%'') ''50%_abc''
   \<and> \<not> sql_like (escape_like_pattern ''50%_a'' False @ ''%'') ''50xxabc''"
  using escape_like_pattern_literal [OF sql.like_operator_axioms, of "''50%_a''" "''50%_abc''"]
    escape_like_pattern_literal [OF sql.like_operator_axioms, of "''50%_a''" "''50xxabc''"]
  by (simp add: starts_with_def)

subsection \<open>Embedding text, labels and slugs\<close>

definition MAX_CONSTANTS_IN_HEADER :: nat where "MAX_CONSTANTS_IN_HEADER = 5"

text \<open>A constant is the pair of its \<open>name\<close> and its \<open>value\<close>.\<close>

definition format_chunk_for_embedding ::
  "string \<Rightarrow> string option \<Rightarrow> string option \<Rightarrow> (string \<times> string) list option \<Rightarrow> string option \<Rightarrow> string" where
  "format_chunk_for_embedding code file_path language constants rule_target =
     (let consts = (case constants of None \<Rightarrow> [] | Some cs \<Rightarrow> cs) in
      if \<not> truthy_str file_path \<and> \<not> truthy_str language \<and> consts = [] \<and> \<not> truthy_str rule_target then code
      else
        let header0 =
              (if truthy_str file_path \<and> truthy_str language
               then ''# '' @ the file_path @ '' ('' @ the language @ '')''
               else if truthy_str file_path then ''# '' @ the file_path
               else if truthy_str language then ''# ('' @ the language @ '')''
               else ''#'');
            header1 =
              (if truthy_str rule_target then header0 @ '' [target: '' @ the rule_target @ '']'' else header0);
            items = map (\<lambda>(n, v). n @ ''='' @ v) (take MAX_CONSTANTS_IN_HEADER consts);
            const_str =
              join_with '', '' items @
                (if length consts > MAX_CONSTANTS_IN_HEADER
                 then '', +'' @ str_nat (length consts - MAX_CONSTANTS_IN_HEADER) @ '' more'' else []);
            header = (if consts \<noteq> [] then header1 @ '' ['' @ const_str @ '']'' else header1)
        in header @ [nl] @ code)"

definition get_chunk_id :: "(string \<times> pyval) list \<Rightarrow> pyval" where
  "get_chunk_id chunk = py_or (get_or_none chunk ''chunk_id'') (get_or_none chunk ''id'')"

definition safe_scope_label :: "string \<Rightarrow> string" where
  "safe_scope_label scope_label =
     (let safe_scope = str_replace ''/'' ''_'' scope_label in if safe_scope \<noteq> [] then safe_scope else ''root'')"

text \<open>\<open>str.isalnum\<close> of a Latin-1 code point: letters, digits, superscript digits and fractions.\<close>

definition py_alnum :: "char \<Rightarrow> bool" where
  "py_alnum c \<longleftrightarrow>
     (let n = (of_char c :: nat)
      in (48 \<le> n \<and> n \<le> 57) \<or> (65 \<le> n \<and> n \<le> 90) \<or> (97 \<le> n \<and> n \<le> 122) \<or>
         n \<in> {170, 178, 179, 181, 185, 186, 188, 189, 190} \<or> (192 \<le> n \<and> n \<noteq> 215 \<and> n \<noteq> 247))"

definition py_ascii :: "char \<Rightarrow> bool" where
  "py_ascii c \<longleftrightarrow> (of_char c :: nat) < 128"

fun slug_chars :: "bool \<Rightarrow> bool \<Rightarrow> string \<Rightarrow> string" where
  "slug_chars ascii_only prev_dash [] = []"
| "slug_chars ascii_only prev_dash (ch # rest) =
     (if py_alnum ch \<and> (\<not> ascii_only \<or> py_ascii ch) then ch # slug_chars ascii_only False rest
      else if \<not> prev_dash then CHR ''-'' # slug_chars ascii_only True rest
      else slug_chars ascii_only prev_dash rest)"

definition rstrip_dash :: "string \<Rightarrow> string" where
  "rstrip_dash s = rev (dropWhile (\<lambda>c. c = CHR ''-'') (rev s))"

definition strip_dash :: "string \<Rightarrow> string" where
  "strip_dash s = rstrip_dash (dropWhile (\<lambda>c. c = CHR ''-'') s)"

definition slugify_kebab :: "string \<Rightarrow> string \<Rightarrow> int option \<Rightarrow> bool \<Rightarrow> string" where
  "slugify_kebab t fallback max_length ascii_only =
     (let slug0 = strip_dash (slug_chars ascii_only False (py_lower (py_strip t)));
          slug1 = (if slug0 = [] then fallback else slug0)
      in case max_length of
           None \<Rightarrow> slug1
         | Some k \<Rightarrow>
             if int (length slug1) > k
             then (let slug2 = rstrip_dash (py_take k slug1) in if slug2 = [] then fallback else slug2)
             else slug1)"

lemma format_chunk_suffix: "\<exists>h. format_chunk_for_embedding code fp lang cs rt = h @ code"
  by (auto simp: format_chunk_for_embedding_def Let_def)

lemma set_slug_chars:
  "set (slug_chars a p s) \<subseteq> insert (CHR ''-'') {c \<in> set s. py_alnum c \<and> (\<not> a \<or> py_ascii c)}"
  by (induction a p s rule: slug_chars.induct) auto

lemma set_rstrip_dash: "set (rstrip_dash s) \<subseteq> set s"
  unfolding rstrip_dash_def by (metis set_dropWhileD set_rev subsetI)

lemma set_strip_dash: "set (strip_dash s) \<subseteq> set s"
  unfolding strip_dash_def using set_rstrip_dash by (metis set_dropWhileD subset_eq)

text \<open>A slug has only dashes and the admitted alphanumerics, apart from what the fallback brings in.\<close>

lemma slugify_chars:
  "set (slugify_kebab t fallback ml a)
     \<subseteq> set fallback \<union> insert (CHR ''-'') {c. py_alnum c \<and> (\<not> a \<or> py_ascii c)}"
proof -
  let ?s = "strip_dash (slug_chars a False (py_lower (py_strip t)))"
  have *: "set ?s \<subseteq> insert (CHR ''-'') {c. py_alnum c \<and> (\<not> a \<or> py_ascii c)}"
    using set_strip_dash set_slug_chars by fastforce
  have "set (rstrip_dash (py_take k u)) \<subseteq> set u" for k u
    using set_rstrip_dash [of "py_take k u"] by (auto simp: py_take_def dest: in_set_takeD)
  with * show ?thesis
    unfolding slugify_kebab_def Let_def by (auto split: option.splits if_splits)
qed

end
