(* ===== verification/Chunk_Model.thy ===== *)
theory Chunk_Model
  imports Core_Types Text_Utils
begin

text \<open>
  The domain models of \<open>core/models/\<close>: \<open>Chunk\<close>, \<open>File\<close>, \<open>Embedding\<close> and \<open>EmbeddingResult\<close>.

  A frozen dataclass is a record; its constructor with \<open>__post_init__\<close> is a function that
  normalises and validates the record (\<open>mk_chunk\<close>, \<open>mk_file\<close>, ...).  The dictionaries of
  \<open>from_dict\<close> and \<open>to_dict\<close> are ordered dictionaries of \<open>dval\<close>: a Python value, an enum member
  or a \<open>datetime\<close>.  A \<open>datetime\<close> is a number of microseconds; its ISO text is read and written
  by the arguments \<open>fromiso\<close> and \<open>isof\<close>.
\<close>

type_synonym datetime = int

datatype dval =
    Py pyval
  | VChunkType ChunkType
  | VLanguage Language
  | VTime datetime

type_synonym ddict = "(string, dval) pydict"

subsection \<open>Chunk\<close>

record chunk =
  c_symbol :: "string option"
  c_start_line :: int
  c_end_line :: int
  c_code :: string
  c_chunk_type :: ChunkType
  c_file_id :: int
  c_language :: Language
  c_id :: "int option"
  c_file_path :: "string option"
  c_parent_header :: "string option"
  c_start_byte :: "int option"
  c_end_byte :: "int option"
  c_created_at :: "datetime option"
  c_updated_at :: "datetime option"
  c_metadata :: "(string \<times> pyval) list option"

definition opt_neg :: "int option \<Rightarrow> bool" where
  "opt_neg b \<longleftrightarrow> (case b of None \<Rightarrow> False | Some n \<Rightarrow> n < 0)"

definition opt_gt :: "int option \<Rightarrow> int option \<Rightarrow> bool" where
  "opt_gt a b \<longleftrightarrow> (case (a, b) of (Some m, Some n) \<Rightarrow> n < m | _ \<Rightarrow> False)"

definition mk_chunk :: "chunk \<Rightarrow> chunk result" where
  "mk_chunk c =
     (let c' = (case c_symbol c of
                  Some s \<Rightarrow> if py_strip s = [] then c\<lparr>c_symbol := None\<rparr> else c
                | None \<Rightarrow> c)
      in if c_start_line c' < 1 then Inl (ValidationError ''start_line'')
         else if c_end_line c' < 1 then Inl (ValidationError ''end_line'')
         else if c_start_line c' > c_end_line c' then Inl (ValidationError ''line_range'')
         else if c_code c' = [] then Inl (ValidationError ''code'')
         else if opt_neg (c_start_byte c') then Inl (ValidationError ''start_byte'')
         else if opt_neg (c_end_byte c') then Inl (ValidationError ''end_byte'')
         else if opt_gt (c_start_byte c') (c_end_byte c') then Inl (ValidationError ''byte_range'')
         else Inr c')"

definition chunk_ok :: "chunk \<Rightarrow> bool" where
  "chunk_ok c \<longleftrightarrow>
     (case c_symbol c of None \<Rightarrow> True | Some s \<Rightarrow> py_strip s \<noteq> []) \<and>
     1 \<le> c_start_line c \<and> c_start_line c \<le> c_end_line c \<and> c_code c \<noteq> [] \<and>
     \<not> opt_neg (c_start_byte c) \<and> \<not> opt_neg (c_end_byte c) \<and> \<not> opt_gt (c_start_byte c) (c_end_byte c)"

lemma mk_chunk_ok: "mk_chunk c = Inr c' \<Longrightarrow> chunk_ok c'"
  by (auto simp: mk_chunk_def chunk_ok_def Let_def split: if_splits option.splits)

lemma mk_chunk_id: "chunk_ok c \<Longrightarrow> mk_chunk c = Inr c"
  by (auto simp: mk_chunk_def chunk_ok_def Let_def split: option.splits)

lemma mk_chunk_code: "mk_chunk c = Inr c' \<Longrightarrow> c_code c' = c_code c"
  by (auto simp: mk_chunk_def Let_def split: if_splits option.splits)

text \<open>\<open>yields P r\<close>: whatever the computation returns satisfies \<open>P\<close>.\<close>

definition yields :: "('a \<Rightarrow> bool) \<Rightarrow> 'a result \<Rightarrow> bool" where
  "yields P r \<longleftrightarrow> (\<forall>x. r = Inr x \<longrightarrow> P x)"

lemma yields_bind [intro]: "(\<And>x. yields P (f x)) \<Longrightarrow> yields P (bind_result r f)"
  by (auto simp: yields_def bind_result_eq_Inr_iff)

lemma yields_if [intro]: "yields P r \<Longrightarrow> yields P s \<Longrightarrow> yields P (if b then r else s)"
  by simp

lemma yields_Inl [intro]: "yields P (Inl e)"
  by (simp add: yields_def)

lemma yields_mk_chunk [intro]: "yields chunk_ok (mk_chunk c)"
  using mk_chunk_ok by (auto simp: yields_def)

text \<open>Reading a dictionary: \<open>get_v d k\<close> is \<open>d.get(k)\<close>, \<open>get_v2 d k k'\<close> is \<open>d.get(k, d.get(k'))\<close>.\<close>

definition get_v :: "ddict \<Rightarrow> string \<Rightarrow> dval" where
  "get_v d k = (case dict_get d k of None \<Rightarrow> Py PyNone | Some v \<Rightarrow> v)"

definition get_v2 :: "ddict \<Rightarrow> string \<Rightarrow> string \<Rightarrow> dval" where
  "get_v2 d k k' = (case dict_get d k of None \<Rightarrow> get_v d k' | Some v \<Rightarrow> v)"

fun dval_truthy :: "dval \<Rightarrow> bool" where
  "dval_truthy (Py v) = py_truthy v"
| "dval_truthy _ = True"

text \<open>A value that the code stores without a check, at the declared type of its field.\<close>

fun as_opt_str :: "dval \<Rightarrow> string option result" where
  "as_opt_str (Py PyNone) = Inr None"
| "as_opt_str (Py (PyStr s)) = Inr (Some s)"
| "as_opt_str _ = Inl Unmodelled"

fun as_str :: "dval \<Rightarrow> string result" where
  "as_str (Py (PyStr s)) = Inr s"
| "as_str _ = Inl Unmodelled"

fun as_opt_int :: "dval \<Rightarrow> int option result" where
  "as_opt_int (Py PyNone) = Inr None"
| "as_opt_int (Py (PyInt i)) = Inr (Some i)"
| "as_opt_int _ = Inl Unmodelled"

fun as_int :: "dval \<Rightarrow> int result" where
  "as_int (Py (PyInt i)) = Inr i"
| "as_int _ = Inl Unmodelled"

fun as_opt_dict :: "dval \<Rightarrow> (string \<times> pyval) list option result" where
  "as_opt_dict (Py PyNone) = Inr None"
| "as_opt_dict (Py (PyDict d)) = Inr (Some d)"
| "as_opt_dict _ = Inl Unmodelled"

fun as_opt_time :: "(string \<Rightarrow> datetime result) \<Rightarrow> dval \<Rightarrow> datetime option result" where
  "as_opt_time fromiso (Py PyNone) = Inr None"
| "as_opt_time fromiso (VTime t) = Inr (Some t)"
| "as_opt_time fromiso (Py (PyStr s)) = bind_result (fromiso s) (\<lambda>t. Inr (Some t))"
| "as_opt_time fromiso _ = Inl Unmodelled"

fun int_of_dval :: "dval \<Rightarrow> int result" where
  "int_of_dval (Py v) = py_int_of v"
| "int_of_dval _ = Inl TypeError"

fun chunk_type_of_dval :: "dval \<Rightarrow> ChunkType" where
  "chunk_type_of_dval (VChunkType t) = t"
| "chunk_type_of_dval (Py (PyStr s)) = chunk_type_from_string s"
| "chunk_type_of_dval _ = CT_UNKNOWN"

fun language_of_dval :: "dval \<Rightarrow> Language" where
  "language_of_dval (VLanguage l) = l"
| "language_of_dval (Py (PyStr s)) = language_from_string s"
| "language_of_dval _ = L_UNKNOWN"

text \<open>\<open>except (ValueError, TypeError): raise ValidationError("data", ...)\<close>\<close>

fun as_data_error :: "'a result \<Rightarrow> 'a result" where
  "as_data_error (Inl ValueError) = Inl (ValidationError ''data'')"
| "as_data_error (Inl TypeError) = Inl (ValidationError ''data'')"
| "as_data_error r = r"

lemma yields_data_error [intro]: "yields P r \<Longrightarrow> yields P (as_data_error r)"
  by (cases r rule: as_data_error.cases) (auto simp: yields_def)

definition chunk_from_dict :: "(string \<Rightarrow> datetime result) \<Rightarrow> ddict \<Rightarrow> chunk result" where
  "chunk_from_dict fromiso data = as_data_error
     (let start_line = get_v data ''start_line''; end_line = get_v data ''end_line'';
          code = get_v data ''code''; file_id = get_v data ''file_id''
      in if start_line = Py PyNone then Inl (ValidationError ''start_line'')
         else if end_line = Py PyNone then Inl (ValidationError ''end_line'')
         else if \<not> dval_truthy code then Inl (ValidationError ''code'')
         else if file_id = Py PyNone then Inl (ValidationError ''file_id'')
         else
           bind_result (as_opt_int (get_v data ''id'')) (\<lambda>cid.
           bind_result (as_opt_str (get_v2 data ''file_path'' ''path'')) (\<lambda>path.
           bind_result (as_opt_str (get_v data ''parent_header'')) (\<lambda>ph.
           bind_result (as_opt_int (get_v data ''start_byte'')) (\<lambda>sb.
           bind_result (as_opt_int (get_v data ''end_byte'')) (\<lambda>eb.
           bind_result (as_opt_time fromiso (get_v data ''created_at'')) (\<lambda>ca.
           bind_result (as_opt_time fromiso (get_v data ''updated_at'')) (\<lambda>ua.
           bind_result (as_opt_dict (get_v data ''metadata'')) (\<lambda>md.
           bind_result (as_opt_str (get_v data ''symbol'')) (\<lambda>symbol.
           bind_result (int_of_dval start_line) (\<lambda>sl.
           bind_result (int_of_dval end_line) (\<lambda>el.
           bind_result (as_str code) (\<lambda>cd.
           bind_result (as_int file_id) (\<lambda>fid.
             mk_chunk \<lparr>c_symbol = symbol, c_start_line = sl, c_end_line = el, c_code = cd,
               c_chunk_type = chunk_type_of_dval (get_v2 data ''chunk_type'' ''type''), c_file_id = fid,
               c_language = language_of_dval (get_v2 data ''language'' ''language_info''), c_id = cid,
               c_file_path = path, c_parent_header = ph, c_start_byte = sb, c_end_byte = eb,
               c_created_at = ca, c_updated_at = ua, c_metadata = md\<rparr>))))))))))))))"

definition opt_entry :: "string \<Rightarrow> ('a \<Rightarrow> dval) \<Rightarrow> 'a option \<Rightarrow> ddict" where
  "opt_entry k f x = (case x of None \<Rightarrow> [] | Some v \<Rightarrow> [(k, f v)])"

definition chunk_to_dict :: "(datetime \<Rightarrow> string) \<Rightarrow> chunk \<Rightarrow> ddict" where
  "chunk_to_dict isof c =
     [(''symbol'', Py (case c_symbol c of None \<Rightarrow> PyNone | Some s \<Rightarrow> PyStr s)),
      (''start_line'', Py (PyInt (c_start_line c))), (''end_line'', Py (PyInt (c_end_line c))),
      (''code'', Py (PyStr (c_code c))), (''chunk_type'', Py (PyStr (chunk_type_value (c_chunk_type c)))),
      (''file_id'', Py (PyInt (c_file_id c))), (''language'', Py (PyStr (language_value (c_language c))))]
     @ opt_entry ''id'' (Py \<circ> PyInt) (c_id c)
     @ opt_entry ''file_path'' (Py \<circ> PyStr) (c_file_path c)
     @ opt_entry ''parent_header'' (Py \<circ> PyStr) (c_parent_header c)
     @ opt_entry ''start_byte'' (Py \<circ> PyInt) (c_start_byte c)
     @ opt_entry ''end_byte'' (Py \<circ> PyInt) (c_end_byte c)
     @ opt_entry ''created_at'' (Py \<circ> PyStr \<circ> isof) (c_created_at c)
     @ opt_entry ''updated_at'' (Py \<circ> PyStr \<circ> isof) (c_updated_at c)
     @ opt_entry ''metadata'' (Py \<circ> PyDict) (c_metadata c)"

lemma dict_get_opt_entry [simp]: "dict_get (opt_entry k f x) k' = (if k' = k then map_option f x else None)"
  by (simp add: opt_entry_def split: option.split)

lemma chunk_to_dict_opt:
  "dict_get (chunk_to_dict isof c) ''id'' = map_option (Py \<circ> PyInt) (c_id c)"
  "dict_get (chunk_to_dict isof c) ''file_path'' = map_option (Py \<circ> PyStr) (c_file_path c)"
  "dict_get (chunk_to_dict isof c) ''path'' = None"
  "dict_get (chunk_to_dict isof c) ''parent_header'' = map_option (Py \<circ> PyStr) (c_parent_header c)"
  "dict_get (chunk_to_dict isof c) ''start_byte'' = map_option (Py \<circ> PyInt) (c_start_byte c)"
  "dict_get (chunk_to_dict isof c) ''end_byte'' = map_option (Py \<circ> PyInt) (c_end_byte c)"
  "dict_get (chunk_to_dict isof c) ''created_at'' = map_option (Py \<circ> PyStr \<circ> isof) (c_created_at c)"
  "dict_get (chunk_to_dict isof c) ''updated_at'' = map_option (Py \<circ> PyStr \<circ> isof) (c_updated_at c)"
  "dict_get (chunk_to_dict isof c) ''metadata'' = map_option (Py \<circ> PyDict) (c_metadata c)"
  by (simp_all add: chunk_to_dict_def map_add_def split: option.split)

lemma chunk_to_dict_req:
  "dict_get (chunk_to_dict isof c) ''symbol'' = Some (Py (case c_symbol c of None \<Rightarrow> PyNone | Some s \<Rightarrow> PyStr s))"
  "dict_get (chunk_to_dict isof c) ''start_line'' = Some (Py (PyInt (c_start_line c)))"
  "dict_get (chunk_to_dict isof c) ''end_line'' = Some (Py (PyInt (c_end_line c)))"
  "dict_get (chunk_to_dict isof c) ''code'' = Some (Py (PyStr (c_code c)))"
  "dict_get (chunk_to_dict isof c) ''chunk_type'' = Some (Py (PyStr (chunk_type_value (c_chunk_type c))))"
  "dict_get (chunk_to_dict isof c) ''file_id'' = Some (Py (PyInt (c_file_id c)))"
  "dict_get (chunk_to_dict isof c) ''language'' = Some (Py (PyStr (language_value (c_language c))))"
  by (simp_all add: chunk_to_dict_def map_add_def)

lemma as_opt_of_map:
  "as_opt_int (case map_option (Py \<circ> PyInt) x of None \<Rightarrow> Py PyNone | Some v \<Rightarrow> v) = Inr x"
  "as_opt_str (case map_option (Py \<circ> PyStr) y of None \<Rightarrow> Py PyNone | Some v \<Rightarrow> v) = Inr y"
  "as_opt_dict (case map_option (Py \<circ> PyDict) z of None \<Rightarrow> Py PyNone | Some v \<Rightarrow> v) = Inr z"
  "as_opt_str (Py (case y of None \<Rightarrow> PyNone | Some s \<Rightarrow> PyStr s)) = Inr y"
  by (simp_all split: option.split)

lemma as_opt_time_of_map:
  "(\<And>t. fromiso (isof t) = Inr t) \<Longrightarrow>
     as_opt_time fromiso (case map_option (Py \<circ> PyStr \<circ> isof) x of None \<Rightarrow> Py PyNone | Some v \<Rightarrow> v) = Inr x"
  by (simp split: option.split)

text \<open>
  C32: \<open>Chunk.from_dict\<close> inverts \<open>Chunk.to_dict\<close> on every valid chunk, the enum members and the
  timestamps going through their strings, and every chunk \<open>from_dict\<close> returns is valid (a
  positive, ordered line range, non-empty code, ordered byte offsets, no blank symbol).
\<close>

theorem chunk_dict_roundtrip:
  assumes isof: "\<And>t. fromiso (isof t) = Inr t" and ok: "chunk_ok c"
  shows "chunk_from_dict fromiso (chunk_to_dict isof c) = Inr c
    \<and> (\<forall>d c'. chunk_from_dict fromiso d = Inr c' \<longrightarrow> chunk_ok c')"
proof
  have "get_v2 (chunk_to_dict isof c) ''file_path'' ''path''
      = (case map_option (Py \<circ> PyStr) (c_file_path c) of None \<Rightarrow> Py PyNone | Some v \<Rightarrow> v)"
    by (simp add: get_v2_def get_v_def chunk_to_dict_opt split: option.split)
  moreover have "c_code c \<noteq> []" using ok by (simp add: chunk_ok_def)
  ultimately show "chunk_from_dict fromiso (chunk_to_dict isof c) = Inr c"
    using mk_chunk_id [OF ok]
    by (cases c) (simp add: chunk_from_dict_def get_v_def chunk_to_dict_opt chunk_to_dict_req as_opt_of_map
        as_opt_time_of_map [OF isof] get_v2_def [of _ "''chunk_type''"] get_v2_def [of _ "''language''"] del: case_map_option)
  show "\<forall>d c'. chunk_from_dict fromiso d = Inr c' \<longrightarrow> chunk_ok c'"
  proof -
    have "yields chunk_ok (chunk_from_dict fromiso d)" for d
      unfolding chunk_from_dict_def Let_def
      by (intro yields_data_error yields_if yields_bind yields_Inl yields_mk_chunk)
    then show ?thesis by (simp add: yields_def)
  qed
qed

definition sample_chunk :: chunk where
  "sample_chunk = \<lparr>c_symbol = Some ''f'', c_start_line = 1, c_end_line = 2, c_code = ''x'',
     c_chunk_type = CT_METHOD, c_file_id = 3, c_language = L_PYTHON, c_id = Some 4, c_file_path = Some ''a.py'',
     c_parent_header = None, c_start_byte = Some 0, c_end_byte = Some 9, c_created_at = Some 12,
     c_updated_at = None, c_metadata = Some [(''kind'', PyStr ''k'')]\<rparr>"

theorem chunk_dict_roundtrip_witness:
  "chunk_from_dict py_int_of_str (chunk_to_dict str_int sample_chunk) = Inr sample_chunk"
proof -
  have "chunk_ok sample_chunk" by code_simp
  then show ?thesis using chunk_dict_roundtrip [of py_int_of_str str_int sample_chunk] by simp
qed

subsection \<open>Chunk properties and copies\<close>

definition line_count :: "chunk \<Rightarrow> int" where
  "line_count c = c_end_line c - c_start_line c + 1"

definition char_count :: "chunk \<Rightarrow> int" where
  "char_count c = int (length (c_code c))"

definition byte_count :: "chunk \<Rightarrow> int option" where
  "byte_count c = (case (c_start_byte c, c_end_byte c) of (Some s, Some e) \<Rightarrow> Some (e - s + 1) | _ \<Rightarrow> None)"

definition display_name :: "chunk \<Rightarrow> string" where
  "display_name c =
     (if is_code (c_chunk_type c)
      then chunk_type_value (c_chunk_type c) @ '': '' @ (case c_symbol c of None \<Rightarrow> ''None'' | Some s \<Rightarrow> s)
      else
        (let preview = py_strip (str_replace [nl] '' '' (py_take 50 (c_code c)));
             content_preview = (if length (c_code c) > 50 then preview @ ''...'' else preview)
         in chunk_type_value (c_chunk_type c) @ '': '' @ content_preview))"

definition is_code_chunk :: "chunk \<Rightarrow> bool" where
  "is_code_chunk c \<longleftrightarrow> is_code (c_chunk_type c)"

definition is_documentation_chunk :: "chunk \<Rightarrow> bool" where
  "is_documentation_chunk c \<longleftrightarrow> is_documentation (c_chunk_type c)"

definition is_small_chunk :: "chunk \<Rightarrow> int \<Rightarrow> bool" where
  "is_small_chunk c min_lines \<longleftrightarrow> line_count c < min_lines"

definition is_large_chunk :: "chunk \<Rightarrow> int \<Rightarrow> bool" where
  "is_large_chunk c max_lines \<longleftrightarrow> line_count c > max_lines"

definition contains_line :: "chunk \<Rightarrow> int \<Rightarrow> bool" where
  "contains_line c n \<longleftrightarrow> c_start_line c \<le> n \<and> n \<le> c_end_line c"

definition overlaps_with :: "chunk \<Rightarrow> chunk \<Rightarrow> bool" where
  "overlaps_with c d \<longleftrightarrow> \<not> (c_end_line c < c_start_line d \<or> c_end_line d < c_start_line c)"

definition with_id :: "chunk \<Rightarrow> int \<Rightarrow> chunk result" where
  "with_id c i = mk_chunk (c\<lparr>c_id := Some i\<rparr>)"

definition with_file_path :: "chunk \<Rightarrow> string \<Rightarrow> chunk result" where
  "with_file_path c p = mk_chunk (c\<lparr>c_file_path := Some p\<rparr>)"

lemma with_id_ok: "chunk_ok c \<Longrightarrow> with_id c i = Inr (c\<lparr>c_id := Some i\<rparr>)"
  unfolding with_id_def by (rule mk_chunk_id) (simp add: chunk_ok_def)

lemma with_file_path_ok: "chunk_ok c \<Longrightarrow> with_file_path c p = Inr (c\<lparr>c_file_path := Some p\<rparr>)"
  unfolding with_file_path_def by (rule mk_chunk_id) (simp add: chunk_ok_def)

text \<open>
  for valid chunks, \<open>overlaps_with\<close> is the sharing of a line: it holds exactly when some line
  number is inside both ranges, and a chunk has as many lines as \<open>contains_line\<close> accepts, at
  least one.
\<close>

theorem overlap_is_shared_line:
  assumes "chunk_ok c" "chunk_ok d"
  shows "(overlaps_with c d \<longleftrightarrow> (\<exists>n. contains_line c n \<and> contains_line d n))
    \<and> 1 \<le> line_count c \<and> int (card {n. contains_line c n}) = line_count c"
proof -
  from assms have ok: "c_start_line c \<le> c_end_line c" "c_start_line d \<le> c_end_line d"
    by (simp_all add: chunk_ok_def)
  have "overlaps_with c d \<longleftrightarrow> (\<exists>n. contains_line c n \<and> contains_line d n)"
  proof
    assume "overlaps_with c d"
    then show "\<exists>n. contains_line c n \<and> contains_line d n"
      using ok by (intro exI [of _ "max (c_start_line c) (c_start_line d)"])
        (auto simp: overlaps_with_def contains_line_def)
  qed (auto simp: overlaps_with_def contains_line_def)
  moreover have "{n. contains_line c n} = {c_start_line c..c_end_line c}"
    by (auto simp: contains_line_def)
  ultimately show ?thesis using ok by (simp add: line_count_def)
qed

theorem overlap_is_shared_line_witness:
  "(overlaps_with sample_chunk (sample_chunk\<lparr>c_start_line := 2, c_end_line := 5\<rparr>) \<longleftrightarrow>
     (\<exists>n. contains_line sample_chunk n \<and> contains_line (sample_chunk\<lparr>c_start_line := 2, c_end_line := 5\<rparr>) n))
   \<and> line_count sample_chunk = 2"
proof -
  have "chunk_ok sample_chunk" "chunk_ok (sample_chunk\<lparr>c_start_line := 2, c_end_line := 5\<rparr>)" by code_simp+
  from overlap_is_shared_line [OF this] show ?thesis by (simp add: line_count_def sample_chunk_def)
qed

subsection \<open>File\<close>

record source_file =
  f_path :: string
  f_mtime :: rat
  f_language :: Language
  f_size_bytes :: int
  f_id :: "int option"
  f_content_hash :: "string option"
  f_created_at :: "datetime option"
  f_updated_at :: "datetime option"

definition mk_file :: "source_file \<Rightarrow> source_file result" where
  "mk_file f =
     (if f_path f = [] then Inl (ValidationError ''path'')
      else if f_size_bytes f < 0 then Inl (ValidationError ''size_bytes'')
      else if f_mtime f < 0 then Inl (ValidationError ''mtime'')
      else Inr f)"

text \<open>\<open>float(v)\<close>: an integer is rounded; the text of a number is read by the argument \<open>strfloat\<close>.\<close>

fun float_of_dval :: "(string \<Rightarrow> rat result) \<Rightarrow> dval \<Rightarrow> rat result" where
  "float_of_dval strfloat (Py (PyFloat q)) = Inr q"
| "float_of_dval strfloat (Py (PyInt i)) = Inr (fl (of_int i))"
| "float_of_dval strfloat (Py (PyBool b)) = Inr (if b then 1 else 0)"
| "float_of_dval strfloat (Py (PyStr s)) = strfloat s"
| "float_of_dval strfloat _ = Inl TypeError"

text \<open>The metadata \<open>stat\<close> reports: \<^const>\<open>None\<close> when there is no regular file at the path.\<close>

definition file_from_path ::
  "bool \<Rightarrow> header_reader \<Rightarrow> (string \<Rightarrow> (rat \<times> int) option) \<Rightarrow> string \<Rightarrow> source_file result" where
  "file_from_path scss rd stat path =
     (case stat path of
        None \<Rightarrow> Inl ModelError
      | Some (mtime, st_size) \<Rightarrow>
          mk_file \<lparr>f_path = path, f_mtime = mtime, f_language = detect_language scss rd path,
            f_size_bytes = st_size, f_id = None, f_content_hash = None, f_created_at = None, f_updated_at = None\<rparr>)"

definition file_from_dict ::
  "bool \<Rightarrow> (string \<Rightarrow> datetime result) \<Rightarrow> (string \<Rightarrow> rat result) \<Rightarrow> ddict \<Rightarrow> source_file result" where
  "file_from_dict scss fromiso strfloat data = as_data_error
     (let path = get_v data ''path''; mtime = get_v data ''mtime'';
          size_bytes = (case dict_get data ''size_bytes'' of None \<Rightarrow> Py (PyInt 0) | Some v \<Rightarrow> v)
      in if \<not> dval_truthy path then Inl (ValidationError ''path'')
         else if mtime = Py PyNone then Inl (ValidationError ''mtime'')
         else
           bind_result (as_str path) (\<lambda>p.
           bind_result (as_opt_int (get_v data ''id'')) (\<lambda>fid.
           bind_result (as_opt_time fromiso (get_v data ''created_at'')) (\<lambda>ca.
           bind_result (as_opt_time fromiso (get_v data ''updated_at'')) (\<lambda>ua.
           bind_result (as_opt_str (get_v data ''content_hash'')) (\<lambda>ch.
           bind_result (float_of_dval strfloat mtime) (\<lambda>mt.
           bind_result (int_of_dval size_bytes) (\<lambda>sz.
             mk_file \<lparr>f_path = p, f_mtime = mt,
               f_language = (case get_v data ''language'' of
                   VLanguage l \<Rightarrow> l
                 | Py (PyStr s) \<Rightarrow> language_from_string s
                 | _ \<Rightarrow> from_file_extension scss p),
               f_size_bytes = sz, f_id = fid, f_content_hash = ch, f_created_at = ca, f_updated_at = ua\<rparr>))))))))"

definition file_to_dict :: "(datetime \<Rightarrow> string) \<Rightarrow> source_file \<Rightarrow> ddict" where
  "file_to_dict isof f =
     [(''path'', Py (PyStr (f_path f))), (''mtime'', Py (PyFloat (f_mtime f))),
      (''language'', Py (PyStr (language_value (f_language f)))), (''size_bytes'', Py (PyInt (f_size_bytes f)))]
     @ opt_entry ''id'' (Py \<circ> PyInt) (f_id f)
     @ opt_entry ''content_hash'' (Py \<circ> PyStr) (f_content_hash f)
     @ opt_entry ''created_at'' (Py \<circ> PyStr \<circ> isof) (f_created_at f)
     @ opt_entry ''updated_at'' (Py \<circ> PyStr \<circ> isof) (f_updated_at f)"

definition is_supported_language :: "source_file \<Rightarrow> bool" where
  "is_supported_language f \<longleftrightarrow> f_language f \<noteq> L_UNKNOWN"

definition file_with_id :: "source_file \<Rightarrow> int \<Rightarrow> source_file result" where
  "file_with_id f i = mk_file (f\<lparr>f_id := Some i\<rparr>)"

text \<open>\<open>now\<close> is the clock reading \<open>datetime.utcnow()\<close>.\<close>

definition with_updated_mtime :: "datetime \<Rightarrow> source_file \<Rightarrow> rat \<Rightarrow> source_file result" where
  "with_updated_mtime now f t = mk_file (f\<lparr>f_mtime := t, f_updated_at := Some now\<rparr>)"

lemma file_to_dict_get:
  "dict_get (file_to_dict isof f) ''path'' = Some (Py (PyStr (f_path f)))"
  "dict_get (file_to_dict isof f) ''mtime'' = Some (Py (PyFloat (f_mtime f)))"
  "dict_get (file_to_dict isof f) ''language'' = Some (Py (PyStr (language_value (f_language f))))"
  "dict_get (file_to_dict isof f) ''size_bytes'' = Some (Py (PyInt (f_size_bytes f)))"
  "dict_get (file_to_dict isof f) ''id'' = map_option (Py \<circ> PyInt) (f_id f)"
  "dict_get (file_to_dict isof f) ''content_hash'' = map_option (Py \<circ> PyStr) (f_content_hash f)"
  "dict_get (file_to_dict isof f) ''created_at'' = map_option (Py \<circ> PyStr \<circ> isof) (f_created_at f)"
  "dict_get (file_to_dict isof f) ''updated_at'' = map_option (Py \<circ> PyStr \<circ> isof) (f_updated_at f)"
  by (simp_all add: file_to_dict_def map_add_def split: option.split)

lemma file_dict_roundtrip:
  assumes "\<And>t. fromiso (isof t) = Inr t" "mk_file f = Inr f"
  shows "file_from_dict scss fromiso strfloat (file_to_dict isof f) = Inr f"
proof -
  have "f_path f \<noteq> []" using assms(2) by (auto simp: mk_file_def)
  then show ?thesis
    using assms(2) by (cases f) (simp add: file_from_dict_def get_v_def file_to_dict_get as_opt_of_map
        as_opt_time_of_map [OF assms(1)] del: case_map_option)
qed

lemma file_ops_valid:
  "file_with_id f i = Inr g \<Longrightarrow> mk_file g = Inr g"
  "with_updated_mtime now f t = Inr g \<Longrightarrow> mk_file g = Inr g"
  "file_from_path scss rd stat p = Inr g \<Longrightarrow> mk_file g = Inr g"
  by (auto simp: file_with_id_def with_updated_mtime_def file_from_path_def mk_file_def
      split: if_splits option.splits)

end
