(* ===== verification/Splitter.thy ===== *)
theory Splitter
  imports Chunk_Model
begin

text \<open>
  The chunk splitter: \<open>parsers/chunk_splitter.py\<close> and the data of \<open>parsers/universal_engine.py\<close>.

  \<open>ChunkSplitter\<close> keeps no state but its configuration, the first argument of the definitions.
  The two \<open>while\<close> loops of \<open>_emergency_split\<close> need not end for every configuration (with a
  token limit of 0 the forced split point is 0), so they are partial functions into
  \<^typ>\<open>'a option\<close>; that they return for the configurations in use is a theorem.  The recursion
  of \<open>_recursive_split\<close> through \<open>_split_by_lines_simple\<close> always ends: it is one function with
  the number of lines as its measure.
\<close>

datatype universal_concept = DEFINITION | BLOCK | COMMENT | IMPORT | STRUCTURE

fun concept_value :: "universal_concept \<Rightarrow> string" where
  "concept_value DEFINITION = ''definition''"
| "concept_value BLOCK = ''block''"
| "concept_value COMMENT = ''comment''"
| "concept_value IMPORT = ''import''"
| "concept_value STRUCTURE = ''structure''"

record universal_chunk =
  uc_concept :: universal_concept
  uc_name :: string
  uc_content :: string
  uc_start_line :: int
  uc_end_line :: int
  uc_metadata :: "(string \<times> pyval) list"
  uc_language_node_type :: string

subsection \<open>Configuration and metrics\<close>

record cast_config =
  max_chunk_size :: int
  min_chunk_size :: int
  merge_threshold :: rat
  greedy_merge :: bool
  safe_token_limit :: int

definition default_cast_config :: cast_config where
  "default_cast_config = \<lparr>max_chunk_size = 1200, min_chunk_size = 50, merge_threshold = fl (4 / 5),
     greedy_merge = True, safe_token_limit = 6000\<rparr>"

definition mk_cast_config :: "cast_config \<Rightarrow> cast_config result" where
  "mk_cast_config cfg = (if min_chunk_size cfg < 1 then Inl ValueError else Inr cfg)"

record chunk_metrics =
  non_whitespace_chars :: int
  total_chars :: int
  cm_lines :: int

definition metrics_from_content :: "string \<Rightarrow> chunk_metrics" where
  "metrics_from_content s =
     \<lparr>non_whitespace_chars = int (length (filter (\<lambda>c. \<not> py_space c) s)), total_chars = int (length s),
      cm_lines = int (length (split_on nl s))\<rparr>"

definition compute_end_line :: "string \<Rightarrow> int \<Rightarrow> int" where
  "compute_end_line content start_line =
     (let newline_count = int (count_list content nl);
          end_line = (if ends_with content [nl] then start_line + newline_count - 1
                      else start_line + newline_count)
      in max start_line end_line)"

text \<open>The size check that \<open>validate_and_split\<close>, \<open>_recursive_split\<close> and \<open>_emergency_split\<close> repeat.\<close>

definition fits :: "cast_config \<Rightarrow> string \<Rightarrow> bool" where
  "fits cfg s \<longleftrightarrow> non_whitespace_chars (metrics_from_content s) \<le> max_chunk_size cfg
     \<and> estimate_tokens_chunking s \<le> safe_token_limit cfg"

subsection \<open>Emergency splitting\<close>

definition create_split_chunk :: "universal_chunk \<Rightarrow> string \<Rightarrow> int \<Rightarrow> int \<Rightarrow> int \<Rightarrow> universal_chunk" where
  "create_split_chunk original content part_num content_start_pos total_content_length =
     (let original_line_span = uc_end_line original - uc_start_line original + 1;
          (start_line, end_line) =
            (if 0 < total_content_length \<and> 0 \<le> content_start_pos
             then
               (let position_ratio = py_truediv content_start_pos total_content_length;
                    content_ratio = py_truediv (int (length content)) total_content_length;
                    line_offset = py_trunc (py_fmul position_ratio original_line_span);
                    line_span = max 1 (py_trunc (py_fmul content_ratio original_line_span));
                    start0 = uc_start_line original + line_offset;
                    end0 = min (uc_end_line original) (start0 + line_span - 1);
                    start1 = min start0 (uc_end_line original)
                in (start1, max end0 start1))
             else (uc_start_line original, uc_end_line original))
      in original\<lparr>uc_name := uc_name original @ ''_part'' @ str_int part_num, uc_content := content,
           uc_start_line := start_line, uc_end_line := end_line\<rparr>)"

definition split_chars :: string where
  "split_chars = [nl, CHR '';'', CHR ''}'', CHR ''{'', CHR '','', CHR '' '']"

definition raw_search_window :: "cast_config \<Rightarrow> int" where
  "raw_search_window cfg = safe_token_limit cfg * EMBEDDING_CHARS_PER_TOKEN"

text \<open>The \<open>for split_char in split_chars\<close> loop: the first character with a usable last occurrence.\<close>

fun best_split :: "cast_config \<Rightarrow> string \<Rightarrow> string \<Rightarrow> int" where
  "best_split cfg remaining [] = 0"
| "best_split cfg remaining (c # cs) =
     (let search_end = min (raw_search_window cfg) (int (length remaining));
          pos = rfind_below c remaining (slice_bound remaining search_end)
      in if pos > 0 \<and> fits cfg (py_take (pos + 1) remaining) then pos + 1
         else best_split cfg remaining cs)"

partial_function (option) shrink_split :: "cast_config \<Rightarrow> string \<Rightarrow> int \<Rightarrow> int option" where
  "shrink_split cfg remaining b =
     (if \<not> fits cfg (py_take b remaining) \<and> b > min_chunk_size cfg
      then shrink_split cfg remaining (b div 2) else Some b)"

definition split_point :: "cast_config \<Rightarrow> string \<Rightarrow> int option" where
  "split_point cfg remaining =
     (let b = best_split cfg remaining split_chars
      in if b = 0 then shrink_split cfg remaining (min (raw_search_window cfg) (int (length remaining)))
         else Some b)"

partial_function (option) emergency_loop ::
  "cast_config \<Rightarrow> universal_chunk \<Rightarrow> string \<Rightarrow> int \<Rightarrow> int \<Rightarrow> universal_chunk list option" where
  "emergency_loop cfg chunk remaining part_num current_pos =
     (if remaining = [] then Some []
      else if fits cfg remaining
      then Some [create_split_chunk chunk remaining part_num current_pos (int (length (uc_content chunk)))]
      else Option.bind (split_point cfg remaining) (\<lambda>b.
             Option.bind (emergency_loop cfg chunk (py_drop b remaining) (part_num + 1) (current_pos + b)) (\<lambda>rest.
               Some (create_split_chunk chunk (py_take b remaining) part_num current_pos
                       (int (length (uc_content chunk))) # rest))))"

definition emergency_split :: "cast_config \<Rightarrow> universal_chunk \<Rightarrow> universal_chunk list option" where
  "emergency_split cfg chunk =
     (if fits cfg (uc_content chunk) then Some [chunk]
      else emergency_loop cfg chunk (uc_content chunk) 1 0)"

subsection \<open>Line splitting\<close>

text \<open>\<open>max_chunk_size * 0.2\<close> is a product of floats.\<close>

definition analyze_lines :: "cast_config \<Rightarrow> string list \<Rightarrow> bool" where
  "analyze_lines cfg ls =
     (if ls = [] then False
      else of_int (int (Max (set (map length ls)))) > py_fmul (fl (1 / 5)) (max_chunk_size cfg))"

text \<open>
  \<open>split_by_lines_simple\<close> computes the two halves; \<^const>\<open>None\<close> is its fall-back to
  \<open>_emergency_split\<close>.  The recursive calls on the halves are in \<open>recursive_split\<close> below.
\<close>

definition split_by_lines_simple ::
  "universal_chunk \<Rightarrow> string list \<Rightarrow> (universal_chunk \<times> universal_chunk) option" where
  "split_by_lines_simple chunk ls =
     (let mid_point = length ls div 2;
          chunk1_content = join_with [nl] (take mid_point ls);
          chunk2_content = join_with [nl] (drop mid_point ls);
          chunk1_lines = int (length (take mid_point ls));
          end0 = uc_start_line chunk + chunk1_lines - 1;
          start0 = end0 + 1;
          chunk1_end_line = max (uc_start_line chunk) (min end0 (uc_end_line chunk));
          chunk2_start_line = max (chunk1_end_line + 1) (min start0 (uc_end_line chunk))
      in if chunk2_start_line \<ge> uc_end_line chunk then None
         else Some (chunk\<lparr>uc_name := uc_name chunk @ ''_part1'', uc_content := chunk1_content,
                         uc_end_line := chunk1_end_line\<rparr>,
                    chunk\<lparr>uc_name := uc_name chunk @ ''_part2'', uc_content := chunk2_content,
                         uc_start_line := chunk2_start_line\<rparr>))"

lemma length_split_join:
  "ls \<noteq> [] \<Longrightarrow> set ls \<subseteq> set (split_on nl s) \<Longrightarrow> split_on nl (join_with [nl] ls) = ls"
  by (intro split_join) (auto dest: split_on_no_sep)

lemma split_by_lines_content:
  assumes "split_by_lines_simple c ls = Some (a, b)" "ls = split_on nl (uc_content c)" "2 < length ls"
  shows "split_on nl (uc_content a) = take (length ls div 2) ls"
    and "split_on nl (uc_content b) = drop (length ls div 2) ls"
  using assms length_split_join [of "take (length ls div 2) ls" "uc_content c"]
    length_split_join [of "drop (length ls div 2) ls" "uc_content c"]
  by (auto simp: split_by_lines_simple_def Let_def set_take_subset set_drop_subset split: if_splits)

function (sequential) recursive_split :: "cast_config \<Rightarrow> universal_chunk \<Rightarrow> universal_chunk list option" where
  "recursive_split cfg chunk =
     (if fits cfg (uc_content chunk) then Some [chunk]
      else let ls = split_on nl (uc_content chunk);
               has_very_long_lines = analyze_lines cfg ls;
               line_span = uc_end_line chunk - uc_start_line chunk
           in if length ls \<le> 2 \<or> has_very_long_lines \<or> line_span < 2 then emergency_split cfg chunk
              else case split_by_lines_simple chunk ls of
                None \<Rightarrow> emergency_split cfg chunk
              | Some (chunk1, chunk2) \<Rightarrow>
                  Option.bind (recursive_split cfg chunk1) (\<lambda>r1.
                    Option.bind (recursive_split cfg chunk2) (\<lambda>r2. Some (r1 @ r2))))"
  by pat_completeness auto
termination
proof (relation "measure (\<lambda>(cfg, c). length (split_on nl (uc_content c)))", goal_cases)
  case (2 cfg chunk ls lng span xy a b)
  then show ?case using split_by_lines_content(1) [of chunk ls a b] by auto
next
  case (3 cfg chunk ls lng span xy a b)
  then show ?case using split_by_lines_content(2) [of chunk ls a b] by auto
qed simp

declare recursive_split.simps [simp del]

subsection \<open>Entry points\<close>

definition validate_and_split :: "cast_config \<Rightarrow> universal_chunk \<Rightarrow> universal_chunk list option" where
  "validate_and_split cfg chunk =
     (if fits cfg (uc_content chunk) then Some [chunk] else recursive_split cfg chunk)"

definition validate_text_content ::
  "cast_config \<Rightarrow> string \<Rightarrow> string \<Rightarrow> int \<Rightarrow> int \<Rightarrow> universal_concept \<Rightarrow> universal_chunk list option" where
  "validate_text_content cfg content name start_line end_line concept =
     validate_and_split cfg \<lparr>uc_concept = concept, uc_name = name, uc_content = content,
       uc_start_line = start_line, uc_end_line = end_line, uc_metadata = [], uc_language_node_type = ''text''\<rparr>"

definition new_chunk ::
  "string \<Rightarrow> int \<Rightarrow> int \<Rightarrow> string \<Rightarrow> ChunkType \<Rightarrow> int option \<Rightarrow> Language \<Rightarrow> string option \<Rightarrow>
     (string \<times> pyval) list option \<Rightarrow> chunk result" where
  "new_chunk symbol start_line end_line code chunk_type file_id language file_path metadata =
     mk_chunk \<lparr>c_symbol = Some symbol, c_start_line = start_line, c_end_line = end_line, c_code = code,
       c_chunk_type = chunk_type,
       c_file_id = (case file_id of None \<Rightarrow> 0 | Some i \<Rightarrow> i), c_language = language,
       c_id = None, c_file_path = file_path, c_parent_header = None, c_start_byte = None, c_end_byte = None,
       c_created_at = None, c_updated_at = None, c_metadata = metadata\<rparr>"

text \<open>A \<open>Path\<close> is the string it prints as; \<open>str(Path("."))\<close> is never empty.\<close>

definition validate_and_convert_text ::
  "cast_config \<Rightarrow> string \<Rightarrow> string \<Rightarrow> int \<Rightarrow> int \<Rightarrow> string option \<Rightarrow> int option \<Rightarrow> Language \<Rightarrow>
     chunk list result option" where
  "validate_and_convert_text cfg content name start_line end_line file_path file_id language =
     map_option
       (map_result (\<lambda>vc. new_chunk (uc_name vc) (uc_start_line vc) (uc_end_line vc) (uc_content vc)
          CT_PARAGRAPH file_id language file_path None))
       (validate_text_content cfg content name start_line end_line BLOCK)"

subsection \<open>Conversion between chunks and universal chunks\<close>

definition CHUNK_TYPE_TO_CONCEPT :: "(ChunkType, universal_concept) pydict" where
  "CHUNK_TYPE_TO_CONCEPT = [
    (CT_FUNCTION, DEFINITION), (CT_METHOD, DEFINITION), (CT_CONSTRUCTOR, DEFINITION),
    (CT_PROPERTY, DEFINITION), (CT_FIELD, DEFINITION), (CT_CLOSURE, DEFINITION),
    (CT_EXTENSION_FUNCTION, DEFINITION), (CT_VARIABLE, DEFINITION), (CT_MACRO, DEFINITION),
    (CT_PROGRAM, DEFINITION), (CT_FUNCTION_BLOCK, DEFINITION), (CT_ACTION, DEFINITION),
    (CT_CLASS, STRUCTURE), (CT_INTERFACE, STRUCTURE), (CT_STRUCT, STRUCTURE), (CT_ENUM, STRUCTURE),
    (CT_NAMESPACE, STRUCTURE), (CT_TYPE_ALIAS, STRUCTURE), (CT_TRAIT, STRUCTURE), (CT_OBJECT, STRUCTURE),
    (CT_COMPANION_OBJECT, STRUCTURE), (CT_DATA_CLASS, STRUCTURE), (CT_TYPE, STRUCTURE),
    (CT_COMMENT, COMMENT), (CT_DOCSTRING, COMMENT), (CT_IMPORT, IMPORT), (CT_SCRIPT, BLOCK),
    (CT_CODE_BLOCK, BLOCK), (CT_HEADER_1, BLOCK), (CT_HEADER_2, BLOCK), (CT_HEADER_3, BLOCK),
    (CT_HEADER_4, BLOCK), (CT_HEADER_5, BLOCK), (CT_HEADER_6, BLOCK), (CT_PARAGRAPH, BLOCK),
    (CT_TABLE, BLOCK), (CT_KEY_VALUE, BLOCK), (CT_ARRAY, BLOCK), (CT_BLOCK, BLOCK),
    (CT_EMBEDDED_SQL, BLOCK), (CT_UNKNOWN, BLOCK)]"

definition concept_chunk_type :: "universal_concept \<Rightarrow> ChunkType" where
  "concept_chunk_type k =
     (case k of DEFINITION \<Rightarrow> CT_FUNCTION | BLOCK \<Rightarrow> CT_BLOCK | COMMENT \<Rightarrow> CT_COMMENT
      | IMPORT \<Rightarrow> CT_BLOCK | STRUCTURE \<Rightarrow> CT_BLOCK)"

definition universal_to_chunk ::
  "universal_chunk \<Rightarrow> string option \<Rightarrow> int option \<Rightarrow> Language \<Rightarrow> chunk result" where
  "universal_to_chunk uc file_path file_id language =
     (let t = chunk_type_from_string (uc_language_node_type uc);
          chunk_type = (if t = CT_UNKNOWN then concept_chunk_type (uc_concept uc) else t)
      in new_chunk (uc_name uc) (uc_start_line uc) (uc_end_line uc) (uc_content uc) chunk_type file_id
           language file_path (Some (uc_metadata uc)))"

definition chunk_to_universal :: "chunk \<Rightarrow> universal_chunk" where
  "chunk_to_universal c =
     (let concept0 = (case dict_get CHUNK_TYPE_TO_CONCEPT (c_chunk_type c) of None \<Rightarrow> BLOCK | Some k \<Rightarrow> k);
          concept =
            (if c_chunk_type c = CT_EMBEDDED_SQL \<and>
                (case c_metadata c of None \<Rightarrow> False
                 | Some md \<Rightarrow> md \<noteq> [] \<and> dict_get md ''kind'' = Some (PyStr ''embedded_sql_ddl''))
             then DEFINITION else concept0)
      in \<lparr>uc_concept = concept, uc_name = (case c_symbol c of None \<Rightarrow> [] | Some s \<Rightarrow> s),
          uc_content = c_code c, uc_start_line = c_start_line c, uc_end_line = c_end_line c,
          uc_metadata = (case c_metadata c of None \<Rightarrow> [] | Some md \<Rightarrow> md),
          uc_language_node_type = chunk_type_value (c_chunk_type c)\<rparr>)"

subsection \<open>The split point\<close>

definition nonws :: "string \<Rightarrow> string" where
  "nonws s = filter (\<lambda>c. \<not> py_space c) s"

lemma nonws_append [simp]: "nonws (s @ t) = nonws s @ nonws t"
  by (simp add: nonws_def)

lemma nonws_Nil [simp]: "nonws [] = []"
  by (simp add: nonws_def)

lemma nonws_nl [simp]: "nonws (nl # s) = nonws s"
  by (simp add: nonws_def py_space_unix)

lemma length_nonws_le: "length (nonws s) \<le> length s"
  by (simp add: nonws_def)

lemma fits_iff:
  "fits cfg s \<longleftrightarrow> int (length (nonws s)) \<le> max_chunk_size cfg \<and> estimate_tokens_chunking s \<le> safe_token_limit cfg"
  by (simp add: fits_def metrics_from_content_def nonws_def)

text \<open>
  A configuration the loops return for, and one whose minimal size respects its own limits
  (the default one does).
\<close>

definition cfg_ok :: "cast_config \<Rightarrow> bool" where
  "cfg_ok cfg \<longleftrightarrow> 1 \<le> min_chunk_size cfg \<and> 1 \<le> safe_token_limit cfg"

definition cfg_tight :: "cast_config \<Rightarrow> bool" where
  "cfg_tight cfg \<longleftrightarrow> cfg_ok cfg \<and> min_chunk_size cfg \<le> max_chunk_size cfg
     \<and> min_chunk_size cfg div 3 \<le> safe_token_limit cfg"

lemma default_cfg_tight: "cfg_tight default_cast_config"
  by (simp add: cfg_tight_def cfg_ok_def default_cast_config_def)

lemma short_fits:
  assumes "cfg_tight cfg" "int (length s) \<le> min_chunk_size cfg"
  shows "fits cfg s"
proof -
  have "int (length s) div 3 \<le> min_chunk_size cfg div 3" using assms(2) by (rule zdiv_mono1) simp
  with assms length_nonws_le [of s] show ?thesis
    by (auto simp: fits_iff cfg_tight_def cfg_ok_def token_defs)
qed

lemma shrink_split_total:
  assumes "1 \<le> min_chunk_size cfg" "1 \<le> b"
  shows "\<exists>b'. shrink_split cfg r b = Some b' \<and> 1 \<le> b' \<and> b' \<le> b
    \<and> (fits cfg (py_take b' r) \<or> b' \<le> min_chunk_size cfg)"
  using assms(2)
proof (induction "nat b" arbitrary: b rule: less_induct)
  case less
  show ?case
  proof (cases "\<not> fits cfg (py_take b r) \<and> b > min_chunk_size cfg")
    case True
    with assms(1) less.prems have "nat (b div 2) < nat b" "1 \<le> b div 2" by auto
    from less.hyps [OF this] True less.prems show ?thesis
      by (subst shrink_split.simps) force
  next
    case False
    with less.prems show ?thesis by (subst shrink_split.simps) auto
  qed
qed

lemma best_split_bounds:
  "best_split cfg r cs = 0 \<or>
     1 \<le> best_split cfg r cs \<and> best_split cfg r cs \<le> int (length r) \<and> fits cfg (py_take (best_split cfg r cs) r)"
proof (induction cs)
  case (Cons c cs)
  then show ?case
    using rfind_below_less_length [of c r "slice_bound r (min (raw_search_window cfg) (int (length r)))"]
    by (auto simp: Let_def)
qed simp

lemma split_point_total:
  assumes "cfg_ok cfg" "r \<noteq> []"
  obtains b where "split_point cfg r = Some b" "1 \<le> b" "b \<le> int (length r)"
    "fits cfg (py_take b r) \<or> b \<le> min_chunk_size cfg"
proof (cases "best_split cfg r split_chars = 0")
  case True
  let ?w = "min (raw_search_window cfg) (int (length r))"
  have "1 \<le> ?w" using assms by (cases r) (auto simp: cfg_ok_def raw_search_window_def EMBEDDING_CHARS_PER_TOKEN_def)
  moreover have "1 \<le> min_chunk_size cfg" using assms(1) by (simp add: cfg_ok_def)
  ultimately obtain b where "shrink_split cfg r ?w = Some b" "1 \<le> b" "b \<le> ?w"
    "fits cfg (py_take b r) \<or> b \<le> min_chunk_size cfg"
    using shrink_split_total by blast
  with True that show ?thesis by (simp add: split_point_def)
next
  case False
  with best_split_bounds [of cfg r split_chars] that show ?thesis by (auto simp: split_point_def Let_def)
qed

subsection \<open>The contract of a splitter\<close>

text \<open>
  A part keeps the concept, the metadata and the node type, and its lines are a non-empty
  range inside those of the original.  \<open>splits_into\<close> is what a splitter promises about the whole
  list: the parts carry the non-white-space text of the original in order, start in order, and,
  when the configuration allows it, all fit.
\<close>

definition part_of :: "universal_chunk \<Rightarrow> universal_chunk \<Rightarrow> bool" where
  "part_of c p \<longleftrightarrow> uc_concept p = uc_concept c \<and> uc_metadata p = uc_metadata c
     \<and> uc_language_node_type p = uc_language_node_type c
     \<and> uc_start_line c \<le> uc_start_line p \<and> uc_start_line p \<le> uc_end_line p \<and> uc_end_line p \<le> uc_end_line c"

definition splits_into :: "cast_config \<Rightarrow> universal_chunk \<Rightarrow> universal_chunk list \<Rightarrow> bool" where
  "splits_into cfg c ps \<longleftrightarrow>
     concat (map (nonws \<circ> uc_content) ps) = nonws (uc_content c) \<and> list_all (part_of c) ps
     \<and> sorted (map uc_start_line ps) \<and> (cfg_tight cfg \<longrightarrow> list_all (fits cfg \<circ> uc_content) ps)"

lemma splits_into_self:
  "uc_start_line c \<le> uc_end_line c \<Longrightarrow> fits cfg (uc_content c) \<Longrightarrow> splits_into cfg c [c]"
  by (simp add: splits_into_def part_of_def)

lemma part_of_trans: "part_of c b \<Longrightarrow> part_of b a \<Longrightarrow> part_of c a"
  by (auto simp: part_of_def)

lemma splits_into_append:
  assumes "splits_into cfg a ps" "splits_into cfg b qs" "part_of c a" "part_of c b"
    and "uc_end_line a \<le> uc_start_line b" "nonws (uc_content c) = nonws (uc_content a) @ nonws (uc_content b)"
  shows "splits_into cfg c (ps @ qs)"
proof -
  have "uc_start_line p \<le> uc_start_line q" if "p \<in> set ps" "q \<in> set qs" for p q
    using assms(1,2,5) that by (force simp: splits_into_def part_of_def list_all_iff)
  then show ?thesis
    using assms by (auto simp: splits_into_def sorted_append list_all_iff intro: part_of_trans)
qed

lemma create_split_chunk_content [simp]: "uc_content (create_split_chunk c s k pos n) = s"
  by (simp add: create_split_chunk_def Let_def split: prod.split)

lemma create_split_chunk_part:
  assumes "uc_start_line c \<le> uc_end_line c"
  shows "part_of c (create_split_chunk c s k pos n)"
proof (cases "0 < n \<and> 0 \<le> pos")
  case True
  then have "0 \<le> py_trunc (py_fmul (py_truediv pos n) (uc_end_line c - uc_start_line c + 1))"
    using assms by (intro py_trunc_nonneg py_fmul_nonneg py_truediv_nonneg) simp_all
  with True assms show ?thesis by (auto simp: part_of_def create_split_chunk_def Let_def)
next
  case False
  with assms show ?thesis by (auto simp: part_of_def create_split_chunk_def Let_def)
qed

lemma create_split_chunk_start_mono:
  assumes "uc_start_line c \<le> uc_end_line c" "0 \<le> pos" "pos \<le> pos'" "0 < n"
  shows "uc_start_line (create_split_chunk c s k pos n) \<le> uc_start_line (create_split_chunk c s' k' pos' n)"
proof -
  have "py_trunc (py_fmul (py_truediv pos n) (uc_end_line c - uc_start_line c + 1))
      \<le> py_trunc (py_fmul (py_truediv pos' n) (uc_end_line c - uc_start_line c + 1))"
    using assms by (intro py_trunc_mono py_fmul_mono py_truediv_mono) simp_all
  with assms show ?thesis by (auto simp: create_split_chunk_def Let_def min_def)
qed

subsection \<open>Emergency splitting is correct\<close>

lemma length_py_take: "0 \<le> b \<Longrightarrow> b \<le> int (length r) \<Longrightarrow> int (length (py_take b r)) = b"
  by (simp add: py_take_nonneg)

lemma emergency_loop_total:
  assumes cfg: "cfg_ok cfg" and pos: "0 \<le> pos"
  shows "\<exists>ps. emergency_loop cfg c r k pos = Some ps \<and> concat (map uc_content ps) = r
    \<and> (\<forall>p\<in>set ps. uc_content p \<noteq> [] \<and> (cfg_tight cfg \<longrightarrow> fits cfg (uc_content p)))
    \<and> (\<exists>xs. ps = map (\<lambda>(s, k, pos). create_split_chunk c s k pos (int (length (uc_content c)))) xs
         \<and> sorted (map (snd \<circ> snd) xs) \<and> (\<forall>x\<in>set xs. pos \<le> snd (snd x)))"
    (is "\<exists>ps. ?P r k pos ps")
  using pos
proof (induction "length r" arbitrary: r k pos rule: less_induct)
  case less
  let ?mk = "\<lambda>s k pos. create_split_chunk c s k pos (int (length (uc_content c)))"
  consider "r = []" | "r \<noteq> []" "fits cfg r" | "r \<noteq> []" "\<not> fits cfg r" by blast
  then show ?case
  proof cases
    case 1
    then show ?thesis by (subst emergency_loop.simps) simp
  next
    case 2
    then have "?P r k pos [?mk r k pos]"
      by (subst emergency_loop.simps) (auto intro!: exI [of _ "[(r, k, pos)]"])
    then show ?thesis by (rule exI)
  next
    case 3
    obtain b where b: "split_point cfg r = Some b" "1 \<le> b" "b \<le> int (length r)"
      "fits cfg (py_take b r) \<or> b \<le> min_chunk_size cfg"
      using split_point_total [OF cfg 3(1)] by blast
    let ?t = "py_take b r" and ?d = "py_drop b r"
    have "length ?d < length r" using b(2,3) by (simp add: py_drop_nonneg)
    moreover have "0 \<le> pos + b" using b(2) less.prems by simp
    ultimately have "\<exists>ps. ?P ?d (k + 1) (pos + b) ps" by (rule less.hyps)
    then obtain ps where ps: "?P ?d (k + 1) (pos + b) ps" by (rule exE)
    then obtain xs where xs: "ps = map (\<lambda>(s, k, pos). ?mk s k pos) xs" "sorted (map (snd \<circ> snd) xs)"
      "\<forall>x\<in>set xs. pos + b \<le> snd (snd x)" by blast
    have t: "?t \<noteq> []" using b(2,3) length_py_take [of b r] by auto
    have fit: "cfg_tight cfg \<Longrightarrow> fits cfg ?t"
      using b length_py_take [of b r] short_fits [of cfg ?t] by auto
    have mono: "\<forall>x\<in>set xs. pos \<le> snd (snd x)" using xs(3) b(2) by force
    have "emergency_loop cfg c r k pos = Some (?mk ?t k pos # ps)"
      using 3 b(1) ps by (subst emergency_loop.simps) simp
    moreover have "concat (map uc_content (?mk ?t k pos # ps)) = r" using ps by simp
    moreover have "\<forall>p\<in>set (?mk ?t k pos # ps). uc_content p \<noteq> [] \<and> (cfg_tight cfg \<longrightarrow> fits cfg (uc_content p))"
      using ps t fit by simp
    moreover have "?mk ?t k pos # ps = map (\<lambda>(s, k, pos). ?mk s k pos) ((?t, k, pos) # xs)"
      "sorted (map (snd \<circ> snd) ((?t, k, pos) # xs))" "\<forall>x\<in>set ((?t, k, pos) # xs). pos \<le> snd (snd x)"
      using xs mono by simp_all
    ultimately have "?P r k pos (?mk ?t k pos # ps)"
      by - (intro conjI exI [of _ "(?t, k, pos) # xs"], assumption+)
    then show ?thesis by (rule exI)
  qed
qed

lemma sorted_starts:
  assumes "uc_start_line c \<le> uc_end_line c" "sorted (map (snd \<circ> snd) xs)" "\<forall>x\<in>set xs. 0 \<le> snd (snd x)" "0 < n"
  shows "sorted (map (uc_start_line \<circ> (\<lambda>(s, k, pos). create_split_chunk c s k pos n)) xs)"
  using assms(2,3)
proof (induction xs)
  case (Cons x xs)
  have "uc_start_line (create_split_chunk c (fst x) (fst (snd x)) (snd (snd x)) n)
      \<le> uc_start_line (create_split_chunk c (fst y) (fst (snd y)) (snd (snd y)) n)" if "y \<in> set xs" for y
    using that Cons.prems assms(1,4) by (intro create_split_chunk_start_mono) auto
  with Cons show ?case by (auto simp: case_prod_beta)
qed simp

lemma emergency_split_correct:
  assumes "cfg_ok cfg" "uc_start_line c \<le> uc_end_line c"
  shows "\<exists>ps. emergency_split cfg c = Some ps \<and> splits_into cfg c ps \<and> concat (map uc_content ps) = uc_content c
    \<and> (uc_content c \<noteq> [] \<longrightarrow> (\<forall>p\<in>set ps. uc_content p \<noteq> []))"
proof (cases "fits cfg (uc_content c)")
  case True
  with assms show ?thesis by (simp add: emergency_split_def splits_into_self)
next
  case False
  obtain ps xs where ps: "emergency_loop cfg c (uc_content c) 1 0 = Some ps" "concat (map uc_content ps) = uc_content c"
      "\<forall>p\<in>set ps. uc_content p \<noteq> [] \<and> (cfg_tight cfg \<longrightarrow> fits cfg (uc_content p))"
    and xs: "ps = map (\<lambda>(s, k, pos). create_split_chunk c s k pos (int (length (uc_content c)))) xs"
      "sorted (map (snd \<circ> snd) xs)" "\<forall>x\<in>set xs. 0 \<le> snd (snd x)"
    using emergency_loop_total [OF assms(1), of 0 c "uc_content c" 1] by force
  have "concat (map (nonws \<circ> uc_content) ps) = nonws (concat (map uc_content ps))" by (induction ps) auto
  moreover have "list_all (part_of c) ps"
    using xs(1) create_split_chunk_part [OF assms(2)] by (auto simp: list_all_iff)
  moreover have "sorted (map uc_start_line ps)"
  proof (cases "uc_content c = []")
    case True
    with ps(2,3) have "ps = []" by (cases ps) auto
    then show ?thesis by simp
  next
    case False
    then show ?thesis
      using sorted_starts [OF assms(2) xs(2,3), of "int (length (uc_content c))"] xs(1) by simp
  qed
  ultimately have "splits_into cfg c ps" using ps by (simp add: splits_into_def list_all_iff)
  then show ?thesis using False ps by (simp add: emergency_split_def)
qed

subsection \<open>Line splitting is correct\<close>

lemma split_by_lines_parts:
  assumes "split_by_lines_simple c ls = Some (a, b)" "ls = split_on nl (uc_content c)" "2 < length ls"
    and "2 \<le> uc_end_line c - uc_start_line c"
  shows "part_of c a" and "part_of c b" and "uc_end_line a \<le> uc_start_line b"
    and "nonws (uc_content c) = nonws (uc_content a) @ nonws (uc_content b)"
    and "uc_content c = uc_content a @ [nl] @ uc_content b"
proof -
  let ?m = "length ls div 2"
  have ab: "uc_content a = join_with [nl] (take ?m ls)" "uc_content b = join_with [nl] (drop ?m ls)"
    using assms(1) by (auto simp: split_by_lines_simple_def Let_def split: if_splits)
  have "take ?m ls \<noteq> []" "drop ?m ls \<noteq> []" using assms(3) by auto
  from join_append [OF this, of "[nl]"] show c: "uc_content c = uc_content a @ [nl] @ uc_content b"
    using assms(2) join_split_on [of nl "uc_content c"] ab by simp
  show "nonws (uc_content c) = nonws (uc_content a) @ nonws (uc_content b)" by (subst c) simp
  show "part_of c a" "part_of c b" "uc_end_line a \<le> uc_start_line b"
    using assms by (auto simp: part_of_def split_by_lines_simple_def Let_def split: if_splits)
qed

lemma recursive_split_correct:
  assumes "cfg_ok cfg" "uc_start_line c \<le> uc_end_line c"
  shows "\<exists>ps. recursive_split cfg c = Some ps \<and> splits_into cfg c ps"
  using assms
proof (induction cfg c rule: recursive_split.induct)
  case (1 cfg c)
  let ?ls = "split_on nl (uc_content c)"
  consider "fits cfg (uc_content c)"
    | "\<not> fits cfg (uc_content c)" "length ?ls \<le> 2 \<or> analyze_lines cfg ?ls \<or> uc_end_line c - uc_start_line c < 2
        \<or> split_by_lines_simple c ?ls = None"
    | a b where "\<not> fits cfg (uc_content c)" "2 < length ?ls" "\<not> analyze_lines cfg ?ls"
        "2 \<le> uc_end_line c - uc_start_line c" "split_by_lines_simple c ?ls = Some (a, b)"
    by (cases "split_by_lines_simple c ?ls") force+
  then show ?case
  proof cases
    case 1
    with "1.prems" show ?thesis by (subst recursive_split.simps) (simp add: splits_into_self)
  next
    case 2
    with emergency_split_correct [OF "1.prems"] show ?thesis
      by (subst recursive_split.simps) (auto simp: Let_def)
  next
    case (3 a b)
    note parts = split_by_lines_parts [OF 3(5) refl 3(2,4)]
    have l: "uc_start_line a \<le> uc_end_line a" "uc_start_line b \<le> uc_end_line b"
      using parts(1,2) by (auto simp: part_of_def)
    have c: "\<not> (length ?ls \<le> 2 \<or> analyze_lines cfg ?ls \<or> uc_end_line c - uc_start_line c < 2)"
      using 3 by simp
    obtain ps where ps: "recursive_split cfg a = Some ps" "splits_into cfg a ps"
      using "1.IH"(1) [OF 3(1) refl refl refl c 3(5) refl "1.prems"(1) l(1)] by blast
    obtain qs where qs: "recursive_split cfg b = Some qs" "splits_into cfg b qs"
      using "1.IH"(2) [OF 3(1) refl refl refl c 3(5) refl ps(1) "1.prems"(1) l(2)] by blast
    have "recursive_split cfg c = Some (ps @ qs)"
      using 3 c ps(1) qs(1) by (subst recursive_split.simps) (simp add: Let_def)
    moreover have "splits_into cfg c (ps @ qs)"
      by (rule splits_into_append [OF ps(2) qs(2) parts(1-4)])
    ultimately show ?thesis by blast
  qed
qed

subsection \<open>Properties of the splitter\<close>

lemma validate_and_split_correct:
  assumes "cfg_ok cfg" "uc_start_line c \<le> uc_end_line c"
  shows "\<exists>ps. validate_and_split cfg c = Some ps \<and> splits_into cfg c ps"
  using recursive_split_correct [OF assms] splits_into_self [OF assms(2)]
  by (auto simp: validate_and_split_def)

text \<open>
  C7: for every configuration with a positive minimal size and a positive token limit,
  \<open>validate_and_split\<close> returns (neither the split loop nor the shrink loop runs forever), and
  if the minimal size respects the two limits then every part fits both of them; a chunk that
  already fits is returned unchanged.
\<close>

theorem validate_and_split_total_fits:
  assumes "cfg_ok cfg" "uc_start_line c \<le> uc_end_line c"
  shows "\<exists>ps. validate_and_split cfg c = Some ps
    \<and> (cfg_tight cfg \<longrightarrow> list_all (\<lambda>p. fits cfg (uc_content p)) ps)
    \<and> (fits cfg (uc_content c) \<longrightarrow> ps = [c])"
proof -
  obtain ps where "validate_and_split cfg c = Some ps" "splits_into cfg c ps"
    using validate_and_split_correct [OF assms] by blast
  moreover have "fits cfg (uc_content c) \<Longrightarrow> validate_and_split cfg c = Some [c]"
    by (simp add: validate_and_split_def)
  ultimately show ?thesis by (auto simp: splits_into_def o_def)
qed

definition small_config :: cast_config where
  "small_config = \<lparr>max_chunk_size = 10, min_chunk_size = 2, merge_threshold = fl (4 / 5),
     greedy_merge = True, safe_token_limit = 6\<rparr>"

definition sample_uchunk :: universal_chunk where
  "sample_uchunk = \<lparr>uc_concept = BLOCK, uc_name = ''b'', uc_content = ''aaaa; bbbb; cccc; dddd'',
     uc_start_line = 3, uc_end_line = 8, uc_metadata = [], uc_language_node_type = ''block''\<rparr>"

theorem validate_and_split_total_fits_witness:
  "\<exists>ps. validate_and_split small_config sample_uchunk = Some ps \<and> list_all (\<lambda>p. fits small_config (uc_content p)) ps"
proof -
  have "cfg_tight small_config" "cfg_ok small_config"
    by (simp_all add: cfg_tight_def cfg_ok_def small_config_def)
  then show ?thesis
    using validate_and_split_total_fits [of small_config sample_uchunk] by (auto simp: sample_uchunk_def)
qed

text \<open>
  C2: splitting loses nothing but white space and invents nothing: the parts, in order, carry
  exactly the non-white-space characters of the chunk.  Their line ranges are non-empty, lie
  inside the range of the chunk and start in order, and every part keeps the concept, the
  metadata and the node type.
\<close>

theorem validate_and_split_preserves:
  assumes "cfg_ok cfg" "uc_start_line c \<le> uc_end_line c" "validate_and_split cfg c = Some ps"
  shows "concat (map (nonws \<circ> uc_content) ps) = nonws (uc_content c)
    \<and> list_all (part_of c) ps \<and> sorted (map uc_start_line ps)"
  using validate_and_split_correct [OF assms(1,2)] assms(3) by (auto simp: splits_into_def)

theorem validate_and_split_preserves_witness:
  "concat (map (nonws \<circ> uc_content) (the (validate_and_split small_config sample_uchunk))) = ''aaaa;bbbb;cccc;dddd''"
proof -
  have ok: "cfg_ok small_config" "uc_start_line sample_uchunk \<le> uc_end_line sample_uchunk"
    by (simp_all add: cfg_ok_def small_config_def sample_uchunk_def)
  then obtain ps where ps: "validate_and_split small_config sample_uchunk = Some ps"
    using validate_and_split_correct by blast
  have "nonws (uc_content sample_uchunk) = ''aaaa;bbbb;cccc;dddd''" by code_simp
  then show ?thesis using validate_and_split_preserves [OF ok ps] ps by simp
qed

text \<open>
  A token limit of 0 leaves a non-empty chunk without a split point: the loop repeats with the
  same text.  \<open>CASTConfig\<close> does not reject such a limit.
\<close>

definition zero_limit_config :: cast_config where
  "zero_limit_config = small_config\<lparr>safe_token_limit := 0\<rparr>"

lemma zero_limit_accepted: "mk_cast_config zero_limit_config = Inr zero_limit_config"
  by (simp add: mk_cast_config_def zero_limit_config_def small_config_def)

lemma zero_limit_split_point: "split_point zero_limit_config r = Some 0"
proof -
  have "best_split zero_limit_config r cs = 0" for cs
    by (induction cs) (auto simp: raw_search_window_def zero_limit_config_def slice_bound_def)
  moreover have "shrink_split zero_limit_config r 0 = Some 0"
    by (subst shrink_split.simps) (simp add: zero_limit_config_def small_config_def)
  ultimately show ?thesis by (simp add: split_point_def raw_search_window_def zero_limit_config_def)
qed

lemma zero_limit_unfit: "r \<noteq> [] \<Longrightarrow> \<not> fits zero_limit_config r"
  by (simp add: fits_iff zero_limit_config_def token_defs)

lemma zero_limit_Some:
  assumes "emergency_loop cfg c r k pos = Some ys"
  shows "cfg = zero_limit_config \<longrightarrow> r = []"
proof (rule emergency_loop.raw_induct [where P = "\<lambda>cfg c r k pos ys. cfg = zero_limit_config \<longrightarrow> r = []", OF _ assms])
  fix loop :: "cast_config \<Rightarrow> universal_chunk \<Rightarrow> string \<Rightarrow> int \<Rightarrow> int \<Rightarrow> universal_chunk list option"
    and cfg c r k pos ys
  assume "\<And>cfg c r k pos ys. loop cfg c r k pos = Some ys \<Longrightarrow> cfg = zero_limit_config \<longrightarrow> r = []"
    and "(if r = [] then Some []
      else if fits cfg r then Some [create_split_chunk c r k pos (int (length (uc_content c)))]
      else Option.bind (split_point cfg r) (\<lambda>b.
             Option.bind (loop cfg c (py_drop b r) (k + 1) (pos + b)) (\<lambda>rest.
               Some (create_split_chunk c (py_take b r) k pos (int (length (uc_content c))) # rest)))) = Some ys"
  then show "cfg = zero_limit_config \<longrightarrow> r = []"
    by (auto simp: zero_limit_split_point zero_limit_unfit bind_eq_Some_conv py_drop_def slice_bound_def
        split: if_splits)
qed

theorem zero_limit_diverges: "r \<noteq> [] \<Longrightarrow> emergency_loop zero_limit_config c r k pos = None"
  using zero_limit_Some [of zero_limit_config c r k pos]
  by (cases "emergency_loop zero_limit_config c r k pos") auto

subsection \<open>Parts are not empty\<close>

text \<open>
  When the size limit does not exceed the token limit, three lines that pass the long-line test
  always fit, so a half always has two lines and no part is empty.
\<close>

definition cfg_lines :: "cast_config \<Rightarrow> bool" where
  "cfg_lines cfg \<longleftrightarrow> cfg_ok cfg \<and> 9 \<le> max_chunk_size cfg \<and> max_chunk_size cfg \<le> 2 ^ 53
     \<and> max_chunk_size cfg \<le> safe_token_limit cfg"

lemma fifth_le_quarter: "fl (1 / 5) \<le> 1 / 4" by code_simp

lemma short_line_bound:
  assumes "\<not> analyze_lines cfg ls" "cfg_lines cfg" "l \<in> set ls"
  shows "int (length l) \<le> (max_chunk_size cfg + 3) div 4"
proof -
  let ?m = "max_chunk_size cfg" and ?n = "(max_chunk_size cfg + 3) div 4"
  have m: "9 \<le> ?m" "?m \<le> 2 ^ 53" using assms(2) by (auto simp: cfg_lines_def)
  then have n: "\<bar>?n\<bar> \<le> 2 ^ 53" by linarith
  have "?m \<le> 4 * ?n" by linarith
  then have "(of_int ?m :: rat) / 4 \<le> of_int ?n"
    using of_int_le_iff [where ?'a = rat, of ?m "4 * ?n"] by (simp del: of_int_le_iff)
  moreover have "fl (1 / 5) * of_int ?m \<le> 1 / 4 * of_int ?m"
    using fifth_le_quarter m(1) by (intro mult_right_mono) auto
  ultimately have "fl (1 / 5) * of_int ?m \<le> of_int ?n" by linarith
  then have "fl (1 / 5) * fl (of_int ?m) \<le> of_int ?n" using m fl_exact_int [of ?m] by simp
  then have "py_fmul (fl (1 / 5)) ?m \<le> of_int ?n" unfolding py_fmul_def by (rule fl_le_int [OF _ n])
  moreover have "of_int (int (Max (length ` set ls))) \<le> py_fmul (fl (1 / 5)) ?m"
    using assms(1,3) by (auto simp: analyze_lines_def split: if_splits)
  ultimately have "of_int (int (Max (length ` set ls))) \<le> (of_int ?n :: rat)" by linarith
  then have "int (Max (length ` set ls)) \<le> ?n" by (simp only: of_int_le_iff)
  moreover have "length l \<le> Max (length ` set ls)" using assms(3) by (intro Max_ge) auto
  ultimately show ?thesis by linarith
qed

lemma three_lines_fit:
  assumes "cfg_lines cfg" "\<not> analyze_lines cfg (split_on nl s)" "length (split_on nl s) = 3"
  shows "fits cfg s"
proof -
  obtain a b c where abc: "split_on nl s = [a, b, c]"
    using assms(3) by (auto simp: length_Suc_conv numeral_3_eq_3)
  have s: "s = a @ [nl] @ b @ [nl] @ c" using join_split_on [of nl s] abc by simp
  let ?n = "(max_chunk_size cfg + 3) div 4"
  have l: "int (length a) \<le> ?n" "int (length b) \<le> ?n" "int (length c) \<le> ?n"
    using short_line_bound [OF assms(2,1)] abc by auto
  have m: "9 \<le> max_chunk_size cfg" "max_chunk_size cfg \<le> safe_token_limit cfg" using assms(1) by (auto simp: cfg_lines_def)
  have "int (length (nonws s)) \<le> 3 * ?n"
    using l length_nonws_le [of a] length_nonws_le [of b] length_nonws_le [of c] by (simp add: s)
  moreover have "3 * ?n \<le> max_chunk_size cfg" using m(1) by linarith
  moreover have "int (length s) div 3 \<le> ?n" using l by (simp add: s)
  ultimately show ?thesis using m by (auto simp: fits_iff token_defs)
qed

lemma join_two_not_Nil: "2 \<le> length ls \<Longrightarrow> join_with [nl] ls \<noteq> []"
  by (cases ls; cases "tl ls") auto

lemma recursive_split_nonempty:
  assumes "cfg_lines cfg" "uc_start_line c \<le> uc_end_line c" "uc_content c \<noteq> []" "recursive_split cfg c = Some ps"
  shows "\<forall>p\<in>set ps. uc_content p \<noteq> []"
  using assms
proof (induction cfg c arbitrary: ps rule: recursive_split.induct)
  case (1 cfg c)
  let ?ls = "split_on nl (uc_content c)"
  have ok: "cfg_ok cfg" using "1.prems"(1) by (simp add: cfg_lines_def)
  consider "fits cfg (uc_content c)"
    | "\<not> fits cfg (uc_content c)" "length ?ls \<le> 2 \<or> analyze_lines cfg ?ls \<or> uc_end_line c - uc_start_line c < 2
        \<or> split_by_lines_simple c ?ls = None"
    | a b where "\<not> fits cfg (uc_content c)" "2 < length ?ls" "\<not> analyze_lines cfg ?ls"
        "2 \<le> uc_end_line c - uc_start_line c" "split_by_lines_simple c ?ls = Some (a, b)"
    by (cases "split_by_lines_simple c ?ls") force+
  then show ?case
  proof cases
    case 1
    with "1.prems" show ?thesis by (subst (asm) recursive_split.simps) auto
  next
    case 2
    with "1.prems"(4) have "emergency_split cfg c = Some ps"
      by (auto simp: recursive_split.simps [of cfg c] Let_def split: if_splits)
    with emergency_split_correct [OF ok "1.prems"(2)] "1.prems"(3) show ?thesis by auto
  next
    case (3 a b)
    note parts = split_by_lines_parts [OF 3(5) refl 3(2,4)] and lns = split_by_lines_content [OF 3(5) refl 3(2)]
    have l: "uc_start_line a \<le> uc_end_line a" "uc_start_line b \<le> uc_end_line b"
      using parts(1,2) by (auto simp: part_of_def)
    have "length ?ls \<noteq> 3" using three_lines_fit [OF "1.prems"(1) 3(3)] 3(1) by blast
    then have "2 \<le> length (split_on nl (uc_content a))" "2 \<le> length (split_on nl (uc_content b))"
      using 3(2) lns by auto
    then have ne: "uc_content a \<noteq> []" "uc_content b \<noteq> []" by auto
    have c: "\<not> (length ?ls \<le> 2 \<or> analyze_lines cfg ?ls \<or> uc_end_line c - uc_start_line c < 2)"
      using 3 by simp
    obtain r1 r2 where r: "recursive_split cfg a = Some r1" "recursive_split cfg b = Some r2" "ps = r1 @ r2"
      using "1.prems"(4) 3 c by (subst (asm) recursive_split.simps) (auto simp: Let_def bind_eq_Some_conv)
    have "\<forall>p\<in>set r1. uc_content p \<noteq> []"
      using "1.IH"(1) [OF 3(1) refl refl refl c 3(5) refl "1.prems"(1) l(1) ne(1) r(1)] .
    moreover have "\<forall>p\<in>set r2. uc_content p \<noteq> []"
      using "1.IH"(2) [OF 3(1) refl refl refl c 3(5) refl r(1) "1.prems"(1) l(2) ne(2) r(2)] .
    ultimately show ?thesis using r(3) by auto
  qed
qed

subsection \<open>Conversions\<close>

lemma chunk_to_universal_fields [simp]:
  "uc_content (chunk_to_universal c) = c_code c"
  "uc_start_line (chunk_to_universal c) = c_start_line c"
  "uc_end_line (chunk_to_universal c) = c_end_line c"
  "uc_language_node_type (chunk_to_universal c) = chunk_type_value (c_chunk_type c)"
  by (simp_all add: chunk_to_universal_def Let_def)

lemma new_chunk_ok:
  "1 \<le> s \<Longrightarrow> s \<le> e \<Longrightarrow> code \<noteq> [] \<Longrightarrow>
     \<exists>c. new_chunk name s e code t fid l fp md = Inr c \<and> chunk_ok c \<and> c_code c = code \<and> c_chunk_type c = t
       \<and> c_start_line c = s \<and> c_end_line c = e \<and> c_language c = l \<and> c_file_path c = fp \<and> c_metadata c = md
       \<and> c_file_id c = (case fid of None \<Rightarrow> 0 | Some i \<Rightarrow> i) \<and> c_id c = None
       \<and> c_symbol c = (if py_strip name = [] then None else Some name)"
  by (auto simp: new_chunk_def mk_chunk_def chunk_ok_def opt_neg_def opt_gt_def)

text \<open>
  converting a valid chunk to a universal chunk and back never fails; it keeps the symbol,
  the code, the line range and the chunk type, except that type UNKNOWN comes back as BLOCK.
\<close>

theorem chunk_universal_roundtrip:
  assumes "chunk_ok c"
  shows "\<exists>d. universal_to_chunk (chunk_to_universal c) (c_file_path c) (Some (c_file_id c)) (c_language c) = Inr d
    \<and> chunk_ok d \<and> c_code d = c_code c \<and> c_symbol d = c_symbol c \<and> c_file_id d = c_file_id c
    \<and> c_start_line d = c_start_line c \<and> c_end_line d = c_end_line c
    \<and> c_chunk_type d = (if c_chunk_type c = CT_UNKNOWN then CT_BLOCK else c_chunk_type c)"
proof -
  have unk: "concept_chunk_type (uc_concept (chunk_to_universal c)) = CT_BLOCK" if "c_chunk_type c = CT_UNKNOWN"
    using that by (simp add: chunk_to_universal_def CHUNK_TYPE_TO_CONCEPT_def concept_chunk_type_def Let_def)
  have sym: "(if py_strip (uc_name (chunk_to_universal c)) = [] then None else Some (uc_name (chunk_to_universal c)))
      = c_symbol c"
    using assms by (auto simp: chunk_to_universal_def chunk_ok_def Let_def split: option.splits)
  have "1 \<le> c_start_line c" "c_start_line c \<le> c_end_line c" "c_code c \<noteq> []"
    using assms by (auto simp: chunk_ok_def)
  from new_chunk_ok [OF this] unk sym show ?thesis
    by (fastforce simp: universal_to_chunk_def Let_def)
qed

theorem chunk_universal_roundtrip_witness:
  "\<exists>d. universal_to_chunk (chunk_to_universal sample_chunk) (Some ''a.py'') (Some 3) L_PYTHON = Inr d
    \<and> c_chunk_type d = CT_METHOD"
proof -
  have "chunk_ok sample_chunk" by code_simp
  from chunk_universal_roundtrip [OF this] show ?thesis by (auto simp: sample_chunk_def)
qed

end
