(* ===== verification/Dedup.thy ===== *)
theory Dedup
  imports Splitter
begin

text \<open>
  Chunk deduplication at parse time: \<open>utils/chunk_deduplication.py\<close>.

  The parsers pass \<open>Chunk\<close> or \<open>UniversalChunk\<close> objects (\<open>any_chunk\<close>); the code's third case, a
  plain dictionary, has no caller and is not modelled.  The 64-bit digest of \<open>xxhash\<close> is the
  argument \<open>xxh\<close> (a function of the UTF-8 bytes).  A \<open>defaultdict(list)\<close> is an ordered
  dictionary of lists.
\<close>

datatype any_chunk = AChunk chunk | AUniversal universal_chunk

datatype lang_arg = LEnum Language | LStr string

fun get_chunk_content :: "any_chunk \<Rightarrow> string" where
  "get_chunk_content (AUniversal u) = uc_content u"
| "get_chunk_content (AChunk c) = c_code c"

text \<open>\<open>_get_chunk_type\<close> returns an enum member; only its string value is used.\<close>

fun get_chunk_type :: "any_chunk \<Rightarrow> string" where
  "get_chunk_type (AUniversal u) = concept_value (uc_concept u)"
| "get_chunk_type (AChunk c) = chunk_type_value (c_chunk_type c)"

fun get_start_line :: "any_chunk \<Rightarrow> int" where
  "get_start_line (AUniversal u) = uc_start_line u"
| "get_start_line (AChunk c) = c_start_line c"

fun get_end_line :: "any_chunk \<Rightarrow> int" where
  "get_end_line (AUniversal u) = uc_end_line u"
| "get_end_line (AChunk c) = c_end_line c"

definition CONCEPT_SPECIFICITY :: "(string, int) pydict" where
  "CONCEPT_SPECIFICITY = [
    (''DEFINITION'', 4), (''IMPORT'', 3), (''COMMENT'', 2), (''BLOCK'', 1), (''STRUCTURE'', 0),
    (''FUNCTION'', 4), (''METHOD'', 4), (''CLASS'', 4), (''INTERFACE'', 4), (''STRUCT'', 4),
    (''ENUM'', 4), (''TYPE_ALIAS'', 3), (''CONSTRUCTOR'', 3), (''VARIABLE'', 3), (''FIELD'', 3),
    (''PROPERTY'', 3), (''TYPE'', 3), (''MACRO'', 3), (''NAMESPACE'', 3), (''TRAIT'', 3),
    (''KEY_VALUE'', 2), (''TABLE'', 2), (''OBJECT'', 2), (''ARRAY'', 1)]"

definition get_chunk_specificity :: "any_chunk \<Rightarrow> int" where
  "get_chunk_specificity c =
     (case dict_get CONCEPT_SPECIFICITY (ascii_upper (get_chunk_type c)) of None \<Rightarrow> -1 | Some n \<Rightarrow> n)"

subsection \<open>Exact content\<close>

text \<open>\<open>max(xs, key=f)\<close>: the first element with the largest key.\<close>

definition py_max_by :: "('a \<Rightarrow> 'k :: linorder) \<Rightarrow> 'a list \<Rightarrow> 'a" where
  "py_max_by f xs = foldl (\<lambda>best x. if f best < f x then x else best) (hd xs) (tl xs)"

definition content_hash :: "(nat list \<Rightarrow> int) \<Rightarrow> any_chunk \<Rightarrow> int" where
  "content_hash xxh c = xxh (utf8 (normalize_content (get_chunk_content c)))"

fun group_by_hash :: "(nat list \<Rightarrow> int) \<Rightarrow> (int, any_chunk list) pydict \<Rightarrow> any_chunk list \<Rightarrow> (int, any_chunk list) pydict" where
  "group_by_hash xxh d [] = d"
| "group_by_hash xxh d (c # cs) =
     (if normalize_content (get_chunk_content c) = [] then group_by_hash xxh d cs
      else let h = content_hash xxh c;
               old = (case dict_get d h of None \<Rightarrow> [] | Some xs \<Rightarrow> xs)
           in group_by_hash xxh (dict_set h (old @ [c]) d) cs)"

definition specificity_key :: "any_chunk \<Rightarrow> int \<times> int" where
  "specificity_key c = (get_chunk_specificity c, - (get_end_line c - get_start_line c))"

definition deduplicate_exact_content :: "(nat list \<Rightarrow> int) \<Rightarrow> any_chunk list \<Rightarrow> any_chunk list" where
  "deduplicate_exact_content xxh chunks =
     map (\<lambda>cs. if length cs = 1 then hd cs else py_max_by specificity_key cs)
       (dict_values (group_by_hash xxh [] chunks))"

subsection \<open>Contained blocks\<close>

fun find_overlapping_chunks :: "any_chunk list \<Rightarrow> int \<Rightarrow> int \<Rightarrow> any_chunk list" where
  "find_overlapping_chunks [] query_start query_end = []"
| "find_overlapping_chunks (c # cs) query_start query_end =
     (if get_end_line c < query_start then find_overlapping_chunks cs query_start query_end
      else if get_start_line c > query_end then []
      else c # find_overlapping_chunks cs query_start query_end)"

definition contains_block :: "any_chunk \<Rightarrow> any_chunk \<Rightarrow> bool" where
  "contains_block block definition_chunk \<longleftrightarrow>
     (let b = normalize_content (get_chunk_content block); d = normalize_content (get_chunk_content definition_chunk)
      in str_contains d b \<and> length b < length d)"

definition is_substring_block :: "any_chunk list \<Rightarrow> any_chunk \<Rightarrow> bool" where
  "is_substring_block definitions block \<longleftrightarrow>
     list_ex (contains_block block)
       (find_overlapping_chunks definitions (get_start_line block) (get_end_line block))"

definition remove_substring_overlaps :: "any_chunk list \<Rightarrow> any_chunk list" where
  "remove_substring_overlaps chunks =
     (let blocks = filter (\<lambda>c. get_chunk_specificity c = 1) chunks;
          definitions = sort_key get_start_line
            (filter (\<lambda>c. get_chunk_specificity c \<noteq> 1 \<and> get_chunk_specificity c \<ge> 3) chunks);
          other = filter (\<lambda>c. get_chunk_specificity c \<noteq> 1 \<and> \<not> get_chunk_specificity c \<ge> 3) chunks
      in (other @ definitions) @ filter (\<lambda>b. \<not> is_substring_block definitions b) blocks)"

definition preserve_duplicates :: "lang_arg option \<Rightarrow> bool" where
  "preserve_duplicates language \<longleftrightarrow>
     (let language_name = (case language of None \<Rightarrow> []
                           | Some (LEnum l) \<Rightarrow> py_lower (language_value l)
                           | Some (LStr s) \<Rightarrow> py_lower s)
      in language_name \<in> {''vue'', ''vue_template'', ''haskell''})"

definition deduplicate_chunks :: "(nat list \<Rightarrow> int) \<Rightarrow> any_chunk list \<Rightarrow> lang_arg option \<Rightarrow> any_chunk list" where
  "deduplicate_chunks xxh chunks language =
     (if chunks = [] then []
      else if preserve_duplicates language then chunks
      else remove_substring_overlaps (deduplicate_exact_content xxh chunks))"

lemma str_contains_iff: "str_contains s p \<longleftrightarrow> (\<exists>a b. s = a @ p @ b)"
proof (induction s)
  case Nil
  then show ?case by (subst str_contains.simps) (auto simp: starts_with_def)
next
  case (Cons c s)
  have "(\<exists>a b. c # s = a @ p @ b) \<longleftrightarrow> (\<exists>b. c # s = p @ b) \<or> (\<exists>a b. s = a @ p @ b)"
    by (metis append_Cons append_Nil list.collapse list.sel(1,3) list.distinct(1) tl_append2)
  moreover have "starts_with (c # s) p \<longleftrightarrow> (\<exists>b. c # s = p @ b)"
    unfolding starts_with_def by (metis append_eq_conv_conj append_take_drop_id)
  ultimately show ?case using Cons by (subst str_contains.simps) simp
qed

lemma str_contains_refl [simp]: "str_contains s s"
  by (auto simp: str_contains_iff intro: exI [of _ "[]"])

subsection \<open>The overlap query\<close>

text \<open>The early exit on a list sorted by start line loses nothing.\<close>

lemma find_overlapping_eq_filter:
  "sorted (map get_start_line cs) \<Longrightarrow>
     find_overlapping_chunks cs s e = filter (\<lambda>c. s \<le> get_end_line c \<and> get_start_line c \<le> e) cs"
proof (induction cs)
  case (Cons c cs)
  have "filter (\<lambda>c. s \<le> get_end_line c \<and> get_start_line c \<le> e) cs = []" if "e < get_start_line c"
    using Cons.prems that by (auto simp: filter_empty_conv)
  with Cons show ?case by simp
qed simp

lemma is_substring_block_iff:
  "sorted (map get_start_line ds) \<Longrightarrow> is_substring_block ds b \<longleftrightarrow>
     (\<exists>d\<in>set ds. get_start_line b \<le> get_end_line d \<and> get_start_line d \<le> get_end_line b \<and> contains_block b d)"
  by (auto simp: is_substring_block_def find_overlapping_eq_filter list_ex_iff)

subsection \<open>Exact deduplication\<close>

lemma py_max_by_in: "xs \<noteq> [] \<Longrightarrow> py_max_by f xs \<in> set xs"
proof -
  have "foldl (\<lambda>best x. if f best < f x then x else best) b ys \<in> insert b (set ys)" for b ys
    by (induction ys arbitrary: b) auto
  then show "xs \<noteq> [] \<Longrightarrow> ?thesis" by (cases xs) (auto simp: py_max_by_def)
qed

lemma foldl_max_ge:
  "x \<in> insert b (set ys) \<Longrightarrow> f x \<le> f (foldl (\<lambda>best x. if f best < f x then x else best) b ys)"
  for f :: "'a \<Rightarrow> 'k :: linorder"
proof (induction ys arbitrary: b x)
  case (Cons y ys)
  let ?b = "if f b < f y then y else b"
  have "f z \<le> f (foldl (\<lambda>best x. if f best < f x then x else best) ?b ys)" if "z = ?b \<or> z \<in> set ys" for z
    using Cons.IH [of z ?b] that by auto
  moreover have "f b \<le> f ?b" "f y \<le> f ?b" by auto
  ultimately show ?case using Cons.prems by (auto intro: order_trans)
qed simp

lemma py_max_by_ge: "x \<in> set xs \<Longrightarrow> f x \<le> f (py_max_by f xs)"
  for f :: "'a \<Rightarrow> 'k :: linorder"
  using foldl_max_ge [of x "hd xs" "tl xs" f] by (cases xs) (auto simp: py_max_by_def)

text \<open>
  \<open>groups_ok\<close> says what the hash table holds after a prefix of the chunks: under each digest,
  the chunks of the prefix with that digest and a non-blank content, in order.
\<close>

definition blank :: "any_chunk \<Rightarrow> bool" where
  "blank c \<longleftrightarrow> normalize_content (get_chunk_content c) = []"

definition groups_ok :: "(nat list \<Rightarrow> int) \<Rightarrow> any_chunk list \<Rightarrow> (int, any_chunk list) pydict \<Rightarrow> bool" where
  "groups_ok xxh seen d \<longleftrightarrow> dict_ok d \<and>
     (\<forall>h. dict_get d h =
       (let xs = filter (\<lambda>c. \<not> blank c \<and> content_hash xxh c = h) seen in if xs = [] then None else Some xs))"

lemma groups_ok_step:
  assumes "groups_ok xxh seen d" "\<not> blank c"
  shows "groups_ok xxh (seen @ [c])
    (dict_set (content_hash xxh c) ((case dict_get d (content_hash xxh c) of None \<Rightarrow> [] | Some xs \<Rightarrow> xs) @ [c]) d)"
  using assms by (auto simp: groups_ok_def Let_def dict_ok_set)

lemma groups_ok_skip: "groups_ok xxh seen d \<Longrightarrow> blank c \<Longrightarrow> groups_ok xxh (seen @ [c]) d"
  by (simp add: groups_ok_def)

lemma group_by_hash_ok: "groups_ok xxh seen d \<Longrightarrow> groups_ok xxh (seen @ cs) (group_by_hash xxh d cs)"
proof (induction cs arbitrary: seen d)
  case (Cons c cs)
  show ?case
  proof (cases "blank c")
    case True
    with Cons.IH [OF groups_ok_skip [OF Cons.prems True]] show ?thesis by (simp add: blank_def)
  next
    case False
    with Cons.IH [OF groups_ok_step [OF Cons.prems False]] show ?thesis by (simp add: blank_def Let_def)
  qed
qed simp

lemma groups_ok_group: "groups_ok xxh cs (group_by_hash xxh [] cs)"
  using group_by_hash_ok [of xxh "[]" "[]" cs] by (simp add: groups_ok_def)

lemma group_member:
  assumes "(h, xs) \<in> set (group_by_hash xxh [] cs)"
  shows "xs \<noteq> [] \<and> xs = filter (\<lambda>c. \<not> blank c \<and> content_hash xxh c = h) cs"
proof -
  have "dict_get (group_by_hash xxh [] cs) h = Some xs"
    using assms groups_ok_group [of xxh cs] dict_get_Some_iff [of "group_by_hash xxh [] cs" h xs]
    unfolding groups_ok_def by blast
  then show ?thesis using groups_ok_group [of xxh cs] by (auto simp: groups_ok_def Let_def split: if_splits)
qed

definition representative :: "any_chunk list \<Rightarrow> any_chunk" where
  "representative cs = (if length cs = 1 then hd cs else py_max_by specificity_key cs)"

lemma exact_eq: "deduplicate_exact_content xxh cs = map (representative \<circ> snd) (group_by_hash xxh [] cs)"
  by (simp add: deduplicate_exact_content_def representative_def dict_values_def)

lemma representative_in: "xs \<noteq> [] \<Longrightarrow> representative xs \<in> set xs"
  by (auto simp: representative_def py_max_by_in)

lemma representative_ge: "x \<in> set xs \<Longrightarrow> specificity_key x \<le> specificity_key (representative xs)"
  by (auto simp: representative_def py_max_by_ge length_Suc_conv)

lemma representative_hash:
  "(h, xs) \<in> set (group_by_hash xxh [] cs) \<Longrightarrow>
     representative xs \<in> set cs \<and> \<not> blank (representative xs) \<and> content_hash xxh (representative xs) = h"
  using group_member [of h xs xxh cs] representative_in [of xs] by auto

lemma set_exact: "c \<in> set (deduplicate_exact_content xxh cs) \<Longrightarrow> c \<in> set cs \<and> \<not> blank c"
  using representative_hash by (fastforce simp: exact_eq)

lemma exact_hashes: "map (content_hash xxh) (deduplicate_exact_content xxh cs) = map fst (group_by_hash xxh [] cs)"
  using representative_hash by (fastforce simp: exact_eq)

lemma exact_distinct_hashes: "distinct (map (content_hash xxh) (deduplicate_exact_content xxh cs))"
  using groups_ok_group [of xxh cs] by (simp add: exact_hashes groups_ok_def dict_ok_def)

lemma exact_covers:
  assumes "c \<in> set cs" "\<not> blank c"
  shows "\<exists>r\<in>set (deduplicate_exact_content xxh cs).
    content_hash xxh r = content_hash xxh c \<and> specificity_key c \<le> specificity_key r"
proof -
  let ?h = "content_hash xxh c" and ?d = "group_by_hash xxh [] cs"
  let ?xs = "filter (\<lambda>c'. \<not> blank c' \<and> content_hash xxh c' = ?h) cs"
  have "c \<in> set ?xs" using assms by simp
  then have "dict_get ?d ?h = Some ?xs"
    using groups_ok_group [of xxh cs] by (auto simp: groups_ok_def Let_def filter_empty_conv)
  then have "(?h, ?xs) \<in> set ?d" by (rule map_of_SomeD)
  then show ?thesis
    using representative_hash [of ?h ?xs xxh cs] representative_ge [OF \<open>c \<in> set ?xs\<close>]
    by (force simp: exact_eq)
qed

lemma group_by_hash_distinct:
  assumes "distinct (map (content_hash xxh) cs)" "list_all (\<lambda>c. \<not> blank c) cs"
    and "fst ` set d \<inter> content_hash xxh ` set cs = {}"
  shows "group_by_hash xxh d cs = d @ map (\<lambda>c. (content_hash xxh c, [c])) cs"
  using assms
proof (induction cs arbitrary: d)
  case (Cons c cs)
  then have "content_hash xxh c \<notin> fst ` set d" by auto
  then have "dict_get d (content_hash xxh c) = None" "dict_set (content_hash xxh c) [c] d = d @ [(content_hash xxh c, [c])]"
    by (simp_all add: dict_get_None_iff dict_set_new)
  with Cons show ?case by (auto simp: blank_def Let_def)
qed simp

lemma exact_id:
  "distinct (map (content_hash xxh) cs) \<Longrightarrow> list_all (\<lambda>c. \<not> blank c) cs \<Longrightarrow>
     deduplicate_exact_content xxh cs = cs"
  by (simp add: exact_eq group_by_hash_distinct representative_def o_def)

subsection \<open>The whole deduplication\<close>

definition defs_of :: "any_chunk list \<Rightarrow> any_chunk list" where
  "defs_of cs = sort_key get_start_line (filter (\<lambda>c. get_chunk_specificity c \<ge> 3) cs)"

lemma remove_substring_overlaps_eq:
  "remove_substring_overlaps cs =
     filter (\<lambda>c. get_chunk_specificity c \<noteq> 1 \<and> \<not> get_chunk_specificity c \<ge> 3) cs @ defs_of cs
     @ filter (\<lambda>b. get_chunk_specificity b = 1 \<and> \<not> is_substring_block (defs_of cs) b) cs"
proof -
  have "filter (\<lambda>c. get_chunk_specificity c \<noteq> 1 \<and> get_chunk_specificity c \<ge> 3) cs
      = filter (\<lambda>c. get_chunk_specificity c \<ge> 3) cs" by (rule filter_cong) auto
  then show ?thesis
    by (simp add: remove_substring_overlaps_def defs_of_def Let_def conj_commute)
qed

lemma sorted_defs_of [simp]: "sorted (map get_start_line (defs_of cs))"
  by (simp add: defs_of_def)

lemma set_defs_of [simp]: "set (defs_of cs) = {c \<in> set cs. get_chunk_specificity c \<ge> 3}"
  by (simp add: defs_of_def)

lemma set_remove:
  "set (remove_substring_overlaps cs) =
     {c \<in> set cs. get_chunk_specificity c = 1 \<longrightarrow> \<not> is_substring_block (defs_of cs) c}"
  by (auto simp: remove_substring_overlaps_eq)

lemma distinct_remove: "distinct cs \<Longrightarrow> distinct (remove_substring_overlaps cs)"
  by (auto simp: remove_substring_overlaps_eq defs_of_def)

lemma defs_of_remove: "defs_of (remove_substring_overlaps cs) = defs_of cs"
proof -
  have "filter (\<lambda>c. get_chunk_specificity c \<ge> 3) (defs_of cs) = defs_of cs"
    by (rule filter_True) simp
  then have "filter (\<lambda>c. get_chunk_specificity c \<ge> 3) (remove_substring_overlaps cs) = defs_of cs"
    by (auto simp: remove_substring_overlaps_eq filter_empty_conv)
  then show ?thesis by (simp add: defs_of_def [of "remove_substring_overlaps cs"] sort_key_id_if_sorted)
qed

lemma remove_idem: "remove_substring_overlaps (remove_substring_overlaps cs) = remove_substring_overlaps cs"
proof -
  let ?r = "remove_substring_overlaps cs"
  have "filter (\<lambda>c. get_chunk_specificity c \<noteq> 1 \<and> \<not> get_chunk_specificity c \<ge> 3) ?r
      = filter (\<lambda>c. get_chunk_specificity c \<noteq> 1 \<and> \<not> get_chunk_specificity c \<ge> 3) cs"
    by (auto simp: remove_substring_overlaps_eq filter_empty_conv intro: filter_cong)
  moreover have "filter (\<lambda>b. get_chunk_specificity b = 1 \<and> \<not> is_substring_block (defs_of cs) b) ?r
      = filter (\<lambda>b. get_chunk_specificity b = 1 \<and> \<not> is_substring_block (defs_of cs) b) cs"
    by (auto simp: remove_substring_overlaps_eq filter_empty_conv intro: filter_cong)
  ultimately show ?thesis
    by (subst remove_substring_overlaps_eq [of ?r], simp only: defs_of_remove)
      (rule remove_substring_overlaps_eq [symmetric])
qed

text \<open>
  deduplication is idempotent: applied to its own result, with the same language, it returns
  it unchanged, in the same order, whatever the hash function is.
\<close>

theorem deduplicate_chunks_idem:
  "deduplicate_chunks xxh (deduplicate_chunks xxh cs language) language = deduplicate_chunks xxh cs language"
proof -
  let ?e = "deduplicate_exact_content xxh cs"
  let ?r = "remove_substring_overlaps ?e"
  have e: "distinct ?e" "inj_on (content_hash xxh) (set ?e)"
    using exact_distinct_hashes [of xxh cs] by (simp_all add: distinct_map)
  have sub: "set ?r \<subseteq> set ?e" by (auto simp: set_remove)
  have "distinct (map (content_hash xxh) ?r)"
    using distinct_remove [OF e(1)] inj_on_subset [OF e(2) sub] by (simp add: distinct_map)
  moreover have "list_all (\<lambda>c. \<not> blank c) ?r" using sub set_exact by (auto simp: list_all_iff)
  ultimately have "deduplicate_exact_content xxh ?r = ?r" by (rule exact_id)
  then show ?thesis
    by (auto simp: deduplicate_chunks_def remove_idem)
qed

text \<open>
  C5: when the hash function separates the contents at hand, deduplication only drops chunks,
  and drops no text: every non-blank input chunk has an output chunk whose normalised content
  contains its own.  Outside the exempt languages no two output chunks have the same normalised
  content, and no output block is strictly contained in an output definition whose lines overlap it.
\<close>

theorem deduplicate_chunks_covers:
  assumes inj: "inj_on xxh {utf8 (normalize_content (get_chunk_content c)) | c. c \<in> set cs}"
  shows "set (deduplicate_chunks xxh cs language) \<subseteq> set cs
    \<and> (\<forall>c\<in>set cs. blank c \<or> (\<exists>d\<in>set (deduplicate_chunks xxh cs language).
         str_contains (normalize_content (get_chunk_content d)) (normalize_content (get_chunk_content c))))
    \<and> (preserve_duplicates language \<or>
         distinct (map (normalize_content \<circ> get_chunk_content) (deduplicate_chunks xxh cs language))
         \<and> \<not> (\<exists>b\<in>set (deduplicate_chunks xxh cs language). \<exists>d\<in>set (deduplicate_chunks xxh cs language).
               get_chunk_specificity b = 1 \<and> get_chunk_specificity d \<ge> 3 \<and> get_start_line b \<le> get_end_line d
               \<and> get_start_line d \<le> get_end_line b \<and> contains_block b d))"
proof (cases "preserve_duplicates language \<or> cs = []")
  case True
  then have "deduplicate_chunks xxh cs language = cs" by (auto simp: deduplicate_chunks_def)
  moreover have "\<forall>c\<in>set cs. \<exists>d\<in>set cs.
      str_contains (normalize_content (get_chunk_content d)) (normalize_content (get_chunk_content c))"
    using str_contains_refl by blast
  ultimately show ?thesis using True by auto
next
  case False
  let ?e = "deduplicate_exact_content xxh cs" and ?n = "\<lambda>c. normalize_content (get_chunk_content c)"
  let ?r = "remove_substring_overlaps ?e"
  have r: "deduplicate_chunks xxh cs language = ?r" using False by (simp add: deduplicate_chunks_def)
  have e: "c \<in> set cs" "\<not> blank c" if "c \<in> set ?e" for c using set_exact that by blast+
  have same: "?n c = ?n d" if "c \<in> set cs" "d \<in> set cs" "content_hash xxh c = content_hash xxh d" for c d
    using inj_onD [OF inj, of "utf8 (?n c)" "utf8 (?n d)"] that by (auto simp: content_hash_def utf8_inject)
  have sub: "set ?r \<subseteq> set ?e" by (auto simp: set_remove)
  have "\<exists>d\<in>set ?r. str_contains (?n d) (?n c)" if c: "c \<in> set cs" "\<not> blank c" for c
  proof -
    obtain x where x: "x \<in> set ?e" "content_hash xxh x = content_hash xxh c" using exact_covers [OF c] by blast
    then have "?n x = ?n c" using same [of x c] e(1) c(1) by blast
    then show ?thesis using x(1) by (cases "x \<in> set ?r") (auto simp: set_remove is_substring_block_iff contains_block_def Let_def)
  qed
  moreover have "distinct (map (normalize_content \<circ> get_chunk_content) ?r)"
  proof -
    have "distinct ?e" "inj_on (content_hash xxh) (set ?e)"
      using exact_distinct_hashes [of xxh cs] by (simp_all add: distinct_map)
    moreover from this(2) have "inj_on ?n (set ?r)"
      by (intro inj_onI) (metis content_hash_def inj_onD sub subsetD)
    ultimately have "distinct ?r" "inj_on ?n (set ?r)" using distinct_remove by blast+
    then show ?thesis by (simp add: distinct_map o_def)
  qed
  moreover have "\<not> (\<exists>b\<in>set ?r. \<exists>d\<in>set ?r. get_chunk_specificity b = 1 \<and> get_chunk_specificity d \<ge> 3
      \<and> get_start_line b \<le> get_end_line d \<and> get_start_line d \<le> get_end_line b \<and> contains_block b d)"
    by (auto simp: set_remove is_substring_block_iff)
  ultimately show ?thesis using r sub e(1) by auto
qed

definition len_digest :: "nat list \<Rightarrow> int" where
  "len_digest b = int (length b)"

definition sample_def :: any_chunk where
  "sample_def = AUniversal (sample_uchunk\<lparr>uc_concept := DEFINITION, uc_content := ''def f: x = 1''\<rparr>)"

definition sample_block :: any_chunk where
  "sample_block = AUniversal (sample_uchunk\<lparr>uc_content := ''x = 1''\<rparr>)"

theorem deduplicate_chunks_covers_witness:
  "\<exists>d\<in>set (deduplicate_chunks len_digest [sample_block, sample_def, sample_block] None).
     str_contains (normalize_content (get_chunk_content d)) (normalize_content (get_chunk_content sample_block))"
proof -
  let ?cs = "[sample_block, sample_def, sample_block]"
  have "len_digest (utf8 (normalize_content (get_chunk_content sample_block)))
      \<noteq> len_digest (utf8 (normalize_content (get_chunk_content sample_def)))" by code_simp
  then have "inj_on len_digest {utf8 (normalize_content (get_chunk_content c)) | c. c \<in> set ?cs}"
    by (auto simp: inj_on_def)
  moreover have "\<not> blank sample_block" by code_simp
  ultimately show ?thesis using deduplicate_chunks_covers [of len_digest ?cs None] by simp
qed

text \<open>
  A structure (a class seen as a \<open>UniversalChunk\<close>) is not a container for the second stage: the
  block inside it survives, although the comments speak of definitions and structures.
\<close>

theorem structure_keeps_contained_block:
  "sample_block \<in> set (deduplicate_chunks len_digest
     [AUniversal (sample_uchunk\<lparr>uc_concept := STRUCTURE, uc_content := ''class C: x = 1''\<rparr>), sample_block] None)"
  by code_simp

end
