(* ===== verification/Chunk_Cache.thy ===== *)
theory Chunk_Cache
  imports Chunk_Model
begin

text \<open>
  Content-based comparison of the stored chunks of a file with the newly parsed ones:
  \<open>services/chunk_cache_service.py\<close>.  The three loops over Python sets visit the contents in an
  unspecified order: the argument \<open>enum\<close> lists a set in some order.
\<close>

record chunk_diff =
  unchanged :: "chunk list"
  modified :: "chunk list"
  added :: "chunk list"
  deleted :: "chunk list"

fun by_content :: "(string, chunk list) pydict \<Rightarrow> chunk list \<Rightarrow> (string, chunk list) pydict" where
  "by_content d [] = d"
| "by_content d (c # cs) =
     (let k = normalize_content (c_code c);
          d1 = (if dict_get d k = None then dict_set k [] d else d)
      in by_content (dict_set k (the (dict_get d1 k) @ [c]) d1) cs)"

definition flatten :: "(string, chunk list) pydict \<Rightarrow> string list \<Rightarrow> chunk list" where
  "flatten d contents = concat (map (\<lambda>k. the (dict_get d k)) contents)"

definition diff_chunks :: "(string set \<Rightarrow> string list) \<Rightarrow> chunk list \<Rightarrow> chunk list \<Rightarrow> chunk_diff" where
  "diff_chunks enum new_chunks existing_chunks =
     (let existing_by_content = by_content [] existing_chunks;
          new_by_content = by_content [] new_chunks;
          existing_content = set (dict_keys existing_by_content);
          new_content = set (dict_keys new_by_content);
          unchanged_content = existing_content \<inter> new_content;
          deleted_content = existing_content - new_content;
          added_content = new_content - existing_content
      in \<lparr>unchanged = flatten existing_by_content (enum unchanged_content), modified = [],
          added = flatten new_by_content (enum added_content),
          deleted = flatten existing_by_content (enum deleted_content)\<rparr>)"

subsection \<open>The content tables\<close>

abbreviation code_key :: "chunk \<Rightarrow> string" where
  "code_key c \<equiv> normalize_content (c_code c)"

definition content_table :: "(string, chunk list) pydict \<Rightarrow> chunk list \<Rightarrow> bool" where
  "content_table d cs \<longleftrightarrow> dict_ok d \<and>
     (\<forall>k. dict_get d k = (if k \<in> code_key ` set cs then Some (filter (\<lambda>c. code_key c = k) cs) else None))"

lemma content_table_step:
  fixes c :: chunk
  assumes "content_table d seen"
  defines "k \<equiv> code_key c"
  defines "d1 \<equiv> (if dict_get d k = None then dict_set k [] d else d)"
  shows "content_table (dict_set k (the (dict_get d1 k) @ [c]) d1) (seen @ [c])"
proof -
  have "dict_ok d1" using assms(1) by (auto simp: d1_def content_table_def)
  moreover have "the (dict_get d1 k) = filter (\<lambda>c. code_key c = k) seen"
    using assms(1) by (auto simp: d1_def content_table_def empty_filter_conv)
  moreover have "dict_get d1 j = dict_get d j" if "j \<noteq> k" for j using that by (simp add: d1_def)
  ultimately show ?thesis using assms(1) by (auto simp: content_table_def k_def dict_ok_set)
qed

lemma by_content_table: "content_table d seen \<Longrightarrow> content_table (by_content d cs) (seen @ cs)"
proof (induction cs arbitrary: d seen)
  case (Cons c cs)
  from Cons.IH [OF content_table_step [OF Cons.prems, of c]] show ?case by (simp add: Let_def)
qed simp

lemma content_table_by_content: "content_table (by_content [] cs) cs"
  using by_content_table [of "[]" "[]" cs] by (simp add: content_table_def)

lemma keys_by_content: "set (dict_keys (by_content [] cs)) = code_key ` set cs"
proof -
  have "k \<in> set (dict_keys (by_content [] cs)) \<longleftrightarrow> k \<in> code_key ` set cs" for k
    using content_table_by_content [of cs] dict_get_None_iff [of "by_content [] cs" k]
    by (auto simp: content_table_def dict_keys_def split: if_splits)
  then show ?thesis by blast
qed

lemma dict_get_by_content:
  "k \<in> code_key ` set cs \<Longrightarrow> dict_get (by_content [] cs) k = Some (filter (\<lambda>c. code_key c = k) cs)"
  using content_table_by_content [of cs] by (simp add: content_table_def)

text \<open>Listing the groups of distinct contents is a permutation of the chunks that have them.\<close>

lemma mset_groups:
  "distinct ks \<Longrightarrow> mset (concat (map (\<lambda>k. filter (\<lambda>c. f c = k) cs) ks)) = mset (filter (\<lambda>c. f c \<in> set ks) cs)"
proof (induction ks)
  case (Cons k ks)
  have "mset (filter (\<lambda>c. f c \<in> set (k # ks)) cs) = mset (filter (\<lambda>c. f c = k) cs) + mset (filter (\<lambda>c. f c \<in> set ks) cs)"
    using Cons.prems by (induction cs) auto
  with Cons show ?case by simp
qed simp

lemma mset_flatten:
  assumes "distinct ks" "set ks \<subseteq> code_key ` set cs"
  shows "mset (flatten (by_content [] cs) ks) = mset (filter (\<lambda>c. code_key c \<in> set ks) cs)"
proof -
  have "map (\<lambda>k. the (dict_get (by_content [] cs) k)) ks = map (\<lambda>k. filter (\<lambda>c. code_key c = k) cs) ks"
    using assms(2) dict_get_by_content by (intro map_cong) auto
  then have "flatten (by_content [] cs) ks = concat (map (\<lambda>k. filter (\<lambda>c. code_key c = k) cs) ks)"
    by (simp only: flatten_def)
  then show ?thesis by (simp only: mset_groups [OF assms(1)])
qed

lemma diff_fields:
  assumes enum: "\<And>A. finite A \<Longrightarrow> distinct (enum A) \<and> set (enum A) = A"
  shows "mset (unchanged (diff_chunks enum new old)) = mset (filter (\<lambda>c. code_key c \<in> code_key ` set new) old)"
    and "mset (deleted (diff_chunks enum new old)) = mset (filter (\<lambda>c. code_key c \<notin> code_key ` set new) old)"
    and "mset (added (diff_chunks enum new old)) = mset (filter (\<lambda>c. code_key c \<notin> code_key ` set old) new)"
    and "modified (diff_chunks enum new old) = []"
proof -
  let ?o = "code_key ` set old" and ?n = "code_key ` set new"
  note e = enum [of "?o \<inter> ?n"] enum [of "?o - ?n"] enum [of "?n - ?o"]
  have "mset (filter (\<lambda>c. code_key c \<in> ?o \<inter> ?n) old) = mset (filter (\<lambda>c. code_key c \<in> ?n) old)"
    "mset (filter (\<lambda>c. code_key c \<in> ?o - ?n) old) = mset (filter (\<lambda>c. code_key c \<notin> ?n) old)"
    "mset (filter (\<lambda>c. code_key c \<in> ?n - ?o) new) = mset (filter (\<lambda>c. code_key c \<notin> ?o) new)"
    by (intro arg_cong [where f = mset] filter_cong refl; auto)+
  then show "mset (unchanged (diff_chunks enum new old)) = mset (filter (\<lambda>c. code_key c \<in> ?n) old)"
    "mset (deleted (diff_chunks enum new old)) = mset (filter (\<lambda>c. code_key c \<notin> ?n) old)"
    "mset (added (diff_chunks enum new old)) = mset (filter (\<lambda>c. code_key c \<notin> ?o) new)"
    using e mset_flatten [of "enum (?o \<inter> ?n)" old] mset_flatten [of "enum (?o - ?n)" old]
      mset_flatten [of "enum (?n - ?o)" new]
    by (simp_all add: diff_chunks_def Let_def keys_by_content)
  show "modified (diff_chunks enum new old) = []" by (simp add: diff_chunks_def Let_def)
qed

lemma image_kept_or_new: "f ` ({x \<in> A. f x \<in> f ` B} \<union> {x \<in> B. f x \<notin> f ` A}) = f ` B"
proof
  show "f ` B \<subseteq> f ` ({x \<in> A. f x \<in> f ` B} \<union> {x \<in> B. f x \<notin> f ` A})"
  proof
    fix y assume y: "y \<in> f ` B"
    show "y \<in> f ` ({x \<in> A. f x \<in> f ` B} \<union> {x \<in> B. f x \<notin> f ` A})"
    proof (cases "y \<in> f ` A")
      case True
      then obtain a where "a \<in> A" "y = f a" by (rule imageE)
      with y show ?thesis by simp
    next
      case False
      obtain b where "b \<in> B" "y = f b" using y by (rule imageE)
      with False show ?thesis by simp
    qed
  qed
qed auto

text \<open>
  C18: whatever order Python visits its sets in, the diff splits the stored chunks: unchanged and
  deleted chunks together are exactly the stored ones, an unchanged chunk is one whose
  normalised content occurs among the new chunks, and the added chunks are exactly the new ones
  whose normalised content is not stored.  The contents after the update (unchanged plus added)
  are the contents of the new chunks.
\<close>

theorem diff_chunks_partition:
  fixes new old :: "chunk list"
  assumes enum: "\<And>A. finite A \<Longrightarrow> distinct (enum A) \<and> set (enum A) = A"
  defines "d \<equiv> diff_chunks enum new old"
  shows "mset (unchanged d) + mset (deleted d) = mset old
    \<and> set (unchanged d) = {c \<in> set old. code_key c \<in> code_key ` set new}
    \<and> mset (added d) = filter_mset (\<lambda>c. code_key c \<notin> code_key ` set old) (mset new)
    \<and> modified d = []
    \<and> code_key ` (set (unchanged d) \<union> set (added d)) = code_key ` set new"
proof -
  note f = diff_fields [where enum = enum and new = new and old = old, OF enum, folded d_def]
  have "mset (unchanged d) + mset (deleted d) = mset old"
    using f(1,2) by (simp add: union_filter_mset_complement)
  moreover have u: "set (unchanged d) = {c \<in> set old. code_key c \<in> code_key ` set new}"
    using arg_cong [OF f(1), of set_mset] by (simp only: set_mset_mset set_filter)
  moreover have a: "set (added d) = {c \<in> set new. code_key c \<notin> code_key ` set old}"
    using arg_cong [OF f(3), of set_mset] by (simp only: set_mset_mset set_filter)
  moreover have "code_key ` (set (unchanged d) \<union> set (added d)) = code_key ` set new"
    unfolding u a by (rule image_kept_or_new)
  ultimately show ?thesis using f(3,4) by (simp only: mset_filter simp_thms)
qed

definition sorted_enum :: "string set \<Rightarrow> string list" where
  "sorted_enum A = sorted_list_of_set A"

theorem diff_chunks_partition_witness:
  "mset (unchanged (diff_chunks sorted_enum [sample_chunk] [sample_chunk, sample_chunk\<lparr>c_code := ''y''\<rparr>]))
     + mset (deleted (diff_chunks sorted_enum [sample_chunk] [sample_chunk, sample_chunk\<lparr>c_code := ''y''\<rparr>]))
   = {#sample_chunk, sample_chunk\<lparr>c_code := ''y''\<rparr>#}"
  using diff_chunks_partition [of sorted_enum "[sample_chunk]" "[sample_chunk, sample_chunk\<lparr>c_code := ''y''\<rparr>]"]
  by (simp add: sorted_enum_def)

text \<open>
  The comparison is by content alone: a second new chunk with a stored content is neither added
  nor kept, and a chunk that only moved is unchanged, so the stored line range stays.
\<close>

theorem diff_ignores_moves:
  assumes enum: "\<And>A. finite A \<Longrightarrow> distinct (enum A) \<and> set (enum A) = A"
  shows "added (diff_chunks enum [c\<lparr>c_start_line := s, c_end_line := e\<rparr>, c] [c]) = []
    \<and> unchanged (diff_chunks enum [c\<lparr>c_start_line := s, c_end_line := e\<rparr>, c] [c]) = [c]"
  using diff_fields [OF enum, of "[c\<lparr>c_start_line := s, c_end_line := e\<rparr>, c]" "[c]"] by simp

end
