(* ===== verification/Chunk_Store.thy ===== *)
theory Chunk_Store
  imports Chunk_Model
begin

text \<open>
  The database operations that indexing uses, from the executor methods of
  \<open>providers/database/duckdb_provider.py\<close>.

  A table is the list of its rows in insertion order; an SQL statement is what it does to that
  list (\<open>WHERE\<close> is \<^const>\<open>filter\<close>, \<open>ORDER BY\<close> a stable sort with NULLs last, \<open>nextval\<close> a
  counter).  A \<open>TEXT\<close> column that holds JSON is the value it encodes; \<open>created_at\<close> and
  \<open>updated_at\<close> columns and the vector index are left out.  A transaction keeps a copy of the
  tables for \<open>ROLLBACK\<close>; the sequences are not rolled back.
\<close>

record chunk_row =
  r_id :: int
  r_file_id :: int
  r_chunk_type :: string
  r_symbol :: string
  r_code :: string
  r_start_line :: int
  r_end_line :: int
  r_start_byte :: "int option"
  r_end_byte :: "int option"
  r_language :: string
  r_metadata :: "(string \<times> pyval) list option"

record file_row =
  fr_id :: int
  fr_path :: string
  fr_name :: string
  fr_extension :: string
  fr_size :: int
  fr_mtime :: rat
  fr_content_hash :: "string option"
  fr_language :: "string option"
  fr_skip_reason :: "string option"

text \<open>A row of an \<open>embeddings_<dims>\<close> table: the chunk, the provider and the model.\<close>

type_synonym embedding_row = "int \<times> string \<times> string"

record tables =
  t_files :: "file_row list"
  t_chunks :: "chunk_row list"
  t_embeddings :: "embedding_row list"

record database =
  db_tables :: tables
  files_id_seq :: int
  chunks_id_seq :: int
  transaction :: "tables option"

definition empty_database :: database where
  "empty_database = \<lparr>db_tables = \<lparr>t_files = [], t_chunks = [], t_embeddings = []\<rparr>,
     files_id_seq = 1, chunks_id_seq = 1, transaction = None\<rparr>"

subsection \<open>Transactions\<close>

definition begin_transaction :: "database \<Rightarrow> database" where
  "begin_transaction db = db\<lparr>transaction := Some (db_tables db)\<rparr>"

definition commit_transaction :: "database \<Rightarrow> database" where
  "commit_transaction db = db\<lparr>transaction := None\<rparr>"

definition rollback_transaction :: "database \<Rightarrow> database" where
  "rollback_transaction db =
     (case transaction db of
        None \<Rightarrow> db
      | Some saved \<Rightarrow> db\<lparr>db_tables := saved, transaction := None\<rparr>)"

subsection \<open>Files\<close>

definition get_file_by_path :: "database \<Rightarrow> string \<Rightarrow> file_row option" where
  "get_file_by_path db path = find (\<lambda>r. fr_path r = path) (t_files (db_tables db))"

definition update_file :: "database \<Rightarrow> int \<Rightarrow> int option \<Rightarrow> rat option \<Rightarrow> string option \<Rightarrow> database" where
  "update_file db file_id size_bytes mtime hash =
     (if size_bytes = None \<and> mtime = None \<and> hash = None then db
      else
        (let upd = (\<lambda>r. r\<lparr>fr_size := (case size_bytes of None \<Rightarrow> fr_size r | Some n \<Rightarrow> n),
                          fr_mtime := (case mtime of None \<Rightarrow> fr_mtime r | Some t \<Rightarrow> t),
                          fr_content_hash := (case hash of None \<Rightarrow> fr_content_hash r | Some h \<Rightarrow> Some h),
                          fr_skip_reason := None\<rparr>)
         in db\<lparr>db_tables := (db_tables db)\<lparr>t_files :=
              map (\<lambda>r. if fr_id r = file_id then upd r else r) (t_files (db_tables db))\<rparr>\<rparr>))"

definition insert_file :: "database \<Rightarrow> source_file \<Rightarrow> database \<times> int" where
  "insert_file db f =
     (case get_file_by_path db (f_path f) of
        Some r \<Rightarrow> (update_file db (fr_id r) (Some (f_size_bytes f)) (Some (f_mtime f)) (f_content_hash f), fr_id r)
      | None \<Rightarrow>
          (let i = files_id_seq db;
               row = \<lparr>fr_id = i, fr_path = f_path f, fr_name = path_name (f_path f),
                      fr_extension = path_suffix (f_path f), fr_size = f_size_bytes f, fr_mtime = f_mtime f,
                      fr_content_hash = f_content_hash f, fr_language = Some (language_value (f_language f)),
                      fr_skip_reason = None\<rparr>
           in (db\<lparr>db_tables := (db_tables db)\<lparr>t_files := t_files (db_tables db) @ [row]\<rparr>,
                  files_id_seq := i + 1\<rparr>, i)))"

text \<open>\<open>INSERT ... ON CONFLICT (path) DO UPDATE\<close>.\<close>

definition record_skipped_file ::
  "database \<Rightarrow> string \<Rightarrow> string \<Rightarrow> string \<Rightarrow> int \<Rightarrow> rat \<Rightarrow> string option \<Rightarrow> string option \<Rightarrow> string \<Rightarrow> database" where
  "record_skipped_file db path nm ext sz mtime lang hash reason =
     (let i = files_id_seq db; tb = db_tables db in
      if path \<in> fr_path ` set (t_files tb)
      then db\<lparr>db_tables := tb\<lparr>t_files :=
             map (\<lambda>r. if fr_path r = path
                      then r\<lparr>fr_size := sz, fr_mtime := mtime, fr_content_hash := hash,
                             fr_skip_reason := Some reason\<rparr> else r) (t_files tb)\<rparr>,
             files_id_seq := i + 1\<rparr>
      else db\<lparr>db_tables := tb\<lparr>t_files := t_files tb @
             [\<lparr>fr_id = i, fr_path = path, fr_name = nm, fr_extension = ext, fr_size = sz, fr_mtime = mtime,
               fr_content_hash = hash, fr_language = lang, fr_skip_reason = Some reason\<rparr>]\<rparr>,
             files_id_seq := i + 1\<rparr>)"

subsection \<open>Chunks\<close>

definition chunk_to_row :: "int \<Rightarrow> chunk \<Rightarrow> chunk_row" where
  "chunk_to_row i c = \<lparr>r_id = i, r_file_id = c_file_id c, r_chunk_type = chunk_type_value (c_chunk_type c),
     r_symbol = (case c_symbol c of None \<Rightarrow> [] | Some s \<Rightarrow> s), r_code = c_code c,
     r_start_line = c_start_line c, r_end_line = c_end_line c, r_start_byte = c_start_byte c,
     r_end_byte = c_end_byte c, r_language = language_value (c_language c),
     r_metadata = (case c_metadata c of None \<Rightarrow> None | Some md \<Rightarrow> if md = [] then None else Some md)\<rparr>"

definition insert_chunks_batch :: "database \<Rightarrow> chunk list \<Rightarrow> database \<times> int list" where
  "insert_chunks_batch db cs =
     (if cs = [] then (db, [])
      else (let ids = map (\<lambda>k. chunks_id_seq db + int k) [0..<length cs]
            in (db\<lparr>db_tables := (db_tables db)\<lparr>t_chunks := t_chunks (db_tables db) @ map2 chunk_to_row ids cs\<rparr>,
                   chunks_id_seq := chunks_id_seq db + int (length cs)\<rparr>, ids)))"

text \<open>\<open>ChunkType(v)\<close> and \<open>Language(v)\<close> raise on an unknown value.\<close>

definition enum_of :: "'a list \<Rightarrow> ('a \<Rightarrow> string) \<Rightarrow> string \<Rightarrow> 'a result" where
  "enum_of members val s = (case find (\<lambda>t. val t = s) members of None \<Rightarrow> Inl ValueError | Some t \<Rightarrow> Inr t)"

definition row_to_chunk :: "chunk_row \<Rightarrow> chunk result" where
  "row_to_chunk r =
     bind_result (enum_of chunk_types chunk_type_value (r_chunk_type r)) (\<lambda>t.
     bind_result (enum_of languages language_value (r_language r)) (\<lambda>l.
       mk_chunk \<lparr>c_symbol = Some (r_symbol r), c_start_line = r_start_line r, c_end_line = r_end_line r,
         c_code = r_code r, c_chunk_type = t, c_file_id = r_file_id r, c_language = l, c_id = Some (r_id r),
         c_file_path = None, c_parent_header = None, c_start_byte = r_start_byte r, c_end_byte = r_end_byte r,
         c_created_at = None, c_updated_at = None,
         c_metadata = Some (case r_metadata r of None \<Rightarrow> [] | Some md \<Rightarrow> md)\<rparr>))"

definition row_order :: "chunk_row \<Rightarrow> int \<times> int \<times> int" where
  "row_order r = (r_start_line r, (case r_start_byte r of None \<Rightarrow> (1, 0) | Some b \<Rightarrow> (0, b)))"

definition get_chunks_by_file_id :: "database \<Rightarrow> int \<Rightarrow> chunk list result" where
  "get_chunks_by_file_id db file_id =
     map_result row_to_chunk (sort_key row_order (filter (\<lambda>r. r_file_id r = file_id) (t_chunks (db_tables db))))"

definition delete_embeddings_for_chunk_ids :: "database \<Rightarrow> int list \<Rightarrow> database" where
  "delete_embeddings_for_chunk_ids db chunk_ids =
     db\<lparr>db_tables := (db_tables db)\<lparr>t_embeddings :=
       filter (\<lambda>e. fst e \<notin> set chunk_ids) (t_embeddings (db_tables db))\<rparr>\<rparr>"

definition delete_chunks_batch :: "database \<Rightarrow> int list \<Rightarrow> database" where
  "delete_chunks_batch db chunk_ids =
     (if chunk_ids = [] then db
      else (let db1 = delete_embeddings_for_chunk_ids db chunk_ids
            in db1\<lparr>db_tables := (db_tables db1)\<lparr>t_chunks :=
                 filter (\<lambda>r. r_id r \<notin> set chunk_ids) (t_chunks (db_tables db1))\<rparr>\<rparr>))"

text \<open>\<open>delete_file_completely\<close>: the embeddings, the chunks and the file row; whether there was one.\<close>

definition delete_file_completely :: "database \<Rightarrow> string \<Rightarrow> database \<times> bool" where
  "delete_file_completely db path =
     (case get_file_by_path db path of
        None \<Rightarrow> (db, False)
      | Some f \<Rightarrow>
          (let ids = map r_id (filter (\<lambda>r. r_file_id r = fr_id f) (t_chunks (db_tables db)));
               db1 = delete_chunks_batch db ids
           in (db1\<lparr>db_tables := (db_tables db1)\<lparr>t_files :=
                 filter (\<lambda>r. fr_id r \<noteq> fr_id f) (t_files (db_tables db1))\<rparr>\<rparr>, True)))"

subsection \<open>Consistency of the tables\<close>

text \<open>
  The primary keys and the unique path are unique, the sequences are ahead of the keys, and
  the references from chunks to files and from embeddings to chunks are not dangling.  Every
  stored chunk can be read back.
\<close>

definition row_ok :: "chunk_row \<Rightarrow> bool" where
  "row_ok r \<longleftrightarrow> (\<exists>c. row_to_chunk r = Inr c)"

definition tables_ok :: "tables \<Rightarrow> int \<Rightarrow> int \<Rightarrow> bool" where
  "tables_ok tb fseq cseq \<longleftrightarrow>
     distinct (map fr_id (t_files tb)) \<and> distinct (map fr_path (t_files tb)) \<and> (\<forall>r\<in>set (t_files tb). fr_id r < fseq) \<and>
     distinct (map r_id (t_chunks tb)) \<and> (\<forall>r\<in>set (t_chunks tb). r_id r < cseq \<and> r_file_id r \<in> fr_id ` set (t_files tb) \<and> row_ok r) \<and>
     (\<forall>e\<in>set (t_embeddings tb). fst e \<in> r_id ` set (t_chunks tb))"

definition db_ok :: "database \<Rightarrow> bool" where
  "db_ok db \<longleftrightarrow> tables_ok (db_tables db) (files_id_seq db) (chunks_id_seq db) \<and>
     (case transaction db of None \<Rightarrow> True | Some tb \<Rightarrow> tables_ok tb (files_id_seq db) (chunks_id_seq db))"

lemma tables_ok_mono: "tables_ok tb f c \<Longrightarrow> f \<le> f' \<Longrightarrow> c \<le> c' \<Longrightarrow> tables_ok tb f' c'"
  by (fastforce simp: tables_ok_def)

lemma empty_database_ok: "db_ok empty_database"
  by (simp add: db_ok_def tables_ok_def empty_database_def)

lemma begin_ok: "db_ok db \<Longrightarrow> db_ok (begin_transaction db)"
  by (simp add: db_ok_def begin_transaction_def)

lemma commit_ok: "db_ok db \<Longrightarrow> db_ok (commit_transaction db)"
  by (simp add: db_ok_def commit_transaction_def)

lemma rollback_ok: "db_ok db \<Longrightarrow> db_ok (rollback_transaction db)"
  by (simp add: db_ok_def rollback_transaction_def split: option.splits)

lemma enum_of_value:
  "enum_of chunk_types chunk_type_value (chunk_type_value t) = Inr t"
  "enum_of languages language_value (language_value l) = Inr l"
  by (simp_all add: enum_of_def ct.find_value lang.find_value)

text \<open>What a stored chunk reads back as: the id is set, the path, header and timestamps are gone.\<close>

definition stored_form :: "int \<Rightarrow> chunk \<Rightarrow> chunk" where
  "stored_form i c = c\<lparr>c_id := Some i, c_file_path := None, c_parent_header := None, c_created_at := None,
     c_updated_at := None, c_metadata := Some (case c_metadata c of None \<Rightarrow> [] | Some md \<Rightarrow> md)\<rparr>"

lemma row_to_chunk_to_row:
  assumes "chunk_ok c"
  shows "row_to_chunk (chunk_to_row i c) = Inr (stored_form i c)"
proof -
  have sym: "(case c_symbol c of None \<Rightarrow> True | Some s \<Rightarrow> py_strip s \<noteq> [])" using assms by (simp add: chunk_ok_def)
  have rest: "1 \<le> c_start_line c" "c_start_line c \<le> c_end_line c" "c_code c \<noteq> []"
    "\<not> opt_neg (c_start_byte c)" "\<not> opt_neg (c_end_byte c)" "\<not> opt_gt (c_start_byte c) (c_end_byte c)"
    using assms by (simp_all add: chunk_ok_def)
  show ?thesis
    using sym rest by (cases c)
      (auto simp: row_to_chunk_def chunk_to_row_def enum_of_value mk_chunk_def stored_form_def Let_def
        split: option.splits)
qed

subsection \<open>Every operation keeps the tables consistent\<close>

lemma db_ok_tables: "db_ok db \<Longrightarrow> tables_ok (db_tables db) (files_id_seq db) (chunks_id_seq db)"
  by (simp add: db_ok_def)

lemma db_ok_update:
  assumes "db_ok db" "tables_ok tb f c" "files_id_seq db \<le> f" "chunks_id_seq db \<le> c"
  shows "db_ok (db\<lparr>db_tables := tb, files_id_seq := f, chunks_id_seq := c\<rparr>)"
  using assms by (auto simp: db_ok_def split: option.splits intro: tables_ok_mono)

lemma map_ids_files:
  assumes "\<And>r. fr_id (g r) = fr_id r" "\<And>r. fr_path (g r) = fr_path r"
  shows "tables_ok (tb\<lparr>t_files := map g (t_files tb)\<rparr>) f c \<longleftrightarrow> tables_ok tb f c"
proof -
  have "fr_id \<circ> g = fr_id" "fr_path \<circ> g = fr_path" using assms by auto
  moreover from this(1) have "fr_id ` g ` A = fr_id ` A" for A by (metis image_comp)
  ultimately show ?thesis using assms(1) by (simp add: tables_ok_def)
qed

lemma update_file_ok:
  assumes "db_ok db"
  shows "db_ok (update_file db i sz mt h)"
proof -
  let ?g = "\<lambda>r. if fr_id r = i then r\<lparr>fr_size := (case sz of None \<Rightarrow> fr_size r | Some n \<Rightarrow> n),
      fr_mtime := (case mt of None \<Rightarrow> fr_mtime r | Some t \<Rightarrow> t),
      fr_content_hash := (case h of None \<Rightarrow> fr_content_hash r | Some h \<Rightarrow> Some h), fr_skip_reason := None\<rparr> else r"
  have "tables_ok ((db_tables db)\<lparr>t_files := map ?g (t_files (db_tables db))\<rparr>) (files_id_seq db) (chunks_id_seq db)"
    by (subst map_ids_files) (simp_all add: db_ok_tables [OF assms])
  from db_ok_update [OF assms this] assms show ?thesis
    by (simp add: update_file_def Let_def)
qed

lemma update_file_ids:
  "map fr_id (t_files (db_tables (update_file db i sz mt h))) = map fr_id (t_files (db_tables db))"
  by (simp add: update_file_def Let_def)

lemma update_file_frame:
  "fr_id ` set (t_files (db_tables (update_file db i sz mt h))) = fr_id ` set (t_files (db_tables db))"
  "t_chunks (db_tables (update_file db i sz mt h)) = t_chunks (db_tables db)"
  "t_embeddings (db_tables (update_file db i sz mt h)) = t_embeddings (db_tables db)"
  "transaction (update_file db i sz mt h) = transaction db"
  using arg_cong [OF update_file_ids, of set]
  by (simp_all only: set_map) (simp_all add: update_file_def Let_def)

lemma find_file:
  assumes "db_ok db" "get_file_by_path db p = Some r"
  shows "r \<in> set (t_files (db_tables db)) \<and> fr_path r = p"
  using assms(2) by (auto simp: get_file_by_path_def find_Some_iff)

lemma find_no_file: "get_file_by_path db p = None \<Longrightarrow> p \<notin> fr_path ` set (t_files (db_tables db))"
  by (auto simp: get_file_by_path_def find_None_iff)

definition has_file :: "database \<Rightarrow> int \<Rightarrow> bool" where
  "has_file db i \<longleftrightarrow> i \<in> fr_id ` set (t_files (db_tables db))"

lemma new_file_ok:
  assumes "db_ok db" "fr_id row = files_id_seq db" "fr_path row \<notin> fr_path ` set (t_files (db_tables db))"
  shows "db_ok (db\<lparr>db_tables := (db_tables db)\<lparr>t_files := t_files (db_tables db) @ [row]\<rparr>,
    files_id_seq := files_id_seq db + 1\<rparr>)"
proof -
  have "tables_ok ((db_tables db)\<lparr>t_files := t_files (db_tables db) @ [row]\<rparr>) (files_id_seq db + 1) (chunks_id_seq db)"
    using db_ok_tables [OF assms(1)] assms(2,3) by (force simp: tables_ok_def)
  from db_ok_update [OF assms(1) this] show ?thesis by simp
qed

lemma insert_file_ok:
  assumes "db_ok db" "insert_file db f = (db', i)"
  shows "db_ok db' \<and> has_file db' i \<and> t_chunks (db_tables db') = t_chunks (db_tables db)
    \<and> t_embeddings (db_tables db') = t_embeddings (db_tables db) \<and> transaction db' = transaction db"
proof (cases "get_file_by_path db (f_path f)")
  case None
  with assms find_no_file [OF None] show ?thesis
    by (auto simp: insert_file_def Let_def has_file_def intro!: new_file_ok)
next
  case (Some r)
  then have "db' = update_file db (fr_id r) (Some (f_size_bytes f)) (Some (f_mtime f)) (f_content_hash f)" "i = fr_id r"
    using assms(2) by (auto simp: insert_file_def)
  with find_file [OF assms(1) Some] update_file_ok [OF assms(1)] show ?thesis
    by (simp add: has_file_def update_file_frame)
qed

lemma record_skipped_file_ok:
  assumes "db_ok db"
  shows "db_ok (record_skipped_file db p nm ext sz mt l h why)"
proof (cases "p \<in> fr_path ` set (t_files (db_tables db))")
  case True
  let ?g = "\<lambda>r. if fr_path r = p then r\<lparr>fr_size := sz, fr_mtime := mt, fr_content_hash := h,
      fr_skip_reason := Some why\<rparr> else r"
  have "tables_ok ((db_tables db)\<lparr>t_files := map ?g (t_files (db_tables db))\<rparr>) (files_id_seq db + 1) (chunks_id_seq db)"
    by (subst map_ids_files) (simp_all add: tables_ok_mono [OF db_ok_tables [OF assms]])
  from db_ok_update [OF assms this] True show ?thesis
    by (simp add: record_skipped_file_def Let_def)
next
  case False
  with assms show ?thesis by (auto simp: record_skipped_file_def Let_def intro!: new_file_ok)
qed

lemma delete_chunks_ok:
  assumes "db_ok db"
  shows "db_ok (delete_chunks_batch db ids)"
proof (cases "ids = []")
  case False
  let ?tb = "(db_tables db)\<lparr>t_embeddings := filter (\<lambda>e. fst e \<notin> set ids) (t_embeddings (db_tables db)),
    t_chunks := filter (\<lambda>r. r_id r \<notin> set ids) (t_chunks (db_tables db))\<rparr>"
  have "tables_ok ?tb (files_id_seq db) (chunks_id_seq db)"
    using db_ok_tables [OF assms] by (auto simp: tables_ok_def distinct_map_filter)
  from db_ok_update [OF assms this] False show ?thesis
    by (simp add: delete_chunks_batch_def delete_embeddings_for_chunk_ids_def Let_def)
qed (use assms in \<open>simp add: delete_chunks_batch_def\<close>)

lemma insert_chunks_ids:
  "snd (insert_chunks_batch db cs) = map (\<lambda>k. chunks_id_seq db + int k) [0..<length cs]"
  by (simp add: insert_chunks_batch_def Let_def)

lemma insert_chunks_table:
  "t_chunks (db_tables (fst (insert_chunks_batch db cs)))
     = t_chunks (db_tables db) @ map2 chunk_to_row (snd (insert_chunks_batch db cs)) cs"
  by (simp add: insert_chunks_batch_def Let_def)

lemma tables_ok_add_chunks:
  assumes "tables_ok tb f c" "c \<le> c'" "distinct (map r_id rows)"
    and rows: "\<And>r. r \<in> set rows \<Longrightarrow> c \<le> r_id r \<and> r_id r < c' \<and> r_file_id r \<in> fr_id ` set (t_files tb) \<and> row_ok r"
  shows "tables_ok (tb\<lparr>t_chunks := t_chunks tb @ rows\<rparr>) f c'"
proof -
  have old: "r_id r < c" if "r \<in> set (t_chunks tb)" for r using assms(1) that by (simp add: tables_ok_def)
  then have "r_id ` set (t_chunks tb) \<inter> r_id ` set rows = {}" using rows by fastforce
  moreover have "r_id r < c'" if "r \<in> set (t_chunks tb)" for r using old [OF that] assms(2) by simp
  ultimately show ?thesis using assms(1,3) rows by (simp add: tables_ok_def ball_Un) blast
qed

lemma insert_chunks_ok:
  assumes "db_ok db" "\<forall>c\<in>set cs. chunk_ok c \<and> has_file db (c_file_id c)"
  shows "db_ok (fst (insert_chunks_batch db cs))"
proof (cases "cs = []")
  case False
  let ?n = "chunks_id_seq db"
  let ?ids = "map (\<lambda>k. ?n + int k) [0..<length cs]"
  let ?rows = "map2 chunk_to_row ?ids cs"
  have ids: "map r_id ?rows = ?ids" by (rule nth_equalityI) (simp_all add: chunk_to_row_def)
  have "?n \<le> r_id r \<and> r_id r < ?n + int (length cs) \<and> r_file_id r \<in> fr_id ` set (t_files (db_tables db)) \<and> row_ok r"
    if "r \<in> set ?rows" for r
  proof -
    from that obtain k where k: "k < length cs" "r = chunk_to_row (?n + int k) (cs ! k)"
      by (auto simp: set_zip)
    moreover have "chunk_ok (cs ! k)" "has_file db (c_file_id (cs ! k))" using assms(2) k(1) by simp_all
    ultimately show ?thesis
      using row_to_chunk_to_row by (simp add: row_ok_def has_file_def) (simp add: chunk_to_row_def)
  qed
  moreover have "distinct (map r_id ?rows)" unfolding ids by (simp add: distinct_map inj_on_def)
  ultimately have "tables_ok ((db_tables db)\<lparr>t_chunks := t_chunks (db_tables db) @ ?rows\<rparr>) (files_id_seq db) (?n + int (length cs))"
    by (intro tables_ok_add_chunks [OF db_ok_tables [OF assms(1)]]) simp_all
  from db_ok_update [OF assms(1) this] False show ?thesis by (simp add: insert_chunks_batch_def Let_def)
qed (use assms in \<open>simp add: insert_chunks_batch_def\<close>)

lemma image_other: "x \<in> f ` A \<Longrightarrow> x \<noteq> c \<Longrightarrow> x \<in> f ` {a \<in> A. f a \<noteq> c}"
  by auto

lemma delete_file_completely_ok:
  assumes "db_ok db"
  shows "db_ok (fst (delete_file_completely db p))"
proof (cases "get_file_by_path db p")
  case None
  with assms show ?thesis by (simp add: delete_file_completely_def)
next
  case (Some f)
  let ?ids = "map r_id (filter (\<lambda>r. r_file_id r = fr_id f) (t_chunks (db_tables db)))"
  let ?db = "delete_chunks_batch db ?ids"
  have ok: "db_ok ?db" using assms by (rule delete_chunks_ok)
  have "r_file_id r \<noteq> fr_id f" if "r \<in> set (t_chunks (db_tables ?db))" for r
    using that by (auto simp: delete_chunks_batch_def delete_embeddings_for_chunk_ids_def Let_def filter_empty_conv
        split: if_splits)
  moreover have "r_file_id r \<in> fr_id ` set (t_files (db_tables ?db))" if "r \<in> set (t_chunks (db_tables ?db))" for r
    using db_ok_tables [OF ok] that by (simp add: tables_ok_def)
  ultimately have "r_file_id r \<in> fr_id ` {g \<in> set (t_files (db_tables ?db)). fr_id g \<noteq> fr_id f}"
    if "r \<in> set (t_chunks (db_tables ?db))" for r using that by (intro image_other) blast+
  then have "tables_ok ((db_tables ?db)\<lparr>t_files := filter (\<lambda>r. fr_id r \<noteq> fr_id f) (t_files (db_tables ?db))\<rparr>)
      (files_id_seq ?db) (chunks_id_seq ?db)"
    using db_ok_tables [OF ok] by (simp add: tables_ok_def distinct_map_filter)
  from db_ok_update [OF ok this] Some show ?thesis by (simp add: delete_file_completely_def Let_def)
qed

subsection \<open>Reading back\<close>

definition the_chunk :: "chunk_row \<Rightarrow> chunk" where
  "the_chunk r = projr (row_to_chunk r)"

lemma row_to_chunk_fields:
  "row_to_chunk r = Inr c \<Longrightarrow> chunk_ok c \<and> c_id c = Some (r_id r) \<and> c_file_id c = r_file_id r \<and> c_code c = r_code r"
  by (auto simp: row_to_chunk_def bind_result_eq_Inr_iff mk_chunk_def chunk_ok_def Let_def split: if_splits)

lemma the_chunk_fields:
  assumes "row_ok r"
  shows "chunk_ok (the_chunk r)" "c_id (the_chunk r) = Some (r_id r)" "c_file_id (the_chunk r) = r_file_id r"
    "c_code (the_chunk r) = r_code r"
  using assms row_to_chunk_fields by (auto simp: row_ok_def the_chunk_def)

definition file_rows :: "database \<Rightarrow> int \<Rightarrow> chunk_row list" where
  "file_rows db f = filter (\<lambda>r. r_file_id r = f) (t_chunks (db_tables db))"

lemma get_chunks_eq:
  assumes "db_ok db"
  shows "get_chunks_by_file_id db f = Inr (map the_chunk (sort_key row_order (file_rows db f)))"
proof -
  have "row_to_chunk r = Inr (the_chunk r)" if "r \<in> set (file_rows db f)" for r
    using db_ok_tables [OF assms] that by (auto simp: tables_ok_def file_rows_def row_ok_def the_chunk_def)
  then show ?thesis unfolding get_chunks_by_file_id_def file_rows_def [symmetric]
    by (intro map_result_pure) simp
qed

lemma file_rows_ok:
  assumes "db_ok db" "r \<in> set (file_rows db f)"
  shows "row_ok r" "r_file_id r = f"
  using db_ok_tables [OF assms(1)] assms(2) by (auto simp: tables_ok_def file_rows_def)

lemma file_rows_insert:
  assumes "\<forall>c\<in>set cs. c_file_id c = f"
  shows "file_rows (fst (insert_chunks_batch db cs)) g
    = file_rows db g @ (if g = f then map2 chunk_to_row (snd (insert_chunks_batch db cs)) cs else [])"
proof -
  have "r_file_id r = f" if "r \<in> set (map2 chunk_to_row (snd (insert_chunks_batch db cs)) cs)" for r
    using that assms by (auto simp: chunk_to_row_def dest: set_zip_rightD)
  then have "filter (\<lambda>r. r_file_id r = g) (map2 chunk_to_row (snd (insert_chunks_batch db cs)) cs)
      = (if g = f then map2 chunk_to_row (snd (insert_chunks_batch db cs)) cs else [])"
    by (auto simp: filter_empty_conv intro!: filter_True)
  then show ?thesis by (simp add: file_rows_def insert_chunks_table)
qed

lemma file_rows_delete: "file_rows (delete_chunks_batch db ids) g = filter (\<lambda>r. r_id r \<notin> set ids) (file_rows db g)"
  by (simp add: file_rows_def delete_chunks_batch_def delete_embeddings_for_chunk_ids_def Let_def conj_commute)

lemma map_the_chunk_rows:
  "\<forall>c\<in>set cs. chunk_ok c \<Longrightarrow> length ids = length cs \<Longrightarrow> map the_chunk (map2 chunk_to_row ids cs) = map2 stored_form ids cs"
  by (induction ids cs rule: list_induct2') (auto simp: the_chunk_def row_to_chunk_to_row)

subsection \<open>The repository contract\<close>

text \<open>
  What the indexing coordinator relies on: the chunks of a file can be read, each with its own
  id; an insertion adds the stored forms of the chunks to the file they belong to; a deletion
  removes exactly the chunks with the given ids.  Other files are not affected.
\<close>

locale chunk_repository =
  fixes ok :: "'db \<Rightarrow> bool" and file_known :: "'db \<Rightarrow> int \<Rightarrow> bool"
    and read :: "'db \<Rightarrow> int \<Rightarrow> chunk list result"
    and insert_batch :: "'db \<Rightarrow> chunk list \<Rightarrow> 'db \<times> int list"
    and delete_batch :: "'db \<Rightarrow> int list \<Rightarrow> 'db"
  assumes read_total: "ok db \<Longrightarrow> \<exists>cs. read db f = Inr cs \<and> distinct (map c_id cs)
      \<and> (\<forall>c\<in>set cs. chunk_ok c \<and> c_file_id c = f \<and> c_id c \<noteq> None)"
    and delete_ok: "ok db \<Longrightarrow> ok (delete_batch db ids)"
    and delete_known: "file_known (delete_batch db ids) f \<longleftrightarrow> file_known db f"
    and delete_read: "ok db \<Longrightarrow> read db f = Inr cs \<Longrightarrow>
      \<exists>cs'. read (delete_batch db ids) f = Inr cs' \<and> mset cs' = filter_mset (\<lambda>c. c_id c \<notin> Some ` set ids) (mset cs)"
    and insert_ok: "ok db \<Longrightarrow> \<forall>c\<in>set cs. chunk_ok c \<and> file_known db (c_file_id c) \<Longrightarrow> ok (fst (insert_batch db cs))"
    and insert_read: "ok db \<Longrightarrow> \<forall>c\<in>set cs. chunk_ok c \<and> c_file_id c = f \<and> file_known db f \<Longrightarrow> read db g = Inr old \<Longrightarrow>
      \<exists>cur. read (fst (insert_batch db cs)) g = Inr cur
        \<and> mset cur = mset old + (if g = f then mset (map2 stored_form (snd (insert_batch db cs)) cs) else {#})"
    and insert_length: "length (snd (insert_batch db cs)) = length cs"

lemma mset_read:
  assumes "db_ok db" "get_chunks_by_file_id db f = Inr cs"
  shows "mset cs = mset (map the_chunk (file_rows db f))"
  using assms get_chunks_eq [of db f] by (auto simp: image_mset.compositionality)

lemma read_chunks_total:
  assumes "db_ok db"
  shows "\<exists>cs. get_chunks_by_file_id db f = Inr cs \<and> distinct (map c_id cs)
    \<and> (\<forall>c\<in>set cs. chunk_ok c \<and> c_file_id c = f \<and> c_id c \<noteq> None)"
proof -
  let ?rows = "sort_key row_order (file_rows db f)"
  have ok: "row_ok r" "r_file_id r = f" if "r \<in> set ?rows" for r
    using file_rows_ok [OF assms] that by auto
  have "distinct (map r_id (file_rows db f))"
    using db_ok_tables [OF assms] by (simp add: tables_ok_def file_rows_def distinct_map_filter)
  then have "distinct (map (Some \<circ> r_id) ?rows)" by (simp add: distinct_map inj_on_def)
  moreover have "map c_id (map the_chunk ?rows) = map (Some \<circ> r_id) ?rows"
    using ok the_chunk_fields(2) by simp
  ultimately have "distinct (map c_id (map the_chunk ?rows))" by (simp only:)
  moreover have "\<forall>c\<in>set (map the_chunk ?rows). chunk_ok c \<and> c_file_id c = f \<and> c_id c \<noteq> None"
    using ok the_chunk_fields by auto
  ultimately show ?thesis using get_chunks_eq [OF assms] by blast
qed

lemma delete_chunks_read:
  assumes "db_ok db" "get_chunks_by_file_id db f = Inr cs"
  shows "\<exists>cs'. get_chunks_by_file_id (delete_chunks_batch db ids) f = Inr cs'
    \<and> mset cs' = filter_mset (\<lambda>c. c_id c \<notin> Some ` set ids) (mset cs)"
proof -
  obtain cs' where cs': "get_chunks_by_file_id (delete_chunks_batch db ids) f = Inr cs'"
    using get_chunks_eq [OF delete_chunks_ok [OF assms(1)]] by blast
  have "filter (\<lambda>c. c_id c \<notin> Some ` set ids) (map the_chunk (file_rows db f))
      = map the_chunk (filter (\<lambda>r. r_id r \<notin> set ids) (file_rows db f))"
    using file_rows_ok(1) [OF assms(1)] the_chunk_fields(2)
    by (auto simp: filter_map intro!: arg_cong [where f = "map the_chunk"] filter_cong)
  then show ?thesis
    using cs' mset_read [OF assms] mset_read [OF delete_chunks_ok [OF assms(1)] cs']
    by (metis file_rows_delete mset_filter)
qed

lemma insert_chunks_read:
  assumes ok: "db_ok db" and cs: "\<forall>c\<in>set cs. chunk_ok c \<and> c_file_id c = f \<and> has_file db f"
    and old: "get_chunks_by_file_id db g = Inr old"
  shows "\<exists>cur. get_chunks_by_file_id (fst (insert_chunks_batch db cs)) g = Inr cur
    \<and> mset cur = mset old + (if g = f then mset (map2 stored_form (snd (insert_chunks_batch db cs)) cs) else {#})"
proof -
  let ?db = "fst (insert_chunks_batch db cs)" and ?ids = "snd (insert_chunks_batch db cs)"
  have same: "\<forall>c\<in>set cs. c_file_id c = f" using cs by blast
  have ok': "db_ok ?db" using cs by (intro insert_chunks_ok [OF ok]) auto
  then obtain cur where cur: "get_chunks_by_file_id ?db g = Inr cur" using get_chunks_eq by blast
  have "map the_chunk (map2 chunk_to_row ?ids cs) = map2 stored_form ?ids cs"
    using cs by (intro map_the_chunk_rows) (simp_all add: insert_chunks_ids)
  then have "mset cur = mset old + (if g = f then mset (map2 stored_form ?ids cs) else {#})"
    using mset_read [OF ok' cur] mset_read [OF ok old] file_rows_insert [OF same, of db g]
    by (cases "g = f") (simp_all only: map_append mset_append list.map mset.simps if_True if_False refl add_0_right)
  with cur show ?thesis by blast
qed

interpretation cr: chunk_repository db_ok has_file get_chunks_by_file_id insert_chunks_batch delete_chunks_batch
proof
  fix db :: database and f :: int and ids :: "int list" and cs :: "chunk list"
  show "length (snd (insert_chunks_batch db cs)) = length cs" by (simp add: insert_chunks_ids)
  show "has_file (delete_chunks_batch db ids) f \<longleftrightarrow> has_file db f"
    by (simp add: has_file_def delete_chunks_batch_def delete_embeddings_for_chunk_ids_def Let_def)
qed (fact read_chunks_total delete_chunks_ok delete_chunks_read insert_chunks_ok insert_chunks_read)+

end
