(* ===== verification/Indexing.thy ===== *)
theory Indexing
  imports Splitter Chunk_Cache Chunk_Store
begin

text \<open>
  The storing half of the indexing coordinator, \<open>services/indexing_coordinator.py\<close>: the size
  guard \<open>_validate_chunk_sizes\<close>, \<open>_store_file_record\<close>, \<open>_store_parsed_results\<close> and
  \<open>remove_file\<close>, over the database operations of \<open>Chunk_Store\<close>.

  An \<open>await\<close> is a plain call: storing is single-threaded.  Progress reporting, logging and task
  cancellation are left out.  Reading the file system is an argument: the relative path of a
  file (\<open>env_rel\<close>, \<open>_get_relative_path\<close>), the ISO text of a timestamp (\<open>env_fromiso\<close>), the order
  in which Python lists a set (\<open>env_enum\<close>) and the outcome of the disk-usage check.
\<close>

record index_env =
  env_rel :: "string \<Rightarrow> string result"
  env_fromiso :: "string \<Rightarrow> datetime result"
  env_enum :: "string set \<Rightarrow> string list"

subsection \<open>The size guard\<close>

text \<open>\<open>str(Path(p))\<close> on a POSIX system: repeated and trailing slashes and \<open>.\<close> parts go away.\<close>

definition path_str :: "string \<Rightarrow> string" where
  "path_str p =
     (let parts = filter (\<lambda>x. x \<noteq> [] \<and> x \<noteq> ''.'') (split_on (CHR ''/'') p);
          root = (if starts_with p ''//'' \<and> \<not> starts_with p ''///'' then ''//''
                  else if starts_with p ''/'' then ''/'' else []);
          s = root @ join_with ''/'' parts
      in if s = [] then ''.'' else s)"

fun validate_chunk_sizes :: "cast_config \<Rightarrow> chunk list \<Rightarrow> chunk list result option" where
  "validate_chunk_sizes cfg [] = Some (Inr [])"
| "validate_chunk_sizes cfg (c # cs) =
     (if non_whitespace_chars (metrics_from_content (c_code c)) > max_chunk_size cfg
         \<or> estimate_tokens_chunking (c_code c) > safe_token_limit cfg
      then
        (case validate_and_split cfg (chunk_to_universal c) of
           None \<Rightarrow> None
         | Some split_uchunks \<Rightarrow>
             (case map_result (\<lambda>uc. universal_to_chunk uc (map_option path_str (c_file_path c))
                                       (Some (c_file_id c)) (c_language c)) split_uchunks of
                Inl e \<Rightarrow> Some (Inl e)
              | Inr parts \<Rightarrow> map_option (\<lambda>r. bind_result r (\<lambda>rest. Inr (parts @ rest))) (validate_chunk_sizes cfg cs)))
      else map_option (\<lambda>r. bind_result r (\<lambda>rest. Inr (c # rest))) (validate_chunk_sizes cfg cs))"

lemma oversized_iff:
  "non_whitespace_chars (metrics_from_content s) > max_chunk_size cfg
     \<or> estimate_tokens_chunking s > safe_token_limit cfg \<longleftrightarrow> \<not> fits cfg s"
  by (auto simp: fits_def)

definition cfg_guard :: "cast_config \<Rightarrow> bool" where
  "cfg_guard cfg \<longleftrightarrow> cfg_tight cfg \<and> cfg_lines cfg"

lemma default_cfg_guard: "cfg_guard default_cast_config"
  using default_cfg_tight by (simp add: cfg_guard_def cfg_tight_def cfg_lines_def default_cast_config_def)

lemma universal_to_chunk_ok:
  assumes "1 \<le> uc_start_line u" "uc_start_line u \<le> uc_end_line u" "uc_content u \<noteq> []"
  shows "\<exists>c. universal_to_chunk u fp fid l = Inr c \<and> chunk_ok c \<and> c_code c = uc_content u
    \<and> c_file_id c = (case fid of None \<Rightarrow> 0 | Some i \<Rightarrow> i)"
  using new_chunk_ok [OF assms] unfolding universal_to_chunk_def Let_def by blast

text \<open>The parts of one oversized chunk: they convert back, fit, and carry its text.\<close>

lemma guard_parts:
  assumes cfg: "cfg_guard cfg" and c: "chunk_ok c"
  obtains us ps where "validate_and_split cfg (chunk_to_universal c) = Some us"
    "map_result (\<lambda>uc. universal_to_chunk uc fp (Some (c_file_id c)) (c_language c)) us = Inr ps"
    "list_all (\<lambda>p. chunk_ok p \<and> fits cfg (c_code p) \<and> c_file_id p = c_file_id c) ps"
    "concat (map (nonws \<circ> c_code) ps) = nonws (c_code c)"
proof -
  let ?u = "chunk_to_universal c" and ?f = "\<lambda>uc. universal_to_chunk uc fp (Some (c_file_id c)) (c_language c)"
  have ok: "cfg_ok cfg" "cfg_tight cfg" "cfg_lines cfg" using cfg by (auto simp: cfg_guard_def cfg_tight_def)
  have l: "1 \<le> uc_start_line ?u" "uc_start_line ?u \<le> uc_end_line ?u" "uc_content ?u \<noteq> []"
    using c by (auto simp: chunk_ok_def)
  obtain us where us: "validate_and_split cfg ?u = Some us" "splits_into cfg ?u us"
    using validate_and_split_correct [OF ok(1) l(2)] by blast
  have ne: "\<forall>p\<in>set us. uc_content p \<noteq> []"
    using us(1) recursive_split_nonempty [OF ok(3) l(2,3)] l(3) by (auto simp: validate_and_split_def split: if_splits)
  have part: "part_of ?u p" "fits cfg (uc_content p)" if "p \<in> set us" for p
    using us(2) ok(2) that by (auto simp: splits_into_def list_all_iff)
  have conv: "\<exists>d. ?f p = Inr d \<and> chunk_ok d \<and> c_code d = uc_content p \<and> c_file_id d = c_file_id c"
    if "p \<in> set us" for p
    using universal_to_chunk_ok [of p fp "Some (c_file_id c)" "c_language c"] part(1) [OF that] ne that l(1)
    by (auto simp: part_of_def)
  then have "map_result ?f us = Inr (map (\<lambda>u. projr (?f u)) us)" by (intro map_result_pure) force
  moreover have pr: "chunk_ok (projr (?f p)) \<and> c_code (projr (?f p)) = uc_content p \<and> c_file_id (projr (?f p)) = c_file_id c"
    if "p \<in> set us" for p using conv [OF that] by auto
  moreover have "concat (map (nonws \<circ> c_code) (map (\<lambda>u. projr (?f u)) us)) = concat (map (nonws \<circ> uc_content) us)"
    using pr by (induction us) auto
  ultimately show thesis
    using that [OF us(1), of "map (\<lambda>u. projr (?f u)) us"] us(2) part(2) by (simp add: splits_into_def list_all_iff)
qed

lemma validate_chunk_sizes_correct:
  assumes cfg: "cfg_guard cfg" and "list_all chunk_ok cs"
  shows "\<exists>ds. validate_chunk_sizes cfg cs = Some (Inr ds) \<and> list_all (\<lambda>d. chunk_ok d \<and> fits cfg (c_code d)) ds
    \<and> concat (map (nonws \<circ> c_code) ds) = concat (map (nonws \<circ> c_code) cs)
    \<and> c_file_id ` set ds \<subseteq> c_file_id ` set cs \<and> (list_all (\<lambda>c. fits cfg (c_code c)) cs \<longrightarrow> ds = cs)"
  using assms(2)
proof (induction cs)
  case (Cons c cs)
  then obtain ds where ds: "validate_chunk_sizes cfg cs = Some (Inr ds)" "list_all (\<lambda>d. chunk_ok d \<and> fits cfg (c_code d)) ds"
    "concat (map (nonws \<circ> c_code) ds) = concat (map (nonws \<circ> c_code) cs)" "c_file_id ` set ds \<subseteq> c_file_id ` set cs"
    "list_all (\<lambda>c. fits cfg (c_code c)) cs \<longrightarrow> ds = cs" by (auto simp: o_def)
  show ?case
  proof (cases "fits cfg (c_code c)")
    case True
    with ds Cons.prems show ?thesis by (auto simp: oversized_iff o_def)
  next
    case False
    have "chunk_ok c" using Cons.prems by simp
    then obtain us ps where ps: "validate_and_split cfg (chunk_to_universal c) = Some us"
      "map_result (\<lambda>uc. universal_to_chunk uc (map_option path_str (c_file_path c)) (Some (c_file_id c)) (c_language c)) us = Inr ps"
      "list_all (\<lambda>p. chunk_ok p \<and> fits cfg (c_code p) \<and> c_file_id p = c_file_id c) ps"
      "concat (map (nonws \<circ> c_code) ps) = nonws (c_code c)"
      using guard_parts [OF cfg, of c "map_option path_str (c_file_path c)"] by blast
    have "validate_chunk_sizes cfg (c # cs) = Some (Inr (ps @ ds))"
      using False ps(1,2) ds(1) by (simp add: oversized_iff)
    moreover have "list_all (\<lambda>d. chunk_ok d \<and> fits cfg (c_code d)) (ps @ ds)"
      using ds(2) ps(3) by (auto simp: list_all_iff)
    moreover have "concat (map (nonws \<circ> c_code) (ps @ ds)) = concat (map (nonws \<circ> c_code) (c # cs))"
      using ds(3) ps(4) by simp
    moreover have "c_file_id ` set (ps @ ds) \<subseteq> c_file_id ` set (c # cs)"
      using ds(4) ps(3) by (auto simp: list_all_iff)
    moreover have "\<not> list_all (\<lambda>c. fits cfg (c_code c)) (c # cs)" using False by simp
    ultimately show ?thesis by (intro exI [of _ "ps @ ds"] conjI impI) blast+
  qed
qed simp

text \<open>
  C17: the central guard before persistence never fails and never loops on valid chunks: every
  chunk it returns is valid and within both limits of the default configuration, together they
  carry the non-white-space text of the input in order, and chunks within the limits pass
  through unchanged.
\<close>

theorem size_guard_correct:
  assumes "list_all chunk_ok cs"
  shows "\<exists>ds. validate_chunk_sizes default_cast_config cs = Some (Inr ds)
    \<and> list_all (\<lambda>d. chunk_ok d \<and> fits default_cast_config (c_code d)) ds
    \<and> concat (map (nonws \<circ> c_code) ds) = concat (map (nonws \<circ> c_code) cs)
    \<and> (list_all (\<lambda>c. fits default_cast_config (c_code c)) cs \<longrightarrow> ds = cs)"
  using validate_chunk_sizes_correct [OF default_cfg_guard assms] by blast

theorem size_guard_correct_witness:
  "validate_chunk_sizes default_cast_config [sample_chunk] = Some (Inr [sample_chunk])"
proof -
  have "list_all chunk_ok [sample_chunk]" "list_all (\<lambda>c. fits default_cast_config (c_code c)) [sample_chunk]"
    by code_simp+
  with size_guard_correct [of "[sample_chunk]"] show ?thesis by auto
qed

subsection \<open>Storing parsed files\<close>

record parsed_file_result =
  pf_file_path :: string
  pf_chunks :: "ddict list"
  pf_language :: Language
  pf_file_size :: int
  pf_file_mtime :: rat
  pf_status :: string
  pf_error :: "string option"
  pf_content_hash :: "string option"

datatype store_error = ParseError "string option" | Raised pyerror | DiskLimit

record store_stats =
  total_files :: int
  total_chunks :: int
  errors :: "(string \<times> store_error) list"
  chunk_ids_needing_embeddings :: "int list"
  skip_reason :: "string option option"
  skipped_paths :: "(string \<times> string option) list"
  stats_file_id :: "int option"

definition store_file_record ::
  "index_env \<Rightarrow> database \<Rightarrow> string \<Rightarrow> int \<Rightarrow> rat \<Rightarrow> Language \<Rightarrow> string option \<Rightarrow> (database \<times> int \<times> bool) result" where
  "store_file_record env db file_path st_size st_mtime language hash =
     bind_result (env_rel env file_path) (\<lambda>relative_path.
       case get_file_by_path db relative_path of
         Some existing \<Rightarrow>
           Inr (update_file db (fr_id existing) (Some st_size) (Some st_mtime) hash, fr_id existing, True)
       | None \<Rightarrow>
           bind_result (mk_file \<lparr>f_path = relative_path, f_mtime = st_mtime, f_language = language,
               f_size_bytes = st_size, f_id = None, f_content_hash = hash, f_created_at = None, f_updated_at = None\<rparr>)
             (\<lambda>f. let (db', i) = insert_file db f in Inr (db', i, False)))"

definition chunk_ids :: "chunk list \<Rightarrow> int list" where
  "chunk_ids cs = map the (filter (\<lambda>i. i \<noteq> None) (map c_id cs))"

definition file_models :: "index_env \<Rightarrow> int \<Rightarrow> ddict list \<Rightarrow> chunk list result" where
  "file_models env file_id chunks =
     map_result (\<lambda>d. chunk_from_dict (env_fromiso env) (dict_set ''file_id'' (Py (PyInt file_id)) d)) chunks"

text \<open>
  The body of the per-file transaction after the file record is stored: the database reached,
  and the new chunk ids or the exception.  \<^const>\<open>None\<close> would be a splitter that does not return.
\<close>

definition store_chunks ::
  "index_env \<Rightarrow> database \<Rightarrow> int \<Rightarrow> bool \<Rightarrow> ddict list \<Rightarrow> (database \<times> int list result) option" where
  "store_chunks env db file_id is_existing chunks =
     (case file_models env file_id chunks of
        Inl e \<Rightarrow> Some (db, Inl e)
      | Inr new_chunk_models \<Rightarrow>
          (case (if is_existing then get_chunks_by_file_id db file_id else Inr []) of
             Inl e \<Rightarrow> Some (db, Inl e)
           | Inr existing_chunks \<Rightarrow>
               if existing_chunks \<noteq> []
               then
                 (let diff = diff_chunks (env_enum env) new_chunk_models existing_chunks;
                      ids_to_delete = chunk_ids (deleted diff @ modified diff);
                      db1 = (if ids_to_delete \<noteq> [] then delete_chunks_batch db ids_to_delete else db)
                  in case validate_chunk_sizes default_cast_config (added diff @ modified diff) of
                       None \<Rightarrow> None
                     | Some (Inl e) \<Rightarrow> Some (db1, Inl e)
                     | Some (Inr chunks_to_store) \<Rightarrow>
                         (let (db2, ids) = (if chunks_to_store \<noteq> [] then insert_chunks_batch db1 chunks_to_store
                                            else (db1, []))
                          in Some (db2, Inr ids)))
               else
                 (case validate_chunk_sizes default_cast_config new_chunk_models of
                    None \<Rightarrow> None
                  | Some (Inl e) \<Rightarrow> Some (db, Inl e)
                  | Some (Inr validated) \<Rightarrow>
                      (let (db2, ids) = insert_chunks_batch db validated in Some (db2, Inr ids)))))"

text \<open>One file: the transaction, committed or rolled back, and the file id once it is known.\<close>

definition store_file ::
  "index_env \<Rightarrow> database \<Rightarrow> parsed_file_result \<Rightarrow> (database \<times> int option \<times> int list result) option" where
  "store_file env db r =
     (let db0 = begin_transaction db in
      case store_file_record env db0 (pf_file_path r) (pf_file_size r) (pf_file_mtime r) (pf_language r) (pf_content_hash r) of
        Inl e \<Rightarrow> Some (rollback_transaction db0, None, Inl e)
      | Inr (db1, file_id, is_existing) \<Rightarrow>
          (case store_chunks env db1 file_id is_existing (pf_chunks r) of
             None \<Rightarrow> None
           | Some (db2, Inl e) \<Rightarrow> Some (rollback_transaction db2, Some file_id, Inl e)
           | Some (db2, Inr ids) \<Rightarrow> Some (commit_transaction db2, Some file_id, Inr ids)))"

definition store_skipped :: "index_env \<Rightarrow> database \<Rightarrow> store_stats \<Rightarrow> parsed_file_result \<Rightarrow> database \<times> store_stats" where
  "store_skipped env db st r =
     (let st1 = (if skip_reason st = None then st\<lparr>skip_reason := Some (pf_error r)\<rparr> else st)
      in case env_rel env (pf_file_path r) of
           Inl e \<Rightarrow> (db, st1)
         | Inr rl \<Rightarrow>
             (record_skipped_file db rl (path_name (pf_file_path r)) (path_suffix (pf_file_path r)) (pf_file_size r)
                (pf_file_mtime r) (Some (language_value (pf_language r))) (pf_content_hash r)
                (if truthy_str (pf_error r) then the (pf_error r) else ''skipped''),
              st1\<lparr>skipped_paths := skipped_paths st1 @ [(pf_file_path r, pf_error r)]\<rparr>))"

fun store_results ::
  "index_env \<Rightarrow> database \<Rightarrow> store_stats \<Rightarrow> int list \<Rightarrow> parsed_file_result list \<Rightarrow> (database \<times> store_stats \<times> int list) option" where
  "store_results env db st file_ids [] = Some (db, st, file_ids)"
| "store_results env db st file_ids (r # rs) =
     (if pf_status r = ''error''
      then store_results env db (st\<lparr>errors := errors st @ [(pf_file_path r, ParseError (pf_error r))]\<rparr>) file_ids rs
      else if pf_status r = ''skipped''
      then (let (db', st') = store_skipped env db st r in store_results env db' st' file_ids rs)
      else
        (case store_file env db r of
           None \<Rightarrow> None
         | Some (db', fid, Inl e) \<Rightarrow>
             store_results env db' (st\<lparr>errors := errors st @ [(pf_file_path r, Raised e)]\<rparr>)
               (case fid of None \<Rightarrow> file_ids | Some i \<Rightarrow> file_ids @ [i]) rs
         | Some (db', fid, Inr ids) \<Rightarrow>
             store_results env db'
               (st\<lparr>chunk_ids_needing_embeddings := chunk_ids_needing_embeddings st @ ids,
                   total_chunks := total_chunks st + int (length ids), total_files := total_files st + 1\<rparr>)
               (case fid of None \<Rightarrow> file_ids | Some i \<Rightarrow> file_ids @ [i]) rs))"

definition empty_stats :: store_stats where
  "empty_stats = \<lparr>total_files = 0, total_chunks = 0, errors = [], chunk_ids_needing_embeddings = [],
     skip_reason = None, skipped_paths = [], stats_file_id = None\<rparr>"

definition store_parsed_results ::
  "index_env \<Rightarrow> bool \<Rightarrow> database \<Rightarrow> parsed_file_result list \<Rightarrow> (database \<times> store_stats) option" where
  "store_parsed_results env disk_limit_exceeded db results =
     (if disk_limit_exceeded then Some (db, empty_stats\<lparr>errors := [([], DiskLimit)]\<rparr>)
      else map_option (\<lambda>(db', st, file_ids).
             (db', if length results = 1 \<and> file_ids \<noteq> [] then st\<lparr>stats_file_id := Some (hd file_ids)\<rparr> else st))
           (store_results env db empty_stats [] results))"

definition remove_file :: "index_env \<Rightarrow> database \<Rightarrow> string \<Rightarrow> database \<times> int" where
  "remove_file env db file_path =
     (case env_rel env file_path of
        Inl e \<Rightarrow> (db, 0)
      | Inr relative_path \<Rightarrow>
          (case get_file_by_path db relative_path of
             None \<Rightarrow> (db, 0)
           | Some f \<Rightarrow>
               (let chunk_count = int (length (file_rows db (fr_id f)));
                    (db', success) = delete_file_completely db relative_path
                in (db', if success then chunk_count else 0))))"

subsection \<open>The smart update\<close>

lemma chunk_ids_set: "Some ` set (chunk_ids cs) = c_id ` set cs - {None}"
  by (induction cs) (auto simp: chunk_ids_def image_iff)

lemma code_key_stored [simp]: "c_code (stored_form i c) = c_code c"
  by (simp add: stored_form_def)

lemma code_keys_stored:
  "length ids = length cs \<Longrightarrow> code_key ` set (map2 stored_form ids cs) = code_key ` set cs"
  by (induction ids cs rule: list_induct2) auto

context chunk_repository
begin

text \<open>Deleting the ids of the deleted chunks of the diff leaves the unchanged ones.\<close>

lemma delete_deleted:
  assumes ok: "ok db" and old: "read db f = Inr old"
    and enum: "\<And>A. finite A \<Longrightarrow> distinct (enum A) \<and> set (enum A) = A"
  shows "\<exists>cur. read (delete_batch db (chunk_ids (deleted (diff_chunks enum new old)))) f = Inr cur
    \<and> mset cur = mset (unchanged (diff_chunks enum new old))"
proof -
  let ?d = "diff_chunks enum new old"
  note fields = diff_fields [OF enum, of new old]
  have ids: "distinct (map c_id old)" "\<And>c. c \<in> set old \<Longrightarrow> c_id c \<noteq> None"
    using read_total [OF ok, of f] old by auto
  have del: "set (deleted ?d) = {c \<in> set old. code_key c \<notin> code_key ` set new}"
    using arg_cong [OF fields(2), of set_mset] by (simp only: set_mset_mset set_filter)
  have "c_id c \<notin> Some ` set (chunk_ids (deleted ?d)) \<longleftrightarrow> code_key c \<in> code_key ` set new" if "c \<in> set old" for c
  proof -
    have "c_id c \<in> c_id ` set (deleted ?d) \<longleftrightarrow> c \<in> set (deleted ?d)"
      using ids(1) that unfolding del by (intro inj_on_image_mem_iff) (auto simp: distinct_map)
    then show ?thesis using ids(2) [OF that] that by (simp add: chunk_ids_set del)
  qed
  then have "filter_mset (\<lambda>c. c_id c \<notin> Some ` set (chunk_ids (deleted ?d))) (mset old)
      = mset (filter (\<lambda>c. code_key c \<in> code_key ` set new) old)"
    unfolding mset_filter by (intro filter_mset_cong refl) simp
  also have "\<dots> = mset (unchanged ?d)" by (rule fields(1) [symmetric])
  finally have "filter_mset (\<lambda>c. c_id c \<notin> Some ` set (chunk_ids (deleted ?d))) (mset old) = mset (unchanged ?d)" .
  then show ?thesis using delete_read [OF ok old, of "chunk_ids (deleted ?d)"] by simp
qed

text \<open>
  Deleting the deleted chunks of the diff and inserting the added ones leaves the unchanged
  stored chunks, ids included, and the stored forms of the added ones.
\<close>

lemma smart_update:
  assumes ok: "ok db" and old: "read db f = Inr old"
    and new: "\<forall>c\<in>set new. chunk_ok c \<and> c_file_id c = f" and known: "file_known db f"
    and enum: "\<And>A. finite A \<Longrightarrow> distinct (enum A) \<and> set (enum A) = A"
    and d: "d = diff_chunks enum new old" and db1: "db1 = delete_batch db (chunk_ids (deleted d))"
  shows "\<exists>cur. read (fst (insert_batch db1 (added d))) f = Inr cur
    \<and> mset cur = mset (unchanged d) + mset (map2 stored_form (snd (insert_batch db1 (added d))) (added d))
    \<and> code_key ` set cur = code_key ` set new"
proof -
  note fields = diff_fields [OF enum, of new old, folded d]
  have a: "set (added d) = {c \<in> set new. code_key c \<notin> code_key ` set old}"
    using arg_cong [OF fields(3), of set_mset] by (simp only: set_mset_mset set_filter)
  have u: "set (unchanged d) = {c \<in> set old. code_key c \<in> code_key ` set new}"
    using arg_cong [OF fields(1), of set_mset] by (simp only: set_mset_mset set_filter)
  obtain kept where kept: "read db1 f = Inr kept" "mset kept = mset (unchanged d)"
    using delete_deleted [OF ok old enum, of new] unfolding db1 d by blast
  have ok1: "ok db1" unfolding db1 by (rule delete_ok [OF ok])
  have ad: "\<forall>c\<in>set (added d). chunk_ok c \<and> c_file_id c = f \<and> file_known db1 f"
    using new known a by (simp add: db1 delete_known)
  obtain cur where cur: "read (fst (insert_batch db1 (added d))) f = Inr cur"
    "mset cur = mset (unchanged d) + mset (map2 stored_form (snd (insert_batch db1 (added d))) (added d))"
    using insert_read [OF ok1 ad kept(1)] unfolding kept(2) by auto
  have "set cur = set (unchanged d) \<union> set (map2 stored_form (snd (insert_batch db1 (added d))) (added d))"
    using arg_cong [OF cur(2), of set_mset] by (simp only: set_mset_mset set_mset_union)
  then have "code_key ` set cur = code_key ` (set (unchanged d) \<union> set (added d))"
    using code_keys_stored [OF insert_length] by (simp only: image_Un)
  also have "\<dots> = code_key ` set new" unfolding u a by (rule image_kept_or_new)
  finally show ?thesis using cur by blast
qed

end

subsection \<open>Storing one file\<close>

definition enum_ok :: "(string set \<Rightarrow> string list) \<Rightarrow> bool" where
  "enum_ok enum \<longleftrightarrow> (\<forall>A. finite A \<longrightarrow> distinct (enum A) \<and> set (enum A) = A)"

lemma enum_okD: "enum_ok enum \<Longrightarrow> finite A \<Longrightarrow> distinct (enum A) \<and> set (enum A) = A"
  by (simp add: enum_ok_def)

lemma yields_mk_chunk_file: "c_file_id c = i \<Longrightarrow> yields (\<lambda>c. chunk_ok c \<and> c_file_id c = i) (mk_chunk c)"
  unfolding yields_def using mk_chunk_ok
  by (auto simp: mk_chunk_def Let_def split: if_splits option.splits)

lemma chunk_from_dict_file:
  assumes "get_v d ''file_id'' = Py (PyInt i)"
  shows "yields (\<lambda>c. chunk_ok c \<and> c_file_id c = i) (chunk_from_dict fromiso d)"
  unfolding chunk_from_dict_def Let_def assms as_int.simps bind_result_simps
  by (intro yields_data_error yields_if yields_bind yields_Inl yields_mk_chunk_file) simp

lemma file_models_ok:
  assumes "file_models env i ds = Inr new"
  shows "\<forall>c\<in>set new. chunk_ok c \<and> c_file_id c = i"
proof -
  have "get_v (dict_set ''file_id'' (Py (PyInt i)) d) ''file_id'' = Py (PyInt i)" for d by (simp add: get_v_def)
  then have "yields (\<lambda>c. chunk_ok c \<and> c_file_id c = i) (chunk_from_dict (env_fromiso env) (dict_set ''file_id'' (Py (PyInt i)) d))" for d
    by (rule chunk_from_dict_file)
  then show ?thesis
    using map_result_nth [OF assms [unfolded file_models_def]]
    by (auto simp: yields_def list_all2_conv_all_nth set_conv_nth)
qed

lemma store_file_record_ok:
  assumes ok: "db_ok db" and st: "store_file_record env db p sz mt l h = Inr (db1, i, ex)"
  shows "db_ok db1 \<and> has_file db1 i \<and> t_chunks (db_tables db1) = t_chunks (db_tables db)
    \<and> t_embeddings (db_tables db1) = t_embeddings (db_tables db) \<and> transaction db1 = transaction db
    \<and> (ex \<or> file_rows db i = [])"
proof -
  obtain rp where rp: "env_rel env p = Inr rp" using st by (auto simp: store_file_record_def bind_result_eq_Inr_iff)
  show ?thesis
  proof (cases "get_file_by_path db rp")
    case (Some r)
    then have "db1 = update_file db (fr_id r) (Some sz) (Some mt) h" "i = fr_id r" "ex"
      using st rp by (auto simp: store_file_record_def)
    with find_file [OF ok Some] update_file_ok [OF ok] show ?thesis
      by (simp add: has_file_def update_file_frame)
  next
    case None
    then obtain f where m: "mk_file \<lparr>f_path = rp, f_mtime = mt, f_language = l, f_size_bytes = sz, f_id = None,
          f_content_hash = h, f_created_at = None, f_updated_at = None\<rparr> = Inr f"
        "(let (db', i) = insert_file db f in Inr (db', i, False)) = (Inr (db1, i, ex) :: (database \<times> int \<times> bool) result)"
      using st rp by (auto simp: store_file_record_def bind_result_eq_Inr_iff)
    have f: "insert_file db f = (db1, i)" using m(2) by (cases "insert_file db f") simp
    have "f_path f = rp" using m(1) by (auto simp: mk_file_def split: if_splits)
    with f have "i = files_id_seq db" using None by (auto simp: insert_file_def Let_def)
    then have "file_rows db i = []"
      using db_ok_tables [OF ok] by (force simp: tables_ok_def file_rows_def filter_empty_conv)
    with insert_file_ok [OF ok f] show ?thesis by simp
  qed
qed

text \<open>The rows that a deletion or an insertion for one file leaves to the others.\<close>

lemma delete_other_file:
  assumes ok: "db_ok db" and old: "get_chunks_by_file_id db f = Inr old" and "set cs \<subseteq> set old" "g \<noteq> f"
  shows "file_rows (delete_chunks_batch db (chunk_ids cs)) g = file_rows db g"
proof -
  have "r_id r \<notin> set (chunk_ids cs)" if r: "r \<in> set (file_rows db g)" for r
  proof
    assume "r_id r \<in> set (chunk_ids cs)"
    then have "Some (r_id r) \<in> c_id ` set old" using chunk_ids_set [of cs] assms(3) by blast
    then obtain q where q: "q \<in> set (file_rows db f)" "Some (r_id r) = c_id (the_chunk q)"
      using old get_chunks_eq [OF ok, of f] by auto
    then have "r_id q = r_id r" using the_chunk_fields(2) file_rows_ok(1) [OF ok q(1)] by simp
    moreover have "inj_on r_id (set (t_chunks (db_tables db)))"
      using db_ok_tables [OF ok] by (simp add: tables_ok_def distinct_map)
    ultimately show False using q(1) r assms(4) by (auto simp: file_rows_def dest: inj_onD)
  qed
  then show ?thesis unfolding file_rows_delete by (intro filter_True) blast
qed

lemma insert_other_file:
  "\<forall>c\<in>set cs. c_file_id c = f \<Longrightarrow> g \<noteq> f \<Longrightarrow> file_rows (fst (insert_chunks_batch db cs)) g = file_rows db g"
  using file_rows_insert [of cs f db g] by simp

lemma transaction_frame:
  "transaction (delete_chunks_batch db ids) = transaction db"
  "transaction (fst (insert_chunks_batch db cs)) = transaction db"
  by (simp_all add: delete_chunks_batch_def delete_embeddings_for_chunk_ids_def insert_chunks_batch_def Let_def)

lemma insert_nothing: "insert_chunks_batch db [] = (db, [])"
  by (simp add: insert_chunks_batch_def)

lemma delete_nothing: "delete_chunks_batch db [] = db"
  by (simp add: delete_chunks_batch_def)

text \<open>
  \<open>store_chunks\<close> as one equation: with no stored chunk the diff adds all new chunks.
\<close>

lemma diff_nothing:
  assumes "enum_ok enum"
  shows "deleted (diff_chunks enum new []) = []" "modified (diff_chunks enum new old) = []"
    and "mset (added (diff_chunks enum new [])) = mset new"
  using diff_fields [of enum new "[]"] diff_fields(4) [of enum new old] enum_okD [OF assms] by simp_all

text \<open>
  What storing a file promises about the tables: the rows of other files are untouched; when
  no new chunk is oversized, the stored contents of the file are the new contents; and a stored
  row whose content is still there survives with its id and its embeddings.
\<close>

definition file_updated :: "database \<Rightarrow> database \<Rightarrow> int \<Rightarrow> chunk list \<Rightarrow> bool" where
  "file_updated db db' i new \<longleftrightarrow>
     (\<forall>g. g \<noteq> i \<longrightarrow> file_rows db' g = file_rows db g)
     \<and> (list_all (\<lambda>c. fits default_cast_config (c_code c)) new \<longrightarrow>
          (\<exists>cur. get_chunks_by_file_id db' i = Inr cur \<and> code_key ` set cur = code_key ` set new))
     \<and> (\<forall>r\<in>set (file_rows db i). normalize_content (r_code r) \<in> code_key ` set new \<longrightarrow>
          r \<in> set (file_rows db' i) \<and>
          (\<forall>e\<in>set (t_embeddings (db_tables db)). fst e = r_id r \<longrightarrow> e \<in> set (t_embeddings (db_tables db'))))"

lemma insert_frame:
  "t_embeddings (db_tables (fst (insert_chunks_batch db cs))) = t_embeddings (db_tables db)"
  "r \<in> set (t_chunks (db_tables db)) \<Longrightarrow> r \<in> set (t_chunks (db_tables (fst (insert_chunks_batch db cs))))"
  by (simp_all add: insert_chunks_batch_def Let_def)

lemma delete_frame:
  "r \<in> set (t_chunks (db_tables db)) \<Longrightarrow> r_id r \<notin> set ids \<Longrightarrow> r \<in> set (t_chunks (db_tables (delete_chunks_batch db ids)))"
  "e \<in> set (t_embeddings (db_tables db)) \<Longrightarrow> fst e \<notin> set ids \<Longrightarrow> e \<in> set (t_embeddings (db_tables (delete_chunks_batch db ids)))"
  by (simp_all add: delete_chunks_batch_def delete_embeddings_for_chunk_ids_def Let_def)

lemma kept_row_not_deleted:
  assumes ok: "db_ok db" and enum: "enum_ok enum" and old: "get_chunks_by_file_id db i = Inr old"
    and r: "r \<in> set (file_rows db i)" "normalize_content (r_code r) \<in> code_key ` set new"
  shows "r_id r \<notin> set (chunk_ids (deleted (diff_chunks enum new old)))"
proof
  let ?d = "diff_chunks enum new old"
  assume "r_id r \<in> set (chunk_ids (deleted ?d))"
  then obtain c where c: "c \<in> set (deleted ?d)" "c_id c = Some (r_id r)" using chunk_ids_set [of "deleted ?d"] by force
  have "set (deleted ?d) = {c \<in> set old. code_key c \<notin> code_key ` set new}"
    using arg_cong [OF diff_fields(2) [of enum new old], of set_mset] enum_okD [OF enum] by (simp only: set_mset_mset set_filter)
  with c(1) have "c \<in> set old" "code_key c \<notin> code_key ` set new" by auto
  then obtain q where q: "q \<in> set (file_rows db i)" "c = the_chunk q" using old get_chunks_eq [OF ok, of i] by auto
  have "r_id q = r_id r" using c(2) q the_chunk_fields(2) file_rows_ok(1) [OF ok q(1)] by simp
  moreover have "inj_on r_id (set (t_chunks (db_tables db)))"
    using db_ok_tables [OF ok] by (simp add: tables_ok_def distinct_map)
  ultimately have "q = r" using q(1) r(1) by (auto simp: file_rows_def dest: inj_onD)
  then show False
    using \<open>code_key c \<notin> code_key ` set new\<close> r(2) q the_chunk_fields(4) file_rows_ok(1) [OF ok q(1)] by simp
qed

lemma store_new_chunks:
  assumes ok: "db_ok db" and known: "has_file db i" and new: "\<forall>c\<in>set new. chunk_ok c \<and> c_file_id c = i"
    and none: "file_rows db i = []"
  shows "\<exists>v. validate_chunk_sizes default_cast_config new = Some (Inr v)
    \<and> db_ok (fst (insert_chunks_batch db v)) \<and> file_updated db (fst (insert_chunks_batch db v)) i new"
proof -
  have "list_all chunk_ok new" using new by (simp add: list_all_iff)
  from validate_chunk_sizes_correct [OF default_cfg_guard this] obtain v where
    v: "validate_chunk_sizes default_cast_config new = Some (Inr v)"
      "list_all (\<lambda>d. chunk_ok d \<and> fits default_cast_config (c_code d)) v" "c_file_id ` set v \<subseteq> c_file_id ` set new"
      "list_all (\<lambda>c. fits default_cast_config (c_code c)) new \<longrightarrow> v = new" by blast
  let ?db = "fst (insert_chunks_batch db v)"
  have vi: "\<forall>c\<in>set v. chunk_ok c \<and> c_file_id c = i \<and> has_file db i"
    using v(2,3) new known by (auto simp: list_all_iff)
  have "get_chunks_by_file_id db i = Inr []" using get_chunks_eq [OF ok, of i] none by simp
  from cr.insert_read [OF ok vi this] obtain cur where cur: "get_chunks_by_file_id ?db i = Inr cur"
    "mset cur = mset (map2 stored_form (snd (insert_chunks_batch db v)) v)" by auto
  have "code_key ` set cur = code_key ` set v"
    using arg_cong [OF cur(2), of set_mset] code_keys_stored [OF cr.insert_length] by (simp only: set_mset_mset)
  moreover have "file_rows ?db g = file_rows db g" if "g \<noteq> i" for g
    using vi that by (intro insert_other_file) auto
  ultimately have "file_updated db ?db i new" using v(4) cur(1) none by (auto simp: file_updated_def)
  moreover have "db_ok ?db" using vi by (intro insert_chunks_ok [OF ok]) auto
  ultimately show ?thesis using v(1) by blast
qed

lemma store_changed_chunks:
  assumes ok: "db_ok db" and known: "has_file db i" and new: "\<forall>c\<in>set new. chunk_ok c \<and> c_file_id c = i"
    and enum: "enum_ok enum" and old: "get_chunks_by_file_id db i = Inr old"
    and d: "d = diff_chunks enum new old" and db1: "db1 = delete_chunks_batch db (chunk_ids (deleted d))"
  shows "\<exists>v. validate_chunk_sizes default_cast_config (added d) = Some (Inr v)
    \<and> db_ok (fst (insert_chunks_batch db1 v)) \<and> file_updated db (fst (insert_chunks_batch db1 v)) i new"
proof -
  note fields = diff_fields [of enum new old, OF enum_okD [OF enum], folded d]
  have a: "set (added d) \<subseteq> set new" using arg_cong [OF fields(3), of set_mset] by auto
  then have "list_all chunk_ok (added d)" using new by (auto simp: list_all_iff)
  from validate_chunk_sizes_correct [OF default_cfg_guard this] obtain v where
    v: "validate_chunk_sizes default_cast_config (added d) = Some (Inr v)"
      "list_all (\<lambda>d. chunk_ok d \<and> fits default_cast_config (c_code d)) v" "c_file_id ` set v \<subseteq> c_file_id ` set (added d)"
      "list_all (\<lambda>c. fits default_cast_config (c_code c)) (added d) \<longrightarrow> v = added d" by blast
  let ?db = "fst (insert_chunks_batch db1 v)"
  have ok1: "db_ok db1" "has_file db1 i" using cr.delete_ok [OF ok] known by (simp_all add: db1 cr.delete_known)
  have vi: "\<forall>c\<in>set v. chunk_ok c \<and> c_file_id c = i" using v(2,3) new a by (fastforce simp: list_all_iff)
  have del: "set (deleted d) \<subseteq> set old" using arg_cong [OF fields(2), of set_mset] by auto
  have "file_rows ?db g = file_rows db g" if "g \<noteq> i" for g
    using insert_other_file [of v i g db1] vi that delete_other_file [OF ok old del that] by (simp add: db1)
  moreover have "\<exists>cur. get_chunks_by_file_id ?db i = Inr cur \<and> code_key ` set cur = code_key ` set new"
    if "list_all (\<lambda>c. fits default_cast_config (c_code c)) new"
  proof -
    have "v = added d" using v(4) that a by (auto simp: list_all_iff)
    with cr.smart_update [OF ok old new known enum_okD [OF enum] d db1] show ?thesis by blast
  qed
  moreover have "r \<in> set (file_rows ?db i) \<and>
      (\<forall>e\<in>set (t_embeddings (db_tables db)). fst e = r_id r \<longrightarrow> e \<in> set (t_embeddings (db_tables ?db)))"
    if "r \<in> set (file_rows db i)" "normalize_content (r_code r) \<in> code_key ` set new" for r
    using kept_row_not_deleted [OF ok enum old that] that(1) unfolding db1 d
    by (auto simp: file_rows_def insert_frame(1) intro!: insert_frame(2) delete_frame)
  ultimately have "file_updated db ?db i new" unfolding file_updated_def by blast
  moreover have "db_ok ?db" using vi ok1 by (intro insert_chunks_ok) auto
  ultimately show ?thesis using v(1) by blast
qed

lemma store_chunks_correct:
  assumes ok: "db_ok db" and known: "has_file db i" and enum: "enum_ok (env_enum env)"
    and ex: "ex \<or> file_rows db i = []"
  shows "\<exists>db' res. store_chunks env db i ex ds = Some (db', res) \<and> db_ok db' \<and> transaction db' = transaction db
    \<and> (case res of Inl e \<Rightarrow> file_models env i ds = Inl e
       | Inr ids \<Rightarrow> \<exists>new. file_models env i ds = Inr new \<and> file_updated db db' i new)"
proof (cases "file_models env i ds")
  case (Inl e)
  with ok show ?thesis by (simp add: store_chunks_def)
next
  case (Inr new)
  have new: "\<forall>c\<in>set new. chunk_ok c \<and> c_file_id c = i" using Inr by (rule file_models_ok)
  obtain old where old: "get_chunks_by_file_id db i = Inr old" using cr.read_total [OF ok] by blast
  have exold: "(if ex then get_chunks_by_file_id db i else Inr []) = Inr old"
    using old ex get_chunks_eq [OF ok, of i] by auto
  show ?thesis
  proof (cases "old = []")
    case True
    then have "file_rows db i = []" using old get_chunks_eq [OF ok, of i] by (auto dest: arg_cong [where f = length])
    from store_new_chunks [OF ok known new this] obtain v where
      v: "validate_chunk_sizes default_cast_config new = Some (Inr v)" "db_ok (fst (insert_chunks_batch db v))"
        "file_updated db (fst (insert_chunks_batch db v)) i new" by blast
    have "store_chunks env db i ex ds = Some (fst (insert_chunks_batch db v), Inr (snd (insert_chunks_batch db v)))"
      using Inr exold True v(1) by (simp add: store_chunks_def case_prod_beta)
    then show ?thesis using v(2,3) Inr by (auto simp: transaction_frame)
  next
    case False
    define d where d: "d = diff_chunks (env_enum env) new old"
    define db1 where db1: "db1 = delete_chunks_batch db (chunk_ids (deleted d))"
    have md: "modified d = []" unfolding d by (rule diff_nothing(2) [OF enum])
    from store_changed_chunks [OF ok known new enum old d db1] obtain v where
      v: "validate_chunk_sizes default_cast_config (added d) = Some (Inr v)" "db_ok (fst (insert_chunks_batch db1 v))"
        "file_updated db (fst (insert_chunks_batch db1 v)) i new" by blast
    have "store_chunks env db i ex ds = Some (fst (insert_chunks_batch db1 v), Inr (snd (insert_chunks_batch db1 v)))"
      using Inr exold False v(1) md by (auto simp: store_chunks_def d [symmetric] Let_def db1 delete_nothing insert_nothing case_prod_beta)
    then show ?thesis using v(2,3) Inr by (auto simp: transaction_frame db1)
  qed
qed

lemma store_file_correct:
  assumes ok: "db_ok db" and enum: "enum_ok (env_enum env)"
  shows "\<exists>db' fid res. store_file env db r = Some (db', fid, res) \<and> db_ok db' \<and> transaction db' = None
    \<and> (case res of Inl e \<Rightarrow> db_tables db' = db_tables db
       | Inr ids \<Rightarrow> \<exists>i new. fid = Some i \<and> file_models env i (pf_chunks r) = Inr new \<and> file_updated db db' i new)"
proof -
  let ?db0 = "begin_transaction db"
  have ok0: "db_ok ?db0" "transaction ?db0 = Some (db_tables db)"
    using begin_ok [OF ok] by (simp_all add: begin_transaction_def)
  show ?thesis
  proof (cases "store_file_record env ?db0 (pf_file_path r) (pf_file_size r) (pf_file_mtime r) (pf_language r) (pf_content_hash r)")
    case (Inl e)
    with ok0 rollback_ok [OF ok0(1)] show ?thesis by (simp add: store_file_def Let_def rollback_transaction_def)
  next
    case (Inr x)
    then obtain db1 i ex where x: "x = (db1, i, ex)" by (cases x)
    note sr = store_file_record_ok [OF ok0(1) Inr [unfolded x]]
    have rows: "file_rows db1 g = file_rows db g" for g using sr by (simp add: file_rows_def begin_transaction_def)
    have exr: "ex \<or> file_rows db1 i = []" using sr by (auto simp: file_rows_def)
    obtain db2 res where res: "store_chunks env db1 i ex (pf_chunks r) = Some (db2, res)" "db_ok db2"
      "transaction db2 = Some (db_tables db)"
      "case res of Inl e \<Rightarrow> file_models env i (pf_chunks r) = Inl e
       | Inr ids \<Rightarrow> \<exists>new. file_models env i (pf_chunks r) = Inr new \<and> file_updated db1 db2 i new"
      using store_chunks_correct [OF _ _ enum exr, of "pf_chunks r"] sr ok0(2) by auto
    have upd: "file_updated db (commit_transaction db2) i new" if "file_updated db1 db2 i new" for new
      using that sr rows by (simp add: file_updated_def file_rows_def get_chunks_by_file_id_def commit_transaction_def begin_transaction_def)
    show ?thesis
    proof (cases res)
      case (Inl e)
      with Inr x res rollback_ok [OF res(2)] show ?thesis
        by (simp add: store_file_def Let_def rollback_transaction_def)
    next
      case inr: (Inr ids)
      with Inr x res commit_ok [OF res(2)] upd show ?thesis
        by (auto simp: store_file_def Let_def) (simp_all add: commit_transaction_def)
    qed
  qed
qed


definition sample_env :: index_env where
  "sample_env = \<lparr>env_rel = Inr, env_fromiso = py_int_of_str, env_enum = sorted_enum\<rparr>"

definition sample_result :: parsed_file_result where
  "sample_result = \<lparr>pf_file_path = ''a.py'', pf_chunks = [chunk_to_dict str_int sample_chunk], pf_language = L_PYTHON,
     pf_file_size = 1, pf_file_mtime = 0, pf_status = ''success'', pf_error = None, pf_content_hash = None\<rparr>"

lemma sample_env_ok: "enum_ok (env_enum sample_env)"
  by (simp add: enum_ok_def sample_env_def sorted_enum_def)


subsection \<open>Storing a batch\<close>

lemma store_skipped_ok:
  "db_ok db \<Longrightarrow> transaction db = None \<Longrightarrow>
     db_ok (fst (store_skipped env db st r)) \<and> transaction (fst (store_skipped env db st r)) = None
     \<and> t_chunks (db_tables (fst (store_skipped env db st r))) = t_chunks (db_tables db)"
  using record_skipped_file_ok
  by (simp add: store_skipped_def Let_def split: sum.split) (simp add: record_skipped_file_def Let_def)

text \<open>The statistics a batch returns: one entry per file and the ids counted.\<close>

definition stats_count :: "store_stats \<Rightarrow> int" where
  "stats_count st = total_files st + int (length (errors st))"

lemma store_results_ok:
  assumes "db_ok db" "transaction db = None" "enum_ok (env_enum env)"
    and "total_chunks st = int (length (chunk_ids_needing_embeddings st))"
  shows "\<exists>db' st' ids. store_results env db st fids rs = Some (db', st', ids) \<and> db_ok db' \<and> transaction db' = None
    \<and> total_chunks st' = int (length (chunk_ids_needing_embeddings st'))
    \<and> stats_count st' = stats_count st + int (length (filter (\<lambda>r. pf_status r \<noteq> ''skipped'') rs))"
  using assms(1,2,4)
proof (induction rs arbitrary: db st fids)
  case (Cons r rs)
  consider "pf_status r = ''error''" | "pf_status r = ''skipped''"
    | "pf_status r \<noteq> ''error''" "pf_status r \<noteq> ''skipped''" by blast
  then show ?case
  proof cases
    case 1
    with Cons.IH [OF Cons.prems(1,2), of "st\<lparr>errors := errors st @ [(pf_file_path r, ParseError (pf_error r))]\<rparr>" fids]
      Cons.prems(3) show ?thesis by (simp add: stats_count_def ac_simps)
  next
    case 2
    obtain db1 st1 where s: "store_skipped env db st r = (db1, st1)" by fastforce
    have "total_chunks st1 = int (length (chunk_ids_needing_embeddings st1))" "stats_count st1 = stats_count st"
      using s Cons.prems(3) by (auto simp: store_skipped_def Let_def stats_count_def split: sum.splits if_splits)
    with 2 s store_skipped_ok [OF Cons.prems(1,2), of env st r] Cons.IH [of db1 st1 fids] show ?thesis by simp
  next
    case 3
    obtain db1 fid res where f: "store_file env db r = Some (db1, fid, res)" "db_ok db1" "transaction db1 = None"
      using store_file_correct [OF Cons.prems(1) assms(3), of r] by blast
    show ?thesis
    proof (cases res)
      case (Inl e)
      with 3 f Cons.prems(3) Cons.IH [OF f(2,3), of "st\<lparr>errors := errors st @ [(pf_file_path r, Raised e)]\<rparr>"
          "case fid of None \<Rightarrow> fids | Some i \<Rightarrow> fids @ [i]"] show ?thesis by (simp add: stats_count_def ac_simps)
    next
      case (Inr ids)
      with 3 f Cons.prems(3) Cons.IH [OF f(2,3), of "st\<lparr>chunk_ids_needing_embeddings := chunk_ids_needing_embeddings st @ ids,
                   total_chunks := total_chunks st + int (length ids), total_files := total_files st + 1\<rparr>"
          "case fid of None \<Rightarrow> fids | Some i \<Rightarrow> fids @ [i]"] show ?thesis by (simp add: stats_count_def ac_simps)
    qed
  qed
qed simp

lemma store_parsed_results_correct:
  assumes "db_ok db" "transaction db = None" "enum_ok (env_enum env)"
  shows "\<exists>db' st. store_parsed_results env disk db rs = Some (db', st) \<and> db_ok db' \<and> transaction db' = None
    \<and> total_chunks st = int (length (chunk_ids_needing_embeddings st))
    \<and> (if disk then st = empty_stats\<lparr>errors := [([], DiskLimit)]\<rparr> \<and> db' = db
       else total_files st + int (length (errors st)) = int (length (filter (\<lambda>r. pf_status r \<noteq> ''skipped'') rs)))"
proof (cases disk)
  case True
  with assms show ?thesis by (simp add: store_parsed_results_def empty_stats_def)
next
  case False
  obtain db' st' ids where "store_results env db empty_stats [] rs = Some (db', st', ids)" "db_ok db'" "transaction db' = None"
    "total_chunks st' = int (length (chunk_ids_needing_embeddings st'))"
    "stats_count st' = stats_count empty_stats + int (length (filter (\<lambda>r. pf_status r \<noteq> ''skipped'') rs))"
    using store_results_ok [OF assms, of empty_stats "[]" rs] by (auto simp: empty_stats_def)
  with False show ?thesis by (auto simp: store_parsed_results_def stats_count_def empty_stats_def)
qed



lemma remove_file_ok: "db_ok db \<Longrightarrow> db_ok (fst (remove_file env db p))"
  using delete_file_completely_ok
  by (auto simp: remove_file_def Let_def case_prod_beta split: sum.splits option.splits)

text \<open>
  The file id is recorded before the chunks are converted: a single file whose chunk is invalid
  is rolled back, yet the statistics still carry the id of the row that no longer exists.
\<close>

theorem failed_store_reports_file_id:
  "map_option (\<lambda>(db, st). (map fr_id (t_files (db_tables db)), stats_file_id st))
     (store_parsed_results sample_env False empty_database [sample_result\<lparr>pf_chunks := [[]]\<rparr>]) = Some ([], Some 1)"
  by code_simp

end
