(* ===== verification/Batching.thy ===== *)
theory Batching
  imports Text_Utils
begin

text \<open>
  Batching of texts for the embedding providers: \<open>_create_token_aware_batches\<close> of
  \<open>services/embedding_service.py\<close>, \<open>providers/embeddings/batch_utils.py\<close> and the pure helpers of
  \<open>providers/embeddings/shared_utils.py\<close>.

  The embedding API is the argument \<open>emb\<close>, a function from a list of texts to their vectors or
  an error; \<open>estimate_batch_tokens\<close> and \<open>chunk_text_by_tokens\<close> of a provider are arguments too.
\<close>

subsection \<open>Token-aware batches\<close>

record embedding_provider =
  ep_name :: string
  ep_model :: string
  ep_base_url :: "string option"
  ep_max_tokens :: int
  ep_max_documents :: int

definition MAX_CHUNKS_PER_BATCH :: int where "MAX_CHUNKS_PER_BATCH = 300"

type_synonym tokenizers = "(string \<Rightarrow> encoding option) \<times> encoding option"

text \<open>With an explicit provider \<open>estimate_tokens\<close> does not raise.\<close>

definition text_tokens :: "tokenizers \<Rightarrow> embedding_provider \<Rightarrow> string \<Rightarrow> int" where
  "text_tokens tk ep t =
     projr (estimate_tokens (fst tk) (snd tk) None t (Some (ep_name ep)) (Some (ep_model ep)) False (ep_base_url ep))"

definition safe_limit :: "embedding_provider \<Rightarrow> int" where
  "safe_limit ep = py_trunc (py_fmul (fl (4 / 5)) (ep_max_tokens ep))"

fun batch_loop ::
  "(string \<Rightarrow> int) \<Rightarrow> int \<Rightarrow> int \<Rightarrow> (int \<times> string) list \<Rightarrow> int \<Rightarrow> (int \<times> string) list \<Rightarrow> (int \<times> string) list list" where
  "batch_loop est safe max_documents current_batch current_tokens [] =
     (if current_batch \<noteq> [] then [current_batch] else [])"
| "batch_loop est safe max_documents current_batch current_tokens (x # xs) =
     (let n = est (snd x) in
      if (current_tokens + n > safe \<and> current_batch \<noteq> []) \<or> int (length current_batch) \<ge> max_documents
         \<or> int (length current_batch) \<ge> MAX_CHUNKS_PER_BATCH
      then current_batch # batch_loop est safe max_documents [x] n xs
      else batch_loop est safe max_documents (current_batch @ [x]) (current_tokens + n) xs)"

fun slices :: "nat \<Rightarrow> 'a list \<Rightarrow> 'a list list" where
  "slices k xs = (if xs = [] \<or> k = 0 then [] else take k xs # slices k (drop k xs))"

declare slices.simps [simp del]

definition create_token_aware_batches ::
  "tokenizers \<Rightarrow> embedding_provider option \<Rightarrow> (int \<times> string) list \<Rightarrow> (int \<times> string) list list" where
  "create_token_aware_batches tk provider chunk_data =
     (if chunk_data = [] then []
      else case provider of
        None \<Rightarrow> slices 20 chunk_data
      | Some ep \<Rightarrow> batch_loop (text_tokens tk ep) (safe_limit ep) (ep_max_documents ep) [] 0 chunk_data)"

lemma concat_slices: "0 < k \<Longrightarrow> concat (slices k xs) = xs"
proof (induction k xs rule: slices.induct)
  case (1 k xs)
  then show ?case by (cases "xs = []") (subst slices.simps, simp)+
qed

lemma slices_bounds: "b \<in> set (slices k xs) \<Longrightarrow> b \<noteq> [] \<and> length b \<le> k"
proof (induction k xs rule: slices.induct)
  case (1 k xs)
  then show ?case by (auto simp: slices.simps [of k xs] split: if_splits)
qed

definition cost :: "(string \<Rightarrow> int) \<Rightarrow> (int \<times> string) list \<Rightarrow> int" where
  "cost est b = sum_list (map (est \<circ> snd) b)"

lemma cost_append [simp]: "cost est (a @ b) = cost est a + cost est b"
  by (simp add: cost_def)

lemma cost_single [simp]: "cost est [x] = est (snd x)"
  by (simp add: cost_def)

lemma cost_Nil [simp]: "cost est [] = 0"
  by (simp add: cost_def)

lemma concat_batch_loop: "concat (batch_loop est safe md cur tok xs) = cur @ xs"
  by (induction est safe md cur tok xs rule: batch_loop.induct) (auto simp: Let_def)

text \<open>A batch within the limits, where only a single text may exceed the token limit alone.\<close>

definition batch_ok :: "(string \<Rightarrow> int) \<Rightarrow> int \<Rightarrow> int \<Rightarrow> (int \<times> string) list \<Rightarrow> bool" where
  "batch_ok est safe md b \<longleftrightarrow> b \<noteq> [] \<and> int (length b) \<le> md \<and> int (length b) \<le> MAX_CHUNKS_PER_BATCH
     \<and> (cost est b \<le> safe \<or> length b = 1)"

lemma batch_loop_ok:
  assumes "1 \<le> md" "cur \<noteq> [] \<Longrightarrow> batch_ok est safe md cur" "tok = cost est cur"
  shows "list_all (batch_ok est safe md) (batch_loop est safe md cur tok xs)"
  using assms
proof (induction est safe md cur tok xs rule: batch_loop.induct)
  case (2 est safe md cur tok x xs)
  let ?full = "(tok + est (snd x) > safe \<and> cur \<noteq> []) \<or> int (length cur) \<ge> md \<or> int (length cur) \<ge> MAX_CHUNKS_PER_BATCH"
  have one: "batch_ok est safe md [x]" using "2.prems"(1) by (simp add: batch_ok_def MAX_CHUNKS_PER_BATCH_def)
  show ?case
  proof (cases ?full)
    case True
    then have "cur \<noteq> []" using "2.prems"(1) by (auto simp: MAX_CHUNKS_PER_BATCH_def)
    with True "2.IH"(1) [OF refl True] "2.prems" one show ?thesis by (simp add: Let_def)
  next
    case False
    have "batch_ok est safe md (cur @ [x])"
      using False "2.prems" by (cases "cur = []") (auto simp: batch_ok_def MAX_CHUNKS_PER_BATCH_def)
    with False "2.IH"(2) [OF refl False] "2.prems" show ?thesis by (auto simp: Let_def)
  qed
qed auto

text \<open>
  C19: batching loses, repeats and reorders nothing: the batches concatenate to the chunks.  With a
  provider that accepts at least one document, every batch is non-empty, has at most the
  provider's number of documents and at most 300, and stays within the safe token limit unless
  it is a single text; without a provider every batch has at most 20 chunks.
\<close>

theorem token_aware_batches_correct:
  assumes "case provider of None \<Rightarrow> True | Some ep \<Rightarrow> 1 \<le> ep_max_documents ep"
  shows "concat (create_token_aware_batches tk provider chunk_data) = chunk_data
    \<and> list_all (\<lambda>b. case provider of
          None \<Rightarrow> b \<noteq> [] \<and> length b \<le> 20
        | Some ep \<Rightarrow> batch_ok (text_tokens tk ep) (safe_limit ep) (ep_max_documents ep) b)
      (create_token_aware_batches tk provider chunk_data)"
proof (cases provider)
  case None
  then show ?thesis
    using concat_slices [of 20 chunk_data] slices_bounds [of _ 20 chunk_data]
    by (auto simp: create_token_aware_batches_def list_all_iff)
next
  case (Some ep)
  then show ?thesis
    using assms batch_loop_ok [of "ep_max_documents ep" "[]" "text_tokens tk ep" "safe_limit ep" 0 chunk_data]
    by (simp add: create_token_aware_batches_def concat_batch_loop)
qed

definition sample_provider :: embedding_provider where
  "sample_provider = \<lparr>ep_name = ''voyageai'', ep_model = ''m'', ep_base_url = None, ep_max_tokens = 5, ep_max_documents = 2\<rparr>"

theorem token_aware_batches_correct_witness:
  "concat (create_token_aware_batches (\<lambda>_. None, None) (Some sample_provider) [(1, ''aaaaaa''), (2, ''bbbbbb''), (3, ''cc'')])
   = [(1, ''aaaaaa''), (2, ''bbbbbb''), (3, ''cc'')]"
  using token_aware_batches_correct [of "Some sample_provider" "(\<lambda>_. None, None)"]
  by (simp add: sample_provider_def)

subsection \<open>Even splits\<close>

definition calculate_optimal_batch_splits :: "int \<Rightarrow> int \<Rightarrow> int result" where
  "calculate_optimal_batch_splits total_tokens token_limit =
     (if token_limit = 0 then Inl ZeroDivisionError
      else Inr (max 2 ((total_tokens + token_limit - 1) div token_limit)))"

text \<open>The loop \<open>for i in range(num_splits)\<close>; \<open>i\<close> counts up and \<open>k\<close> iterations are left.\<close>

fun split_loop :: "nat \<Rightarrow> nat \<Rightarrow> nat \<Rightarrow> nat \<Rightarrow> 'a list \<Rightarrow> 'a list list" where
  "split_loop chunk_size remainder i 0 xs = []"
| "split_loop chunk_size remainder i (Suc k) xs =
     (let n = chunk_size + (if i < remainder then 1 else 0);
          part = take n xs; rest = split_loop chunk_size remainder (Suc i) k (drop n xs)
      in if part \<noteq> [] then part # rest else rest)"

definition split_texts_evenly :: "'a list \<Rightarrow> int \<Rightarrow> 'a list list" where
  "split_texts_evenly texts num_splits =
     (if num_splits \<le> 1 then [texts]
      else split_loop (length texts div nat num_splits) (length texts mod nat num_splits) 0 (nat num_splits) texts)"

lemma split_loop_concat:
  "length xs = chunk_size * k + (remainder - i) \<Longrightarrow> remainder - i \<le> k \<Longrightarrow>
     concat (split_loop chunk_size remainder i k xs) = xs"
proof (induction k arbitrary: i xs)
  case (Suc k)
  let ?n = "chunk_size + (if i < remainder then 1 else 0)"
  have "concat (split_loop chunk_size remainder (Suc i) k (drop ?n xs)) = drop ?n xs"
    using Suc.prems by (intro Suc.IH) (auto split: if_splits)
  then show ?case by (auto simp: Let_def take_eq_Nil)
qed simp

lemma split_loop_sizes:
  "length xs = chunk_size * k + (remainder - i) \<Longrightarrow> remainder - i \<le> k \<Longrightarrow>
     b \<in> set (split_loop chunk_size remainder i k xs) \<Longrightarrow> b \<noteq> [] \<and> chunk_size \<le> length b \<and> length b \<le> Suc chunk_size"
proof (induction k arbitrary: i xs)
  case (Suc k)
  let ?n = "chunk_size + (if i < remainder then 1 else 0)"
  have "length (drop ?n xs) = chunk_size * k + (remainder - Suc i)" "remainder - Suc i \<le> k"
    using Suc.prems by (auto split: if_splits)
  from Suc.IH [OF this] Suc.prems show ?case by (auto simp: Let_def split: if_splits)
qed simp

lemma length_split_loop: "length (split_loop c r i k xs) \<le> k"
  by (induction k arbitrary: i xs) (auto simp: Let_def le_SucI)

text \<open>
  splitting evenly into \<open>n\<close> parts keeps all texts in order, in at most \<open>n\<close> non-empty parts whose
  sizes differ by at most one.
\<close>

theorem split_texts_evenly_correct:
  assumes "1 < n"
  shows "concat (split_texts_evenly xs n) = xs \<and> int (length (split_texts_evenly xs n)) \<le> n
    \<and> list_all (\<lambda>b. b \<noteq> [] \<and> length xs div nat n \<le> length b \<and> length b \<le> Suc (length xs div nat n)) (split_texts_evenly xs n)"
proof -
  have *: "length xs = length xs div nat n * nat n + (length xs mod nat n - 0)" "length xs mod nat n - 0 \<le> nat n"
    using assms by (simp_all add: less_imp_le)
  show ?thesis
    using assms split_loop_concat [OF *] split_loop_sizes [OF *]
      length_split_loop [of "length xs div nat n" "length xs mod nat n" 0 "nat n" xs]
    by (auto simp: split_texts_evenly_def list_all_iff)
qed

theorem split_texts_evenly_correct_witness:
  "concat (split_texts_evenly [1, 2, 3, 4, 5 :: nat] 3) = [1, 2, 3, 4, 5]"
  using split_texts_evenly_correct [of 3 "[1, 2, 3, 4, 5 :: nat]"] by simp

subsection \<open>Token-limit errors\<close>

fun embed_parts :: "('t list \<Rightarrow> 'v list result) \<Rightarrow> 't list list \<Rightarrow> 'v list result" where
  "embed_parts emb [] = Inr []"
| "embed_parts emb (b # bs) =
     bind_result (emb b) (\<lambda>vs. bind_result (embed_parts emb bs) (\<lambda>ws. Inr (vs @ ws)))"

definition handle_token_limit_error ::
  "string list \<Rightarrow> int \<Rightarrow> int \<Rightarrow> (string list \<Rightarrow> 'v list result) \<Rightarrow> (string \<Rightarrow> int \<Rightarrow> string list) \<Rightarrow> bool \<Rightarrow> 'v list result" where
  "handle_token_limit_error texts total_tokens token_limit emb chunk_text single_text_fallback =
     (if length texts > 1
      then bind_result (calculate_optimal_batch_splits total_tokens token_limit) (\<lambda>num_splits.
             embed_parts emb
               (split_loop (length texts div nat num_splits) (length texts mod nat num_splits) 0 (nat num_splits) texts))
      else if texts = [] then Inl IndexError
      else
        (let chunks = chunk_text (hd texts) token_limit
         in if length chunks = 1 then Inl ValueError
            else if single_text_fallback then (if chunks = [] then Inl IndexError else emb [hd chunks])
            else emb chunks))"

definition with_token_limit_handling ::
  "(pyerror \<Rightarrow> bool) \<Rightarrow> int \<Rightarrow> bool \<Rightarrow> (string list \<Rightarrow> int) \<Rightarrow> int \<Rightarrow> (string \<Rightarrow> int \<Rightarrow> string list) \<Rightarrow>
     (string list \<Rightarrow> 'v list result) \<Rightarrow> string list \<Rightarrow> 'v list result" where
  "with_token_limit_handling error_check safety_margin single_text_fallback estimate_batch_tokens
       model_token_limit chunk_text emb texts =
     (case emb texts of
        Inr vs \<Rightarrow> Inr vs
      | Inl e \<Rightarrow>
          if error_check e
          then handle_token_limit_error texts (estimate_batch_tokens texts) (model_token_limit - safety_margin) emb
                 chunk_text single_text_fallback
          else Inl e)"

definition anthropic_token_limit_check :: "string \<Rightarrow> bool" where
  "anthropic_token_limit_check error_text =
     (let m = py_lower error_text in str_contains m ''token limit'' \<or> str_contains m ''context length'')"

definition generic_token_limit_check :: "string \<Rightarrow> bool" where
  "generic_token_limit_check error_text =
     (let m = py_lower error_text
      in list_ex (str_contains m) [''token limit'', ''context length'', ''maximum tokens'', ''too many tokens''])"

lemma embed_parts_map:
  assumes "\<And>b vs. b \<in> set bs \<Longrightarrow> emb b = Inr vs \<Longrightarrow> list_all2 R b vs" "embed_parts emb bs = Inr ws"
  shows "list_all2 R (concat bs) ws"
  using assms
proof (induction bs arbitrary: ws)
  case (Cons b bs)
  then obtain vs us where "emb b = Inr vs" "embed_parts emb bs = Inr us" "ws = vs @ us"
    by (auto simp: bind_result_eq_Inr_iff)
  with Cons show ?case by (auto intro!: list_all2_appendI)
qed simp

text \<open>
  the recovery from a token-limit error keeps texts and vectors aligned.  If each vector the
  API returns belongs to the text at its position (\<open>R t v\<close>), then for a batch of several texts
  the vectors returned after the retry belong to the texts at their positions: as many, in the
  same order; and an error that is not a token-limit error is passed on unchanged.
\<close>

theorem token_limit_recovery_aligned:
  assumes emb: "\<And>b vs. emb b = Inr vs \<Longrightarrow> list_all2 R b vs" and several: "1 < length texts"
  shows "(\<forall>vs. with_token_limit_handling check margin fb est limit chunk emb texts = Inr vs \<longrightarrow> list_all2 R texts vs)
    \<and> (\<forall>e. emb texts = Inl e \<longrightarrow> \<not> check e \<longrightarrow>
         with_token_limit_handling check margin fb est limit chunk emb texts = Inl e)"
proof (intro conjI allI impI)
  fix vs assume r: "with_token_limit_handling check margin fb est limit chunk emb texts = Inr vs"
  show "list_all2 R texts vs"
  proof (cases "emb texts")
    case (Inr ws)
    with r emb show ?thesis by (auto simp: with_token_limit_handling_def)
  next
    case (Inl e)
    with r have "handle_token_limit_error texts (est texts) (limit - margin) emb chunk fb = Inr vs"
      by (auto simp: with_token_limit_handling_def split: if_splits)
    with several obtain n where n: "calculate_optimal_batch_splits (est texts) (limit - margin) = Inr n"
      "embed_parts emb (split_loop (length texts div nat n) (length texts mod nat n) 0 (nat n) texts) = Inr vs"
      by (auto simp: handle_token_limit_error_def bind_result_eq_Inr_iff)
    have "2 \<le> n" using n(1) by (auto simp: calculate_optimal_batch_splits_def split: if_splits)
    then have *: "length texts = length texts div nat n * nat n + (length texts mod nat n - 0)" "length texts mod nat n - 0 \<le> nat n"
      by (simp_all add: less_imp_le)
    show ?thesis using embed_parts_map [OF emb n(2)] split_loop_concat [OF *] by simp
  qed
qed (simp add: with_token_limit_handling_def)

definition limited_embed :: "string list \<Rightarrow> string list result" where
  "limited_embed b = (if length b > 2 then Inl ValueError else Inr b)"

definition recovered :: "string list result" where
  "recovered = with_token_limit_handling (\<lambda>_. True) 100 True (\<lambda>b. 40) 110 (\<lambda>t n. [t]) limited_embed
     [''a'', ''b'', ''c'', ''d'', ''e'']"

theorem token_limit_recovery_aligned_witness:
  "\<exists>vs. recovered = Inr vs \<and> list_all2 (=) [''a'', ''b'', ''c'', ''d'', ''e''] vs"
proof -
  have "recovered = Inr [''a'', ''b'', ''c'', ''d'', ''e'']" by code_simp
  moreover have "limited_embed b = Inr vs \<Longrightarrow> list_all2 (=) b vs" for b vs
    by (auto simp: limited_embed_def list.rel_eq split: if_splits)
  ultimately show ?thesis
    using token_limit_recovery_aligned [of limited_embed "(=)" "[''a'', ''b'', ''c'', ''d'', ''e'']"]
    unfolding recovered_def by fastforce
qed

subsection \<open>Splitting a text by words\<close>

text \<open>\<open>text.split()\<close>: the maximal runs of non-white-space characters.\<close>

function py_words :: "string \<Rightarrow> string list" where
  "py_words s =
     (let t = py_lstrip s
      in if t = [] then [] else takeWhile (\<lambda>c. \<not> py_space c) t # py_words (dropWhile (\<lambda>c. \<not> py_space c) t))"
  by pat_completeness auto
termination
proof (relation "measure length")
  fix s :: string and t assume t: "t = py_lstrip s" "t \<noteq> []"
  then have "\<not> py_space (hd t)" unfolding py_lstrip_def using hd_dropWhile by blast
  then have "length (dropWhile (\<lambda>c. \<not> py_space c) t) < length t"
    using t(2) by (cases t) (simp_all add: le_imp_less_Suc length_dropWhile_le)
  also have "length t \<le> length s" using t(1) length_py_lstrip by simp
  finally show "(dropWhile (\<lambda>c. \<not> py_space c) t, s) \<in> measure length" by simp
qed simp

declare py_words.simps [simp del]

definition word_tokens :: "string \<Rightarrow> int" where
  "word_tokens w = int (length w) div LLM_CHARS_PER_TOKEN + 1"

fun words_loop :: "int \<Rightarrow> string list \<Rightarrow> int \<Rightarrow> string list \<Rightarrow> string list" where
  "words_loop max_tokens cur tok [] = (if cur \<noteq> [] then [join_with '' '' cur] else [])"
| "words_loop max_tokens cur tok (w # ws) =
     (if tok + word_tokens w > max_tokens \<and> cur \<noteq> []
      then join_with '' '' cur # words_loop max_tokens [w] (word_tokens w) ws
      else words_loop max_tokens (cur @ [w]) (tok + word_tokens w) ws)"

definition chunk_text_by_words :: "string \<Rightarrow> int \<Rightarrow> string list" where
  "chunk_text_by_words t max_tokens = words_loop max_tokens [] 0 (py_words t)"

definition word_ok :: "string \<Rightarrow> bool" where
  "word_ok w \<longleftrightarrow> w \<noteq> [] \<and> (\<forall>c\<in>set w. \<not> py_space c)"

lemma py_words_ok: "list_all word_ok (py_words s)"
proof (induction s rule: py_words.induct)
  case (1 s)
  let ?t = "py_lstrip s"
  show ?case
  proof (cases "?t = []")
    case False
    then have "\<not> py_space (hd ?t)" unfolding py_lstrip_def using hd_dropWhile by blast
    with False have "word_ok (takeWhile (\<lambda>c. \<not> py_space c) ?t)"
      by (cases ?t) (auto simp: word_ok_def dest: set_takeWhileD)
    with False "1.IH" [OF refl False] show ?thesis by (subst py_words.simps) (simp add: Let_def)
  qed (subst py_words.simps, simp)
qed

lemma py_words_append_space:
  assumes "word_ok w" "s = [] \<or> py_space (hd s)"
  shows "py_words (w @ s) = w # py_words s"
proof -
  have "py_lstrip (w @ s) = w @ s" using assms(1) by (cases w) (auto simp: word_ok_def py_lstrip_def)
  moreover have "takeWhile (\<lambda>c. \<not> py_space c) (w @ s) = w" "dropWhile (\<lambda>c. \<not> py_space c) (w @ s) = s"
    using assms by (cases s; auto simp: word_ok_def takeWhile_append dropWhile_append)+
  ultimately show ?thesis using assms(1) by (subst py_words.simps) (auto simp: Let_def word_ok_def)
qed

lemma py_words_space: "py_words (CHR '' '' # s) = py_words s"
  by (subst (1 2) py_words.simps) (simp add: py_lstrip_def py_space_def)

lemma py_words_join: "list_all word_ok ws \<Longrightarrow> py_words (join_with '' '' ws) = ws"
proof (induction ws)
  case Nil
  then show ?case by (subst py_words.simps) simp
next
  case (Cons w ws)
  show ?case
  proof (cases "ws = []")
    case True
    with Cons.prems py_words_append_space [of w "[]"] show ?thesis by (simp add: py_words.simps [of "[]"])
  next
    case False
    with Cons py_words_append_space [of w "'' '' @ join_with '' '' ws"] show ?thesis
      by (simp add: join_with_Cons py_words_space py_space_def)
  qed
qed

lemma words_loop_words:
  assumes "list_all word_ok (cur @ ws)"
  shows "concat (map py_words (words_loop m cur tok ws)) = cur @ ws"
  using assms by (induction m cur tok ws rule: words_loop.induct) (auto simp: py_words_join)

definition words_fit :: "int \<Rightarrow> string list \<Rightarrow> bool" where
  "words_fit m ws \<longleftrightarrow> sum_list (map word_tokens ws) \<le> m \<or> length ws = 1"

lemma words_loop_fit:
  assumes "list_all word_ok (cur @ ws)" "cur \<noteq> [] \<Longrightarrow> words_fit m cur" "tok = sum_list (map word_tokens cur)"
  shows "list_all (words_fit m \<circ> py_words) (words_loop m cur tok ws)"
  using assms
proof (induction m cur tok ws rule: words_loop.induct)
  case (2 m cur tok w ws)
  have one: "words_fit m [w]" by (simp add: words_fit_def)
  show ?case
  proof (cases "tok + word_tokens w > m \<and> cur \<noteq> []")
    case True
    have "list_all (words_fit m \<circ> py_words) (words_loop m [w] (word_tokens w) ws)"
      using "2.prems"(1) one by (intro "2.IH"(1) [OF True]) simp_all
    moreover have "words_fit m (py_words (join_with '' '' cur))"
      using True "2.prems"(1,2) py_words_join [of cur] by simp
    ultimately show ?thesis using True by (simp add: o_def)
  next
    case False
    have "words_fit m (cur @ [w])" using False "2.prems"(3) by (cases "cur = []") (auto simp: words_fit_def)
    then have "list_all (words_fit m \<circ> py_words) (words_loop m (cur @ [w]) (tok + word_tokens w) ws)"
      using "2.prems"(1,3) by (intro "2.IH"(2) [OF False]) simp_all
    with False show ?thesis by (auto simp: o_def)
  qed
qed (auto simp: py_words_join)

text \<open>
  splitting an oversized text by words keeps every word, in order, and every piece stays
  within the token limit of the estimate unless it is a single word.
\<close>

theorem chunk_text_by_words_correct:
  "concat (map py_words (chunk_text_by_words t m)) = py_words t
   \<and> list_all (\<lambda>c. words_fit m (py_words c)) (chunk_text_by_words t m)"
  using words_loop_words [of "[]" "py_words t" m 0] words_loop_fit [of "[]" "py_words t" m 0] py_words_ok [of t]
  by (simp add: chunk_text_by_words_def o_def)

subsection \<open>Input and dimension checks\<close>

text \<open>\<open>validate_text_input\<close> on values of any type: a non-string raises.\<close>

fun validate_text_input :: "pyval list \<Rightarrow> string list result" where
  "validate_text_input [] = Inr []"
| "validate_text_input (v # vs) =
     (case v of
        PyStr s \<Rightarrow>
          if py_strip s = [] then validate_text_input vs
          else bind_result (validate_text_input vs) (\<lambda>rest. Inr (py_strip s # rest))
      | _ \<Rightarrow> Inl ValueError)"

definition get_dimensions_for_model :: "string \<Rightarrow> (string, int) pydict \<Rightarrow> int \<Rightarrow> int" where
  "get_dimensions_for_model model dimensions_map default_dims =
     (case dict_get dimensions_map model of None \<Rightarrow> default_dims | Some n \<Rightarrow> n)"

definition build_dimension_request_param :: "int option \<Rightarrow> bool \<Rightarrow> int option" where
  "build_dimension_request_param output_dims client_side_truncation =
     (if output_dims \<noteq> None \<and> \<not> client_side_truncation then output_dims else None)"

definition build_runtime_supported_dimensions :: "int option \<Rightarrow> bool \<Rightarrow> int list" where
  "build_runtime_supported_dimensions native_dims client_side_truncation =
     (case native_dims of
        None \<Rightarrow> []
      | Some n \<Rightarrow> if client_side_truncation then [1..n] else [n])"

definition validate_positive_output_dims :: "pyval \<Rightarrow> int option result" where
  "validate_positive_output_dims v =
     (case v of
        PyNone \<Rightarrow> Inr None
      | PyInt n \<Rightarrow> if n \<le> 0 then Inl ConfigurationError else Inr (Some n)
      | _ \<Rightarrow> Inl ConfigurationError)"

definition validate_runtime_output_dims_config :: "pyval \<Rightarrow> bool \<Rightarrow> int option result" where
  "validate_runtime_output_dims_config v client_side_truncation =
     bind_result (validate_positive_output_dims v) (\<lambda>dims.
       if dims = None \<and> client_side_truncation then Inl ConfigurationError else Inr dims)"

definition validate_embedding_dims :: "int \<Rightarrow> int \<Rightarrow> unit result" where
  "validate_embedding_dims actual expected = (if actual \<noteq> expected then Inl DimensionError else Inr ())"

text \<open>
  after \<open>validate_runtime_output_dims_config\<close> has accepted a configuration, the dimension it
  returns is positive when present and is present under client-side truncation; exactly one side
  truncates, so the API gets the dimension precisely when the client does not; and the accepted
  dimension is among the supported ones if it does not exceed the native one (for the server:
  equals it).
\<close>

theorem output_dims_config_sound:
  assumes "validate_runtime_output_dims_config v cst = Inr dims"
  shows "(case dims of None \<Rightarrow> \<not> cst \<and> v = PyNone | Some n \<Rightarrow> 0 < n \<and> v = PyInt n)
    \<and> build_dimension_request_param dims cst = (if cst then None else dims)
    \<and> (\<forall>n native. dims = Some n \<longrightarrow>
         (n \<in> set (build_runtime_supported_dimensions (Some native) cst) \<longleftrightarrow> (if cst then n \<le> native else n = native)))"
  using assms
  by (auto simp: validate_runtime_output_dims_config_def validate_positive_output_dims_def bind_result_eq_Inr_iff
      build_dimension_request_param_def build_runtime_supported_dimensions_def split: pyval.splits if_splits option.splits)

theorem output_dims_config_sound_witness:
  "validate_runtime_output_dims_config (PyInt 256) True = Inr (Some 256)
   \<and> 256 \<in> set (build_runtime_supported_dimensions (Some 1024) True)"
proof -
  have "validate_runtime_output_dims_config (PyInt 256) True = Inr (Some 256)"
    by (simp add: validate_runtime_output_dims_config_def validate_positive_output_dims_def)
  with output_dims_config_sound [OF this] show ?thesis by simp
qed

lemma validate_text_input_strips:
  "validate_text_input vs = Inr ts \<Longrightarrow> list_all (\<lambda>t. t \<noteq> [] \<and> py_strip t = t) ts"
  by (induction vs arbitrary: ts) (auto simp: bind_result_eq_Inr_iff split: pyval.splits if_splits)

end
