(* ===== verification/Realtime_Queue.thy ===== *)
theory Realtime_Queue
  imports Prelude
begin

text \<open>
  The mutation queue of the realtime indexing service (\<open>services/realtime/pipeline.py\<close> and the
  constants of \<open>services/realtime/service.py\<close>): building, registering, queueing, retrying,
  coalescing and releasing mutations.

  The service runs on one asyncio loop, so every piece of code between two suspension points is
  atomic.  An operation below is such a piece: it takes the state and returns the new one.
  The transient tasks that sleep (\<open>_retry_mutation_after_delay\<close>, \<open>_debounced_add_file\<close>) are
  values in the list \<open>transient_tasks\<close>; what they do on waking is the function of that name.
  The clocks (\<open>_utc_now\<close>, \<open>time.monotonic\<close>, \<open>time.time\<close>) are fields of the state that the
  environment moves; clock readings are exact rationals.  \<open>_normalize_mutation_path\<close> consults the
  file system and is the argument \<open>npath\<close>.  Log messages, status callbacks and the event-pressure
  statistics do not influence the queue and are left out.
\<close>

named_theorems rt_defs \<open>definitions of the queue operations\<close>
named_theorems rt_simps \<open>what each queue operation leaves unchanged\<close>

subsection \<open>State\<close>

record realtime_mutation =
  m_id :: int
  m_operation :: string
  m_path :: string
  m_first_queued_at :: string
  m_retry_count :: int
  m_source_generation :: "int option"

datatype transient_task = RetryTask realtime_mutation | DebounceTask realtime_mutation

primrec task_mutation :: "transient_task \<Rightarrow> realtime_mutation" where
  "task_mutation (RetryTask m) = m"
| "task_mutation (DebounceTask m) = m"

type_synonym queue_entry = "int \<times> int \<times> realtime_mutation"

record mutation_queue =
  file_queue :: "queue_entry list"
  queue_sequence :: int
  next_mutation_id :: int
  pending_files :: "string set"
  pending_mutations :: "(string \<times> string, realtime_mutation) pydict"
  pending_path_counts :: "(string, int) pydict"
  pending_debounce :: "(string, rat) pydict"
  transient_tasks :: "transient_task list"
  next_source_generation :: int
  latest_source_generation_by_path :: "(string, int) pydict"
  active_change_generations :: "(string, int option) pydict"
  reserved_follow_up_change_generations :: "(string, int) pydict"
  utc_now :: string
  monotonic :: rat
  wall_time :: rat

definition MAX_RETRY_BUDGET :: int where "MAX_RETRY_BUDGET = 5"
definition DELETE_BATCH_SIZE :: nat where "DELETE_BATCH_SIZE = 64"
definition debounce_delay :: rat where "debounce_delay = 1 / 2"

definition MUTATION_PRIORITIES :: "(string, int) pydict" where
  "MUTATION_PRIORITIES =
     [(''delete'', 0), (''dir_delete'', 0), (''change'', 1), (''scan'', 1), (''dir_index'', 1), (''embed'', 2)]"

subsection \<open>Priorities and mutations\<close>

definition mutation_priority :: "string \<Rightarrow> int" where
  "mutation_priority oper =
     (case dict_get MUTATION_PRIORITIES oper of Some n \<Rightarrow> n | None \<Rightarrow> the (dict_get MUTATION_PRIORITIES ''change''))"

definition normalize_add_priority :: "string \<Rightarrow> string \<times> bool" where
  "normalize_add_priority priority =
     (if priority = ''change'' then (''change'', True)
      else if priority \<in> {''priority'', ''scan''} then (''scan'', False)
      else if priority = ''embed'' then (''embed'', False)
      else if priority \<in> set (dict_keys MUTATION_PRIORITIES) then (priority, False)
      else (''change'', False))"

definition build_mutation ::
  "(string \<Rightarrow> string) \<Rightarrow> string \<Rightarrow> string \<Rightarrow> int \<Rightarrow> int option \<Rightarrow> string option \<Rightarrow> 'a mutation_queue_scheme \<Rightarrow>
     realtime_mutation \<times> 'a mutation_queue_scheme" where
  "build_mutation npath oper file_path retries generation first_queued st =
     (\<lparr>m_id = next_mutation_id st + 1, m_operation = oper, m_path = npath file_path,
       m_first_queued_at = (if truthy_str first_queued then the first_queued else utc_now st),
       m_retry_count = retries, m_source_generation = generation\<rparr>,
      st\<lparr>next_mutation_id := next_mutation_id st + 1\<rparr>)"

subsection \<open>Source generations\<close>

definition advance_source_generation ::
  "(string \<Rightarrow> string) \<Rightarrow> string \<Rightarrow> 'a mutation_queue_scheme \<Rightarrow> int \<times> 'a mutation_queue_scheme" where
  "advance_source_generation npath file_path st =
     (let g = next_source_generation st + 1
      in (g, st\<lparr>next_source_generation := g,
               latest_source_generation_by_path := dict_set (npath file_path) g (latest_source_generation_by_path st)\<rparr>))"

definition current_source_generation ::
  "(string \<Rightarrow> string) \<Rightarrow> string \<Rightarrow> 'a mutation_queue_scheme \<Rightarrow> int option" where
  "current_source_generation npath file_path st = dict_get (latest_source_generation_by_path st) (npath file_path)"

definition refresh_pending_change_generation ::
  "(string \<Rightarrow> string) \<Rightarrow> string \<Rightarrow> int option \<Rightarrow> 'a mutation_queue_scheme \<Rightarrow> 'a mutation_queue_scheme" where
  "refresh_pending_change_generation npath file_path generation st =
     (let p = npath file_path;
          current = (if generation = None then dict_get (latest_source_generation_by_path st) p else generation)
      in case current of
           None \<Rightarrow> st
         | Some g \<Rightarrow>
             (case dict_get (pending_mutations st) (''change'', p) of
                None \<Rightarrow> st
              | Some existing \<Rightarrow>
                  if m_source_generation existing = Some g then st
                  else st\<lparr>pending_mutations :=
                            dict_set (''change'', p) (existing\<lparr>m_source_generation := Some g\<rparr>) (pending_mutations st)\<rparr>))"

definition mark_coalesced_change ::
  "(string \<Rightarrow> string) \<Rightarrow> string \<Rightarrow> 'a mutation_queue_scheme \<Rightarrow> 'a mutation_queue_scheme" where
  "mark_coalesced_change npath file_path st = refresh_pending_change_generation npath file_path None st"

definition reserve_change_follow_up ::
  "(string \<Rightarrow> string) \<Rightarrow> string \<Rightarrow> int option \<Rightarrow> 'a mutation_queue_scheme \<Rightarrow> 'a mutation_queue_scheme" where
  "reserve_change_follow_up npath file_path generation st =
     (let p = npath file_path;
          current = (if generation = None then current_source_generation npath p st else generation)
      in case current of
           None \<Rightarrow> st
         | Some g \<Rightarrow>
             (case dict_get (reserved_follow_up_change_generations st) p of
                None \<Rightarrow> st\<lparr>reserved_follow_up_change_generations :=
                             dict_set p g (reserved_follow_up_change_generations st)\<rparr>
              | Some e \<Rightarrow>
                  if g > e
                  then st\<lparr>reserved_follow_up_change_generations :=
                             dict_set p g (reserved_follow_up_change_generations st)\<rparr>
                  else st))"

definition mutation_for_processing ::
  "(string \<Rightarrow> string) \<Rightarrow> realtime_mutation \<Rightarrow> 'a mutation_queue_scheme \<Rightarrow> realtime_mutation" where
  "mutation_for_processing npath m st =
     (if m_operation m \<notin> {''change'', ''scan''} then m
      else
        (let current = current_source_generation npath (m_path m) st
         in if current = None \<or> m_source_generation m = current then m
            else m\<lparr>m_source_generation := current\<rparr>))"

definition delete_mutation_is_stale ::
  "(string \<Rightarrow> string) \<Rightarrow> realtime_mutation \<Rightarrow> 'a mutation_queue_scheme \<Rightarrow> bool" where
  "delete_mutation_is_stale npath m st =
     (case m_source_generation m of
        None \<Rightarrow> False
      | Some g \<Rightarrow>
          (case current_source_generation npath (m_path m) st of None \<Rightarrow> False | Some c \<Rightarrow> c > g))"

subsection \<open>Ownership of pending mutations\<close>

definition pending_mutation_key :: "realtime_mutation \<Rightarrow> string \<times> string" where
  "pending_mutation_key m = (m_operation m, m_path m)"

definition owns_pending_mutation :: "realtime_mutation \<Rightarrow> 'a mutation_queue_scheme \<Rightarrow> bool" where
  "owns_pending_mutation m st =
     (case dict_get (pending_mutations st) (pending_mutation_key m) of
        None \<Rightarrow> False | Some current \<Rightarrow> m_id current = m_id m)"

definition delete_mutation_supersedes_existing :: "realtime_mutation \<Rightarrow> realtime_mutation \<Rightarrow> bool" where
  "delete_mutation_supersedes_existing m existing =
     (if m_operation m \<noteq> ''delete'' \<or> m_operation existing \<noteq> ''delete'' then False
      else case m_source_generation m of
        None \<Rightarrow> False
      | Some incoming \<Rightarrow>
          (case m_source_generation existing of
             None \<Rightarrow> True
           | Some old \<Rightarrow> incoming > old \<or> (incoming = old \<and> m_retry_count m < m_retry_count existing)))"

definition register_pending_mutation ::
  "realtime_mutation \<Rightarrow> 'a mutation_queue_scheme \<Rightarrow> bool \<times> 'a mutation_queue_scheme" where
  "register_pending_mutation m st =
     (let key = pending_mutation_key m
      in case dict_get (pending_mutations st) key of
           Some existing \<Rightarrow>
             if delete_mutation_supersedes_existing m existing
             then (True, st\<lparr>pending_mutations := dict_set key m (pending_mutations st)\<rparr>)
             else (False, st)
         | None \<Rightarrow>
             (True, st\<lparr>pending_mutations := dict_set key m (pending_mutations st),
                      pending_path_counts :=
                        dict_set (m_path m)
                          ((case dict_get (pending_path_counts st) (m_path m) of None \<Rightarrow> 0 | Some n \<Rightarrow> n) + 1)
                          (pending_path_counts st),
                      pending_files := insert (m_path m) (pending_files st)\<rparr>))"

definition release_pending_mutation ::
  "realtime_mutation \<Rightarrow> 'a mutation_queue_scheme \<Rightarrow> 'a mutation_queue_scheme" where
  "release_pending_mutation m st =
     (if \<not> owns_pending_mutation m st then st
      else
        (let st1 = st\<lparr>pending_mutations := dict_del (pending_mutation_key m) (pending_mutations st)\<rparr>;
             remaining = (case dict_get (pending_path_counts st) (m_path m) of None \<Rightarrow> 0 | Some n \<Rightarrow> n) - 1
         in if remaining \<le> 0
            then st1\<lparr>pending_path_counts := dict_del (m_path m) (pending_path_counts st),
                     pending_files := pending_files st - {m_path m}\<rparr>
            else st1\<lparr>pending_path_counts := dict_set (m_path m) remaining (pending_path_counts st)\<rparr>))"

subsection \<open>The priority queue\<close>

text \<open>
  \<open>asyncio.PriorityQueue\<close> returns a smallest entry.  The sequence numbers of the entries differ
  (an invariant below), so the order of the pairs (priority, sequence number) decides and the
  entries can be kept sorted.
\<close>

definition entry_key :: "queue_entry \<Rightarrow> int \<times> int" where
  "entry_key e = (fst e, fst (snd e))"

fun queue_put :: "queue_entry \<Rightarrow> queue_entry list \<Rightarrow> queue_entry list" where
  "queue_put e [] = [e]"
| "queue_put e (x # xs) = (if entry_key e < entry_key x then e # x # xs else x # queue_put e xs)"

definition put_mutation :: "realtime_mutation \<Rightarrow> 'a mutation_queue_scheme \<Rightarrow> 'a mutation_queue_scheme" where
  "put_mutation m st =
     st\<lparr>queue_sequence := queue_sequence st + 1,
        file_queue := queue_put (mutation_priority (m_operation m), queue_sequence st + 1, m) (file_queue st)\<rparr>"

definition enqueue_mutation ::
  "realtime_mutation \<Rightarrow> bool \<Rightarrow> 'a mutation_queue_scheme \<Rightarrow> bool \<times> 'a mutation_queue_scheme" where
  "enqueue_mutation m register st =
     (if register
      then (let (registered, st1) = register_pending_mutation m st
            in if \<not> registered then (False, st1) else (True, put_mutation m st1))
      else if \<not> owns_pending_mutation m st then (False, st)
      else (True, put_mutation m st))"

definition start_task :: "transient_task \<Rightarrow> 'a mutation_queue_scheme \<Rightarrow> 'a mutation_queue_scheme" where
  "start_task t st = st\<lparr>transient_tasks := t # transient_tasks st\<rparr>"

subsection \<open>Retries\<close>

definition retry_mutation_after_delay ::
  "(string \<Rightarrow> string) \<Rightarrow> realtime_mutation \<Rightarrow> 'a mutation_queue_scheme \<Rightarrow> 'a mutation_queue_scheme" where
  "retry_mutation_after_delay npath m st =
     (if \<not> owns_pending_mutation m st then st
      else if m_operation m = ''delete'' \<and> delete_mutation_is_stale npath m st then release_pending_mutation m st
      else snd (enqueue_mutation m False st))"

definition schedule_retry ::
  "(string \<Rightarrow> string) \<Rightarrow> string \<Rightarrow> realtime_mutation \<Rightarrow> 'a mutation_queue_scheme \<Rightarrow> bool \<times> 'a mutation_queue_scheme" where
  "schedule_retry npath oper m st =
     (if m_retry_count m \<ge> MAX_RETRY_BUDGET then (False, st)
      else
        (let (retry, st1) = build_mutation npath oper (m_path m) (m_retry_count m + 1) (m_source_generation m)
               (Some (m_first_queued_at m)) st;
             (registered, st2) = register_pending_mutation retry st1
         in if \<not> registered then (True, st2) else (True, start_task (RetryTask retry) st2)))"

definition schedule_compaction_retry ::
  "(string \<Rightarrow> string) \<Rightarrow> realtime_mutation \<Rightarrow> 'a mutation_queue_scheme \<Rightarrow> bool \<times> 'a mutation_queue_scheme" where
  "schedule_compaction_retry npath m st = schedule_retry npath (m_operation m) m st"

definition schedule_delete_retry ::
  "(string \<Rightarrow> string) \<Rightarrow> realtime_mutation \<Rightarrow> 'a mutation_queue_scheme \<Rightarrow> bool \<times> 'a mutation_queue_scheme" where
  "schedule_delete_retry npath m st =
     (if delete_mutation_is_stale npath m st then (True, st) else schedule_retry npath ''delete'' m st)"

subsection \<open>Taking mutations from the queue\<close>

definition prepare_dequeued_mutation ::
  "(string \<Rightarrow> string) \<Rightarrow> realtime_mutation \<Rightarrow> 'a mutation_queue_scheme \<Rightarrow>
     (realtime_mutation \<times> bool) \<times> 'a mutation_queue_scheme" where
  "prepare_dequeued_mutation npath m st =
     (let m' = mutation_for_processing npath m st
      in ((m', owns_pending_mutation m' st), release_pending_mutation m' st))"

text \<open>\<open>get_nowait\<close>: \<open>None\<close> for the exception \<open>QueueEmpty\<close>.\<close>

definition get_nowait ::
  "'a mutation_queue_scheme \<Rightarrow> (realtime_mutation \<times> 'a mutation_queue_scheme) option" where
  "get_nowait st =
     (case file_queue st of [] \<Rightarrow> None | e # es \<Rightarrow> Some (snd (snd e), st\<lparr>file_queue := es\<rparr>))"

text \<open>\<open>k\<close> is the number of mutations the batch may still take.\<close>

fun collect_loop ::
  "(string \<Rightarrow> string) \<Rightarrow> nat \<Rightarrow> (realtime_mutation \<times> bool) list \<Rightarrow> 'a mutation_queue_scheme \<Rightarrow>
     (realtime_mutation \<times> bool) list \<times> (realtime_mutation \<times> bool) option \<times> 'a mutation_queue_scheme" where
  "collect_loop npath 0 batch st = (batch, None, st)"
| "collect_loop npath (Suc k) batch st =
     (case get_nowait st of
        None \<Rightarrow> (batch, None, st)
      | Some (queued, st1) \<Rightarrow>
          (let (prepared, st2) = prepare_dequeued_mutation npath queued st1
           in if m_operation (fst prepared) \<noteq> ''delete'' then (batch, Some prepared, st2)
              else collect_loop npath k (batch @ [prepared]) st2))"

definition collect_delete_batch ::
  "(string \<Rightarrow> string) \<Rightarrow> realtime_mutation \<Rightarrow> bool \<Rightarrow> 'a mutation_queue_scheme \<Rightarrow>
     (realtime_mutation \<times> bool) list \<times> (realtime_mutation \<times> bool) option \<times> 'a mutation_queue_scheme" where
  "collect_delete_batch npath m owned st = collect_loop npath (DELETE_BATCH_SIZE - 1) [(m, owned)] st"

subsection \<open>Follow-up changes\<close>

definition queue_follow_up_change ::
  "(string \<Rightarrow> string) \<Rightarrow> string \<Rightarrow> int \<Rightarrow> string option \<Rightarrow> 'a mutation_queue_scheme \<Rightarrow> bool \<times> 'a mutation_queue_scheme" where
  "queue_follow_up_change npath file_path generation first_queued st =
     (let (follow_up, st1) = build_mutation npath ''change'' file_path 0 (Some generation) first_queued st;
          (registered, st2) = register_pending_mutation follow_up st1
      in if \<not> registered then (False, refresh_pending_change_generation npath file_path (Some generation) st2)
         else enqueue_mutation follow_up False st2)"

definition drain_reserved_follow_up_change ::
  "(string \<Rightarrow> string) \<Rightarrow> string \<Rightarrow> string \<Rightarrow> 'a mutation_queue_scheme \<Rightarrow> 'a mutation_queue_scheme" where
  "drain_reserved_follow_up_change npath file_path normalized_path st =
     (case dict_get (reserved_follow_up_change_generations st) normalized_path of
        None \<Rightarrow> st
      | Some g \<Rightarrow>
          snd (queue_follow_up_change npath file_path g None
            (st\<lparr>reserved_follow_up_change_generations :=
                 dict_del normalized_path (reserved_follow_up_change_generations st)\<rparr>)))"

subsection \<open>Adding files\<close>

definition add_file ::
  "(string \<Rightarrow> string) \<Rightarrow> string \<Rightarrow> string \<Rightarrow> 'a mutation_queue_scheme \<Rightarrow> bool \<times> 'a mutation_queue_scheme" where
  "add_file npath file_path priority st =
     (let (oper, debounced) = normalize_add_priority priority;
          generation = (if oper = ''change'' then current_source_generation npath file_path st else None);
          (m, st1) = build_mutation npath oper file_path 0 generation None st;
          file_str = m_path m
      in if oper = ''change'' \<and> file_str \<in> fst ` set (active_change_generations st1)
            \<and> (''change'', file_str) \<notin> fst ` set (pending_mutations st1)
         then (False, mark_coalesced_change npath (m_path m) (reserve_change_follow_up npath (m_path m) generation st1))
         else if debounced \<and> file_str \<in> fst ` set (pending_debounce st1)
         then (False, mark_coalesced_change npath (m_path m)
                        (st1\<lparr>pending_debounce := dict_set file_str (monotonic st1) (pending_debounce st1)\<rparr>))
         else
           (let (registered, st2) = register_pending_mutation m st1
            in if \<not> registered
               then (False,
                 (if debounced
                  then mark_coalesced_change npath (m_path m)
                         (if file_str \<in> fst ` set (pending_debounce st2)
                          then st2\<lparr>pending_debounce := dict_set file_str (monotonic st2) (pending_debounce st2)\<rparr>
                          else st2)
                  else st2))
               else if debounced
               then (True, start_task (DebounceTask m)
                             (st2\<lparr>pending_debounce := dict_set file_str (monotonic st2) (pending_debounce st2)\<rparr>))
               else enqueue_mutation m False st2))"

text \<open>
  \<open>_debounced_add_file\<close> on waking, with its task taken out of the list: it sleeps again while the
  window is not over, and releases the mutation if the debounce entry has vanished.
\<close>

definition debounced_add_file :: "realtime_mutation \<Rightarrow> 'a mutation_queue_scheme \<Rightarrow> 'a mutation_queue_scheme" where
  "debounced_add_file m st =
     (case dict_get (pending_debounce st) (m_path m) of
        None \<Rightarrow> release_pending_mutation m st
      | Some last_update \<Rightarrow>
          if debounce_delay - (monotonic st - last_update) > 0 then start_task (DebounceTask m) st
          else
            (let st1 = st\<lparr>pending_debounce := dict_del (m_path m) (pending_debounce st)\<rparr>;
                 current = (case dict_get (pending_mutations st1) (pending_mutation_key m) of None \<Rightarrow> m | Some c \<Rightarrow> c);
                 (queued, st2) = enqueue_mutation current False st1
             in if \<not> queued then release_pending_mutation current st2 else st2))"

text \<open>Cancelling a sleeping task (on \<open>stop\<close>).\<close>

definition cancel_task :: "transient_task \<Rightarrow> 'a mutation_queue_scheme \<Rightarrow> 'a mutation_queue_scheme" where
  "cancel_task t st =
     (case t of
        RetryTask m \<Rightarrow> release_pending_mutation m st
      | DebounceTask m \<Rightarrow>
          release_pending_mutation m (st\<lparr>pending_debounce := dict_del (m_path m) (pending_debounce st)\<rparr>))"

subsection \<open>The invariant\<close>

text \<open>
  \<open>pending_ok\<close>: the pending mutations are stored under their own keys, \<open>_pending_path_counts\<close>
  counts them per path without zero entries, and \<open>pending_files\<close> is the set of their paths.
\<close>

definition path_count :: "string \<Rightarrow> (string \<times> string, realtime_mutation) pydict \<Rightarrow> nat" where
  "path_count p pend = length (filter (\<lambda>e. snd (fst e) = p) pend)"

definition pending_ok ::
  "(string \<times> string, realtime_mutation) pydict \<Rightarrow> (string, int) pydict \<Rightarrow> string set \<Rightarrow> bool" where
  "pending_ok pend counts files \<longleftrightarrow>
     dict_ok pend \<and> dict_ok counts \<and> (\<forall>(k, m) \<in> set pend. pending_mutation_key m = k)
     \<and> (\<forall>p. dict_get counts p = (if path_count p pend = 0 then None else Some (int (path_count p pend))))
     \<and> files = snd ` fst ` set pend"

text \<open>
  \<open>entries_ok\<close>: the queue is strictly sorted, its sequence numbers are distinct and were drawn
  from the counter, and the priority of an entry is that of its operation.
\<close>

definition entries_ok :: "int \<Rightarrow> queue_entry list \<Rightarrow> bool" where
  "entries_ok s q \<longleftrightarrow>
     sorted_wrt (\<lambda>a b. entry_key a < entry_key b) q \<and> distinct (map (fst \<circ> snd) q)
     \<and> (\<forall>e \<in> set q. fst (snd e) \<le> s \<and> fst e = mutation_priority (m_operation (snd (snd e))))"

definition mutation_operations :: "string set" where
  "mutation_operations = fst ` set MUTATION_PRIORITIES"

definition good_mutation :: "int \<Rightarrow> int \<Rightarrow> realtime_mutation \<Rightarrow> bool" where
  "good_mutation n g m \<longleftrightarrow>
     m_id m \<le> n \<and> m_retry_count m \<le> MAX_RETRY_BUDGET \<and> m_operation m \<in> mutation_operations
     \<and> (case m_source_generation m of None \<Rightarrow> True | Some x \<Rightarrow> x \<le> g)"

abbreviation good :: "'a mutation_queue_scheme \<Rightarrow> realtime_mutation \<Rightarrow> bool" where
  "good st \<equiv> good_mutation (next_mutation_id st) (next_source_generation st)"

definition live_mutations :: "'a mutation_queue_scheme \<Rightarrow> realtime_mutation set" where
  "live_mutations st =
     snd ` set (pending_mutations st) \<union> (snd \<circ> snd) ` set (file_queue st) \<union> task_mutation ` set (transient_tasks st)"

definition gens_ok :: "int \<Rightarrow> (string, int) pydict \<Rightarrow> bool" where
  "gens_ok g d \<longleftrightarrow> dict_ok d \<and> (\<forall>x \<in> snd ` set d. x \<le> g)"

definition queue_ok :: "'a mutation_queue_scheme \<Rightarrow> bool" where
  "queue_ok st \<longleftrightarrow>
     pending_ok (pending_mutations st) (pending_path_counts st) (pending_files st)
     \<and> entries_ok (queue_sequence st) (file_queue st)
     \<and> (\<forall>m \<in> live_mutations st. good st m)
     \<and> gens_ok (next_source_generation st) (latest_source_generation_by_path st)
     \<and> gens_ok (next_source_generation st) (reserved_follow_up_change_generations st)"

text \<open>
  A pending mutation is carried if a queue entry or a sleeping task stands for it: same key and
  same id.  \<open>rt_inv X\<close> allows the tags \<open>X\<close> as exceptions, for the middle of an operation.
\<close>

definition tag :: "realtime_mutation \<Rightarrow> (string \<times> string) \<times> int" where
  "tag m = (pending_mutation_key m, m_id m)"

definition carriers :: "'a mutation_queue_scheme \<Rightarrow> ((string \<times> string) \<times> int) set" where
  "carriers st = tag ` ((snd \<circ> snd) ` set (file_queue st) \<union> task_mutation ` set (transient_tasks st))"

definition rt_inv :: "((string \<times> string) \<times> int) set \<Rightarrow> 'a mutation_queue_scheme \<Rightarrow> bool" where
  "rt_inv X st \<longleftrightarrow> queue_ok st \<and> tag ` snd ` set (pending_mutations st) \<subseteq> carriers st \<union> X"

text \<open>The counters only grow, so a good mutation stays good.\<close>

definition newer :: "'a mutation_queue_scheme \<Rightarrow> 'a mutation_queue_scheme \<Rightarrow> bool" where
  "newer st st' \<longleftrightarrow>
     next_mutation_id st \<le> next_mutation_id st' \<and> next_source_generation st \<le> next_source_generation st'"

lemma newer_refl [simp, intro]: "newer st st"
  by (simp add: newer_def)

lemma newer_trans [trans]: "newer a b \<Longrightarrow> newer b c \<Longrightarrow> newer a c"
  by (simp add: newer_def)

lemma good_mutation_mono:
  "good_mutation n g m \<Longrightarrow> n \<le> n' \<Longrightarrow> g \<le> g' \<Longrightarrow> good_mutation n' g' m"
  by (auto simp: good_mutation_def split: option.splits)

lemma good_newer: "good st m \<Longrightarrow> newer st st' \<Longrightarrow> good st' m"
  by (auto simp: newer_def intro: good_mutation_mono)

lemma inv_weaken: "rt_inv X st \<Longrightarrow> X \<subseteq> Y \<Longrightarrow> rt_inv Y st"
  by (auto simp: rt_inv_def)

subsection \<open>Laws of the parts of the invariant\<close>

lemma path_count_set:
  "dict_ok d \<Longrightarrow> path_count p (dict_set k m d) =
     path_count p d + (if k \<notin> fst ` set d \<and> snd k = p then 1 else 0)"
proof (induction d)
  case (Cons e d)
  then show ?case by (cases e) (auto simp: path_count_def dict_ok_def)
qed (auto simp: path_count_def)

lemma path_count_del:
  "dict_ok d \<Longrightarrow> path_count p (dict_del k d) =
     path_count p d - (if k \<in> fst ` set d \<and> snd k = p then 1 else 0)"
proof (induction d)
  case (Cons e d)
  have pos: "k \<in> fst ` set d \<Longrightarrow> snd k = p \<Longrightarrow> 0 < path_count p d"
    by (force simp: path_count_def filter_empty_conv)
  have "k \<notin> fst ` set d \<Longrightarrow> dict_del k d = d" by (force simp: dict_del_def intro!: filter_True)
  with Cons pos show ?case
    by (cases e) (auto simp: path_count_def dict_ok_def dict_del_def Suc_diff_le)
qed (simp add: path_count_def dict_del_def)

lemma path_count_pos: "k \<in> fst ` set d \<Longrightarrow> 0 < path_count (snd k) d"
  by (force simp: path_count_def filter_empty_conv)

lemma path_count_zero: "path_count p d = 0 \<longleftrightarrow> p \<notin> snd ` fst ` set d"
  by (force simp: path_count_def filter_empty_conv)

lemma dict_set_same_keys: "k \<in> fst ` set d \<Longrightarrow> fst ` set (dict_set k v d) = fst ` set d"
  by (auto simp: keys_dict_set)

lemma snd_dict_set:
  assumes "dict_ok d"
  shows "set (dict_set k v d) = insert (k, v) {e \<in> set d. fst e \<noteq> k}"
proof (rule set_eqI)
  fix e :: "'a \<times> 'b"
  obtain a x where e: "e = (a, x)" by (cases e)
  show "e \<in> set (dict_set k v d) \<longleftrightarrow> e \<in> insert (k, v) {e \<in> set d. fst e \<noteq> k}"
    unfolding e using dict_get_Some_iff [OF dict_ok_set [OF assms], of k v a x] dict_get_Some_iff [OF assms, of a x]
    by (auto split: if_splits)
qed

lemma pending_ok_replace:
  assumes "pending_ok d c f" "pending_mutation_key m \<in> fst ` set d"
  shows "pending_ok (dict_set (pending_mutation_key m) m d) c f"
  using assms set_dict_set_subset [of "pending_mutation_key m" m d]
  by (auto simp: pending_ok_def path_count_set dict_set_same_keys dict_ok_set)

lemma pending_ok_new:
  assumes "pending_ok d c f" "pending_mutation_key m \<notin> fst ` set d"
  shows "pending_ok (dict_set (pending_mutation_key m) m d)
     (dict_set (m_path m) ((case dict_get c (m_path m) of None \<Rightarrow> 0 | Some n \<Rightarrow> n) + 1) c) (insert (m_path m) f)"
  using assms set_dict_set_subset [of "pending_mutation_key m" m d]
  by (auto simp: pending_ok_def path_count_set keys_dict_set dict_ok_set) (auto simp: pending_mutation_key_def)

lemma pending_ok_del:
  assumes ok: "pending_ok d c f" and k: "pending_mutation_key m \<in> fst ` set d"
  defines "r \<equiv> (case dict_get c (m_path m) of None \<Rightarrow> 0 | Some n \<Rightarrow> n) - 1"
  shows "pending_ok (dict_del (pending_mutation_key m) d)
     (if r \<le> 0 then dict_del (m_path m) c else dict_set (m_path m) r c) (if r \<le> 0 then f - {m_path m} else f)"
proof -
  let ?k = "pending_mutation_key m"
  have p: "snd ?k = m_path m" by (simp add: pending_mutation_key_def)
  have d: "dict_ok d" "dict_ok c" and c: "\<And>p. dict_get c p = (if path_count p d = 0 then None else Some (int (path_count p d)))"
    and f: "f = snd ` fst ` set d" using ok by (auto simp: pending_ok_def)
  have n: "\<And>q. path_count q (dict_del ?k d) = path_count q d - (if m_path m = q then 1 else 0)"
    using path_count_del [OF d(1), of _ ?k] k p by simp
  have pos: "0 < path_count (m_path m) d" using path_count_pos [OF k] p by simp
  then have r: "r = int (path_count (m_path m) d) - 1" by (simp add: r_def c)
  have keys: "\<forall>(k, x) \<in> set (dict_del ?k d). pending_mutation_key x = k"
    using ok set_dict_del_subset [of ?k d] by (auto simp: pending_ok_def)
  have files: "x \<in> snd ` fst ` set (dict_del ?k d) \<longleftrightarrow> path_count x (dict_del ?k d) \<noteq> 0"
    "x \<in> f \<longleftrightarrow> path_count x d \<noteq> 0" for x unfolding f by (simp_all only: path_count_zero not_not)
  show ?thesis
  proof (cases "r \<le> 0")
    case True
    then have one: "path_count (m_path m) d = 1" using pos r by simp
    then have "f - {m_path m} = snd ` fst ` set (dict_del ?k d)"
      by (intro set_eqI, unfold Diff_iff files n) auto
    with True one d keys show ?thesis by (simp add: pending_ok_def n c dict_ok_del)
  next
    case False
    with pos r have many: "1 < path_count (m_path m) d" by simp
    then have "f = snd ` fst ` set (dict_del ?k d)" by (intro set_eqI, unfold files n) auto
    with False many d r keys show ?thesis by (auto simp: pending_ok_def n c dict_ok_del dict_ok_set of_nat_diff)
  qed
qed

lemma set_queue_put: "set (queue_put e q) = insert e (set q)"
  by (induction q) auto

lemma queue_put_sorted:
  "sorted_wrt (\<lambda>a b. entry_key a < entry_key b) q \<Longrightarrow> \<forall>x \<in> set q. entry_key x \<noteq> entry_key e \<Longrightarrow>
     sorted_wrt (\<lambda>a b. entry_key a < entry_key b) (queue_put e q)"
  by (induction q) (auto simp: set_queue_put intro: less_trans antisym_conv3)

lemma distinct_queue_put:
  "distinct (map (fst \<circ> snd) q) \<Longrightarrow> fst (snd e) \<notin> (fst \<circ> snd) ` set q \<Longrightarrow> distinct (map (fst \<circ> snd) (queue_put e q))"
  by (induction q) (auto simp: set_queue_put)

lemma entries_ok_put:
  assumes "entries_ok s q"
  shows "entries_ok (s + 1) (queue_put (mutation_priority (m_operation m), s + 1, m) q)"
proof -
  have "\<forall>x \<in> set q. entry_key x \<noteq> entry_key (mutation_priority (m_operation m), s + 1, m)"
    "s + 1 \<notin> (fst \<circ> snd) ` set q" using assms by (force simp: entries_ok_def entry_key_def)+
  then show ?thesis
    using assms queue_put_sorted [of q] distinct_queue_put [of q "(mutation_priority (m_operation m), s + 1, m)"]
    by (auto simp: entries_ok_def set_queue_put)
qed

lemma entries_ok_tl: "entries_ok s (e # q) \<Longrightarrow> entries_ok s q"
  by (auto simp: entries_ok_def)

lemma gens_ok_set: "gens_ok g d \<Longrightarrow> x \<le> g' \<Longrightarrow> g \<le> g' \<Longrightarrow> gens_ok g' (dict_set p x d)"
  by (auto simp: gens_ok_def snd_dict_set intro: order_trans)

lemma gens_ok_del: "gens_ok g d \<Longrightarrow> gens_ok g (dict_del p d)"
  by (auto simp: gens_ok_def dict_del_def dict_ok_del [unfolded dict_del_def])

lemma gens_ok_mono: "gens_ok g d \<Longrightarrow> g \<le> g' \<Longrightarrow> gens_ok g' d"
  by (auto simp: gens_ok_def intro: order_trans)

lemma gens_ok_get: "gens_ok g d \<Longrightarrow> dict_get d p = Some x \<Longrightarrow> x \<le> g"
  by (metis gens_ok_def image_eqI map_of_SomeD snd_conv)

subsection \<open>Every primitive keeps the invariant\<close>

lemma inv_queue_ok: "rt_inv X st \<Longrightarrow> queue_ok st"
  by (simp add: rt_inv_def)

lemma ball_good_mono:
  "\<forall>x \<in> A. good_mutation n g x \<Longrightarrow> n \<le> n' \<Longrightarrow> g \<le> g' \<Longrightarrow> \<forall>x \<in> A. good_mutation n' g' x"
  by (blast intro: good_mutation_mono)

lemma inv_bump_id: "rt_inv X st \<Longrightarrow> next_mutation_id st \<le> n \<Longrightarrow> rt_inv X (st\<lparr>next_mutation_id := n\<rparr>)"
  using ball_good_mono [of "live_mutations st" "next_mutation_id st" "next_source_generation st" n "next_source_generation st"]
  by (simp add: rt_inv_def queue_ok_def live_mutations_def carriers_def)

lemma inv_build:
  assumes "rt_inv X st" "build_mutation npath oper p r g fq st = (m, st')"
  shows "rt_inv X st'" "newer st st'" "m_operation m = oper" "m_path m = npath p" "m_source_generation m = g"
    "m_retry_count m = r"
    "r \<le> MAX_RETRY_BUDGET \<Longrightarrow> oper \<in> mutation_operations \<Longrightarrow>
       (case g of None \<Rightarrow> True | Some x \<Rightarrow> x \<le> next_source_generation st) \<Longrightarrow> good st' m"
proof -
  have "st' = st\<lparr>next_mutation_id := next_mutation_id st + 1\<rparr>" "m_id m = next_mutation_id st + 1" "m_operation m = oper"
    "m_path m = npath p" "m_source_generation m = g" "m_retry_count m = r"
    using assms(2) by (auto simp: build_mutation_def)
  then show "rt_inv X st'" "newer st st'" "m_operation m = oper" "m_path m = npath p" "m_source_generation m = g"
    "m_retry_count m = r"
    "r \<le> MAX_RETRY_BUDGET \<Longrightarrow> oper \<in> mutation_operations \<Longrightarrow>
       (case g of None \<Rightarrow> True | Some x \<Rightarrow> x \<le> next_source_generation st) \<Longrightarrow> good st' m"
    using inv_bump_id [OF assms(1), of "next_mutation_id st + 1"]
    by (simp_all add: newer_def good_mutation_def)
qed

lemma ball_insert_mono: "A \<subseteq> insert x B \<Longrightarrow> \<forall>y \<in> B. P y \<Longrightarrow> P x \<Longrightarrow> \<forall>y \<in> A. P y"
  by blast

lemma image_insert_mono: "A \<subseteq> insert x B \<Longrightarrow> f ` B \<subseteq> C \<union> X \<Longrightarrow> f ` A \<subseteq> C \<union> insert (f x) X"
  by blast

lemma inv_set_pending:
  assumes inv: "rt_inv X st" and good: "good st m" and P: "pending_ok P C F"
    and sub: "snd ` set P \<subseteq> insert m (snd ` set (pending_mutations st))"
  shows "rt_inv (insert (tag m) X) (st\<lparr>pending_mutations := P, pending_path_counts := C, pending_files := F\<rparr>)"
proof -
  have "\<forall>x \<in> snd ` set P. good st x"
    using inv good by (intro ball_insert_mono [OF sub]) (auto simp: rt_inv_def queue_ok_def live_mutations_def)
  moreover have "tag ` snd ` set P \<subseteq> carriers st \<union> insert (tag m) X"
    using inv by (intro image_insert_mono [OF sub]) (simp add: rt_inv_def)
  ultimately show ?thesis
    using inv P unfolding rt_inv_def queue_ok_def live_mutations_def carriers_def ball_Un by simp
qed

lemma inv_register:
  assumes inv: "rt_inv X st" and good: "good st m" and reg: "register_pending_mutation m st = (b, st')"
  shows "rt_inv (if b then insert (tag m) X else X) st'" "newer st st'" "b \<Longrightarrow> owns_pending_mutation m st'"
    "\<not> b \<Longrightarrow> st' = st \<and> dict_get (pending_mutations st) (pending_mutation_key m) \<noteq> None"
proof -
  have pend: "pending_ok (pending_mutations st) (pending_path_counts st) (pending_files st)"
    and dok: "dict_ok (pending_mutations st)"
    using inv by (auto simp: rt_inv_def queue_ok_def pending_ok_def)
  have sub: "snd ` set (dict_set (pending_mutation_key m) m (pending_mutations st)) \<subseteq> insert m (snd ` set (pending_mutations st))"
    using set_dict_set_subset [of "pending_mutation_key m" m "pending_mutations st"] by force
  consider (new) "dict_get (pending_mutations st) (pending_mutation_key m) = None"
    | (old) e where "dict_get (pending_mutations st) (pending_mutation_key m) = Some e"
    by (cases "dict_get (pending_mutations st) (pending_mutation_key m)") auto
  then have "rt_inv (if b then insert (tag m) X else X) st'"
  proof cases
    case new
    then have k: "pending_mutation_key m \<notin> fst ` set (pending_mutations st)" by (simp add: dict_get_None_iff)
    show ?thesis
      using reg new inv_set_pending [OF inv good pending_ok_new [OF pend k] sub]
      by (auto simp: register_pending_mutation_def)
  next
    case (old e)
    then have k: "pending_mutation_key m \<in> fst ` set (pending_mutations st)"
      by (metis dict_get_None_iff option.distinct(1))
    show ?thesis
      using reg old inv inv_set_pending [OF inv good pending_ok_replace [OF pend k] sub]
      by (auto simp: register_pending_mutation_def split: if_splits)
  qed
  then show "rt_inv (if b then insert (tag m) X else X) st'" .
  show "newer st st'" "b \<Longrightarrow> owns_pending_mutation m st'"
    "\<not> b \<Longrightarrow> st' = st \<and> dict_get (pending_mutations st) (pending_mutation_key m) \<noteq> None"
    using reg
    by (auto simp: register_pending_mutation_def owns_pending_mutation_def newer_def Let_def split: option.splits if_splits)
qed

lemma inv_put:
  "rt_inv (insert (tag m) X) st \<Longrightarrow> good st m \<Longrightarrow> rt_inv X (put_mutation m st)"
  by (auto simp: put_mutation_def rt_inv_def queue_ok_def live_mutations_def carriers_def set_queue_put intro: entries_ok_put)

lemma inv_start_task:
  "rt_inv (insert (tag (task_mutation t)) X) st \<Longrightarrow> good st (task_mutation t) \<Longrightarrow> rt_inv X (start_task t st)"
  by (auto simp: start_task_def rt_inv_def queue_ok_def live_mutations_def carriers_def)

lemma newer_put [simp]: "newer st (put_mutation m st)"
  by (simp add: put_mutation_def newer_def)

lemma newer_start_task [simp]: "newer st (start_task t st)"
  by (simp add: start_task_def newer_def)

lemma newer_release [simp]: "newer st (release_pending_mutation m st)"
  by (simp add: release_pending_mutation_def newer_def Let_def)

lemma ball_subset: "A \<subseteq> B \<Longrightarrow> \<forall>y \<in> B. P y \<Longrightarrow> \<forall>y \<in> A. P y"
  by blast

lemma subset_drop: "A \<subseteq> B - {t} \<Longrightarrow> B \<subseteq> C \<union> insert t X \<Longrightarrow> A \<subseteq> C \<union> X"
  by blast

lemma inv_drop_pending:
  assumes inv: "rt_inv (insert t X) st" and P: "pending_ok P C F"
    and sub: "snd ` set P \<subseteq> snd ` set (pending_mutations st)"
    and tags: "tag ` snd ` set P \<subseteq> tag ` snd ` set (pending_mutations st) - {t}"
  shows "rt_inv X (st\<lparr>pending_mutations := P, pending_path_counts := C, pending_files := F\<rparr>)"
proof -
  have "\<forall>x \<in> snd ` set P. good st x"
    using inv by (intro ball_subset [OF sub]) (auto simp: rt_inv_def queue_ok_def live_mutations_def)
  moreover have "tag ` snd ` set P \<subseteq> carriers st \<union> X"
    using inv by (intro subset_drop [OF tags]) (simp add: rt_inv_def)
  ultimately show ?thesis
    using inv P unfolding rt_inv_def queue_ok_def live_mutations_def carriers_def ball_Un by simp
qed

lemma newer_release_debounce [simp]: "newer st (release_pending_mutation m (st\<lparr>pending_debounce := d\<rparr>))"
  using newer_release [of "st\<lparr>pending_debounce := d\<rparr>" m] by (simp add: newer_def)

lemma inv_release:
  assumes inv: "rt_inv (insert (tag m) X) st"
  shows "rt_inv X (release_pending_mutation m st)"
proof (cases "owns_pending_mutation m st")
  case True
  let ?k = "pending_mutation_key m"
  have pend: "pending_ok (pending_mutations st) (pending_path_counts st) (pending_files st)"
    and dok: "dict_ok (pending_mutations st)"
    using inv by (auto simp: rt_inv_def queue_ok_def pending_ok_def)
  from True obtain c where c: "dict_get (pending_mutations st) ?k = Some c" "m_id c = m_id m"
    by (auto simp: owns_pending_mutation_def split: option.splits)
  then have k: "?k \<in> fst ` set (pending_mutations st)" by (metis dict_get_None_iff option.distinct(1))
  have keys: "\<forall>(k, x) \<in> set (pending_mutations st). pending_mutation_key x = k"
    using pend by (simp add: pending_ok_def)
  have sub: "tag ` snd ` set (dict_del ?k (pending_mutations st)) \<subseteq> tag ` snd ` set (pending_mutations st) - {tag m}"
    using keys by (auto simp: dict_del_def tag_def)
  have sub': "snd ` set (dict_del ?k (pending_mutations st)) \<subseteq> snd ` set (pending_mutations st)"
    by (auto simp: dict_del_def)
  show ?thesis
    using inv_drop_pending [OF inv pending_ok_del [OF pend k] sub' sub] True
    by (auto simp: release_pending_mutation_def Let_def)
next
  case False
  have keys: "\<forall>(k, x) \<in> set (pending_mutations st). pending_mutation_key x = k" and dok: "dict_ok (pending_mutations st)"
    using inv by (auto simp: rt_inv_def queue_ok_def pending_ok_def)
  have "tag m \<notin> tag ` snd ` set (pending_mutations st)"
  proof
    assume "tag m \<in> tag ` snd ` set (pending_mutations st)"
    then obtain k x where x: "(k, x) \<in> set (pending_mutations st)" "tag x = tag m" by auto
    then have "dict_get (pending_mutations st) (pending_mutation_key m) = Some x"
      using keys dok by (auto simp: tag_def dict_get_Some_iff)
    with x False show False by (simp add: owns_pending_mutation_def tag_def)
  qed
  with inv False show ?thesis by (simp add: release_pending_mutation_def rt_inv_def subset_insert)
qed

lemma ball_Un_mono:
  "\<forall>x \<in> A \<union> B \<union> C. P x \<Longrightarrow> B' \<subseteq> B \<Longrightarrow> C' \<subseteq> C \<Longrightarrow> \<forall>x \<in> A \<union> B' \<union> C'. P x"
  by blast

lemma image_lose: "f ` A \<subseteq> g ` B \<union> X \<Longrightarrow> B \<subseteq> insert m C \<Longrightarrow> f ` A \<subseteq> g ` C \<union> insert (g m) X"
  by blast

lemma inv_lose_carrier:
  assumes inv: "rt_inv X st" and q: "entries_ok (queue_sequence st) Q"
    and "(snd \<circ> snd) ` set (file_queue st) \<union> task_mutation ` set (transient_tasks st)
      \<subseteq> insert m ((snd \<circ> snd) ` set Q \<union> task_mutation ` set T)"
    and sub: "set Q \<subseteq> set (file_queue st)" "set T \<subseteq> set (transient_tasks st)"
  shows "rt_inv (insert (tag m) X) (st\<lparr>file_queue := Q, transient_tasks := T\<rparr>)"
proof -
  have "tag ` snd ` set (pending_mutations st) \<subseteq>
      tag ` ((snd \<circ> snd) ` set Q \<union> task_mutation ` set T) \<union> insert (tag m) X"
    using inv by (intro image_lose [OF _ assms(3)]) (simp add: rt_inv_def carriers_def)
  moreover have "\<forall>x \<in> snd ` set (pending_mutations st) \<union> (snd \<circ> snd) ` set Q \<union> task_mutation ` set T. good st x"
    using inv by (intro ball_Un_mono [OF _ image_mono [OF sub(1)] image_mono [OF sub(2)]])
      (simp add: rt_inv_def queue_ok_def live_mutations_def)
  ultimately show ?thesis
    using inv q unfolding rt_inv_def queue_ok_def live_mutations_def carriers_def by simp
qed

lemma inv_get:
  assumes "rt_inv X st" "get_nowait st = Some (m, st')"
  shows "rt_inv (insert (tag m) X) st'" "newer st st'" "good st m"
proof -
  from assms(2) obtain a b q where q: "file_queue st = (a, b, m) # q" "st' = st\<lparr>file_queue := q\<rparr>"
    by (auto simp: get_nowait_def split: list.splits)
  have "entries_ok (queue_sequence st) q"
    using assms(1) q(1) by (auto simp: rt_inv_def queue_ok_def intro: entries_ok_tl)
  then have "rt_inv (insert (tag m) X) (st\<lparr>file_queue := q, transient_tasks := transient_tasks st\<rparr>)"
    using assms(1) q(1) by (intro inv_lose_carrier) auto
  then show "rt_inv (insert (tag m) X) st'" using q(2) by simp
  show "newer st st'" "good st m"
    using assms(1) q by (auto simp: newer_def rt_inv_def queue_ok_def live_mutations_def)
qed

lemma inv_take_task:
  assumes "rt_inv X st" "t \<in> set (transient_tasks st)"
  shows "rt_inv (insert (tag (task_mutation t)) X) (st\<lparr>transient_tasks := remove1 t (transient_tasks st)\<rparr>)"
    "good st (task_mutation t)"
proof -
  have sub: "set ts \<subseteq> insert t (set (remove1 t ts))" for ts :: "transient_task list" by (induction ts) auto
  have "rt_inv (insert (tag (task_mutation t)) X)
      (st\<lparr>file_queue := file_queue st, transient_tasks := remove1 t (transient_tasks st)\<rparr>)"
    using assms(1) image_mono [OF sub [of "transient_tasks st"], of task_mutation] set_remove1_subset [of t "transient_tasks st"]
    by (intro inv_lose_carrier) (auto simp: rt_inv_def queue_ok_def)
  then show "rt_inv (insert (tag (task_mutation t)) X) (st\<lparr>transient_tasks := remove1 t (transient_tasks st)\<rparr>)" by simp
  show "good st (task_mutation t)" using assms by (auto simp: rt_inv_def queue_ok_def live_mutations_def)
qed

subsection \<open>Every operation keeps the invariant\<close>

text \<open>\<open>keeps X st st'\<close>: the result of an operation, with the counters not going back.\<close>

definition keeps :: "((string \<times> string) \<times> int) set \<Rightarrow> 'a mutation_queue_scheme \<Rightarrow> 'a mutation_queue_scheme \<Rightarrow> bool" where
  "keeps X st st' \<longleftrightarrow> rt_inv X st' \<and> newer st st'"

lemma keeps_refl: "rt_inv X st \<Longrightarrow> keeps X st st"
  by (simp add: keeps_def)

lemma keeps_trans: "newer a b \<Longrightarrow> keeps X b c \<Longrightarrow> keeps X a c"
  by (auto simp: keeps_def intro: newer_trans)

lemma rt_inv_frame [simp]:
  "rt_inv X (st\<lparr>pending_debounce := d\<rparr>) = rt_inv X st"
  "rt_inv X (st\<lparr>active_change_generations := a\<rparr>) = rt_inv X st"
  "rt_inv X (st\<lparr>utc_now := u\<rparr>) = rt_inv X st"
  "rt_inv X (st\<lparr>monotonic := t\<rparr>) = rt_inv X st"
  "rt_inv X (st\<lparr>wall_time := t\<rparr>) = rt_inv X st"
  by (simp_all add: rt_inv_def queue_ok_def live_mutations_def carriers_def)

lemma newer_frame [simp]:
  "newer st (st'\<lparr>pending_debounce := d\<rparr>) = newer st st'"
  "newer st (st'\<lparr>active_change_generations := a\<rparr>) = newer st st'"
  "newer st (st'\<lparr>reserved_follow_up_change_generations := r\<rparr>) = newer st st'"
  "newer st (st'\<lparr>pending_mutations := p\<rparr>) = newer st st'"
  "newer st (st'\<lparr>transient_tasks := ts\<rparr>) = newer st st'"
  "newer st (st'\<lparr>file_queue := q\<rparr>) = newer st st'"
  by (simp_all add: newer_def)

lemma rt_inv_absorb: "rt_inv (insert t X) st \<Longrightarrow> t \<in> carriers st \<union> X \<Longrightarrow> rt_inv X st"
  by (auto simp: rt_inv_def)

lemma rt_inv_reserved:
  "rt_inv X st \<Longrightarrow> gens_ok (next_source_generation st) r \<Longrightarrow> rt_inv X (st\<lparr>reserved_follow_up_change_generations := r\<rparr>)"
  by (simp add: rt_inv_def queue_ok_def live_mutations_def carriers_def)

lemma rt_inv_current:
  "rt_inv X st \<Longrightarrow> current_source_generation npath p st = Some g \<Longrightarrow> g \<le> next_source_generation st"
  by (auto simp: rt_inv_def queue_ok_def current_source_generation_def intro: gens_ok_get)

lemma rt_inv_current_case:
  "rt_inv X st \<Longrightarrow> case current_source_generation npath p st of None \<Rightarrow> True | Some g \<Rightarrow> g \<le> next_source_generation st"
  by (auto split: option.split intro: rt_inv_current)

lemma keeps_advance:
  assumes "rt_inv X st" "advance_source_generation npath p st = (g, st')"
  shows "keeps X st st'" "g = next_source_generation st'"
proof -
  have st': "st' = st\<lparr>next_source_generation := next_source_generation st + 1,
      latest_source_generation_by_path :=
        dict_set (npath p) (next_source_generation st + 1) (latest_source_generation_by_path st)\<rparr>"
    using assms(2) by (auto simp: advance_source_generation_def Let_def)
  have "\<forall>x \<in> live_mutations st. good_mutation (next_mutation_id st) (next_source_generation st + 1) x"
    using assms(1) ball_good_mono [of "live_mutations st" "next_mutation_id st" "next_source_generation st" "next_mutation_id st" "next_source_generation st + 1"]
    by (simp add: rt_inv_def queue_ok_def)
  then show "keeps X st st'" "g = next_source_generation st'"
    using assms gens_ok_set [of "next_source_generation st" "latest_source_generation_by_path st"]
      gens_ok_mono [of "next_source_generation st" "reserved_follow_up_change_generations st"]
    by (simp_all add: keeps_def st' rt_inv_def queue_ok_def live_mutations_def carriers_def newer_def
        advance_source_generation_def Let_def)
qed

lemma keeps_refresh:
  assumes inv: "rt_inv X st" and g: "case g of None \<Rightarrow> True | Some x \<Rightarrow> x \<le> next_source_generation st"
  shows "keeps X st (refresh_pending_change_generation npath p g st)"
proof -
  let ?P = "pending_mutations st" and ?k = "(''change'', npath p)"
  have id: "keeps X st (st\<lparr>pending_mutations := dict_set ?k (e\<lparr>m_source_generation := Some x\<rparr>) ?P\<rparr>)"
    if e: "dict_get ?P ?k = Some e" and x: "x \<le> next_source_generation st" for e x
  proof -
    let ?m = "e\<lparr>m_source_generation := Some x\<rparr>"
    have pend: "pending_ok ?P (pending_path_counts st) (pending_files st)" using inv by (simp add: rt_inv_def queue_ok_def)
    have mem: "(?k, e) \<in> set ?P" using e by (rule map_of_SomeD)
    then have key: "pending_mutation_key e = ?k" using pend by (auto simp: pending_ok_def)
    then have key': "pending_mutation_key ?m = ?k" by (simp add: pending_mutation_key_def)
    have "e \<in> live_mutations st" using mem by (force simp: live_mutations_def)
    then have "good st e" using inv by (simp add: rt_inv_def queue_ok_def)
    then have good: "good st ?m" using x by (simp add: good_mutation_def)
    have sub: "snd ` set (dict_set ?k ?m ?P) \<subseteq> insert ?m (snd ` set ?P)"
      using set_dict_set_subset [of ?k ?m ?P] by force
    have "pending_mutation_key ?m \<in> fst ` set ?P" unfolding key' using mem by force
    from pending_ok_replace [OF pend this]
    have "pending_ok (dict_set ?k ?m ?P) (pending_path_counts st) (pending_files st)" unfolding key' .
    from inv_set_pending [OF inv good this sub]
    have "rt_inv (insert (tag ?m) X) (st\<lparr>pending_mutations := dict_set ?k ?m ?P\<rparr>)" by simp
    moreover have "tag ?m \<in> carriers st \<union> X"
    proof -
      have "tag ?m = tag e" by (simp add: tag_def pending_mutation_key_def)
      moreover have "tag (snd (?k, e)) \<in> tag ` snd ` set ?P" using mem by (intro imageI)
      moreover have "tag ` snd ` set ?P \<subseteq> carriers st \<union> X" using inv by (simp add: rt_inv_def)
      ultimately show ?thesis by (metis snd_conv subsetD)
    qed
    ultimately have "rt_inv X (st\<lparr>pending_mutations := dict_set ?k ?m ?P\<rparr>)"
      by - (rule rt_inv_absorb, simp_all add: carriers_def)
    then show ?thesis by (simp add: keeps_def)
  qed
  have cur: "x \<le> next_source_generation st"
    if "(if g = None then dict_get (latest_source_generation_by_path st) (npath p) else g) = Some x" for x
    using that g inv by (auto simp: rt_inv_def queue_ok_def split: if_splits intro: gens_ok_get)
  show ?thesis
    using keeps_refl [OF inv] id cur
    by (auto simp: refresh_pending_change_generation_def Let_def split: option.split)
qed

lemma keeps_coalesced: "rt_inv X st \<Longrightarrow> keeps X st (mark_coalesced_change npath p st)"
  by (simp add: mark_coalesced_change_def keeps_refresh)

lemma keeps_reserve:
  assumes "rt_inv X st" "case g of None \<Rightarrow> True | Some x \<Rightarrow> x \<le> next_source_generation st"
  shows "keeps X st (reserve_change_follow_up npath p g st)"
proof -
  have r: "gens_ok (next_source_generation st) (reserved_follow_up_change_generations st)"
    using assms(1) by (simp add: rt_inv_def queue_ok_def)
  show ?thesis
    using assms rt_inv_current [OF assms(1)]
    by (auto simp: reserve_change_follow_up_def keeps_def Let_def split: option.splits
        intro!: rt_inv_reserved gens_ok_set [OF r])
qed

lemma keeps_enqueue_owned:
  assumes "rt_inv (insert (tag m) X) st" "good st m"
  shows "keeps X st (snd (enqueue_mutation m False st)) \<or> \<not> owns_pending_mutation m st"
  using assms by (auto simp: enqueue_mutation_def keeps_def intro: inv_put)

lemma keeps_enqueue_register:
  assumes "rt_inv X st" "good st m"
  shows "keeps X st (snd (enqueue_mutation m True st))"
proof -
  obtain b st1 where r: "register_pending_mutation m st = (b, st1)" by force
  note reg = inv_register [OF assms r]
  have "b \<Longrightarrow> keeps X st1 (put_mutation m st1)"
    using reg(1,2) assms(2) by (auto simp: keeps_def intro!: inv_put intro: good_newer)
  then show ?thesis
    using reg(1,2) by (cases b) (auto simp: enqueue_mutation_def r keeps_def intro: newer_trans)
qed

lemma not_owner_inv:
  assumes "rt_inv (insert (tag m) X) st" "\<not> owns_pending_mutation m st"
  shows "rt_inv X st"
  using inv_release [OF assms(1)] assms(2) by (simp add: release_pending_mutation_def)

lemma keeps_retry:
  assumes "rt_inv (insert (tag m) X) st" "good st m"
  shows "keeps X st (retry_mutation_after_delay npath m st)"
  using assms keeps_enqueue_owned [OF assms] inv_release [OF assms(1)] not_owner_inv [OF assms(1)]
  by (auto simp: retry_mutation_after_delay_def keeps_def)

lemma keeps_schedule_retry:
  assumes inv: "rt_inv X st" and m: "good st m" and oper: "oper \<in> mutation_operations"
  shows "keeps X st (snd (schedule_retry npath oper m st))"
proof (cases "m_retry_count m \<ge> MAX_RETRY_BUDGET")
  case False
  obtain r st1 where b: "build_mutation npath oper (m_path m) (m_retry_count m + 1) (m_source_generation m)
      (Some (m_first_queued_at m)) st = (r, st1)" by force
  obtain ok st2 where g: "register_pending_mutation r st1 = (ok, st2)" by force
  note bl = inv_build [OF inv b]
  have r: "good st1 r" using m oper False by (intro bl(7)) (auto simp: good_mutation_def)
  note rg = inv_register [OF bl(1) r g]
  have "ok \<Longrightarrow> keeps X st2 (start_task (RetryTask r) st2)"
    using rg(1,2) r by (auto simp: keeps_def intro!: inv_start_task intro: good_newer)
  then show ?thesis
    using False b g rg(1,2) bl(2)
    by (cases ok) (auto simp: schedule_retry_def keeps_def intro: newer_trans)
qed (simp add: schedule_retry_def keeps_refl inv)

lemma good_operation: "good st m \<Longrightarrow> m_operation m \<in> mutation_operations"
  by (simp add: good_mutation_def)

lemma delete_operation: "''delete'' \<in> mutation_operations" "''change'' \<in> mutation_operations"
  "''dir_delete'' \<in> mutation_operations" "''dir_index'' \<in> mutation_operations"
  by (simp_all add: mutation_operations_def MUTATION_PRIORITIES_def)

lemma keeps_compaction_retry:
  "rt_inv X st \<Longrightarrow> good st m \<Longrightarrow> keeps X st (snd (schedule_compaction_retry npath m st))"
  by (simp add: schedule_compaction_retry_def keeps_schedule_retry good_operation)

lemma keeps_delete_retry:
  "rt_inv X st \<Longrightarrow> good st m \<Longrightarrow> keeps X st (snd (schedule_delete_retry npath m st))"
  by (simp add: schedule_delete_retry_def keeps_schedule_retry delete_operation keeps_refl)

lemma mutation_for_processing_same [simp]:
  "m_id (mutation_for_processing npath m st) = m_id m"
  "m_operation (mutation_for_processing npath m st) = m_operation m"
  "m_path (mutation_for_processing npath m st) = m_path m"
  "m_retry_count (mutation_for_processing npath m st) = m_retry_count m"
  "tag (mutation_for_processing npath m st) = tag m"
  by (simp_all add: mutation_for_processing_def Let_def tag_def pending_mutation_key_def)

lemma good_generation:
  "good st m \<Longrightarrow> (case g of None \<Rightarrow> True | Some x \<Rightarrow> x \<le> next_source_generation st) \<Longrightarrow> good st (m\<lparr>m_source_generation := g\<rparr>)"
  by (simp add: good_mutation_def)

lemma good_for_processing:
  assumes "rt_inv X st" "good st m"
  shows "good st (mutation_for_processing npath m st)"
  using assms(2) good_generation [OF assms(2) rt_inv_current_case [OF assms(1), of npath "m_path m"]]
  by (simp add: mutation_for_processing_def Let_def)

lemma keeps_prepare:
  assumes "rt_inv (insert (tag m) X) st" "good st m" "prepare_dequeued_mutation npath m st = ((m', owned), st')"
  shows "keeps X st st'" "good st' m'" "m_operation m' = m_operation m" "m_path m' = m_path m" "tag m' = tag m"
proof -
  have m': "m' = mutation_for_processing npath m st" "st' = release_pending_mutation m' st"
    using assms(3) by (auto simp: prepare_dequeued_mutation_def Let_def)
  show "keeps X st st'" using assms(1) by (simp add: m' keeps_def inv_release)
  have "good st m'" unfolding m'(1) using assms(1,2) by (rule good_for_processing)
  then show "good st' m'" by (rule good_newer) (simp add: m'(2))
qed (use assms(3) in \<open>auto simp: prepare_dequeued_mutation_def Let_def\<close>)

lemma keeps_get_prepare:
  assumes "rt_inv X st" "get_nowait st = Some (m, st1)" "prepare_dequeued_mutation npath m st1 = ((m', owned), st')"
  shows "keeps X st st'" "good st' m'"
proof -
  note g = inv_get [OF assms(1,2)]
  note p = keeps_prepare [OF g(1) good_newer [OF g(3) g(2)] assms(3)]
  show "keeps X st st'" using keeps_trans [OF g(2) p(1)] .
  show "good st' m'" by (rule p(2))
qed

lemma keeps_collect:
  assumes "rt_inv X st" "\<forall>b \<in> set batch. good st (fst b) \<and> m_operation (fst b) = ''delete''"
    "collect_loop npath k batch st = (batch', buf, st')"
  shows "keeps X st st' \<and> (\<forall>b \<in> set batch'. good st' (fst b) \<and> m_operation (fst b) = ''delete'')
    \<and> (case buf of None \<Rightarrow> True | Some b \<Rightarrow> good st' (fst b) \<and> m_operation (fst b) \<noteq> ''delete'')
    \<and> length batch' \<le> length batch + k"
  using assms
proof (induction npath k batch st rule: collect_loop.induct)
  case (2 npath k batch st)
  show ?case
  proof (cases "get_nowait st")
    case None
    with 2 show ?thesis by (auto simp: keeps_refl)
  next
    case (Some x)
    obtain m st1 where x: "x = (m, st1)" by force
    obtain m' owned st2 where p: "prepare_dequeued_mutation npath m st1 = ((m', owned), st2)"
      by (metis prod.exhaust)
    note kp = keeps_get_prepare [OF "2.prems"(1) Some [unfolded x] p]
    have old: "\<forall>b \<in> set batch. good st2 (fst b) \<and> m_operation (fst b) = ''delete''"
      using "2.prems"(2) kp(1) by (auto simp: keeps_def intro: good_newer)
    show ?thesis
    proof (cases "m_operation m' = ''delete''")
      case False
      with "2.prems"(3) old kp show ?thesis by (auto simp: Some x p)
    next
      case True
      have "keeps X st2 st' \<and> (\<forall>b \<in> set batch'. good st' (fst b) \<and> m_operation (fst b) = ''delete'')
        \<and> (case buf of None \<Rightarrow> True | Some b \<Rightarrow> good st' (fst b) \<and> m_operation (fst b) \<noteq> ''delete'')
        \<and> length batch' \<le> length (batch @ [(m', owned)]) + k"
        using "2.prems"(3) old kp True
        by (intro "2.IH" [OF Some x [symmetric] refl, of "(m', owned)" st2]) (auto simp: Some x p keeps_def split: prod.splits)
      then show ?thesis using kp(1) by (auto simp: keeps_def intro: newer_trans)
    qed
  qed
qed (auto simp: keeps_refl)

lemma keeps_follow_up:
  assumes inv: "rt_inv X st" and g: "g \<le> next_source_generation st"
  shows "keeps X st (snd (queue_follow_up_change npath p g fq st))"
proof -
  obtain m st1 where b: "build_mutation npath ''change'' p 0 (Some g) fq st = (m, st1)" by force
  obtain ok st2 where r: "register_pending_mutation m st1 = (ok, st2)" by force
  note bl = inv_build [OF inv b]
  have m: "good st1 m" using g by (intro bl(7)) (simp_all add: delete_operation MAX_RETRY_BUDGET_def)
  note rg = inv_register [OF bl(1) m r]
  have n: "newer st st2" using bl(2) rg(2) by (rule newer_trans)
  show ?thesis
  proof (cases ok)
    case True
    then have "keeps X st2 (snd (enqueue_mutation m False st2))"
      using keeps_enqueue_owned [of m X st2] rg(1,3) good_newer [OF m rg(2)] by auto
    with n True show ?thesis by (simp add: queue_follow_up_change_def b r keeps_trans)
  next
    case False
    have "keeps X st2 (refresh_pending_change_generation npath p (Some g) st2)"
      using False rg(1) n g by (intro keeps_refresh) (auto simp: newer_def)
    with n False show ?thesis by (simp add: queue_follow_up_change_def b r keeps_trans)
  qed
qed

lemma keeps_drain:
  assumes inv: "rt_inv X st"
  shows "keeps X st (drain_reserved_follow_up_change npath p q st)"
proof (cases "dict_get (reserved_follow_up_change_generations st) q")
  case (Some g)
  have r: "gens_ok (next_source_generation st) (reserved_follow_up_change_generations st)"
    using inv by (simp add: rt_inv_def queue_ok_def)
  let ?st = "st\<lparr>reserved_follow_up_change_generations := dict_del q (reserved_follow_up_change_generations st)\<rparr>"
  have "keeps X ?st (snd (queue_follow_up_change npath p g None ?st))"
    using rt_inv_reserved [OF inv gens_ok_del [OF r]] gens_ok_get [OF r Some] by (intro keeps_follow_up) simp_all
  then show ?thesis by (simp add: drain_reserved_follow_up_change_def Some keeps_def newer_def)
qed (simp add: drain_reserved_follow_up_change_def keeps_refl inv)

lemma keeps_frame [simp]: "keeps X (st\<lparr>pending_debounce := d\<rparr>) st' = keeps X st st'"
  by (simp add: keeps_def newer_def)

lemma keeps_chain: "keeps X a b \<Longrightarrow> (rt_inv X b \<Longrightarrow> newer a b \<Longrightarrow> keeps X b c) \<Longrightarrow> keeps X a c"
  by (auto simp: keeps_def intro: newer_trans)

lemma normalize_add_priority_operation: "normalize_add_priority p = (oper, d) \<Longrightarrow> oper \<in> mutation_operations"
  by (auto simp: normalize_add_priority_def mutation_operations_def MUTATION_PRIORITIES_def dict_keys_def split: if_splits)

text \<open>The body of \<open>add_file\<close> with its tuples taken apart.\<close>

lemma add_file_unfold:
  assumes "normalize_add_priority priority = (oper, debounced)"
    and "g = (if oper = ''change'' then current_source_generation npath file_path st else None)"
    and "build_mutation npath oper file_path 0 g None st = (m, st1)"
    and "register_pending_mutation m st1 = (ok, st2)"
  shows "add_file npath file_path priority st =
    (if oper = ''change'' \<and> m_path m \<in> fst ` set (active_change_generations st1)
        \<and> (''change'', m_path m) \<notin> fst ` set (pending_mutations st1)
     then (False, mark_coalesced_change npath (m_path m) (reserve_change_follow_up npath (m_path m) g st1))
     else if debounced \<and> m_path m \<in> fst ` set (pending_debounce st1)
     then (False, mark_coalesced_change npath (m_path m)
                    (st1\<lparr>pending_debounce := dict_set (m_path m) (monotonic st1) (pending_debounce st1)\<rparr>))
     else if \<not> ok
     then (False, if debounced
                  then mark_coalesced_change npath (m_path m)
                         (if m_path m \<in> fst ` set (pending_debounce st2)
                          then st2\<lparr>pending_debounce := dict_set (m_path m) (monotonic st2) (pending_debounce st2)\<rparr>
                          else st2)
                  else st2)
     else if debounced
     then (True, start_task (DebounceTask m)
                   (st2\<lparr>pending_debounce := dict_set (m_path m) (monotonic st2) (pending_debounce st2)\<rparr>))
     else enqueue_mutation m False st2)"
  using assms unfolding add_file_def by (simp only: Let_def prod.case)

lemma keeps_add_file:
  assumes inv: "rt_inv X st"
  shows "keeps X st (snd (add_file npath p priority st))"
proof -
  obtain oper debounced where n: "normalize_add_priority priority = (oper, debounced)" by force
  define g where "g = (if oper = ''change'' then current_source_generation npath p st else None)"
  obtain m st1 where b: "build_mutation npath oper p 0 g None st = (m, st1)" by force
  obtain ok st2 where r: "register_pending_mutation m st1 = (ok, st2)" by force
  note bl = inv_build [OF inv b]
  have g: "case g of None \<Rightarrow> True | Some x \<Rightarrow> x \<le> next_source_generation st"
    using rt_inv_current_case [OF inv] by (simp add: g_def)
  have m: "good st1 m"
    using g normalize_add_priority_operation [OF n] by (intro bl(7)) (simp_all add: MAX_RETRY_BUDGET_def)
  note rg = inv_register [OF bl(1) m r]
  have g1: "case g of None \<Rightarrow> True | Some x \<Rightarrow> x \<le> next_source_generation st1"
    using g bl(2) by (auto simp: newer_def split: option.splits)
  have res: "keeps X st1 (mark_coalesced_change npath q (reserve_change_follow_up npath q g st1))" for q
    by (rule keeps_chain [OF keeps_reserve [OF bl(1) g1]]) (rule keeps_coalesced)
  have deb: "keeps X st1 (mark_coalesced_change npath q (st1\<lparr>pending_debounce := d\<rparr>))" for q d
    using keeps_coalesced [of X "st1\<lparr>pending_debounce := d\<rparr>"] bl(1) by simp
  have add: "ok \<Longrightarrow> keeps X st2 (start_task (DebounceTask m) (st2\<lparr>pending_debounce := d\<rparr>))" for d
    using rg(1) good_newer [OF m rg(2)]
      inv_start_task [of "DebounceTask m" X "st2\<lparr>pending_debounce := d\<rparr>"]
      newer_start_task [of "st2\<lparr>pending_debounce := d\<rparr>" "DebounceTask m"]
    by (simp add: keeps_def newer_def)
  have enq: "ok \<Longrightarrow> keeps X st2 (snd (enqueue_mutation m False st2))"
    using keeps_enqueue_owned [of m X st2] rg(1,3) good_newer [OF m rg(2)] by auto
  have "keeps X st1 (snd (add_file npath p priority st))"
    using res deb add enq rg(1,2,4) keeps_refl [OF bl(1)] keeps_coalesced [OF bl(1)] keeps_trans [OF rg(2)]
    unfolding add_file_unfold [OF n g_def b r] by (auto split: if_splits)
  then show ?thesis by (rule keeps_trans [OF bl(2)])
qed

lemma keeps_debounced:
  assumes inv: "rt_inv (insert (tag m) X) st" and m: "good st m"
  shows "keeps X st (debounced_add_file m st)"
proof (cases "dict_get (pending_debounce st) (m_path m)")
  case None
  then show ?thesis using inv_release [OF inv] by (simp add: debounced_add_file_def keeps_def)
next
  case (Some t)
  let ?st = "st\<lparr>pending_debounce := dict_del (m_path m) (pending_debounce st)\<rparr>"
  let ?k = "pending_mutation_key m"
  show ?thesis
  proof (cases "debounce_delay - (monotonic st - t) > 0")
    case True
    then show ?thesis
      using inv_start_task [of "DebounceTask m" X st] inv m Some by (simp add: debounced_add_file_def keeps_def)
  next
    case False
    show ?thesis
    proof (cases "dict_get (pending_mutations st) ?k")
      case None
      then have "\<not> owns_pending_mutation m ?st" by (simp add: owns_pending_mutation_def)
      then show ?thesis
        using Some False None inv_release [of m X ?st] inv
        by (simp add: debounced_add_file_def Let_def enqueue_mutation_def keeps_def)
    next
      case (Some c)
      have ok: "pending_ok (pending_mutations st) (pending_path_counts st) (pending_files st)"
        using inv by (simp add: rt_inv_def queue_ok_def)
      have mem: "(?k, c) \<in> set (pending_mutations st)" using Some by (rule map_of_SomeD)
      then have key: "pending_mutation_key c = ?k" using ok by (auto simp: pending_ok_def)
      have owns: "owns_pending_mutation c ?st" using Some key by (simp add: owns_pending_mutation_def)
      have "snd (?k, c) \<in> live_mutations st" unfolding live_mutations_def using mem by (intro UnI1 imageI)
      then have c: "good st c" using inv by (simp add: rt_inv_def queue_ok_def)
      have "rt_inv X (put_mutation c ?st)"
      proof (cases "tag c = tag m")
        case True
        then show ?thesis using inv c by (intro inv_put) simp_all
      next
        case False
        then have "\<not> owns_pending_mutation m st" using Some key by (auto simp: owns_pending_mutation_def tag_def)
        then have "rt_inv X st" by (rule not_owner_inv [OF inv])
        then have "rt_inv (insert (tag c) X) ?st" by (auto intro: inv_weaken)
        then show ?thesis using c by (intro inv_put) simp_all
      qed
      moreover have "newer st (put_mutation c ?st)"
        using newer_put [of ?st c] by (simp add: newer_def)
      ultimately show ?thesis
        using \<open>dict_get (pending_debounce st) (m_path m) = Some t\<close> False Some owns
        by (simp add: debounced_add_file_def Let_def enqueue_mutation_def keeps_def)
    qed
  qed
qed

lemma keeps_cancel:
  assumes inv: "rt_inv (insert (tag (task_mutation t)) X) st"
  shows "keeps X st (cancel_task t st)"
proof (cases t)
  case (RetryTask m)
  then show ?thesis using inv by (simp add: cancel_task_def keeps_def inv_release)
next
  case (DebounceTask m)
  then show ?thesis using inv by (simp add: cancel_task_def keeps_def inv_release)
qed

subsection \<open>What the operations leave alone\<close>

text \<open>
  No operation of the queue touches the fields an extension of the record adds, nor the table of
  active changes, which belongs to the processing loop.
\<close>

lemma build_mutation_frame [simp]:
  "mutation_queue.more (snd (build_mutation npath oper p r g fq st)) = mutation_queue.more st"
  "active_change_generations (snd (build_mutation npath oper p r g fq st)) = active_change_generations st"
  by (simp_all add: build_mutation_def split: option.split transient_task.split)

lemma advance_source_generation_frame [simp]:
  "mutation_queue.more (snd (advance_source_generation npath p st)) = mutation_queue.more st"
  "active_change_generations (snd (advance_source_generation npath p st)) = active_change_generations st"
  by (simp_all add: advance_source_generation_def Let_def split: option.split transient_task.split)

lemma refresh_pending_change_generation_frame [simp]:
  "mutation_queue.more (refresh_pending_change_generation npath p g st) = mutation_queue.more st"
  "active_change_generations (refresh_pending_change_generation npath p g st) = active_change_generations st"
  by (simp_all add: refresh_pending_change_generation_def Let_def split: option.split transient_task.split)

lemma mark_coalesced_change_frame [simp]:
  "mutation_queue.more (mark_coalesced_change npath p st) = mutation_queue.more st"
  "active_change_generations (mark_coalesced_change npath p st) = active_change_generations st"
  by (simp_all add: mark_coalesced_change_def split: option.split transient_task.split)

lemma reserve_change_follow_up_frame [simp]:
  "mutation_queue.more (reserve_change_follow_up npath p g st) = mutation_queue.more st"
  "active_change_generations (reserve_change_follow_up npath p g st) = active_change_generations st"
  by (simp_all add: reserve_change_follow_up_def Let_def split: option.split transient_task.split)

lemma register_pending_mutation_frame [simp]:
  "mutation_queue.more (snd (register_pending_mutation m st)) = mutation_queue.more st"
  "active_change_generations (snd (register_pending_mutation m st)) = active_change_generations st"
  by (simp_all add: register_pending_mutation_def Let_def split: option.split transient_task.split)

lemma release_pending_mutation_frame [simp]:
  "mutation_queue.more (release_pending_mutation m st) = mutation_queue.more st"
  "active_change_generations (release_pending_mutation m st) = active_change_generations st"
  by (simp_all add: release_pending_mutation_def Let_def split: option.split transient_task.split)

lemma put_mutation_frame [simp]:
  "mutation_queue.more (put_mutation m st) = mutation_queue.more st"
  "active_change_generations (put_mutation m st) = active_change_generations st"
  by (simp_all add: put_mutation_def split: option.split transient_task.split)

lemma enqueue_mutation_frame [simp]:
  "mutation_queue.more (snd (enqueue_mutation m b st)) = mutation_queue.more st"
  "active_change_generations (snd (enqueue_mutation m b st)) = active_change_generations st"
  by (simp_all add: enqueue_mutation_def case_prod_beta Let_def split: option.split transient_task.split)

lemma start_task_frame [simp]:
  "mutation_queue.more (start_task t st) = mutation_queue.more st"
  "active_change_generations (start_task t st) = active_change_generations st"
  by (simp_all add: start_task_def split: option.split transient_task.split)

lemma retry_mutation_after_delay_frame [simp]:
  "mutation_queue.more (retry_mutation_after_delay npath m st) = mutation_queue.more st"
  "active_change_generations (retry_mutation_after_delay npath m st) = active_change_generations st"
  by (simp_all add: retry_mutation_after_delay_def split: option.split transient_task.split)

lemma schedule_retry_frame [simp]:
  "mutation_queue.more (snd (schedule_retry npath oper m st)) = mutation_queue.more st"
  "active_change_generations (snd (schedule_retry npath oper m st)) = active_change_generations st"
  by (simp_all add: schedule_retry_def case_prod_beta Let_def split: option.split transient_task.split)

lemma schedule_compaction_retry_frame [simp]:
  "mutation_queue.more (snd (schedule_compaction_retry npath m st)) = mutation_queue.more st"
  "active_change_generations (snd (schedule_compaction_retry npath m st)) = active_change_generations st"
  by (simp_all add: schedule_compaction_retry_def split: option.split transient_task.split)

lemma schedule_delete_retry_frame [simp]:
  "mutation_queue.more (snd (schedule_delete_retry npath m st)) = mutation_queue.more st"
  "active_change_generations (snd (schedule_delete_retry npath m st)) = active_change_generations st"
  by (simp_all add: schedule_delete_retry_def split: option.split transient_task.split)

lemma prepare_dequeued_mutation_frame [simp]:
  "mutation_queue.more (snd (prepare_dequeued_mutation npath m st)) = mutation_queue.more st"
  "active_change_generations (snd (prepare_dequeued_mutation npath m st)) = active_change_generations st"
  by (simp_all add: prepare_dequeued_mutation_def Let_def split: option.split transient_task.split)

lemma queue_follow_up_change_frame [simp]:
  "mutation_queue.more (snd (queue_follow_up_change npath p g2 fq st)) = mutation_queue.more st"
  "active_change_generations (snd (queue_follow_up_change npath p g2 fq st)) = active_change_generations st"
  by (simp_all add: queue_follow_up_change_def case_prod_beta Let_def split: option.split transient_task.split)

lemma drain_reserved_follow_up_change_frame [simp]:
  "mutation_queue.more (drain_reserved_follow_up_change npath p q st) = mutation_queue.more st"
  "active_change_generations (drain_reserved_follow_up_change npath p q st) = active_change_generations st"
  by (simp_all add: drain_reserved_follow_up_change_def split: option.split transient_task.split)

lemma add_file_frame [simp]:
  "mutation_queue.more (snd (add_file npath p priority st)) = mutation_queue.more st"
  "active_change_generations (snd (add_file npath p priority st)) = active_change_generations st"
  by (simp_all add: add_file_def case_prod_beta Let_def split: option.split transient_task.split)

lemma debounced_add_file_frame [simp]:
  "mutation_queue.more (debounced_add_file m st) = mutation_queue.more st"
  "active_change_generations (debounced_add_file m st) = active_change_generations st"
  by (simp_all add: debounced_add_file_def case_prod_beta Let_def split: option.split transient_task.split)

lemma cancel_task_frame [simp]:
  "mutation_queue.more (cancel_task t st) = mutation_queue.more st"
  "active_change_generations (cancel_task t st) = active_change_generations st"
  by (simp_all add: cancel_task_def split: option.split transient_task.split)

lemma get_nowait_frame:
  "get_nowait st = Some (m, st') \<Longrightarrow> mutation_queue.more st' = mutation_queue.more st
     \<and> active_change_generations st' = active_change_generations st"
  by (auto simp: get_nowait_def split: list.splits)

lemma collect_loop_frame:
  "collect_loop npath k batch st = (batch', buf, st') \<Longrightarrow> mutation_queue.more st' = mutation_queue.more st
     \<and> active_change_generations st' = active_change_generations st"
proof (induction npath k batch st rule: collect_loop.induct)
  case (2 npath k batch st)
  show ?case
  proof (cases "get_nowait st")
    case (Some x)
    obtain m st1 where x: "x = (m, st1)" by force
    obtain m' st2 where p: "prepare_dequeued_mutation npath m st1 = (m', st2)" by (rule prod.exhaust)
    have st2: "mutation_queue.more st2 = mutation_queue.more st" "active_change_generations st2 = active_change_generations st"
      using get_nowait_frame [OF Some [unfolded x]] prepare_dequeued_mutation_frame [of npath m st1] by (simp_all add: p)
    show ?thesis
      using "2.prems" "2.IH" [OF Some x [symmetric] refl, of m' st2] st2
      by (auto simp: Some x p split: if_splits)
  qed (use "2.prems" in simp)
qed simp

subsection \<open>The queue as an abstract priority queue\<close>

text \<open>
  What the processing loop relies on: \<open>put\<close> adds an element whose key is new, \<open>get\<close> takes one with
  the smallest key.  The contract speaks of the multiset of the elements.
\<close>

locale keyed_queue =
  fixes put :: "'e \<Rightarrow> 'q \<Rightarrow> 'q" and get :: "'q \<Rightarrow> ('e \<times> 'q) option"
    and elems :: "'q \<Rightarrow> 'e multiset" and key :: "'e \<Rightarrow> 'k :: linorder" and invar :: "'q \<Rightarrow> bool"
  assumes invar_put: "invar q \<Longrightarrow> key e \<notin> key ` set_mset (elems q) \<Longrightarrow> invar (put e q)"
    and elems_put: "elems (put e q) = add_mset e (elems q)"
    and get_None: "get q = None \<Longrightarrow> elems q = {#}"
    and get_Some: "invar q \<Longrightarrow> get q = Some (e, q') \<Longrightarrow>
      elems q = add_mset e (elems q') \<and> invar q' \<and> (\<forall>x \<in># elems q'. key e < key x)"
begin

fun take_all :: "nat \<Rightarrow> 'q \<Rightarrow> 'e list" where
  "take_all 0 q = []"
| "take_all (Suc n) q = (case get q of None \<Rightarrow> [] | Some (e, q') \<Rightarrow> e # take_all n q')"

lemma take_all_sorted:
  "invar q \<Longrightarrow> size (elems q) \<le> n \<Longrightarrow>
     mset (take_all n q) = elems q \<and> sorted_wrt (\<lambda>a b. key a < key b) (take_all n q)"
proof (induction n arbitrary: q)
  case (Suc n)
  show ?case
  proof (cases "get q")
    case None
    then show ?thesis using get_None by simp
  next
    case (Some x)
    obtain e q' where x: "x = (e, q')" by force
    note g = get_Some [OF Suc.prems(1) Some [unfolded x]]
    then have "size (elems q') \<le> n" using Suc.prems(2) by simp
    with Suc.IH [of q'] g have "mset (take_all n q') = elems q'" "sorted_wrt (\<lambda>a b. key a < key b) (take_all n q')" by auto
    then show ?thesis using g by (auto simp: Some x simp flip: set_mset_mset)
  qed
qed simp

lemma put_get_less:
  assumes "invar q" "key e \<notin> key ` set_mset (elems q)" "\<forall>x \<in># elems q. key e < key x"
  shows "\<exists>q'. get (put e q) = Some (e, q') \<and> elems q' = elems q"
proof -
  have inv: "invar (put e q)" using assms(1,2) by (rule invar_put)
  have "get (put e q) \<noteq> None" using get_None [of "put e q"] by (metis elems_put add_mset_not_empty)
  then obtain f q' where f: "get (put e q) = Some (f, q')" by (metis option.exhaust prod.exhaust)
  note g = get_Some [OF inv f]
  have "f = e"
  proof (rule ccontr)
    assume "f \<noteq> e"
    have "add_mset e (elems q) = add_mset f (elems q')" using g by (simp add: elems_put)
    with \<open>f \<noteq> e\<close> have "f \<in># elems q" "e \<in># elems q'" by (metis insert_noteq_member)+
    then have "key f < key e" "key e < key f" using g assms(3) by auto
    then show False by simp
  qed
  then show ?thesis using f g by (simp add: elems_put)
qed

end

definition queue_pop :: "queue_entry list \<Rightarrow> (queue_entry \<times> queue_entry list) option" where
  "queue_pop q = (case q of [] \<Rightarrow> None | e # es \<Rightarrow> Some (e, es))"

definition strictly_sorted :: "queue_entry list \<Rightarrow> bool" where
  "strictly_sorted q \<longleftrightarrow> sorted_wrt (\<lambda>a b. entry_key a < entry_key b) q"

lemma mset_queue_put: "mset (queue_put e q) = add_mset e (mset q)"
  by (induction q) auto

interpretation pq: keyed_queue queue_put queue_pop mset entry_key strictly_sorted
proof
  show "strictly_sorted q \<Longrightarrow> entry_key e \<notin> entry_key ` set_mset (mset q) \<Longrightarrow> strictly_sorted (queue_put e q)" for e q
    unfolding strictly_sorted_def by (rule queue_put_sorted) (simp_all, metis image_eqI)
  show "mset (queue_put e q) = add_mset e (mset q)" for e q by (rule mset_queue_put)
qed (auto simp: queue_pop_def strictly_sorted_def split: list.splits)

lemma get_nowait_pop: "get_nowait st = map_option (\<lambda>(e, q). (snd (snd e), st\<lparr>file_queue := q\<rparr>)) (queue_pop (file_queue st))"
  by (simp add: get_nowait_def queue_pop_def split: list.split)

subsection \<open>Properties of single operations\<close>

definition pending_delete_generation :: "string \<Rightarrow> 'a mutation_queue_scheme \<Rightarrow> int option" where
  "pending_delete_generation p st =
     (case dict_get (pending_mutations st) (''delete'', p) of None \<Rightarrow> None | Some m \<Rightarrow> m_source_generation m)"

text \<open>
  registering a delete never makes the pending delete of its path older: the pending one ends
  up with a generation at least that of the registered one, and at least the one it had.  The
  registration fails only when a delete of the same path is pending and stays.
\<close>

theorem register_delete_newest:
  assumes "queue_ok st" "m_operation m = ''delete''" "register_pending_mutation m st = (b, st')"
  shows "(\<forall>g. m_source_generation m = Some g \<longrightarrow> (\<exists>h. pending_delete_generation (m_path m) st' = Some h \<and> g \<le> h))
    \<and> (\<forall>g. pending_delete_generation (m_path m) st = Some g \<longrightarrow> (\<exists>h. pending_delete_generation (m_path m) st' = Some h \<and> g \<le> h))
    \<and> (if b then owns_pending_mutation m st'
       else st' = st \<and> dict_get (pending_mutations st) (''delete'', m_path m) \<noteq> None)"
proof -
  have "m_operation x = ''delete''" if "dict_get (pending_mutations st) (''delete'', m_path m) = Some x" for x
    using map_of_SomeD [OF that] assms(1) by (auto simp: queue_ok_def pending_ok_def pending_mutation_key_def)
  with assms(2,3) show ?thesis
    by (auto simp: register_pending_mutation_def pending_delete_generation_def pending_mutation_key_def
        delete_mutation_supersedes_existing_def owns_pending_mutation_def Let_def split: option.splits if_splits)
qed

definition sample_queue :: "unit mutation_queue_scheme" where
  "sample_queue =
     \<lparr>file_queue = [], queue_sequence = 0, next_mutation_id = 0, pending_files = {}, pending_mutations = [],
      pending_path_counts = [], pending_debounce = [], transient_tasks = [], next_source_generation = 3,
      latest_source_generation_by_path = [(''a.py'', 3)], active_change_generations = [],
      reserved_follow_up_change_generations = [], utc_now = '''', monotonic = 0, wall_time = 0\<rparr>"

definition sample_delete :: realtime_mutation where
  "sample_delete = \<lparr>m_id = 0, m_operation = ''delete'', m_path = ''a.py'', m_first_queued_at = '''', m_retry_count = 0,
     m_source_generation = Some 2\<rparr>"

lemma sample_queue_ok: "queue_ok sample_queue"
  by (simp add: sample_queue_def queue_ok_def pending_ok_def entries_ok_def live_mutations_def gens_ok_def
      path_count_def dict_ok_def)

theorem register_delete_newest_witness:
  "pending_delete_generation ''a.py'' (snd (register_pending_mutation sample_delete sample_queue)) = Some 2"
proof -
  obtain b st' where r: "register_pending_mutation sample_delete sample_queue = (b, st')" by force
  have "m_operation sample_delete = ''delete''" by (simp add: sample_delete_def)
  from register_delete_newest [OF sample_queue_ok this r] obtain h where
    "pending_delete_generation ''a.py'' st' = Some h" "2 \<le> h" by (auto simp: sample_delete_def)
  then show ?thesis using r
    by (auto simp: register_pending_mutation_def sample_queue_def sample_delete_def pending_mutation_key_def
        pending_delete_generation_def Let_def)
qed

end
