(* ===== verification/Realtime_Loop.thy ===== *)
theory Realtime_Loop
  imports Realtime_Queue
begin

text \<open>
  The event consumer, the processing loop, the overflow recovery and the polling monitor of the
  realtime service (\<open>services/realtime/pipeline.py\<close>), on top of the mutation queue.

  The processing loop is cut at the calls it awaits: \<open>process_begin\<close> runs from taking a mutation
  to the next call of the database or of the indexing coordinator, recorded in the field \<open>busy\<close>,
  and \<open>process_end\<close> runs from the outcome of that call to the next iteration.  The call itself is
  the environment: it yields an outcome, and any other step may happen while it runs.
  \<open>normalize_file_path\<close> is the argument \<open>rpath\<close>, \<open>Path.exists\<close> the argument \<open>exists\<close>.
\<close>

subsection \<open>State\<close>

datatype awaited_call =
    EmbedCall realtime_mutation
  | DeleteCall realtime_mutation
  | DeleteBatchCall "realtime_mutation list" "int list"
  | DirDeleteCall realtime_mutation
  | DirIndexCall realtime_mutation
  | FileCall realtime_mutation

datatype resync_phase =
    ResyncStarting
  | ResyncDebouncing "rat option"
  | ResyncCalling "rat option" string

record realtime = mutation_queue +
  event_queue :: "(string \<times> string) list"
  recent_file_events :: "(string, string \<times> rat) pydict"
  failed_files :: "string set"
  indexed_files :: "string set"
  removed_files :: "string set"
  active_processing_count :: int
  processing_error_count :: int
  suppressed_duplicate_count :: int
  event_queue_accepted :: int
  event_queue_dropped :: int
  overflow_state :: string
  overflow_burst_count :: int
  overflow_current_burst_dropped :: int
  overflow_last_burst_dropped :: int
  resync_requests :: "string list"
  needs_resync :: bool
  resync_in_progress :: bool
  resync_request_count :: int
  resync_performed_count :: int
  last_resync_reason :: "string option"
  last_resync_request_monotonic :: "rat option"
  resync_dispatch_task :: "resync_phase option"
  buffered_mutation :: "(realtime_mutation \<times> bool) option"
  busy :: "awaited_call option"

definition initial_realtime :: realtime where
  "initial_realtime =
     \<lparr>file_queue = [], queue_sequence = 0, next_mutation_id = 0, pending_files = {}, pending_mutations = [],
      pending_path_counts = [], pending_debounce = [], transient_tasks = [], next_source_generation = 0,
      latest_source_generation_by_path = [], active_change_generations = [],
      reserved_follow_up_change_generations = [], utc_now = '''', monotonic = 0, wall_time = 0,
      event_queue = [], recent_file_events = [], failed_files = {}, indexed_files = {}, removed_files = {},
      active_processing_count = 0, processing_error_count = 0, suppressed_duplicate_count = 0,
      event_queue_accepted = 0, event_queue_dropped = 0, overflow_state = ''idle'', overflow_burst_count = 0,
      overflow_current_burst_dropped = 0, overflow_last_burst_dropped = 0, resync_requests = [],
      needs_resync = False, resync_in_progress = False, resync_request_count = 0, resync_performed_count = 0,
      last_resync_reason = None, last_resync_request_monotonic = None, resync_dispatch_task = None,
      buffered_mutation = None, busy = None\<rparr>"

definition EVENT_QUEUE_MAXSIZE :: nat where "EVENT_QUEUE_MAXSIZE = 1000"
definition EVENT_DEDUP_WINDOW_SECONDS :: rat where "EVENT_DEDUP_WINDOW_SECONDS = 2"
definition EVENT_HISTORY_RETENTION_SECONDS :: rat where "EVENT_HISTORY_RETENTION_SECONDS = 10"

text \<open>What an awaited call may yield: its result, or one of the exceptions the code tells apart.\<close>

datatype 'r outcome = Done 'r | TransactionConflict | TemporarilyUnavailable | OtherException

subsection \<open>Overflow of the event queue and resync requests\<close>

definition record_event_queue_overflow :: "realtime \<Rightarrow> realtime" where
  "record_event_queue_overflow st =
     (if overflow_state st = ''idle''
      then st\<lparr>overflow_state := ''reconciling'', overflow_burst_count := overflow_burst_count st + 1,
              overflow_current_burst_dropped := 1,
              resync_requests := resync_requests st @ [''event_queue_overflow'']\<rparr>
      else st\<lparr>overflow_current_burst_dropped := overflow_current_burst_dropped st + 1\<rparr>)"

definition complete_event_queue_overflow_burst :: "bool \<Rightarrow> realtime \<Rightarrow> realtime" where
  "complete_event_queue_overflow_burst success st =
     (if overflow_state st = ''idle'' then st
      else
        (let drop_count = max (overflow_current_burst_dropped st) 1;
             st1 = st\<lparr>overflow_last_burst_dropped := drop_count\<rparr>
         in if success then st1\<lparr>overflow_state := ''idle'', overflow_current_burst_dropped := 0\<rparr>
            else st1\<lparr>overflow_state := ''failed''\<rparr>))"

definition request_resync :: "string \<Rightarrow> realtime \<Rightarrow> realtime" where
  "request_resync reason st =
     (let st1 = st\<lparr>needs_resync := True, resync_request_count := resync_request_count st + 1,
                   last_resync_reason := Some reason, last_resync_request_monotonic := Some (monotonic st)\<rparr>
      in if resync_dispatch_task st1 \<noteq> None then st1
         else st1\<lparr>resync_dispatch_task := Some ResyncStarting\<rparr>)"

text \<open>
  \<open>_dispatch_resync\<close> from one suspension to the next: its start, a wake-up from the debounce sleep
  (\<open>callback\<close> says whether a resync callback is configured), and the outcome of the callback.
\<close>

definition resync_start :: "realtime \<Rightarrow> realtime" where
  "resync_start st =
     (case resync_dispatch_task st of
        Some ResyncStarting \<Rightarrow>
          st\<lparr>resync_dispatch_task := Some (ResyncDebouncing (last_resync_request_monotonic st))\<rparr>
      | _ \<Rightarrow> st)"

definition resync_wake :: "bool \<Rightarrow> realtime \<Rightarrow> realtime" where
  "resync_wake callback st =
     (case resync_dispatch_task st of
        Some (ResyncDebouncing requested_at) \<Rightarrow>
          if requested_at \<noteq> last_resync_request_monotonic st
          then st\<lparr>resync_dispatch_task := Some (ResyncDebouncing (last_resync_request_monotonic st))\<rparr>
          else if \<not> callback
          then (complete_event_queue_overflow_burst False st)\<lparr>resync_dispatch_task := None\<rparr>
          else st\<lparr>resync_in_progress := True,
                  resync_dispatch_task := Some (ResyncCalling (last_resync_request_monotonic st)
                    (if truthy_str (last_resync_reason st) then the (last_resync_reason st) else ''unspecified''))\<rparr>
      | _ \<Rightarrow> st)"

definition resync_end :: "bool \<Rightarrow> realtime \<Rightarrow> realtime" where
  "resync_end success st =
     (case resync_dispatch_task st of
        Some (ResyncCalling started reason) \<Rightarrow>
          if \<not> success
          then (complete_event_queue_overflow_burst False st)\<lparr>resync_in_progress := False, resync_dispatch_task := None\<rparr>
          else
            (let st1 = (complete_event_queue_overflow_burst True
                         (st\<lparr>needs_resync := False, resync_performed_count := resync_performed_count st + 1\<rparr>))
             in if started = last_resync_request_monotonic st1
                then st1\<lparr>resync_in_progress := False, resync_dispatch_task := None\<rparr>
                else st1\<lparr>resync_in_progress := True,
                         resync_dispatch_task := Some (ResyncCalling (last_resync_request_monotonic st1)
                           (if truthy_str (last_resync_reason st1) then the (last_resync_reason st1) else reason))\<rparr>)
      | _ \<Rightarrow> st)"

subsection \<open>Arrival of events\<close>

definition record_accepted_event :: "(string \<Rightarrow> string) \<Rightarrow> string \<Rightarrow> realtime \<Rightarrow> realtime" where
  "record_accepted_event npath file_path st =
     (let p = npath file_path; (g, st1) = advance_source_generation npath p st
      in refresh_pending_change_generation npath p (Some g) st1)"

definition handle_queue_result :: "(string \<Rightarrow> string) \<Rightarrow> string \<Rightarrow> bool \<Rightarrow> realtime \<Rightarrow> realtime" where
  "handle_queue_result npath file_path accepted st =
     (if accepted
      then record_accepted_event npath file_path (st\<lparr>event_queue_accepted := event_queue_accepted st + 1\<rparr>)
      else record_event_queue_overflow (st\<lparr>event_queue_dropped := event_queue_dropped st + 1\<rparr>))"

text \<open>\<open>_enqueue_realtime_event\<close> with the queue of the service, which is bounded.\<close>

definition enqueue_realtime_event :: "(string \<Rightarrow> string) \<Rightarrow> string \<Rightarrow> string \<Rightarrow> realtime \<Rightarrow> realtime" where
  "enqueue_realtime_event npath event_type file_path st =
     (if length (event_queue st) < EVENT_QUEUE_MAXSIZE
      then handle_queue_result npath file_path True (st\<lparr>event_queue := event_queue st @ [(event_type, file_path)]\<rparr>)
      else handle_queue_result npath file_path False st)"

definition is_duplicate_event :: "string \<Rightarrow> string \<Rightarrow> realtime \<Rightarrow> bool" where
  "is_duplicate_event event_type file_key st =
     (case dict_get (recent_file_events st) file_key of
        None \<Rightarrow> False
      | Some (last_type, last_time) \<Rightarrow>
          last_type = event_type \<and> wall_time st - last_time < EVENT_DEDUP_WINDOW_SECONDS)"

definition remember_event :: "string \<Rightarrow> string \<Rightarrow> realtime \<Rightarrow> realtime" where
  "remember_event event_type file_key st =
     (let d = dict_set file_key (event_type, wall_time st) (recent_file_events st)
      in st\<lparr>recent_file_events :=
             (if length d > 1000
              then filter (\<lambda>(k, v). snd v > wall_time st - EVENT_HISTORY_RETENTION_SECONDS) d else d)\<rparr>)"

definition enqueue_new ::
  "(string \<Rightarrow> string) \<Rightarrow> string \<Rightarrow> string \<Rightarrow> int option \<Rightarrow> realtime \<Rightarrow> realtime" where
  "enqueue_new npath oper file_path generation st =
     (let (m, st1) = build_mutation npath oper file_path 0 generation None st in snd (enqueue_mutation m True st1))"

definition dispatch_event :: "(string \<Rightarrow> string) \<Rightarrow> string \<Rightarrow> string \<Rightarrow> realtime \<Rightarrow> realtime" where
  "dispatch_event npath event_type file_path st =
     (if event_type \<in> {''created'', ''modified''} then snd (add_file npath file_path ''change'' st)
      else if event_type = ''deleted''
      then enqueue_new npath ''delete'' file_path (current_source_generation npath file_path st) st
      else if event_type = ''dir_created'' then enqueue_new npath ''dir_index'' file_path None st
      else if event_type = ''dir_deleted''
      then enqueue_new npath ''dir_delete'' file_path (current_source_generation npath file_path st) st
      else st)"

text \<open>One round of \<open>_consume_events\<close>; with an empty queue the wait times out.\<close>

definition consume_event :: "(string \<Rightarrow> string) \<Rightarrow> realtime \<Rightarrow> realtime" where
  "consume_event npath st =
     (case event_queue st of
        [] \<Rightarrow> st
      | (event_type, file_path) # rest \<Rightarrow>
          (let st1 = st\<lparr>event_queue := rest\<rparr>
           in if is_duplicate_event event_type file_path st1
              then st1\<lparr>suppressed_duplicate_count := suppressed_duplicate_count st1 + 1\<rparr>
              else dispatch_event npath event_type file_path (remember_event event_type file_path st1)))"

subsection \<open>Outcomes of one mutation\<close>

definition processing_started :: "realtime \<Rightarrow> realtime" where
  "processing_started st = st\<lparr>active_processing_count := active_processing_count st + 1\<rparr>"

definition processing_finished :: "realtime \<Rightarrow> realtime" where
  "processing_finished st =
     (if active_processing_count st > 0
      then st\<lparr>active_processing_count := active_processing_count st - 1\<rparr> else st)"

definition record_failure :: "string list \<Rightarrow> realtime \<Rightarrow> realtime" where
  "record_failure paths st =
     st\<lparr>failed_files := failed_files st \<union> set paths, processing_error_count := processing_error_count st + 1\<rparr>"

definition handle_compaction_busy :: "(string \<Rightarrow> string) \<Rightarrow> realtime_mutation \<Rightarrow> realtime \<Rightarrow> realtime" where
  "handle_compaction_busy npath m st =
     (let (scheduled, st1) = schedule_compaction_retry npath m st
      in if scheduled then st1 else record_failure [m_path m] st1)"

text \<open>
  The loops over a batch: each mutation is retried if \<open>retry\<close> accepts it; the others are the
  exhausted ones.
\<close>

fun retry_batch ::
  "(realtime_mutation \<Rightarrow> realtime \<Rightarrow> bool \<times> realtime) \<Rightarrow> realtime_mutation list \<Rightarrow> realtime \<Rightarrow>
     realtime_mutation list \<times> realtime" where
  "retry_batch retry [] st = ([], st)"
| "retry_batch retry (m # ms) st =
     (let (ok, st1) = retry m st; (exhausted, st2) = retry_batch retry ms st1
      in (if ok then exhausted else m # exhausted, st2))"

definition handle_compaction_busy_batch ::
  "(string \<Rightarrow> string) \<Rightarrow> realtime_mutation list \<Rightarrow> realtime \<Rightarrow> realtime" where
  "handle_compaction_busy_batch npath ms st =
     (let (exhausted, st1) = retry_batch (schedule_compaction_retry npath) ms st
      in if exhausted \<noteq> [] then record_failure (map m_path exhausted) st1 else st1)"

subsection \<open>Deletes\<close>

definition process_delete_begin ::
  "(string \<Rightarrow> string) \<Rightarrow> realtime_mutation \<Rightarrow> bool \<Rightarrow> realtime \<Rightarrow> realtime" where
  "process_delete_begin npath m owned st =
     (let stale = delete_mutation_is_stale npath m st
      in if \<not> owned \<and> \<not> stale then st
         else if stale then processing_finished (processing_started st)
         else (processing_started st)\<lparr>busy := Some (DeleteCall m)\<rparr>)"

definition process_delete_end ::
  "(string \<Rightarrow> string) \<Rightarrow> (string \<Rightarrow> string) \<Rightarrow> realtime_mutation \<Rightarrow> unit outcome \<Rightarrow> realtime \<Rightarrow> realtime" where
  "process_delete_end npath rpath m out st =
     processing_finished
       (case out of
          Done _ \<Rightarrow> st\<lparr>removed_files := insert (rpath (m_path m)) (removed_files st)\<rparr>
        | TransactionConflict \<Rightarrow>
            if delete_mutation_is_stale npath m st then st
            else
              (let (scheduled, st1) = schedule_delete_retry npath m st
               in if scheduled then st1 else record_failure [m_path m] st1)
        | TemporarilyUnavailable \<Rightarrow> handle_compaction_busy npath m st
        | OtherException \<Rightarrow> record_failure [m_path m] st)"

text \<open>The first loop of \<open>_process_delete_batch\<close>: the active mutations and the ids already finished.\<close>

fun delete_batch_loop ::
  "(string \<Rightarrow> string) \<Rightarrow> (realtime_mutation \<times> bool) list \<Rightarrow> realtime_mutation list \<Rightarrow> int list \<Rightarrow> realtime \<Rightarrow>
     realtime_mutation list \<times> int list \<times> realtime" where
  "delete_batch_loop npath [] active finished st = (active, finished, st)"
| "delete_batch_loop npath ((m, owned) # ms) active finished st =
     (let stale = delete_mutation_is_stale npath m st
      in if \<not> owned \<and> \<not> stale then delete_batch_loop npath ms active finished st
         else if stale
         then delete_batch_loop npath ms (active @ [m]) (m_id m # finished) (processing_finished (processing_started st))
         else delete_batch_loop npath ms (active @ [m]) finished (processing_started st))"

definition executable :: "realtime_mutation list \<Rightarrow> int list \<Rightarrow> realtime_mutation list" where
  "executable active finished = filter (\<lambda>m. m_id m \<notin> set finished) active"

definition process_delete_batch_begin ::
  "(string \<Rightarrow> string) \<Rightarrow> (realtime_mutation \<times> bool) list \<Rightarrow> realtime \<Rightarrow> realtime" where
  "process_delete_batch_begin npath ms st =
     (let (active, finished, st1) = delete_batch_loop npath ms [] [] st
      in if executable active finished = [] then st1
         else st1\<lparr>busy := Some (DeleteBatchCall active finished)\<rparr>)"

fun finish_all :: "nat \<Rightarrow> realtime \<Rightarrow> realtime" where
  "finish_all 0 st = st"
| "finish_all (Suc n) st = finish_all n (processing_finished st)"

text \<open>
  The loop after a transaction conflict: stale mutations are finished, the others retried;
  the result has the exhausted mutations and the finished ids.
\<close>

fun conflict_loop ::
  "(string \<Rightarrow> string) \<Rightarrow> realtime_mutation list \<Rightarrow> int list \<Rightarrow> realtime \<Rightarrow>
     realtime_mutation list \<times> int list \<times> realtime" where
  "conflict_loop npath [] finished st = ([], finished, st)"
| "conflict_loop npath (m # ms) finished st =
     (if delete_mutation_is_stale npath m st
      then conflict_loop npath ms (m_id m # finished) (processing_finished st)
      else
        (let (ok, st1) = schedule_delete_retry npath m st;
             (exhausted, finished', st2) = conflict_loop npath ms finished st1
         in (if ok then exhausted else m # exhausted, finished', st2)))"

definition process_delete_batch_end ::
  "(string \<Rightarrow> string) \<Rightarrow> realtime_mutation list \<Rightarrow> int list \<Rightarrow> unit outcome \<Rightarrow> realtime \<Rightarrow> realtime" where
  "process_delete_batch_end npath active finished out st =
     (let ms = executable active finished;
          (finished', st') =
            (case out of
               Done _ \<Rightarrow> (map m_id ms @ finished, finish_all (length ms) st)
             | TransactionConflict \<Rightarrow>
                 (let (exhausted, finished', st1) = conflict_loop npath ms finished st
                  in (finished', if exhausted \<noteq> [] then record_failure (map m_path exhausted) st1 else st1))
             | TemporarilyUnavailable \<Rightarrow> (finished, handle_compaction_busy_batch npath ms st)
             | OtherException \<Rightarrow> (finished, record_failure (map m_path ms) st))
      in finish_all (length (executable active finished')) st')"

subsection \<open>Directories, embeddings and files\<close>

text \<open>The loop of \<open>_cleanup_deleted_directory\<close> over the stored paths below the directory.\<close>

fun cleanup_loop :: "(string \<Rightarrow> string) \<Rightarrow> int option \<Rightarrow> string list \<Rightarrow> realtime \<Rightarrow> realtime" where
  "cleanup_loop npath generation [] st = st"
| "cleanup_loop npath generation (p # ps) st =
     (if p = [] then cleanup_loop npath generation ps st
      else cleanup_loop npath generation ps (enqueue_new npath ''delete'' p generation st))"

definition process_dir_delete_end ::
  "(string \<Rightarrow> string) \<Rightarrow> realtime_mutation \<Rightarrow> string list outcome \<Rightarrow> realtime \<Rightarrow> realtime" where
  "process_dir_delete_end npath m out st =
     processing_finished
       (case out of
          Done paths \<Rightarrow> cleanup_loop npath (m_source_generation m) paths st
        | TemporarilyUnavailable \<Rightarrow> handle_compaction_busy npath m st
        | _ \<Rightarrow> record_failure [m_path m] st)"

fun add_files :: "(string \<Rightarrow> string) \<Rightarrow> string list \<Rightarrow> realtime \<Rightarrow> realtime" where
  "add_files npath [] st = st"
| "add_files npath (p # ps) st = add_files npath ps (snd (add_file npath p ''change'' st))"

definition index_directory_end :: "(string \<Rightarrow> string) \<Rightarrow> string list outcome \<Rightarrow> realtime \<Rightarrow> realtime" where
  "index_directory_end npath out st =
     processing_finished
       (case out of Done paths \<Rightarrow> add_files npath paths st | _ \<Rightarrow> record_failure [] st)"

definition process_embed_end ::
  "(string \<Rightarrow> string) \<Rightarrow> realtime_mutation \<Rightarrow> unit outcome \<Rightarrow> realtime \<Rightarrow> realtime" where
  "process_embed_end npath m out st =
     processing_finished
       (case out of
          Done _ \<Rightarrow> st
        | TemporarilyUnavailable \<Rightarrow> handle_compaction_busy npath m st
        | _ \<Rightarrow> record_failure [] st)"

text \<open>
  After \<open>process_file\<close>: on success the file is recorded, its entry of the duplicate filter is
  cleared and an embedding pass is queued; in every case the active mark is removed and a reserved
  follow-up change is queued; then the exception, if any, reaches the handlers of the loop.
\<close>

definition process_file_end ::
  "(string \<Rightarrow> string) \<Rightarrow> (string \<Rightarrow> string) \<Rightarrow> realtime_mutation \<Rightarrow> unit outcome \<Rightarrow> realtime \<Rightarrow> realtime" where
  "process_file_end npath rpath m out st =
     (let st1 =
            (case out of
               Done _ \<Rightarrow>
                 snd (add_file npath (m_path m) ''embed''
                   (st\<lparr>indexed_files := insert (rpath (m_path m)) (indexed_files st),
                      recent_file_events := dict_del (m_path m) (recent_file_events st)\<rparr>))
             | _ \<Rightarrow> st);
          st2 = processing_finished st1;
          st3 = (if m_operation m \<in> {''change'', ''scan''}
                 then drain_reserved_follow_up_change npath (m_path m) (m_path m)
                        (st2\<lparr>active_change_generations := dict_del (m_path m) (active_change_generations st2)\<rparr>)
                 else st2)
      in case out of
           Done _ \<Rightarrow> st3
         | TemporarilyUnavailable \<Rightarrow>
             (let (scheduled, st4) = schedule_compaction_retry npath m st3
              in if scheduled then st4 else record_failure [rpath (m_path m)] st4)
         | _ \<Rightarrow> record_failure [rpath (m_path m)] st3)"

subsection \<open>The processing loop\<close>

definition begin_mutation ::
  "(string \<Rightarrow> string) \<Rightarrow> (string \<Rightarrow> string) \<Rightarrow> (string \<Rightarrow> bool) \<Rightarrow> realtime_mutation \<Rightarrow> bool \<Rightarrow> realtime \<Rightarrow> realtime" where
  "begin_mutation npath rpath exists m owned st =
     (let is_change = m_operation m \<in> {''change'', ''scan''};
          st1 = (if is_change
                 then st\<lparr>active_change_generations :=
                           dict_set (m_path m) (m_source_generation m) (active_change_generations st)\<rparr>
                 else st)
      in if m_operation m = ''embed'' then (processing_started st1)\<lparr>busy := Some (EmbedCall m)\<rparr>
         else if m_operation m = ''delete''
         then (let (batch, buffered, st2) = collect_delete_batch npath m owned st1;
                   st3 = st2\<lparr>buffered_mutation := buffered\<rparr>
               in if length batch = 1 then process_delete_begin npath m owned st3
                  else process_delete_batch_begin npath batch st3)
         else if m_operation m = ''dir_delete'' then (processing_started st1)\<lparr>busy := Some (DirDeleteCall m)\<rparr>
         else if m_operation m = ''dir_index'' then (processing_started st1)\<lparr>busy := Some (DirIndexCall m)\<rparr>
         else if \<not> exists (m_path m)
         then (let st2 = (if is_change
                          then st1\<lparr>active_change_generations := dict_del (m_path m) (active_change_generations st1)\<rparr>
                          else st1)
               in st2\<lparr>failed_files := insert (rpath (m_path m)) (failed_files st2)\<rparr>)
         else (processing_started st1)\<lparr>busy := Some (FileCall m)\<rparr>)"

text \<open>With an empty queue and no buffered mutation the loop waits in \<open>file_queue.get\<close>.\<close>

definition process_begin ::
  "(string \<Rightarrow> string) \<Rightarrow> (string \<Rightarrow> string) \<Rightarrow> (string \<Rightarrow> bool) \<Rightarrow> realtime \<Rightarrow> realtime" where
  "process_begin npath rpath exists st =
     (case buffered_mutation st of
        Some (m, owned) \<Rightarrow> begin_mutation npath rpath exists m owned (st\<lparr>buffered_mutation := None\<rparr>)
      | None \<Rightarrow>
          (case get_nowait st of
             None \<Rightarrow> st
           | Some (queued, st1) \<Rightarrow>
               (let ((m, owned), st2) = prepare_dequeued_mutation npath queued st1
                in begin_mutation npath rpath exists m owned st2)))"

definition unit_outcome :: "'r outcome \<Rightarrow> unit outcome" where
  "unit_outcome out =
     (case out of Done _ \<Rightarrow> Done () | TransactionConflict \<Rightarrow> TransactionConflict
      | TemporarilyUnavailable \<Rightarrow> TemporarilyUnavailable | OtherException \<Rightarrow> OtherException)"

text \<open>The outcome carries the paths the directory calls return; the other calls ignore them.\<close>

definition process_end ::
  "(string \<Rightarrow> string) \<Rightarrow> (string \<Rightarrow> string) \<Rightarrow> string list outcome \<Rightarrow> realtime \<Rightarrow> realtime" where
  "process_end npath rpath out st =
     (case busy st of
        None \<Rightarrow> st
      | Some call \<Rightarrow>
          (let st1 = st\<lparr>busy := None\<rparr>
           in case call of
                EmbedCall m \<Rightarrow> process_embed_end npath m (unit_outcome out) st1
              | DeleteCall m \<Rightarrow> process_delete_end npath rpath m (unit_outcome out) st1
              | DeleteBatchCall active finished \<Rightarrow> process_delete_batch_end npath active finished (unit_outcome out) st1
              | DirDeleteCall m \<Rightarrow> process_dir_delete_end npath m out st1
              | DirIndexCall m \<Rightarrow> index_directory_end npath out st1
              | FileCall m \<Rightarrow> process_file_end npath rpath m (unit_outcome out) st1))"

subsection \<open>The polling monitor\<close>

text \<open>One round of \<open>_polling_monitor\<close>: the known fingerprints, the current ones, the deleted paths.\<close>

definition poll_changed :: "(string \<Rightarrow> string) \<Rightarrow> string \<Rightarrow> realtime \<Rightarrow> realtime" where
  "poll_changed npath file_path st =
     (let (accepted, st1) = add_file npath file_path ''change'' st
      in if accepted then record_accepted_event npath file_path st1
         else
           (let (g, st2) = advance_source_generation npath file_path st1
            in reserve_change_follow_up npath file_path (Some g)
                 (refresh_pending_change_generation npath file_path (Some g) st2)))"

fun poll_files ::
  "(string \<Rightarrow> string) \<Rightarrow> (string, int \<times> int) pydict \<Rightarrow> (string, int \<times> int) pydict \<Rightarrow> realtime \<Rightarrow> realtime" where
  "poll_files npath known [] st = st"
| "poll_files npath known ((file_path, fingerprint) # fs) st =
     poll_files npath known fs
       (if dict_get known file_path = Some fingerprint then st else poll_changed npath file_path st)"

definition poll_deleted :: "(string \<Rightarrow> string) \<Rightarrow> string \<Rightarrow> realtime \<Rightarrow> realtime" where
  "poll_deleted npath file_path st =
     (let st1 = record_accepted_event npath file_path st
      in enqueue_new npath ''delete'' file_path (current_source_generation npath file_path st1) st1)"

fun poll_deletes :: "(string \<Rightarrow> string) \<Rightarrow> string list \<Rightarrow> realtime \<Rightarrow> realtime" where
  "poll_deletes npath [] st = st"
| "poll_deletes npath (p # ps) st = poll_deletes npath ps (poll_deleted npath p st)"

definition poll_round ::
  "(string \<Rightarrow> string) \<Rightarrow> (string, int \<times> int) pydict \<Rightarrow> (string, int \<times> int) pydict \<Rightarrow> realtime \<Rightarrow> realtime" where
  "poll_round npath known current st =
     poll_deletes npath (filter (\<lambda>p. p \<notin> set (dict_keys current)) (dict_keys known)) (poll_files npath known current st)"

subsection \<open>Stopping\<close>

text \<open>
  The number of mutations that are counted as being processed while a call is awaited: cancelling
  the loop runs the \<open>finally\<close> blocks that count them down.
\<close>

definition in_flight :: "awaited_call option \<Rightarrow> nat" where
  "in_flight call =
     (case call of
        None \<Rightarrow> 0
      | Some (DeleteBatchCall active finished) \<Rightarrow> length (executable active finished)
      | Some _ \<Rightarrow> 1)"

text \<open>What \<open>stop\<close> resets once the tasks are cancelled (\<open>services/realtime/startup.py\<close>).\<close>

definition reset_on_stop :: "realtime \<Rightarrow> realtime" where
  "reset_on_stop st =
     (finish_all (in_flight (busy st)) st)
       \<lparr>pending_debounce := [], pending_mutations := [], pending_path_counts := [], pending_files := {},
        next_source_generation := 0, latest_source_generation_by_path := [], active_change_generations := [],
        reserved_follow_up_change_generations := [], file_queue := [], event_queue := [],
        queue_sequence := 0, next_mutation_id := 0, transient_tasks := [], resync_requests := [],
        resync_dispatch_task := None, busy := None, buffered_mutation := None\<rparr>"

subsection \<open>Steps and reachable states\<close>

text \<open>
  The steps of the running service.  Tasks wake in any order and at any time, an awaited call
  yields any outcome, and the file system may change between two steps: \<open>exists\<close> is chosen anew.
\<close>

inductive rt_step :: "(string \<Rightarrow> string) \<Rightarrow> (string \<Rightarrow> string) \<Rightarrow> realtime \<Rightarrow> realtime \<Rightarrow> bool" for npath rpath where
  Clock: "rt_step npath rpath st (st\<lparr>utc_now := u, monotonic := t, wall_time := w\<rparr>)"
| Event: "rt_step npath rpath st (enqueue_realtime_event npath event_type p st)"
| Consume: "rt_step npath rpath st (consume_event npath st)"
| AddFile: "rt_step npath rpath st (snd (add_file npath p priority st))"
| Poll: "rt_step npath rpath st (poll_round npath known current st)"
| WakeRetry: "RetryTask m \<in> set (transient_tasks st) \<Longrightarrow>
    rt_step npath rpath st (retry_mutation_after_delay npath m (st\<lparr>transient_tasks := remove1 (RetryTask m) (transient_tasks st)\<rparr>))"
| WakeDebounce: "DebounceTask m \<in> set (transient_tasks st) \<Longrightarrow>
    rt_step npath rpath st (debounced_add_file m (st\<lparr>transient_tasks := remove1 (DebounceTask m) (transient_tasks st)\<rparr>))"
| Cancel: "t \<in> set (transient_tasks st) \<Longrightarrow>
    rt_step npath rpath st (cancel_task t (st\<lparr>transient_tasks := remove1 t (transient_tasks st)\<rparr>))"
| Begin: "busy st = None \<Longrightarrow> rt_step npath rpath st (process_begin npath rpath exists st)"
| End: "rt_step npath rpath st (process_end npath rpath out st)"
| Resync: "rt_step npath rpath st (request_resync reason st)"
| OverflowResync: "resync_requests st = r # rs \<Longrightarrow> rt_step npath rpath st (request_resync r (st\<lparr>resync_requests := rs\<rparr>))"
| ResyncStart: "rt_step npath rpath st (resync_start st)"
| ResyncWake: "rt_step npath rpath st (resync_wake callback st)"
| ResyncEnd: "rt_step npath rpath st (resync_end success st)"

inductive rt_reachable :: "(string \<Rightarrow> string) \<Rightarrow> (string \<Rightarrow> string) \<Rightarrow> realtime \<Rightarrow> bool" for npath rpath where
  Init: "rt_reachable npath rpath initial_realtime"
| Step: "rt_reachable npath rpath st \<Longrightarrow> rt_step npath rpath st st' \<Longrightarrow> rt_reachable npath rpath st'"

subsection \<open>The invariant of the service\<close>

definition held :: "realtime \<Rightarrow> realtime_mutation list" where
  "held st =
     (case busy st of
        None \<Rightarrow> []
      | Some call \<Rightarrow>
          (case call of EmbedCall m \<Rightarrow> [m] | DeleteCall m \<Rightarrow> [m] | DeleteBatchCall ms _ \<Rightarrow> ms
           | DirDeleteCall m \<Rightarrow> [m] | DirIndexCall m \<Rightarrow> [m] | FileCall m \<Rightarrow> [m]))
     @ (case buffered_mutation st of None \<Rightarrow> [] | Some b \<Rightarrow> [fst b])"

definition active_path :: "awaited_call option \<Rightarrow> string set" where
  "active_path call = (case call of Some (FileCall m) \<Rightarrow> {m_path m} | _ \<Rightarrow> {})"

text \<open>
  \<open>loop_ok\<close>: the queue invariant with no exception; the mutations the loop holds are good; the
  counter of active work covers the mutations in flight; the active changes are the path of
  the file being processed; a batch is bounded; a file call is a change or a scan.
\<close>

definition call_ok :: "awaited_call option \<Rightarrow> bool" where
  "call_ok call =
     (case call of
        Some (FileCall m) \<Rightarrow> m_operation m \<in> {''change'', ''scan''}
      | Some (DeleteBatchCall active finished) \<Rightarrow> length active \<le> DELETE_BATCH_SIZE
      | _ \<Rightarrow> True)"

definition loop_ok :: "realtime \<Rightarrow> bool" where
  "loop_ok st \<longleftrightarrow>
     rt_inv {} st \<and> list_all (good st) (held st)
     \<and> int (in_flight (busy st)) \<le> active_processing_count st
     \<and> fst ` set (active_change_generations st) = active_path (busy st)
     \<and> call_ok (busy st)"

text \<open>
  \<open>recovery_ok\<close>: in the state \<open>reconciling\<close> a resync is on its way, the counter of dropped events is
  zero in the state \<open>idle\<close>, and \<open>resync_in_progress\<close> says whether the callback is running.
\<close>

definition recovery_ok :: "realtime \<Rightarrow> bool" where
  "recovery_ok st \<longleftrightarrow>
     overflow_state st \<in> {''idle'', ''reconciling'', ''failed''}
     \<and> (overflow_state st = ''reconciling'' \<longrightarrow> resync_requests st \<noteq> [] \<or> resync_dispatch_task st \<noteq> None)
     \<and> (overflow_state st = ''idle'' \<longrightarrow> overflow_current_burst_dropped st = 0)
     \<and> (resync_in_progress st \<longleftrightarrow>
          (case resync_dispatch_task st of Some (ResyncCalling _ _) \<Rightarrow> True | _ \<Rightarrow> False))
     \<and> (resync_dispatch_task st \<noteq> None \<longrightarrow> needs_resync st
          \<or> (case resync_dispatch_task st of Some (ResyncCalling _ _) \<Rightarrow> True | _ \<Rightarrow> False))
     \<and> length (event_queue st) \<le> EVENT_QUEUE_MAXSIZE"

text \<open>
  An operation of the queue, seen on the whole state: the invariant is kept, the counters do not
  go back, and the fields of the loop are the same.
\<close>

definition same_loop :: "realtime \<Rightarrow> realtime \<Rightarrow> bool" where
  "same_loop st st' \<longleftrightarrow>
     busy st' = busy st \<and> buffered_mutation st' = buffered_mutation st
     \<and> active_processing_count st' = active_processing_count st
     \<and> active_change_generations st' = active_change_generations st"

definition same_recovery :: "realtime \<Rightarrow> realtime \<Rightarrow> bool" where
  "same_recovery st st' \<longleftrightarrow>
     overflow_state st' = overflow_state st \<and> resync_requests st' = resync_requests st
     \<and> overflow_current_burst_dropped st' = overflow_current_burst_dropped st
     \<and> resync_in_progress st' = resync_in_progress st \<and> resync_dispatch_task st' = resync_dispatch_task st
     \<and> needs_resync st' = needs_resync st \<and> length (event_queue st') \<le> length (event_queue st)"

lemma same_loop_refl [simp]: "same_loop st st"
  by (simp add: same_loop_def)

lemma same_recovery_refl [simp]: "same_recovery st st"
  by (simp add: same_recovery_def)

lemma same_loop_trans: "same_loop a b \<Longrightarrow> same_loop b c \<Longrightarrow> same_loop a c"
  by (simp add: same_loop_def)

lemma same_recovery_trans: "same_recovery a b \<Longrightarrow> same_recovery b c \<Longrightarrow> same_recovery a c"
  by (simp add: same_recovery_def)

lemma more_eq:
  fixes st st' :: realtime
  assumes "mutation_queue.more st' = mutation_queue.more st"
  shows "busy st' = busy st" "buffered_mutation st' = buffered_mutation st"
    "active_processing_count st' = active_processing_count st" "same_recovery st st'"
    "recent_file_events st' = recent_file_events st" "event_queue st' = event_queue st"
    "failed_files st' = failed_files st" "indexed_files st' = indexed_files st"
    "removed_files st' = removed_files st"
  using assms by (cases st; cases st'; simp add: same_recovery_def)+

lemma frame_same:
  fixes st st' :: realtime
  assumes "mutation_queue.more st' = mutation_queue.more st" "active_change_generations st' = active_change_generations st"
  shows "same_loop st st'" "same_recovery st st'"
  using more_eq [OF assms(1)] assms(2) by (simp_all add: same_loop_def)

lemma same_recovery_ok: "recovery_ok st \<Longrightarrow> same_recovery st st' \<Longrightarrow> recovery_ok st'"
  unfolding recovery_ok_def same_recovery_def by (elim conjE) (intro conjI, simp_all)

lemma rt_inv_loop_frame [simp]:
  fixes st :: realtime
  shows
    "rt_inv X (st\<lparr>event_queue := a1\<rparr>) = rt_inv X st"
    "rt_inv X (st\<lparr>recent_file_events := a2\<rparr>) = rt_inv X st"
    "rt_inv X (st\<lparr>failed_files := a3\<rparr>) = rt_inv X st"
    "rt_inv X (st\<lparr>indexed_files := a4\<rparr>) = rt_inv X st"
    "rt_inv X (st\<lparr>removed_files := a5\<rparr>) = rt_inv X st"
    "rt_inv X (st\<lparr>active_processing_count := a6\<rparr>) = rt_inv X st"
    "rt_inv X (st\<lparr>processing_error_count := a7\<rparr>) = rt_inv X st"
    "rt_inv X (st\<lparr>suppressed_duplicate_count := a8\<rparr>) = rt_inv X st"
    "rt_inv X (st\<lparr>event_queue_accepted := a9\<rparr>) = rt_inv X st"
    "rt_inv X (st\<lparr>event_queue_dropped := b1\<rparr>) = rt_inv X st"
    "rt_inv X (st\<lparr>overflow_state := b2\<rparr>) = rt_inv X st"
    "rt_inv X (st\<lparr>overflow_burst_count := b3\<rparr>) = rt_inv X st"
    "rt_inv X (st\<lparr>overflow_current_burst_dropped := b4\<rparr>) = rt_inv X st"
    "rt_inv X (st\<lparr>overflow_last_burst_dropped := b5\<rparr>) = rt_inv X st"
    "rt_inv X (st\<lparr>resync_requests := b6\<rparr>) = rt_inv X st"
    "rt_inv X (st\<lparr>needs_resync := b7\<rparr>) = rt_inv X st"
    "rt_inv X (st\<lparr>resync_in_progress := b8\<rparr>) = rt_inv X st"
    "rt_inv X (st\<lparr>resync_request_count := b9\<rparr>) = rt_inv X st"
    "rt_inv X (st\<lparr>resync_performed_count := c1\<rparr>) = rt_inv X st"
    "rt_inv X (st\<lparr>last_resync_reason := c2\<rparr>) = rt_inv X st"
    "rt_inv X (st\<lparr>last_resync_request_monotonic := c3\<rparr>) = rt_inv X st"
    "rt_inv X (st\<lparr>resync_dispatch_task := c4\<rparr>) = rt_inv X st"
    "rt_inv X (st\<lparr>buffered_mutation := c5\<rparr>) = rt_inv X st"
    "rt_inv X (st\<lparr>busy := c6\<rparr>) = rt_inv X st"
  by (simp_all add: rt_inv_def queue_ok_def live_mutations_def carriers_def)

subsection \<open>Effects on the loop\<close>

text \<open>
  \<open>effect k st st'\<close>: the invariant of the queue is kept, \<open>k\<close> mutations were counted as finished and
  the rest of the loop and of the recovery is unchanged.
\<close>

definition effect :: "int \<Rightarrow> realtime \<Rightarrow> realtime \<Rightarrow> bool" where
  "effect k st st' \<longleftrightarrow>
     keeps {} st st' \<and> same_recovery st st' \<and> busy st' = busy st \<and> buffered_mutation st' = buffered_mutation st
     \<and> active_change_generations st' = active_change_generations st
     \<and> active_processing_count st' = active_processing_count st - k"

lemma effect_inv: "effect k st st' \<Longrightarrow> rt_inv {} st'"
  by (simp add: effect_def keeps_def)

lemma effect_newer: "effect k st st' \<Longrightarrow> newer st st'"
  by (simp add: effect_def keeps_def)

lemma effect_refl: "rt_inv {} st \<Longrightarrow> effect 0 st st"
  by (simp add: effect_def keeps_refl)

lemma effect_trans: "effect j a b \<Longrightarrow> effect k b c \<Longrightarrow> effect (j + k) a c"
  by (auto simp: effect_def keeps_def intro: same_recovery_trans newer_trans)

lemma effect0_trans: "effect 0 a b \<Longrightarrow> effect k b c \<Longrightarrow> effect k a c"
  using effect_trans [of 0 a b k c] by simp

lemma effect_queue_op:
  assumes "keeps {} st st'" "mutation_queue.more st' = mutation_queue.more st"
    "active_change_generations st' = active_change_generations st"
  shows "effect 0 st st'"
  using assms frame_same [of st' st] more_eq [OF assms(2)] by (simp add: effect_def)

lemma effect_add_file: "rt_inv {} st \<Longrightarrow> effect 0 st (snd (add_file npath p pr st))"
  by (intro effect_queue_op keeps_add_file) simp_all

lemma effect_compaction_retry: "rt_inv {} st \<Longrightarrow> good st m \<Longrightarrow> effect 0 st (snd (schedule_compaction_retry npath m st))"
  by (intro effect_queue_op keeps_compaction_retry) simp_all

lemma effect_delete_retry: "rt_inv {} st \<Longrightarrow> good st m \<Longrightarrow> effect 0 st (snd (schedule_delete_retry npath m st))"
  by (intro effect_queue_op keeps_delete_retry) simp_all

lemma effect_accepted:
  assumes "rt_inv {} st"
  shows "effect 0 st (record_accepted_event npath p st)"
proof -
  obtain g st1 where a: "advance_source_generation npath (npath p) st = (g, st1)" by force
  note k = keeps_advance [OF assms a]
  have "effect 0 st st1"
    using advance_source_generation_frame [of npath "npath p" st] k(1) by (intro effect_queue_op) (simp_all add: a)
  moreover have "effect 0 st1 (refresh_pending_change_generation npath (npath p) (Some g) st1)"
    using k by (intro effect_queue_op keeps_refresh) (simp_all add: keeps_def)
  ultimately show ?thesis
    using effect0_trans by (auto simp: record_accepted_event_def Let_def a)
qed

lemma effect_enqueue_new:
  assumes inv: "rt_inv {} st" and oper: "oper \<in> mutation_operations"
    and g: "case g of None \<Rightarrow> True | Some x \<Rightarrow> x \<le> next_source_generation st"
  shows "effect 0 st (enqueue_new npath oper p g st)"
proof -
  obtain m st1 where b: "build_mutation npath oper p 0 g None st = (m, st1)" by force
  note bl = inv_build [OF inv b]
  have "effect 0 st st1"
    using build_mutation_frame [of npath oper p 0 g None st] bl(1,2) by (intro effect_queue_op) (simp_all add: b keeps_def)
  moreover have "effect 0 st1 (snd (enqueue_mutation m True st1))"
    using bl(1,7) oper g by (intro effect_queue_op keeps_enqueue_register) (simp_all add: MAX_RETRY_BUDGET_def)
  ultimately show ?thesis using effect0_trans by (auto simp: enqueue_new_def b)
qed

lemma same_recovery_frame [simp]:
  "same_recovery st (st'\<lparr>active_processing_count := a1\<rparr>) = same_recovery st st'"
  "same_recovery st (st'\<lparr>processing_error_count := a2\<rparr>) = same_recovery st st'"
  "same_recovery st (st'\<lparr>failed_files := a3\<rparr>) = same_recovery st st'"
  "same_recovery st (st'\<lparr>indexed_files := a4\<rparr>) = same_recovery st st'"
  "same_recovery st (st'\<lparr>removed_files := a5\<rparr>) = same_recovery st st'"
  "same_recovery st (st'\<lparr>recent_file_events := a6\<rparr>) = same_recovery st st'"
  "same_recovery st (st'\<lparr>suppressed_duplicate_count := a7\<rparr>) = same_recovery st st'"
  "same_recovery st (st'\<lparr>event_queue_accepted := a8\<rparr>) = same_recovery st st'"
  "same_recovery st (st'\<lparr>event_queue_dropped := a9\<rparr>) = same_recovery st st'"
  "same_recovery st (st'\<lparr>busy := b1\<rparr>) = same_recovery st st'"
  "same_recovery st (st'\<lparr>buffered_mutation := b2\<rparr>) = same_recovery st st'"
  "same_recovery st (st'\<lparr>active_change_generations := b3\<rparr>) = same_recovery st st'"
  by (simp_all add: same_recovery_def)

lemma newer_loop_frame [simp]:
  fixes st st' :: realtime
  shows
    "newer st (st'\<lparr>active_processing_count := a1\<rparr>) = newer st st'"
    "newer st (st'\<lparr>processing_error_count := a2\<rparr>) = newer st st'"
    "newer st (st'\<lparr>failed_files := a3\<rparr>) = newer st st'"
    "newer st (st'\<lparr>indexed_files := a4\<rparr>) = newer st st'"
    "newer st (st'\<lparr>removed_files := a5\<rparr>) = newer st st'"
    "newer st (st'\<lparr>recent_file_events := a6\<rparr>) = newer st st'"
    "newer st (st'\<lparr>suppressed_duplicate_count := a7\<rparr>) = newer st st'"
    "newer st (st'\<lparr>event_queue_accepted := a8\<rparr>) = newer st st'"
    "newer st (st'\<lparr>event_queue_dropped := a9\<rparr>) = newer st st'"
    "newer st (st'\<lparr>busy := b1\<rparr>) = newer st st'"
    "newer st (st'\<lparr>buffered_mutation := b2\<rparr>) = newer st st'"
  by (simp_all add: newer_def)

lemma effect_started: "rt_inv {} st \<Longrightarrow> effect (- 1) st (processing_started st)"
  by (simp add: effect_def processing_started_def keeps_def)

lemma effect_finished: "rt_inv {} st \<Longrightarrow> active_processing_count st > 0 \<Longrightarrow> effect 1 st (processing_finished st)"
  by (simp add: effect_def processing_finished_def keeps_def)

lemma effect_failure: "rt_inv {} st \<Longrightarrow> effect 0 st (record_failure ps st)"
  by (simp add: effect_def record_failure_def keeps_def)

lemma effect_busy_retry:
  assumes "rt_inv {} st" "good st m"
  shows "effect 0 st (handle_compaction_busy npath m st)"
proof -
  obtain b st1 where r: "schedule_compaction_retry npath m st = (b, st1)" by force
  have "effect 0 st st1" using effect_compaction_retry [OF assms, of npath] by (simp add: r)
  then show ?thesis
    using effect0_trans [OF _ effect_failure [OF effect_inv]] by (auto simp: handle_compaction_busy_def r)
qed

lemma effect_finish_after:
  "effect 0 st st' \<Longrightarrow> active_processing_count st > 0 \<Longrightarrow> effect 1 st (processing_finished st')"
  by (rule effect0_trans, assumption, rule effect_finished) (auto simp: effect_inv, auto simp: effect_def)

lemma effect_finish_all:
  "rt_inv {} st \<Longrightarrow> int n \<le> active_processing_count st \<Longrightarrow> effect (int n) st (finish_all n st)"
proof (induction n arbitrary: st)
  case (Suc n)
  have "effect 1 st (processing_finished st)" using Suc.prems by (intro effect_finished) simp_all
  moreover have "effect (int n) (processing_finished st) (finish_all n (processing_finished st))"
    using calculation Suc.prems by (intro Suc.IH) (auto simp: effect_inv, auto simp: effect_def)
  ultimately have "effect (1 + int n) st (finish_all n (processing_finished st))" by (rule effect_trans)
  then show ?case by simp
qed (simp add: effect_refl)

lemma effect_retry_batch:
  assumes "\<And>m st. rt_inv {} st \<Longrightarrow> good st m \<Longrightarrow> effect 0 st (snd (retry m st))"
  shows "rt_inv {} st \<Longrightarrow> list_all (good st) ms \<Longrightarrow> effect 0 st (snd (retry_batch retry ms st))"
proof (induction ms arbitrary: st)
  case (Cons m ms)
  obtain b st1 where r: "retry m st = (b, st1)" by force
  have e: "effect 0 st st1" using assms [of st m] Cons.prems by (simp add: r)
  have "list_all (good st1) ms"
    using Cons.prems(2) effect_newer [OF e] by (auto simp: list_all_iff intro: good_newer)
  then have "effect 0 st1 (snd (retry_batch retry ms st1))" by (intro Cons.IH effect_inv [OF e])
  with e show ?case by (auto simp: r case_prod_beta intro: effect0_trans)
qed (simp add: effect_refl)

lemma effect_busy_batch:
  assumes "rt_inv {} st" "list_all (good st) ms"
  shows "effect 0 st (handle_compaction_busy_batch npath ms st)"
proof -
  obtain ex st1 where r: "retry_batch (schedule_compaction_retry npath) ms st = (ex, st1)" by force
  have "effect 0 st st1"
    using effect_retry_batch [of "schedule_compaction_retry npath", OF effect_compaction_retry assms] by (simp add: r)
  then show ?thesis
    using effect0_trans [OF _ effect_failure [OF effect_inv]] by (auto simp: handle_compaction_busy_batch_def r)
qed

lemma effect_delete_end:
  assumes inv: "rt_inv {} st" and m: "good st m" and n: "active_processing_count st > 0"
  shows "effect 1 st (process_delete_end npath rpath m out st)"
proof -
  have "effect 0 st
    (case out of
       Done _ \<Rightarrow> st\<lparr>removed_files := insert (rpath (m_path m)) (removed_files st)\<rparr>
     | TransactionConflict \<Rightarrow>
         if delete_mutation_is_stale npath m st then st
         else (let (scheduled, st1) = schedule_delete_retry npath m st
               in if scheduled then st1 else record_failure [m_path m] st1)
     | TemporarilyUnavailable \<Rightarrow> handle_compaction_busy npath m st
     | OtherException \<Rightarrow> record_failure [m_path m] st)"
  proof (cases out)
    case (Done r)
    then show ?thesis using inv by (simp add: effect_def keeps_def)
  next
    case TransactionConflict
    obtain b st1 where r: "schedule_delete_retry npath m st = (b, st1)" by force
    have "effect 0 st st1" using effect_delete_retry [OF inv m, of npath] by (simp add: r)
    then show ?thesis
      using TransactionConflict effect0_trans [OF _ effect_failure [OF effect_inv]] effect_refl [OF inv] by (auto simp: r)
  qed (simp_all add: effect_busy_retry effect_failure inv m)
  then show ?thesis unfolding process_delete_end_def using n by (rule effect_finish_after)
qed

lemma effect_conflict_loop:
  assumes "conflict_loop npath ms fin st = (ex, fin', st')" "rt_inv {} st" "list_all (good st) ms"
    "int (length ms) \<le> active_processing_count st"
  shows "\<exists>new. effect (int (length new)) st st' \<and> fin' = new @ fin \<and> mset new \<subseteq># mset (map m_id ms)"
  using assms
proof (induction npath ms fin st arbitrary: ex fin' st' rule: conflict_loop.induct)
  case (1 npath fin st)
  then show ?case by (intro exI [of _ "[]"]) (simp add: effect_refl)
next
  case (2 npath m ms fin st)
  show ?case
  proof (cases "delete_mutation_is_stale npath m st")
    case True
    have e: "effect 1 st (processing_finished st)" using "2.prems" by (intro effect_finished) simp_all
    have g: "list_all (good (processing_finished st)) ms"
      using "2.prems"(3) effect_newer [OF e] by (auto simp: list_all_iff intro: good_newer)
    have c: "int (length ms) \<le> active_processing_count (processing_finished st)"
      using e "2.prems"(4) by (simp add: effect_def)
    have l: "conflict_loop npath ms (m_id m # fin) (processing_finished st) = (ex, fin', st')"
      using "2.prems"(1) True by simp
    from "2.IH"(1) [OF True l effect_inv [OF e] g c] obtain new where new:
      "effect (int (length new)) (processing_finished st) st'" "fin' = new @ m_id m # fin"
      "mset new \<subseteq># mset (map m_id ms)" by auto
    have "effect (1 + int (length new)) st st'" using e new(1) by (rule effect_trans)
    then show ?thesis using new(2,3) by (intro exI [of _ "new @ [m_id m]"]) simp
  next
    case False
    obtain b st1 where r: "schedule_delete_retry npath m st = (b, st1)" by force
    have e: "effect 0 st st1" using effect_delete_retry [of st m npath] "2.prems"(2,3) by (simp add: r)
    have g: "list_all (good st1) ms"
      using "2.prems"(3) effect_newer [OF e] by (auto simp: list_all_iff intro: good_newer)
    have c: "int (length ms) \<le> active_processing_count st1" using e "2.prems"(4) by (simp add: effect_def)
    obtain ex1 where l: "conflict_loop npath ms fin st1 = (ex1, fin', st')"
      using "2.prems"(1) False by (auto simp: r split: prod.splits)
    from "2.IH"(2) [OF False r [symmetric] refl l effect_inv [OF e] g c] obtain new where
      new: "effect (int (length new)) st1 st'" "fin' = new @ fin" "mset new \<subseteq># mset (map m_id ms)" by auto
    have "effect (int (length new)) st st'" using e new(1) by (rule effect0_trans)
    moreover have "mset new \<subseteq># mset (map m_id (m # ms))" using subset_mset.order_trans [OF new(3), of "mset (map m_id (m # ms))"] by simp
    ultimately show ?thesis using new(2) by blast
  qed
qed

lemma subset_mset_length_filter:
  assumes "mset xs \<subseteq># mset (map f ys)"
  shows "length xs + length (filter (\<lambda>y. f y \<notin> set xs) ys) \<le> length ys"
proof -
  have "filter_mset (\<lambda>x. x \<in> set xs) (mset xs) \<subseteq># filter_mset (\<lambda>x. x \<in> set xs) (mset (map f ys))"
    using assms by (rule multiset_filter_mono)
  then have "length xs \<le> length (filter (\<lambda>x. x \<in> set xs) (map f ys))"
    by (metis mset_filter size_mset size_mset_mono filter_True)
  then show ?thesis
    using sum_length_filter_compl [of "\<lambda>y. f y \<in> set xs" ys] by (simp add: filter_map o_def)
qed

lemma effect_delete_batch_end:
  assumes inv: "rt_inv {} st" and good: "list_all (good st) active"
    and n: "int (length (executable active fin)) \<le> active_processing_count st"
  shows "\<exists>k. effect (int k) st (process_delete_batch_end npath active fin out st) \<and> int k \<le> active_processing_count st"
proof -
  let ?ms = "executable active fin"
  have gm: "list_all (good st) ?ms" using good by (auto simp: list_all_iff executable_def)
  have finish: "\<exists>k. effect (int k) st (finish_all j st') \<and> int k \<le> active_processing_count st"
    if "effect (int i) st st'" "int (i + j) \<le> active_processing_count st" for i j st'
  proof -
    have "effect (int j) st' (finish_all j st')"
      using that by (intro effect_finish_all effect_inv [OF that(1)]) (simp add: effect_def)
    with that(1) have "effect (int i + int j) st (finish_all j st')" by (rule effect_trans)
    then show ?thesis using that(2) by (intro exI [of _ "i + j"]) simp
  qed
  show ?thesis
  proof (cases out)
    case (Done r)
    have "executable active (map m_id ?ms @ fin) = []" by (auto simp: executable_def filter_empty_conv)
    then show ?thesis
      using Done effect_finish_all [OF inv n] n
      by (intro exI [of _ "length ?ms"]) (simp add: process_delete_batch_end_def Let_def)
  next
    case TransactionConflict
    obtain ex fin' st1 where c: "conflict_loop npath ?ms fin st = (ex, fin', st1)" by (metis prod.exhaust)
    from effect_conflict_loop [OF c inv gm n] obtain new where new:
      "effect (int (length new)) st st1" "fin' = new @ fin" "mset new \<subseteq># mset (map m_id ?ms)" by auto
    have "executable active fin' = filter (\<lambda>m. m_id m \<notin> set new) ?ms"
      by (simp add: new(2) executable_def conj_commute)
    then have le: "int (length new + length (executable active fin')) \<le> active_processing_count st"
      using subset_mset_length_filter [OF new(3)] n by simp
    have "effect (int (length new)) st (if ex \<noteq> [] then record_failure (map m_path ex) st1 else st1)"
      using new(1) effect_trans [OF new(1) effect_failure [OF effect_inv [OF new(1)]]] by simp
    from finish [OF this le] show ?thesis
      by (simp add: process_delete_batch_end_def Let_def TransactionConflict c)
  next
    case TemporarilyUnavailable
    then show ?thesis
      using finish [of 0 "handle_compaction_busy_batch npath ?ms st" "length ?ms"] effect_busy_batch [OF inv gm, of npath] n
      by (simp add: process_delete_batch_end_def Let_def)
  next
    case OtherException
    then show ?thesis
      using finish [of 0 "record_failure (map m_path ?ms) st" "length ?ms"] effect_failure [OF inv, of "map m_path ?ms"] n
      by (simp add: process_delete_batch_end_def Let_def)
  qed
qed

lemma gen_case_newer:
  "case g of None \<Rightarrow> True | Some x \<Rightarrow> x \<le> next_source_generation st \<Longrightarrow> newer st st' \<Longrightarrow>
     case g of None \<Rightarrow> True | Some x \<Rightarrow> x \<le> next_source_generation st'"
  by (auto simp: newer_def split: option.splits)

lemma effect_cleanup:
  "rt_inv {} st \<Longrightarrow> case g of None \<Rightarrow> True | Some x \<Rightarrow> x \<le> next_source_generation st \<Longrightarrow>
     effect 0 st (cleanup_loop npath g ps st)"
proof (induction npath g ps st rule: cleanup_loop.induct)
  case (2 npath g p ps st)
  show ?case
  proof (cases "p = []")
    case False
    have e: "effect 0 st (enqueue_new npath ''delete'' p g st)"
      using 2 by (intro effect_enqueue_new) (simp_all add: delete_operation)
    show ?thesis
      using effect0_trans [OF e "2.IH"(2) [OF False effect_inv [OF e] gen_case_newer [OF "2.prems"(2) effect_newer [OF e]]]] False
      by simp
  qed (use 2 in simp)
qed (simp add: effect_refl)

lemma effect_add_files: "rt_inv {} st \<Longrightarrow> effect 0 st (add_files npath ps st)"
proof (induction npath ps st rule: add_files.induct)
  case (2 npath p ps st)
  have e: "effect 0 st (snd (add_file npath p ''change'' st))" using "2.prems" by (rule effect_add_file)
  from effect0_trans [OF e "2.IH" [OF effect_inv [OF e]]] show ?case by simp
qed (simp add: effect_refl)

subsection \<open>Ends of awaited calls\<close>

lemma effect_with_finish:
  assumes "effect 0 st st'" "0 < active_processing_count st"
  shows "effect 1 st (processing_finished st')"
  using assms by (rule effect_finish_after)

lemma effect_dir_delete_end:
  assumes inv: "rt_inv {} st" and m: "good st m" and n: "0 < active_processing_count st"
  shows "effect 1 st (process_dir_delete_end npath m out st)"
proof -
  have g: "case m_source_generation m of None \<Rightarrow> True | Some x \<Rightarrow> x \<le> next_source_generation st"
    using m by (simp add: good_mutation_def)
  show ?thesis
    unfolding process_dir_delete_end_def using n
    by (rule effect_with_finish [rotated])
      (simp split: outcome.split add: effect_cleanup [OF inv g] effect_busy_retry [OF inv m] effect_failure [OF inv])
qed

lemma effect_index_directory_end:
  assumes inv: "rt_inv {} st" and n: "0 < active_processing_count st"
  shows "effect 1 st (index_directory_end npath out st)"
  unfolding index_directory_end_def using n
  by (rule effect_with_finish [rotated])
    (simp split: outcome.split add: effect_add_files [OF inv] effect_failure [OF inv])

lemma effect_embed_end:
  assumes inv: "rt_inv {} st" and m: "good st m" and n: "0 < active_processing_count st"
  shows "effect 1 st (process_embed_end npath m out st)"
  unfolding process_embed_end_def using n
  by (rule effect_with_finish [rotated])
    (simp split: outcome.split add: effect_refl [OF inv] effect_busy_retry [OF inv m] effect_failure [OF inv])

text \<open>The end of a file call removes the active mark; the rest is an effect.\<close>

lemma file_end_ok:
  assumes inv: "rt_inv {} st" and m: "good st m" "m_operation m \<in> {''change'', ''scan''}"
    and n: "0 < active_processing_count st"
  shows "effect 1 (st\<lparr>active_change_generations := dict_del (m_path m) (active_change_generations st)\<rparr>)
    (process_file_end npath rpath m out st)"
proof -
  let ?d = "dict_del (m_path m) (active_change_generations st)"
  let ?st = "st\<lparr>active_change_generations := ?d\<rparr>"
  define st1 where "st1 = (case out of
      Done _ \<Rightarrow> snd (add_file npath (m_path m) ''embed''
        (st\<lparr>indexed_files := insert (rpath (m_path m)) (indexed_files st),
           recent_file_events := dict_del (m_path m) (recent_file_events st)\<rparr>))
    | _ \<Rightarrow> st)"
  have e1: "effect 0 st st1"
  proof -
    let ?s = "st\<lparr>indexed_files := insert (rpath (m_path m)) (indexed_files st),
           recent_file_events := dict_del (m_path m) (recent_file_events st)\<rparr>"
    have "effect 0 st ?s" using inv by (simp add: effect_def keeps_def)
    moreover have "effect 0 ?s (snd (add_file npath (m_path m) ''embed'' ?s))" using inv by (intro effect_add_file) simp
    ultimately have "effect 0 st (snd (add_file npath (m_path m) ''embed'' ?s))" by (rule effect0_trans)
    then show ?thesis using effect_refl [OF inv] by (simp add: st1_def split: outcome.split)
  qed
  have e2: "effect 1 st (processing_finished st1)" using e1 n by (rule effect_finish_after)
  define st2 where "st2 = (processing_finished st1)
      \<lparr>active_change_generations := dict_del (m_path m) (active_change_generations (processing_finished st1))\<rparr>"
  have e2': "effect 1 ?st st2"
    using e2 by (auto simp: effect_def keeps_def st2_def newer_def same_recovery_def)
  define st3 where "st3 = drain_reserved_follow_up_change npath (m_path m) (m_path m) st2"
  have "effect 0 st2 st3"
    unfolding st3_def by (intro effect_queue_op keeps_drain effect_inv [OF e2']) simp_all
  with e2' have e3: "effect 1 ?st st3" using effect_trans [of 1 ?st st2 0 st3] by simp
  have m3: "good st3 m" using m(1) effect_newer [OF e3] by (auto simp: newer_def intro: good_mutation_mono)
  have pe: "process_file_end npath rpath m out st =
      (case out of Done _ \<Rightarrow> st3
       | TemporarilyUnavailable \<Rightarrow>
           (let (scheduled, st4) = schedule_compaction_retry npath m st3
            in if scheduled then st4 else record_failure [rpath (m_path m)] st4)
       | _ \<Rightarrow> record_failure [rpath (m_path m)] st3)"
    using m(2) by (simp add: process_file_end_def st1_def st2_def st3_def Let_def split: outcome.split)
  obtain b st4 where r: "schedule_compaction_retry npath m st3 = (b, st4)" by force
  have "effect 0 st3 st4" using effect_compaction_retry [OF effect_inv [OF e3] m3, of npath] by (simp add: r)
  with e3 have e4: "effect 1 ?st st4" using effect_trans [of 1 ?st st3 0 st4] by simp
  have fail: "effect 1 ?st (record_failure ps s)" if "effect 1 ?st s" for ps s
    using effect_trans [OF that effect_failure [OF effect_inv [OF that]]] by simp
  show ?thesis unfolding pe using e3 e4 fail by (simp add: r split: outcome.split)
qed

lemma good_mutation_frame:
  "next_mutation_id st' = next_mutation_id st \<Longrightarrow> next_source_generation st' = next_source_generation st \<Longrightarrow>
     good st' m = good st m"
  by simp

text \<open>A state without an awaited call.\<close>

lemma loop_ok_after:
  assumes ok: "loop_ok st" and e: "effect k (st\<lparr>busy := None, active_change_generations := a\<rparr>) st'"
    and a: "a = []" and k: "k \<le> active_processing_count st"
  shows "loop_ok st'"
proof -
  have h: "held st' = (case buffered_mutation st of None \<Rightarrow> [] | Some b \<Rightarrow> [fst b])"
    using e by (simp add: effect_def held_def)
  have "list_all (good st) (held st')" using ok unfolding h by (simp add: loop_ok_def held_def)
  moreover have "newer st st'" using effect_newer [OF e] by (simp add: newer_def)
  ultimately have "list_all (good st') (held st')" by (auto simp: list_all_iff intro: good_newer)
  then show ?thesis
    using ok e k a by (simp add: loop_ok_def effect_def keeps_def in_flight_def active_path_def call_ok_def)
qed

lemma loop_ok_end:
  assumes ok: "loop_ok st"
  shows "loop_ok (process_end npath rpath out st)"
proof (cases "busy st")
  case None
  then show ?thesis using ok by (simp add: process_end_def)
next
  case (Some call)
  let ?st = "st\<lparr>busy := None\<rparr>"
  have inv: "rt_inv {} ?st" using ok by (simp add: loop_ok_def)
  have n: "int (in_flight (Some call)) \<le> active_processing_count st" using ok Some by (simp add: loop_ok_def)
  have idle: "loop_ok st'" if "active_path (Some call) = {}" "effect k ?st st'" "k \<le> active_processing_count st" for k st'
  proof -
    have "active_change_generations st = []" using ok Some that(1) by (simp add: loop_ok_def)
    then have "st\<lparr>busy := None, active_change_generations := []\<rparr> = ?st" by simp
    with that loop_ok_after [OF ok, of k "[]" st'] show ?thesis by simp
  qed
  have one: "1 \<le> active_processing_count st" "0 < active_processing_count ?st" if "in_flight (Some call) = 1"
    using n that by simp_all
  show ?thesis
  proof (cases call)
    case (EmbedCall m)
    have "good ?st m" using ok Some EmbedCall by (simp add: loop_ok_def held_def)
    then have "effect 1 ?st (process_embed_end npath m (unit_outcome out) ?st)"
      using EmbedCall one by (intro effect_embed_end [OF inv]) (simp_all add: in_flight_def)
    then show ?thesis
      using idle [of 1] one EmbedCall Some by (simp add: process_end_def active_path_def in_flight_def)
  next
    case (DeleteCall m)
    have "good ?st m" using ok Some DeleteCall by (simp add: loop_ok_def held_def)
    then have "effect 1 ?st (process_delete_end npath rpath m (unit_outcome out) ?st)"
      using DeleteCall one by (intro effect_delete_end [OF inv]) (simp_all add: in_flight_def)
    then show ?thesis
      using idle [of 1] one DeleteCall Some by (simp add: process_end_def active_path_def in_flight_def)
  next
    case (DeleteBatchCall active fin)
    have "list_all (good ?st) active" using ok Some DeleteBatchCall by (simp add: loop_ok_def held_def list_all_iff)
    then obtain k where "effect (int k) ?st (process_delete_batch_end npath active fin (unit_outcome out) ?st)"
      "int k \<le> active_processing_count st"
      using effect_delete_batch_end [OF inv, of active fin npath "unit_outcome out"] n DeleteBatchCall
      by (auto simp: in_flight_def)
    then show ?thesis
      using idle [of "int k"] DeleteBatchCall Some by (simp add: process_end_def active_path_def)
  next
    case (DirDeleteCall m)
    have "good ?st m" using ok Some DirDeleteCall by (simp add: loop_ok_def held_def)
    then have "effect 1 ?st (process_dir_delete_end npath m out ?st)"
      using DirDeleteCall one by (intro effect_dir_delete_end [OF inv]) (simp_all add: in_flight_def)
    then show ?thesis
      using idle [of 1] one DirDeleteCall Some by (simp add: process_end_def active_path_def in_flight_def)
  next
    case (DirIndexCall m)
    have "effect 1 ?st (index_directory_end npath out ?st)"
      using DirIndexCall one by (intro effect_index_directory_end [OF inv]) (simp_all add: in_flight_def)
    then show ?thesis
      using idle [of 1] one DirIndexCall Some by (simp add: process_end_def active_path_def in_flight_def)
  next
    case (FileCall m)
    have m: "good ?st m" "m_operation m \<in> {''change'', ''scan''}" using ok Some FileCall
      by (simp_all add: loop_ok_def held_def call_ok_def)
    have "fst ` set (active_change_generations st) = {m_path m}" using ok Some FileCall
      by (simp add: loop_ok_def active_path_def)
    then have d: "dict_del (m_path m) (active_change_generations st) = []"
      by (auto simp: dict_del_def filter_empty_conv)
    have "effect 1 (?st\<lparr>active_change_generations := []\<rparr>) (process_file_end npath rpath m (unit_outcome out) ?st)"
      using file_end_ok [OF inv m, of npath rpath "unit_outcome out"] FileCall one d by (simp add: in_flight_def)
    then show ?thesis
      using loop_ok_after [OF ok, of 1 "[]"] one FileCall Some by (simp add: process_end_def in_flight_def)
  qed
qed

subsection \<open>The begin of an iteration\<close>

text \<open>Starting a call in an idle state.\<close>

lemma loop_ok_start:
  assumes ok: "loop_ok st" and idle: "busy st = None" and m: "list_all (good st) (held (st\<lparr>busy := Some call\<rparr>))"
    and n: "int (in_flight (Some call)) \<le> active_processing_count st + k"
    and p: "fst ` set a = active_path (Some call)" and c: "call_ok (Some call)"
  shows "loop_ok (st\<lparr>active_processing_count := active_processing_count st + k, active_change_generations := a, busy := Some call\<rparr>)"
  using assms by (simp add: loop_ok_def held_def)

lemma loop_ok_count:
  "loop_ok st \<Longrightarrow> loop_ok (processing_finished (processing_started st))"
  by (simp add: loop_ok_def processing_finished_def processing_started_def held_def)

lemma loop_ok_delete_begin:
  assumes ok: "loop_ok st" and idle: "busy st = None" and m: "good st m"
  shows "loop_ok (process_delete_begin npath m owned st)"
proof -
  have a: "active_change_generations st = []" using ok idle by (simp add: loop_ok_def active_path_def)
  have "loop_ok (st\<lparr>active_processing_count := active_processing_count st + 1, active_change_generations := [],
      busy := Some (DeleteCall m)\<rparr>)"
    using ok idle m
    by (intro loop_ok_start) (simp_all add: loop_ok_def held_def in_flight_def active_path_def call_ok_def)
  moreover have "st\<lparr>active_processing_count := active_processing_count st + 1, active_change_generations := [],
      busy := Some (DeleteCall m)\<rparr> = (processing_started st)\<lparr>busy := Some (DeleteCall m)\<rparr>"
    using a by (cases st) (simp add: processing_started_def)
  ultimately show ?thesis
    using ok loop_ok_count [OF ok] by (simp add: process_delete_begin_def Let_def)
qed

lemma delete_batch_loop_eq:
  assumes "delete_batch_loop npath ms active fin st = (active', fin', st')" "loop_ok st"
    "int (length (executable active fin)) \<le> active_processing_count st" "list_all (good st) active"
    "list_all (good st) (map fst ms)"
  shows "loop_ok st' \<and> busy st' = busy st \<and> buffered_mutation st' = buffered_mutation st
    \<and> active_change_generations st' = active_change_generations st \<and> list_all (good st') active'
    \<and> int (length (executable active' fin')) \<le> active_processing_count st' \<and> length active' \<le> length active + length ms"
  using assms
proof (induction npath ms active fin st rule: delete_batch_loop.induct)
  case (2 npath m owned ms active fin st)
  let ?stale = "delete_mutation_is_stale npath m st"
  consider (skip) "\<not> owned" "\<not> ?stale" | (stale) "?stale" | (run) "owned" "\<not> ?stale" by blast
  then show ?case
  proof cases
    case skip
    then show ?thesis using "2.IH"(1) [OF refl] "2.prems" by fastforce
  next
    case stale
    let ?st = "processing_finished (processing_started st)"
    have st: "?st = st" if "0 \<le> active_processing_count st"
      using that by (cases st) (simp add: processing_finished_def processing_started_def)
    have pos: "0 \<le> active_processing_count st" using "2.prems"(2) by (simp add: loop_ok_def)
    have le: "length (executable (active @ [m]) (m_id m # fin)) \<le> length (executable active fin)"
      by (induction active) (auto simp: executable_def)
    show ?thesis
      using "2.IH"(2) [OF refl, of] stale "2.prems" le st [OF pos] by fastforce
  next
    case run
    let ?st = "processing_started st"
    have ok: "loop_ok ?st" using "2.prems"(2) by (simp add: loop_ok_def processing_started_def held_def)
    have le: "int (length (executable (active @ [m]) fin)) \<le> active_processing_count ?st"
      using "2.prems"(3) by (simp add: executable_def processing_started_def)
    have g: "list_all (good ?st) (active @ [m])" "list_all (good ?st) (map fst ms)"
      using "2.prems"(4,5) by (simp_all add: processing_started_def)
    have l: "delete_batch_loop npath ms (active @ [m]) fin ?st = (active', fin', st')"
      using "2.prems"(1) run by (simp add: Let_def)
    show ?thesis using "2.IH"(3) [OF refl _ _ l ok le g] run by (simp add: processing_started_def)
  qed
qed simp

lemma loop_ok_delete_batch_begin:
  assumes ok: "loop_ok st" and idle: "busy st = None" and ms: "list_all (good st) (map fst ms)"
    and len: "length ms \<le> DELETE_BATCH_SIZE"
  shows "loop_ok (process_delete_batch_begin npath ms st)"
proof -
  obtain active fin st1 where l: "delete_batch_loop npath ms [] [] st = (active, fin, st1)" by (metis prod.exhaust)
  have "0 \<le> active_processing_count st" using ok by (simp add: loop_ok_def)
  then have r: "loop_ok st1" "busy st1 = None" "list_all (good st1) active" "active_change_generations st1 = []"
    "int (length (executable active fin)) \<le> active_processing_count st1" "length active \<le> DELETE_BATCH_SIZE"
    using delete_batch_loop_eq [OF l ok _ _ ms] idle len ok by (auto simp: executable_def loop_ok_def active_path_def)
  have "loop_ok (st1\<lparr>active_processing_count := active_processing_count st1 + 0, active_change_generations := [],
      busy := Some (DeleteBatchCall active fin)\<rparr>)"
    using r by (intro loop_ok_start) (simp_all add: loop_ok_def held_def in_flight_def active_path_def call_ok_def)
  moreover have "st1\<lparr>active_processing_count := active_processing_count st1 + 0, active_change_generations := [],
      busy := Some (DeleteBatchCall active fin)\<rparr> = st1\<lparr>busy := Some (DeleteBatchCall active fin)\<rparr>"
    using r(4) by (cases st1) simp
  ultimately show ?thesis using r(1) by (simp add: process_delete_batch_begin_def l)
qed

lemma loop_ok_begin_mutation:
  assumes ok: "loop_ok st" and idle: "busy st = None" and buf: "buffered_mutation st = None" and m: "good st m"
  shows "loop_ok (begin_mutation npath rpath exists m owned st)"
proof -
  have inv: "rt_inv {} st" and a: "active_change_generations st = []" and pos: "0 \<le> active_processing_count st"
    using ok idle by (simp_all add: loop_ok_def active_path_def)
  have start: "loop_ok ((processing_started st)\<lparr>busy := Some call\<rparr>)"
    if "held (st\<lparr>busy := Some call\<rparr>) = [m]" "in_flight (Some call) = 1" "active_path (Some call) = {}" "call_ok (Some call)" for call
  proof -
    have "loop_ok (st\<lparr>active_processing_count := active_processing_count st + 1, active_change_generations := [], busy := Some call\<rparr>)"
      using ok idle m that pos by (intro loop_ok_start) simp_all
    moreover have "st\<lparr>active_processing_count := active_processing_count st + 1, active_change_generations := [], busy := Some call\<rparr>
        = (processing_started st)\<lparr>busy := Some call\<rparr>"
      using a by (cases st) (simp add: processing_started_def)
    ultimately show ?thesis by simp
  qed
  consider (embed) "m_operation m = ''embed''" | (delete) "m_operation m = ''delete''"
    | (dir_delete) "m_operation m = ''dir_delete''" | (dir_index) "m_operation m = ''dir_index''"
    | (change) "m_operation m \<in> {''change'', ''scan''}"
    using m by (auto simp: good_mutation_def mutation_operations_def MUTATION_PRIORITIES_def)
  then show ?thesis
  proof cases
    case delete
    obtain batch buf st1 where c: "collect_delete_batch npath m owned st = (batch, buf, st1)" by (metis prod.exhaust)
    have col: "keeps {} st st1" "\<forall>b \<in> set batch. good st1 (fst b)" "length batch \<le> DELETE_BATCH_SIZE"
      "case buf of None \<Rightarrow> True | Some b \<Rightarrow> good st1 (fst b)"
      using keeps_collect [OF inv _ c [unfolded collect_delete_batch_def]] m delete
      by (auto simp: DELETE_BATCH_SIZE_def split: option.splits)
    have fr: "mutation_queue.more st1 = mutation_queue.more st" "active_change_generations st1 = active_change_generations st"
      using collect_loop_frame [OF c [unfolded collect_delete_batch_def]] by simp_all
    let ?st = "st1\<lparr>buffered_mutation := buf\<rparr>"
    have idle': "busy ?st = None" using more_eq [OF fr(1)] idle by simp
    have ok': "loop_ok ?st"
      using ok idle col(1,4) more_eq [OF fr(1)] fr(2) a
      by (auto simp: loop_ok_def keeps_def held_def in_flight_def active_path_def call_ok_def split: option.splits)
    have m1: "good ?st m" using good_newer [OF m] col(1) by (simp add: keeps_def)
    have "list_all (good ?st) (map fst batch)" using col(2) by (simp add: list_all_iff)
    then show ?thesis
      using delete c loop_ok_delete_begin [OF ok' idle' m1] loop_ok_delete_batch_begin [OF ok' idle' _ col(3)]
      by (simp add: begin_mutation_def Let_def)
  next
    case change
    have "loop_ok (st\<lparr>active_processing_count := active_processing_count st + 1,
        active_change_generations := [(m_path m, m_source_generation m)], busy := Some (FileCall m)\<rparr>)"
      using ok idle m change pos buf
      by (intro loop_ok_start) (simp_all add: held_def in_flight_def active_path_def call_ok_def)
    moreover have "st\<lparr>active_processing_count := active_processing_count st + 1,
        active_change_generations := [(m_path m, m_source_generation m)], busy := Some (FileCall m)\<rparr> =
        (processing_started (st\<lparr>active_change_generations := [(m_path m, m_source_generation m)]\<rparr>))\<lparr>busy := Some (FileCall m)\<rparr>"
      by (cases st) (simp add: processing_started_def)
    moreover have "loop_ok (st\<lparr>active_change_generations := [], failed_files := f\<rparr>)" for f
      using ok a by (simp add: loop_ok_def held_def)
    ultimately show ?thesis
      using change a by (auto simp: begin_mutation_def Let_def dict_del_def)
  qed (use start buf in \<open>simp_all add: begin_mutation_def held_def in_flight_def active_path_def call_ok_def\<close>)
qed

lemma loop_ok_begin:
  assumes ok: "loop_ok st" and idle: "busy st = None"
  shows "loop_ok (process_begin npath rpath exists st)"
proof (cases "buffered_mutation st")
  case (Some b)
  obtain m owned where b: "b = (m, owned)" by force
  have "loop_ok (st\<lparr>buffered_mutation := None\<rparr>)" "good st m"
    using ok idle Some b by (simp_all add: loop_ok_def held_def)
  then show ?thesis
    using Some b idle loop_ok_begin_mutation [of "st\<lparr>buffered_mutation := None\<rparr>" m] by (simp add: process_begin_def)
next
  case None
  show ?thesis
  proof (cases "get_nowait st")
    case (Some x)
    obtain q st1 where x: "x = (q, st1)" by force
    obtain m owned st2 where p: "prepare_dequeued_mutation npath q st1 = ((m, owned), st2)" by (metis prod.exhaust)
    have inv: "rt_inv {} st" using ok by (simp add: loop_ok_def)
    note k = keeps_get_prepare [OF inv Some [unfolded x] p]
    have fr: "mutation_queue.more st2 = mutation_queue.more st" "active_change_generations st2 = active_change_generations st"
      using get_nowait_frame [OF Some [unfolded x]] prepare_dequeued_mutation_frame [of npath q st1] by (simp_all add: p)
    have "loop_ok st2"
      using ok idle None k(1) more_eq [OF fr(1)] fr(2) by (simp add: loop_ok_def keeps_def held_def)
    then show ?thesis
      using loop_ok_begin_mutation [of st2 m] k(2) more_eq [OF fr(1)] idle None Some x p
      by (simp add: process_begin_def)
  qed (simp add: process_begin_def None ok)
qed

subsection \<open>Every step keeps the invariant\<close>

lemma loop_ok_effect: "loop_ok st \<Longrightarrow> effect 0 st st' \<Longrightarrow> loop_ok st'"
proof -
  assume ok: "loop_ok st" and e: "effect 0 st st'"
  have "held st' = held st" using e by (simp add: effect_def held_def)
  moreover have "list_all (good st') (held st)"
    using ok effect_newer [OF e] by (auto simp: loop_ok_def list_all_iff intro: good_newer)
  ultimately show "loop_ok st'" using ok e by (simp add: loop_ok_def effect_def keeps_def)
qed

lemma loop_ok_inv: "loop_ok st \<Longrightarrow> rt_inv {} st"
  by (simp add: loop_ok_def)

lemma loop_ok_frame [simp]:
  "loop_ok (st\<lparr>event_queue := a1\<rparr>) = loop_ok st"
  "loop_ok (st\<lparr>recent_file_events := a2\<rparr>) = loop_ok st"
  "loop_ok (st\<lparr>suppressed_duplicate_count := a3\<rparr>) = loop_ok st"
  "loop_ok (st\<lparr>event_queue_accepted := a4\<rparr>) = loop_ok st"
  "loop_ok (st\<lparr>event_queue_dropped := a5\<rparr>) = loop_ok st"
  "loop_ok (st\<lparr>overflow_state := a6\<rparr>) = loop_ok st"
  "loop_ok (st\<lparr>overflow_burst_count := a7\<rparr>) = loop_ok st"
  "loop_ok (st\<lparr>overflow_current_burst_dropped := a8\<rparr>) = loop_ok st"
  "loop_ok (st\<lparr>overflow_last_burst_dropped := a9\<rparr>) = loop_ok st"
  "loop_ok (st\<lparr>resync_requests := b1\<rparr>) = loop_ok st"
  "loop_ok (st\<lparr>needs_resync := b2\<rparr>) = loop_ok st"
  "loop_ok (st\<lparr>resync_in_progress := b3\<rparr>) = loop_ok st"
  "loop_ok (st\<lparr>resync_request_count := b4\<rparr>) = loop_ok st"
  "loop_ok (st\<lparr>resync_performed_count := b5\<rparr>) = loop_ok st"
  "loop_ok (st\<lparr>last_resync_reason := b6\<rparr>) = loop_ok st"
  "loop_ok (st\<lparr>last_resync_request_monotonic := b7\<rparr>) = loop_ok st"
  "loop_ok (st\<lparr>resync_dispatch_task := b8\<rparr>) = loop_ok st"
  "loop_ok (st\<lparr>utc_now := b9\<rparr>) = loop_ok st"
  "loop_ok (st\<lparr>monotonic := c1\<rparr>) = loop_ok st"
  "loop_ok (st\<lparr>wall_time := c2\<rparr>) = loop_ok st"
  by (simp_all add: loop_ok_def held_def)

lemma loop_ok_overflow [simp]:
  "loop_ok (record_event_queue_overflow st) = loop_ok st"
  "loop_ok (complete_event_queue_overflow_burst b st) = loop_ok st"
  "loop_ok (request_resync r st) = loop_ok st"
  "loop_ok (resync_start st) = loop_ok st"
  "loop_ok (resync_wake c st) = loop_ok st"
  "loop_ok (resync_end b st) = loop_ok st"
  by (simp_all add: record_event_queue_overflow_def complete_event_queue_overflow_burst_def request_resync_def
      resync_start_def resync_wake_def resync_end_def Let_def split: option.split resync_phase.split)

lemma loop_ok_enqueue_event: "loop_ok st \<Longrightarrow> loop_ok (enqueue_realtime_event npath et p st)"
  by (auto simp: enqueue_realtime_event_def handle_queue_result_def loop_ok_inv
      intro!: loop_ok_effect [OF _ effect_accepted])

lemma effect_dispatch:
  assumes "rt_inv {} st"
  shows "effect 0 st (dispatch_event npath et p st)"
  using assms rt_inv_current_case [OF assms, of npath p]
  by (simp add: dispatch_event_def effect_add_file effect_enqueue_new delete_operation effect_refl)

lemma loop_ok_remember: "loop_ok (remember_event et p st) = loop_ok st"
  by (simp add: remember_event_def Let_def)

lemma loop_ok_consume: "loop_ok st \<Longrightarrow> loop_ok (consume_event npath st)"
  by (auto simp: consume_event_def Let_def loop_ok_remember loop_ok_inv split: list.split
      intro!: loop_ok_effect [OF _ effect_dispatch])

lemma effect_poll_changed:
  assumes inv: "rt_inv {} st"
  shows "effect 0 st (poll_changed npath p st)"
proof -
  obtain b st1 where a: "add_file npath p ''change'' st = (b, st1)" by force
  have e1: "effect 0 st st1" using effect_add_file [OF inv, of npath p "''change''"] by (simp add: a)
  obtain g st2 where g: "advance_source_generation npath p st1 = (g, st2)" by force
  note k = keeps_advance [OF effect_inv [OF e1] g]
  have e2: "effect 0 st1 st2"
    using advance_source_generation_frame [of npath p st1] k(1) by (intro effect_queue_op) (simp_all add: g)
  let ?st3 = "refresh_pending_change_generation npath p (Some g) st2"
  have e3: "effect 0 st2 ?st3" using k by (intro effect_queue_op keeps_refresh) (simp_all add: keeps_def)
  have e4: "effect 0 ?st3 (reserve_change_follow_up npath p (Some g) ?st3)"
    using k(2) effect_newer [OF e3]
    by (intro effect_queue_op keeps_reserve effect_inv [OF e3]) (simp_all add: newer_def)
  have "effect 0 st (reserve_change_follow_up npath p (Some g) ?st3)"
    using effect0_trans [OF e1 effect0_trans [OF e2 effect0_trans [OF e3 e4]]] .
  moreover have "effect 0 st (record_accepted_event npath p st1)"
    using effect0_trans [OF e1 effect_accepted [OF effect_inv [OF e1]]] .
  ultimately show ?thesis by (simp add: poll_changed_def a g)
qed

lemma effect_poll_files: "rt_inv {} st \<Longrightarrow> effect 0 st (poll_files npath known fs st)"
proof (induction npath known fs st rule: poll_files.induct)
  case (2 npath known p f fs st)
  have e: "effect 0 st (if dict_get known p = Some f then st else poll_changed npath p st)"
    using "2.prems" by (simp add: effect_refl effect_poll_changed)
  from effect0_trans [OF e "2.IH" [OF effect_inv [OF e]]] show ?case by simp
qed (simp add: effect_refl)

lemma effect_poll_deleted:
  assumes "rt_inv {} st"
  shows "effect 0 st (poll_deleted npath p st)"
proof -
  have e: "effect 0 st (record_accepted_event npath p st)" using assms by (rule effect_accepted)
  show ?thesis
    using effect0_trans [OF e effect_enqueue_new [OF effect_inv [OF e] delete_operation(1) rt_inv_current_case [OF effect_inv [OF e]]]]
    by (simp add: poll_deleted_def Let_def)
qed

lemma effect_poll_deletes: "rt_inv {} st \<Longrightarrow> effect 0 st (poll_deletes npath ps st)"
proof (induction npath ps st rule: poll_deletes.induct)
  case (2 npath p ps st)
  have e: "effect 0 st (poll_deleted npath p st)" using "2.prems" by (rule effect_poll_deleted)
  from effect0_trans [OF e "2.IH" [OF effect_inv [OF e]]] show ?case by simp
qed (simp add: effect_refl)

lemma effect_poll_round: "rt_inv {} st \<Longrightarrow> effect 0 st (poll_round npath known current st)"
  unfolding poll_round_def
  by (rule effect0_trans [OF effect_poll_files effect_poll_deletes [OF effect_inv [OF effect_poll_files]]])

text \<open>A sleeping task that is taken out of the list and run.\<close>

lemma loop_ok_task:
  assumes ok: "loop_ok st" and t: "t \<in> set (transient_tasks st)"
    and run: "\<And>s. rt_inv (insert (tag (task_mutation t)) {}) s \<Longrightarrow> good s (task_mutation t) \<Longrightarrow> keeps {} s (f s)"
    and frame: "\<And>s. mutation_queue.more (f s) = mutation_queue.more s"
      "\<And>s. active_change_generations (f s) = active_change_generations s"
  shows "loop_ok (f (st\<lparr>transient_tasks := remove1 t (transient_tasks st)\<rparr>))"
proof -
  let ?st = "st\<lparr>transient_tasks := remove1 t (transient_tasks st)\<rparr>"
  note tk = inv_take_task [OF loop_ok_inv [OF ok] t]
  have "keeps {} ?st (f ?st)" using tk by (intro run) simp_all
  moreover have "newer st ?st" by (simp add: newer_def)
  ultimately have "keeps {} st (f ?st)" by (rule keeps_trans [rotated])
  then have "effect 0 st (f ?st)"
    using frame [of ?st] more_eq [of "f ?st" ?st] by (intro effect_queue_op) (simp_all add: frame)
  with ok show ?thesis by (rule loop_ok_effect)
qed

text \<open>The part of the state the recovery invariant reads, and what leaves it alone.\<close>

definition recovery ::
  "realtime \<Rightarrow> string \<times> string list \<times> int \<times> bool \<times> resync_phase option \<times> bool \<times> nat" where
  "recovery st =
     (overflow_state st, resync_requests st, overflow_current_burst_dropped st, resync_in_progress st,
      resync_dispatch_task st, needs_resync st, length (event_queue st))"

lemma recovery_ok_cong: "recovery st' = recovery st \<Longrightarrow> recovery_ok st' = recovery_ok st"
  by (simp add: recovery_ok_def recovery_def)

lemma more_recovery: "mutation_queue.more st' = mutation_queue.more st \<Longrightarrow> recovery st' = recovery (st :: realtime)"
  by (cases st; cases st') (simp add: recovery_def)

lemmas recovery_queue_ops [simp] =
  more_recovery [OF build_mutation_frame(1)] more_recovery [OF advance_source_generation_frame(1)]
  more_recovery [OF refresh_pending_change_generation_frame(1)] more_recovery [OF reserve_change_follow_up_frame(1)]
  more_recovery [OF enqueue_mutation_frame(1)] more_recovery [OF release_pending_mutation_frame(1)]
  more_recovery [OF retry_mutation_after_delay_frame(1)] more_recovery [OF schedule_compaction_retry_frame(1)]
  more_recovery [OF schedule_delete_retry_frame(1)] more_recovery [OF prepare_dequeued_mutation_frame(1)]
  more_recovery [OF drain_reserved_follow_up_change_frame(1)] more_recovery [OF add_file_frame(1)]
  more_recovery [OF debounced_add_file_frame(1)] more_recovery [OF cancel_task_frame(1)]

lemma recovery_fields [simp]:
  "recovery (st\<lparr>recent_file_events := a2\<rparr>) = recovery st"
  "recovery (st\<lparr>failed_files := a3\<rparr>) = recovery st"
  "recovery (st\<lparr>indexed_files := a4\<rparr>) = recovery st"
  "recovery (st\<lparr>removed_files := a5\<rparr>) = recovery st"
  "recovery (st\<lparr>active_processing_count := a6\<rparr>) = recovery st"
  "recovery (st\<lparr>processing_error_count := a7\<rparr>) = recovery st"
  "recovery (st\<lparr>suppressed_duplicate_count := a8\<rparr>) = recovery st"
  "recovery (st\<lparr>event_queue_accepted := a9\<rparr>) = recovery st"
  "recovery (st\<lparr>event_queue_dropped := b1\<rparr>) = recovery st"
  "recovery (st\<lparr>buffered_mutation := b2\<rparr>) = recovery st"
  "recovery (st\<lparr>busy := b3\<rparr>) = recovery st"
  "recovery (st\<lparr>active_change_generations := b4\<rparr>) = recovery st"
  "recovery (st\<lparr>transient_tasks := b5\<rparr>) = recovery st"
  "recovery (st\<lparr>utc_now := b6\<rparr>) = recovery st"
  "recovery (st\<lparr>monotonic := b7\<rparr>) = recovery st"
  "recovery (st\<lparr>wall_time := b8\<rparr>) = recovery st"
  by (simp_all add: recovery_def)

lemma recovery_counts [simp]:
  "recovery (processing_started st) = recovery st"
  "recovery (processing_finished st) = recovery st"
  "recovery (record_failure ps st) = recovery st"
  "recovery (handle_compaction_busy npath m st) = recovery st"
  "recovery (remember_event et p st) = recovery st"
  "recovery (enqueue_new npath oper p g st) = recovery st"
  "recovery (record_accepted_event npath p st) = recovery st"
  by (simp_all add: processing_started_def processing_finished_def record_failure_def handle_compaction_busy_def
      remember_event_def enqueue_new_def record_accepted_event_def case_prod_beta Let_def)

lemma recovery_finish_all [simp]: "recovery (finish_all n st) = recovery st"
  by (induction n arbitrary: st) simp_all

lemma recovery_retry_batch [simp]: "recovery (snd (retry_batch (schedule_compaction_retry npath) ms st)) = recovery st"
  by (induction ms arbitrary: st) (simp_all add: case_prod_beta Let_def)

lemma recovery_conflict_loop [simp]: "recovery (snd (snd (conflict_loop npath ms fin st))) = recovery st"
  by (induction ms arbitrary: fin st) (simp_all add: case_prod_beta Let_def)

lemma recovery_delete_batch_loop [simp]: "recovery (snd (snd (delete_batch_loop npath ms act fin st))) = recovery st"
  by (induction npath ms act fin st rule: delete_batch_loop.induct) (simp_all add: Let_def)

lemma recovery_cleanup [simp]: "recovery (cleanup_loop npath g ps st) = recovery st"
  by (induction npath g ps st rule: cleanup_loop.induct) simp_all

lemma recovery_add_files [simp]: "recovery (add_files npath ps st) = recovery st"
  by (induction npath ps st rule: add_files.induct) simp_all

lemma recovery_poll_files [simp]: "recovery (poll_files npath known fs st) = recovery st"
  by (induction npath known fs st rule: poll_files.induct) (simp_all add: poll_changed_def case_prod_beta Let_def)

lemma recovery_poll_deletes [simp]: "recovery (poll_deletes npath ps st) = recovery st"
  by (induction npath ps st rule: poll_deletes.induct) (simp_all add: poll_deleted_def Let_def)

lemma recovery_collect [simp]: "recovery (snd (snd (collect_delete_batch npath m owned st))) = recovery st"
proof -
  obtain batch buf s where c: "collect_loop npath (DELETE_BATCH_SIZE - 1) [(m, owned)] st = (batch, buf, s)"
    by (rule prod_cases3)
  have "recovery s = recovery st" using collect_loop_frame [OF c] by - (rule more_recovery, simp)
  then show ?thesis by (simp only: collect_delete_batch_def c snd_conv)
qed

lemma recovery_delete_begin [simp]:
  "recovery (process_delete_begin npath m owned st) = recovery st"
  "recovery (process_delete_batch_begin npath ms st) = recovery st"
  by (simp_all add: process_delete_begin_def process_delete_batch_begin_def case_prod_beta Let_def)

lemma recovery_if: "recovery a = r \<Longrightarrow> recovery b = r \<Longrightarrow> recovery (if c then a else b) = r"
  by simp

lemma recovery_begin_mutation [simp]: "recovery (begin_mutation npath rpath exists m owned st) = recovery st"
proof -
  define s1 where "s1 = (if m_operation m \<in> {''change'', ''scan''}
    then st\<lparr>active_change_generations := dict_set (m_path m) (m_source_generation m) (active_change_generations st)\<rparr> else st)"
  have s1: "recovery s1 = recovery st" by (simp add: s1_def)
  obtain batch buf s2 where c: "collect_delete_batch npath m owned s1 = (batch, buf, s2)" by (metis prod.exhaust)
  have s2: "recovery s2 = recovery st" using recovery_collect [of npath m owned s1] by (simp only: c snd_conv s1)
  show ?thesis
    unfolding begin_mutation_def Let_def s1_def [symmetric] c prod.case
    by (intro recovery_if) (simp_all add: s1 s2)
qed

lemma recovery_get: "get_nowait st = Some x \<Longrightarrow> recovery (snd x) = recovery (st :: realtime)"
  by (rule more_recovery) (use get_nowait_frame [of st "fst x" "snd x"] in simp)

lemma recovery_begin [simp]: "recovery (process_begin npath rpath exists st) = recovery st"
proof (cases "buffered_mutation st")
  case None
  then show ?thesis
    by (cases "get_nowait st") (simp_all add: process_begin_def case_prod_beta Let_def recovery_get)
qed (simp add: process_begin_def case_prod_beta)

lemma recovery_end [simp]: "recovery (process_end npath rpath out st) = recovery st"
  by (simp add: process_end_def process_embed_end_def process_delete_end_def process_delete_batch_end_def
      process_dir_delete_end_def index_directory_end_def process_file_end_def handle_compaction_busy_batch_def
      case_prod_beta Let_def split: option.split awaited_call.split outcome.split)

lemma recovery_ok_enqueue:
  assumes "recovery_ok st"
  shows "recovery_ok (enqueue_realtime_event npath et p st)"
proof (cases "length (event_queue st) < EVENT_QUEUE_MAXSIZE")
  case True
  let ?s = "st\<lparr>event_queue := event_queue st @ [(et, p)]\<rparr>"
  have "recovery_ok ?s" using assms True by (simp add: recovery_ok_def)
  moreover have "recovery_ok (enqueue_realtime_event npath et p st) = recovery_ok ?s"
    using True by (intro recovery_ok_cong) (simp add: enqueue_realtime_event_def handle_queue_result_def)
  ultimately show ?thesis by simp
next
  case False
  then show ?thesis
    using assms
    by (auto simp: enqueue_realtime_event_def handle_queue_result_def record_event_queue_overflow_def recovery_ok_def)
qed

lemma recovery_dispatch [simp]: "recovery (dispatch_event npath et p st) = recovery st"
  by (simp add: dispatch_event_def)

lemma recovery_ok_consume:
  assumes "recovery_ok st"
  shows "recovery_ok (consume_event npath st)"
proof (cases "event_queue st")
  case (Cons e rest)
  obtain et p where e: "e = (et, p)" by force
  let ?s = "st\<lparr>event_queue := rest\<rparr>"
  have "recovery_ok ?s" using assms Cons by (simp add: recovery_ok_def)
  moreover have "recovery_ok (consume_event npath st) = recovery_ok ?s"
    by (rule recovery_ok_cong) (simp add: consume_event_def Cons e Let_def)
  ultimately show ?thesis by simp
qed (simp add: consume_event_def assms)

lemma recovery_ok_request: "recovery_ok st \<Longrightarrow> recovery_ok (request_resync r st)"
  by (simp add: recovery_ok_def request_resync_def Let_def)

lemma recovery_ok_overflow_request:
  "recovery_ok st \<Longrightarrow> resync_requests st = q # qs \<Longrightarrow> recovery_ok (request_resync q (st\<lparr>resync_requests := qs\<rparr>))"
  by (simp add: recovery_ok_def request_resync_def Let_def)

lemma recovery_ok_start: "recovery_ok st \<Longrightarrow> recovery_ok (resync_start st)"
  by (cases "resync_dispatch_task st"; cases "the (resync_dispatch_task st)")
    (simp_all add: recovery_ok_def resync_start_def)

lemma complete_burst_fields [simp]:
  "resync_requests (complete_event_queue_overflow_burst b st) = resync_requests st"
  "resync_dispatch_task (complete_event_queue_overflow_burst b st) = resync_dispatch_task st"
  "resync_in_progress (complete_event_queue_overflow_burst b st) = resync_in_progress st"
  "needs_resync (complete_event_queue_overflow_burst b st) = needs_resync st"
  "event_queue (complete_event_queue_overflow_burst b st) = event_queue st"
  "last_resync_request_monotonic (complete_event_queue_overflow_burst b st) = last_resync_request_monotonic st"
  "last_resync_reason (complete_event_queue_overflow_burst b st) = last_resync_reason st"
  "overflow_state (complete_event_queue_overflow_burst b st) =
     (if b \<or> overflow_state st = ''idle'' then ''idle'' else ''failed'')"
  "overflow_current_burst_dropped (complete_event_queue_overflow_burst b st) =
     (if b \<and> overflow_state st \<noteq> ''idle'' then 0 else overflow_current_burst_dropped st)"
  by (simp_all add: complete_event_queue_overflow_burst_def Let_def)

lemma recovery_ok_wake: "recovery_ok st \<Longrightarrow> recovery_ok (resync_wake c st)"
  by (cases "resync_dispatch_task st"; cases "the (resync_dispatch_task st)")
    (simp_all add: recovery_ok_def resync_wake_def)

lemma recovery_ok_resync_end: "recovery_ok st \<Longrightarrow> recovery_ok (resync_end b st)"
  by (cases "resync_dispatch_task st"; cases "the (resync_dispatch_task st)")
    (simp_all add: recovery_ok_def resync_end_def Let_def)

lemma task_step_ok:
  assumes "loop_ok st \<and> recovery_ok st" "loop_ok st'" "recovery st' = recovery st"
  shows "loop_ok st' \<and> recovery_ok st'"
  using assms(1,2) recovery_ok_cong [OF assms(3)] by simp

lemma rt_step_ok:
  "rt_step npath rpath st st' \<Longrightarrow> loop_ok st \<and> recovery_ok st \<Longrightarrow> loop_ok st' \<and> recovery_ok st'"
proof (induction rule: rt_step.induct)
  case (Clock st u t w)
  then show ?case by - (rule task_step_ok [of st], simp_all)
next
  case (WakeRetry m st)
  have "loop_ok (retry_mutation_after_delay npath m (st\<lparr>transient_tasks := remove1 (RetryTask m) (transient_tasks st)\<rparr>))"
    using WakeRetry by (intro loop_ok_task [where f = "retry_mutation_after_delay npath m"]) (simp_all add: keeps_retry)
  with WakeRetry show ?case by - (rule task_step_ok [of st], simp_all)
next
  case (WakeDebounce m st)
  have "loop_ok (debounced_add_file m (st\<lparr>transient_tasks := remove1 (DebounceTask m) (transient_tasks st)\<rparr>))"
    using WakeDebounce by (intro loop_ok_task [where f = "debounced_add_file m"]) (simp_all add: keeps_debounced)
  with WakeDebounce show ?case by - (rule task_step_ok [of st], simp_all)
next
  case (Cancel t st)
  have "loop_ok (cancel_task t (st\<lparr>transient_tasks := remove1 t (transient_tasks st)\<rparr>))"
    using Cancel by (intro loop_ok_task [where f = "cancel_task t"]) (simp_all add: keeps_cancel)
  with Cancel show ?case by - (rule task_step_ok [of st], simp_all)
next
  case (AddFile st p priority)
  then show ?case
    by - (rule task_step_ok [of st], simp_all add: loop_ok_effect [OF _ effect_add_file] loop_ok_inv)
next
  case (Poll st known current)
  have "recovery (poll_round npath known current st) = recovery st" by (simp add: poll_round_def)
  with Poll show ?case
    by - (rule task_step_ok [of st], simp_all add: loop_ok_effect [OF _ effect_poll_round] loop_ok_inv)
next
  case (Begin st exists)
  then show ?case by - (rule task_step_ok [of st], simp_all add: loop_ok_begin)
next
  case (End st out)
  then show ?case by - (rule task_step_ok [of st], simp_all add: loop_ok_end)
qed (simp_all add: loop_ok_enqueue_event recovery_ok_enqueue loop_ok_consume recovery_ok_consume
    recovery_ok_request recovery_ok_overflow_request recovery_ok_start recovery_ok_wake recovery_ok_resync_end)

lemma initial_ok: "loop_ok initial_realtime \<and> recovery_ok initial_realtime"
  by (simp add: initial_realtime_def loop_ok_def recovery_ok_def rt_inv_def queue_ok_def pending_ok_def entries_ok_def
      live_mutations_def gens_ok_def path_count_def held_def in_flight_def active_path_def call_ok_def)

lemma reachable_ok: "rt_reachable npath rpath st \<Longrightarrow> loop_ok st \<and> recovery_ok st"
proof (induction rule: rt_reachable.induct)
  case (Step st st')
  show ?case using Step(2) Step(3) by (rule rt_step_ok)
qed (rule initial_ok)

subsection \<open>Properties\<close>

text \<open>
  C3: in every reachable state of the service, whatever the interleaving of events, timers, polling,
  database failures and processing: the pending counts agree with the pending mutations and
  \<open>pending_files\<close> is the set of their paths; every pending mutation is carried by a queue entry or a
  sleeping task, so none is stuck; retry counts stay within the budget; the active changes are the
  file being processed; and while the state is \<open>reconciling\<close> a resync is on its way.
\<close>

theorem realtime_invariant:
  assumes "rt_reachable npath rpath st"
  shows "(\<forall>p. dict_get (pending_path_counts st) p =
        (if path_count p (pending_mutations st) = 0 then None else Some (int (path_count p (pending_mutations st)))))
    \<and> pending_files st = snd ` fst ` set (pending_mutations st)
    \<and> (\<forall>(k, m) \<in> set (pending_mutations st).
        \<exists>c \<in> (snd \<circ> snd) ` set (file_queue st) \<union> task_mutation ` set (transient_tasks st).
          pending_mutation_key c = k \<and> m_id c = m_id m)
    \<and> (\<forall>m \<in> live_mutations st. m_retry_count m \<le> MAX_RETRY_BUDGET)
    \<and> fst ` set (active_change_generations st) = active_path (busy st)
    \<and> (overflow_state st = ''reconciling'' \<longrightarrow> resync_requests st \<noteq> [] \<or> resync_dispatch_task st \<noteq> None)"
proof -
  have inv: "rt_inv {} st" and act: "fst ` set (active_change_generations st) = active_path (busy st)"
    and rec: "recovery_ok st"
    using reachable_ok [OF assms] by (simp_all add: loop_ok_def)
  have ok: "pending_ok (pending_mutations st) (pending_path_counts st) (pending_files st)"
    and good: "\<forall>m \<in> live_mutations st. good st m" using inv by (simp_all add: rt_inv_def queue_ok_def)
  have carried: "\<exists>c \<in> (snd \<circ> snd) ` set (file_queue st) \<union> task_mutation ` set (transient_tasks st).
      pending_mutation_key c = k \<and> m_id c = m_id m" if km: "(k, m) \<in> set (pending_mutations st)" for k m
  proof -
    have mem: "tag (snd (k, m)) \<in> tag ` snd ` set (pending_mutations st)" using km by (intro imageI)
    have sub: "tag ` snd ` set (pending_mutations st) \<subseteq>
        tag ` ((snd \<circ> snd) ` set (file_queue st) \<union> task_mutation ` set (transient_tasks st))"
      using inv by (simp add: rt_inv_def carriers_def)
    from subsetD [OF sub mem]
    have "tag m \<in> tag ` ((snd \<circ> snd) ` set (file_queue st) \<union> task_mutation ` set (transient_tasks st))" by (simp only: snd_conv)
    then obtain c where c: "tag m = tag c"
      "c \<in> (snd \<circ> snd) ` set (file_queue st) \<union> task_mutation ` set (transient_tasks st)" by (rule imageE)
    have "pending_mutation_key m = k" using km ok by (auto simp: pending_ok_def)
    with c show ?thesis by (intro bexI [of _ c]) (simp_all add: tag_def)
  qed
  show ?thesis
    using ok good act rec carried by (auto simp: pending_ok_def good_mutation_def recovery_ok_def)
qed


text \<open>
  C30: the queue serves the smallest priority first and, within a priority, the oldest entry; the
  comparison never reaches the mutations themselves, which have no order.
\<close>

theorem dequeue_priority_order:
  assumes "rt_reachable npath rpath st" "get_nowait st = Some (m, st')"
  shows "(\<exists>s. mset (file_queue st) = add_mset (mutation_priority (m_operation m), s, m) (mset (file_queue st'))
      \<and> (\<forall>e \<in> set (file_queue st').
          mutation_priority (m_operation m) < mutation_priority (m_operation (snd (snd e)))
          \<or> (mutation_priority (m_operation m) = mutation_priority (m_operation (snd (snd e))) \<and> s < fst (snd e))))"
proof -
  have inv: "entries_ok (queue_sequence st) (file_queue st)"
    using reachable_ok [OF assms(1)] by (simp add: loop_ok_def rt_inv_def queue_ok_def)
  obtain e q where e: "queue_pop (file_queue st) = Some (e, q)" "m = snd (snd e)" "st' = st\<lparr>file_queue := q\<rparr>"
    using assms(2) by (auto simp: get_nowait_pop)
  have srt: "strictly_sorted (file_queue st)" using inv by (simp add: entries_ok_def strictly_sorted_def)
  note g = pq.get_Some [OF srt e(1)]
  have prio: "\<forall>x \<in> set (file_queue st). fst x = mutation_priority (m_operation (snd (snd x)))"
    using inv by (auto simp: entries_ok_def)
  have fq: "set (file_queue st) = insert e (set q)" using g by (metis set_mset_add_mset_insert set_mset_mset)
  have first: "fst e = mutation_priority (m_operation m)" using prio fq e(2) by simp
  have "mutation_priority (m_operation m) < mutation_priority (m_operation (snd (snd x)))
      \<or> (mutation_priority (m_operation m) = mutation_priority (m_operation (snd (snd x))) \<and> fst (snd e) < fst (snd x))"
    if x: "x \<in> set q" for x
  proof -
    have "entry_key e < entry_key x" using g x by simp
    moreover have "fst x = mutation_priority (m_operation (snd (snd x)))" using prio fq x by blast
    ultimately show ?thesis using first by (auto simp: entry_key_def)
  qed
  moreover have "e = (mutation_priority (m_operation m), fst (snd e), m)" using first e(2) by (cases e) simp
  ultimately show ?thesis using g e(3) by (intro exI [of _ "fst (snd e)"]) simp
qed

text \<open>What taking mutations from the queue does to the latest generations: nothing.\<close>

lemma latest_frames [simp]:
  "latest_source_generation_by_path (release_pending_mutation m st) = latest_source_generation_by_path st"
  "latest_source_generation_by_path (snd (prepare_dequeued_mutation npath m st)) = latest_source_generation_by_path st"
  by (simp_all add: release_pending_mutation_def prepare_dequeued_mutation_def Let_def)

lemma stale_cong:
  assumes "latest_source_generation_by_path st' = latest_source_generation_by_path st"
  shows "delete_mutation_is_stale npath m st' = delete_mutation_is_stale npath m st"
  unfolding delete_mutation_is_stale_def current_source_generation_def assms ..

lemma delete_batch_loop_stale:
  assumes "delete_batch_loop npath ms active fin st = (active', fin', st')"
    "\<forall>m \<in> set (executable active fin). \<not> delete_mutation_is_stale npath m st"
  shows "latest_source_generation_by_path st' = latest_source_generation_by_path st
    \<and> (\<forall>m \<in> set (executable active' fin'). \<not> delete_mutation_is_stale npath m st')"
  using assms
proof (induction npath ms active fin st rule: delete_batch_loop.induct)
  case (2 npath m owned ms active fin st)
  have st: "delete_mutation_is_stale npath x (processing_started st) = delete_mutation_is_stale npath x st"
    "delete_mutation_is_stale npath x (processing_finished (processing_started st)) = delete_mutation_is_stale npath x st" for x
    by (rule stale_cong, simp add: processing_started_def processing_finished_def)+
  have lt: "latest_source_generation_by_path (processing_started st) = latest_source_generation_by_path st"
    "latest_source_generation_by_path (processing_finished (processing_started st)) = latest_source_generation_by_path st"
    by (simp_all add: processing_started_def processing_finished_def)
  have sub: "set (executable (active @ [m]) (m_id m # fin)) \<subseteq> set (executable active fin)" by (auto simp: executable_def)
  consider (skip) "\<not> owned" "\<not> delete_mutation_is_stale npath m st" | (stale) "delete_mutation_is_stale npath m st"
    | (run) owned "\<not> delete_mutation_is_stale npath m st" by blast
  then show ?case
  proof cases
    case skip
    then show ?thesis using "2.IH"(1) [OF refl] "2.prems" by simp
  next
    case stale
    have "\<forall>x \<in> set (executable (active @ [m]) (m_id m # fin)).
        \<not> delete_mutation_is_stale npath x (processing_finished (processing_started st))"
      using "2.prems"(2) sub unfolding st by blast
    with "2.IH"(2) [OF refl _ stale] "2.prems"(1) stale lt show ?thesis by (simp add: Let_def)
  next
    case run
    have "\<forall>x \<in> set (executable (active @ [m]) fin). \<not> delete_mutation_is_stale npath x (processing_started st)"
      using "2.prems"(2) run(2) unfolding st by (auto simp: executable_def)
    with "2.IH"(3) [OF refl] "2.prems"(1) run lt show ?thesis by (simp add: Let_def)
  qed
qed simp

text \<open>The deletes an awaited database call executes.\<close>

definition executing_deletes :: "awaited_call option \<Rightarrow> realtime_mutation list" where
  "executing_deletes call =
     (case call of Some (DeleteCall m) \<Rightarrow> [m] | Some (DeleteBatchCall active fin) \<Rightarrow> executable active fin | _ \<Rightarrow> [])"

lemma begin_mutation_not_stale:
  assumes "busy st = None"
  shows "list_all (\<lambda>d. \<not> delete_mutation_is_stale npath d (begin_mutation npath rpath exists m owned st))
    (executing_deletes (busy (begin_mutation npath rpath exists m owned st)))"
proof (cases "m_operation m = ''delete''")
  case True
  obtain batch buf st1 where c: "collect_delete_batch npath m owned st = (batch, buf, st1)" by (rule prod_cases3)
  have b1: "busy (st1\<lparr>buffered_mutation := buf\<rparr>) = None"
    using collect_loop_frame [OF c [unfolded collect_delete_batch_def]] more_eq [of st1 st] assms by simp
  let ?s = "st1\<lparr>buffered_mutation := buf\<rparr>"
  have single: "list_all (\<lambda>d. \<not> delete_mutation_is_stale npath d (process_delete_begin npath m owned ?s))
      (executing_deletes (busy (process_delete_begin npath m owned ?s)))"
  proof -
    have "delete_mutation_is_stale npath m ((processing_started ?s)\<lparr>busy := x\<rparr>) = delete_mutation_is_stale npath m ?s" for x
      by (rule stale_cong) (simp add: processing_started_def)
    then show ?thesis
      using b1 by (simp add: process_delete_begin_def Let_def executing_deletes_def processing_started_def processing_finished_def)
  qed
  obtain active fin st2 where l: "delete_batch_loop npath batch [] [] ?s = (active, fin, st2)" by (rule prod_cases3)
  have l2: "\<forall>m \<in> set (executable active fin). \<not> delete_mutation_is_stale npath m st2"
    using delete_batch_loop_stale [OF l] by (simp add: executable_def)
  have b2: "busy st2 = None"
  proof -
    have "busy st' = busy s" if "delete_batch_loop npath ms act f s = (act', f', st')" for ms act f s act' f' st'
      using that
      by (induction npath ms act f s rule: delete_batch_loop.induct)
        (auto simp: Let_def processing_started_def processing_finished_def split: if_splits)
    from this [OF l] b1 show ?thesis by simp
  qed
  have "delete_mutation_is_stale npath d (st2\<lparr>busy := x\<rparr>) = delete_mutation_is_stale npath d st2" for d x
    by (rule stale_cong) simp
  then have batch: "list_all (\<lambda>d. \<not> delete_mutation_is_stale npath d (process_delete_batch_begin npath batch ?s))
      (executing_deletes (busy (process_delete_batch_begin npath batch ?s)))"
    using l2 b2 by (simp add: process_delete_batch_begin_def l executing_deletes_def list_all_iff)
  show ?thesis using True c single batch by (simp add: begin_mutation_def Let_def)
next
  case False
  then show ?thesis using assms by (simp add: begin_mutation_def Let_def executing_deletes_def processing_started_def)
qed

text \<open>
  C8: a stale delete is never executed: when the loop starts a deletion in the database, single or
  batched, no path of it has been seen again after the delete was queued.
\<close>

theorem stale_delete_not_executed:
  assumes "busy st = None"
  shows "list_all (\<lambda>d. \<not> delete_mutation_is_stale npath d (process_begin npath rpath exists st))
    (executing_deletes (busy (process_begin npath rpath exists st)))"
proof (cases "buffered_mutation st")
  case (Some b)
  then show ?thesis
    using begin_mutation_not_stale [of "st\<lparr>buffered_mutation := None\<rparr>" npath rpath exists "fst b" "snd b"] assms
    by (simp add: process_begin_def case_prod_beta)
next
  case None
  show ?thesis
  proof (cases "get_nowait st")
    case (Some x)
    obtain q st1 where x: "x = (q, st1)" by force
    obtain m owned st2 where p: "prepare_dequeued_mutation npath q st1 = ((m, owned), st2)" by (metis prod.exhaust)
    have "busy st2 = None"
      using more_eq [of st2 st] get_nowait_frame [OF Some [unfolded x]] prepare_dequeued_mutation_frame [of npath q st1] assms
      by (simp add: p)
    from begin_mutation_not_stale [OF this, of npath rpath exists m owned] show ?thesis
      by (simp add: process_begin_def None Some x p)
  qed (simp add: process_begin_def None assms executing_deletes_def)
qed

text \<open>Keys that stay pending.\<close>

definition pends :: "string \<times> string \<Rightarrow> 'a mutation_queue_scheme \<Rightarrow> bool" where
  "pends k st \<longleftrightarrow> dict_get (pending_mutations st) k \<noteq> None"

lemma pends_fields [simp]:
  "pends k (st\<lparr>pending_debounce := d\<rparr>) = pends k st"
  "pends k (st\<lparr>reserved_follow_up_change_generations := r\<rparr>) = pends k st"
  by (simp_all add: pends_def)

lemma pends_loop_fields [simp]:
  fixes st :: realtime
  shows
    "pends k (st\<lparr>active_change_generations := a\<rparr>) = pends k st"
    "pends k (st\<lparr>active_processing_count := b\<rparr>) = pends k st"
    "pends k (st\<lparr>indexed_files := f1\<rparr>) = pends k st"
    "pends k (st\<lparr>recent_file_events := f2\<rparr>) = pends k st"
    "pends k (st\<lparr>busy := c\<rparr>) = pends k st"
    "pends k (record_failure ps st) = pends k st"
  by (simp_all add: pends_def record_failure_def)

lemma pends_register: "pends k st \<Longrightarrow> pends k (snd (register_pending_mutation m st))"
  by (simp add: pends_def register_pending_mutation_def Let_def split: option.split)

lemma pends_registered: "pends (pending_mutation_key m) (snd (register_pending_mutation m st))"
  by (simp add: pends_def register_pending_mutation_def Let_def split: option.split)

lemma pends_put: "pends k (put_mutation m st) = pends k st"
  by (simp add: pends_def put_mutation_def)

lemma pends_start_task: "pends k (start_task t st) = pends k st"
  by (simp add: pends_def start_task_def)

lemma pends_build: "pends k (snd (build_mutation npath oper p r g fq st)) = pends k st"
  by (simp add: pends_def build_mutation_def)

lemma pends_refresh: "pends k st \<Longrightarrow> pends k (refresh_pending_change_generation npath p g st)"
  by (simp add: pends_def refresh_pending_change_generation_def Let_def split: option.split)

lemma pends_enqueue: "pends k st \<Longrightarrow> pends k (snd (enqueue_mutation m b st))"
  by (simp add: enqueue_mutation_def case_prod_beta pends_put pends_register)

lemma pends_reserve: "pends k (reserve_change_follow_up npath p g st) = pends k st"
  by (simp add: pends_def reserve_change_follow_up_def Let_def split: option.split)

lemma pends_schedule: "pends k st \<Longrightarrow> pends k (snd (schedule_retry npath oper m st))"
  by (simp add: schedule_retry_def case_prod_beta Let_def pends_start_task pends_register pends_build)

lemma pends_follow_up: "pends k st \<Longrightarrow> pends k (snd (queue_follow_up_change npath p g fq st))"
  by (simp add: queue_follow_up_change_def case_prod_beta Let_def pends_refresh pends_enqueue pends_register pends_build)

lemma pends_drain: "pends k st \<Longrightarrow> pends k (drain_reserved_follow_up_change npath p q st)"
  by (simp add: drain_reserved_follow_up_change_def pends_follow_up split: option.split)

lemma pends_add_file: "pends k st \<Longrightarrow> pends k (snd (add_file npath p pr st))"
  by (simp add: add_file_def case_prod_beta Let_def mark_coalesced_change_def pends_refresh pends_reserve pends_build
      pends_register pends_enqueue pends_start_task)

lemma follow_up_pends: "pends (''change'', npath p) (snd (queue_follow_up_change npath p g fq st))"
proof -
  obtain m st1 where b: "build_mutation npath ''change'' p 0 (Some g) fq st = (m, st1)" by force
  then have "pending_mutation_key m = (''change'', npath p)" by (auto simp: build_mutation_def pending_mutation_key_def)
  then have "pends (''change'', npath p) (snd (register_pending_mutation m st1))" using pends_registered [of m st1] by simp
  then show ?thesis
    by (auto simp: queue_follow_up_change_def b case_prod_beta Let_def intro: pends_refresh pends_enqueue)
qed

lemma reserved_register [simp]:
  "reserved_follow_up_change_generations (snd (register_pending_mutation m st)) = reserved_follow_up_change_generations st"
  "reserved_follow_up_change_generations (snd (enqueue_mutation m b st)) = reserved_follow_up_change_generations st"
  "reserved_follow_up_change_generations (snd (build_mutation npath oper p r g fq st)) = reserved_follow_up_change_generations st"
  "reserved_follow_up_change_generations (refresh_pending_change_generation npath p g st) = reserved_follow_up_change_generations st"
  by (simp_all add: register_pending_mutation_def enqueue_mutation_def build_mutation_def put_mutation_def
      refresh_pending_change_generation_def case_prod_beta Let_def split: option.split)

lemma reserved_add_embed:
  "reserved_follow_up_change_generations (snd (add_file npath p ''embed'' st)) = reserved_follow_up_change_generations st"
  by (simp add: add_file_def normalize_add_priority_def case_prod_beta Let_def)

lemma reserve_reserved:
  "dict_get (reserved_follow_up_change_generations (reserve_change_follow_up npath p (Some g) st)) (npath p) \<noteq> None"
  by (simp add: reserve_change_follow_up_def Let_def split: option.split)

lemma file_end_pends:
  assumes m: "m_operation m \<in> {''change'', ''scan''}" "npath (m_path m) = m_path m"
    and or: "pends (''change'', m_path m) st \<or> dict_get (reserved_follow_up_change_generations st) (m_path m) \<noteq> None"
  shows "pends (''change'', m_path m) (process_file_end npath rpath m out st)"
proof -
  define st1 where "st1 = (case out of
      Done _ \<Rightarrow> snd (add_file npath (m_path m) ''embed''
        (st\<lparr>indexed_files := insert (rpath (m_path m)) (indexed_files st),
           recent_file_events := dict_del (m_path m) (recent_file_events st)\<rparr>))
    | _ \<Rightarrow> st)"
  define st2 where "st2 = (processing_finished st1)
      \<lparr>active_change_generations := dict_del (m_path m) (active_change_generations (processing_finished st1))\<rparr>"
  have "pends (''change'', m_path m) st1 \<or> dict_get (reserved_follow_up_change_generations st1) (m_path m) \<noteq> None"
    using or by (auto simp: st1_def reserved_add_embed split: outcome.split intro!: pends_add_file)
  then have "pends (''change'', m_path m) st2 \<or> dict_get (reserved_follow_up_change_generations st2) (m_path m) \<noteq> None"
    by (simp add: st2_def processing_finished_def)
  then have d: "pends (''change'', m_path m) (drain_reserved_follow_up_change npath (m_path m) (m_path m) st2)"
    using follow_up_pends [of npath "m_path m"] m(2)
    by (auto intro: pends_drain simp: drain_reserved_follow_up_change_def split: option.split)
  show ?thesis
    using m(1) d pends_schedule [OF d, of npath "m_operation m" m]
    by (simp add: process_file_end_def Let_def st1_def [symmetric] st2_def [symmetric] schedule_compaction_retry_def
        case_prod_beta split: outcome.split)
qed


subsection \<open>Runs on concrete inputs\<close>

text \<open>
  The steps of a run as data, so that a run is evaluated; every step is one of \<open>rt_step\<close>.  Paths
  are already normal in these runs and every file exists.
\<close>

datatype rt_event =
    EvClock rat
  | EvEvent string string
  | EvConsume
  | EvAdd string string
  | EvWake
  | EvBegin
  | EvEnd "string list outcome"
  | EvResync string
  | EvOverflowResync
  | EvResyncStart
  | EvResyncWake
  | EvResyncEnd bool

fun rt_run1 :: "realtime \<Rightarrow> rt_event \<Rightarrow> realtime" where
  "rt_run1 st (EvClock t) = st\<lparr>utc_now := utc_now st, monotonic := t, wall_time := t\<rparr>"
| "rt_run1 st (EvEvent et p) = enqueue_realtime_event id et p st"
| "rt_run1 st EvConsume = consume_event id st"
| "rt_run1 st (EvAdd p priority) = snd (add_file id p priority st)"
| "rt_run1 st EvWake =
     (case transient_tasks st of
        [] \<Rightarrow> st
      | RetryTask m # ts \<Rightarrow> retry_mutation_after_delay id m (st\<lparr>transient_tasks := ts\<rparr>)
      | DebounceTask m # ts \<Rightarrow> debounced_add_file m (st\<lparr>transient_tasks := ts\<rparr>))"
| "rt_run1 st EvBegin = (if busy st = None then process_begin id id (\<lambda>_. True) st else st)"
| "rt_run1 st (EvEnd out) = process_end id id out st"
| "rt_run1 st (EvResync reason) = request_resync reason st"
| "rt_run1 st EvOverflowResync =
     (case resync_requests st of [] \<Rightarrow> st | r # rs \<Rightarrow> request_resync r (st\<lparr>resync_requests := rs\<rparr>))"
| "rt_run1 st EvResyncStart = resync_start st"
| "rt_run1 st EvResyncWake = resync_wake True st"
| "rt_run1 st (EvResyncEnd ok) = resync_end ok st"

abbreviation rt_run :: "rt_event list \<Rightarrow> realtime \<Rightarrow> realtime" where
  "rt_run es st \<equiv> foldl rt_run1 st es"

lemma rt_run1_step: "rt_reachable id id st \<Longrightarrow> rt_reachable id id (rt_run1 st e)"
proof (cases e)
  case (EvClock t)
  have "rt_step id id st (st\<lparr>utc_now := utc_now st, monotonic := t, wall_time := t\<rparr>)" by (rule rt_step.Clock)
  then show "rt_reachable id id st \<Longrightarrow> ?thesis" using EvClock by (auto intro: rt_reachable.Step)
next
  case EvWake
  assume r: "rt_reachable id id st"
  show ?thesis
  proof (cases "transient_tasks st")
    case (Cons t ts)
    then show ?thesis
      using r rt_step.WakeRetry [of "task_mutation t" st id id] rt_step.WakeDebounce [of "task_mutation t" st id id] EvWake
      by (cases t) (auto intro: rt_reachable.Step)
  qed (simp add: r EvWake)
next
  case EvBegin
  then show "rt_reachable id id st \<Longrightarrow> ?thesis" by (auto intro: rt_reachable.Step rt_step.Begin)
next
  case EvOverflowResync
  then show "rt_reachable id id st \<Longrightarrow> ?thesis"
    by (auto intro: rt_reachable.Step rt_step.OverflowResync split: list.split)
qed (auto intro: rt_reachable.Step rt_step.intros)

lemma rt_run_reachable: "rt_reachable id id (rt_run es initial_realtime)"
proof -
  have "rt_reachable id id st \<Longrightarrow> rt_reachable id id (rt_run es st)" for st
    by (induction es arbitrary: st) (simp_all add: rt_run1_step)
  then show ?thesis by (simp add: rt_reachable.Init)
qed

text \<open>
  A modification that arrives while the file is being processed, within two seconds of the one that
  caused the processing, is dropped as a duplicate: at the end nothing is queued, no task sleeps and
  no follow-up is reserved, although the accepted generation 2 is newer than the processed one.
\<close>

definition suppressed_run :: "rt_event list" where
  "suppressed_run =
     [EvClock 10, EvEvent ''modified'' ''/r/a.py'', EvConsume, EvClock (21 / 2), EvWake, EvBegin, EvClock 11,
      EvEvent ''modified'' ''/r/a.py'', EvConsume, EvEnd (Done []), EvBegin, EvEnd (Done [])]"

lemma suppressed_change_lost:
  "let st = rt_run suppressed_run initial_realtime
   in dict_get (latest_source_generation_by_path st) ''/r/a.py'' = Some 2
      \<and> busy (rt_run (take 6 suppressed_run) initial_realtime) =
          Some (FileCall \<lparr>m_id = 1, m_operation = ''change'', m_path = ''/r/a.py'', m_first_queued_at = '''',
            m_retry_count = 0, m_source_generation = Some 1\<rparr>)
      \<and> file_queue st = [] \<and> transient_tasks st = [] \<and> event_queue st = [] \<and> busy st = None
      \<and> reserved_follow_up_change_generations st = [] \<and> suppressed_duplicate_count st = 1"
  by code_simp

text \<open>
  Events dropped by a full queue while the resync callback runs are forgotten: the callback's
  success clears the overflow although the drop came after the callback had started, and no
  further resync is requested.
\<close>

lemma drop_during_resync_forgotten:
  assumes "overflow_state st = ''reconciling''" "resync_dispatch_task st = Some (ResyncCalling (last_resync_request_monotonic st) r)"
    "EVENT_QUEUE_MAXSIZE \<le> length (event_queue st)" "resync_requests st = []"
  shows "let st' = resync_end True (enqueue_realtime_event npath et p st)
    in overflow_state st' = ''idle'' \<and> needs_resync st' = False \<and> resync_dispatch_task st' = None
       \<and> resync_requests st' = [] \<and> event_queue st' = event_queue st
       \<and> event_queue_dropped st' = event_queue_dropped st + 1"
  using assms
  by (simp add: enqueue_realtime_event_def handle_queue_result_def record_event_queue_overflow_def resync_end_def
      complete_event_queue_overflow_burst_def Let_def)

text \<open>After a failed reconciliation a further overflow requests nothing; nor does one after a
  \<open>stop\<close> in the state \<open>reconciling\<close>, whose dispatch task is gone.\<close>

lemma overflow_without_request:
  assumes "overflow_state st \<noteq> ''idle''"
  shows "resync_requests (record_event_queue_overflow st) = resync_requests st
    \<and> overflow_state (record_event_queue_overflow st) = overflow_state st"
  using assms by (simp add: record_event_queue_overflow_def)

lemma stop_keeps_overflow_state:
  "overflow_state (reset_on_stop st) = overflow_state st \<and> resync_dispatch_task (reset_on_stop st) = None
    \<and> resync_requests (reset_on_stop st) = []"
proof -
  have "overflow_state (finish_all n s) = overflow_state s" for n s
    by (induction n arbitrary: s) (simp_all add: processing_finished_def)
  then show ?thesis by (simp add: reset_on_stop_def)
qed

text \<open>Stopping leaves a state the service can start from again.\<close>

lemma stop_loop_ok:
  assumes "loop_ok st"
  shows "loop_ok (reset_on_stop st)"
proof -
  have "effect (int (in_flight (busy st))) st (finish_all (in_flight (busy st)) st)"
    using assms by (intro effect_finish_all) (simp_all add: loop_ok_def)
  then have "0 \<le> active_processing_count (finish_all (in_flight (busy st)) st)"
    using assms by (simp add: effect_def loop_ok_def)
  then show ?thesis
    by (simp add: reset_on_stop_def loop_ok_def rt_inv_def queue_ok_def pending_ok_def entries_ok_def live_mutations_def
        gens_ok_def path_count_def held_def in_flight_def active_path_def call_ok_def)
qed

text \<open>
  Two deletes that are queued together are executed as one batch, which removes the files but does
  not record them in \<open>_removed_files\<close>; a single delete is recorded.
\<close>

definition batch_delete_run :: "rt_event list" where
  "batch_delete_run =
     [EvEvent ''deleted'' ''/r/a.py'', EvConsume, EvEvent ''deleted'' ''/r/b.py'', EvConsume, EvBegin, EvEnd (Done [])]"

lemma batch_delete_not_recorded:
  "let st = rt_run batch_delete_run initial_realtime
   in removed_files st = {} \<and> failed_files st = {} \<and> pending_mutations st = [] \<and> busy st = None
      \<and> map m_path (executing_deletes (busy (rt_run (take 5 batch_delete_run) initial_realtime))) = [''/r/a.py'', ''/r/b.py'']"
  by code_simp

lemma single_delete_recorded:
  "removed_files (rt_run [EvEvent ''deleted'' ''/r/a.py'', EvConsume, EvBegin, EvEnd (Done [])] initial_realtime) = {''/r/a.py''}"
  by code_simp

text \<open>
  A change added while a scan of the same file runs is dropped when the path has no source
  generation, as after \<open>_index_directory\<close>.
\<close>

lemma untracked_change_dropped:
  "let st = rt_run [EvAdd ''/r/a.py'' ''scan'', EvBegin, EvAdd ''/r/a.py'' ''change'', EvEnd (Done []), EvBegin, EvEnd (Done [])]
              initial_realtime
   in pending_mutations st = [] \<and> file_queue st = [] \<and> transient_tasks st = []
      \<and> reserved_follow_up_change_generations st = []"
  by code_simp

subsection \<open>Witnesses\<close>

theorem realtime_invariant_witness:
  "pending_files (rt_run [EvEvent ''modified'' ''/r/a.py'', EvConsume] initial_realtime) = {''/r/a.py''}"
proof -
  let ?st = "rt_run [EvEvent ''modified'' ''/r/a.py'', EvConsume] initial_realtime"
  have "pending_files ?st = snd ` fst ` set (pending_mutations ?st)"
    using realtime_invariant [OF rt_run_reachable [of "[EvEvent ''modified'' ''/r/a.py'', EvConsume]"]] by blast
  also have "\<dots> = {''/r/a.py''}" by code_simp
  finally show ?thesis .
qed


definition two_queued :: realtime where
  "two_queued = rt_run [EvAdd ''/r/a.py'' ''scan'', EvEvent ''deleted'' ''/r/b.py'', EvConsume] initial_realtime"

theorem dequeue_priority_order_witness:
  "\<exists>m st'. get_nowait two_queued = Some (m, st') \<and> m_operation m = ''delete''
     \<and> (\<forall>e \<in> set (file_queue st'). mutation_priority ''delete'' \<le> mutation_priority (m_operation (snd (snd e))))"
proof -
  have "map_option (m_operation \<circ> fst) (get_nowait two_queued) = Some ''delete''" by code_simp
  then obtain m st' where g: "get_nowait two_queued = Some (m, st')" "m_operation m = ''delete''" by auto
  have "rt_reachable id id two_queued" unfolding two_queued_def by (rule rt_run_reachable)
  from dequeue_priority_order [OF this g(1)] show ?thesis using g by fastforce
qed

theorem stale_delete_not_executed_witness:
  "list_all (\<lambda>d. \<not> delete_mutation_is_stale id d (rt_run1 two_queued EvBegin)) (executing_deletes (busy (rt_run1 two_queued EvBegin)))
   \<and> map m_path (executing_deletes (busy (rt_run1 two_queued EvBegin))) = [''/r/b.py'']"
proof -
  have b: "busy two_queued = None" by code_simp
  have "map m_path (executing_deletes (busy (rt_run1 two_queued EvBegin))) = [''/r/b.py'']" by code_simp
  with stale_delete_not_executed [OF b, of id id "\<lambda>_. True"] b show ?thesis by simp
qed

definition processing_a :: "rt_event list" where
  "processing_a = [EvClock 10, EvEvent ''modified'' ''/r/a.py'', EvConsume, EvClock 11, EvWake, EvBegin]"


end
