(* ===== verification/Realtime_Events.thy ===== *)
theory Realtime_Events
  imports Realtime_Loop
begin

text \<open>
  The translation of file system events into events of the service: \<open>SimpleEventHandler\<close> of
  \<open>services/realtime/events.py\<close>, the admission callback of \<open>pipeline.py\<close> and
  \<open>ingest_realtime_event\<close> of \<open>services/realtime/context.py\<close>.

  The path filter (\<open>should_index\<close>), the resolution of paths (\<open>rpath\<close>) and the lookup of stored files
  are arguments.  The handler hands each event over to the loop with \<open>call_soon_threadsafe\<close>: it
  yields the list of events it queues, in order.
\<close>

record fs_event =
  fs_type :: string
  is_directory :: bool
  src_path :: string
  dest_path :: "string option"

type_synonym admission = "string \<Rightarrow> string \<Rightarrow> bool \<Rightarrow> bool"

text \<open>\<open>stored\<close>: what \<open>get_file_by_path\<close> finds; an exception of the lookup counts as not found.\<close>

definition should_admit_realtime_event :: "(string \<Rightarrow> bool) \<Rightarrow> admission" where
  "should_admit_realtime_event stored event_type file_path allowed =
     (if allowed then True else if event_type \<noteq> ''deleted'' then False else stored file_path)"

definition should_admit_event :: "admission option \<Rightarrow> admission" where
  "should_admit_event callback event_type file_path allowed =
     (case callback of None \<Rightarrow> allowed | Some admit \<Rightarrow> admit event_type file_path allowed)"

definition handle_move_event ::
  "(string \<Rightarrow> string) \<Rightarrow> (string \<Rightarrow> bool) \<Rightarrow> admission option \<Rightarrow> string \<Rightarrow> string \<Rightarrow> (string \<times> string) list" where
  "handle_move_event rpath should_index callback src dest =
     (let src_file = rpath src; dest_file = rpath dest;
          src_should_index = should_index src_file;
          dest_should_index = should_index dest_file;
          src_should_admit_delete = should_admit_event callback ''deleted'' src_file src_should_index
      in if \<not> src_should_index \<and> dest_should_index then [(''created'', dest_file)]
         else if src_should_admit_delete \<and> dest_should_index then [(''deleted'', src_file), (''created'', dest_file)]
         else if src_should_admit_delete \<and> \<not> dest_should_index then [(''deleted'', src_file)]
         else [])"

definition on_any_event ::
  "(string \<Rightarrow> string) \<Rightarrow> (string \<Rightarrow> bool) \<Rightarrow> admission option \<Rightarrow> fs_event \<Rightarrow> (string \<times> string) list" where
  "on_any_event rpath should_index callback e =
     (if fs_type e = ''created'' \<and> is_directory e then [(''dir_created'', rpath (src_path e))]
      else if fs_type e = ''deleted'' \<and> is_directory e then [(''dir_deleted'', rpath (src_path e))]
      else if is_directory e then []
      else if fs_type e = ''moved'' \<and> dest_path e \<noteq> None
      then handle_move_event rpath should_index callback (src_path e) (the (dest_path e))
      else
        (let file_path = rpath (src_path e)
         in if \<not> should_admit_event callback (fs_type e) file_path (should_index file_path) then []
            else [(fs_type e, file_path)]))"

text \<open>The callbacks of the handler on the service: every queued event is put into the event queue.\<close>

fun deliver_events :: "(string \<Rightarrow> string) \<Rightarrow> (string \<times> string) list \<Rightarrow> realtime \<Rightarrow> realtime" where
  "deliver_events npath [] st = st"
| "deliver_events npath ((event_type, p) # es) st = deliver_events npath es (enqueue_realtime_event npath event_type p st)"

definition ingest_realtime_event ::
  "(string \<Rightarrow> string) \<Rightarrow> (string \<Rightarrow> bool) \<Rightarrow> string \<Rightarrow> string \<Rightarrow> bool \<Rightarrow> realtime \<Rightarrow> bool \<times> realtime" where
  "ingest_realtime_event npath stored event_type file_path allowed st =
     (if \<not> should_admit_realtime_event stored event_type file_path allowed then (False, st)
      else (True, enqueue_realtime_event npath event_type file_path st))"

text \<open>
  with the service's admission callback, a move of a file queues a creation of the destination
  exactly when the destination is to be indexed, queues a deletion of an indexable source, and the
  deletion comes before the creation; an event of a path that is neither indexable nor a deletion of
  a stored file is not queued.
\<close>

theorem file_events_translated:
  assumes "\<not> is_directory e"
  shows "let q = on_any_event rpath should_index (Some (should_admit_realtime_event stored)) e in
    (if fs_type e = ''moved'' \<and> dest_path e \<noteq> None
      then (let s = rpath (src_path e); d = rpath (the (dest_path e)) in
         ((''created'', d) \<in> set q \<longleftrightarrow> should_index d)
         \<and> (should_index s \<longrightarrow> (''deleted'', s) \<in> set q)
         \<and> (should_index s \<and> should_index d \<longrightarrow> q = [(''deleted'', s), (''created'', d)])
         \<and> (\<forall>x \<in> set q. x = (''created'', d) \<or> x = (''deleted'', s) \<and> (should_index s \<or> stored s)))
      else q = (if should_index (rpath (src_path e)) \<or> fs_type e = ''deleted'' \<and> stored (rpath (src_path e))
                then [(fs_type e, rpath (src_path e))] else []))"
  using assms
  by (auto simp: on_any_event_def handle_move_event_def should_admit_event_def should_admit_realtime_event_def Let_def)

definition rename_event :: fs_event where
  "rename_event = \<lparr>fs_type = ''moved'', is_directory = False, src_path = ''/r/a.py'', dest_path = Some ''/r/b.py''\<rparr>"

theorem file_events_translated_witness:
  "on_any_event id (\<lambda>_. True) (Some (should_admit_realtime_event (\<lambda>_. True))) rename_event
     = [(''deleted'', ''/r/a.py''), (''created'', ''/r/b.py'')]"
  using file_events_translated [of rename_event id "\<lambda>_. True" "\<lambda>_. True"] by (simp add: rename_event_def Let_def)

text \<open>
  A stored file that is no longer indexable and moves to an indexable name is treated as an atomic
  write: its deletion is not queued although the admission callback asks for it, so its rows stay.
\<close>

lemma move_from_excluded_keeps_rows:
  assumes "\<not> should_index (rpath src)" "should_index (rpath dest)" "stored (rpath src)"
  shows "should_admit_event (Some (should_admit_realtime_event stored)) ''deleted'' (rpath src) (should_index (rpath src))
    \<and> handle_move_event rpath should_index (Some (should_admit_realtime_event stored)) src dest = [(''created'', rpath dest)]"
  using assms by (simp add: handle_move_event_def should_admit_event_def should_admit_realtime_event_def)

text \<open>Delivered events are steps of the service.\<close>

lemma deliver_events_reachable: "rt_reachable npath rpath st \<Longrightarrow> rt_reachable npath rpath (deliver_events npath es st)"
  by (induction npath es st rule: deliver_events.induct) (auto intro: rt_reachable.Step rt_step.Event)

end
