(* ===== verification/Git_Diff.thy ===== *)
theory Git_Diff
  imports Chunk_Model Py_Regex
begin

text \<open>
  Parsing of \<open>git diff\<close> output into chunks (\<open>core/git_diff/parser.py\<close>) and the guarded call of git
  (\<open>core/git_diff/runner.py\<close>).

  The parser is a fold over the lines of the diff; its local variables are the record
  \<open>diff_state\<close>.  The regular expression of hunk headers is deterministic (a digit run is always
  followed by another character), so it is the function \<open>hunk_header\<close>.  git is an argument of the
  runner: what the process returns for a revision range, or a timeout.
\<close>

subsection \<open>Lines\<close>

text \<open>\<open>str.splitlines(keepends=True)\<close>.\<close>

definition line_break :: "char \<Rightarrow> bool" where
  "line_break c \<longleftrightarrow> (let n = (of_char c :: nat) in (10 \<le> n \<and> n \<le> 13) \<or> (28 \<le> n \<and> n \<le> 30) \<or> n = 133)"

fun splitlines_from :: "string \<Rightarrow> string \<Rightarrow> string list" where
  "splitlines_from acc [] = (if acc = [] then [] else [acc])"
| "splitlines_from acc (c # s) =
     (if c = cr \<and> s \<noteq> [] \<and> hd s = nl then (acc @ [c, nl]) # splitlines_from [] (tl s)
      else if line_break c then (acc @ [c]) # splitlines_from [] s
      else splitlines_from (acc @ [c]) s)"

definition splitlines_keepends :: "string \<Rightarrow> string list" where
  "splitlines_keepends s = splitlines_from [] s"

definition rstrip_char :: "char \<Rightarrow> string \<Rightarrow> string" where
  "rstrip_char c s = rev (dropWhile (\<lambda>x. x = c) (rev s))"

subsection \<open>Hunk headers\<close>

text \<open>\<open>(?:,(\d+))?\<close>: the group is \<open>None\<close> when the option is not taken.\<close>

definition match_count :: "string \<Rightarrow> string option \<times> string" where
  "match_count s =
     (case match_lit '','' s of
        None \<Rightarrow> (None, s)
      | Some t \<Rightarrow> (case match_digits t of None \<Rightarrow> (None, s) | Some (d, u) \<Rightarrow> (Some d, u)))"

text \<open>The new start, the new count if present, and the text after the second \<open>@@\<close>.\<close>

definition hunk_header :: "string \<Rightarrow> (int \<times> int option \<times> string) option" where
  "hunk_header s =
     Option.bind (match_lit ''@@ -'' s) (\<lambda>s1.
     Option.bind (match_digits s1) (\<lambda>(_, s2).
     Option.bind (match_lit '' +'' (snd (match_count s2))) (\<lambda>s3.
     Option.bind (match_digits s3) (\<lambda>(d, s4).
       let (n, s5) = match_count s4
       in Option.bind (match_lit '' @@'' s5) (\<lambda>rest. Some (digits_int d, map_option digits_int n, rest))))))"

subsection \<open>Chunks of a hunk\<close>

record diff_state =
  d_current_file :: "string option"
  d_hunk_start :: int
  d_hunk_end :: int
  d_hunk_lines :: "string list"
  d_symbol :: string
  d_in_hunk :: bool
  d_chunks :: "chunk list"

definition git_diff_chunk :: "string \<Rightarrow> string \<Rightarrow> int \<Rightarrow> int \<Rightarrow> string \<Rightarrow> chunk result" where
  "git_diff_chunk symbol current_file start_line end_line code =
     mk_chunk \<lparr>c_symbol = Some symbol, c_start_line = start_line, c_end_line = end_line, c_code = code,
       c_chunk_type = CT_BLOCK, c_file_id = 0, c_language = L_GIT_DIFF, c_id = None, c_file_path = Some current_file,
       c_parent_header = None, c_start_byte = None, c_end_byte = None, c_created_at = None, c_updated_at = None,
       c_metadata = None\<rparr>"

text \<open>\<open>[s[i:i + n] for i in range(0, len(s), n)]\<close>; a step of zero raises.\<close>

fun char_slices :: "nat \<Rightarrow> string \<Rightarrow> string list" where
  "char_slices n s = (if s = [] \<or> n = 0 then [] else take n s # char_slices n (drop n s))"

declare char_slices.simps [simp del]

definition line_slices :: "int \<Rightarrow> string \<Rightarrow> string list result" where
  "line_slices n s = (if n = 0 then Inl ValueError else if n < 0 then Inr [] else Inr (char_slices (nat n) s))"

definition advances :: "string \<Rightarrow> bool" where
  "advances lin \<longleftrightarrow> lin \<noteq> [] \<and> hd lin \<in> {CHR ''+'', CHR '' ''}"

definition flush_part :: "string list \<Rightarrow> int \<Rightarrow> (string \<times> int) list" where
  "flush_part current_part offset = (if current_part = [] then [] else [(concat current_part, offset)])"

text \<open>
  The loop over the lines of a large hunk: the parts with the offsets of their first lines, and the
  number of new-file lines consumed at the end.
\<close>

fun part_loop :: "int \<Rightarrow> string list \<Rightarrow> int \<Rightarrow> int \<Rightarrow> string list \<Rightarrow> int \<Rightarrow> ((string \<times> int) list \<times> int) result" where
  "part_loop mx [] running offset current_part current_len = Inr (flush_part current_part offset, running)"
| "part_loop mx (lin # lins) running offset current_part current_len =
     (let running' = (if advances lin then running + 1 else running)
      in if int (length lin) > mx
         then bind_result (line_slices mx lin) (\<lambda>pieces.
              bind_result
                (part_loop mx lins running' (if current_part \<noteq> [] then running else offset) []
                   (if current_part \<noteq> [] then 0 else current_len))
                (\<lambda>(parts, consumed).
                  Inr (flush_part current_part offset @ map (\<lambda>p. (p, running)) pieces @ parts, consumed)))
         else if current_len + int (length lin) > mx \<and> current_part \<noteq> [] \<and> running > offset
         then bind_result (part_loop mx lins running' running [lin] (int (length lin)))
                (\<lambda>(parts, consumed). Inr ((concat current_part, offset) # parts, consumed))
         else part_loop mx lins running' offset (current_part @ [lin]) (current_len + int (length lin)))"

definition part_ends :: "(string \<times> int) list \<Rightarrow> int \<Rightarrow> int list" where
  "part_ends parts consumed = map snd (tl parts) @ [consumed]"

definition part_symbol :: "string \<Rightarrow> nat \<Rightarrow> nat \<Rightarrow> string" where
  "part_symbol symbol parts n = (if parts > 1 then symbol @ '' (part '' @ str_nat n @ '')'' else symbol)"

text \<open>
  The chunks of the parts, numbered from \<open>n\<close>; the first exception ends the loop and is caught, the
  chunks before it stay.
\<close>

fun part_chunks ::
  "string \<Rightarrow> string \<Rightarrow> int \<Rightarrow> int \<Rightarrow> nat \<Rightarrow> nat \<Rightarrow> ((string \<times> int) \<times> int) list \<Rightarrow> chunk list" where
  "part_chunks symbol current_file hunk_start hunk_end k n [] = []"
| "part_chunks symbol current_file hunk_start hunk_end k n (((part, line_start), line_end) # ps) =
     (let part_start = max 1 (hunk_start + line_start);
          raw_end = hunk_start + line_end - 1;
          part_end = min hunk_end (max part_start raw_end)
      in case git_diff_chunk (part_symbol symbol k n) current_file part_start part_end part of
           Inl e \<Rightarrow> []
         | Inr c \<Rightarrow> c # part_chunks symbol current_file hunk_start hunk_end k (Suc n) ps)"

definition hunk_chunks :: "int \<Rightarrow> string \<Rightarrow> string \<Rightarrow> int \<Rightarrow> int \<Rightarrow> string list \<Rightarrow> chunk list" where
  "hunk_chunks mx symbol current_file hunk_start hunk_end hunk_lines =
     (let code = concat hunk_lines
      in if int (length code) \<le> mx
         then (case git_diff_chunk symbol current_file (max 1 hunk_start) (max hunk_start hunk_end) code of
                 Inl e \<Rightarrow> [] | Inr c \<Rightarrow> [c])
         else (case part_loop mx hunk_lines 0 0 [] 0 of
                 Inl e \<Rightarrow> []
               | Inr (parts, consumed) \<Rightarrow>
                   part_chunks symbol current_file hunk_start hunk_end (length parts) 1 (zip parts (part_ends parts consumed))))"

definition flush_hunk :: "int \<Rightarrow> diff_state \<Rightarrow> diff_state" where
  "flush_hunk mx st =
     (case d_current_file st of
        Some current_file \<Rightarrow>
          if d_in_hunk st
          then st\<lparr>d_in_hunk := False,
                  d_chunks := d_chunks st
                    @ hunk_chunks mx (d_symbol st) current_file (d_hunk_start st) (d_hunk_end st) (d_hunk_lines st)\<rparr>
          else st\<lparr>d_in_hunk := False\<rparr>
      | None \<Rightarrow> st\<lparr>d_in_hunk := False\<rparr>)"

subsection \<open>The parser\<close>

definition header_file :: "string \<Rightarrow> string option" where
  "header_file raw_path =
     (if raw_path = ''/dev/null'' then None
      else if starts_with raw_path ''b/'' then Some (drop 2 raw_path)
      else Some raw_path)"

definition hunk_symbol :: "string option \<Rightarrow> int \<Rightarrow> string \<Rightarrow> string" where
  "hunk_symbol current_file new_start context_text =
     (if context_text \<noteq> [] then context_text
      else case current_file of
             Some f \<Rightarrow> path_name f @ '':'' @ str_int new_start
           | None \<Rightarrow> '':'' @ str_int new_start)"

definition start_hunk :: "string \<Rightarrow> int \<times> int option \<times> string \<Rightarrow> diff_state \<Rightarrow> diff_state" where
  "start_hunk line h st =
     (let (new_start, count, context) = h;
          new_count = (case count of None \<Rightarrow> 1 | Some n \<Rightarrow> n);
          context_text = py_strip context
      in if new_count = 0 then st\<lparr>d_in_hunk := False, d_hunk_lines := []\<rparr>
         else st\<lparr>d_hunk_start := new_start, d_hunk_end := new_start + new_count - 1,
                 d_symbol := hunk_symbol (d_current_file st) new_start context_text,
                 d_hunk_lines := [line], d_in_hunk := True\<rparr>)"

definition diff_line :: "int \<Rightarrow> diff_state \<Rightarrow> string \<Rightarrow> diff_state" where
  "diff_line mx st line =
     (let stripped = rstrip_char cr (rstrip_char nl line)
      in if starts_with stripped ''diff --git ''
         then (flush_hunk mx st)\<lparr>d_current_file := None, d_hunk_lines := []\<rparr>
         else if starts_with stripped ''+++ '' then st\<lparr>d_current_file := header_file (drop 4 stripped)\<rparr>
         else case hunk_header stripped of
                Some h \<Rightarrow> start_hunk line h (flush_hunk mx st)
              | None \<Rightarrow> if d_in_hunk st then st\<lparr>d_hunk_lines := d_hunk_lines st @ [line]\<rparr> else st)"

definition initial_diff_state :: diff_state where
  "initial_diff_state =
     \<lparr>d_current_file = None, d_hunk_start = 0, d_hunk_end = 0, d_hunk_lines = [], d_symbol = [], d_in_hunk = False,
      d_chunks = []\<rparr>"

definition parse_diff_to_chunks :: "string \<Rightarrow> int \<Rightarrow> chunk list" where
  "parse_diff_to_chunks raw_diff max_chunk_chars =
     d_chunks (flush_hunk max_chunk_chars
       (foldl (diff_line max_chunk_chars) initial_diff_state (splitlines_keepends raw_diff)))"

subsection \<open>Calling git\<close>

text \<open>What the process \<open>git diff <range> --\<close> does: it times out, or exits with a status and decoded streams.\<close>

datatype git_outcome = Git_Timeout | Git_Exit int string string

datatype git_error = Unsafe_Ref string | Diff_Timeout string | Diff_Failed string

definition ascii_alnum :: "char \<Rightarrow> bool" where
  "ascii_alnum c \<longleftrightarrow> (let n = (of_char c :: nat) in is_digit c \<or> (65 \<le> n \<and> n \<le> 90) \<or> (97 \<le> n \<and> n \<le> 122))"

definition hex_char :: "char \<Rightarrow> bool" where
  "hex_char c \<longleftrightarrow> (let n = (of_char c :: nat) in is_digit c \<or> (65 \<le> n \<and> n \<le> 70) \<or> (97 \<le> n \<and> n \<le> 102))"

definition safe_ref_char :: "char \<Rightarrow> bool" where
  "safe_ref_char c \<longleftrightarrow> ascii_alnum c \<or> c \<in> set ''_.^~/:{}@-''"

definition safe_ref :: "string \<Rightarrow> bool" where
  "safe_ref commit_range \<longleftrightarrow>
     commit_range \<noteq> [] \<and> list_all safe_ref_char commit_range \<and> \<not> str_contains commit_range ''../''
     \<and> \<not> starts_with commit_range ''..'' \<and> \<not> starts_with commit_range ''-''"

definition EMPTY_TREE_SHA :: string where
  "EMPTY_TREE_SHA = ''4b825dc642cb6eb9a060e54bf8d69288fbee4904''"

definition hex_hash :: "string \<Rightarrow> bool" where
  "hex_hash s \<longleftrightarrow> 4 \<le> length s \<and> length s \<le> 64 \<and> list_all hex_char s"

text \<open>
  The range \<open><hash>^..<hash>\<close> with two equal hashes; a hash has no \<open>^\<close>, so the first group ends at the
  first one.
\<close>

definition single_commit :: "string \<Rightarrow> string option" where
  "single_commit commit_range =
     (let h = takeWhile (\<lambda>c. c \<noteq> CHR ''^'') commit_range
      in if hex_hash h \<and> commit_range = h @ ''^..'' @ h then Some h else None)"

definition run_git_diff :: "(string \<Rightarrow> git_outcome) \<Rightarrow> string \<Rightarrow> git_error + string" where
  "run_git_diff git commit_range =
     (if \<not> safe_ref commit_range then Inl (Unsafe_Ref commit_range)
      else case git commit_range of
             Git_Timeout \<Rightarrow> Inl (Diff_Timeout commit_range)
           | Git_Exit code stdout stderr \<Rightarrow>
               if code = 0 then Inr stdout
               else let err = py_strip stderr
                    in case (if str_contains err ''unknown revision'' then single_commit commit_range else None) of
                         None \<Rightarrow> Inl (Diff_Failed err)
                       | Some h \<Rightarrow>
                           let root_range = EMPTY_TREE_SHA @ ''..'' @ h
                           in case git root_range of
                                Git_Timeout \<Rightarrow> Inl (Diff_Timeout root_range)
                              | Git_Exit code2 stdout2 stderr2 \<Rightarrow>
                                  if code2 = 0 then Inr stdout2 else Inl (Diff_Failed (py_strip stderr2)))"

text \<open>\<open>_resolve_commit_range\<close> of the search tool.\<close>

definition resolve_commit_range :: "string option \<Rightarrow> string option \<Rightarrow> int option \<Rightarrow> string option result" where
  "resolve_commit_range commit_range commit_hash last_n_commits =
     (if length (filter (\<lambda>b. b) [commit_range \<noteq> None, commit_hash \<noteq> None, last_n_commits \<noteq> None]) > 1
      then Inl ValueError
      else case commit_hash of
             Some h \<Rightarrow> if py_strip h = [] then Inl ValueError else Inr (Some (h @ ''^..'' @ h))
           | None \<Rightarrow>
               (case last_n_commits of
                  Some n \<Rightarrow> if n \<le> 0 then Inl ValueError else Inr (Some (''HEAD~'' @ str_int n @ ''..HEAD''))
                | None \<Rightarrow> Inr commit_range))"

subsection \<open>A hunk and its parts\<close>

lemma concat_flush_part [simp]: "concat (map fst (flush_part cp o')) = concat cp"
  by (simp add: flush_part_def)

lemma concat_char_slices: "n > 0 \<Longrightarrow> concat (char_slices n s) = s"
  by (induction n s rule: char_slices.induct) (subst char_slices.simps, auto)

lemma char_slices_nonempty: "[] \<notin> set (char_slices n s)"
  by (induction n s rule: char_slices.induct) (subst char_slices.simps, auto)

lemma line_slices_pos: "mx > 0 \<Longrightarrow> line_slices mx s = Inr (char_slices (nat mx) s)"
  by (simp add: line_slices_def)

definition new_lines :: "string list \<Rightarrow> int" where
  "new_lines lins = int (length (filter advances lins))"

lemma new_lines_simps [simp]:
  "new_lines [] = 0"
  "new_lines (l # ls) = (if advances l then 1 else 0) + new_lines ls"
  by (simp_all add: new_lines_def)

lemma new_lines_nonneg [simp]: "0 \<le> new_lines ls"
  by (simp add: new_lines_def)

text \<open>
  The offsets a pending part may have: not after the counter, and before it when the hunk is over.
\<close>

definition part_pending :: "int \<Rightarrow> int \<Rightarrow> string list \<Rightarrow> string list \<Rightarrow> bool" where
  "part_pending r o' cp lins \<longleftrightarrow>
     (if lins = [] then (cp \<noteq> [] \<longrightarrow> o' < r) else advances (last lins)) \<and> o' \<le> r \<and> [] \<notin> set lins \<and> [] \<notin> set cp"

definition parts_ok :: "int \<Rightarrow> int \<Rightarrow> (string \<times> int) list \<Rightarrow> bool" where
  "parts_ok lo hi ps \<longleftrightarrow> (\<forall>(p, k)\<in>set ps. lo \<le> k \<and> k < hi \<and> p \<noteq> [])"

lemma parts_ok_simps [simp]:
  "parts_ok lo hi []"
  "parts_ok lo hi ((p, k) # ps) \<longleftrightarrow> lo \<le> k \<and> k < hi \<and> p \<noteq> [] \<and> parts_ok lo hi ps"
  "parts_ok lo hi (ps @ qs) \<longleftrightarrow> parts_ok lo hi ps \<and> parts_ok lo hi qs"
  by (auto simp: parts_ok_def)

lemma parts_ok_mono: "parts_ok lo hi ps \<Longrightarrow> lo' \<le> lo \<Longrightarrow> parts_ok lo' hi ps"
  by (fastforce simp: parts_ok_def)

lemma parts_ok_flush: "(cp \<noteq> [] \<Longrightarrow> lo \<le> o' \<and> o' < hi \<and> [] \<notin> set cp) \<Longrightarrow> parts_ok lo hi (flush_part cp o')"
  by (cases cp) (auto simp: flush_part_def)

lemma parts_ok_pieces: "lo \<le> k \<Longrightarrow> k < hi \<Longrightarrow> parts_ok lo hi (map (\<lambda>p. (p, k)) (char_slices n s))"
  using char_slices_nonempty [of n s] by (force simp: parts_ok_def)

text \<open>A pending part can always close: the counter passes its offset before the hunk is over.\<close>

lemma part_pending_less:
  "part_pending r o' cp lins \<Longrightarrow> cp \<noteq> [] \<Longrightarrow> o' < r + new_lines lins"
  "part_pending r o' cp (l # lins) \<Longrightarrow> r < r + new_lines (l # lins)"
proof -
  have *: "advances (last ls) \<Longrightarrow> ls \<noteq> [] \<Longrightarrow> 0 < new_lines ls" for ls
    unfolding new_lines_def using last_in_set [of ls] by (auto simp: filter_empty_conv)
  show "part_pending r o' cp lins \<Longrightarrow> cp \<noteq> [] \<Longrightarrow> o' < r + new_lines lins"
    using * [of lins] by (fastforce simp: part_pending_def split: if_splits)
  show "part_pending r o' cp (l # lins) \<Longrightarrow> r < r + new_lines (l # lins)"
    using * [of "l # lins"] by (simp add: part_pending_def)
qed

lemma part_pending_step:
  "part_pending r o' cp (l # lins) \<Longrightarrow> r' = (if advances l then r + 1 else r) \<Longrightarrow>
   o'' \<le> r \<Longrightarrow> [] \<notin> set cp' \<Longrightarrow> part_pending r' o'' cp' lins"
  by (auto simp: part_pending_def split: if_splits)

text \<open>The three branches of the loop.\<close>

lemma part_loop_split:
  "\<not> int (length l) > mx \<Longrightarrow> cl + int (length l) > mx \<and> cp \<noteq> [] \<and> r > o' \<Longrightarrow>
   part_loop mx (l # lins) r o' cp cl =
     bind_result (part_loop mx lins (if advances l then r + 1 else r) r [l] (int (length l)))
       (\<lambda>(parts, consumed). Inr ((concat cp, o') # parts, consumed))"
  by (simp only: part_loop.simps Let_def if_False if_True simp_thms)

lemma part_loop_join:
  "\<not> int (length l) > mx \<Longrightarrow> \<not> (cl + int (length l) > mx \<and> cp \<noteq> [] \<and> r > o') \<Longrightarrow>
   part_loop mx (l # lins) r o' cp cl =
     part_loop mx lins (if advances l then r + 1 else r) o' (cp @ [l]) (cl + int (length l))"
  by (simp only: part_loop.simps Let_def if_False if_True simp_thms)

lemma part_loop_result:
  assumes "mx > 0"
  shows "\<exists>parts. part_loop mx lins r o' cp cl = Inr (parts, r + new_lines lins)
           \<and> concat (map fst parts) = concat cp @ concat lins
           \<and> (part_pending r o' cp lins \<longrightarrow> parts_ok o' (r + new_lines lins) parts)"
  using assms
proof (induction mx lins r o' cp cl rule: part_loop.induct)
  case (1 mx r o' cp cl)
  then show ?case by (auto simp: part_pending_def intro!: parts_ok_flush)
next
  case (2 mx l lins r o' cp cl)
  let ?r = "if advances l then r + 1 else r"
  have all: "?r + new_lines lins = r + new_lines (l # lins)" by simp
  show ?case
  proof (cases "int (length l) > mx")
    case big: True
    have IH: "\<exists>parts. part_loop mx lins ?r (if cp \<noteq> [] then r else o') [] (if cp \<noteq> [] then 0 else cl)
                = Inr (parts, ?r + new_lines lins)
        \<and> concat (map fst parts) = concat [] @ concat lins
        \<and> (part_pending ?r (if cp \<noteq> [] then r else o') [] lins
             \<longrightarrow> parts_ok (if cp \<noteq> [] then r else o') (?r + new_lines lins) parts)"
      by (rule 2(1)) (use big 2 in \<open>auto simp: line_slices_pos\<close>)
    then obtain parts where p: "part_loop mx lins ?r (if cp \<noteq> [] then r else o') [] (if cp \<noteq> [] then 0 else cl)
        = Inr (parts, ?r + new_lines lins)" "concat (map fst parts) = concat lins"
      and ok: "part_pending ?r (if cp \<noteq> [] then r else o') [] lins
        \<longrightarrow> parts_ok (if cp \<noteq> [] then r else o') (?r + new_lines lins) parts" by auto
    have "parts_ok o' (?r + new_lines lins) (flush_part cp o' @ map (\<lambda>p. (p, r)) (char_slices (nat mx) l) @ parts)"
      if pend: "part_pending r o' cp (l # lins)"
    proof -
      from pend have le: "o' \<le> r" "[] \<notin> set cp" by (simp_all add: part_pending_def)
      have "part_pending ?r (if cp \<noteq> [] then r else o') [] lins"
        by (rule part_pending_step [OF pend refl]) (use le in auto)
      with ok le have "parts_ok o' (?r + new_lines lins) parts" by (auto intro: parts_ok_mono split: if_splits)
      then show ?thesis
        using le part_pending_less [OF pend] unfolding all
        by (auto simp del: new_lines_simps intro!: parts_ok_flush parts_ok_pieces)
    qed
    with big p 2(4) show ?thesis unfolding all
      by (cases "advances l") (simp_all del: new_lines_simps add: line_slices_pos comp_def concat_char_slices)
  next
    case False
    note small = this
    show ?thesis
    proof (cases "cl + int (length l) > mx \<and> cp \<noteq> [] \<and> r > o'")
      case split: True
      obtain parts where p: "part_loop mx lins ?r r [l] (int (length l)) = Inr (parts, ?r + new_lines lins)"
          "concat (map fst parts) = concat [l] @ concat lins"
        and ok: "part_pending ?r r [l] lins \<longrightarrow> parts_ok r (?r + new_lines lins) parts"
        using 2(2) [OF refl small split 2(4)] by blast
      have "parts_ok o' (?r + new_lines lins) ((concat cp, o') # parts)" if pend: "part_pending r o' cp (l # lins)"
      proof -
        have le: "o' \<le> r" "[] \<notin> set cp" "l \<noteq> []" using pend by (auto simp: part_pending_def)
        have "part_pending ?r r [l] lins" by (rule part_pending_step [OF pend refl]) (use le in auto)
        with ok le have "parts_ok o' (?r + new_lines lins) parts" by (auto intro: parts_ok_mono)
        moreover have "concat cp \<noteq> []" using split le by (cases cp) auto
        ultimately show ?thesis
          using le part_pending_less(1) [OF pend] split unfolding all by (simp del: new_lines_simps)
      qed
      then show ?thesis unfolding all by (simp add: part_loop_split [OF small split] p all del: new_lines_simps part_loop.simps)
    next
      case join: False
      obtain parts where p: "part_loop mx lins ?r o' (cp @ [l]) (cl + int (length l)) = Inr (parts, ?r + new_lines lins)"
          "concat (map fst parts) = concat (cp @ [l]) @ concat lins"
        and ok: "part_pending ?r o' (cp @ [l]) lins \<longrightarrow> parts_ok o' (?r + new_lines lins) parts"
        using 2(3) [OF refl small join 2(4)] by blast
      have "part_pending ?r o' (cp @ [l]) lins" if pend: "part_pending r o' cp (l # lins)"
        by (rule part_pending_step [OF pend refl]) (use pend in \<open>auto simp: part_pending_def\<close>)
      with ok show ?thesis unfolding all by (simp add: part_loop_join [OF small join] p all del: new_lines_simps part_loop.simps)
    qed
  qed
qed

text \<open>When every line fits, the parts are groups of whole lines and their offsets are exact.\<close>

fun offsets :: "int \<Rightarrow> string list list \<Rightarrow> int list" where
  "offsets k [] = []"
| "offsets k (g # gs) = k # offsets (k + new_lines g) gs"

lemma length_offsets [simp]: "length (offsets k gs) = length gs"
  by (induction gs arbitrary: k) auto

lemma new_lines_append [simp]: "new_lines (xs @ ys) = new_lines xs + new_lines ys"
  by (simp add: new_lines_def)

lemma part_loop_groups:
  assumes "\<forall>l\<in>set lins. int (length l) \<le> mx"
    and "r = k + new_lines cp"
  shows "\<exists>gs. part_loop mx lins r k cp cl = Inr (zip (map concat gs) (offsets k gs), r + new_lines lins)
           \<and> concat gs = cp @ lins"
  using assms
proof (induction mx lins r k cp cl rule: part_loop.induct)
  case (1 mx r k cp cl)
  then show ?case by (cases cp) (auto simp: flush_part_def intro: exI [of _ "[cp]"])
next
  case (2 mx l lins r k cp cl)
  let ?r = "if advances l then r + 1 else r"
  have small: "\<not> int (length l) > mx" using 2(4) by auto
  have all: "?r + new_lines lins = r + new_lines (l # lins)" by simp
  show ?case
  proof (cases "cl + int (length l) > mx \<and> cp \<noteq> [] \<and> r > k")
    case split: True
    have "\<exists>gs. part_loop mx lins ?r r [l] (int (length l))
          = Inr (zip (map concat gs) (offsets r gs), ?r + new_lines lins) \<and> concat gs = [l] @ lins"
      by (rule 2(2) [OF refl small split]) (use 2(4) in auto)
    then obtain gs where "part_loop mx lins ?r r [l] (int (length l))
          = Inr (zip (map concat gs) (offsets r gs), ?r + new_lines lins)" "concat gs = [l] @ lins" by blast
    then show ?thesis using 2(5) [symmetric] unfolding all
      by (intro exI [of _ "cp # gs"])
        (simp add: part_loop_split [OF small split] del: part_loop.simps new_lines_simps)
  next
    case join: False
    have "\<exists>gs. part_loop mx lins ?r k (cp @ [l]) (cl + int (length l))
          = Inr (zip (map concat gs) (offsets k gs), ?r + new_lines lins) \<and> concat gs = (cp @ [l]) @ lins"
      by (rule 2(3) [OF refl small join]) (use 2(4,5) in auto)
    then show ?thesis unfolding all part_loop_join [OF small join] by simp
  qed
qed

lemma part_ends_groups:
  "gs \<noteq> [] \<Longrightarrow> part_ends (zip (map concat gs) (offsets k gs)) (k + new_lines (concat gs))
     = map2 (\<lambda>o' g. o' + new_lines g) (offsets k gs) gs"
proof (induction gs arbitrary: k)
  case (Cons g gs)
  show ?case
  proof (cases gs)
    case (Cons h hs)
    with Cons.IH [of "k + new_lines g"] show ?thesis by (simp add: part_ends_def add.assoc)
  qed (simp add: part_ends_def)
qed simp

text \<open>A chunk of the file \<open>f\<close> with the given lines and text.\<close>

definition diff_chunk_of :: "string \<Rightarrow> int \<Rightarrow> int \<Rightarrow> string \<Rightarrow> chunk \<Rightarrow> bool" where
  "diff_chunk_of f s e code c \<longleftrightarrow>
     c_file_path c = Some f \<and> c_start_line c = s \<and> c_end_line c = e \<and> c_code c = code \<and>
     c_language c = L_GIT_DIFF \<and> c_chunk_type c = CT_BLOCK \<and> chunk_ok c"

lemma git_diff_chunk_result:
  assumes "1 \<le> s" "s \<le> e" "code \<noteq> []"
  obtains c where "git_diff_chunk symbol f s e code = Inr c" and "diff_chunk_of f s e code c"
proof -
  let ?c = "\<lparr>c_symbol = if py_strip symbol = [] then None else Some symbol, c_start_line = s, c_end_line = e,
     c_code = code, c_chunk_type = CT_BLOCK, c_file_id = 0, c_language = L_GIT_DIFF, c_id = None, c_file_path = Some f,
     c_parent_header = None, c_start_byte = None, c_end_byte = None, c_created_at = None, c_updated_at = None,
     c_metadata = None\<rparr>"
  have c: "git_diff_chunk symbol f s e code = Inr ?c"
    using assms by (simp add: git_diff_chunk_def mk_chunk_def Let_def opt_neg_def opt_gt_def)
  then have "chunk_ok ?c" unfolding git_diff_chunk_def by (rule mk_chunk_ok)
  with c show thesis by (intro that [of ?c]) (auto simp: diff_chunk_of_def)
qed

lemma part_chunks_result:
  assumes "parts_ok 0 cnt parts" "1 \<le> hs" "he = hs + cnt - 1" "length ends = length parts"
  shows "list_all2 (\<lambda>((p, k), e) c. diff_chunk_of f (hs + k) (min he (max (hs + k) (hs + e - 1))) p c)
           (zip parts ends) (part_chunks symbol f hs he m n (zip parts ends))"
  using assms(1,4)
proof (induction parts arbitrary: ends n)
  case (Cons x parts)
  obtain p k where x: "x = (p, k)" by force
  obtain e ends' where e: "ends = e # ends'" using Cons.prems by (cases ends) auto
  have range: "1 \<le> hs + k" "hs + k \<le> min he (max (hs + k) (hs + e - 1))" "p \<noteq> []" and start: "max 1 (hs + k) = hs + k"
    using Cons.prems assms(2,3) by (auto simp: x)
  obtain c where c: "git_diff_chunk (part_symbol symbol m n) f (hs + k) (min he (max (hs + k) (hs + e - 1))) p = Inr c"
    "diff_chunk_of f (hs + k) (min he (max (hs + k) (hs + e - 1))) p c"
    using git_diff_chunk_result [OF range] .
  show ?case using Cons.IH [of ends' "Suc n"] Cons.prems c start by (simp add: x e Let_def)
qed simp

lemma list_all2_codes:
  "list_all2 (\<lambda>((p, k), e) c. diff_chunk_of f (s k e) (t k e) p c) (zip ps es) cs \<Longrightarrow> length ps = length es \<Longrightarrow>
   map c_code cs = map fst ps"
  by (induction ps es arbitrary: cs rule: list_induct2')
    (auto simp: list_all2_Cons1 diff_chunk_of_def split: prod.splits)

lemma list_all2_bounds:
  assumes "list_all2 (\<lambda>((p, k), e) c. diff_chunk_of f (hs + k) (min he (max (hs + k) (hs + e - 1))) p c) xs cs"
    and "\<forall>((p, k), e)\<in>set xs. 0 \<le> k"
  shows "\<forall>c\<in>set cs. chunk_ok c \<and> c_language c = L_GIT_DIFF \<and> c_file_path c = Some f \<and>
           hs \<le> c_start_line c \<and> c_end_line c \<le> he"
  using assms by (induction xs cs rule: list_all2_induct) (auto simp: diff_chunk_of_def)

text \<open>The chunks of a group of lines that starts \<open>k\<close> new-file lines into the hunk.\<close>

definition group_chunk :: "string \<Rightarrow> int \<Rightarrow> int \<Rightarrow> string list \<Rightarrow> chunk \<Rightarrow> bool" where
  "group_chunk f hs k g c \<longleftrightarrow>
     diff_chunk_of f (hs + k) (max (hs + k) (hs + k + new_lines g - 1)) (concat g) c"

lemma groups_chunks:
  assumes "list_all2 (\<lambda>((p, k), e) c. diff_chunk_of f (hs + k) (min he (max (hs + k) (hs + e - 1))) p c)
             (zip (zip (map concat gs) (offsets k gs)) (map2 (\<lambda>o' g. o' + new_lines g) (offsets k gs) gs)) cs"
    and "parts_ok 0 cnt (zip (map concat gs) (offsets k gs))" "k + new_lines (concat gs) \<le> cnt" "he = hs + cnt - 1"
  shows "list_all2 (\<lambda>(k, g) c. group_chunk f hs k g c) (zip (offsets k gs) gs) cs"
  using assms
proof (induction gs arbitrary: k cs)
  case (Cons g gs)
  from Cons.prems(1) obtain c cs' where cs: "cs = c # cs'"
    and c: "diff_chunk_of f (hs + k) (min he (max (hs + k) (hs + (k + new_lines g) - 1))) (concat g) c"
    and rest: "list_all2 (\<lambda>((p, k), e) c. diff_chunk_of f (hs + k) (min he (max (hs + k) (hs + e - 1))) p c)
        (zip (zip (map concat gs) (offsets (k + new_lines g) gs))
          (map2 (\<lambda>o' g. o' + new_lines g) (offsets (k + new_lines g) gs) gs)) cs'"
    by (auto simp: list_all2_Cons1)
  have "k + new_lines g + new_lines (concat gs) \<le> cnt" "hs + k \<le> he" using Cons.prems(2,3,4) by simp_all
  then have "k + new_lines g \<le> cnt" "hs + k \<le> he" using new_lines_nonneg [of "concat gs"] by linarith+
  then have "min he (max (hs + k) (hs + (k + new_lines g) - 1)) = max (hs + k) (hs + k + new_lines g - 1)"
    using Cons.prems(4) by (simp add: add.assoc)
  with c have "group_chunk f hs k g c" by (simp add: group_chunk_def)
  moreover have "list_all2 (\<lambda>(k, g) c. group_chunk f hs k g c) (zip (offsets (k + new_lines g) gs) gs) cs'"
    by (rule Cons.IH [OF rest]) (use Cons.prems(2,3,4) in \<open>simp_all add: add.assoc\<close>)
  ultimately show ?case by (simp add: cs)
qed simp

text \<open>What the chunks of a hunk have to be.\<close>

definition hunk_covered :: "int \<Rightarrow> string \<Rightarrow> int \<Rightarrow> int \<Rightarrow> string list \<Rightarrow> chunk list \<Rightarrow> bool" where
  "hunk_covered mx f hunk_start hunk_end hunk_lines cs \<longleftrightarrow>
    concat (map c_code cs) = concat hunk_lines \<and>
    (\<forall>c\<in>set cs. chunk_ok c \<and> c_language c = L_GIT_DIFF \<and> c_file_path c = Some f \<and>
       hunk_start \<le> c_start_line c \<and> c_end_line c \<le> hunk_end) \<and>
    ((\<forall>l\<in>set hunk_lines. int (length l) \<le> mx) \<longrightarrow>
      (\<exists>gs. concat gs = hunk_lines \<and>
         list_all2 (\<lambda>(k, g) c. group_chunk f hunk_start k g c) (zip (offsets 0 gs) gs) cs))"

lemma hunk_covered_whole:
  assumes "1 \<le> hunk_start" "hunk_start \<le> hunk_end" "hunk_end = hunk_start + new_lines hunk_lines - 1"
    and "concat hunk_lines \<noteq> []" "int (length (concat hunk_lines)) \<le> mx"
  shows "hunk_covered mx f hunk_start hunk_end hunk_lines (hunk_chunks mx symbol f hunk_start hunk_end hunk_lines)"
proof -
  obtain c where "git_diff_chunk symbol f hunk_start hunk_end (concat hunk_lines) = Inr c"
    and c: "diff_chunk_of f hunk_start hunk_end (concat hunk_lines) c"
    using git_diff_chunk_result [OF assms(1,2,4)] .
  with assms have cs: "hunk_chunks mx symbol f hunk_start hunk_end hunk_lines = [c]"
    by (simp add: hunk_chunks_def Let_def)
  have "group_chunk f hunk_start 0 hunk_lines c" using c assms(2,3) by (simp add: group_chunk_def)
  then have "\<exists>gs. concat gs = hunk_lines \<and>
      list_all2 (\<lambda>(k, g) c. group_chunk f hunk_start k g c) (zip (offsets 0 gs) gs) [c]"
    by (intro exI [of _ "[hunk_lines]"]) simp
  with c show ?thesis by (simp add: hunk_covered_def cs diff_chunk_of_def)
qed

lemma hunk_covered_split:
  assumes "mx > 0" "1 \<le> hunk_start" "hunk_end = hunk_start + new_lines hunk_lines - 1"
    and "hunk_lines \<noteq> []" "part_pending 0 0 [] hunk_lines" "\<not> int (length (concat hunk_lines)) \<le> mx"
  shows "hunk_covered mx f hunk_start hunk_end hunk_lines (hunk_chunks mx symbol f hunk_start hunk_end hunk_lines)"
    (is "hunk_covered mx f hunk_start hunk_end hunk_lines ?cs")
proof -
  obtain parts where parts: "part_loop mx hunk_lines 0 0 [] 0 = Inr (parts, new_lines hunk_lines)"
      "concat (map fst parts) = concat hunk_lines"
    and ok: "parts_ok 0 (new_lines hunk_lines) parts"
    using part_loop_result [OF assms(1), of hunk_lines 0 0 "[]" 0] assms(5) by auto
  have nonempty: "parts \<noteq> []" using parts(2) assms(4,5) by (cases hunk_lines) (auto simp: part_pending_def)
  let ?ends = "part_ends parts (new_lines hunk_lines)"
  have len: "length ?ends = length parts" using nonempty by (simp add: part_ends_def)
  have cs': "?cs = part_chunks symbol f hunk_start hunk_end (length parts) 1 (zip parts ?ends)"
    using assms(6) parts(1) by (simp add: hunk_chunks_def Let_def)
  have all2: "list_all2 (\<lambda>((p, k), e) c. diff_chunk_of f (hunk_start + k)
      (min hunk_end (max (hunk_start + k) (hunk_start + e - 1))) p c) (zip parts ?ends) ?cs"
    unfolding cs' by (rule part_chunks_result [OF ok assms(2,3) len])
  have exact: "\<exists>gs. concat gs = hunk_lines \<and>
      list_all2 (\<lambda>(k, g) c. group_chunk f hunk_start k g c) (zip (offsets 0 gs) gs) ?cs"
    if small: "\<forall>l\<in>set hunk_lines. int (length l) \<le> mx"
  proof -
    obtain gs where gs: "parts = zip (map concat gs) (offsets 0 gs)" "concat gs = hunk_lines"
      using part_loop_groups [OF small, of 0 0 "[]" 0] parts(1) by auto
    then have "gs \<noteq> []" using assms(4) by auto
    from part_ends_groups [OF this, of 0]
    have ends: "?ends = map2 (\<lambda>o' g. o' + new_lines g) (offsets 0 gs) gs" using gs by simp
    have "list_all2 (\<lambda>(k, g) c. group_chunk f hunk_start k g c) (zip (offsets 0 gs) gs) ?cs"
      by (rule groups_chunks [OF _ _ _ assms(3)]) (use all2 ok ends gs in simp_all)
    with gs show ?thesis by blast
  qed
  have "\<forall>((p, k), e)\<in>set (zip parts ?ends). 0 \<le> k"
    using ok by (auto simp: parts_ok_def dest: set_zip_leftD)
  from list_all2_bounds [OF all2 this] list_all2_codes [OF all2] len parts(2) exact
  show ?thesis unfolding hunk_covered_def by simp
qed

text \<open>
  A hunk of which no part can be empty of new lines - its last line is not a deletion - loses
  nothing: the chunks' texts concatenate to the hunk's text, every chunk is valid, of the file and of
  the language of diffs, with a range inside the hunk's; and when every line fits the limit the
  chunks are groups of whole lines, each with the range of exactly the new-file lines it holds.
\<close>

theorem hunk_chunks_complete:
  assumes "mx > 0" "1 \<le> hunk_start" "hunk_end = hunk_start + new_lines hunk_lines - 1"
    and "hunk_lines \<noteq> []" "[] \<notin> set hunk_lines" "advances (last hunk_lines)"
    and "cs = hunk_chunks mx symbol f hunk_start hunk_end hunk_lines"
  shows "hunk_covered mx f hunk_start hunk_end hunk_lines cs"
proof -
  have pending: "part_pending 0 0 [] hunk_lines"
    using assms(4-6) by (simp add: part_pending_def)
  have pos: "0 < new_lines hunk_lines"
    using part_pending_less(2) [of 0 0 "[]" "hd hunk_lines" "tl hunk_lines"] pending assms(4) by simp
  have nonempty: "concat hunk_lines \<noteq> []" using assms(4,5) by (cases hunk_lines) auto
  show ?thesis
    using hunk_covered_whole [OF assms(2) _ assms(3) nonempty] hunk_covered_split [OF assms(1-4) pending] pos
    unfolding assms(7) using assms(3) by (cases "int (length (concat hunk_lines)) \<le> mx") simp_all
qed

lemma hunk_chunks_complete_witness:
  "concat (map c_code (hunk_chunks 22 ''f'' ''a.py'' 5 7 [''@@ -5 +5,3 @@x'', '' one'', ''-two'', ''+three'', '' four'']))
     = ''@@ -5 +5,3 @@x one-two+three four''"
  using hunk_chunks_complete [of 22 5 7 "[''@@ -5 +5,3 @@x'', '' one'', ''-two'', ''+three'', '' four'']" _ "''f''" "''a.py''",
    OF _ _ _ _ _ _ refl]
  by (simp add: advances_def hunk_covered_def)

subsection \<open>Printed diffs\<close>

text \<open>
  The format git prints: a file is a \<open>diff --git\<close> line, other header lines, the \<open>+++\<close> line (\<open>/dev/null\<close>
  for a deleted file) and hunks; a range leaves out a count of one.
\<close>

record git_hunk =
  h_old :: nat
  h_old_count :: nat
  h_start :: nat
  h_count :: nat
  h_context :: string
  h_body :: "string list"

record git_file =
  f_names :: string
  f_meta :: "string list"
  f_path :: "string option"
  f_hunks :: "git_hunk list"

definition print_range :: "nat \<Rightarrow> nat \<Rightarrow> string" where
  "print_range s n = str_nat s @ (if n = 1 then [] else '','' @ str_nat n)"

definition print_header :: "git_hunk \<Rightarrow> string" where
  "print_header h =
     ''@@ -'' @ print_range (h_old h) (h_old_count h) @ '' +'' @ print_range (h_start h) (h_count h) @ '' @@'' @ h_context h"

definition print_hunk :: "git_hunk \<Rightarrow> string list" where
  "print_hunk h = (print_header h @ [nl]) # h_body h"

definition print_path :: "string option \<Rightarrow> string" where
  "print_path p = (case p of None \<Rightarrow> ''/dev/null'' | Some f \<Rightarrow> ''b/'' @ f)"

definition print_file :: "git_file \<Rightarrow> string list" where
  "print_file d =
     (''diff --git '' @ f_names d @ [nl]) # f_meta d @ (''+++ '' @ print_path (f_path d) @ [nl])
     # concat (map print_hunk (f_hunks d))"

definition no_breaks :: "string \<Rightarrow> bool" where
  "no_breaks s \<longleftrightarrow> list_all (\<lambda>c. \<not> line_break c) s"

text \<open>A line with its line end, LF or CR LF, and no other line break; a plain line starts none of the three headers.\<close>

definition text_line :: "string \<Rightarrow> bool" where
  "text_line l \<longleftrightarrow>
     l \<noteq> [] \<and> last l = nl \<and>
     no_breaks (if butlast l \<noteq> [] \<and> last (butlast l) = cr then butlast (butlast l) else butlast l)"

definition plain_line :: "string \<Rightarrow> bool" where
  "plain_line l \<longleftrightarrow>
     text_line l \<and> \<not> starts_with l ''diff --git '' \<and> \<not> starts_with l ''+++ '' \<and> \<not> starts_with l ''@@ -''"

definition git_hunk_ok :: "git_hunk \<Rightarrow> bool" where
  "git_hunk_ok h \<longleftrightarrow> no_breaks (h_context h) \<and> list_all plain_line (h_body h)"

definition git_file_ok :: "git_file \<Rightarrow> bool" where
  "git_file_ok d \<longleftrightarrow>
     no_breaks (f_names d) \<and> list_all plain_line (f_meta d)
     \<and> (case f_path d of None \<Rightarrow> True | Some f \<Rightarrow> no_breaks f) \<and> list_all git_hunk_ok (f_hunks d)"

definition git_hunk_chunks :: "int \<Rightarrow> string option \<Rightarrow> git_hunk \<Rightarrow> chunk list" where
  "git_hunk_chunks mx p h =
     (case p of
        Some f \<Rightarrow>
          if h_count h = 0 then []
          else hunk_chunks mx (hunk_symbol p (int (h_start h)) (py_strip (h_context h))) f (int (h_start h))
                 (int (h_start h) + int (h_count h) - 1) (print_hunk h)
      | None \<Rightarrow> [])"

lemma no_breaks_simps [simp]:
  "no_breaks []"
  "no_breaks (c # s) \<longleftrightarrow> \<not> line_break c \<and> no_breaks s"
  "no_breaks (s @ t) \<longleftrightarrow> no_breaks s \<and> no_breaks t"
  by (simp_all add: no_breaks_def)

lemma line_break_eol [simp]: "line_break nl" "line_break cr"
  by (simp_all add: line_break_def)

lemma text_line_cases:
  assumes "text_line l"
  obtains v e where "l = v @ e" "e = [nl] \<or> e = [cr, nl]" "no_breaks v"
proof -
  from assms obtain u where l: "l = u @ [nl]"
    by (cases l rule: rev_cases) (auto simp: text_line_def)
  show thesis
  proof (cases "u \<noteq> [] \<and> last u = cr")
    case True
    then obtain w where "u = w @ [cr]" by (cases u rule: rev_cases) auto
    with l assms show thesis by (intro that [of w "[cr, nl]"]) (auto simp: text_line_def butlast_append)
  next
    case False
    with l assms show thesis by (intro that [of u "[nl]"]) (auto simp: text_line_def)
  qed
qed

lemma text_lineI: "no_breaks v \<Longrightarrow> text_line (v @ [nl])"
proof -
  assume "no_breaks v"
  moreover from this have "v = [] \<or> last v \<noteq> cr" by (cases v rule: rev_cases) auto
  ultimately show ?thesis by (auto simp: text_line_def)
qed

lemma splitlines_line:
  assumes "text_line l"
  shows "splitlines_from acc (l @ rest) = (acc @ l) # splitlines_from [] rest"
proof -
  obtain v e where l: "l = v @ e" "e = [nl] \<or> e = [cr, nl]" "no_breaks v" using text_line_cases [OF assms] .
  have "splitlines_from acc (v @ e @ rest) = (acc @ v @ e) # splitlines_from [] rest" if "no_breaks v" for v acc
    using that l(2) by (induction v arbitrary: acc) auto
  with l show ?thesis by simp
qed

lemma splitlines_concat: "list_all text_line ls \<Longrightarrow> splitlines_keepends (concat ls) = ls"
  unfolding splitlines_keepends_def by (induction ls) (auto simp: splitlines_line)

definition strip_eol :: "string \<Rightarrow> string" where
  "strip_eol l = rstrip_char cr (rstrip_char nl l)"

lemma rstrip_char_keep: "s = [] \<or> last s \<noteq> c \<Longrightarrow> rstrip_char c s = s"
  by (cases s rule: rev_cases) (auto simp: rstrip_char_def)

lemma rstrip_char_snoc [simp]: "rstrip_char c (s @ [c]) = rstrip_char c s"
  by (simp add: rstrip_char_def)

lemma strip_eol_line:
  assumes "no_breaks v" "e = [nl] \<or> e = [cr, nl]"
  shows "strip_eol (v @ e) = v"
proof -
  have v: "v = [] \<or> last v \<noteq> c" if "line_break c" for c
    using assms(1) that by (cases v rule: rev_cases) auto
  have "rstrip_char nl (v @ [cr, nl]) = v @ [cr]"
    using rstrip_char_snoc [of nl "v @ [cr]"] rstrip_char_keep [of "v @ [cr]" nl] by simp
  with assms(2) v show ?thesis by (auto simp: strip_eol_def rstrip_char_keep)
qed

lemma starts_with_append: "starts_with v p \<Longrightarrow> starts_with (v @ e) p"
  unfolding starts_with_def by (metis append_take_drop_id append.assoc append_eq_conv_conj)

lemma hunk_header_prefix: "hunk_header s = Some h \<Longrightarrow> starts_with s ''@@ -''"
  by (auto simp: hunk_header_def match_lit_def bind_eq_Some_conv split: if_splits)

lemma match_count_print:
  assumes "s \<noteq> []" "\<not> is_digit (hd s)" "hd s \<noteq> CHR '',''"
  shows "match_count ((if n = 1 then [] else '','' @ str_nat n) @ s) = (if n = 1 then None else Some (str_nat n), s)"
  using assms match_digits_str_nat [of s n]
  by (cases s) (auto simp: match_count_def match_lit_def starts_with_def)

lemma match_range:
  assumes "s \<noteq> []" "\<not> is_digit (hd s)" "hd s \<noteq> CHR '',''"
  shows "\<exists>t. match_digits (print_range a n @ s) = Some (str_nat a, t)
           \<and> match_count t = (if n = 1 then None else Some (str_nat n), s)"
proof -
  let ?t = "(if n = 1 then [] else '','' @ str_nat n) @ s"
  have "?t = [] \<or> \<not> is_digit (hd ?t)" using assms by (simp add: is_digit_def)
  from match_digits_str_nat [OF this, of a] match_count_print [OF assms, of n] show ?thesis
    by (simp add: print_range_def)
qed

lemma hunk_header_print:
  "hunk_header (print_header h)
     = Some (int (h_start h), if h_count h = 1 then None else Some (int (h_count h)), h_context h)"
proof -
  let ?new = "'' @@'' @ h_context h"
  let ?old = "'' +'' @ print_range (h_start h) (h_count h) @ ?new"
  have new: "?new \<noteq> []" "\<not> is_digit (hd ?new)" "hd ?new \<noteq> CHR '',''" by (simp_all add: is_digit_def)
  have old: "?old \<noteq> []" "\<not> is_digit (hd ?old)" "hd ?old \<noteq> CHR '',''" by (simp_all add: is_digit_def)
  obtain t u where
    t: "match_digits (print_range (h_old h) (h_old_count h) @ ?old) = Some (str_nat (h_old h), t)" "snd (match_count t) = ?old" and
    u: "match_digits (print_range (h_start h) (h_count h) @ ?new) = Some (str_nat (h_start h), u)"
      "match_count u = (if h_count h = 1 then None else Some (str_nat (h_count h)), ?new)"
    using match_range [OF old, of "h_old h" "h_old_count h"] match_range [OF new, of "h_start h" "h_count h"] by auto
  show ?thesis
    unfolding print_header_def hunk_header_def match_lit_append bind.bind_lunit
    by (simp only: t u match_lit_append bind.bind_lunit prod.case Let_def fst_conv snd_conv) simp
qed

lemma no_breaks_digits: "no_breaks (str_nat n)"
  using is_digit_str_nat [of n] by (auto simp: no_breaks_def list_all_iff is_digit_def line_break_def Let_def)

lemma no_breaks_header: "no_breaks (h_context h) \<Longrightarrow> no_breaks (print_header h)"
  by (auto simp: print_header_def print_range_def no_breaks_digits) (simp_all add: line_break_def)

text \<open>The chunks the state would give if the diff ended there.\<close>

definition pending_chunks :: "int \<Rightarrow> diff_state \<Rightarrow> chunk list" where
  "pending_chunks mx st = d_chunks (flush_hunk mx st)"

lemma flush_hunk_fields [simp]:
  "d_in_hunk (flush_hunk mx st) = False"
  "d_current_file (flush_hunk mx st) = d_current_file st"
  by (simp_all add: flush_hunk_def split: option.splits)

lemma pending_not_in_hunk: "\<not> d_in_hunk st \<Longrightarrow> pending_chunks mx st = d_chunks st"
  by (simp add: pending_chunks_def flush_hunk_def split: option.splits)

lemma diff_line_eq:
  "diff_line mx st line =
     (let stripped = strip_eol line
      in if starts_with stripped ''diff --git ''
         then (flush_hunk mx st)\<lparr>d_current_file := None, d_hunk_lines := []\<rparr>
         else if starts_with stripped ''+++ '' then st\<lparr>d_current_file := header_file (drop 4 stripped)\<rparr>
         else case hunk_header stripped of
                Some h \<Rightarrow> start_hunk line h (flush_hunk mx st)
              | None \<Rightarrow> if d_in_hunk st then st\<lparr>d_hunk_lines := d_hunk_lines st @ [line]\<rparr> else st)"
  by (simp add: diff_line_def strip_eol_def)

lemma diff_line_plain:
  assumes "plain_line l"
  shows "diff_line mx st l = (if d_in_hunk st then st\<lparr>d_hunk_lines := d_hunk_lines st @ [l]\<rparr> else st)"
proof -
  obtain v e where l: "l = v @ e" "e = [nl] \<or> e = [cr, nl]" "no_breaks v"
    using assms text_line_cases unfolding plain_line_def by blast
  have p: "\<not> starts_with v ''diff --git ''" "\<not> starts_with v ''+++ ''" "\<not> starts_with v ''@@ -''"
    using assms starts_with_append unfolding plain_line_def l(1) by blast+
  then have "hunk_header v = None" using hunk_header_prefix by (cases "hunk_header v") auto
  with p show ?thesis unfolding diff_line_eq using strip_eol_line [OF l(3,2)] by (simp add: l(1))
qed

lemma plain_lines_fold:
  "list_all plain_line ls \<Longrightarrow>
   foldl (diff_line mx) st ls = (if d_in_hunk st then st\<lparr>d_hunk_lines := d_hunk_lines st @ ls\<rparr> else st)"
  by (induction ls arbitrary: st) (simp_all add: diff_line_plain)

lemma strip_eol_snoc: "no_breaks v \<Longrightarrow> strip_eol (v @ [nl]) = v"
  by (rule strip_eol_line) auto

lemma hunk_fold:
  assumes "git_hunk_ok h"
  shows "d_current_file (foldl (diff_line mx) st (print_hunk h)) = d_current_file st"
    and "pending_chunks mx (foldl (diff_line mx) st (print_hunk h))
           = pending_chunks mx st @ git_hunk_chunks mx (d_current_file st) h"
proof -
  let ?hl = "print_header h @ [nl]"
  have "strip_eol ?hl = print_header h"
    using assms by (intro strip_eol_snoc no_breaks_header) (simp add: git_hunk_ok_def)
  moreover have "\<not> starts_with (print_header h) ''diff --git ''" "\<not> starts_with (print_header h) ''+++ ''"
    by (simp_all add: print_header_def starts_with_def)
  ultimately have "diff_line mx st ?hl = start_hunk ?hl (int (h_start h),
      if h_count h = 1 then None else Some (int (h_count h)), h_context h) (flush_hunk mx st)"
    by (simp add: diff_line_eq hunk_header_print)
  then have fold: "foldl (diff_line mx) st (print_hunk h) = foldl (diff_line mx) (start_hunk ?hl (int (h_start h),
      if h_count h = 1 then None else Some (int (h_count h)), h_context h) (flush_hunk mx st)) (h_body h)"
    by (simp add: print_hunk_def)
  have body: "list_all plain_line (h_body h)" using assms by (simp add: git_hunk_ok_def)
  show "d_current_file (foldl (diff_line mx) st (print_hunk h)) = d_current_file st"
    unfolding fold plain_lines_fold [OF body] by (simp add: start_hunk_def Let_def)
  show "pending_chunks mx (foldl (diff_line mx) st (print_hunk h))
      = pending_chunks mx st @ git_hunk_chunks mx (d_current_file st) h"
    unfolding fold plain_lines_fold [OF body]
    by (auto simp: start_hunk_def Let_def pending_chunks_def git_hunk_chunks_def flush_hunk_def print_hunk_def
        split: option.splits)
qed

lemma hunks_fold:
  assumes "list_all git_hunk_ok hs"
  shows "d_current_file (foldl (diff_line mx) st (concat (map print_hunk hs))) = d_current_file st"
    and "pending_chunks mx (foldl (diff_line mx) st (concat (map print_hunk hs)))
           = pending_chunks mx st @ concat (map (git_hunk_chunks mx (d_current_file st)) hs)"
  using assms by (induction hs arbitrary: st) (simp_all add: hunk_fold)

lemma file_fold:
  assumes "git_file_ok d"
  shows "pending_chunks mx (foldl (diff_line mx) st (print_file d))
           = pending_chunks mx st @ concat (map (git_hunk_chunks mx (f_path d)) (f_hunks d))"
proof -
  let ?st1 = "(flush_hunk mx st)\<lparr>d_current_file := None, d_hunk_lines := []\<rparr>"
  let ?st2 = "?st1\<lparr>d_current_file := f_path d\<rparr>"
  have "strip_eol ((''diff --git '' @ f_names d) @ [nl]) = ''diff --git '' @ f_names d"
    by (rule strip_eol_snoc) (use assms in \<open>simp add: git_file_ok_def, simp add: line_break_def\<close>)
  then have 1: "diff_line mx st (''diff --git '' @ f_names d @ [nl]) = ?st1"
    by (simp add: diff_line_eq starts_with_def)
  have 2: "foldl (diff_line mx) ?st1 (f_meta d) = ?st1"
    using assms by (simp add: git_file_ok_def plain_lines_fold)
  have "strip_eol ((''+++ '' @ print_path (f_path d)) @ [nl]) = ''+++ '' @ print_path (f_path d)"
    by (rule strip_eol_snoc)
      (use assms in \<open>auto simp: git_file_ok_def print_path_def line_break_def split: option.splits\<close>)
  moreover have "header_file (print_path (f_path d)) = f_path d"
    by (simp add: header_file_def print_path_def starts_with_def split: option.splits)
  ultimately have 3: "diff_line mx ?st1 (''+++ '' @ print_path (f_path d) @ [nl]) = ?st2"
    by (simp add: diff_line_eq starts_with_def)
  have "pending_chunks mx ?st2 = pending_chunks mx st"
    by (subst pending_not_in_hunk) (simp_all add: pending_chunks_def)
  moreover have "list_all git_hunk_ok (f_hunks d)" using assms by (simp add: git_file_ok_def)
  ultimately show ?thesis
    using hunks_fold(2) [of "f_hunks d" mx ?st2] by (simp add: print_file_def 1 2 3 del: append_Cons)
qed

lemma text_lines_file:
  assumes "git_file_ok d"
  shows "list_all text_line (print_file d)"
proof -
  have "text_line ((''diff --git '' @ f_names d) @ [nl])"
    by (rule text_lineI) (use assms in \<open>simp add: git_file_ok_def, simp add: line_break_def\<close>)
  moreover have "text_line ((''+++ '' @ print_path (f_path d)) @ [nl])"
    by (rule text_lineI)
      (use assms in \<open>auto simp: git_file_ok_def print_path_def line_break_def split: option.splits\<close>)
  moreover have "list_all text_line (f_meta d)"
    using assms by (auto simp: git_file_ok_def list_all_iff plain_line_def)
  moreover have "list_all text_line (print_hunk h)" if "h \<in> set (f_hunks d)" for h
    using assms that by (auto simp: git_file_ok_def git_hunk_ok_def list_all_iff plain_line_def print_hunk_def
        intro!: text_lineI no_breaks_header)
  ultimately show ?thesis by (auto simp: print_file_def list_all_iff)
qed


definition example_diff :: "git_file list" where
  "example_diff =
     [\<lparr>f_names = ''a/x.py b/x.py'', f_meta = [''index 1..2'' @ [nl], ''--- a/x.py'' @ [nl]], f_path = Some ''x.py'',
       f_hunks = [\<lparr>h_old = 3, h_old_count = 1, h_start = 3, h_count = 2, h_context = '' def f():'',
         h_body = ['' a'' @ [nl], ''+b'' @ [cr, nl]]\<rparr>,
         \<lparr>h_old = 9, h_old_count = 1, h_start = 9, h_count = 0, h_context = [], h_body = [''-c'' @ [nl]]\<rparr>]\<rparr>,
      \<lparr>f_names = ''a/y b/y'', f_meta = [], f_path = None,
       f_hunks = [\<lparr>h_old = 1, h_old_count = 1, h_start = 0, h_count = 0, h_context = [], h_body = [''-c'' @ [nl]]\<rparr>]\<rparr>]"


subsection \<open>The call of git\<close>

lemma str_contains_set: "str_contains s p \<Longrightarrow> set p \<subseteq> set s"
proof (induction s)
  case Nil
  then show ?case using str_contains.simps [of "[]" p] by (simp add: starts_with_def)
next
  case (Cons c s)
  have "set p \<subseteq> set (c # s)" if "starts_with (c # s) p"
    using that unfolding starts_with_def by (metis set_take_subset)
  moreover have "set p \<subseteq> set (c # s)" if "str_contains s p" using Cons.IH [OF that] by auto
  ultimately show ?case using Cons.prems str_contains.simps [of "c # s" p] by auto
qed

lemma hex_hash_chars: "hex_hash h \<Longrightarrow> c \<in> set h \<Longrightarrow> safe_ref_char c \<and> c \<notin> set ''^./-''"
  by (auto simp: hex_hash_def list_all_iff hex_char_def safe_ref_char_def ascii_alnum_def is_digit_def Let_def)

lemma safe_ref_hashes:
  assumes "hex_hash h"
  shows "safe_ref (h @ ''^..'' @ h)" and "safe_ref (EMPTY_TREE_SHA @ ''..'' @ h)"
    and "single_commit (h @ ''^..'' @ h) = Some h"
proof -
  have slash: "CHR ''/'' \<notin> set h" and caret: "CHR ''^'' \<notin> set h" and "list_all safe_ref_char h"
    using hex_hash_chars [OF assms] by (auto simp: list_all_iff)
  moreover obtain c h' where h: "h = c # h'" using assms by (cases h) (auto simp: hex_hash_def)
  moreover have "c \<notin> set ''^./-''" using hex_hash_chars [OF assms, of c] h by simp
  ultimately show "safe_ref (h @ ''^..'' @ h)"
    using str_contains_set [of "h @ ''^..'' @ h" "''../''"]
    by (auto simp: safe_ref_def starts_with_def) (simp_all add: safe_ref_char_def)
  have "list_all safe_ref_char EMPTY_TREE_SHA" "CHR ''/'' \<notin> set EMPTY_TREE_SHA" by code_simp+
  with slash \<open>list_all safe_ref_char h\<close> show "safe_ref (EMPTY_TREE_SHA @ ''..'' @ h)"
    using str_contains_set [of "EMPTY_TREE_SHA @ ''..'' @ h" "''../''"]
    by (auto simp: safe_ref_def) (simp_all add: safe_ref_char_def starts_with_def EMPTY_TREE_SHA_def)
  have "takeWhile (\<lambda>c. c \<noteq> CHR ''^'') (h @ ''^..'' @ h) = h"
    using caret by (subst takeWhile_append2) auto
  with assms show "single_commit (h @ ''^..'' @ h) = Some h" by (simp add: single_commit_def)
qed



text \<open>
  The diff of one commit by its hash is that of the commit: it is asked for as the range from its
  parent, and when git does not know the parent - a root commit - as the range from the empty tree.
\<close>

theorem commit_diff_retried_from_empty_tree:
  assumes "hex_hash h"
  shows "resolve_commit_range None (Some h) None = Inr (Some (h @ ''^..'' @ h)) \<and>
    run_git_diff git (h @ ''^..'' @ h) =
      (case git (h @ ''^..'' @ h) of
         Git_Exit code out err \<Rightarrow>
           if code = 0 then Inr out
           else if str_contains (py_strip err) ''unknown revision''
           then (case git (EMPTY_TREE_SHA @ ''..'' @ h) of
                   Git_Exit code2 out2 err2 \<Rightarrow> if code2 = 0 then Inr out2 else Inl (Diff_Failed (py_strip err2))
                 | Git_Timeout \<Rightarrow> Inl (Diff_Timeout (EMPTY_TREE_SHA @ ''..'' @ h)))
           else Inl (Diff_Failed (py_strip err))
       | Git_Timeout \<Rightarrow> Inl (Diff_Timeout (h @ ''^..'' @ h)))"
proof
  have "\<exists>c\<in>set h. \<not> py_space c"
    using assms hex_hash_chars [OF assms]
    by (cases h) (auto simp: hex_hash_def hex_char_def is_digit_def py_space_def Let_def)
  then have "py_strip h \<noteq> []" by (simp add: py_strip_eq_Nil_iff)
  then show "resolve_commit_range None (Some h) None = Inr (Some (h @ ''^..'' @ h))"
    by (simp add: resolve_commit_range_def)
qed (simp add: run_git_diff_def safe_ref_hashes [OF assms, simplified] Let_def split: git_outcome.split)

lemma commit_diff_retried_from_empty_tree_witness:
  "run_git_diff (\<lambda>r. if r = ''abc1^..abc1'' then Git_Exit 128 [] ''fatal: unknown revision'' else Git_Exit 0 r []) ''abc1^..abc1''
     = Inr ''4b825dc642cb6eb9a060e54bf8d69288fbee4904..abc1''"
proof -
  have hash: "hex_hash ''abc1''" by code_simp
  have known: "str_contains (py_strip ''fatal: unknown revision'') ''unknown revision''" by code_simp
  show ?thesis
    using commit_diff_retried_from_empty_tree [OF hash, THEN conjunct2,
        of "\<lambda>r. if r = ''abc1^..abc1'' then Git_Exit 128 [] ''fatal: unknown revision'' else Git_Exit 0 r []"]
    using known by (simp add: EMPTY_TREE_SHA_def)
qed

subsection \<open>Where the parser loses or misplaces text\<close>

text \<open>An added line whose text starts with \<open>++ \<close> is taken for a file header: it is dropped and renames the file.\<close>

definition plus_line_diff :: string where
  "plus_line_diff = concat [''diff --git a/f b/f'' @ [nl], ''+++ b/f'' @ [nl], ''@@ -1,0 +2,2 @@ g'' @ [nl],
     ''+++ counter;'' @ [nl], ''+x'' @ [nl]]"

lemma added_plus_line_dropped:
  "map (\<lambda>c. (c_file_path c, c_code c)) (parse_diff_to_chunks plus_line_diff 10000)
     = [(Some ''counter;'', ''@@ -1,0 +2,2 @@ g'' @ [nl] @ ''+x'' @ [nl])]"
  by code_simp

text \<open>A part after the last new line starts behind the hunk's end; its chunk is refused and the rest of the hunk lost.\<close>

lemma trailing_deletions_lost:
  "map c_code (hunk_chunks 10 ''g'' ''f'' 2 3 [''@@ -2 +2,2'', '' a'', ''+b'', ''-ccccccc'', ''-ddddddd''])
     = [''@@ -2 +2,2 a'', ''+b-ccccccc'']"
  by code_simp

text \<open>The offset is not moved past a line that exceeds the limit: the next part claims its line.\<close>

lemma offset_stale_after_long_line:
  "map (\<lambda>c. (c_code c, c_start_line c, c_end_line c))
       (hunk_chunks 5 ''g'' ''f'' 10 12 [''@@'', ''+abcdefgh'', ''+xy'', ''+z''])
     = [(''@@'', 10, 10), (''+abcd'', 10, 10), (''efgh'', 10, 10), (''+xy+z'', 10, 12)]"
  by code_simp

text \<open>A part only ends after a new line: deletions alone make a chunk of any length.\<close>

lemma deletions_exceed_limit:
  "map c_code (hunk_chunks 5 ''g'' ''f'' 1 1 [''@@'', ''-abc'', ''-def'', ''-ghi'', '' z''])
     = [''@@-abc-def-ghi z'']"
  by code_simp

text \<open>git ends a path that contains a space with a tab; the tab becomes part of the chunk's path.\<close>

lemma tab_kept_in_path:
  "map c_file_path (parse_diff_to_chunks (concat [''diff --git a/a b.py b/a b.py'' @ [nl], ''+++ b/a b.py'' @ [CHR 0x09, nl],
      ''@@ -0,0 +1 @@'' @ [nl], ''+x'' @ [nl]]) 10000) = [Some (''a b.py'' @ [CHR 0x09])]"
  by code_simp

end
