(* ===== verification/File_Patterns.thy ===== *)
theory File_Patterns
  imports Core_Types
begin

text \<open>
  Include and exclude patterns and the directory walk (\<open>utils/file_patterns.py\<close>), with the extension
  filter of the indexing coordinator.

  A path is the list of its parts below the root directory; the parts of the root itself are the
  field \<open>w_root\<close>.  Patterns are compiled by \<open>fnmatch.translate\<close>, here a list of tokens with the
  matching function of the regular expression it yields; the cache of compiled patterns does not
  change a result and is left out.  A directory holds its name-sorted or unsorted entries as
  \<open>os.walk\<close> lists them; a symlink to a directory is a directory without entries, as \<open>os.walk\<close> does
  not follow it.  The ignore engine is an argument.
\<close>

subsection \<open>fnmatch\<close>

datatype fn_token = Fn_Star | Fn_Any | Fn_Never | Fn_Class bool "(char \<times> char) list" | Fn_Lit char

definition char_le :: "char \<Rightarrow> char \<Rightarrow> bool" where
  "char_le c d \<longleftrightarrow> (of_char c :: nat) \<le> of_char d"

text \<open>The content of a bracket up to the closing \<open>]\<close>, and the pattern after it.\<close>

definition bracket_skip :: "string \<Rightarrow> nat" where
  "bracket_skip r =
     (let j = (if starts_with r ''!'' then 1 else 0) in if starts_with (drop j r) '']'' then Suc j else j)"

definition bracket :: "string \<Rightarrow> (string \<times> string) option" where
  "bracket r =
     (let j = bracket_skip r; s = drop j r
      in if CHR '']'' \<in> set s
         then Some (take j r @ takeWhile (\<lambda>c. c \<noteq> CHR '']'') s, tl (dropWhile (\<lambda>c. c \<noteq> CHR '']'') s))
         else None)"

lemma after_char_shorter:
  "c \<in> set (drop k s) \<Longrightarrow> length (tl (dropWhile (\<lambda>x. x \<noteq> c) (drop k s))) < length s"
proof -
  assume c: "c \<in> set (drop k s)"
  let ?d = "dropWhile (\<lambda>x. x \<noteq> c) (drop k s)"
  have "length ?d \<le> length (drop k s)" by (rule length_dropWhile_le)
  moreover have "?d \<noteq> []" using c by (auto simp: dropWhile_eq_Nil_conv)
  ultimately show ?thesis by (cases ?d) auto
qed

text \<open>The chunks between the hyphens that form ranges, and the removal of empty ranges.\<close>

function hyphen_chunks :: "nat \<Rightarrow> string \<Rightarrow> string list" where
  "hyphen_chunks skip s =
     (let b = drop skip s
      in if CHR ''-'' \<in> set b
         then (take skip s @ takeWhile (\<lambda>c. c \<noteq> CHR ''-'') b)
              # hyphen_chunks 2 (tl (dropWhile (\<lambda>c. c \<noteq> CHR ''-'') b))
         else [s])"
  by pat_completeness auto
termination by (relation "measure (\<lambda>(k, s). length s)") (auto dest: after_char_shorter)

declare hyphen_chunks.simps [simp del]

definition range_chunks :: "string \<Rightarrow> string list" where
  "range_chunks stuff =
     (let chunks = hyphen_chunks (if starts_with stuff ''!'' then 2 else 1) stuff
      in if last chunks = [] then butlast (butlast chunks) @ [last (butlast chunks) @ ''-''] else chunks)"

fun drop_empty_ranges :: "string list \<Rightarrow> string list" where
  "drop_empty_ranges [] = []"
| "drop_empty_ranges (c # cs) =
     (case drop_empty_ranges cs of
        [] \<Rightarrow> [c]
      | d # ds \<Rightarrow> if \<not> char_le (last c) (hd d) then (butlast c @ tl d) # ds else c # d # ds)"

fun class_ranges :: "string list \<Rightarrow> (char \<times> char) list" where
  "class_ranges [] = []"
| "class_ranges [c] = map (\<lambda>x. (x, x)) c"
| "class_ranges (c # d # cs) = map (\<lambda>x. (x, x)) (butlast c) @ (last c, hd d) # class_ranges (tl d # cs)"

definition fn_class :: "string \<Rightarrow> fn_token" where
  "fn_class stuff =
     (let chunks = (if CHR ''-'' \<in> set stuff then drop_empty_ranges (range_chunks stuff) else [stuff])
      in if concat chunks = [] then Fn_Never
         else if chunks = [''!''] then Fn_Any
         else if starts_with (hd chunks) ''!'' then Fn_Class True (class_ranges (tl (hd chunks) # tl chunks))
         else Fn_Class False (class_ranges chunks))"

lemma bracket_shorter: "bracket r = Some (stuff, rest) \<Longrightarrow> length rest < length r"
  by (auto simp: bracket_def Let_def dest: after_char_shorter split: if_splits)

function fn_translate :: "string \<Rightarrow> fn_token list" where
  "fn_translate [] = []"
| "fn_translate (c # r) =
     (if c = CHR ''*'' then Fn_Star # fn_translate r
      else if c = CHR ''?'' then Fn_Any # fn_translate r
      else if c = CHR ''['' then
        (case bracket r of
           None \<Rightarrow> Fn_Lit c # fn_translate r
         | Some (stuff, rest) \<Rightarrow> fn_class stuff # fn_translate rest)
      else Fn_Lit c # fn_translate r)"
  by pat_completeness auto
termination by (relation "measure length") (auto dest: bracket_shorter)

fun fn_accepts :: "fn_token \<Rightarrow> char \<Rightarrow> bool" where
  "fn_accepts Fn_Star c = False"
| "fn_accepts Fn_Any c = True"
| "fn_accepts Fn_Never c = False"
| "fn_accepts (Fn_Class neg rs) c = (neg \<noteq> (\<exists>(lo, hi)\<in>set rs. char_le lo c \<and> char_le c hi))"
| "fn_accepts (Fn_Lit d) c = (c = d)"

fun fn_match :: "fn_token list \<Rightarrow> string \<Rightarrow> bool" where
  "fn_match [] s = (s = [])"
| "fn_match (t # ts) [] = (t = Fn_Star \<and> fn_match ts [])"
| "fn_match (t # ts) (c # s) =
     (if t = Fn_Star then fn_match ts (c # s) \<or> fn_match (t # ts) s else fn_accepts t c \<and> fn_match ts s)"

text \<open>\<open>fnmatch(name, pattern)\<close>, and \<open>compile_pattern(pattern).match(name)\<close>.\<close>

definition fnmatch :: "string \<Rightarrow> string \<Rightarrow> bool" where
  "fnmatch s pat = fn_match (fn_translate pat) s"

subsection \<open>Include patterns\<close>

definition HEAVY_DIRS :: "string list" where
  "HEAVY_DIRS = [''.git'', ''node_modules'', ''.venv'', ''venv'', ''dist'', ''build'', ''target'']"

definition has_wildcard :: "string \<Rightarrow> bool" where
  "has_wildcard segment \<longleftrightarrow> (\<exists>c\<in>set segment. c \<in> set ''*?['')"

definition is_simple_ext :: "string \<Rightarrow> string option" where
  "is_simple_ext s =
     (if starts_with s ''*.'' \<and> CHR ''*'' \<notin> set (drop 2 s) \<and> CHR ''?'' \<notin> set s \<and> CHR ''['' \<notin> set s
         \<and> CHR ''/'' \<notin> set s
      then Some (drop 1 s) else None)"

definition is_exact_name :: "string \<Rightarrow> string option" where
  "is_exact_name s = (if \<not> has_wildcard s \<and> CHR ''/'' \<notin> set s \<and> s \<noteq> [] then Some s else None)"

datatype pattern_kind = Ext_Pattern string | Name_Pattern string

definition classify_segment :: "string \<Rightarrow> pattern_kind option" where
  "classify_segment s =
     (case is_simple_ext s of
        Some e \<Rightarrow> Some (Ext_Pattern e)
      | None \<Rightarrow> map_option Name_Pattern (is_exact_name s))"

definition classify_pattern :: "string \<Rightarrow> pattern_kind option" where
  "classify_pattern q =
     (if CHR ''/'' \<notin> set q then classify_segment q
      else let segments = split_on CHR ''/'' q
           in if \<exists>segment\<in>set (butlast segments). segment \<noteq> ''**'' \<and> has_wildcard segment then None
              else classify_segment (last segments))"

definition strip_any_depth :: "string \<Rightarrow> string" where
  "strip_any_depth p = (if starts_with p ''**/'' then drop 3 p else p)"

definition summarize_include_patterns :: "string list \<Rightarrow> string set \<times> string set \<times> bool" where
  "summarize_include_patterns patterns =
     (let ks = map (\<lambda>p. classify_pattern (strip_any_depth p)) patterns
      in (set (List.map_filter (\<lambda>k. case k of Some (Ext_Pattern e) \<Rightarrow> Some e | _ \<Rightarrow> None) ks),
          set (List.map_filter (\<lambda>k. case k of Some (Name_Pattern n) \<Rightarrow> Some n | _ \<Rightarrow> None) ks),
          None \<in> set ks))"

definition include_prefix :: "string \<Rightarrow> string option" where
  "include_prefix pat =
     (let p = strip_any_depth pat
      in if p = [] \<or> starts_with p ''*'' \<or> CHR ''/'' \<notin> set p then None
         else let acc = takeWhile (\<lambda>seg. \<not> has_wildcard seg) (split_on CHR ''/'' p)
              in if acc = [] then None else Some (join_with ''/'' acc))"

definition extract_include_prefixes :: "string list \<Rightarrow> string list" where
  "extract_include_prefixes patterns = remdups (List.map_filter include_prefix patterns)"

definition strip_char :: "char \<Rightarrow> string \<Rightarrow> string" where
  "strip_char c s = rev (dropWhile (\<lambda>x. x = c) (rev (dropWhile (\<lambda>x. x = c) s)))"

definition can_prune_dir_by_prefix :: "string list \<Rightarrow> string \<Rightarrow> bool" where
  "can_prune_dir_by_prefix include_prefixes current_rel \<longleftrightarrow>
     include_prefixes \<noteq> [] \<and> current_rel \<noteq> [] \<and> current_rel \<noteq> ''.'' \<and>
     (let rel = strip_char CHR ''/'' current_rel
      in list_all (\<lambda>p. p \<noteq> rel \<and> \<not> starts_with p (rel @ ''/'') \<and> \<not> starts_with rel (p @ ''/'')) include_prefixes)"

definition should_prune_heavy_dir :: "string list \<Rightarrow> string list \<Rightarrow> string \<Rightarrow> bool" where
  "should_prune_heavy_dir heavy_names include_prefixes current_name \<longleftrightarrow>
     current_name \<in> set heavy_names \<and>
     list_all (\<lambda>p. p \<noteq> current_name \<and> \<not> starts_with p (current_name @ ''/'')) include_prefixes"

definition normalize_include_pattern :: "string \<Rightarrow> string" where
  "normalize_include_pattern pattern = (if starts_with pattern ''**/'' then pattern else ''**/'' @ pattern)"

definition normalize_include_patterns :: "string list \<Rightarrow> string list" where
  "normalize_include_patterns patterns = map normalize_include_pattern patterns"

definition fnmatch_to_gitignore :: "string \<Rightarrow> string" where
  "fnmatch_to_gitignore pattern =
     (if starts_with pattern ''**/'' \<and> \<not> ends_with pattern ''/**'' \<and>
         CHR ''/'' \<notin> set (rev (dropWhile (\<lambda>c. c = CHR ''/'') (rev (drop 3 pattern))))
      then drop 3 pattern else pattern)"

subsection \<open>Files and directories against patterns\<close>

type_synonym rel_path = "string list"

definition as_posix :: "rel_path \<Rightarrow> string" where
  "as_posix rel = (if rel = [] then ''.'' else join_with ''/'' rel)"

definition include_match :: "string \<Rightarrow> string \<Rightarrow> string \<Rightarrow> bool" where
  "include_match rel_path_str filename pattern \<longleftrightarrow>
     (if starts_with pattern ''**/''
      then fnmatch rel_path_str pattern \<or> fnmatch rel_path_str (drop 3 pattern) \<or> fnmatch filename (drop 3 pattern)
      else fnmatch rel_path_str pattern \<or> fnmatch filename pattern)"

text \<open>
  \<open>rel\<close> is what \<open>get_relative_path_safe\<close> gives for the file: its relative path, or an exception of
  which \<open>ValueError\<close> (the file escapes the root) is caught.
\<close>

definition should_include_file :: "string result \<Rightarrow> string \<Rightarrow> string list \<Rightarrow> bool result" where
  "should_include_file rel filename patterns =
     (case rel of
        Inr rel_path_str \<Rightarrow> Inr (list_ex (include_match rel_path_str filename) patterns)
      | Inl e \<Rightarrow> if e = ValueError then Inr (list_ex (include_match filename filename) patterns) else Inl e)"

definition exclude_match :: "string list \<Rightarrow> rel_path \<Rightarrow> string \<Rightarrow> bool" where
  "exclude_match base_parts rel pattern \<longleftrightarrow>
     (let rel_path_str = as_posix rel; parts = base_parts @ rel; path_name = (if parts = [] then [] else last parts)
      in if starts_with pattern ''**/'' \<and> ends_with pattern ''/**''
         then let target = take (length pattern - 6) (drop 3 pattern)
              in if CHR ''*'' \<in> set target \<or> CHR ''?'' \<in> set target \<or> (CHR ''['' \<in> set target \<and> CHR '']'' \<in> set target)
                 then list_ex (\<lambda>part. fnmatch part target) rel \<or> list_ex (\<lambda>part. fnmatch part target) parts
                 else target \<in> set rel \<or> target \<in> set parts
         else if starts_with pattern ''**/''
         then fnmatch rel_path_str pattern \<or> fnmatch rel_path_str (drop 3 pattern) \<or> fnmatch path_name (drop 3 pattern)
         else fnmatch rel_path_str pattern \<or> fnmatch path_name pattern)"

definition should_exclude_path :: "string list \<Rightarrow> rel_path \<Rightarrow> string list \<Rightarrow> bool" where
  "should_exclude_path base_parts rel patterns \<longleftrightarrow> list_ex (exclude_match base_parts rel) patterns"

text \<open>
  The exclude patterns of the lines of a \<open>.gitignore\<close> in the directory \<open>rel\<close>; \<open>None\<close> when the file
  does not exist or cannot be read.  A pattern that stays absolute after the join replaces the
  directory, as \<open>pathlib\<close> joins.
\<close>

definition join_posix :: "rel_path \<Rightarrow> string \<Rightarrow> string" where
  "join_posix rel s =
     (if starts_with s ''//'' \<and> \<not> starts_with s ''///'' then ''//'' @ join_with ''/'' (path_parts s)
      else if starts_with s ''/'' then ''/'' @ join_with ''/'' (path_parts s)
      else as_posix (rel @ path_parts s))"

definition gitignore_line :: "rel_path \<Rightarrow> string \<Rightarrow> string list" where
  "gitignore_line rel raw =
     (let line = py_strip raw
      in if line = [] \<or> starts_with line ''#'' then []
         else let l = (if ends_with line ''/'' then butlast line else line)
              in if starts_with l ''/''
                 then (if rel = [] then [drop 1 l, drop 1 l @ ''/**'']
                       else [join_posix rel (drop 1 l), join_posix rel (drop 1 l) @ ''/**''])
                 else (if rel = [] then [normalize_include_pattern l]
                       else [as_posix rel @ ''/**/'' @ l, as_posix rel @ ''/'' @ l]))"

definition load_gitignore_patterns :: "rel_path \<Rightarrow> string list option \<Rightarrow> string list" where
  "load_gitignore_patterns rel gitignore_lines =
     (case gitignore_lines of None \<Rightarrow> [] | Some ls \<Rightarrow> concat (map (gitignore_line rel) ls))"

subsection \<open>The walk\<close>

datatype fs_dir =
  Fs_Dir (fs_gitignore: "string list option") (fs_files: "string list") (fs_dirs: "(string \<times> fs_dir) list")

record walk_args =
  w_root :: "string list"
  w_patterns :: "string list"
  w_excludes :: "string list"
  w_engine :: "(rel_path \<Rightarrow> bool \<Rightarrow> bool) option"
  w_max_files :: "int option"

definition passes_prefilter :: "string list \<Rightarrow> string \<Rightarrow> bool" where
  "passes_prefilter patterns filename \<longleftrightarrow>
     (let (exts, names, has_complex) = summarize_include_patterns patterns
      in has_complex \<or> filename \<in> names \<or> path_suffix filename \<in> exts)"

definition path_ignored :: "walk_args \<Rightarrow> string list \<Rightarrow> rel_path \<Rightarrow> bool \<Rightarrow> bool" where
  "path_ignored w gis rel is_dir \<longleftrightarrow>
     (case w_engine w of
        Some matches \<Rightarrow> matches rel is_dir
      | None \<Rightarrow> should_exclude_path (w_root w) rel (w_excludes w) \<or> (gis \<noteq> [] \<and> should_exclude_path (w_root w) rel gis))"

definition keeps_file :: "walk_args \<Rightarrow> string list \<Rightarrow> rel_path \<Rightarrow> string \<Rightarrow> bool" where
  "keeps_file w gis rel filename \<longleftrightarrow>
     \<not> path_ignored w gis (rel @ [filename]) False \<and> passes_prefilter (w_patterns w) filename \<and>
     should_include_file (Inr (as_posix (rel @ [filename]))) filename (w_patterns w) = Inr True"

definition keeps_dir :: "walk_args \<Rightarrow> string list \<Rightarrow> rel_path \<Rightarrow> string \<Rightarrow> bool" where
  "keeps_dir w gis rel dirname \<longleftrightarrow>
     (let include_prefixes = extract_include_prefixes (w_patterns w)
      in \<not> can_prune_dir_by_prefix include_prefixes (as_posix (rel @ [dirname])) \<and>
         \<not> should_prune_heavy_dir HEAVY_DIRS include_prefixes dirname \<and>
         \<not> path_ignored w gis (rel @ [dirname]) True)"

text \<open>The files of one directory, and whether the limit was reached.\<close>

fun walk_files ::
  "walk_args \<Rightarrow> string list \<Rightarrow> rel_path \<Rightarrow> string list \<Rightarrow> rel_path list \<Rightarrow> rel_path list \<times> bool" where
  "walk_files w gis rel [] files = (files, False)"
| "walk_files w gis rel (n # ns) files =
     (if keeps_file w gis rel n
      then (case w_max_files w of
              Some m \<Rightarrow> if int (length files) + 1 \<ge> m then (files @ [rel @ [n]], True)
                        else walk_files w gis rel ns (files @ [rel @ [n]])
            | None \<Rightarrow> walk_files w gis rel ns (files @ [rel @ [n]]))
      else walk_files w gis rel ns files)"

definition dir_gitignores :: "walk_args \<Rightarrow> rel_path \<Rightarrow> string list option \<Rightarrow> string list" where
  "dir_gitignores w rel gitignore_lines =
     (if w_engine w = None then load_gitignore_patterns rel gitignore_lines else [])"

fun walk_dir :: "walk_args \<Rightarrow> rel_path \<Rightarrow> string list \<Rightarrow> fs_dir \<Rightarrow> rel_path list \<Rightarrow> rel_path list \<times> bool"
  and walk_dirs ::
    "walk_args \<Rightarrow> rel_path \<Rightarrow> string list \<Rightarrow> (string \<times> fs_dir) list \<Rightarrow> rel_path list \<Rightarrow> rel_path list \<times> bool" where
  "walk_dir w rel gis (Fs_Dir g ns ds) files =
     (let all_gitignore = dir_gitignores w rel g @ gis; (files', stop) = walk_files w all_gitignore rel ns files
      in if stop then (files', True) else walk_dirs w rel all_gitignore ds files')"
| "walk_dirs w rel gis [] files = (files, False)"
| "walk_dirs w rel gis ((n, d) # ds) files =
     (if keeps_dir w gis rel n
      then (let (files', stop) = walk_dir w (rel @ [n]) gis d files
            in if stop then (files', True) else walk_dirs w rel gis ds files')
      else walk_dirs w rel gis ds files)"

definition walk_directory_tree :: "walk_args \<Rightarrow> rel_path \<Rightarrow> string list \<Rightarrow> fs_dir \<Rightarrow> rel_path list" where
  "walk_directory_tree w start parent_gitignores d = fst (walk_dir w start parent_gitignores d [])"

text \<open>The files of the root directory alone.\<close>

definition scan_directory_files :: "walk_args \<Rightarrow> string list \<Rightarrow> fs_dir \<Rightarrow> rel_path list" where
  "scan_directory_files w gitignore_patterns d =
     map (\<lambda>n. [n]) (filter (\<lambda>n.
       \<not> (case w_engine w of Some matches \<Rightarrow> matches [n] False | None \<Rightarrow> should_exclude_path (w_root w) [n] (w_excludes w)) \<and>
       \<not> (gitignore_patterns \<noteq> [] \<and> should_exclude_path (w_root w) [n] gitignore_patterns) \<and>
       passes_prefilter (w_patterns w) n \<and>
       should_include_file (Inr (as_posix [n])) n (w_patterns w) = Inr True) (fs_files d))"

subsection \<open>The extension filter\<close>

definition prepare_extension_filter :: "string list \<Rightarrow> string set \<times> string set" where
  "prepare_extension_filter patterns =
     (let (exts, names, _) = summarize_include_patterns patterns in (py_lower ` exts, py_lower ` names))"

definition passes_extension_filter ::
  "bool \<Rightarrow> string \<Rightarrow> string list \<Rightarrow> bool \<Rightarrow> (string set \<times> string set) option \<Rightarrow> bool" where
  "passes_extension_filter scss file_name patterns index_unknown_files prepared \<longleftrightarrow>
     index_unknown_files \<or> ''**/*'' \<in> set patterns \<or>
     (let (exts, names) = (case prepared of Some p \<Rightarrow> p | None \<Rightarrow> prepare_extension_filter patterns)
      in py_lower (path_suffix file_name) \<in> exts \<or> py_lower (path_name file_name) \<in> names \<or> is_known_path scss file_name)"

definition filter_unsupported_extensions :: "bool \<Rightarrow> bool \<Rightarrow> rel_path list \<Rightarrow> string list \<Rightarrow> rel_path list" where
  "filter_unsupported_extensions scss index_unknown files patterns =
     filter (\<lambda>f. passes_extension_filter scss (last f) patterns index_unknown (Some (prepare_extension_filter patterns))) files"

subsection \<open>What a pattern matches\<close>

lemma fn_match_append: "fn_match (ts @ us) s \<longleftrightarrow> (\<exists>a b. s = a @ b \<and> fn_match ts a \<and> fn_match us b)"
proof (induction ts s rule: fn_match.induct)
  case (3 t ts c s)
  show ?case
  proof (cases "t = Fn_Star")
    case True
    have "fn_match ((t # ts) @ us) (c # s) \<longleftrightarrow> fn_match (ts @ us) (c # s) \<or> fn_match ((t # ts) @ us) s"
      using True by simp
    also have "\<dots> \<longleftrightarrow> (\<exists>a b. c # s = a @ b \<and> fn_match ts a \<and> fn_match us b)
        \<or> (\<exists>a b. s = a @ b \<and> fn_match (t # ts) a \<and> fn_match us b)"
      using 3(1,2) True by simp
    also have "\<dots> \<longleftrightarrow> (\<exists>a b. c # s = a @ b \<and> fn_match (t # ts) a \<and> fn_match us b)" (is "?L \<longleftrightarrow> ?R")
    proof
      assume ?L
      then show ?R
      proof
        assume "\<exists>a b. c # s = a @ b \<and> fn_match ts a \<and> fn_match us b"
        then obtain a b where ab: "c # s = a @ b" "fn_match ts a" "fn_match us b" by blast
        then have "fn_match (t # ts) a" using True by (cases a) auto
        with ab show ?R by blast
      next
        assume "\<exists>a b. s = a @ b \<and> fn_match (t # ts) a \<and> fn_match us b"
        then obtain a b where ab: "s = a @ b" "fn_match (t # ts) a" "fn_match us b" by blast
        then have "c # s = (c # a) @ b" "fn_match (t # ts) (c # a)" using True by auto
        with ab(3) show ?R by blast
      qed
    next
      assume ?R
      then obtain a b where ab: "c # s = a @ b" "fn_match (t # ts) a" "fn_match us b" by blast
      show ?L
      proof (cases a)
        case Nil
        with ab True have "c # s = [] @ b" "fn_match ts []" by auto
        with ab(3) show ?thesis by blast
      next
        case (Cons x a')
        with ab True have "s = a' @ b" "fn_match ts a \<or> fn_match (t # ts) a'" by auto
        with ab show ?thesis by blast
      qed
    qed
    finally show ?thesis .
  next
    case False
    then have "fn_match ((t # ts) @ us) (c # s) \<longleftrightarrow> fn_accepts t c \<and> (\<exists>a b. s = a @ b \<and> fn_match ts a \<and> fn_match us b)"
      using 3(3) by simp
    also have "\<dots> \<longleftrightarrow> (\<exists>a b. c # s = (c # a) @ b \<and> fn_match (t # ts) (c # a) \<and> fn_match us b)" using False by auto
    also have "\<dots> \<longleftrightarrow> (\<exists>a b. c # s = a @ b \<and> fn_match (t # ts) a \<and> fn_match us b)"
    proof
      assume "\<exists>a b. c # s = a @ b \<and> fn_match (t # ts) a \<and> fn_match us b"
      then obtain a b where ab: "c # s = a @ b" "fn_match (t # ts) a" "fn_match us b" by blast
      with False obtain a' where "a = c # a'" by (cases a) auto
      with ab show "\<exists>a b. c # s = (c # a) @ b \<and> fn_match (t # ts) (c # a) \<and> fn_match us b" by blast
    qed blast
    finally show ?thesis .
  qed
qed auto

definition fn_token_of :: "char \<Rightarrow> fn_token" where
  "fn_token_of c = (if c = CHR ''*'' then Fn_Star else if c = CHR ''?'' then Fn_Any else Fn_Lit c)"

lemma fn_translate_append:
  "CHR ''['' \<notin> set p \<Longrightarrow> fn_translate (p @ q) = map fn_token_of p @ fn_translate q"
  by (induction p) (auto simp: fn_token_of_def)

lemma fnmatch_append:
  assumes "CHR ''['' \<notin> set p"
  shows "fnmatch s (p @ q) \<longleftrightarrow> (\<exists>a b. s = a @ b \<and> fnmatch a p \<and> fnmatch b q)"
  using assms fn_translate_append [OF assms, of q] fn_translate_append [OF assms, of "[]"]
  by (simp add: fnmatch_def fn_match_append)

lemma fnmatch_literal: "\<not> has_wildcard p \<Longrightarrow> fnmatch s p \<longleftrightarrow> s = p"
proof (induction p arbitrary: s)
  case (Cons c p)
  then show ?case by (cases s) (auto simp: fnmatch_def has_wildcard_def)
qed (simp add: fnmatch_def)

lemma fnmatch_star: "fnmatch s ''*''"
proof -
  have "fn_match [Fn_Star] s" by (induction s) auto
  then show ?thesis by (simp add: fnmatch_def)
qed

lemma has_wildcard_append [simp]: "has_wildcard (p @ q) \<longleftrightarrow> has_wildcard p \<or> has_wildcard q"
  by (auto simp: has_wildcard_def)

lemma has_wildcard_Cons [simp]: "has_wildcard (c # q) \<longleftrightarrow> c \<in> set ''*?['' \<or> has_wildcard q"
  by (auto simp: has_wildcard_def)

lemma has_wildcard_Nil [simp]: "\<not> has_wildcard []"
  by (simp add: has_wildcard_def)

lemma no_bracket: "\<not> has_wildcard p \<Longrightarrow> CHR ''['' \<notin> set p"
  by (auto simp: has_wildcard_def)

text \<open>A literal start of a pattern is a start of what it matches.\<close>

lemma fnmatch_prefix: "\<not> has_wildcard p \<Longrightarrow> fnmatch s (p @ q) \<Longrightarrow> \<exists>b. s = p @ b \<and> fnmatch b q"
  by (auto simp: fnmatch_append no_bracket fnmatch_literal)

lemma fnmatch_suffix:
  "CHR ''['' \<notin> set p \<Longrightarrow> \<not> has_wildcard q \<Longrightarrow> fnmatch s (p @ q) \<Longrightarrow> \<exists>a. s = a @ q"
  by (auto simp: fnmatch_append fnmatch_literal)

text \<open>\<open>**/\<close> in front of a pattern: the pattern matches what follows some slash.\<close>

lemma fnmatch_any_depth: "fnmatch s (''**/'' @ q) \<Longrightarrow> \<exists>a b. s = a @ ''/'' @ b \<and> fnmatch b q"
proof -
  assume "fnmatch s (''**/'' @ q)"
  then have "fnmatch s (''**'' @ ''/'' @ q)" by simp
  then obtain a b where ab: "s = a @ b" "fnmatch b (''/'' @ q)"
    using fnmatch_append [of "''**''" s "''/'' @ q"] by auto
  then obtain b' where "b = ''/'' @ b'" "fnmatch b' q" using fnmatch_prefix [of "''/''" b q] by auto
  with ab show ?thesis by auto
qed

text \<open>The name of a file at the end of a path: what precedes it is empty or ends with a slash.\<close>

definition ends_path :: "string \<Rightarrow> string \<Rightarrow> bool" where
  "ends_path name s \<longleftrightarrow> CHR ''/'' \<notin> set name \<and> (\<exists>y. s = y @ name \<and> (y = [] \<or> last y = CHR ''/''))"

lemma ends_path_refl: "CHR ''/'' \<notin> set name \<Longrightarrow> ends_path name name"
  by (auto simp: ends_path_def)

lemma ends_path_tail:
  assumes "ends_path name s" "s = a @ b" "a = [] \<or> last a = CHR ''/''"
  shows "ends_path name b"
proof -
  obtain y where y: "s = y @ name" "y = [] \<or> last y = CHR ''/''" "CHR ''/'' \<notin> set name"
    using assms(1) by (auto simp: ends_path_def)
  then obtain us where "y = a @ us \<and> us @ name = b \<or> y @ us = a \<and> name = us @ b"
    using assms(2) by (auto simp: append_eq_append_conv2)
  then show ?thesis
  proof
    assume "y = a @ us \<and> us @ name = b"
    then show ?thesis using y by (cases us rule: rev_cases) (auto simp: ends_path_def)
  next
    assume *: "y @ us = a \<and> name = us @ b"
    then have "us = []" using y(3) assms(3) by (cases us rule: rev_cases) auto
    then show ?thesis using * y(3) by (auto simp: ends_path_def)
  qed
qed

lemma ends_path_suffix:
  assumes "ends_path name (a @ e)" "CHR ''/'' \<notin> set e"
  shows "\<exists>v. name = v @ e"
proof -
  obtain y where y: "a @ e = y @ name" "y = [] \<or> last y = CHR ''/''" using assms(1) by (auto simp: ends_path_def)
  then obtain us where "a = y @ us \<and> us @ e = name \<or> a @ us = y \<and> e = us @ name"
    by (auto simp: append_eq_append_conv2)
  then show ?thesis
  proof
    assume *: "a @ us = y \<and> e = us @ name"
    then have "us = []" using y(2) assms(2) by (cases us rule: rev_cases) auto
    then show ?thesis using * by auto
  qed blast
qed

lemma ends_path_eq:
  assumes "ends_path name (a @ n)" "CHR ''/'' \<notin> set n" "a = [] \<or> last a = CHR ''/''"
  shows "name = n"
proof -
  obtain v where v: "name = v @ n" using ends_path_suffix [OF assms(1,2)] by blast
  have "ends_path name n" by (rule ends_path_tail [OF assms(1) refl assms(3)])
  then obtain y where "n = y @ name" by (auto simp: ends_path_def)
  with v show ?thesis by simp
qed

lemma include_match_tail:
  assumes "include_match s name p" "ends_path name s"
  shows "\<exists>b. fnmatch b (strip_any_depth p) \<and> ends_path name b"
proof -
  have name: "ends_path name name" using assms(2) ends_path_refl by (simp add: ends_path_def)
  show ?thesis
  proof (cases "starts_with p ''**/''")
    case True
    then have p: "p = ''**/'' @ drop 3 p" unfolding starts_with_def
      by (metis append_take_drop_id length_Cons list.size(3) numeral_3_eq_3)
    have "fnmatch s (''**/'' @ drop 3 p) \<or> fnmatch s (drop 3 p) \<or> fnmatch name (drop 3 p)"
      using assms(1) True p by (simp add: include_match_def)
    moreover have "\<exists>b. fnmatch b (drop 3 p) \<and> ends_path name b" if deep: "fnmatch s (''**/'' @ drop 3 p)"
    proof -
      obtain a b where ab: "s = a @ ''/'' @ b" "fnmatch b (drop 3 p)" using fnmatch_any_depth [OF deep] by blast
      have "ends_path name b" by (rule ends_path_tail [of name s "a @ ''/''"]) (use assms(2) ab in auto)
      with ab show ?thesis by blast
    qed
    ultimately show ?thesis using True assms(2) name by (auto simp: strip_any_depth_def)
  next
    case False
    then show ?thesis using assms name by (auto simp: include_match_def strip_any_depth_def)
  qed
qed

lemma starts_with_split: "starts_with s p \<Longrightarrow> s = p @ drop (length p) s"
  unfolding starts_with_def by (metis append_take_drop_id)

lemma classify_pattern_split:
  assumes "classify_pattern q = Some k"
  obtains a t where "q = a @ t" "CHR ''['' \<notin> set a" "a = [] \<or> last a = CHR ''/''" "classify_segment t = Some k"
proof (cases "CHR ''/'' \<in> set q")
  case False
  then show thesis using assms by (intro that [of "[]" q]) (auto simp: classify_pattern_def)
next
  case True
  let ?segs = "split_on CHR ''/'' q"
  have q: "join_with ''/'' ?segs = q" by (rule join_split_on)
  have "count_list q CHR ''/'' \<noteq> 0" using True by (simp add: count_list_0_iff)
  then have "length ?segs > 1" by (simp add: length_split_on)
  then have ne: "butlast ?segs \<noteq> []" by (cases ?segs rule: rev_cases) auto
  have "?segs = butlast ?segs @ [last ?segs]" by simp
  then have split: "q = (join_with ''/'' (butlast ?segs) @ ''/'') @ last ?segs"
    using q join_append [OF ne, of "[last ?segs]" "''/''"] by simp
  have clean: "\<forall>seg\<in>set (butlast ?segs). CHR ''['' \<notin> set seg"
    using assms True no_bracket by (fastforce simp: classify_pattern_def Let_def split: if_splits)
  have "CHR ''['' \<notin> set (join_with ''/'' ls)" if "\<forall>l\<in>set ls. CHR ''['' \<notin> set l" for ls
    using that by (induction "''/'' :: string" ls rule: join_with.induct) auto
  with clean assms True split show thesis
    by (intro that [of "join_with ''/'' (butlast ?segs) @ ''/''" "last ?segs"])
      (auto simp: classify_pattern_def Let_def split: if_splits)
qed

lemma classified_match:
  assumes "classify_pattern q = Some k" "fnmatch b q" "ends_path name b"
  shows "case k of Name_Pattern n \<Rightarrow> name = n | Ext_Pattern e \<Rightarrow> \<exists>v. name = v @ e"
proof -
  obtain a t where q: "q = a @ t" "CHR ''['' \<notin> set a" "a = [] \<or> last a = CHR ''/''" "classify_segment t = Some k"
    using classify_pattern_split [OF assms(1)] .
  obtain b1 b2 where b: "b = b1 @ b2" "fnmatch b1 a" "fnmatch b2 t"
    using assms(2) q(1,2) by (auto simp: fnmatch_append)
  have b1: "b1 = [] \<or> last b1 = CHR ''/''"
  proof (cases "a = []")
    case True
    with b(2) show ?thesis by (simp add: fnmatch_def)
  next
    case False
    with q(3) have "a = butlast a @ ''/''" using append_butlast_last_id [of a] by simp
    with b(2) q(2) have "\<exists>c. b1 = c @ ''/''"
      using fnmatch_suffix [of "butlast a" "''/''" b1] by (auto dest: in_set_butlastD)
    then show ?thesis by auto
  qed
  show ?thesis
  proof (cases "is_simple_ext t")
    case None
    then have k: "k = Name_Pattern t" "\<not> has_wildcard t" "CHR ''/'' \<notin> set t"
      using q(4) by (auto simp: classify_segment_def is_exact_name_def split: if_splits)
    then have "b2 = t" using b(3) fnmatch_literal by blast
    with k ends_path_eq [of name b1 t] b1 assms(3) b(1) show ?thesis by simp
  next
    case (Some e)
    then have "starts_with t ''*.''" "e = drop 1 t" "CHR ''*'' \<notin> set (drop 2 t)" "CHR ''?'' \<notin> set t"
      "CHR ''['' \<notin> set t" "CHR ''/'' \<notin> set t"
      by (simp_all add: is_simple_ext_def split: if_splits)
    moreover from this obtain r where r: "t = ''*.'' @ r" using starts_with_split [of t "''*.''"] by blast
    ultimately have t: "t = ''*'' @ e" "\<not> has_wildcard e" "CHR ''/'' \<notin> set e" by (auto simp: has_wildcard_def)
    then obtain u where "b2 = u @ e" using b(3) t fnmatch_suffix [of "''*''" e b2] by auto
    then show ?thesis
      using ends_path_suffix [of name "b1 @ u" e] assms(3) b(1) t(3) q(4) Some by (auto simp: classify_segment_def)
  qed
qed

subsection \<open>The prefilter\<close>

definition name_ok :: "string \<Rightarrow> bool" where
  "name_ok n \<longleftrightarrow> n \<noteq> [] \<and> n \<noteq> ''.'' \<and> CHR ''/'' \<notin> set n"

definition pattern_ext :: "string \<Rightarrow> string option" where
  "pattern_ext p = (case classify_pattern (strip_any_depth p) of Some (Ext_Pattern e) \<Rightarrow> Some e | _ \<Rightarrow> None)"

text \<open>An extension as \<open>Path.suffix\<close> gives it: one dot, and something after it.\<close>

definition plain_ext :: "string \<Rightarrow> bool" where
  "plain_ext e \<longleftrightarrow> length e > 1 \<and> CHR ''.'' \<notin> set (tl e)"

definition plain_patterns :: "string list \<Rightarrow> bool" where
  "plain_patterns patterns \<longleftrightarrow>
     list_all (\<lambda>p. case pattern_ext p of None \<Rightarrow> True | Some e \<Rightarrow> plain_ext e) patterns"

text \<open>A file that is not named like a bare extension.\<close>

definition plain_name :: "string list \<Rightarrow> string \<Rightarrow> bool" where
  "plain_name patterns name \<longleftrightarrow> name_ok name \<and> Some name \<notin> set (map pattern_ext patterns)"

lemma path_name_id: "name_ok n \<Longrightarrow> path_name n = n"
  by (simp add: name_ok_def path_name_def path_parts_def split_on_sep_free)

lemma rfind_below_append:
  "c \<notin> set t \<Longrightarrow> rfind_below c (s @ c # t) (length s + 1 + n) = int (length s)" if "n \<le> length t"
  using that
proof (induction n)
  case (Suc n)
  then have "(s @ c # t) ! (length s + 1 + n) = t ! n" by (simp add: nth_append)
  moreover have "t ! n \<noteq> c" using Suc.prems by (metis Suc_le_eq nth_mem)
  ultimately show ?case using Suc by simp
qed simp

lemma path_suffix_ext:
  assumes "name_ok (v @ e)" "v \<noteq> []" "plain_ext e" "hd e = CHR ''.''"
  shows "path_suffix (v @ e) = e"
proof -
  obtain t where e: "e = CHR ''.'' # t" "t \<noteq> []" "CHR ''.'' \<notin> set t"
    using assms(3,4) by (cases e) (auto simp: plain_ext_def)
  have "rfind_below CHR ''.'' (v @ CHR ''.'' # t) (length v + 1 + length t) = int (length v)"
    by (rule rfind_below_append) (use e in auto)
  with assms(1,2) e show ?thesis by (simp add: path_suffix_def path_name_id Let_def)
qed

lemma simple_ext_dot: "pattern_ext p = Some e \<Longrightarrow> hd e = CHR ''.'' \<and> e \<noteq> []"
proof -
  assume "pattern_ext p = Some e"
  then have "classify_pattern (strip_any_depth p) = Some (Ext_Pattern e)"
    by (auto simp: pattern_ext_def split: option.splits pattern_kind.splits)
  then obtain a t where "classify_segment t = Some (Ext_Pattern e)" by (rule classify_pattern_split)
  then have "is_simple_ext t = Some e" by (auto simp: classify_segment_def split: option.splits)
  then have "starts_with t ''*.''" "e = drop 1 t" by (simp_all add: is_simple_ext_def split: if_splits)
  then show ?thesis using starts_with_split [of t "''*.''"] by (metis append_Cons drop0 drop_Suc_Cons list.distinct(1) list.sel(1) One_nat_def)
qed

lemma set_map_filter_iff: "y \<in> set (List.map_filter f xs) \<longleftrightarrow> (\<exists>x\<in>set xs. f x = Some y)"
  by (force simp: List.map_filter_def)

lemma passes_prefilterI:
  assumes "p \<in> set patterns" "classify_pattern (strip_any_depth p) = Some k"
    and "case k of Ext_Pattern e \<Rightarrow> path_suffix name = e | Name_Pattern n \<Rightarrow> name = n"
  shows "passes_prefilter patterns name"
proof (cases k)
  case (Ext_Pattern e)
  with assms have "\<exists>x\<in>set patterns. (case classify_pattern (strip_any_depth x) of Some (Ext_Pattern e) \<Rightarrow> Some e | _ \<Rightarrow> None)
      = Some (path_suffix name)" by (intro bexI [OF _ assms(1)]) simp
  then show ?thesis by (simp add: passes_prefilter_def summarize_include_patterns_def Let_def set_map_filter_iff)
next
  case (Name_Pattern n)
  with assms have "\<exists>x\<in>set patterns. (case classify_pattern (strip_any_depth x) of Some (Name_Pattern n) \<Rightarrow> Some n | _ \<Rightarrow> None)
      = Some name" by (intro bexI [OF _ assms(1)]) simp
  then show ?thesis by (simp add: passes_prefilter_def summarize_include_patterns_def Let_def set_map_filter_iff)
qed

lemma complex_passes: "p \<in> set patterns \<Longrightarrow> classify_pattern (strip_any_depth p) = None \<Longrightarrow> passes_prefilter patterns name"
  by (force simp: passes_prefilter_def summarize_include_patterns_def Let_def)

text \<open>
  C31: The prefilter of the walk drops no file that an include pattern matches, for every list of
  patterns whose extensions have a single dot and every file that is not named like a bare extension.
\<close>

theorem prefilter_complete:
  assumes "plain_patterns patterns" "plain_name patterns name" "ends_path name rel"
    and "should_include_file (Inr rel) name patterns = Inr True"
  shows "passes_prefilter patterns name"
proof -
  obtain p where p: "p \<in> set patterns" "include_match rel name p"
    using assms(4) by (auto simp: should_include_file_def list_ex_iff)
  show ?thesis
  proof (cases "classify_pattern (strip_any_depth p)")
    case None
    then show ?thesis using p complex_passes by blast
  next
    case (Some k)
    obtain b where "fnmatch b (strip_any_depth p)" "ends_path name b"
      using include_match_tail [OF p(2) assms(3)] by blast
    note tail = classified_match [OF Some this]
    have "path_suffix name = e" if k: "k = Ext_Pattern e" for e
    proof -
      from k Some have ext: "pattern_ext p = Some e" by (simp add: pattern_ext_def)
      with assms(1) p(1) have "plain_ext e" by (auto simp: plain_patterns_def list_all_iff)
      moreover obtain v where v: "name = v @ e" using tail k by auto
      moreover have "v \<noteq> []" using assms(2) v p(1) ext by (force simp: plain_name_def)
      ultimately show ?thesis using path_suffix_ext [of v e] simple_ext_dot [OF ext] assms(2)
        by (simp add: plain_name_def)
    qed
    then show ?thesis using passes_prefilterI [OF p(1) Some] tail by (cases k) auto
  qed
qed

lemma prefilter_complete_witness:
  "passes_prefilter [''**/*.py'', ''src/**/Makefile'', ''docs/*.md''] ''Makefile'' \<and>
   passes_prefilter [''**/*.py'', ''src/**/Makefile'', ''docs/*.md''] ''x.py''"
proof
  have p: "plain_patterns [''**/*.py'', ''src/**/Makefile'', ''docs/*.md'']" by code_simp
  have n: "plain_name [''**/*.py'', ''src/**/Makefile'', ''docs/*.md''] ''Makefile''"
    "should_include_file (Inr ''src/a/Makefile'') ''Makefile'' [''**/*.py'', ''src/**/Makefile'', ''docs/*.md''] = Inr True"
    "plain_name [''**/*.py'', ''src/**/Makefile'', ''docs/*.md''] ''x.py''"
    "should_include_file (Inr ''x.py'') ''x.py'' [''**/*.py'', ''src/**/Makefile'', ''docs/*.md''] = Inr True"
    by code_simp+
  have "ends_path ''Makefile'' ''src/a/Makefile''"
    unfolding ends_path_def by (intro conjI exI [of _ "''src/a/''"]) simp_all
  from prefilter_complete [OF p n(1) this n(2)]
  show "passes_prefilter [''**/*.py'', ''src/**/Makefile'', ''docs/*.md''] ''Makefile''" .
  have "ends_path ''x.py'' ''x.py''" by (rule ends_path_refl) simp
  from prefilter_complete [OF p n(3) this n(4)]
  show "passes_prefilter [''**/*.py'', ''src/**/Makefile'', ''docs/*.md''] ''x.py''" .
qed

text \<open>An extension with two dots never passes the prefilter, although the pattern matches.\<close>

lemma two_dot_extension_filtered:
  "should_include_file (Inr ''a/x.d.ts'') ''x.d.ts'' [''**/*.d.ts''] = Inr True \<and>
   \<not> passes_prefilter [''**/*.d.ts''] ''x.d.ts''"
  by code_simp

subsection \<open>Pruning by anchors\<close>

text \<open>A pattern that starts with literal directories; it matches from the root directory on.\<close>

definition anchored :: "string \<Rightarrow> bool" where
  "anchored p \<longleftrightarrow> \<not> starts_with p ''**/'' \<and> include_prefix p \<noteq> None"

definition prefix_safe :: "string list \<Rightarrow> bool" where
  "prefix_safe patterns \<longleftrightarrow> extract_include_prefixes patterns = [] \<or> list_all anchored patterns"

lemma extract_prefix_set: "x \<in> set (extract_include_prefixes ps) \<longleftrightarrow> (\<exists>p\<in>set ps. include_prefix p = Some x)"
  by (simp add: extract_include_prefixes_def set_map_filter_iff)

lemma no_wildcard_join: "\<forall>seg\<in>set ls. \<not> has_wildcard seg \<Longrightarrow> \<not> has_wildcard (join_with ''/'' ls)"
  by (induction "''/'' :: string" ls rule: join_with.induct) auto

lemma include_prefix_split:
  assumes "include_prefix p = Some pre" "\<not> starts_with p ''**/''"
  obtains rest where "p = pre @ rest" "rest = [] \<or> hd rest = CHR ''/''" "\<not> has_wildcard pre" "CHR ''/'' \<in> set p"
proof -
  let ?segs = "split_on CHR ''/'' p" and ?lit = "\<lambda>seg. \<not> has_wildcard seg"
  from assms have pre: "pre = join_with ''/'' (takeWhile ?lit ?segs)" "takeWhile ?lit ?segs \<noteq> []" "CHR ''/'' \<in> set p"
    by (auto simp: include_prefix_def strip_any_depth_def Let_def split: if_splits)
  have p: "p = join_with ''/'' (takeWhile ?lit ?segs @ dropWhile ?lit ?segs)"
    using join_split_on [of "CHR ''/''" p] by simp
  have lit: "\<not> has_wildcard pre" unfolding pre(1) by (rule no_wildcard_join) (auto dest: set_takeWhileD)
  show thesis
  proof (cases "dropWhile ?lit ?segs = []")
    case True
    then have "takeWhile ?lit ?segs = ?segs" by (simp add: dropWhile_eq_Nil_conv takeWhile_eq_all_conv)
    then have "pre = p" unfolding pre(1) by (simp only: join_split_on)
    then show thesis using that [of "[]"] pre(3) lit by simp
  next
    case False
    have "p = pre @ ''/'' @ join_with ''/'' (dropWhile ?lit ?segs)"
      using p join_append [OF pre(2) False, of "''/''"] pre(1) by simp
    then show thesis using that [of "''/'' @ join_with ''/'' (dropWhile ?lit ?segs)"] lit pre(3) by simp
  qed
qed

lemma anchored_match:
  assumes "include_prefix p = Some pre" "\<not> starts_with p ''**/''" "include_match rel name p" "CHR ''/'' \<notin> set name"
  shows "\<exists>b. rel = pre @ b \<and> (b = [] \<or> hd b = CHR ''/'')"
proof -
  obtain rest where p: "p = pre @ rest" "rest = [] \<or> hd rest = CHR ''/''" "\<not> has_wildcard pre" "CHR ''/'' \<in> set p"
    using include_prefix_split [OF assms(1,2)] .
  have match: "\<exists>b. s = pre @ b \<and> (if rest = [] then b = [] else b \<noteq> [] \<and> hd b = CHR ''/'')" if m: "fnmatch s p" for s
  proof -
    obtain b where b: "s = pre @ b" "fnmatch b rest" using fnmatch_prefix [OF p(3)] m p(1) by blast
    show ?thesis
    proof (cases rest)
      case Nil
      with b show ?thesis by (simp add: fnmatch_def)
    next
      case (Cons c r)
      with p(2) b have "fnmatch b (''/'' @ r)" by simp
      then obtain b' where "b = ''/'' @ b'" using fnmatch_prefix [of "''/''" b r] by auto
      with b Cons show ?thesis by auto
    qed
  qed
  have "\<not> fnmatch name p"
  proof
    assume "fnmatch name p"
    from match [OF this] obtain b where b: "name = pre @ b" "if rest = [] then b = [] else b \<noteq> [] \<and> hd b = CHR ''/''"
      by blast
    from p(1,4) assms(4) b(1) have "CHR ''/'' \<in> set rest" by auto
    with b(2) have "CHR ''/'' \<in> set b" by (cases b) (auto split: if_splits)
    with b(1) assms(4) show False by simp
  qed
  with assms(2,3) have "fnmatch rel p" by (simp add: include_match_def)
  from match [OF this] show ?thesis by (auto split: if_splits)
qed

lemma prefix_of_match:
  assumes "pre @ b = d @ ''/'' @ x" "b = [] \<or> hd b = CHR ''/''"
  shows "pre = d \<or> starts_with pre (d @ ''/'') \<or> starts_with d (pre @ ''/'')"
proof -
  from assms(1) obtain us where "pre = d @ us \<and> us @ b = ''/'' @ x \<or> pre @ us = d \<and> b = us @ ''/'' @ x"
    by (auto simp: append_eq_append_conv2)
  then show ?thesis
  proof
    assume "pre = d @ us \<and> us @ b = ''/'' @ x"
    then show ?thesis by (cases us) (auto simp: starts_with_def)
  next
    assume "pre @ us = d \<and> b = us @ ''/'' @ x"
    with assms(2) show ?thesis by (cases us) (auto simp: starts_with_def)
  qed
qed

lemma as_posix_append: "p \<noteq> [] \<Longrightarrow> q \<noteq> [] \<Longrightarrow> as_posix (p @ q) = as_posix p @ ''/'' @ as_posix q"
  by (simp add: as_posix_def join_append)

lemma name_ok_ends: "name_ok n \<Longrightarrow> n \<noteq> [] \<and> hd n \<noteq> CHR ''/'' \<and> last n \<noteq> CHR ''/''"
  unfolding name_ok_def by (metis hd_in_set last_in_set)

lemma join_ends:
  assumes "p \<noteq> []" "\<forall>n\<in>set p. name_ok n"
  shows "join_with ''/'' p \<noteq> [] \<and> hd (join_with ''/'' p) \<noteq> CHR ''/'' \<and> last (join_with ''/'' p) \<noteq> CHR ''/''"
  using assms
proof (induction p rule: list_nonempty_induct)
  case (cons x xs)
  then show ?case using name_ok_ends [of x] by (auto simp: join_with_Cons)
qed (simp add: name_ok_ends)

lemma strip_char_id:
  assumes "s \<noteq> []" "hd s \<noteq> c" "last s \<noteq> c"
  shows "strip_char c s = s"
proof -
  have "dropWhile (\<lambda>x. x = c) s = s" using assms(1,2) by (cases s) auto
  moreover have "dropWhile (\<lambda>x. x = c) (rev s) = rev s" using assms(1,3) by (cases s rule: rev_cases) auto
  ultimately show ?thesis by (simp add: strip_char_def)
qed

lemma anchored_not_pruned:
  assumes "prefix_safe patterns" "p = d @ x" "d \<noteq> []" "x \<noteq> []" "\<forall>n\<in>set p. name_ok n"
    and "should_include_file (Inr (as_posix p)) (last p) patterns = Inr True"
  shows "\<not> can_prune_dir_by_prefix (extract_include_prefixes patterns) (as_posix d)"
proof (cases "extract_include_prefixes patterns = []")
  case True
  then show ?thesis by (simp add: can_prune_dir_by_prefix_def)
next
  case False
  then have anch: "list_all anchored patterns" using assms(1) by (simp add: prefix_safe_def)
  obtain q where q: "q \<in> set patterns" "include_match (as_posix p) (last p) q"
    using assms(6) by (auto simp: should_include_file_def list_ex_iff)
  with anch obtain pre where pre: "include_prefix q = Some pre" "\<not> starts_with q ''**/''"
    by (auto simp: list_all_iff anchored_def)
  have "last p \<in> set p" using assms(2,3) by (intro last_in_set) simp
  then have "CHR ''/'' \<notin> set (last p)" using assms(5) by (auto simp: name_ok_def)
  from anchored_match [OF pre q(2) this] obtain b where b: "as_posix p = pre @ b" "b = [] \<or> hd b = CHR ''/''" by blast
  have "as_posix p = as_posix d @ ''/'' @ as_posix x" using assms(2-4) by (simp add: as_posix_append)
  with b have "pre = as_posix d \<or> starts_with pre (as_posix d @ ''/'') \<or> starts_with (as_posix d) (pre @ ''/'')"
    by (intro prefix_of_match) auto
  moreover have "strip_char CHR ''/'' (as_posix d) = as_posix d"
    using join_ends [OF assms(3)] assms(2,3,5) by (intro strip_char_id) (simp_all add: as_posix_def)
  moreover have "pre \<in> set (extract_include_prefixes patterns)" using q(1) pre(1) by (auto simp: extract_prefix_set)
  ultimately show ?thesis by (auto simp: can_prune_dir_by_prefix_def list_all_iff Let_def)
qed

subsection \<open>The walk as a filter of the tree\<close>

fun tree_files :: "rel_path \<Rightarrow> fs_dir \<Rightarrow> rel_path list"
  and tree_files_dirs :: "rel_path \<Rightarrow> (string \<times> fs_dir) list \<Rightarrow> rel_path list" where
  "tree_files rel (Fs_Dir g ns ds) = map (\<lambda>n. rel @ [n]) ns @ tree_files_dirs rel ds"
| "tree_files_dirs rel [] = []"
| "tree_files_dirs rel ((n, d) # ds) = tree_files (rel @ [n]) d @ tree_files_dirs rel ds"

text \<open>What the walk asks of a path below a directory at depth \<open>k\<close>.\<close>

definition walk_keeps :: "walk_args \<Rightarrow> nat \<Rightarrow> rel_path \<Rightarrow> bool" where
  "walk_keeps w k p \<longleftrightarrow>
     (\<forall>i\<in>{k..<length p - 1}. keeps_dir w [] (take i p) (p ! i)) \<and> keeps_file w [] (butlast p) (last p)"

lemma ignored_engine: "w_engine w \<noteq> None \<Longrightarrow> path_ignored w gis rel b = path_ignored w [] rel b"
  by (auto simp: path_ignored_def)

lemma keeps_engine:
  assumes "w_engine w \<noteq> None"
  shows "keeps_file w gis rel n = keeps_file w [] rel n" and "keeps_dir w gis rel n = keeps_dir w [] rel n"
  using ignored_engine [OF assms, of gis] by (simp_all add: keeps_file_def keeps_dir_def)

lemma walk_files_eq:
  assumes "w_engine w \<noteq> None" "w_max_files w = None"
  shows "walk_files w gis rel ns files = (files @ map (\<lambda>n. rel @ [n]) (filter (keeps_file w [] rel) ns), False)"
  using assms by (induction ns arbitrary: files) (auto simp: keeps_engine(1) [of w gis])

lemma tree_files_below:
  "p \<in> set (tree_files rel d) \<Longrightarrow> \<exists>x. x \<noteq> [] \<and> p = rel @ x"
  "p \<in> set (tree_files_dirs rel ds) \<Longrightarrow> \<exists>n x. n \<in> fst ` set ds \<and> x \<noteq> [] \<and> p = rel @ n # x"
proof (induction rel d and rel ds rule: tree_files_tree_files_dirs.induct)
  case (1 rel g ns ds)
  then show ?case by auto
next
  case (3 rel n d ds)
  from 3(3) consider "p \<in> set (tree_files (rel @ [n]) d)" | "p \<in> set (tree_files_dirs rel ds)" by auto
  then show ?case
  proof cases
    case 1
    then obtain x where "x \<noteq> []" "p = rel @ n # x" using 3(1) by auto
    then show ?thesis by (intro exI [of _ n] exI [of _ x]) simp
  next
    case 2
    then obtain m x where "m \<in> fst ` set ds" "x \<noteq> []" "p = rel @ m # x" using 3(2) by blast
    then show ?thesis by (intro exI [of _ m] exI [of _ x]) simp
  qed
qed simp

lemma walk_keeps_file: "walk_keeps w (length rel) (rel @ [n]) = keeps_file w [] rel n"
  by (simp add: walk_keeps_def)

lemma walk_keeps_dir:
  assumes "x \<noteq> []"
  shows "walk_keeps w (length rel) (rel @ n # x) \<longleftrightarrow>
    keeps_dir w [] rel n \<and> walk_keeps w (length (rel @ [n])) ((rel @ [n]) @ x)"
proof -
  have "{length rel..<length (rel @ n # x) - 1} = insert (length rel) {length (rel @ [n])..<length (rel @ n # x) - 1}"
    using assms by (cases x) auto
  then show ?thesis by (auto simp: walk_keeps_def)
qed

lemma filter_tree_dir:
  "filter (walk_keeps w (length rel)) (tree_files (rel @ [n]) d)
     = (if keeps_dir w [] rel n then filter (walk_keeps w (length (rel @ [n]))) (tree_files (rel @ [n]) d) else [])"
proof -
  have "walk_keeps w (length rel) p \<longleftrightarrow> keeps_dir w [] rel n \<and> walk_keeps w (length (rel @ [n])) p"
    if p: "p \<in> set (tree_files (rel @ [n]) d)" for p
  proof -
    from tree_files_below(1) [OF p] obtain x where "x \<noteq> []" "p = (rel @ [n]) @ x" by blast
    then show ?thesis using walk_keeps_dir [of x w rel n] by simp
  qed
  then show ?thesis by (auto intro: filter_cong simp: filter_empty_conv)
qed

lemma walk_dir_eq:
  assumes "w_engine w \<noteq> None" "w_max_files w = None"
  shows "walk_dir w rel gis d files = (files @ filter (walk_keeps w (length rel)) (tree_files rel d), False)"
    and "walk_dirs w rel gis ds files = (files @ filter (walk_keeps w (length rel)) (tree_files_dirs rel ds), False)"
  using assms
proof (induction w rel gis d files and w rel gis ds files rule: walk_dir_walk_dirs.induct)
  case (1 w rel gis g ns ds files)
  let ?g = "dir_gitignores w rel g @ gis" and ?f = "files @ map (\<lambda>n. rel @ [n]) (filter (keeps_file w [] rel) ns)"
  have f: "walk_files w ?g rel ns files = (?f, False)" using 1(2,3) by (rule walk_files_eq)
  have "walk_dirs w rel ?g ds ?f = (?f @ filter (walk_keeps w (length rel)) (tree_files_dirs rel ds), False)"
    by (rule 1(1) [OF refl refl]) (use f 1(2,3) in auto)
  with f show ?case by (simp add: Let_def filter_map comp_def walk_keeps_file)
next
  case (3 w rel gis n d ds files)
  then show ?case using keeps_engine(2) [of w gis rel n] filter_tree_dir [of w rel n d] by (auto simp: Let_def)
qed simp

text \<open>
  A file the walk is meant to find: no directory above it is ignored or a heavy directory without an
  anchor, the file is not ignored, and an include pattern matches it.
\<close>

definition heavy_dir :: "string list \<Rightarrow> string \<Rightarrow> bool" where
  "heavy_dir patterns dirname \<longleftrightarrow> should_prune_heavy_dir HEAVY_DIRS (extract_include_prefixes patterns) dirname"

definition accepted :: "walk_args \<Rightarrow> rel_path \<Rightarrow> bool" where
  "accepted w p \<longleftrightarrow>
     (\<forall>i\<in>{0..<length p - 1}. \<not> path_ignored w [] (take (Suc i) p) True \<and> \<not> heavy_dir (w_patterns w) (p ! i)) \<and>
     \<not> path_ignored w [] p False \<and> should_include_file (Inr (as_posix p)) (last p) (w_patterns w) = Inr True"

definition tree_ok :: "string list \<Rightarrow> fs_dir \<Rightarrow> bool" where
  "tree_ok patterns d \<longleftrightarrow> list_all (\<lambda>p. list_all name_ok p \<and> plain_name patterns (last p)) (tree_files [] d)"

lemma ends_path_posix: "name_ok n \<Longrightarrow> ends_path n (as_posix (rel @ [n]))"
proof (cases "rel = []")
  case True
  then show "name_ok n \<Longrightarrow> ends_path n (as_posix (rel @ [n]))"
    by (simp add: as_posix_def ends_path_refl name_ok_def)
next
  case False
  then have "as_posix (rel @ [n]) = (as_posix rel @ ''/'') @ n" by (simp add: as_posix_append) (simp add: as_posix_def)
  then show "name_ok n \<Longrightarrow> ends_path n (as_posix (rel @ [n]))"
    unfolding ends_path_def name_ok_def by (intro conjI exI [of _ "as_posix rel @ ''/''"]) auto
qed

lemma walk_keeps_accepted:
  assumes "prefix_safe (w_patterns w)" "plain_patterns (w_patterns w)"
    and "list_all name_ok p" "p \<noteq> []" "plain_name (w_patterns w) (last p)"
  shows "walk_keeps w 0 p = accepted w p"
proof -
  have p: "butlast p @ [last p] = p" using assms(4) by simp
  have "name_ok (last p)" using assms(3,4) by (simp add: list_all_iff)
  then have tail: "ends_path (last p) (as_posix p)" using ends_path_posix [of "last p" "butlast p"] p by simp
  have pre: "passes_prefilter (w_patterns w) (last p)"
    if "should_include_file (Inr (as_posix p)) (last p) (w_patterns w) = Inr True"
    using prefilter_complete [OF assms(2,5) tail that] .
  have anchor: "\<not> can_prune_dir_by_prefix (extract_include_prefixes (w_patterns w)) (as_posix (take (Suc i) p))"
    if "i < length p - 1" "should_include_file (Inr (as_posix p)) (last p) (w_patterns w) = Inr True" for i
    by (rule anchored_not_pruned [OF assms(1), of p "take (Suc i) p" "drop (Suc i) p"])
      (use that assms(3) in \<open>auto simp: list_all_iff\<close>)
  have "take i p @ [p ! i] = take (Suc i) p" if "i < length p - 1" for i
    using that by (simp add: take_Suc_conv_app_nth)
  then show ?thesis
    using pre anchor p
    by (auto simp: walk_keeps_def accepted_def keeps_file_def keeps_dir_def heavy_dir_def Let_def)
qed


definition sample_tree :: fs_dir where
  "sample_tree = Fs_Dir None [''a.py'', ''b.txt'']
     [(''src'', Fs_Dir None [''x.ts''] []), (''lib'', Fs_Dir None [''y.py''] []), (''build'', Fs_Dir None [''z.py''] [])]"

definition sample_walk :: "string list \<Rightarrow> walk_args" where
  "sample_walk patterns =
     \<lparr>w_root = [''/'', ''p''], w_patterns = patterns, w_excludes = [], w_engine = Some (\<lambda>_ _. False), w_max_files = None\<rparr>"


text \<open>
  One anchored pattern prunes the directories that the other patterns need, and after the
  normalisation of include patterns an anchored pattern matches at any depth but is still pruned.
\<close>

lemma anchor_prunes_other_patterns:
  "walk_directory_tree (sample_walk [''src/**/*.ts'', ''**/*.py'']) [] [] sample_tree = [[''a.py'']] \<and>
   should_include_file (Inr ''lib/y.py'') ''y.py'' [''src/**/*.ts'', ''**/*.py''] = Inr True"
  by code_simp

lemma normalized_anchor_prunes_nested:
  "let patterns = normalize_include_patterns [''src/*.ts'']
   in walk_directory_tree (sample_walk patterns) [] []
        (Fs_Dir None [] [(''pkg'', Fs_Dir None [] [(''src'', Fs_Dir None [''x.ts''] [])])]) = [] \<and>
      should_include_file (Inr ''pkg/src/x.ts'') ''x.ts'' patterns = Inr True"
  by code_simp

text \<open>An exclude pattern is matched against the parts of the root too: a project below a \<open>build\<close> directory is empty.\<close>

lemma root_parts_excluded:
  "should_exclude_path [''/'', ''home'', ''build'', ''proj''] [''src'', ''a.py''] [''**/build/**'']"
  by code_simp

end
