(* ===== verification/Path_Filter.thy ===== *)
theory Path_Filter
  imports File_Patterns "HOL-Library.List_Lexorder"
begin

text \<open>
  The sequential discovery of the indexing coordinator (\<open>services/indexing_coordinator.py\<close>) and the
  filter of realtime events (\<open>services/realtime_path_filter.py\<close>), and their agreement.

  The filter keeps the engine it has built and flags that say which of its parts has failed; building
  the engine is an argument, a matching function that may raise, or the exception of the builder.
\<close>

subsection \<open>Sequential discovery\<close>

text \<open>The fallback when the walk finds nothing: only the engine prunes, only the patterns select.\<close>

fun fallback_dir :: "(rel_path \<Rightarrow> bool \<Rightarrow> bool) \<Rightarrow> string list \<Rightarrow> rel_path \<Rightarrow> fs_dir \<Rightarrow> rel_path list"
  and fallback_dirs :: "(rel_path \<Rightarrow> bool \<Rightarrow> bool) \<Rightarrow> string list \<Rightarrow> rel_path \<Rightarrow> (string \<times> fs_dir) list \<Rightarrow> rel_path list" where
  "fallback_dir matches patterns rel (Fs_Dir g ns ds) =
     map (\<lambda>n. rel @ [n]) (filter (\<lambda>n. \<not> matches (rel @ [n]) False \<and>
       should_include_file (Inr (as_posix (rel @ [n]))) n patterns = Inr True) ns)
     @ fallback_dirs matches patterns rel ds"
| "fallback_dirs matches patterns rel [] = []"
| "fallback_dirs matches patterns rel ((n, d) # ds) =
     (if matches (rel @ [n]) True then [] else fallback_dir matches patterns (rel @ [n]) d)
     @ fallback_dirs matches patterns rel ds"

definition walk_directory_with_excludes :: "walk_args \<Rightarrow> fs_dir \<Rightarrow> rel_path list" where
  "walk_directory_with_excludes w d =
     (let files = walk_directory_tree w [] [] d
      in case w_engine w of
           Some matches \<Rightarrow> if files = [] then fallback_dir matches (w_patterns w) [] d else files
         | None \<Rightarrow> files)"

definition discover_files_sequential :: "bool \<Rightarrow> bool \<Rightarrow> walk_args \<Rightarrow> fs_dir \<Rightarrow> rel_path list" where
  "discover_files_sequential scss index_unknown w d =
     filter_unsupported_extensions scss index_unknown (sort (walk_directory_with_excludes w d)) (w_patterns w)"

subsection \<open>The realtime filter\<close>

type_synonym engine = "rel_path \<Rightarrow> bool \<Rightarrow> bool result"

record filter_settings =
  fs_include_patterns :: "string list option"
  fs_index_unknown_files :: bool

record path_filter =
  pf_engine :: "engine option"
  pf_engine_initialized :: bool
  pf_engine_initialization_failed :: bool
  pf_ignore_engine_degraded :: bool
  pf_ignore_engine_degraded_warned :: bool
  pf_include_patterns :: "string list option"
  pf_extension_filter :: "(string set \<times> string set) option"
  pf_include_degraded :: bool
  pf_include_degraded_warned :: bool

text \<open>A path of an event, with what \<open>get_relative_path_safe\<close> gives for it.\<close>

record event_path =
  e_path :: rel_path
  e_rel :: "string result"

definition initial_path_filter :: path_filter where
  "initial_path_filter =
     \<lparr>pf_engine = None, pf_engine_initialized = False, pf_engine_initialization_failed = False,
      pf_ignore_engine_degraded = False, pf_ignore_engine_degraded_warned = False, pf_include_patterns = None,
      pf_extension_filter = None, pf_include_degraded = False, pf_include_degraded_warned = False\<rparr>"

definition is_degraded :: "path_filter \<Rightarrow> bool" where
  "is_degraded st \<longleftrightarrow>
     pf_engine_initialization_failed st \<or> pf_ignore_engine_degraded st \<or> pf_include_degraded st"

definition init_engine :: "engine result \<Rightarrow> path_filter \<Rightarrow> path_filter" where
  "init_engine build st =
     (if \<not> pf_engine_initialized st \<and> \<not> pf_engine_initialization_failed st
      then (case build of
              Inr engine \<Rightarrow> st\<lparr>pf_engine := Some engine, pf_engine_initialized := True\<rparr>
            | Inl e \<Rightarrow> st\<lparr>pf_engine_initialization_failed := True, pf_engine := None\<rparr>)
      else st)"

text \<open>The engine's verdict on a file: \<open>None\<close> when the evaluation goes on.\<close>

definition engine_verdict :: "path_filter \<Rightarrow> rel_path \<Rightarrow> bool option \<times> path_filter" where
  "engine_verdict st p =
     (if \<not> pf_ignore_engine_degraded st
      then (case pf_engine st of
              None \<Rightarrow> (None, st)
            | Some matches \<Rightarrow>
                (case matches p False of
                   Inr m \<Rightarrow> (if m then Some False else None, st)
                 | Inl e \<Rightarrow> (Some False, st\<lparr>pf_ignore_engine_degraded := True, pf_engine := None,
                                               pf_ignore_engine_degraded_warned := True\<rparr>)))
      else (Some False, st))"

definition prepare_includes :: "string list \<Rightarrow> path_filter \<Rightarrow> path_filter" where
  "prepare_includes includes st =
     (let patterns = normalize_include_patterns includes
      in st\<lparr>pf_include_patterns := Some patterns, pf_extension_filter := Some (prepare_extension_filter patterns)\<rparr>)"

definition include_verdict :: "bool \<Rightarrow> filter_settings \<Rightarrow> path_filter \<Rightarrow> string list \<Rightarrow> event_path \<Rightarrow> bool \<times> path_filter" where
  "include_verdict scss settings st patterns f =
     (if patterns = [] then (False, st)
      else case should_include_file (e_rel f) (last (e_path f)) patterns of
             Inl e \<Rightarrow> (False, st\<lparr>pf_include_degraded := True, pf_include_degraded_warned := True\<rparr>)
           | Inr False \<Rightarrow> (False, st)
           | Inr True \<Rightarrow>
               (passes_extension_filter scss (last (e_path f)) patterns (fs_index_unknown_files settings)
                  (pf_extension_filter st), st))"

definition should_index :: "bool \<Rightarrow> filter_settings option \<Rightarrow> engine result \<Rightarrow> path_filter \<Rightarrow> event_path \<Rightarrow> bool \<times> path_filter" where
  "should_index scss settings build st f =
     (case settings of
        None \<Rightarrow> (is_known_path scss (last (e_path f)), st)
      | Some s \<Rightarrow>
          let st1 = init_engine build st
          in if pf_engine_initialization_failed st1 then (False, st1)
             else let (verdict, st2) = engine_verdict st1 (e_path f)
                  in case verdict of
                       Some v \<Rightarrow> (v, st2)
                     | None \<Rightarrow>
                         if pf_include_degraded st2 then (False, st2)
                         else (case pf_include_patterns st2 of
                                 Some patterns \<Rightarrow> include_verdict scss s st2 patterns f
                               | None \<Rightarrow>
                                   (case fs_include_patterns s of
                                      None \<Rightarrow> (is_known_path scss (last (e_path f)), st2)
                                    | Some includes \<Rightarrow>
                                        let st3 = prepare_includes includes st2
                                        in include_verdict scss s st3 (normalize_include_patterns includes) f)))"

fun filter_run ::
  "bool \<Rightarrow> filter_settings option \<Rightarrow> engine result \<Rightarrow> path_filter \<Rightarrow> event_path list \<Rightarrow> bool list \<times> path_filter" where
  "filter_run scss settings build st [] = ([], st)"
| "filter_run scss settings build st (f # fs) =
     (let (b, st1) = should_index scss settings build st f; (bs, st2) = filter_run scss settings build st1 fs
      in (b # bs, st2))"

subsection \<open>Failing closed\<close>

lemma engine_verdict_flags:
  assumes "engine_verdict st p = (v, st')"
  shows "pf_engine_initialization_failed st' = pf_engine_initialization_failed st"
    and "pf_include_degraded st' = pf_include_degraded st"
    and "pf_ignore_engine_degraded st \<Longrightarrow> pf_ignore_engine_degraded st'"
    and "pf_ignore_engine_degraded st' \<Longrightarrow> v = Some False"
    and "v = None \<or> v = Some False"
  using assms by (auto simp: engine_verdict_def split: option.splits sum.splits if_splits)

lemma include_verdict_flags:
  assumes "include_verdict scss s st ps f = (b, st')"
  shows "pf_engine_initialization_failed st' = pf_engine_initialization_failed st"
    and "pf_ignore_engine_degraded st' = pf_ignore_engine_degraded st"
    and "pf_include_degraded st' \<Longrightarrow> pf_include_degraded st \<or> \<not> b"
    and "pf_include_degraded st \<Longrightarrow> pf_include_degraded st'"
  using assms by (auto simp: include_verdict_def split: sum.splits bool.splits if_splits)

lemma prepare_includes_flags [simp]:
  "pf_engine_initialization_failed (prepare_includes incs st) = pf_engine_initialization_failed st"
  "pf_ignore_engine_degraded (prepare_includes incs st) = pf_ignore_engine_degraded st"
  "pf_include_degraded (prepare_includes incs st) = pf_include_degraded st"
  by (simp_all add: prepare_includes_def Let_def)

lemma init_engine_flags [simp]:
  "pf_ignore_engine_degraded (init_engine build st) = pf_ignore_engine_degraded st"
  "pf_include_degraded (init_engine build st) = pf_include_degraded st"
  "pf_engine_initialization_failed st \<Longrightarrow> pf_engine_initialization_failed (init_engine build st)"
  by (simp_all add: init_engine_def split: sum.split)

text \<open>One call: once a part has failed, the answer is no; a failed part stays failed.\<close>

lemma should_index_degraded:
  assumes "should_index scss (Some s) build st f = (b, st')"
  shows "is_degraded st' \<Longrightarrow> \<not> b" and "is_degraded st \<Longrightarrow> is_degraded st'"
proof -
  let ?st1 = "init_engine build st"
  obtain v st2 where v: "engine_verdict ?st1 (e_path f) = (v, st2)" by force
  note flags = engine_verdict_flags [OF v]
  show "is_degraded st' \<Longrightarrow> \<not> b" and "is_degraded st \<Longrightarrow> is_degraded st'"
    using assms flags
    by (auto simp: should_index_def v Let_def is_degraded_def split: if_splits option.splits
        dest: include_verdict_flags)
qed

text \<open>
  The filter fails closed: from the first event on which building the engine, evaluating it or
  matching the include patterns fails, that event and every later one is rejected.
\<close>

theorem degraded_filter_rejects:
  assumes "is_degraded (snd (should_index scss (Some s) build st f))"
  shows "set (fst (filter_run scss (Some s) build st (f # fs))) = {False}"
proof -
  have run: "set (fst (filter_run scss (Some s) build st fs)) \<subseteq> {False}" if "is_degraded st" for st
    using that
  proof (induction fs arbitrary: st)
    case (Cons f fs)
    obtain b st1 where f: "should_index scss (Some s) build st f = (b, st1)" by force
    from should_index_degraded [OF f] Cons.prems have "\<not> b" "is_degraded st1" by blast+
    with Cons.IH [of st1] f show ?case by (simp split: prod.split) fastforce
  qed simp
  obtain b st1 where f: "should_index scss (Some s) build st f = (b, st1)" by force
  with assms should_index_degraded(1) [OF f] have "\<not> b" "is_degraded st1" by simp_all
  with run [of st1] f show ?thesis by (simp split: prod.split) fastforce
qed

lemma degraded_filter_rejects_witness:
  "fst (filter_run False (Some \<lparr>fs_include_patterns = Some [''*.py''], fs_index_unknown_files = False\<rparr>)
     (Inr (\<lambda>p _. if p = [''bad''] then Inl ValueError else Inr False)) initial_path_filter
     [\<lparr>e_path = [''bad''], e_rel = Inr ''bad''\<rparr>, \<lparr>e_path = [''a.py''], e_rel = Inr ''a.py''\<rparr>]) = [False, False]"
proof -
  let ?s = "\<lparr>fs_include_patterns = Some [''*.py''], fs_index_unknown_files = False\<rparr>"
  let ?m = "\<lambda>p _. if p = [''bad''] then Inl ValueError else Inr False"
  let ?fs = "[\<lparr>e_path = [''bad''], e_rel = Inr ''bad''\<rparr>, \<lparr>e_path = [''a.py''], e_rel = Inr ''a.py''\<rparr>]"
  have "is_degraded (snd (should_index False (Some ?s) (Inr ?m) initial_path_filter (hd ?fs)))"
    by (simp add: should_index_def init_engine_def initial_path_filter_def engine_verdict_def is_degraded_def)
  from degraded_filter_rejects [OF this, of "tl ?fs"]
  have all: "set (fst (filter_run False (Some ?s) (Inr ?m) initial_path_filter ?fs)) = {False}" by simp
  have "length (fst (filter_run False (Some ?s) (Inr ?m) initial_path_filter ?fs)) = 2"
    by (simp split: prod.split)
  then have "fst (filter_run False (Some ?s) (Inr ?m) initial_path_filter ?fs) = replicate 2 False"
    by (rule replicate_eqI) (use all in blast)
  then show ?thesis by (simp add: numeral_2_eq_2)
qed

subsection \<open>Agreement of the batch scan and the realtime filter\<close>

definition wanted :: "bool \<Rightarrow> bool \<Rightarrow> string list \<Rightarrow> (rel_path \<Rightarrow> bool \<Rightarrow> bool) \<Rightarrow> rel_path \<Rightarrow> bool" where
  "wanted scss unknown patterns matches p \<longleftrightarrow>
     \<not> matches p False \<and> should_include_file (Inr (as_posix p)) (last p) patterns = Inr True \<and>
     passes_extension_filter scss (last p) patterns unknown (Some (prepare_extension_filter patterns))"

text \<open>A filter that has not failed, before or after its first events.\<close>

definition filter_ready :: "engine \<Rightarrow> string list \<Rightarrow> path_filter \<Rightarrow> bool" where
  "filter_ready engine patterns st \<longleftrightarrow>
     \<not> is_degraded st \<and> (if pf_engine_initialized st then pf_engine st = Some engine else True) \<and>
     (case pf_include_patterns st of
        None \<Rightarrow> True
      | Some ps \<Rightarrow> ps = patterns \<and> pf_extension_filter st = Some (prepare_extension_filter patterns))"

lemma filter_ready_initial: "filter_ready engine patterns initial_path_filter"
  by (simp add: filter_ready_def initial_path_filter_def is_degraded_def)

lemma include_verdict_ready:
  assumes "e_rel f = Inr (as_posix (e_path f))" "pf_extension_filter st = Some (prepare_extension_filter patterns)"
  shows "include_verdict scss s st patterns f
    = (should_include_file (e_rel f) (last (e_path f)) patterns = Inr True \<and>
       passes_extension_filter scss (last (e_path f)) patterns (fs_index_unknown_files s)
         (Some (prepare_extension_filter patterns)), st)"
  using assms by (auto simp: include_verdict_def should_include_file_def split: bool.split)

lemma should_index_ready:
  assumes "filter_ready (\<lambda>p b. Inr (matches p b)) (normalize_include_patterns incs) st"
    and "e_rel f = Inr (as_posix (e_path f))" "s = \<lparr>fs_include_patterns = Some incs, fs_index_unknown_files = unknown\<rparr>"
  shows "\<exists>st'. should_index scss (Some s) (Inr (\<lambda>p b. Inr (matches p b))) st f
      = (wanted scss unknown (normalize_include_patterns incs) matches (e_path f), st')
    \<and> filter_ready (\<lambda>p b. Inr (matches p b)) (normalize_include_patterns incs) st'"
proof -
  let ?m = "\<lambda>p b. Inr (matches p b)" and ?ps = "normalize_include_patterns incs"
  let ?st1 = "init_engine (Inr ?m) st"
  have st1: "pf_engine ?st1 = Some ?m" "pf_engine_initialized ?st1" "\<not> is_degraded ?st1"
    "pf_include_patterns ?st1 = pf_include_patterns st" "pf_extension_filter ?st1 = pf_extension_filter st"
    using assms(1) by (auto simp: init_engine_def filter_ready_def is_degraded_def)
  then have v: "engine_verdict ?st1 (e_path f) = (if matches (e_path f) False then Some False else None, ?st1)"
    by (simp add: engine_verdict_def is_degraded_def)
  have ready: "filter_ready ?m ?ps ?st1" using st1 assms(1) by (simp add: filter_ready_def split: option.splits)
  have flags: "\<not> pf_engine_initialization_failed ?st1" "\<not> pf_include_degraded ?st1"
    using st1(3) by (simp_all add: is_degraded_def)
  show ?thesis
  proof (cases "pf_include_patterns ?st1")
    case None
    have prep: "pf_extension_filter (prepare_includes incs ?st1) = Some (prepare_extension_filter ?ps)"
      by (simp add: prepare_includes_def Let_def)
    have "filter_ready ?m ?ps (prepare_includes incs ?st1)"
      using st1(1,2,3) by (simp add: filter_ready_def prepare_includes_def Let_def is_degraded_def)
    then show ?thesis using ready flags None include_verdict_ready [OF assms(2) prep] assms(2,3)
      by (auto simp: should_index_def Let_def v wanted_def)
  next
    case (Some ps)
    then have ps: "ps = ?ps" "pf_extension_filter ?st1 = Some (prepare_extension_filter ?ps)"
      using ready by (auto simp: filter_ready_def)
    then show ?thesis using ready flags Some include_verdict_ready [OF assms(2) ps(2)] assms(2,3)
      by (auto simp: should_index_def Let_def v wanted_def)
  qed
qed

lemma filter_run_ready:
  assumes "filter_ready (\<lambda>p b. Inr (matches p b)) (normalize_include_patterns incs) st"
    and "\<forall>f\<in>set fs. e_rel f = Inr (as_posix (e_path f))"
    and "s = \<lparr>fs_include_patterns = Some incs, fs_index_unknown_files = unknown\<rparr>"
  shows "fst (filter_run scss (Some s) (Inr (\<lambda>p b. Inr (matches p b))) st fs)
    = map (\<lambda>f. wanted scss unknown (normalize_include_patterns incs) matches (e_path f)) fs"
  using assms(1,2)
proof (induction fs arbitrary: st)
  case (Cons f fs)
  obtain st' where "should_index scss (Some s) (Inr (\<lambda>p b. Inr (matches p b))) st f
      = (wanted scss unknown (normalize_include_patterns incs) matches (e_path f), st')"
    "filter_ready (\<lambda>p b. Inr (matches p b)) (normalize_include_patterns incs) st'"
    using should_index_ready [OF Cons.prems(1) _ assms(3)] Cons.prems(2) by fastforce
  moreover from this(2) have "fst (filter_run scss (Some s) (Inr (\<lambda>p b. Inr (matches p b))) st' fs)
      = map (\<lambda>f. wanted scss unknown (normalize_include_patterns incs) matches (e_path f)) fs"
    using Cons.IH [of st'] Cons.prems(2) by simp
  ultimately show ?case by (simp add: case_prod_unfold)
qed simp

lemma fallback_sound:
  "p \<in> set (fallback_dir matches patterns rel d) \<Longrightarrow>
     p \<in> set (tree_files rel d) \<and> \<not> matches p False \<and> should_include_file (Inr (as_posix p)) (last p) patterns = Inr True"
  "p \<in> set (fallback_dirs matches patterns rel ds) \<Longrightarrow>
     p \<in> set (tree_files_dirs rel ds) \<and> \<not> matches p False \<and> should_include_file (Inr (as_posix p)) (last p) patterns = Inr True"
  by (induction matches patterns rel d and matches patterns rel ds rule: fallback_dir_fallback_dirs.induct)
    (auto split: if_splits)

lemma discover_eq:
  "p \<in> set (discover_files_sequential scss unknown w d) \<longleftrightarrow>
     p \<in> set (walk_directory_with_excludes w d) \<and>
     passes_extension_filter scss (last p) (w_patterns w) unknown (Some (prepare_extension_filter (w_patterns w)))"
  by (auto simp: discover_files_sequential_def filter_unsupported_extensions_def)


definition vendor_engine :: "rel_path \<Rightarrow> bool \<Rightarrow> bool" where
  "vendor_engine p b \<longleftrightarrow> p \<noteq> [] \<and> hd p = ''vendor''"

definition vendor_tree :: fs_dir where
  "vendor_tree = Fs_Dir None [''a.py''] [(''vendor'', Fs_Dir None [''v.py''] []), (''lib'', Fs_Dir None [''y.py''] [])]"

definition vendor_walk :: walk_args where
  "vendor_walk = (sample_walk (normalize_include_patterns [''*.py'']))\<lparr>w_engine := Some vendor_engine\<rparr>"

definition vendor_events :: "event_path list" where
  "vendor_events = [\<lparr>e_path = [''lib'', ''y.py''], e_rel = Inr ''lib/y.py''\<rparr>, \<lparr>e_path = [''vendor'', ''v.py''], e_rel = Inr ''vendor/v.py''\<rparr>]"


text \<open>The realtime filter does not know the heavy directories: it accepts a file the scan prunes.\<close>

lemma heavy_dir_disagreement:
  "let w = sample_walk (normalize_include_patterns [''*.py''])
   in fst (should_index False (Some \<lparr>fs_include_patterns = Some [''*.py''], fs_index_unknown_files = False\<rparr>)
        (Inr (\<lambda>p b. Inr False)) initial_path_filter \<lparr>e_path = [''build'', ''z.py''], e_rel = Inr ''build/z.py''\<rparr>)
      \<and> [''build'', ''z.py''] \<notin> set (discover_files_sequential False False w sample_tree)"
proof -
  have "fst (should_index False (Some \<lparr>fs_include_patterns = Some [''*.py''], fs_index_unknown_files = False\<rparr>)
        (Inr (\<lambda>p b. Inr False)) initial_path_filter \<lparr>e_path = [''build'', ''z.py''], e_rel = Inr ''build/z.py''\<rparr>)"
    by code_simp
  moreover have "[''build'', ''z.py''] \<notin> set (walk_directory_with_excludes (sample_walk (normalize_include_patterns [''*.py''])) sample_tree)"
    by code_simp
  ultimately show ?thesis by (simp add: discover_eq)
qed

end
