(* ===== verification/Citations.thy ===== *)
theory Citations
  imports Py_Regex
begin

text \<open>
  The citations of a research report (\<open>services/research/shared/citation_manager.py\<close>): the
  numbering of the files, the remapping of the numbers of one cluster to those of the whole
  report, the check of the numbers of a text, and the tree of sources at the end of a report.

  The keys of a chunk that the code reads are the fields of \<open>cited_chunk\<close>; \<open>None\<close> is a missing
  key.  A reference map is an ordered dictionary from paths to numbers.  The box-drawing
  characters of the footer are outside the Latin-1 range of \<^typ>\<open>char\<close>: the three strings built
  from them are an argument, the record \<open>tree_glyphs\<close>.
\<close>

subsection \<open>Numbering the files\<close>

record cited_chunk =
  cc_file_path :: "string option"
  cc_start_line :: "int option"
  cc_end_line :: "int option"

type_synonym reference_map = "(string, int) pydict"

definition filter_chunks_to_files :: "cited_chunk list \<Rightarrow> (string, string) pydict \<Rightarrow> cited_chunk list" where
  "filter_chunks_to_files chunks files =
     filter (\<lambda>c. case cc_file_path c of None \<Rightarrow> False | Some p \<Rightarrow> p \<in> set (dict_keys files)) chunks"

definition build_file_reference_map :: "cited_chunk list \<Rightarrow> (string, string) pydict \<Rightarrow> reference_map" where
  "build_file_reference_map chunks files =
     (let file_paths = set (dict_keys files);
          sorted_files = sorted_list_of_set file_paths
      in map (\<lambda>(idx, file_path). (file_path, int idx + 1)) (enumerate 0 sorted_files))"

text \<open>The text \<open>[N]\<close>, and the table of the numbers for the prompt.\<close>

definition citation :: "int \<Rightarrow> string" where
  "citation n = ''['' @ str_int n @ '']''"

definition format_reference_table :: "reference_map \<Rightarrow> string" where
  "format_reference_table file_reference_map =
     (if file_reference_map = [] then ''''
      else join_with [nl]
        ([''## Source References'', '''', ''Use these reference numbers for citations:'', '''']
         @ map (\<lambda>(file_path, ref_num). citation ref_num @ '' '' @ file_path)
             (sort_key snd file_reference_map)))"

subsection \<open>Remapping\<close>

definition cluster_num_to_file :: "reference_map \<Rightarrow> (int, string) pydict" where
  "cluster_num_to_file cluster_file_map =
     fold (\<lambda>(path, num) d. dict_set num path d) cluster_file_map []"

definition citation_remapping :: "reference_map \<Rightarrow> reference_map \<Rightarrow> (int, int) pydict" where
  "citation_remapping cluster_file_map global_file_map =
     fold (\<lambda>(cluster_num, file_path) remapping.
             case dict_get global_file_map file_path of
               Some global_num \<Rightarrow> dict_set cluster_num global_num remapping
             | None \<Rightarrow> remapping)
       (cluster_num_to_file cluster_file_map) []"

definition replace_citation :: "(int, int) pydict \<Rightarrow> int \<Rightarrow> string \<Rightarrow> string" where
  "replace_citation remapping cluster_num text =
     str_replace (citation cluster_num) (citation (the (dict_get remapping cluster_num))) text"

definition remap_cluster_citations :: "string \<Rightarrow> reference_map \<Rightarrow> reference_map \<Rightarrow> string" where
  "remap_cluster_citations cluster_summary cluster_file_map global_file_map =
     (let remapping = citation_remapping cluster_file_map global_file_map
      in fold (replace_citation remapping) (rev (sort (dict_keys remapping))) cluster_summary)"

subsection \<open>Validation\<close>

text \<open>\<open>\[\d+\]\<close> at the head of a text: the digits between the brackets and the rest.\<close>

definition match_citation :: "string \<Rightarrow> (string \<times> string) option" where
  "match_citation s =
     Option.bind (match_lit ''['' s) (\<lambda>s1.
     Option.bind (match_digits s1) (\<lambda>(ds, s2).
     Option.bind (match_lit '']'' s2) (\<lambda>rest. Some (ds, rest))))"

lemma match_citation_Some_iff:
  "match_citation s = Some (ds, rest) \<longleftrightarrow>
     s = ''['' @ ds @ '']'' @ rest \<and> ds \<noteq> [] \<and> list_all is_digit ds"
  by (auto simp: match_citation_def match_lit_Some_iff match_digits_Some_iff bind_eq_Some_conv is_digit_def)

lemma match_citation_shorter: "match_citation s = Some (ds, rest) \<Longrightarrow> length rest < length s"
  by (simp add: match_citation_Some_iff)

text \<open>The texts between the brackets that \<open>findall\<close> yields.\<close>

function find_citations :: "string \<Rightarrow> string list" where
  "find_citations s =
     (case match_citation s of
        Some (ds, rest) \<Rightarrow> ds # find_citations rest
      | None \<Rightarrow> (case s of [] \<Rightarrow> [] | _ # s' \<Rightarrow> find_citations s'))"
  by pat_completeness auto
termination
  by (relation "measure length") (auto dest: match_citation_shorter)

declare find_citations.simps [simp del]

definition validate_citation_references :: "string \<Rightarrow> reference_map \<Rightarrow> int list" where
  "validate_citation_references text file_reference_map =
     (let valid_refs = set (dict_values file_reference_map);
          nums = map digits_int (find_citations text)
      in sorted_list_of_set (set (filter (\<lambda>n. n \<notin> valid_refs) nums)))"

subsection \<open>The footer\<close>

datatype tree_node = TreeNode
  (tn_name: string) (tn_children: "(string \<times> tree_node) list") (tn_is_file: bool) (tn_full_path: string)

record tree_glyphs =
  last_connector :: string
  middle_connector :: string
  vertical_tab :: string

text \<open>
  One file path entered into the tree: \<open>path_so_far\<close> are the parts above the node, the node of
  the last part becomes a file.
\<close>

fun insert_parts :: "string list \<Rightarrow> string list \<Rightarrow> tree_node \<Rightarrow> tree_node" where
  "insert_parts path_so_far [] (TreeNode name cs is_file full) = TreeNode name cs True full"
| "insert_parts path_so_far (part # parts) (TreeNode name cs is_file full) =
     (let path = path_so_far @ [part];
          child = (case dict_get cs part of
                     Some c \<Rightarrow> c
                   | None \<Rightarrow> TreeNode part [] False (join_with ''/'' path))
      in TreeNode name (dict_set part (insert_parts path parts child) cs) is_file full)"

definition build_source_tree :: "(string, string) pydict \<Rightarrow> tree_node" where
  "build_source_tree files =
     fold (\<lambda>file_path root. insert_parts [] (split_on CHR ''/'' file_path) root)
       (sort (dict_keys files)) (TreeNode '''' [] False '''')"

definition group_chunks_by_file :: "cited_chunk list \<Rightarrow> (string, cited_chunk list) pydict" where
  "group_chunks_by_file chunks =
     fold (\<lambda>c d.
             let file_path = (case cc_file_path c of None \<Rightarrow> ''unknown'' | Some p \<Rightarrow> p);
                 old = (case dict_get d file_path of None \<Rightarrow> [] | Some cs \<Rightarrow> cs)
             in dict_set file_path (old @ [c]) d)
       chunks []"

definition line_text :: "int option \<Rightarrow> string" where
  "line_text n = (case n of None \<Rightarrow> ''?'' | Some i \<Rightarrow> str_int i)"

definition chunk_ranges :: "cited_chunk list \<Rightarrow> string list" where
  "chunk_ranges file_chunks =
     map (\<lambda>c. ''L'' @ line_text (cc_start_line c) @ ''-'' @ line_text (cc_end_line c))
       (sort_key (\<lambda>c. case cc_start_line c of None \<Rightarrow> 0 | Some i \<Rightarrow> i) file_chunks)"

definition file_suffix :: "(string, cited_chunk list) pydict \<Rightarrow> string \<Rightarrow> string" where
  "file_suffix chunks_by_file full_path =
     (case dict_get chunks_by_file full_path of
        None \<Rightarrow> '' (full file)''
      | Some file_chunks \<Rightarrow>
          let chunk_count = length file_chunks;
              ranges = chunk_ranges file_chunks;
              range_str = (if length ranges \<le> 3 then join_with '', '' ranges
                           else join_with '', '' (take 3 ranges) @ '', +''
                                  @ str_int (int (length ranges) - 3) @ '' more'')
          in '' ('' @ str_int (int chunk_count) @ '' chunks: '' @ range_str @ '')'')"

definition node_line ::
  "tree_glyphs \<Rightarrow> (string, cited_chunk list) pydict \<Rightarrow> reference_map option \<Rightarrow> string \<Rightarrow> bool \<Rightarrow> tree_node \<Rightarrow> string" where
  "node_line g chunks_by_file refs prefix is_last node =
     (let connector = (if is_last then last_connector g else middle_connector g);
          numbered = (case refs of
                        None \<Rightarrow> tn_name node
                      | Some m \<Rightarrow>
                          (case dict_get m (tn_full_path node) of
                             Some n \<Rightarrow> if tn_is_file node then citation n @ '' '' @ tn_name node else tn_name node
                           | None \<Rightarrow> tn_name node));
          display_name = (if \<not> tn_is_file node \<and> tn_children node \<noteq> [] then numbered @ ''/'' else numbered)
      in prefix @ connector @ display_name
           @ (if tn_is_file node then file_suffix chunks_by_file (tn_full_path node) else ''''))"

fun render_node ::
  "tree_glyphs \<Rightarrow> (string, cited_chunk list) pydict \<Rightarrow> reference_map option \<Rightarrow> tree_node \<Rightarrow> string \<Rightarrow> bool \<Rightarrow> string list"
and render_children ::
  "tree_glyphs \<Rightarrow> (string, cited_chunk list) pydict \<Rightarrow> reference_map option \<Rightarrow> (string \<times> tree_node) list \<Rightarrow> string \<Rightarrow> string list"
where
  "render_node g d refs (TreeNode name cs is_file full) prefix is_last =
     (let new_prefix = (if name \<noteq> '''' then prefix @ (if is_last then [CHR 0x09] else vertical_tab g) else '''')
      in (if name \<noteq> '''' then [node_line g d refs prefix is_last (TreeNode name cs is_file full)] else [])
           @ render_children g d refs cs new_prefix)"
| "render_children g d refs [] new_prefix = []"
| "render_children g d refs ((k, c) # cs) new_prefix =
     render_node g d refs c new_prefix (cs = []) @ render_children g d refs cs new_prefix"

definition build_sources_footer ::
  "tree_glyphs \<Rightarrow> cited_chunk list \<Rightarrow> (string, string) pydict \<Rightarrow> reference_map option \<Rightarrow> string" where
  "build_sources_footer g chunks files refs =
     (if files = [] \<and> chunks = [] then ''''
      else join_with [nl]
        ([''---'', '''', ''## Sources'', '''',
          ''**Files**: '' @ str_int (int (length files)) @ '' | **Chunks**: '' @ str_int (int (length chunks)), '''']
         @ render_node g (group_chunks_by_file chunks) refs (build_source_tree files) '''' True))"

subsection \<open>Simultaneous renumbering\<close>

text \<open>
  The reference definition: \<open>map_citations f s\<close> replaces every \<open>[n]\<close> of \<open>s\<close>, where \<open>n\<close> is a number
  in decimal without leading zeros, by \<open>[f n]\<close>, all at once.
\<close>

definition match_number :: "string \<Rightarrow> (int \<times> string) option" where
  "match_number s =
     (case match_citation s of
        None \<Rightarrow> None
      | Some (ds, rest) \<Rightarrow> if ds = str_int (digits_int ds) then Some (digits_int ds, rest) else None)"

lemma str_int_digits: "0 \<le> n \<Longrightarrow> str_int n = str_nat (nat n)"
  by (simp add: str_int_def)

lemma digits_int_str_int [simp]: "digits_int (str_int n) = n"
  by (simp add: digits_int_def)

lemma str_int_inject [simp]: "str_int a = str_int b \<longleftrightarrow> a = b"
  using py_int_of_str_int by (metis sum.inject(2))

lemma str_int_not_Nil [simp]: "str_int n \<noteq> []"
  by (simp add: str_int_def)

lemma citation_inject [simp]: "citation a = citation b \<longleftrightarrow> a = b"
  by (simp add: citation_def)

lemma citation_not_Nil [simp]: "citation n \<noteq> []"
  by (simp add: citation_def)

lemma list_all_digit_str_int: "list_all is_digit (str_int n) \<longleftrightarrow> 0 \<le> n"
  by (auto simp: str_int_def is_digit_str_nat) (simp add: is_digit_def)

lemma match_number_Some_iff:
  "match_number s = Some (n, rest) \<longleftrightarrow> 0 \<le> n \<and> s = citation n @ rest"
proof
  assume "match_number s = Some (n, rest)"
  then obtain ds where "match_citation s = Some (ds, rest)" "ds = str_int n"
    by (auto simp: match_number_def split: option.splits if_splits)
  then show "0 \<le> n \<and> s = citation n @ rest"
    using list_all_digit_str_int by (auto simp: match_citation_Some_iff citation_def)
next
  assume r: "0 \<le> n \<and> s = citation n @ rest"
  then have "match_citation s = Some (str_int n, rest)"
    using list_all_digit_str_int [of n] by (simp add: match_citation_Some_iff citation_def)
  then show "match_number s = Some (n, rest)" by (simp add: match_number_def)
qed

lemma match_number_shorter: "match_number s = Some (n, rest) \<Longrightarrow> length rest < length s"
  by (simp add: match_number_Some_iff citation_def)

function map_citations :: "(int \<Rightarrow> int) \<Rightarrow> string \<Rightarrow> string" where
  "map_citations f s =
     (case match_number s of
        Some (n, rest) \<Rightarrow> citation (f n) @ map_citations f rest
      | None \<Rightarrow> (case s of [] \<Rightarrow> [] | c # s' \<Rightarrow> c # map_citations f s'))"
  by pat_completeness auto
termination
  by (relation "measure (\<lambda>(f, s). length s)") (auto dest: match_number_shorter)

declare map_citations.simps [simp del]

lemma match_number_citation: "0 \<le> n \<Longrightarrow> match_number (citation n @ s) = Some (n, s)"
  by (simp add: match_number_Some_iff)

lemma match_number_Nil [simp]: "match_number [] = None"
  by (simp add: match_number_def match_citation_def match_lit_def starts_with_def)

lemma match_number_no_bracket: "c \<noteq> CHR ''['' \<Longrightarrow> match_number (c # s) = None"
  by (simp add: match_number_def match_citation_def match_lit_def starts_with_def)

lemma map_citations_Nil [simp]: "map_citations f [] = []"
  by (subst map_citations.simps) simp

lemma map_citations_citation: "0 \<le> n \<Longrightarrow> map_citations f (citation n @ s) = citation (f n) @ map_citations f s"
  by (subst map_citations.simps) (simp only: match_number_citation option.case prod.case)

lemma map_citations_char: "match_number (c # s) = None \<Longrightarrow> map_citations f (c # s) = c # map_citations f s"
  by (subst map_citations.simps) simp

text \<open>Case analysis on the head of a text, and the induction that follows it.\<close>

lemma citation_cases [case_names Nil citation char]:
  obtains "s = []"
  | n rest where "0 \<le> n" "s = citation n @ rest"
  | c s' where "s = c # s'" "match_number s = None"
proof (cases "match_number s")
  case None
  then show ?thesis using that by (cases s) auto
next
  case (Some p)
  then show ?thesis using that by (cases p) (auto simp: match_number_Some_iff)
qed

lemma citation_induct [case_names Nil citation char]:
  assumes "P []"
    and "\<And>n s. 0 \<le> n \<Longrightarrow> P s \<Longrightarrow> P (citation n @ s)"
    and "\<And>c s. match_number (c # s) = None \<Longrightarrow> P s \<Longrightarrow> P (c # s)"
  shows "P s"
proof (induction "length s" arbitrary: s rule: less_induct)
  case less
  show ?case
  proof (cases s rule: citation_cases)
    case Nil
    then show ?thesis using assms(1) by simp
  next
    case (citation n rest)
    then have "P rest" using less by (simp add: citation_def)
    with citation assms(2) show ?thesis by simp
  next
    case (char c s')
    then have "P s'" using less by simp
    with char assms(3) show ?thesis by simp
  qed
qed

subsection \<open>Replacing one number after the other\<close>

lemma starts_with_iff: "starts_with s p \<longleftrightarrow> (\<exists>r. s = p @ r)"
  unfolding starts_with_def by (metis append_eq_conv_conj append_take_drop_id)

lemma starts_with_citation:
  "0 \<le> a \<Longrightarrow> starts_with s (citation a) \<longleftrightarrow> (\<exists>r. match_number s = Some (a, r))"
  by (simp add: starts_with_iff match_number_Some_iff)

lemma bracket_free_number: "CHR ''['' \<notin> set (str_int n @ '']'')"
proof -
  have "CHR ''['' \<notin> set (str_nat m)" for m
    using str_nat_digits [of "CHR ''[''" m] by auto
  then show ?thesis by (simp add: str_int_def)
qed

lemma str_replace_other_citation:
  assumes "0 \<le> a" and "0 \<le> n" and "n \<noteq> a"
  shows "str_replace (citation a) new (citation n @ s) = citation n @ str_replace (citation a) new s"
proof -
  let ?u = "str_int n @ '']''"
  have c: "citation n @ s = CHR ''['' # ?u @ s" by (simp add: citation_def)
  have "\<not> starts_with (CHR ''['' # ?u @ s) (citation a)"
    using assms match_number_citation [of n s] unfolding c by (auto simp: starts_with_citation)
  moreover have "hd (citation a) \<notin> set ?u" using bracket_free_number by (simp add: citation_def)
  ultimately show ?thesis
    unfolding c using str_replace_skip_free [of "citation a" ?u new s]
    by (simp add: str_replace_skip citation_def)
qed

lemma replace_eq_map_citations:
  assumes "0 \<le> a"
  shows "str_replace (citation a) (citation b) s = map_citations (id(a := b)) s"
proof (induction s rule: citation_induct)
  case (citation n s)
  then show ?case
    using assms by (cases "n = a") (simp_all add: str_replace_match str_replace_other_citation map_citations_citation)
next
  case (char c s)
  then have "\<not> starts_with (c # s) (citation a)" using assms by (simp add: starts_with_citation)
  with char show ?case by (simp add: str_replace_skip map_citations_char)
qed simp

text \<open>Renumbering creates no citation that was not one before.\<close>

lemma map_citations_prefix:
  "CHR ''['' \<notin> set u \<Longrightarrow> map_citations f s = u @ r \<Longrightarrow> \<exists>r'. s = u @ r'"
proof (induction u arbitrary: s)
  case (Cons x u)
  show ?case
  proof (cases s rule: citation_cases)
    case Nil
    with Cons.prems show ?thesis by simp
  next
    case (citation n rest)
    with Cons.prems have "citation (f n) @ map_citations f rest = (x # u) @ r"
      by (simp add: map_citations_citation)
    with Cons.prems(1) show ?thesis by (simp add: citation_def)
  next
    case (char c s')
    with Cons.prems have "c = x" "map_citations f s' = u @ r" by (simp_all add: map_citations_char)
    with Cons char show ?thesis by simp
  qed
qed simp

lemma match_number_map_citations:
  assumes "match_number (c # s) = None"
  shows "match_number (c # map_citations f s) = None"
proof (rule ccontr)
  assume "match_number (c # map_citations f s) \<noteq> None"
  then obtain m r where m: "0 \<le> m" "c # map_citations f s = citation m @ r"
    by (auto simp: match_number_Some_iff)
  then have c: "c = CHR ''[''" and "map_citations f s = (str_int m @ '']'') @ r"
    by (simp_all add: citation_def)
  from map_citations_prefix [OF bracket_free_number this(2)] obtain r' where "s = (str_int m @ '']'') @ r'" ..
  with c m(1) have "match_number (c # s) = Some (m, r')"
    using match_number_citation [of m r'] by (simp add: citation_def)
  with assms show False by simp
qed

lemma map_citations_comp:
  assumes "\<And>n. 0 \<le> n \<Longrightarrow> 0 \<le> f n"
  shows "map_citations g (map_citations f s) = map_citations (g \<circ> f) s"
proof (induction s rule: citation_induct)
  case (citation n s)
  then show ?case using assms by (simp add: map_citations_citation)
next
  case (char c s)
  then show ?case by (simp add: map_citations_char match_number_map_citations)
qed simp

lemma map_citations_cong:
  assumes "\<And>n. 0 \<le> n \<Longrightarrow> f n = g n"
  shows "map_citations f s = map_citations g s"
proof (induction s rule: citation_induct)
  case (citation n s)
  then show ?case using assms by (simp add: map_citations_citation)
next
  case (char c s)
  then show ?case by (simp add: map_citations_char)
qed simp

lemma map_citations_id: "map_citations (\<lambda>n. n) s = s"
proof (induction s rule: citation_induct)
  case (citation n s)
  then show ?case by (simp add: map_citations_citation)
next
  case (char c s)
  then show ?case by (simp add: map_citations_char)
qed simp

text \<open>
  Going from the highest number to the lowest is the simultaneous renumbering when no number
  becomes smaller.
\<close>

lemma descending_replacement:
  assumes "sorted_wrt (>) ns" and "\<And>n. n \<in> set ns \<Longrightarrow> 0 \<le> n \<and> n \<le> r n"
  shows "fold (\<lambda>n. str_replace (citation n) (citation (r n))) ns s
       = map_citations (\<lambda>m. if m \<in> set ns then r m else m) s"
  using assms
proof (induction ns arbitrary: s)
  case Nil
  then show ?case by (simp add: map_citations_id)
next
  case (Cons n ns)
  let ?F = "\<lambda>m. if m \<in> set ns then r m else m"
  have n: "0 \<le> n" "n \<le> r n" using Cons.prems(2) by simp_all
  have out: "r n \<notin> set ns" using Cons.prems(1) n by fastforce
  have "fold (\<lambda>n. str_replace (citation n) (citation (r n))) (n # ns) s
      = map_citations ?F (map_citations (id(n := r n)) s)"
    using Cons n by (simp add: replace_eq_map_citations)
  also have "\<dots> = map_citations (?F \<circ> id(n := r n)) s" using n by (intro map_citations_comp) simp
  also have "\<dots> = map_citations (\<lambda>m. if m \<in> set (n # ns) then r m else m) s"
    using out by (intro arg_cong2 [where f = map_citations]) auto
  finally show ?case .
qed

subsection \<open>The numbers of a reference map\<close>

lemma fold_dict_set:
  "distinct (map fst (d @ kvs)) \<Longrightarrow> fold (\<lambda>(k, v). dict_set k v) kvs d = d @ kvs"
proof (induction kvs arbitrary: d)
  case (Cons e kvs)
  then have "fst e \<notin> fst ` set d" by auto
  with Cons show ?case by (simp add: case_prod_beta dict_set_new)
qed simp

lemma sorted_rank:
  fixes xs :: "'a::linorder list"
  assumes s: "sorted xs" and d: "distinct xs" and "i < length xs"
  shows "card {q \<in> set xs. q \<le> xs ! i} = Suc i"
proof -
  have t: "set (take (Suc i) xs) = (!) xs ` {0..<Suc i}" using nth_image [of "Suc i" xs] assms(3) by simp
  have "{q \<in> set xs. q \<le> xs ! i} = set (take (Suc i) xs)"
  proof (intro set_eqI iffI)
    fix q
    assume "q \<in> {q \<in> set xs. q \<le> xs ! i}"
    then obtain j where j: "j < length xs" "xs ! j = q" "xs ! j \<le> xs ! i" by (auto simp: in_set_conv_nth)
    have "j \<le> i"
    proof (rule ccontr)
      assume "\<not> j \<le> i"
      then have "xs ! i \<le> xs ! j" using s j(1) by (simp add: sorted_nth_mono)
      with j(3) d \<open>\<not> j \<le> i\<close> j(1) assms(3) show False by (simp add: nth_eq_iff_index_eq)
    qed
    with j t show "q \<in> set (take (Suc i) xs)" by auto
  next
    fix q
    assume "q \<in> set (take (Suc i) xs)"
    then have "q \<in> (!) xs ` {0..<Suc i}" by (simp only: t)
    then obtain j where j: "q = xs ! j" "j \<in> {0..<Suc i}" by (rule imageE)
    then have "j \<le> i" by simp
    with j(1) s assms(3) show "q \<in> {q \<in> set xs. q \<le> xs ! i}" by (auto intro: sorted_nth_mono)
  qed
  then show ?thesis using d assms(3) by (simp add: distinct_card)
qed

lemma map_fst_reference_map: "map fst (build_file_reference_map cs files) = sorted_list_of_set (set (dict_keys files))"
  by (simp add: build_file_reference_map_def Let_def case_prod_beta comp_def enumerate_eq_zip)

lemma map_snd_reference_map:
  "map snd (build_file_reference_map cs files) = map int [1..<Suc (card (set (dict_keys files)))]"
  by (rule nth_equalityI)
    (simp_all add: build_file_reference_map_def Let_def nth_enumerate_eq del: upt_Suc)

lemma dict_ok_reference_map [simp]: "dict_ok (build_file_reference_map cs files)"
  by (simp add: dict_ok_def map_fst_reference_map)

lemma reference_map_eq:
  "build_file_reference_map cs files =
     map (\<lambda>p. (p, int (card {q \<in> set (dict_keys files). q \<le> p}))) (sorted_list_of_set (set (dict_keys files)))"
proof (rule nth_equalityI)
  fix i
  assume i: "i < length (build_file_reference_map cs files)"
  let ?xs = "sorted_list_of_set (set (dict_keys files))"
  have "i < length ?xs" using i by (simp add: build_file_reference_map_def Let_def)
  then show "build_file_reference_map cs files ! i
      = map (\<lambda>p. (p, int (card {q \<in> set (dict_keys files). q \<le> p}))) ?xs ! i"
    using sorted_rank [where xs = ?xs and i = i] by (simp add: build_file_reference_map_def Let_def nth_enumerate_eq)
qed (simp add: build_file_reference_map_def Let_def)

lemma dict_get_reference_map:
  "dict_get (build_file_reference_map cs files) p =
     (if p \<in> set (dict_keys files) then Some (int (card {q \<in> set (dict_keys files). q \<le> p})) else None)"
  by (simp add: reference_map_eq map_of_map_restrict restrict_map_def)

text \<open>
  The contract between the numbering of files and the remapping: numbers are positive, no two
  files share one, and a file has at least its number in every larger set of files.
\<close>

locale reference_numbering =
  fixes number :: "'m \<Rightarrow> string \<Rightarrow> int option"
    and part_of :: "'m \<Rightarrow> 'm \<Rightarrow> bool"
  assumes number_pos: "number d p = Some n \<Longrightarrow> 1 \<le> n"
    and number_inj: "number d p = Some n \<Longrightarrow> number d q = Some n \<Longrightarrow> p = q"
    and number_mono: "part_of a b \<Longrightarrow> number a p = Some n \<Longrightarrow> \<exists>k. number b p = Some k \<and> n \<le> k"
begin

definition renumber :: "'m \<Rightarrow> 'm \<Rightarrow> int \<Rightarrow> int" where
  "renumber a b n = (if \<exists>p. number a p = Some n then the (number b (THE p. number a p = Some n)) else n)"

lemma renumber_file: "part_of a b \<Longrightarrow> number a p = Some n \<Longrightarrow> number b p = Some (renumber a b n)"
proof -
  assume ab: "part_of a b" and p: "number a p = Some n"
  have "(THE p. number a p = Some n) = p" using p number_inj by blast
  then show ?thesis using number_mono [OF ab p] p by (auto simp: renumber_def)
qed

lemma renumber_other: "(\<And>p. number a p \<noteq> Some n) \<Longrightarrow> renumber a b n = n"
  by (simp add: renumber_def)

lemma renumber_ge: "part_of a b \<Longrightarrow> n \<le> renumber a b n"
  using renumber_file number_mono renumber_other by (cases "\<exists>p. number a p = Some n") fastforce+

lemma sequential_is_simultaneous:
  assumes "part_of a b" and "sorted_wrt (>) ns" and "set ns = {n. \<exists>p. number a p = Some n}"
  shows "fold (\<lambda>n. str_replace (citation n) (citation (renumber a b n))) ns s
       = map_citations (renumber a b) s"
proof -
  have "0 \<le> n \<and> n \<le> renumber a b n" if m: "n \<in> set ns" for n
    using m assms number_pos renumber_ge by fastforce
  then have "fold (\<lambda>n. str_replace (citation n) (citation (renumber a b n))) ns s
      = map_citations (\<lambda>m. if m \<in> set ns then renumber a b m else m) s"
    using assms(2) by (intro descending_replacement)
  also have "\<dots> = map_citations (renumber a b) s"
    using assms(3) renumber_other [of a _ b] by (intro arg_cong2 [where f = map_citations]) auto
  finally show ?thesis .
qed

end

definition file_number :: "(string, string) pydict \<Rightarrow> string \<Rightarrow> int option" where
  "file_number files p = dict_get (build_file_reference_map [] files) p"

lemma reference_map_any_chunks: "build_file_reference_map cs files = build_file_reference_map [] files"
  by (simp add: build_file_reference_map_def)

lemma file_number_Some_iff:
  "file_number files p = Some n \<longleftrightarrow>
     p \<in> set (dict_keys files) \<and> n = int (card {q \<in> set (dict_keys files). q \<le> p})"
  by (auto simp: file_number_def dict_get_reference_map)

lemma file_number_values: "distinct (map snd (build_file_reference_map [] files))"
  by (simp add: map_snd_reference_map distinct_map)

interpretation file_numbering: reference_numbering file_number
  "\<lambda>a b. set (dict_keys a) \<subseteq> set (dict_keys b)"
proof
  fix d :: "(string, string) pydict" and p q :: string and n :: int
  assume p: "file_number d p = Some n"
  then have "p \<in> {q \<in> set (dict_keys d). q \<le> p}" by (simp add: file_number_Some_iff)
  then have "0 < card {q \<in> set (dict_keys d). q \<le> p}" by (auto simp: card_gt_0_iff)
  then show "1 \<le> n" using p by (simp add: file_number_Some_iff)
  assume q: "file_number d q = Some n"
  from p q have "(p, n) \<in> set (build_file_reference_map [] d)" "(q, n) \<in> set (build_file_reference_map [] d)"
    by (auto simp: file_number_def dest: map_of_SomeD)
  then show "p = q" using file_number_values [of d]
    by (metis eq_snd_iff fst_conv inj_onD distinct_map)
next
  fix a b :: "(string, string) pydict" and p :: string and n :: int
  assume sub: "set (dict_keys a) \<subseteq> set (dict_keys b)" and p: "file_number a p = Some n"
  have "card {q \<in> set (dict_keys a). q \<le> p} \<le> card {q \<in> set (dict_keys b). q \<le> p}"
    using sub by (intro card_mono) auto
  with sub p show "\<exists>k. file_number b p = Some k \<and> n \<le> k" by (auto simp: file_number_Some_iff)
qed

text \<open>The number in the report of the file that has number \<open>n\<close> in the cluster; other numbers stay.\<close>

definition global_number :: "(string, string) pydict \<Rightarrow> (string, string) pydict \<Rightarrow> int \<Rightarrow> int" where
  "global_number cluster_files all_files n =
     (case find (\<lambda>p. file_number cluster_files p = Some n) (dict_keys cluster_files) of
        Some p \<Rightarrow> the (file_number all_files p)
      | None \<Rightarrow> n)"

lemma renumber_eq_global_number:
  "file_numbering.renumber cluster_files all_files = global_number cluster_files all_files"
proof
  fix n
  show "file_numbering.renumber cluster_files all_files n = global_number cluster_files all_files n"
  proof (cases "find (\<lambda>p. file_number cluster_files p = Some n) (dict_keys cluster_files)")
    case None
    then have "file_number cluster_files p \<noteq> Some n" for p
      by (auto simp: find_None_iff file_number_Some_iff)
    with None show ?thesis by (simp add: global_number_def file_numbering.renumber_other)
  next
    case (Some p)
    then have "file_number cluster_files p = Some n" by (auto simp: find_Some_iff)
    then have "(THE q. file_number cluster_files q = Some n) = p"
      using file_numbering.number_inj by blast
    with Some \<open>file_number cluster_files p = Some n\<close> show ?thesis
      by (auto simp: global_number_def file_numbering.renumber_def)
  qed
qed

lemma cluster_num_to_file_eq:
  "distinct (map snd m) \<Longrightarrow> cluster_num_to_file m = map (\<lambda>(p, n). (n, p)) m"
proof -
  assume d: "distinct (map snd m)"
  have "cluster_num_to_file m = fold (\<lambda>(k, v). dict_set k v) (map (\<lambda>(p, n). (n, p)) m) []"
    by (simp add: cluster_num_to_file_def fold_map comp_def prod.case_distrib case_prod_unfold)
  then show ?thesis using d fold_dict_set [of "[]" "map (\<lambda>(p, n). (n, p)) m"]
    by (simp add: comp_def case_prod_beta)
qed

lemma citation_remapping_eq:
  assumes d: "distinct (map snd m)" and g: "\<And>p. p \<in> fst ` set m \<Longrightarrow> dict_get g p \<noteq> None"
  shows "citation_remapping m g = map (\<lambda>(p, n). (n, the (dict_get g p))) m"
proof -
  let ?kvs = "map (\<lambda>(p, n). (n, the (dict_get g p))) m"
  have "citation_remapping m g = fold (\<lambda>(k, v). dict_set k v) ?kvs []"
    using g unfolding citation_remapping_def cluster_num_to_file_eq [OF d] fold_map
    by (intro fold_cong refl ext) (auto simp: image_iff split: option.split, force)
  then show ?thesis using d fold_dict_set [of "[]" ?kvs] by (simp add: comp_def case_prod_beta)
qed

lemma remapping_of_reference_maps:
  fixes cs cs' :: "cited_chunk list"
  assumes "set (dict_keys cluster_files) \<subseteq> set (dict_keys all_files)"
  defines "r \<equiv> citation_remapping (build_file_reference_map cs cluster_files) (build_file_reference_map cs' all_files)"
  shows "rev (sort (dict_keys r)) = rev (map int [1..<Suc (card (set (dict_keys cluster_files)))])"
    and "n \<in> set (dict_keys r) \<Longrightarrow> the (dict_get r n) = global_number cluster_files all_files n"
    and "set (dict_keys r) = {n. \<exists>p. file_number cluster_files p = Some n}"
proof -
  let ?M = "build_file_reference_map [] cluster_files" and ?G = "build_file_reference_map [] all_files"
  have g: "dict_get ?G p \<noteq> None" if m: "p \<in> fst ` set ?M" for p
  proof -
    have "p \<in> set (dict_keys cluster_files)"
      using m arg_cong [OF map_fst_reference_map [of "[]" cluster_files], of set] by simp
    then show ?thesis using assms(1) by (auto simp: dict_get_reference_map)
  qed
  have r: "r = map (\<lambda>(p, n). (n, the (dict_get ?G p))) ?M"
    unfolding r_def reference_map_any_chunks [of cs] reference_map_any_chunks [of cs']
    by (rule citation_remapping_eq [OF file_number_values g])
  then have keys: "dict_keys r = map snd ?M" by (simp add: dict_keys_def comp_def case_prod_beta)
  have "sorted (map int [1..<Suc (card (set (dict_keys cluster_files)))])"
    by (simp add: sorted_map del: upt_Suc)
  then show "rev (sort (dict_keys r)) = rev (map int [1..<Suc (card (set (dict_keys cluster_files)))])"
    by (simp only: keys map_snd_reference_map sorted_sort_id)
  show "set (dict_keys r) = {n. \<exists>p. file_number cluster_files p = Some n}"
    by (auto simp: keys file_number_def dict_get_Some_iff intro: rev_image_eqI)
  assume "n \<in> set (dict_keys r)"
  then obtain p where p: "(p, n) \<in> set ?M" by (auto simp: keys)
  then have c: "file_number cluster_files p = Some n" by (simp add: file_number_def dict_get_Some_iff)
  have "distinct (map fst r)" using file_number_values by (simp add: r comp_def case_prod_beta)
  moreover have "(n, the (dict_get ?G p)) \<in> set r" unfolding r using p by force
  ultimately have "dict_get r n = Some (the (dict_get ?G p))" by simp
  then show "the (dict_get r n) = global_number cluster_files all_files n"
    using file_numbering.renumber_file [OF assms(1) c] renumber_eq_global_number [of cluster_files all_files]
    by (simp add: file_number_def)
qed

lemma remapping_eq_simultaneous:
  assumes "set (dict_keys cluster_files) \<subseteq> set (dict_keys all_files)"
  shows "remap_cluster_citations summary (build_file_reference_map cs cluster_files)
           (build_file_reference_map cs' all_files)
       = map_citations (global_number cluster_files all_files) summary"
proof -
  let ?r = "citation_remapping (build_file_reference_map cs cluster_files) (build_file_reference_map cs' all_files)"
  note r = remapping_of_reference_maps [OF assms, where cs = cs and cs' = cs']
  let ?ns = "rev (sort (dict_keys ?r))"
  have "sorted_wrt (>) ?ns"
    unfolding r(1) by (simp add: sorted_wrt_rev sorted_wrt_map sorted_wrt_upt del: upt_Suc)
  moreover have "set ?ns = {n. \<exists>p. file_number cluster_files p = Some n}" using r(3) by simp
  ultimately have s: "fold (\<lambda>n. str_replace (citation n) (citation (global_number cluster_files all_files n))) ?ns summary
      = map_citations (global_number cluster_files all_files) summary"
    using file_numbering.sequential_is_simultaneous [OF assms]
    unfolding renumber_eq_global_number by blast
  have "fold (replace_citation ?r) ?ns summary
      = fold (\<lambda>n. str_replace (citation n) (citation (global_number cluster_files all_files n))) ?ns summary"
    using r(2) by (intro fold_cong) (auto simp: replace_citation_def)
  then show ?thesis using s by (simp add: remap_cluster_citations_def Let_def)
qed


definition sample_files :: "string list \<Rightarrow> (string, string) pydict" where
  "sample_files ps = map (\<lambda>p. (p, ''x'')) ps"


subsection \<open>The check of the numbers\<close>

text \<open>What it means that a text cites a number: it contains the digits of the number in brackets.\<close>

definition cites :: "string \<Rightarrow> string \<Rightarrow> bool" where
  "cites text ds \<longleftrightarrow>
     ds \<noteq> [] \<and> list_all is_digit ds \<and> (\<exists>before after. text = before @ ''['' @ ds @ '']'' @ after)"

lemma find_citations_Some:
  "match_citation s = Some (ds, rest) \<Longrightarrow> find_citations s = ds # find_citations rest"
  by (subst find_citations.simps) simp

lemma find_citations_None:
  "match_citation (c # s) = None \<Longrightarrow> find_citations (c # s) = find_citations s"
  by (subst find_citations.simps) simp

lemma match_citation_Nil [simp]: "match_citation [] = None"
  by (simp add: match_citation_def match_lit_def starts_with_def)

lemma find_citations_Nil [simp]: "find_citations [] = []"
  by (subst find_citations.simps) simp

lemma bracket_free_digits: "list_all is_digit ds \<Longrightarrow> CHR ''['' \<notin> set (ds @ '']'')"
  by (auto simp: list_all_iff is_digit_def)

lemma cites_skip: "CHR ''['' \<notin> set u \<Longrightarrow> cites (u @ s) ds \<longleftrightarrow> cites s ds"
proof
  assume u: "CHR ''['' \<notin> set u" and "cites (u @ s) ds"
  then obtain b a where ds: "ds \<noteq> []" "list_all is_digit ds" and "u @ s = b @ ''['' @ ds @ '']'' @ a"
    by (auto simp: cites_def)
  then obtain w where "u @ w = b \<and> s = w @ ''['' @ ds @ '']'' @ a \<or> u = b @ w \<and> w @ s = ''['' @ ds @ '']'' @ a"
    by (auto simp: append_eq_append_conv2)
  then show "cites s ds"
  proof
    assume "u @ w = b \<and> s = w @ ''['' @ ds @ '']'' @ a"
    with ds show ?thesis unfolding cites_def by blast
  next
    assume w: "u = b @ w \<and> w @ s = ''['' @ ds @ '']'' @ a"
    then have "w = []" using u by (cases w) auto
    with w have "s = [] @ ''['' @ ds @ '']'' @ a" by simp
    with ds show ?thesis unfolding cites_def by blast
  qed
next
  assume "cites s ds"
  then obtain b a where ds: "ds \<noteq> []" "list_all is_digit ds" and "s = b @ ''['' @ ds @ '']'' @ a"
    by (auto simp: cites_def)
  then have "u @ s = (u @ b) @ ''['' @ ds @ '']'' @ a" by simp
  with ds show "cites (u @ s) ds" unfolding cites_def by blast
qed

lemma cites_Cons: "cites (c # s) ds \<longleftrightarrow> (\<exists>rest. match_citation (c # s) = Some (ds, rest)) \<or> cites s ds"
proof
  assume "cites (c # s) ds"
  then obtain b a where ds: "ds \<noteq> []" "list_all is_digit ds" and eq: "c # s = b @ ''['' @ ds @ '']'' @ a"
    by (auto simp: cites_def)
  show "(\<exists>rest. match_citation (c # s) = Some (ds, rest)) \<or> cites s ds"
  proof (cases b)
    case Nil
    with eq ds have "match_citation (c # s) = Some (ds, a)" by (simp add: match_citation_Some_iff)
    then show ?thesis by blast
  next
    case (Cons x b')
    with eq have "s = b' @ ''['' @ ds @ '']'' @ a" by simp
    with ds show ?thesis unfolding cites_def by blast
  qed
next
  assume "(\<exists>rest. match_citation (c # s) = Some (ds, rest)) \<or> cites s ds"
  then show "cites (c # s) ds"
  proof
    assume "\<exists>rest. match_citation (c # s) = Some (ds, rest)"
    then obtain rest where "match_citation (c # s) = Some (ds, rest)" ..
    then have "c # s = [] @ ''['' @ ds @ '']'' @ rest" "ds \<noteq> []" "list_all is_digit ds"
      by (simp_all add: match_citation_Some_iff)
    then show ?thesis unfolding cites_def by blast
  next
    assume "cites s ds"
    then obtain b a where ds: "ds \<noteq> []" "list_all is_digit ds" and "s = b @ ''['' @ ds @ '']'' @ a"
      by (auto simp: cites_def)
    then have "c # s = (c # b) @ ''['' @ ds @ '']'' @ a" by simp
    with ds show ?thesis unfolding cites_def by blast
  qed
qed

lemma not_cites_Nil [simp]: "\<not> cites [] ds"
  by (simp add: cites_def)

lemma find_citations_iff: "ds \<in> set (find_citations s) \<longleftrightarrow> cites s ds"
proof (induction s rule: find_citations.induct)
  case (1 s)
  show ?case
  proof (cases "match_citation s")
    case (Some p)
    then obtain es rest where m: "match_citation s = Some (es, rest)" by (cases p) auto
    then have s: "s = CHR ''['' # (es @ '']'') @ rest" "list_all is_digit es"
      by (auto simp: match_citation_Some_iff)
    have "cites s ds \<longleftrightarrow> ds = es \<or> cites ((es @ '']'') @ rest) ds"
      using m cites_Cons [of "CHR ''[''" "(es @ '']'') @ rest" ds] unfolding s(1) [symmetric] by auto
    then show ?thesis
      using 1(2) [OF m refl] cites_skip [OF bracket_free_digits [OF s(2)]] by (auto simp: find_citations_Some [OF m])
  next
    case None
    then show ?thesis using 1(1) by (cases s) (simp_all add: find_citations_None cites_Cons)
  qed
qed

lemma file_number_range:
  assumes "file_number files p = Some n"
  shows "n \<in> {1..int (card (set (dict_keys files)))}"
proof -
  have "card {q \<in> set (dict_keys files). q \<le> p} \<le> card (set (dict_keys files))"
    by (intro card_mono) auto
  moreover have "1 \<le> n" using assms by (rule file_numbering.number_pos)
  ultimately show ?thesis using assms by (simp add: file_number_Some_iff)
qed

lemma reference_map_values:
  "set (dict_values (build_file_reference_map cs files)) = {1..int (card (set (dict_keys files)))}"
proof -
  have "set (dict_values (build_file_reference_map cs files)) = int ` {1..card (set (dict_keys files))}"
    by (simp add: dict_values_def map_snd_reference_map atLeastLessThanSuc_atLeastAtMost del: upt_Suc)
  then show ?thesis by (simp add: image_int_atLeastAtMost)
qed

text \<open>
  The check of a text against the numbering of a set of files returns, in increasing order and
  once each, exactly the numbers that stand as digits between brackets somewhere in the text and
  are not between 1 and the number of files.
\<close>

theorem validation_exact:
  "sorted (validate_citation_references text (build_file_reference_map cs files))
   \<and> distinct (validate_citation_references text (build_file_reference_map cs files))
   \<and> set (validate_citation_references text (build_file_reference_map cs files))
       = digits_int ` {ds. cites text ds} - {1..int (card (set (dict_keys files)))}"
  by (auto simp: validate_citation_references_def Let_def reference_map_values find_citations_iff)

text \<open>Remapping and the check.\<close>

lemma map_citations_skip: "CHR ''['' \<notin> set u \<Longrightarrow> map_citations f (u @ s) = u @ map_citations f s"
  by (induction u) (auto simp: map_citations_char match_number_no_bracket)

lemma match_citation_map_citations:
  assumes "match_citation (c # s) = None"
  shows "match_citation (c # map_citations f s) = None"
proof (rule ccontr)
  assume "match_citation (c # map_citations f s) \<noteq> None"
  then obtain ds r where ds: "ds \<noteq> []" "list_all is_digit ds"
    and m: "c # map_citations f s = ''['' @ ds @ '']'' @ r"
    by (auto simp: match_citation_Some_iff)
  then have "map_citations f s = (ds @ '']'') @ r" by simp
  from map_citations_prefix [OF bracket_free_digits [OF ds(2)] this] obtain r' where "s = (ds @ '']'') @ r'" ..
  with m ds have "match_citation (c # s) = Some (ds, r')" by (simp add: match_citation_Some_iff)
  with assms show False by simp
qed

definition renumber_digits :: "(int \<Rightarrow> int) \<Rightarrow> string \<Rightarrow> string" where
  "renumber_digits f ds = (if ds = str_int (digits_int ds) then str_int (f (digits_int ds)) else ds)"

lemma find_citations_map:
  assumes f: "\<And>n. 0 \<le> n \<Longrightarrow> 0 \<le> f n"
  shows "find_citations (map_citations f s) = map (renumber_digits f) (find_citations s)"
proof (induction s rule: find_citations.induct)
  case (1 s)
  show ?case
  proof (cases "match_citation s")
    case (Some p)
    then obtain ds rest where m: "match_citation s = Some (ds, rest)" by (cases p) auto
    then have s: "s = CHR ''['' # (ds @ '']'') @ rest" "list_all is_digit ds" "ds \<noteq> []"
      by (auto simp: match_citation_Some_iff)
    have rec: "find_citations (map_citations f rest) = map (renumber_digits f) (find_citations rest)"
      using 1(2) [OF m refl] .
    show ?thesis
    proof (cases "ds = str_int (digits_int ds)")
      case True
      let ?n = "digits_int ds"
      have n: "0 \<le> ?n" using s(2) True list_all_digit_str_int by metis
      have "match_citation (citation (f ?n) @ map_citations f rest) = Some (str_int (f ?n), map_citations f rest)"
        using list_all_digit_str_int f [OF n] by (simp add: match_citation_Some_iff citation_def)
      moreover have "map_citations f s = citation (f ?n) @ map_citations f rest"
        using s(1) True map_citations_citation [OF n, of f rest] by (simp add: citation_def)
      ultimately have "find_citations (map_citations f s) = str_int (f ?n) # find_citations (map_citations f rest)"
        by (simp add: find_citations_Some)
      moreover have "renumber_digits f ds = str_int (f ?n)" using True by (simp add: renumber_digits_def)
      ultimately show ?thesis using rec by (simp add: find_citations_Some [OF m])
    next
      case False
      then have "match_number s = None" using m by (simp add: match_number_def)
      then have "map_citations f s = CHR ''['' # (ds @ '']'') @ map_citations f rest"
        unfolding s(1) using map_citations_skip [OF bracket_free_digits [OF s(2)], of f rest]
        by (simp add: map_citations_char)
      then have "match_citation (map_citations f s) = Some (ds, map_citations f rest)"
        using s by (simp add: match_citation_Some_iff)
      then show ?thesis using rec False by (simp add: find_citations_Some [OF m] find_citations_Some renumber_digits_def)
    qed
  next
    case None
    then show ?thesis
    proof (cases s)
      case (Cons c s')
      then have n: "match_number (c # s') = None" using None by (simp add: match_number_def)
      have "match_citation (c # map_citations f s') = None"
        using None Cons match_citation_map_citations by simp
      then show ?thesis using 1(1) [OF None] Cons None n by (simp add: map_citations_char find_citations_None)
    qed simp
  qed
qed

text \<open>
  Remapping makes no citation invalid: every number the check rejects in the remapped summary
  against the files of the report was already rejected in the summary against the files of the cluster.
\<close>

theorem remapped_citations_stay_valid:
  assumes "set (dict_keys cluster_files) \<subseteq> set (dict_keys all_files)"
    and "n \<in> set (validate_citation_references
           (remap_cluster_citations summary (build_file_reference_map cs cluster_files)
              (build_file_reference_map cs' all_files))
           (build_file_reference_map cs' all_files))"
  shows "n \<in> set (validate_citation_references summary (build_file_reference_map cs cluster_files))"
proof -
  let ?c = "card (set (dict_keys cluster_files))" and ?g = "card (set (dict_keys all_files))"
  let ?f = "global_number cluster_files all_files"
  have card: "?c \<le> ?g" using assms(1) by (simp add: card_mono)
  have f: "0 \<le> ?f m" if m: "0 \<le> m" for m
    using m file_numbering.renumber_ge [OF assms(1), of m] by (simp add: renumber_eq_global_number)
  have "find_citations (map_citations ?f summary) = map (renumber_digits ?f) (find_citations summary)"
    using f by (rule find_citations_map)
  then obtain ds where ds: "ds \<in> set (find_citations summary)" "n = digits_int (renumber_digits ?f ds)"
    and n: "n \<notin> {1..int ?g}"
    using assms(2) unfolding remapping_eq_simultaneous [OF assms(1)]
    by (auto simp: validate_citation_references_def Let_def reference_map_values)
  show ?thesis
  proof (cases "\<exists>p. file_number cluster_files p = Some (digits_int ds)")
    case True
    then obtain p where p: "file_number cluster_files p = Some (digits_int ds)" ..
    then have "file_number all_files p = Some (?f (digits_int ds))"
      using file_numbering.renumber_file [OF assms(1)] by (simp add: renumber_eq_global_number)
    then have g: "?f (digits_int ds) \<in> {1..int ?g}" by (rule file_number_range)
    from p have "digits_int ds \<in> {1..int ?c}" by (rule file_number_range)
    with card g n ds show ?thesis by (auto simp: renumber_digits_def split: if_splits)
  next
    case False
    then have "?f (digits_int ds) = digits_int ds"
      using file_numbering.renumber_other [of cluster_files "digits_int ds" all_files]
      by (simp add: renumber_eq_global_number)
    then have "n = digits_int ds" using ds(2) by (simp add: renumber_digits_def)
    with card n ds(1) show ?thesis
      by (auto simp: validate_citation_references_def Let_def reference_map_values)
  qed
qed

lemma remapped_citations_stay_valid_witness:
  "3 \<in> set (validate_citation_references ''[3]'' (build_file_reference_map [] (sample_files [''b''])))"
proof (rule remapped_citations_stay_valid)
  show "set (dict_keys (sample_files [''b''])) \<subseteq> set (dict_keys (sample_files [''a'', ''b'']))"
    by (simp add: sample_files_def dict_keys_def)
  show "3 \<in> set (validate_citation_references
      (remap_cluster_citations ''[3]'' (build_file_reference_map [] (sample_files [''b'']))
        (build_file_reference_map [] (sample_files [''a'', ''b''])))
      (build_file_reference_map [] (sample_files [''a'', ''b''])))"
    by code_simp
qed

text \<open>
  A number that the cluster does not have stays in the text and can become the number of a file of
  the report: the check, which runs on the combined text only, then accepts a citation of a file
  the summary never saw.
\<close>

lemma unknown_number_becomes_valid:
  "validate_citation_references ''[2]'' (build_file_reference_map [] (sample_files [''b''])) = [2]
   \<and> validate_citation_references
       (remap_cluster_citations ''[2]'' (build_file_reference_map [] (sample_files [''b'']))
         (build_file_reference_map [] (sample_files [''b'', ''c''])))
       (build_file_reference_map [] (sample_files [''b'', ''c''])) = []"
  by code_simp

text \<open>A number with a leading zero passes the check and is not remapped.\<close>

lemma leading_zero_not_remapped:
  "validate_citation_references ''[01]'' (build_file_reference_map [] (sample_files [''b''])) = []
   \<and> remap_cluster_citations ''[01]'' (build_file_reference_map [] (sample_files [''b'']))
       (build_file_reference_map [] (sample_files [''a'', ''b''])) = ''[01]''
   \<and> global_number (sample_files [''b'']) (sample_files [''a'', ''b'']) 1 = 2"
  by code_simp

subsection \<open>The tree of sources\<close>

text \<open>Whether the node that a list of path parts leads to is a file.\<close>

fun is_file_at :: "string list \<Rightarrow> tree_node \<Rightarrow> bool" where
  "is_file_at [] node = tn_is_file node"
| "is_file_at (p # ps) node = (case dict_get (tn_children node) p of None \<Rightarrow> False | Some c \<Rightarrow> is_file_at ps c)"

lemma is_file_at_new: "\<not> is_file_at qs (TreeNode part [] False full)"
  by (cases qs) auto

lemma is_file_at_insert:
  "is_file_at qs (insert_parts path ps node) \<longleftrightarrow> qs = ps \<or> is_file_at qs node"
proof (induction path ps node arbitrary: qs rule: insert_parts.induct)
  case (1 path name cs is_file full)
  then show ?case by (cases qs) auto
next
  case (2 path part parts name cs is_file full)
  then show ?case by (cases qs) (auto simp: Let_def is_file_at_new split: option.splits)
qed

lemma source_tree_files:
  "is_file_at qs (build_source_tree files) \<longleftrightarrow> qs \<in> split_on CHR ''/'' ` set (dict_keys files)"
proof -
  have "is_file_at qs (fold (\<lambda>p t. insert_parts [] (split_on CHR ''/'' p) t) ps node)
      \<longleftrightarrow> qs \<in> split_on CHR ''/'' ` set ps \<or> is_file_at qs node" for ps node
    by (induction ps arbitrary: node) (auto simp: is_file_at_insert)
  then show ?thesis by (simp add: build_source_tree_def is_file_at_new)
qed

end
