(* ===== verification/Caches.thy ===== *)
theory Caches
  imports Py_Float File_Patterns
begin

text \<open>
  The two least-recently-used caches of the program: \<open>TreeCache\<close> (\<open>tree_cache.py\<close>), which keeps
  syntax trees of files, with its client \<open>parse_incremental\<close> (\<open>parser.py\<close>), and
  \<open>FileDiscoveryCache\<close> (\<open>file_discovery_cache.py\<close>), which keeps the results of glob searches.  An
  \<open>OrderedDict\<close> is an ordered dictionary of the prelude whose first entry is the least recently
  used one.

  The file system and the clock are read through the record \<open>world\<close>, an argument of every
  operation.  Times are Python floats, the rational numbers of \<open>Py_Float\<close>.
\<close>

record world =
  stat_of :: "string \<Rightarrow> (rat \<times> int) option"
  resolved :: "string \<Rightarrow> string"
  time_now :: rat

subsection \<open>The contract of the caches\<close>

fun run_steps :: "('o \<Rightarrow> 's \<Rightarrow> 's option) \<Rightarrow> 'o list \<Rightarrow> 's \<Rightarrow> 's option" where
  "run_steps step [] s = Some s"
| "run_steps step (op # ops) s = Option.bind (step op s) (run_steps step ops)"

lemma run_steps_append: "run_steps step (xs @ ys) s = Option.bind (run_steps step xs s) (run_steps step ys)"
  by (induction xs arbitrary: s) (auto split: Option.bind_split)

text \<open>
  A step of a cache either writes one key or none.  What a lookup finds after a step is what the
  step wrote, or what was found before under a key the step neither wrote nor removed.
\<close>

locale evicting_cache =
  fixes invar :: "'s \<Rightarrow> bool"
    and lookup :: "'s \<Rightarrow> 'k \<Rightarrow> 'v option"
    and step :: "'o \<Rightarrow> 's \<Rightarrow> 's option"
    and writes :: "'o \<Rightarrow> 's \<Rightarrow> ('k \<times> 'v) option"
    and removes :: "'o \<Rightarrow> 'k \<Rightarrow> bool"
  assumes invar_step: "invar s \<Longrightarrow> step op s = Some s' \<Longrightarrow> invar s'"
    and lookup_step:
    "invar s \<Longrightarrow> step op s = Some s' \<Longrightarrow> lookup s' k = Some v \<Longrightarrow>
       writes op s = Some (k, v) \<or> lookup s k = Some v \<and> \<not> removes op k \<and> (\<forall>x. writes op s \<noteq> Some (k, x))"
begin

lemma run_steps_invar: "invar s \<Longrightarrow> run_steps step ops s = Some s' \<Longrightarrow> invar s'"
  by (induction ops arbitrary: s) (auto simp: bind_eq_Some_conv dest: invar_step)

text \<open>What a cache that was empty holds is the last thing written under the key, not removed since.\<close>

lemma found_was_last_written:
  assumes "run_steps step ops s = Some s'" and "invar s" and "\<And>k. lookup s k = None" and "lookup s' k = Some v"
  shows "\<exists>before op after t. ops = before @ op # after \<and> run_steps step before s = Some t
     \<and> writes op t = Some (k, v)
     \<and> (\<forall>a o' b u. after = a @ o' # b \<longrightarrow> run_steps step (before @ op # a) s = Some u
          \<longrightarrow> \<not> removes o' k \<and> (\<forall>x. writes o' u \<noteq> Some (k, x)))"
  using assms(1,4)
proof (induction ops arbitrary: s' rule: rev_induct)
  case Nil
  then show ?case using assms(3) by simp
next
  case (snoc op ops)
  then obtain t where t: "run_steps step ops s = Some t" "step op t = Some s'"
    by (auto simp: run_steps_append bind_eq_Some_conv)
  show ?case
  proof (cases "writes op t = Some (k, v)")
    case True
    then show ?thesis using t(1)
      by (intro exI [of _ ops] exI [of _ op] exI [of _ "[]"] exI [of _ t]) simp
  next
    case False
    then have old: "lookup t k = Some v" "\<not> removes op k" "\<forall>x. writes op t \<noteq> Some (k, x)"
      using lookup_step [OF run_steps_invar [OF assms(2) t(1)] t(2) snoc.prems(2)] by auto
    from snoc.IH [OF t(1) old(1)] obtain before o1 after t1 where
      IH: "ops = before @ o1 # after" "run_steps step before s = Some t1" "writes o1 t1 = Some (k, v)"
      "\<forall>a o' b u. after = a @ o' # b \<longrightarrow> run_steps step (before @ o1 # a) s = Some u
          \<longrightarrow> \<not> removes o' k \<and> (\<forall>x. writes o' u \<noteq> Some (k, x))" by blast
    have "\<not> removes o' k \<and> (\<forall>x. writes o' u \<noteq> Some (k, x))"
      if m: "after @ [op] = a @ o' # b" "run_steps step (before @ o1 # a) s = Some u" for a o' b u
    proof (cases b rule: rev_cases)
      case Nil
      with m IH(1) t(1) have "o' = op" "u = t" by auto
      with old show ?thesis by simp
    next
      case (snoc b' y)
      with m IH(4) show ?thesis by auto
    qed
    with IH show ?thesis
      by (intro exI [of _ before] exI [of _ o1] exI [of _ "after @ [op]"] exI [of _ t1]) auto
  qed
qed

end

subsection \<open>The tree cache\<close>

record 't tree_entry =
  te_tree :: 't
  te_file_path :: string
  te_mtime :: rat
  te_size :: int
  te_access_time :: rat
  te_hit_count :: int

record 't tree_cache =
  max_entries :: int
  max_memory_bytes :: int
  tc_cache :: "(string, 't tree_entry) pydict"
  tc_hits :: int
  tc_misses :: int
  tc_evictions :: int
  tc_invalidations :: int

definition new_tree_cache :: "int \<Rightarrow> int \<Rightarrow> 't tree_cache" where
  "new_tree_cache max_ents max_memory_mb =
     \<lparr>max_entries = max_ents, max_memory_bytes = max_memory_mb * 1024 * 1024, tc_cache = [],
      tc_hits = 0, tc_misses = 0, tc_evictions = 0, tc_invalidations = 0\<rparr>"

definition new_tree_entry :: "world \<Rightarrow> 't \<Rightarrow> string \<Rightarrow> rat \<Rightarrow> int \<Rightarrow> 't tree_entry" where
  "new_tree_entry w tree file_path mtime sz =
     \<lparr>te_tree = tree, te_file_path = file_path, te_mtime = mtime, te_size = sz,
      te_access_time = time_now w, te_hit_count = 0\<rparr>"

definition entry_is_valid :: "world \<Rightarrow> 't tree_entry \<Rightarrow> bool" where
  "entry_is_valid w entry =
     (case stat_of w (te_file_path entry) of
        None \<Rightarrow> False
      | Some (mtime, sz) \<Rightarrow> mtime = te_mtime entry \<and> sz = te_size entry)"

definition touch_entry :: "world \<Rightarrow> 't tree_entry \<Rightarrow> 't tree_entry" where
  "touch_entry w entry = entry\<lparr>te_access_time := time_now w, te_hit_count := te_hit_count entry + 1\<rparr>"

definition tree_get :: "world \<Rightarrow> string \<Rightarrow> 't tree_cache \<Rightarrow> 't option \<times> 't tree_cache" where
  "tree_get w file_path st =
     (let cache_key = resolved w file_path in
      case dict_get (tc_cache st) cache_key of
        None \<Rightarrow> (None, st\<lparr>tc_misses := tc_misses st + 1\<rparr>)
      | Some entry \<Rightarrow>
          if \<not> entry_is_valid w entry
          then (None, st\<lparr>tc_cache := dict_del cache_key (tc_cache st),
                         tc_invalidations := tc_invalidations st + 1, tc_misses := tc_misses st + 1\<rparr>)
          else (Some (te_tree entry),
                st\<lparr>tc_cache := dict_set cache_key (touch_entry w entry) (dict_move_to_end cache_key (tc_cache st)),
                   tc_hits := tc_hits st + 1\<rparr>))"

definition tree_get_for_comparison :: "world \<Rightarrow> string \<Rightarrow> 't tree_cache \<Rightarrow> 't option \<times> 't tree_cache" where
  "tree_get_for_comparison w file_path st =
     (case dict_get (tc_cache st) (resolved w file_path) of
        None \<Rightarrow> (None, st\<lparr>tc_misses := tc_misses st + 1\<rparr>)
      | Some entry \<Rightarrow> (Some (te_tree entry), st))"

definition evict_lru :: "'t tree_cache \<Rightarrow> 't tree_entry option \<times> 't tree_cache" where
  "evict_lru st =
     (case tc_cache st of
        [] \<Rightarrow> (None, st)
      | (cache_key, entry) # rest \<Rightarrow>
          (Some entry, st\<lparr>tc_cache := rest, tc_evictions := tc_evictions st + 1\<rparr>))"

text \<open>
  The two loops of \<open>_enforce_limits\<close>.  The first one does not look at whether anything was
  evicted; \<open>None\<close> is a loop that does not end.
\<close>

partial_function (option) evict_entries :: "'t tree_cache \<Rightarrow> 't tree_cache option" where
  "evict_entries st =
     (if max_entries st < int (length (tc_cache st)) then evict_entries (snd (evict_lru st)) else Some st)"

definition estimated_memory :: "'t tree_cache \<Rightarrow> int" where
  "estimated_memory st = sum_list (map te_size (dict_values (tc_cache st)))"

function evict_memory :: "int \<Rightarrow> 't tree_cache \<Rightarrow> 't tree_cache" where
  "evict_memory estimated st =
     (if max_memory_bytes st < estimated \<and> tc_cache st \<noteq> []
      then (case evict_lru st of
              (Some evicted_entry, st1) \<Rightarrow> evict_memory (estimated - te_size evicted_entry) st1
            | (None, st1) \<Rightarrow> evict_memory estimated st1)
      else st)"
  by pat_completeness auto
termination
  by (relation "measure (\<lambda>(e, st). length (tc_cache st))") (auto simp: evict_lru_def split: list.splits)

declare evict_memory.simps [simp del]

definition enforce_limits :: "'t tree_cache \<Rightarrow> 't tree_cache option" where
  "enforce_limits st =
     Option.bind (evict_entries st) (\<lambda>st1. Some (evict_memory (estimated_memory st1) st1))"

definition tree_put :: "world \<Rightarrow> string \<Rightarrow> 't option \<Rightarrow> 't tree_cache \<Rightarrow> 't tree_cache option" where
  "tree_put w file_path tree st =
     (case tree of
        None \<Rightarrow> Some st
      | Some t \<Rightarrow>
          (let cache_key = resolved w file_path in
           case stat_of w file_path of
             None \<Rightarrow> Some st
           | Some (mtime, sz) \<Rightarrow>
               let entry = new_tree_entry w t file_path mtime sz;
                   d = dict_del cache_key (tc_cache st)
               in enforce_limits (st\<lparr>tc_cache := dict_set cache_key entry d\<rparr>)))"

definition tree_invalidate :: "world \<Rightarrow> string \<Rightarrow> 't tree_cache \<Rightarrow> bool \<times> 't tree_cache" where
  "tree_invalidate w file_path st =
     (let cache_key = resolved w file_path in
      if cache_key \<in> set (dict_keys (tc_cache st))
      then (True, st\<lparr>tc_cache := dict_del cache_key (tc_cache st), tc_invalidations := tc_invalidations st + 1\<rparr>)
      else (False, st))"

definition tree_clear :: "'t tree_cache \<Rightarrow> 't tree_cache" where
  "tree_clear st = st\<lparr>tc_cache := []\<rparr>"

definition cleanup_stale_entries :: "world \<Rightarrow> 't tree_cache \<Rightarrow> int \<times> 't tree_cache" where
  "cleanup_stale_entries w st =
     (let stale_keys = map fst (filter (\<lambda>(k, entry). \<not> entry_is_valid w entry) (tc_cache st))
      in (int (length stale_keys),
          fold (\<lambda>key s. s\<lparr>tc_cache := dict_del key (tc_cache s), tc_invalidations := tc_invalidations s + 1\<rparr>)
            stale_keys st))"

text \<open>
  The client \<open>parse_incremental\<close>.  The file may change between the calls: \<open>w0\<close> is the world in
  which the source is read, \<open>w1\<close> that of the lookup and \<open>w2\<close> that of the storing.  Reading and
  parsing are arguments; no cache means no argument \<open>st\<close>.
\<close>

definition parse_incremental ::
  "(string \<Rightarrow> string option) \<Rightarrow> (string \<Rightarrow> string \<Rightarrow> 't option) \<Rightarrow> world \<Rightarrow> world \<Rightarrow> string \<Rightarrow> string option
    \<Rightarrow> 't tree_cache option \<Rightarrow> ('t option \<times> 't tree_cache option) option" where
  "parse_incremental read_file parse w1 w2 file_path source_code cache =
     (case (case source_code of None \<Rightarrow> read_file file_path | Some s \<Rightarrow> Some s) of
        None \<Rightarrow> Some (None, cache)
      | Some src \<Rightarrow>
          (case cache of
             None \<Rightarrow> Some (parse file_path src, None)
           | Some st \<Rightarrow>
               (case tree_get w1 file_path st of
                  (Some cached_tree, st1) \<Rightarrow> Some (Some cached_tree, Some st1)
                | (None, st1) \<Rightarrow>
                    (case parse file_path src of
                       None \<Rightarrow> Some (None, Some st1)
                     | Some tree \<Rightarrow>
                         Option.bind (tree_put w2 file_path (Some tree) st1)
                           (\<lambda>st2. Some (Some tree, Some st2))))))"

subsection \<open>Eviction\<close>

text \<open>The state after the \<open>k\<close> least recently used entries were evicted, and when a list of entries fits.\<close>

definition evicted :: "nat \<Rightarrow> 't tree_cache \<Rightarrow> 't tree_cache" where
  "evicted k st = st\<lparr>tc_cache := drop k (tc_cache st), tc_evictions := tc_evictions st + int k\<rparr>"

definition memory_of :: "(string, 't tree_entry) pydict \<Rightarrow> int" where
  "memory_of d = sum_list (map (te_size \<circ> snd) d)"

definition fits_limits :: "'t tree_cache \<Rightarrow> (string, 't tree_entry) pydict \<Rightarrow> bool" where
  "fits_limits st d \<longleftrightarrow> int (length d) \<le> max_entries st \<and> memory_of d \<le> max_memory_bytes st"

lemma evicted_simps [simp]:
  "tc_cache (evicted k st) = drop k (tc_cache st)"
  "max_entries (evicted k st) = max_entries st"
  "max_memory_bytes (evicted k st) = max_memory_bytes st"
  "fits_limits (evicted k st) = fits_limits st"
  "evicted 0 st = st"
  by (simp_all add: evicted_def fits_limits_def fun_eq_iff)

lemma evicted_evicted [simp]: "evicted j (evicted k st) = evicted (k + j) st"
  by (simp add: evicted_def add.commute)

lemma evict_lru_Cons:
  "tc_cache st = e # rest \<Longrightarrow> evict_lru st = (Some (snd e), evicted 1 st)"
  by (cases e) (simp add: evict_lru_def evicted_def)

lemma evict_entries_stop: "\<not> max_entries st < int (length (tc_cache st)) \<Longrightarrow> evict_entries st = Some st"
  by (subst evict_entries.simps) (simp only: if_False)

lemma evict_entries_step:
  "tc_cache st = e # rest \<Longrightarrow> max_entries st < int (length (tc_cache st)) \<Longrightarrow>
   evict_entries st = evict_entries (evicted 1 st)"
  by (subst evict_entries.simps) (simp only: evict_lru_Cons snd_conv if_True)

lemma evict_entries_eq:
  "0 \<le> max_entries st \<Longrightarrow> evict_entries st = Some (evicted (length (tc_cache st) - nat (max_entries st)) st)"
proof (induction "length (tc_cache st)" arbitrary: st)
  case 0
  then have "\<not> max_entries st < int (length (tc_cache st))" by simp
  with 0 show ?case by (simp add: evict_entries_stop)
next
  case (Suc n)
  then obtain e rest where c: "tc_cache st = e # rest" by (cases "tc_cache st") auto
  show ?case
  proof (cases "max_entries st < int (length (tc_cache st))")
    case True
    then have "evict_entries st = evict_entries (evicted 1 st)" using c by (simp add: evict_entries_step)
    also have "\<dots> = Some (evicted (length (tc_cache (evicted 1 st)) - nat (max_entries (evicted 1 st))) (evicted 1 st))"
      using Suc.hyps(2) Suc.prems by (intro Suc.hyps(1)) simp_all
    finally have "evict_entries st = Some (evicted (1 + (length rest - nat (max_entries st))) st)"
      using c by simp
    moreover have "1 + (length rest - nat (max_entries st)) = length (tc_cache st) - nat (max_entries st)"
      using True Suc.prems c by simp
    ultimately show ?thesis by simp
  next
    case False
    then show ?thesis by (simp add: evict_entries_stop)
  qed
qed

text \<open>A negative limit is never reached: the loop goes on with the empty cache.\<close>

lemma evict_entries_partial:
  assumes "evict_entries st = Some r"
  shows "int (length (tc_cache r)) \<le> max_entries r \<and> max_entries r = max_entries st"
proof (rule evict_entries.raw_induct [OF _ assms])
  fix ev and st r :: "'a tree_cache"
  assume rec: "\<And>st r. ev st = Some r \<Longrightarrow> int (length (tc_cache r)) \<le> max_entries r \<and> max_entries r = max_entries st"
    and run: "(if max_entries st < int (length (tc_cache st)) then ev (snd (evict_lru st)) else Some st) = Some r"
  show "int (length (tc_cache r)) \<le> max_entries r \<and> max_entries r = max_entries st"
  proof (cases "max_entries st < int (length (tc_cache st))")
    case True
    then have "ev (snd (evict_lru st)) = Some r" using run by simp
    from rec [OF this] show ?thesis by (simp add: evict_lru_def split: list.splits prod.splits)
  next
    case False
    then show ?thesis using run by simp
  qed
qed

lemma evict_entries_negative: "max_entries st < 0 \<Longrightarrow> evict_entries st = None"
  using evict_entries_partial by (metis dual_order.strict_trans2 not_None_eq of_nat_0_le_iff order_less_irrefl)

lemma evict_memory_stop:
  "\<not> (max_memory_bytes st < estimated \<and> tc_cache st \<noteq> []) \<Longrightarrow> evict_memory estimated st = st"
  by (subst evict_memory.simps) (simp only: if_False)

lemma evict_memory_step:
  "tc_cache st = e # rest \<Longrightarrow> max_memory_bytes st < estimated \<Longrightarrow>
   evict_memory estimated st = evict_memory (estimated - te_size (snd e)) (evicted 1 st)"
  by (subst evict_memory.simps) (simp add: evict_lru_Cons)

lemma evict_memory_eq:
  "estimated = memory_of (tc_cache st) \<Longrightarrow>
   \<exists>k\<le>length (tc_cache st). evict_memory estimated st = evicted k st
     \<and> (memory_of (drop k (tc_cache st)) \<le> max_memory_bytes st \<or> k = length (tc_cache st))
     \<and> (\<forall>j<k. max_memory_bytes st < memory_of (drop j (tc_cache st)))"
proof (induction "length (tc_cache st)" arbitrary: st estimated)
  case 0
  then show ?case by (auto simp: evict_memory_stop)
next
  case (Suc n)
  then obtain e rest where c: "tc_cache st = e # rest" by (cases "tc_cache st") auto
  show ?case
  proof (cases "max_memory_bytes st < estimated")
    case True
    let ?st = "evicted 1 st"
    have rest: "tc_cache ?st = rest" using c by simp
    have n: "n = length (tc_cache ?st)" using Suc.hyps(2) c rest by simp
    have est: "estimated - te_size (snd e) = memory_of (tc_cache ?st)"
      unfolding rest using Suc.prems by (simp add: c memory_of_def)
    from Suc.hyps(1) [OF n est] obtain k where k: "k \<le> length rest"
      "evict_memory (estimated - te_size (snd e)) ?st = evicted k ?st"
      "memory_of (drop k rest) \<le> max_memory_bytes st \<or> k = length rest"
      "\<forall>j<k. max_memory_bytes st < memory_of (drop j rest)" unfolding rest by auto
    have "evict_memory estimated st = evicted (Suc k) st"
      using k(2) evict_memory_step [OF c True] by simp
    moreover have "max_memory_bytes st < memory_of (drop j (tc_cache st))" if m: "j < Suc k" for j
      using m k(4) True Suc.prems by (cases j) (auto simp: c)
    ultimately show ?thesis using k(1,3) c by (intro exI [of _ "Suc k"]) auto
  next
    case False
    then show ?thesis using Suc.prems by (intro exI [of _ 0]) (simp add: evict_memory_stop)
  qed
qed

text \<open>Both loops together evict exactly the shortest run of old entries after which the rest fits.\<close>

lemma enforce_limits_eq:
  assumes "0 \<le> max_entries st"
  shows "\<exists>k\<le>length (tc_cache st). enforce_limits st = Some (evicted k st)
     \<and> (fits_limits st (drop k (tc_cache st)) \<or> k = length (tc_cache st))
     \<and> (\<forall>j<k. \<not> fits_limits st (drop j (tc_cache st)))"
proof -
  let ?c = "tc_cache st"
  let ?i = "length ?c - nat (max_entries st)"
  let ?st = "evicted ?i st"
  have "estimated_memory ?st = memory_of (tc_cache ?st)"
    by (simp add: estimated_memory_def memory_of_def dict_values_def comp_def)
  from evict_memory_eq [OF this] obtain k where k: "k \<le> length (tc_cache ?st)"
    "evict_memory (estimated_memory ?st) ?st = evicted k ?st"
    "memory_of (drop k (tc_cache ?st)) \<le> max_memory_bytes st \<or> k = length (tc_cache ?st)"
    "\<forall>j<k. max_memory_bytes st < memory_of (drop j (tc_cache ?st))" by auto
  have "enforce_limits st = Some (evicted (?i + k) st)"
    using k(2) by (simp add: enforce_limits_def evict_entries_eq [OF assms])
  moreover have "\<not> fits_limits st (drop j ?c)" if m: "j < ?i + k" for j
  proof (cases "j < ?i")
    case True
    then have "max_entries st < int (length (drop j ?c))" using assms by simp
    then show ?thesis by (simp add: fits_limits_def)
  next
    case False
    with m k(4) have "max_memory_bytes st < memory_of (drop (j - ?i) (drop ?i ?c))"
      by (simp only: evicted_simps)
    then show ?thesis using False by (simp add: fits_limits_def)
  qed
  moreover have "fits_limits st (drop (?i + k) ?c) \<or> ?i + k = length ?c"
    using k(1,3) assms by (auto simp: fits_limits_def add.commute)
  moreover have "?i + k \<le> length ?c" using k(1) by simp
  ultimately show ?thesis by blast
qed

subsection \<open>Runs of the tree cache\<close>

datatype 't tree_op =
    TGet world string
  | TGetForComparison world string
  | TPut world string "'t option"
  | TInvalidate world string
  | TClear
  | TCleanup world

fun tree_step :: "'t tree_op \<Rightarrow> 't tree_cache \<Rightarrow> 't tree_cache option" where
  "tree_step (TGet w p) st = Some (snd (tree_get w p st))"
| "tree_step (TGetForComparison w p) st = Some (snd (tree_get_for_comparison w p st))"
| "tree_step (TPut w p tree) st = tree_put w p tree st"
| "tree_step (TInvalidate w p) st = Some (snd (tree_invalidate w p st))"
| "tree_step TClear st = Some (tree_clear st)"
| "tree_step (TCleanup w) st = Some (snd (cleanup_stale_entries w st))"

definition entry_value :: "'t tree_entry \<Rightarrow> 't \<times> string \<times> rat \<times> int" where
  "entry_value e = (te_tree e, te_file_path e, te_mtime e, te_size e)"

definition tree_lookup :: "'t tree_cache \<Rightarrow> string \<Rightarrow> ('t \<times> string \<times> rat \<times> int) option" where
  "tree_lookup st k = map_option entry_value (dict_get (tc_cache st) k)"

fun tree_writes :: "'t tree_op \<Rightarrow> (string \<times> 't \<times> string \<times> rat \<times> int) option" where
  "tree_writes (TPut w p (Some t)) =
     (case stat_of w p of None \<Rightarrow> None | Some (mtime, sz) \<Rightarrow> Some (resolved w p, t, p, mtime, sz))"
| "tree_writes _ = None"

fun tree_removes :: "'t tree_op \<Rightarrow> string \<Rightarrow> bool" where
  "tree_removes (TInvalidate w p) k = (resolved w p = k)"
| "tree_removes TClear k = True"
| "tree_removes _ k = False"

definition tree_cache_ok :: "'t tree_cache \<Rightarrow> bool" where
  "tree_cache_ok st \<longleftrightarrow> 0 \<le> max_entries st \<and> dict_ok (tc_cache st)"

lemma dict_get_drop: "dict_ok d \<Longrightarrow> dict_get (drop k d) x = Some v \<Longrightarrow> dict_get d x = Some v"
  by (metis dict_get_Some_iff dict_ok_def distinct_drop drop_map in_set_dropD)

lemma dict_ok_drop: "dict_ok d \<Longrightarrow> dict_ok (drop k d)"
  by (simp add: dict_ok_def drop_map [symmetric])

text \<open>The effect of storing a tree in one equation.\<close>

lemma tree_put_eq:
  fixes t :: 't and st :: "'t tree_cache"
  assumes "stat_of w p = Some (mtime, sz)" and "0 \<le> max_entries st"
  defines "d \<equiv> dict_del (resolved w p) (tc_cache st) @ [(resolved w p, new_tree_entry w t p mtime sz)]"
  shows "\<exists>k\<le>length d. tree_put w p (Some t) st = Some (evicted k (st\<lparr>tc_cache := d\<rparr>))
           \<and> (fits_limits st (drop k d) \<or> k = length d) \<and> (\<forall>j<k. \<not> fits_limits st (drop j d))"
proof -
  have "resolved w p \<notin> fst ` set (dict_del (resolved w p) (tc_cache st))" by (simp add: keys_dict_del)
  then have d: "dict_set (resolved w p) (new_tree_entry w t p mtime sz) (dict_del (resolved w p) (tc_cache st)) = d"
    unfolding d_def by (rule dict_set_new)
  have "fits_limits (st\<lparr>tc_cache := d\<rparr>) = fits_limits st" by (simp add: fits_limits_def fun_eq_iff)
  then show ?thesis
    using enforce_limits_eq [of "st\<lparr>tc_cache := d\<rparr>"] assms(1,2) by (simp add: tree_put_def d)
qed

lemma tree_put_cases:
  obtains "tree_put w p tree st = Some st" "tree_writes (TPut w p tree) = None"
  | t mtime sz where "tree = Some t" "stat_of w p = Some (mtime, sz)"
      "tree_writes (TPut w p tree) = Some (resolved w p, t, p, mtime, sz)"
  by (cases tree; cases "stat_of w p") (auto simp: tree_put_def)

lemma dict_ok_snoc_del: "dict_ok d \<Longrightarrow> dict_ok (dict_del k d @ [(k, v)])"
  using dict_ok_del [of d k] keys_dict_del [of k d] by (auto simp: dict_ok_def)

lemma cleanup_cache:
  "tc_cache (snd (cleanup_stale_entries w st)) =
     filter (\<lambda>e. fst e \<notin> fst ` {e \<in> set (tc_cache st). \<not> entry_is_valid w (snd e)}) (tc_cache st)"
  "max_entries (snd (cleanup_stale_entries w st)) = max_entries st"
proof -
  have f: "tc_cache (fold (\<lambda>key s. s\<lparr>tc_cache := dict_del key (tc_cache s), tc_invalidations := tc_invalidations s + 1\<rparr>) ks st)
      = filter (\<lambda>e. fst e \<notin> set ks) (tc_cache st)
    \<and> max_entries (fold (\<lambda>key s. s\<lparr>tc_cache := dict_del key (tc_cache s), tc_invalidations := tc_invalidations s + 1\<rparr>) ks st)
      = max_entries st" for ks and st :: "'a tree_cache"
    by (induction ks arbitrary: st) (simp_all add: dict_del_def conj_commute)
  show "tc_cache (snd (cleanup_stale_entries w st)) =
     filter (\<lambda>e. fst e \<notin> fst ` {e \<in> set (tc_cache st). \<not> entry_is_valid w (snd e)}) (tc_cache st)"
    using f by (simp add: cleanup_stale_entries_def Let_def case_prod_unfold)
  show "max_entries (snd (cleanup_stale_entries w st)) = max_entries st"
    using f by (simp add: cleanup_stale_entries_def Let_def)
qed

lemma dict_ok_filter: "dict_ok d \<Longrightarrow> dict_ok (filter P d)"
  by (simp add: dict_ok_def distinct_map_filter)

lemma dict_get_filter: "dict_ok d \<Longrightarrow> dict_get (filter P d) x = Some v \<Longrightarrow> dict_get d x = Some v"
  by (metis dict_get_Some_iff dict_ok_filter filter_is_subset subsetD)

lemma tree_get_state:
  "dict_ok (tc_cache st) \<Longrightarrow> tree_lookup (snd (tree_get w p st)) k = Some v \<Longrightarrow> tree_lookup st k = Some v"
  "dict_ok (tc_cache st) \<Longrightarrow> dict_ok (tc_cache (snd (tree_get w p st)))"
  "max_entries (snd (tree_get w p st)) = max_entries st"
  by (auto simp: tree_get_def tree_lookup_def touch_entry_def entry_value_def Let_def
      split: option.splits if_splits)

lemma tree_put_step:
  assumes ok: "tree_cache_ok st" and put: "tree_put w p tree st = Some st'"
  shows "tree_cache_ok st'"
    and "tree_lookup st' k = Some v \<Longrightarrow>
           tree_writes (TPut w p tree) = Some (k, v) \<or>
           tree_lookup st k = Some v \<and> (\<forall>x. tree_writes (TPut w p tree) \<noteq> Some (k, x))"
proof -
  have both: "tree_cache_ok st' \<and> (tree_lookup st' k = Some v \<longrightarrow>
           tree_writes (TPut w p tree) = Some (k, v) \<or>
           tree_lookup st k = Some v \<and> (\<forall>x. tree_writes (TPut w p tree) \<noteq> Some (k, x)))"
  proof (cases rule: tree_put_cases [of w p tree st])
    case 1
    then show ?thesis using ok put by simp
  next
    case (2 t mtime sz)
    let ?e = "new_tree_entry w t p mtime sz"
    let ?d = "dict_del (resolved w p) (tc_cache st) @ [(resolved w p, ?e)]"
    obtain j where st': "st' = evicted j (st\<lparr>tc_cache := ?d\<rparr>)"
      using tree_put_eq [OF 2(2), of st t] ok put 2(1) by (auto simp: tree_cache_ok_def)
    have d: "dict_ok ?d" using ok by (simp add: tree_cache_ok_def dict_ok_snoc_del)
    have "entry_value ?e = (t, p, mtime, sz)" by (simp add: entry_value_def new_tree_entry_def)
    moreover have "k = resolved w p \<and> e = ?e \<or> k \<noteq> resolved w p \<and> dict_get (tc_cache st) k = Some e"
      if m: "dict_get (drop j ?d) k = Some e" for e
      using dict_get_drop [OF d m] by (auto simp: map_add_Some_iff split: if_splits)
    ultimately have "k = resolved w p \<and> v = (t, p, mtime, sz)
        \<or> k \<noteq> resolved w p \<and> tree_lookup st k = Some v" if look: "tree_lookup st' k = Some v"
      using look st' by (auto simp: tree_lookup_def simp del: drop_append)
    moreover have "tree_cache_ok st'" using st' dict_ok_drop [OF d] ok by (simp add: tree_cache_ok_def)
    ultimately show ?thesis using 2(3) by auto
  qed
  then show "tree_cache_ok st'" by simp
  assume "tree_lookup st' k = Some v"
  with both show "tree_writes (TPut w p tree) = Some (k, v) \<or>
           tree_lookup st k = Some v \<and> (\<forall>x. tree_writes (TPut w p tree) \<noteq> Some (k, x))" by simp
qed

interpretation tree_cache_contract: evicting_cache tree_cache_ok tree_lookup tree_step
  "\<lambda>op st. tree_writes op" tree_removes
proof
  fix st st' :: "'t tree_cache" and op :: "'t tree_op" and k v
  assume ok: "tree_cache_ok st" and run: "tree_step op st = Some st'"
  have d: "dict_ok (tc_cache st)" using ok by (simp add: tree_cache_ok_def)
  show "tree_cache_ok st'"
  proof (cases op)
    case (TPut w p tree)
    then show ?thesis using tree_put_step(1) [OF ok] run by simp
  qed (use ok run d in \<open>auto simp: tree_cache_ok_def tree_get_state tree_get_for_comparison_def
        tree_invalidate_def tree_clear_def cleanup_cache dict_ok_filter Let_def split: option.splits if_splits\<close>)
  assume look: "tree_lookup st' k = Some v"
  show "tree_writes op = Some (k, v) \<or>
        tree_lookup st k = Some v \<and> \<not> tree_removes op k \<and> (\<forall>x. tree_writes op \<noteq> Some (k, x))"
  proof (cases op)
    case (TPut w p tree)
    then show ?thesis using tree_put_step(2) [OF ok] run look by simp
  next
    case (TGet w p)
    then show ?thesis using tree_get_state(1) [OF d, of w p k v] run look by simp
  next
    case (TInvalidate w p)
    then show ?thesis using run look dict_get_None_iff [of "tc_cache st" k]
      by (auto simp: tree_lookup_def tree_invalidate_def dict_keys_def Let_def split: if_splits)
  next
    case (TCleanup w)
    then show ?thesis using run look dict_get_filter [OF d] by (auto simp: tree_lookup_def cleanup_cache)
  qed (use run look in \<open>auto simp: tree_lookup_def tree_get_for_comparison_def tree_invalidate_def
        tree_clear_def dict_keys_def Let_def split: option.splits if_splits\<close>)
qed

text \<open>
  C35: A tree that the cache returns for a path was stored for the same resolved path; it is the last
  one stored under it and was not invalidated since; and the file it was stored for has now the
  modification time and the size it had then.
\<close>

theorem served_tree_is_current:
  assumes "0 \<le> n" and "run_steps tree_step ops (new_tree_cache n mb) = Some st"
    and "fst (tree_get w p st) = Some t"
  shows "\<exists>before w' p' after. ops = before @ TPut w' p' (Some t) # after
     \<and> resolved w' p' = resolved w p \<and> stat_of w' p' \<noteq> None \<and> stat_of w' p' = stat_of w p'
     \<and> (\<forall>o'\<in>set after. \<not> tree_removes o' (resolved w p) \<and> (\<forall>x. tree_writes o' \<noteq> Some (resolved w p, x)))"
proof -
  have new: "tree_cache_ok (new_tree_cache n mb)" "\<And>k. tree_lookup (new_tree_cache n mb) k = None"
    using assms(1) by (simp_all add: new_tree_cache_def tree_cache_ok_def tree_lookup_def)
  obtain e where e: "dict_get (tc_cache st) (resolved w p) = Some e" "entry_is_valid w e" "te_tree e = t"
    using assms(3) by (auto simp: tree_get_def Let_def split: option.splits if_splits)
  then have "tree_lookup st (resolved w p) = Some (t, te_file_path e, te_mtime e, te_size e)"
    by (simp add: tree_lookup_def entry_value_def)
  from tree_cache_contract.found_was_last_written [OF assms(2) new this]
  obtain before op after where o: "ops = before @ op # after"
    "tree_writes op = Some (resolved w p, t, te_file_path e, te_mtime e, te_size e)"
    "\<And>a o' b u. after = a @ o' # b \<Longrightarrow> run_steps tree_step (before @ op # a) (new_tree_cache n mb) = Some u
       \<Longrightarrow> \<not> tree_removes o' (resolved w p) \<and> (\<forall>x. tree_writes o' \<noteq> Some (resolved w p, x))"
    by blast
  have later: "\<forall>o'\<in>set after. \<not> tree_removes o' (resolved w p) \<and> (\<forall>x. tree_writes o' \<noteq> Some (resolved w p, x))"
  proof
    fix o'
    assume "o' \<in> set after"
    then obtain a b where ab: "after = a @ o' # b" by (auto simp: in_set_conv_decomp)
    have "\<exists>u. run_steps tree_step (before @ op # a) (new_tree_cache n mb) = Some u"
      using assms(2) run_steps_append [of tree_step "before @ op # a" "o' # b" "new_tree_cache n mb"]
      by (cases "run_steps tree_step (before @ op # a) (new_tree_cache n mb)") (auto simp: o(1) ab)
    with o(3) [OF ab] show "\<not> tree_removes o' (resolved w p) \<and> (\<forall>x. tree_writes o' \<noteq> Some (resolved w p, x))" by blast
  qed
  from o(2) obtain w' p' where "op = TPut w' p' (Some t)" "resolved w' p' = resolved w p"
    "p' = te_file_path e" "stat_of w' p' = Some (te_mtime e, te_size e)"
    by (cases op rule: tree_writes.cases) (auto split: option.splits)
  with o(1) later e(2) show ?thesis
    by (intro exI [of _ before] exI [of _ w'] exI [of _ p'] exI [of _ after])
      (auto simp: entry_is_valid_def split: option.splits)
qed

definition sample_world :: "rat \<Rightarrow> world" where
  "sample_world t = \<lparr>stat_of = (\<lambda>p. if p = ''gone'' then None else Some (1, 10)), resolved = (\<lambda>p. p), time_now = t\<rparr>"

lemma served_tree_is_current_witness:
  "\<exists>before w' p' after.
     [TPut (sample_world 1) ''a'' (Some True), TGet (sample_world 2) ''b''] = before @ TPut w' p' (Some True) # after"
proof -
  let ?ops = "[TPut (sample_world 1) ''a'' (Some True), TGet (sample_world 2) ''b'']"
  have put: "tree_step (TPut (sample_world 1) ''a'' (Some True)) (new_tree_cache 2 1)
      = Some (new_tree_cache 2 1\<lparr>tc_cache := [(''a'', new_tree_entry (sample_world 1) True ''a'' 1 10)]\<rparr>)"
    by (simp add: tree_put_def sample_world_def new_tree_cache_def enforce_limits_def evict_entries_stop
        evict_memory_stop estimated_memory_def dict_values_def dict_del_def new_tree_entry_def)
  have "\<exists>st. run_steps tree_step ?ops (new_tree_cache 2 1) = Some st \<and> fst (tree_get (sample_world 3) ''a'' st) = Some True"
    by (simp add: put del: tree_step.simps(3))
      (simp add: tree_get_def new_tree_cache_def new_tree_entry_def sample_world_def entry_is_valid_def Let_def)
  then obtain st where "run_steps tree_step ?ops (new_tree_cache 2 1) = Some st"
    "fst (tree_get (sample_world 3) ''a'' st) = Some True" by blast
  from served_tree_is_current [OF _ this] show ?thesis by force
qed

text \<open>
  Storing a tree always ends, and leaves the entries in order of their last use with the new one
  at the end, except for the shortest run of the least recently used ones whose removal brings the
  number of entries and the estimated memory under the limits.
\<close>

theorem put_keeps_most_recent:
  assumes "stat_of w p = Some (mtime, sz)" and "0 \<le> max_entries st"
  shows "\<exists>k st'. tree_put w p (Some t) st = Some st'
     \<and> tc_cache st' = drop k (dict_del (resolved w p) (tc_cache st) @ [(resolved w p, new_tree_entry w t p mtime sz)])
     \<and> (fits_limits st (tc_cache st') \<or> tc_cache st' = [])
     \<and> (\<forall>j<k. \<not> fits_limits st (drop j (dict_del (resolved w p) (tc_cache st) @ [(resolved w p, new_tree_entry w t p mtime sz)])))"
proof -
  let ?d = "dict_del (resolved w p) (tc_cache st) @ [(resolved w p, new_tree_entry w t p mtime sz)]"
  obtain k where k: "k \<le> length ?d" "tree_put w p (Some t) st = Some (evicted k (st\<lparr>tc_cache := ?d\<rparr>))"
    "fits_limits st (drop k ?d) \<or> k = length ?d" "\<forall>j<k. \<not> fits_limits st (drop j ?d)"
    using tree_put_eq [OF assms, of t] by blast
  show ?thesis
    using k(2,3,4) by (intro exI [of _ k] exI [of _ "evicted k (st\<lparr>tc_cache := ?d\<rparr>)"]) (auto simp del: drop_append)
qed

lemma put_keeps_most_recent_witness:
  "\<exists>st'. tree_put (sample_world 1) ''a'' (Some True) (new_tree_cache 2 1) = Some st'"
  using put_keeps_most_recent [of "sample_world 1" "''a''" 1 10 "new_tree_cache 2 1" True]
  by (auto simp: sample_world_def new_tree_cache_def)

text \<open>A tree that fits is found again as long as its file does not change.\<close>

lemma put_then_get:
  assumes "stat_of w p = Some (mtime, sz)" and "1 \<le> max_entries st" and "sz \<le> max_memory_bytes st"
    and "tree_put w p (Some t) st = Some st'" and "resolved w2 q = resolved w p" and "stat_of w2 p = stat_of w p"
  shows "fst (tree_get w2 q st') = Some t"
proof -
  let ?new = "(resolved w p, new_tree_entry w t p mtime sz)"
  let ?o = "dict_del (resolved w p) (tc_cache st)"
  obtain k where k: "k \<le> length (?o @ [?new])" "st' = evicted k (st\<lparr>tc_cache := ?o @ [?new]\<rparr>)"
    "\<forall>j<k. \<not> fits_limits st (drop j (?o @ [?new]))"
  proof -
    have "0 \<le> max_entries st" using assms(2) by simp
    from tree_put_eq [OF assms(1) this, of t] assms(4) show thesis by (auto simp del: drop_append intro: that)
  qed
  have "fits_limits st [?new]" using assms(2,3) by (simp add: fits_limits_def memory_of_def new_tree_entry_def)
  then have "k \<le> length ?o" using k(3) by (metis append_eq_conv_conj not_less)
  then have "tc_cache st' = drop k ?o @ [?new]" using k(2) by simp
  moreover have "resolved w p \<notin> fst ` set (drop k ?o)"
    using keys_dict_del [of "resolved w p" "tc_cache st"] by (auto dest: in_set_dropD)
  ultimately have "dict_get (tc_cache st') (resolved w2 q) = Some (snd ?new)"
    using assms(5) by (simp add: dict_get_None_iff [symmetric] map_add_def)
  then show ?thesis
    using assms(1,6) by (simp add: tree_get_def Let_def entry_is_valid_def new_tree_entry_def)
qed

text \<open>With a negative entry limit storing a tree never returns.\<close>

lemma negative_limit_diverges:
  "stat_of w p = Some (mtime, sz) \<Longrightarrow> max_entries st < 0 \<Longrightarrow> tree_put w p (Some t) st = None"
  by (simp add: tree_put_def enforce_limits_def evict_entries_negative)

text \<open>
  The file is read before it is stat-ed for the cache.  When it changes in between, the tree of the
  old text is stored with the time and the size of the new text and served as current.
\<close>

lemma stale_tree_served:
  assumes "dict_get (tc_cache st) (resolved w1 p) = None" and "parse p old = Some t"
    and "stat_of w2 p = Some (mtime, sz)" and "resolved w2 p = resolved w1 p"
    and "1 \<le> max_entries st" and "sz \<le> max_memory_bytes st"
  shows "\<exists>st2. parse_incremental read parse w1 w2 p (Some old) (Some st) = Some (Some t, Some st2)
     \<and> fst (tree_get w2 p st2) = Some t"
proof -
  let ?st = "st\<lparr>tc_misses := tc_misses st + 1\<rparr>"
  have get: "tree_get w1 p st = (None, ?st)" using assms(1) by (simp add: tree_get_def)
  obtain st2 where put: "tree_put w2 p (Some t) ?st = Some st2"
    using tree_put_eq [OF assms(3), of ?st t] assms(5) by auto
  have "fst (tree_get w2 p st2) = Some t"
    using put_then_get [OF assms(3) _ _ put refl refl] assms(5,6) by simp
  then show ?thesis using get put assms(2) by (simp add: parse_incremental_def)
qed

subsection \<open>The file discovery cache\<close>

text \<open>
  A cached entry is the list of files, the time it was stored and the modification time the
  directory had.  \<open>glob d pat\<close> is the list \<open>Path.glob\<close> yields, \<open>relative_to f d\<close> the relative path;
  \<open>None\<close> is an exception.
\<close>

datatype cache_error = StopIteration

record discovery_cache =
  dc_max_entries :: int
  dc_ttl_seconds :: int
  dc_cache :: "(string, string list \<times> rat \<times> rat) pydict"
  dc_hits :: int
  dc_misses :: int
  dc_evictions :: int
  dc_invalidations :: int

definition new_discovery_cache :: "int \<Rightarrow> int \<Rightarrow> discovery_cache" where
  "new_discovery_cache max_ents ttl =
     \<lparr>dc_max_entries = max_ents, dc_ttl_seconds = ttl, dc_cache = [],
      dc_hits = 0, dc_misses = 0, dc_evictions = 0, dc_invalidations = 0\<rparr>"

definition make_cache_key :: "string \<Rightarrow> string list \<Rightarrow> string list option \<Rightarrow> string" where
  "make_cache_key directory patterns exclude_patterns =
     (let patterns_str = join_with ''|'' (sort patterns);
          exclude_str = join_with ''|'' (sort (case exclude_patterns of None \<Rightarrow> [] | Some ps \<Rightarrow> ps))
      in directory @ ''|'' @ patterns_str @ ''|'' @ exclude_str)"

definition unique_files :: "string list \<Rightarrow> string list" where
  "unique_files files = fold (\<lambda>f acc. if f \<in> set acc then acc else acc @ [f]) files []"

record globbing =
  glob :: "string \<Rightarrow> string \<Rightarrow> string list option"
  relative_to :: "string \<Rightarrow> string \<Rightarrow> string option"

definition filter_excluded :: "globbing \<Rightarrow> string \<Rightarrow> string list \<Rightarrow> string list \<Rightarrow> string list option" where
  "filter_excluded g directory exclude_patterns files =
     map_option (\<lambda>rels. map fst (filter (\<lambda>(f, rel). \<not> list_ex (\<lambda>p. fnmatch rel p \<or> fnmatch f p) exclude_patterns) rels))
       (those (map (\<lambda>f. map_option (Pair f) (relative_to g f directory)) files))"

definition glob_files :: "globbing \<Rightarrow> string \<Rightarrow> string list \<Rightarrow> string list option \<Rightarrow> string list" where
  "glob_files g directory patterns exclude_patterns =
     (case Option.bind (those (map (glob g directory) patterns))
             (\<lambda>fss. let files = unique_files (concat fss) in
                case exclude_patterns of
                  None \<Rightarrow> Some files
                | Some ps \<Rightarrow> if ps = [] then Some files else filter_excluded g directory ps files) of
        None \<Rightarrow> []
      | Some files \<Rightarrow> files)"

definition get_from_cache :: "world \<Rightarrow> string \<Rightarrow> string \<Rightarrow> discovery_cache \<Rightarrow> string list option \<times> discovery_cache" where
  "get_from_cache w cache_key directory st =
     (case dict_get (dc_cache st) cache_key of
        None \<Rightarrow> (None, st)
      | Some (files, timestamp, cached_mtime) \<Rightarrow>
          if of_int (dc_ttl_seconds st) < fl (time_now w - timestamp)
          then (None, st\<lparr>dc_cache := dict_del cache_key (dc_cache st), dc_evictions := dc_evictions st + 1\<rparr>)
          else (case stat_of w directory of
                  None \<Rightarrow> (None, st\<lparr>dc_cache := dict_del cache_key (dc_cache st),
                                    dc_invalidations := dc_invalidations st + 1\<rparr>)
                | Some (current_mtime, _) \<Rightarrow>
                    if cached_mtime < current_mtime
                    then (None, st\<lparr>dc_cache := dict_del cache_key (dc_cache st),
                                   dc_invalidations := dc_invalidations st + 1\<rparr>)
                    else (Some files, st\<lparr>dc_cache := dict_move_to_end cache_key (dc_cache st)\<rparr>)))"

fun make_room :: "int \<Rightarrow> (string, string list \<times> rat \<times> rat) pydict \<Rightarrow> int \<Rightarrow>
    cache_error option \<times> (string, string list \<times> rat \<times> rat) pydict \<times> int" where
  "make_room max_ents d evictions =
     (if int (length d) < max_ents then (None, d, evictions)
      else (case d of
              [] \<Rightarrow> (Some StopIteration, d, evictions)
            | _ # rest \<Rightarrow> make_room max_ents rest (evictions + 1)))"

declare make_room.simps [simp del]

definition store_in_cache ::
  "world \<Rightarrow> string \<Rightarrow> string list \<Rightarrow> string \<Rightarrow> discovery_cache \<Rightarrow> cache_error option \<times> discovery_cache" where
  "store_in_cache w cache_key files directory st =
     (case stat_of w directory of
        None \<Rightarrow> (None, st)
      | Some (directory_mtime, _) \<Rightarrow>
          (case make_room (dc_max_entries st) (dc_cache st) (dc_evictions st) of
             (Some e, d, ev) \<Rightarrow> (Some e, st\<lparr>dc_cache := d, dc_evictions := ev\<rparr>)
           | (None, d, ev) \<Rightarrow>
               (None, st\<lparr>dc_cache := dict_set cache_key (files, time_now w, directory_mtime) d,
                         dc_evictions := ev\<rparr>)))"

definition get_files ::
  "world \<Rightarrow> globbing \<Rightarrow> string \<Rightarrow> string list \<Rightarrow> string list option \<Rightarrow> discovery_cache
    \<Rightarrow> (cache_error + string list) \<times> discovery_cache" where
  "get_files w g directory patterns exclude_patterns st =
     (let cache_key = make_cache_key directory patterns exclude_patterns in
      case get_from_cache w cache_key directory st of
        (Some cached_result, st1) \<Rightarrow> (Inr cached_result, st1\<lparr>dc_hits := dc_hits st1 + 1\<rparr>)
      | (None, st1) \<Rightarrow>
          let st2 = st1\<lparr>dc_misses := dc_misses st1 + 1\<rparr>;
              files = glob_files g directory patterns exclude_patterns
          in (case store_in_cache w cache_key files directory st2 of
                (Some e, st3) \<Rightarrow> (Inl e, st3)
              | (None, st3) \<Rightarrow> (Inr files, st3)))"

definition invalidate_directory :: "string \<Rightarrow> discovery_cache \<Rightarrow> int \<times> discovery_cache" where
  "invalidate_directory directory st =
     (let keys_to_remove = filter (\<lambda>key. starts_with key (directory @ ''|'')) (dict_keys (dc_cache st))
      in (int (length keys_to_remove),
          fold (\<lambda>key s. s\<lparr>dc_cache := dict_del key (dc_cache s), dc_invalidations := dc_invalidations s + 1\<rparr>)
            keys_to_remove st))"

definition clear_discovery :: "discovery_cache \<Rightarrow> discovery_cache" where
  "clear_discovery st = st\<lparr>dc_cache := [], dc_evictions := dc_evictions st + int (length (dc_cache st))\<rparr>"

subsection \<open>Runs of the discovery cache\<close>

lemma make_room_eq:
  "1 \<le> max_ents \<Longrightarrow>
   make_room max_ents d ev = (None, drop (Suc (length d) - nat max_ents) d, ev + int (Suc (length d) - nat max_ents))"
proof (induction max_ents d ev rule: make_room.induct)
  case (1 max_ents d ev)
  show ?case
  proof (cases "int (length d) < max_ents")
    case True
    then have "Suc (length d) - nat max_ents = 0" by simp
    with True show ?thesis by (subst make_room.simps) simp
  next
    case False
    with 1(2) obtain e rest where d: "d = e # rest" by (cases d) auto
    have "make_room max_ents d ev = make_room max_ents rest (ev + 1)"
      using False by (subst make_room.simps) (simp add: d)
    also have "\<dots> = (None, drop (Suc (length rest) - nat max_ents) rest, ev + 1 + int (Suc (length rest) - nat max_ents))"
      by (rule 1(1) [OF False d 1(2)])
    moreover have "Suc (length d) - nat max_ents = Suc (Suc (length rest) - nat max_ents)"
      using False 1(2) by (simp add: d Suc_diff_le)
    ultimately show ?thesis by (simp add: d)
  qed
qed

lemma make_room_error: "max_ents \<le> 0 \<Longrightarrow> make_room max_ents d ev = (Some StopIteration, [], ev + int (length d))"
proof (induction d arbitrary: ev)
  case Nil
  then show ?case by (subst make_room.simps) simp
next
  case (Cons e d)
  then show ?case by (subst make_room.simps) simp
qed

datatype discovery_op =
    DGet world globbing string "string list" "string list option"
  | DInvalidate string
  | DClear

fun discovery_step :: "discovery_op \<Rightarrow> discovery_cache \<Rightarrow> discovery_cache option" where
  "discovery_step (DGet w g d pats excl) st = Some (snd (get_files w g d pats excl st))"
| "discovery_step (DInvalidate d) st = Some (snd (invalidate_directory d st))"
| "discovery_step DClear st = Some (clear_discovery st)"

fun discovery_writes :: "discovery_op \<Rightarrow> discovery_cache \<Rightarrow> (string \<times> string list \<times> rat \<times> rat) option" where
  "discovery_writes (DGet w g d pats excl) st =
     (if fst (get_from_cache w (make_cache_key d pats excl) d st) = None \<and> 1 \<le> dc_max_entries st
      then (case stat_of w d of
              None \<Rightarrow> None
            | Some (mtime, _) \<Rightarrow> Some (make_cache_key d pats excl, glob_files g d pats excl, time_now w, mtime))
      else None)"
| "discovery_writes _ st = None"

fun discovery_removes :: "discovery_op \<Rightarrow> string \<Rightarrow> bool" where
  "discovery_removes (DInvalidate d) k = starts_with k (d @ ''|'')"
| "discovery_removes DClear k = True"
| "discovery_removes _ k = False"

definition discovery_cache_ok :: "discovery_cache \<Rightarrow> bool" where
  "discovery_cache_ok st \<longleftrightarrow> dict_ok (dc_cache st) \<and> int (length (dc_cache st)) \<le> max 0 (dc_max_entries st)"

lemma get_from_cache_state:
  assumes "discovery_cache_ok st"
  shows "discovery_cache_ok (snd (get_from_cache w k d st))"
    and "dict_get (dc_cache (snd (get_from_cache w k d st))) x = Some v \<Longrightarrow> dict_get (dc_cache st) x = Some v"
    and "dc_max_entries (snd (get_from_cache w k d st)) = dc_max_entries st"
  using assms length_dict_del [of "dc_cache st" k]
  by (auto simp: get_from_cache_def discovery_cache_ok_def split: option.splits if_splits)

lemma store_in_cache_state:
  assumes ok: "discovery_cache_ok st" and "1 \<le> dc_max_entries st"
  shows "\<exists>st'. store_in_cache w k files d st = (None, st') \<and> discovery_cache_ok st'
     \<and> dc_max_entries st' = dc_max_entries st
     \<and> (\<forall>x v. dict_get (dc_cache st') x = Some v \<longrightarrow>
           (case stat_of w d of None \<Rightarrow> False | Some (mtime, _) \<Rightarrow> x = k \<and> v = (files, time_now w, mtime))
           \<or> (x \<noteq> k \<or> stat_of w d = None) \<and> dict_get (dc_cache st) x = Some v)"
proof (cases "stat_of w d")
  case None
  then show ?thesis using ok by (simp add: store_in_cache_def)
next
  case (Some ms)
  obtain mtime sz where s: "stat_of w d = Some (mtime, sz)" using Some by (cases ms) auto
  let ?n = "Suc (length (dc_cache st)) - nat (dc_max_entries st)"
  let ?d = "dict_set k (files, time_now w, mtime) (drop ?n (dc_cache st))"
  have d: "dict_ok (dc_cache st)" using ok by (simp add: discovery_cache_ok_def)
  have "int (length ?d) \<le> dc_max_entries st"
    using assms(2) by (auto simp: length_dict_set)
  then show ?thesis
    using s dict_ok_set [OF dict_ok_drop [OF d, of ?n]] dict_get_drop [OF d, of ?n]
    by (auto simp: store_in_cache_def make_room_eq [OF assms(2)] discovery_cache_ok_def)
qed

lemma get_files_state:
  assumes ok: "discovery_cache_ok st"
  shows "discovery_cache_ok (snd (get_files w g d pats excl st))
    \<and> dc_max_entries (snd (get_files w g d pats excl st)) = dc_max_entries st
    \<and> (\<forall>k v. dict_get (dc_cache (snd (get_files w g d pats excl st))) k = Some v \<longrightarrow>
         discovery_writes (DGet w g d pats excl) st = Some (k, v)
         \<or> dict_get (dc_cache st) k = Some v \<and> (\<forall>x. discovery_writes (DGet w g d pats excl) st \<noteq> Some (k, x)))"
proof -
  let ?k = "make_cache_key d pats excl"
  obtain r st1 where g1: "get_from_cache w ?k d st = (r, st1)" by (cases "get_from_cache w ?k d st")
  note st1 = get_from_cache_state [OF ok, of w ?k d, unfolded g1 snd_conv]
  let ?st2 = "st1\<lparr>dc_misses := dc_misses st1 + 1\<rparr>"
  have ok2: "discovery_cache_ok ?st2" using st1(1) by (simp add: discovery_cache_ok_def)
  show ?thesis
  proof (cases r)
    case (Some fs)
    then show ?thesis using g1 st1 by (auto simp: get_files_def discovery_cache_ok_def)
  next
    case None
    show ?thesis
    proof (cases "1 \<le> dc_max_entries st")
      case True
      then have "1 \<le> dc_max_entries ?st2" using st1(3) by simp
      from store_in_cache_state [OF ok2 this, of w ?k "glob_files g d pats excl" d] obtain st3 where
        st3: "store_in_cache w ?k (glob_files g d pats excl) d ?st2 = (None, st3)" "discovery_cache_ok st3"
        "dc_max_entries st3 = dc_max_entries ?st2" and
        look: "\<And>x v. dict_get (dc_cache st3) x = Some v \<Longrightarrow>
           (case stat_of w d of None \<Rightarrow> False | Some (mtime, _) \<Rightarrow> x = ?k \<and> v = (glob_files g d pats excl, time_now w, mtime))
           \<or> (x \<noteq> ?k \<or> stat_of w d = None) \<and> dict_get (dc_cache ?st2) x = Some v" by blast
      have g3: "snd (get_files w g d pats excl st) = st3" using g1 None st3(1) by (simp add: get_files_def Let_def)
      have wr: "discovery_writes (DGet w g d pats excl) st =
          (case stat_of w d of None \<Rightarrow> None
           | Some (mtime, _) \<Rightarrow> Some (?k, glob_files g d pats excl, time_now w, mtime))"
        using True None g1 by simp
      have "discovery_writes (DGet w g d pats excl) st = Some (x, v)
          \<or> dict_get (dc_cache st) x = Some v \<and> (\<forall>y. discovery_writes (DGet w g d pats excl) st \<noteq> Some (x, y))"
        if m: "dict_get (dc_cache st3) x = Some v" for x v
        using look [OF m] st1(2) [of x v] unfolding wr
        by (cases "stat_of w d") (simp_all del: split_paired_All split_paired_Ex add: case_prod_unfold, blast)
      then show ?thesis using g3 st3(2,3) st1(3) by (simp del: split_paired_All discovery_writes.simps)
    next
      case False
      then have m: "dc_max_entries st1 \<le> 0" using st1(3) by simp
      then show ?thesis
        using g1 None False st1 by (cases "stat_of w d")
          (auto simp: get_files_def store_in_cache_def make_room_error Let_def discovery_cache_ok_def)
    qed
  qed
qed

lemma invalidate_directory_cache:
  "dc_cache (snd (invalidate_directory d st)) = filter (\<lambda>e. \<not> starts_with (fst e) (d @ ''|'')) (dc_cache st)"
  "dc_max_entries (snd (invalidate_directory d st)) = dc_max_entries st"
proof -
  have f: "dc_cache (fold (\<lambda>key s. s\<lparr>dc_cache := dict_del key (dc_cache s), dc_invalidations := dc_invalidations s + 1\<rparr>) ks st)
      = filter (\<lambda>e. fst e \<notin> set ks) (dc_cache st)
    \<and> dc_max_entries (fold (\<lambda>key s. s\<lparr>dc_cache := dict_del key (dc_cache s), dc_invalidations := dc_invalidations s + 1\<rparr>) ks st)
      = dc_max_entries st" for ks st
    by (induction ks arbitrary: st) (simp_all add: dict_del_def conj_commute)
  show "dc_cache (snd (invalidate_directory d st)) = filter (\<lambda>e. \<not> starts_with (fst e) (d @ ''|'')) (dc_cache st)"
    by (auto simp: invalidate_directory_def dict_keys_def Let_def f intro!: filter_cong)
  show "dc_max_entries (snd (invalidate_directory d st)) = dc_max_entries st"
    by (simp add: invalidate_directory_def Let_def f [THEN conjunct2])
qed

interpretation discovery_cache_contract: evicting_cache discovery_cache_ok "\<lambda>st. dict_get (dc_cache st)"
  discovery_step discovery_writes discovery_removes
proof
  fix st st' :: discovery_cache and op k v
  assume ok: "discovery_cache_ok st" and run: "discovery_step op st = Some st'"
  have d: "dict_ok (dc_cache st)" using ok by (simp add: discovery_cache_ok_def)
  show "discovery_cache_ok st'"
  proof (cases op)
    case (DGet w g dir pats excl)
    then show ?thesis using get_files_state [OF ok] run by auto
  next
    case (DInvalidate dir)
    have "length (filter (\<lambda>e. \<not> starts_with (fst e) (dir @ ''|'')) (dc_cache st)) \<le> length (dc_cache st)" by simp
    then show ?thesis using DInvalidate run ok dict_ok_filter [OF d]
      by (auto simp: discovery_cache_ok_def invalidate_directory_cache simp del: length_filter_le)
  next
    case DClear
    then show ?thesis using run by (auto simp: discovery_cache_ok_def clear_discovery_def)
  qed
  assume look: "dict_get (dc_cache st') k = Some v"
  show "discovery_writes op st = Some (k, v) \<or>
        dict_get (dc_cache st) k = Some v \<and> \<not> discovery_removes op k \<and> (\<forall>x. discovery_writes op st \<noteq> Some (k, x))"
  proof (cases op)
    case (DGet w g dir pats excl)
    then have st': "st' = snd (get_files w g dir pats excl st)" using run by simp
    have "discovery_writes op st = Some (k, v)
        \<or> dict_get (dc_cache st) k = Some v \<and> (\<forall>x. discovery_writes op st \<noteq> Some (k, x))"
      using get_files_state [OF ok, of w g dir pats excl] look unfolding st' DGet by blast
    then show ?thesis using DGet by simp
  next
    case (DInvalidate dir)
    then have m: "dict_get (filter (\<lambda>e. \<not> starts_with (fst e) (dir @ ''|'')) (dc_cache st)) k = Some v"
      using run look by (auto simp: invalidate_directory_cache)
    then have "\<not> starts_with k (dir @ ''|'')" by (auto dest: map_of_SomeD)
    then show ?thesis using DInvalidate dict_get_filter [OF d m] by simp
  next
    case DClear
    then show ?thesis using run look by (auto simp: clear_discovery_def)
  qed
qed

text \<open>
  Files that the discovery cache serves without searching were found by an earlier search with
  the same key, at most the time to live ago; the modification time of the directory is not later
  than it was then; and neither the directory of the key was invalidated nor the cache cleared since.
\<close>

theorem served_files_recent:
  assumes "run_steps discovery_step ops (new_discovery_cache n ttl) = Some st"
    and "fst (get_from_cache w (make_cache_key d pats excl) d st) = Some files"
  shows "\<exists>before w' g' d' pats' excl' after m m' sz sz'.
       ops = before @ DGet w' g' d' pats' excl' # after
     \<and> make_cache_key d' pats' excl' = make_cache_key d pats excl \<and> files = glob_files g' d' pats' excl'
     \<and> fl (time_now w - time_now w') \<le> of_int (dc_ttl_seconds st)
     \<and> stat_of w' d' = Some (m', sz') \<and> stat_of w d = Some (m, sz) \<and> m \<le> m'
     \<and> list_all (\<lambda>o'. \<not> discovery_removes o' (make_cache_key d pats excl)) after"
proof -
  let ?k = "make_cache_key d pats excl"
  let ?s0 = "new_discovery_cache n ttl"
  have new: "discovery_cache_ok ?s0" "\<And>k. dict_get (dc_cache ?s0) k = None"
    by (simp_all add: new_discovery_cache_def discovery_cache_ok_def)
  obtain ts cm m sz where e: "dict_get (dc_cache st) ?k = Some (files, ts, cm)"
    "fl (time_now w - ts) \<le> of_int (dc_ttl_seconds st)" "stat_of w d = Some (m, sz)" "m \<le> cm"
    using assms(2) by (auto simp: get_from_cache_def not_less split: option.splits if_splits)
  from discovery_cache_contract.found_was_last_written [OF assms(1) new e(1)]
  obtain before op after t where o: "ops = before @ op # after"
    "discovery_writes op t = Some (?k, files, ts, cm)"
    "\<And>a o' b u. after = a @ o' # b \<Longrightarrow> run_steps discovery_step (before @ op # a) ?s0 = Some u
       \<Longrightarrow> \<not> discovery_removes o' ?k" by blast
  have "\<not> discovery_removes o' ?k" if m: "o' \<in> set after" for o'
  proof -
    obtain a b where ab: "after = a @ o' # b" using m by (auto simp: in_set_conv_decomp)
    have "\<exists>u. run_steps discovery_step (before @ op # a) ?s0 = Some u"
      using assms(1) run_steps_append [of discovery_step "before @ op # a" "o' # b" ?s0]
      by (cases "run_steps discovery_step (before @ op # a) ?s0") (auto simp: o(1) ab)
    with o(3) [OF ab] show ?thesis by blast
  qed
  then have later: "list_all (\<lambda>o'. \<not> discovery_removes o' ?k) after" by (simp add: list_all_iff)
  obtain w' g' d' pats' excl' sz' where g: "op = DGet w' g' d' pats' excl'"
    "make_cache_key d' pats' excl' = ?k" "files = glob_files g' d' pats' excl'" "ts = time_now w'"
    "stat_of w' d' = Some (cm, sz')"
    using o(2) by (cases op) (auto split: if_splits option.splits)
  show ?thesis
    using o(1) later g e(2-4)
    by (intro exI [of _ before] exI [of _ w'] exI [of _ g'] exI [of _ d'] exI [of _ pats'] exI [of _ excl']
        exI [of _ after] exI [of _ m] exI [of _ cm] exI [of _ sz] exI [of _ sz']) simp
qed

definition sample_glob :: globbing where
  "sample_glob =
     \<lparr>glob = (\<lambda>d p. if p = ''*.py'' then Some [''d/a.py''] else if p = ''*.js'' then Some [''d/b.js''] else Some []),
      relative_to = (\<lambda>f d. Some (drop (length d + 1) f))\<rparr>"

lemma served_files_recent_witness:
  "\<exists>before w' g' d' pats' excl' after.
     [DGet (sample_world 1) sample_glob ''d'' [''*.py''] None] = before @ DGet w' g' d' pats' excl' # after
     \<and> [''d/a.py''] = glob_files g' d' pats' excl'"
proof -
  have "\<exists>st. run_steps discovery_step [DGet (sample_world 1) sample_glob ''d'' [''*.py''] None] (new_discovery_cache 2 300) = Some st
     \<and> fst (get_from_cache (sample_world 9) (make_cache_key ''d'' [''*.py''] None) ''d'' st) = Some [''d/a.py'']"
    unfolding run_steps.simps discovery_step.simps bind.bind_lunit by (rule exI, rule conjI, rule refl) code_simp
  then obtain st where st: "run_steps discovery_step [DGet (sample_world 1) sample_glob ''d'' [''*.py''] None] (new_discovery_cache 2 300) = Some st"
     "fst (get_from_cache (sample_world 9) (make_cache_key ''d'' [''*.py''] None) ''d'' st) = Some [''d/a.py'']" by blast
  show ?thesis using served_files_recent [OF st] by blast
qed

text \<open>
  With room for at least one entry the discovery cache never raises, whatever was called before,
  and never holds more entries than it may, one per key.
\<close>

theorem discovery_cache_bounded:
  assumes "1 \<le> n" and "run_steps discovery_step ops (new_discovery_cache n ttl) = Some st"
  shows "int (length (dc_cache st)) \<le> n \<and> dict_ok (dc_cache st)
     \<and> (\<exists>files. fst (get_files w g d pats excl st) = Inr files)"
proof -
  have "discovery_cache_ok (new_discovery_cache n ttl)"
    by (simp add: new_discovery_cache_def discovery_cache_ok_def)
  from discovery_cache_contract.run_steps_invar [OF this assms(2)] have ok: "discovery_cache_ok st" .
  have "dc_max_entries st = n" if m: "run_steps discovery_step ops s = Some st" "dc_max_entries s = n"
    "discovery_cache_ok s" for s
    using m
  proof (induction ops arbitrary: s)
    case (Cons op ops)
    have "dc_max_entries (the (discovery_step op s)) = dc_max_entries s"
      using get_files_state [OF Cons.prems(3)]
      by (cases op) (simp_all add: invalidate_directory_cache clear_discovery_def)
    with Cons discovery_cache_contract.invar_step show ?case by (auto simp: bind_eq_Some_conv)
  qed simp
  from this [OF assms(2)] have n: "dc_max_entries st = n"
    by (simp add: new_discovery_cache_def discovery_cache_ok_def)
  obtain r st1 where g1: "get_from_cache w (make_cache_key d pats excl) d st = (r, st1)"
    by (cases "get_from_cache w (make_cache_key d pats excl) d st")
  note st1 = get_from_cache_state [OF ok, of w "make_cache_key d pats excl" d, unfolded g1 snd_conv]
  let ?st2 = "st1\<lparr>dc_misses := dc_misses st1 + 1\<rparr>"
  have "discovery_cache_ok ?st2" "1 \<le> dc_max_entries ?st2"
    using st1 n assms(1) by (simp_all add: discovery_cache_ok_def)
  from store_in_cache_state [OF this, of w "make_cache_key d pats excl" "glob_files g d pats excl" d] obtain st3
    where "store_in_cache w (make_cache_key d pats excl) (glob_files g d pats excl) d ?st2 = (None, st3)" by blast
  then have "\<exists>files. fst (get_files w g d pats excl st) = Inr files"
    using g1 by (cases r) (simp_all add: get_files_def Let_def)
  with ok n assms(1) show ?thesis by (simp add: discovery_cache_ok_def)
qed

lemma discovery_cache_bounded_witness:
  "\<exists>files. fst (get_files (sample_world 1) sample_glob ''d'' [''*.py''] None (new_discovery_cache 1 300)) = Inr files"
  using discovery_cache_bounded [of 1 "[]" 300 "new_discovery_cache 1 300"] by simp

text \<open>With no room the first search that could be cached raises \<open>StopIteration\<close>.\<close>

lemma no_room_raises:
  "dc_max_entries st \<le> 0 \<Longrightarrow> stat_of w d = Some (m, sz) \<Longrightarrow> dict_get (dc_cache st) (make_cache_key d pats excl) = None
   \<Longrightarrow> fst (get_files w g d pats excl st) = Inl StopIteration"
  by (simp add: get_files_def get_from_cache_def store_in_cache_def make_room_error Let_def)

text \<open>
  The key does not separate the include from the exclude patterns: after a search for two kinds of
  files without a third, a search for the first kind without the other two is served the same files.
\<close>

lemma key_mixes_includes_and_excludes:
  "make_cache_key ''d'' [''*.js'', ''*.py''] (Some [''*.ts'']) = make_cache_key ''d'' [''*.js''] (Some [''*.py'', ''*.ts''])
   \<and> (let st = snd (get_files (sample_world 1) sample_glob ''d'' [''*.js'', ''*.py''] (Some [''*.ts'']) (new_discovery_cache 5 300))
      in fst (get_files (sample_world 2) sample_glob ''d'' [''*.js''] (Some [''*.py'', ''*.ts'']) st)
           = Inr [''d/b.js'', ''d/a.py'']
         \<and> glob_files sample_glob ''d'' [''*.js''] (Some [''*.py'', ''*.ts'']) = [''d/b.js''])"
  by code_simp

end
