(* ===== verification/Evidence_Ledger.thy ===== *)
theory Evidence_Ledger
  imports Py_Regex
begin

text \<open>
  The evidence ledger of deep research (\<open>services/research/shared/evidence_ledger/ledger.py\<close>, with
  the records of \<open>models.py\<close> and the merging of \<open>extractor.py\<close>): constants and facts with the index
  from entity names to facts, the queries over the index, the detection of conflicts, the texts for
  prompts and reports, and the JSON form.

  The dictionaries are ordered.  Iterating over a Python set gives an unspecified order: the
  function \<open>enum\<close> that lists a set of strings is an argument.  The dash of locations is outside
  Latin-1 and is the argument \<open>dash\<close>.
\<close>

subsection \<open>Records\<close>

datatype confidence_level = DEFINITE | LIKELY | INFERRED | UNCERTAIN

fun confidence_value :: "confidence_level \<Rightarrow> string" where
  "confidence_value DEFINITE = ''definite''"
| "confidence_value LIKELY = ''likely''"
| "confidence_value INFERRED = ''inferred''"
| "confidence_value UNCERTAIN = ''uncertain''"

definition confidence_levels :: "confidence_level list" where
  "confidence_levels = [DEFINITE, LIKELY, INFERRED, UNCERTAIN]"

definition confidence_of_value :: "string \<Rightarrow> confidence_level result" where
  "confidence_of_value s =
     (case find (\<lambda>c. confidence_value c = s) confidence_levels of None \<Rightarrow> Inl ValueError | Some c \<Rightarrow> Inr c)"

record constant_entry =
  k_name :: string
  k_file_path :: string
  k_value :: "string option"
  k_type :: "string option"

record fact_entry =
  f_fact_id :: string
  f_statement :: string
  f_file_path :: string
  f_start_line :: int
  f_end_line :: int
  f_category :: string
  f_confidence :: confidence_level
  f_entities :: "string list"
  f_cluster_id :: int
  f_url :: "string option"
  f_source_section :: "string option"

record entity_link =
  l_entity_name :: string
  l_fact_ids :: "string list"

record fact_conflict =
  x_fact_id_a :: string
  x_fact_id_b :: string
  x_reason :: string

record ledger =
  constants :: "(string, constant_entry) pydict"
  facts :: "(string, fact_entry) pydict"
  entity_index :: "(string, entity_link) pydict"
  conflicts :: "fact_conflict list"

definition empty_ledger :: ledger where
  "empty_ledger = \<lparr>constants = [], facts = [], entity_index = [], conflicts = []\<rparr>"

text \<open>\<open>FactEntry.generate_id\<close>; the hash (the first twelve hexadecimal digits of SHA-256) is an argument.\<close>

definition generate_fact_id ::
  "(string \<Rightarrow> string) \<Rightarrow> string \<Rightarrow> string \<Rightarrow> int \<Rightarrow> int \<Rightarrow> string option \<Rightarrow> string" where
  "generate_fact_id hash12 statement primary_source start_line end_line section_opt =
     (let location = (case section_opt of
                        None \<Rightarrow> str_int start_line @ ''-'' @ str_int end_line
                      | Some s \<Rightarrow> if s \<noteq> [] then s else str_int start_line @ ''-'' @ str_int end_line)
      in hash12 (statement @ '':'' @ primary_source @ '':'' @ location))"

subsection \<open>Operations\<close>

definition normalize_entity_name :: "string \<Rightarrow> string" where
  "normalize_entity_name name = py_lower (py_strip name)"

definition constants_count :: "ledger \<Rightarrow> nat" where
  "constants_count l = length (constants l)"

definition facts_count :: "ledger \<Rightarrow> nat" where
  "facts_count l = length (facts l)"

definition ledger_length :: "ledger \<Rightarrow> nat" where
  "ledger_length l = constants_count l + facts_count l"

definition add_constant :: "constant_entry \<Rightarrow> ledger \<Rightarrow> ledger" where
  "add_constant entry l =
     (let key = k_file_path entry @ '':'' @ k_name entry
      in if key \<notin> set (dict_keys (constants l)) then l\<lparr>constants := dict_set key entry (constants l)\<rparr> else l)"

definition link_entity :: "string \<Rightarrow> string \<Rightarrow> (string, entity_link) pydict \<Rightarrow> (string, entity_link) pydict" where
  "link_entity fact_id entity index =
     (let normalized = normalize_entity_name entity in
      case dict_get index normalized of
        Some existing \<Rightarrow>
          if fact_id \<notin> set (l_fact_ids existing)
          then dict_set normalized \<lparr>l_entity_name = l_entity_name existing,
                                     l_fact_ids = l_fact_ids existing @ [fact_id]\<rparr> index
          else index
      | None \<Rightarrow> dict_set normalized \<lparr>l_entity_name = entity, l_fact_ids = [fact_id]\<rparr> index)"

definition add_fact :: "fact_entry \<Rightarrow> ledger \<Rightarrow> ledger" where
  "add_fact new_fact l =
     l\<lparr>facts := dict_set (f_fact_id new_fact) new_fact (facts l),
       entity_index := fold (link_entity (f_fact_id new_fact)) (f_entities new_fact) (entity_index l)\<rparr>"

record constant_data =
  cd_name :: "string option"
  cd_value :: "string option"
  cd_type :: "string option"

record chunk_data =
  ck_file_path :: "string option"
  ck_constants :: "constant_data list"

definition add_chunk_constant :: "string \<Rightarrow> constant_data \<Rightarrow> ledger \<Rightarrow> ledger" where
  "add_chunk_constant file_path c l =
     (case cd_name c of
        None \<Rightarrow> l
      | Some name \<Rightarrow>
          if name = [] then l
          else add_constant \<lparr>k_name = name, k_file_path = file_path, k_value = cd_value c, k_type = cd_type c\<rparr> l)"

definition from_chunks :: "chunk_data list \<Rightarrow> ledger" where
  "from_chunks chunks =
     fold (\<lambda>chunk l.
             let file_path = (case ck_file_path chunk of None \<Rightarrow> '''' | Some p \<Rightarrow> p)
             in fold (add_chunk_constant file_path) (ck_constants chunk) l)
       chunks empty_ledger"

definition merge_ledgers :: "ledger \<Rightarrow> ledger \<Rightarrow> ledger" where
  "merge_ledgers l other =
     (let merged = empty_ledger\<lparr>constants := fold (\<lambda>(k, v). dict_set k v) (constants other) (constants l)\<rparr>;
          merged1 = fold add_fact (dict_values (facts l)) merged;
          merged2 = fold add_fact (dict_values (facts other)) merged1
      in merged2\<lparr>conflicts := conflicts l @ conflicts other\<rparr>)"

definition replace_constants_from_chunks :: "chunk_data list \<Rightarrow> ledger \<Rightarrow> ledger" where
  "replace_constants_from_chunks chunks l =
     (fold add_fact (dict_values (facts l)) (from_chunks chunks))\<lparr>conflicts := conflicts l\<rparr>"

subsection \<open>Queries\<close>

definition get_facts_for_files :: "string set \<Rightarrow> ledger \<Rightarrow> fact_entry list" where
  "get_facts_for_files file_paths l = filter (\<lambda>f. f_file_path f \<in> file_paths) (dict_values (facts l))"

definition present_facts :: "ledger \<Rightarrow> string list \<Rightarrow> fact_entry list" where
  "present_facts l ids = List.map_filter (dict_get (facts l)) ids"

definition get_facts_for_entity :: "string \<Rightarrow> ledger \<Rightarrow> fact_entry list" where
  "get_facts_for_entity entity l =
     (case dict_get (entity_index l) (normalize_entity_name entity) of
        None \<Rightarrow> []
      | Some link \<Rightarrow> present_facts l (l_fact_ids link))"

definition direct_fact_ids :: "string set \<Rightarrow> int option \<Rightarrow> ledger \<Rightarrow> string set" where
  "direct_fact_ids file_paths cluster_id l =
     set (map f_fact_id (filter (\<lambda>f. f_file_path f \<in> file_paths
                                   \<or> (cluster_id \<noteq> None \<and> Some (f_cluster_id f) = cluster_id))
           (dict_values (facts l))))"

definition get_related_facts ::
  "(string set \<Rightarrow> string list) \<Rightarrow> string set \<Rightarrow> int option \<Rightarrow> ledger \<Rightarrow> fact_entry list" where
  "get_related_facts enum file_paths cluster_id l =
     (let direct = direct_fact_ids file_paths cluster_id l;
          direct_facts = present_facts l (enum direct);
          entities = set (concat (map f_entities direct_facts));
          related_ids = fold (\<lambda>entity ids. ids \<union> set (map f_fact_id (get_facts_for_entity entity l)))
                          (enum entities) direct
      in present_facts l (enum related_ids))"

subsection \<open>Conflicts\<close>

definition negation_words :: "string list" where
  "negation_words = [''never'', ''always'', ''cannot'', ''must not'', ''does not'', ''is not'', ''are not'',
     ''no longer'', ''impossible'', ''forbidden'', ''prohibited'']"

text \<open>\<open>_NEGATION_PATTERNS.search\<close>: \<open>prev\<close> is the character before the text, if any.\<close>

fun has_negation :: "char option \<Rightarrow> string \<Rightarrow> bool" where
  "has_negation prev [] = False"
| "has_negation prev (c # s) =
     (\<not> word_before prev
        \<and> list_ex (\<lambda>w. starts_with (py_lower (c # s)) w \<and> \<not> word_after (drop (length w) (c # s))) negation_words
      \<or> has_negation (Some c) s)"

text \<open>\<open>_NUMERIC_PATTERN\<close> at the head of a text: the number and the rest.\<close>

definition match_numeric :: "char option \<Rightarrow> string \<Rightarrow> (string \<times> string) option" where
  "match_numeric prev s =
     (if word_before prev then None
      else case match_digits s of
             None \<Rightarrow> None
           | Some (ds, r) \<Rightarrow>
               (case Option.bind (match_lit ''.'' r) match_digits of
                  Some (fs, r2) \<Rightarrow> if word_after r2 then Some (ds, r) else Some (ds @ ''.'' @ fs, r2)
                | None \<Rightarrow> if word_after r then None else Some (ds, r)))"

lemma match_numeric_shorter: "match_numeric prev s = Some (n, r) \<Longrightarrow> length r < length s"
  by (auto simp: match_numeric_def match_digits_Some_iff match_lit_Some_iff bind_eq_Some_conv
      split: if_splits option.splits)

function find_numbers :: "char option \<Rightarrow> string \<Rightarrow> string list" where
  "find_numbers prev s =
     (case match_numeric prev s of
        Some (n, r) \<Rightarrow> n # find_numbers (Some (last n)) r
      | None \<Rightarrow> (case s of [] \<Rightarrow> [] | c # s' \<Rightarrow> find_numbers (Some c) s'))"
  by pat_completeness auto
termination
  by (relation "measure (\<lambda>(p, s). length s)") (auto dest: match_numeric_shorter)

declare find_numbers.simps [simp del]

text \<open>The reason text shows the two sets of numbers; their printed form \<open>show\<close> is an argument.\<close>

definition check_conflict ::
  "(string set \<Rightarrow> string) \<Rightarrow> fact_entry \<Rightarrow> fact_entry \<Rightarrow> string \<Rightarrow> fact_conflict option" where
  "check_conflict show_set fact_a fact_b entity_name =
     (let a_nums = set (find_numbers None (f_statement fact_a));
          b_nums = set (find_numbers None (f_statement fact_b))
      in if has_negation None (f_statement fact_a) \<noteq> has_negation None (f_statement fact_b)
         then Some \<lparr>x_fact_id_a = f_fact_id fact_a, x_fact_id_b = f_fact_id fact_b,
                    x_reason = ''Potential negation conflict for entity '' @ [CHR 0x27] @ entity_name @ [CHR 0x27]\<rparr>
         else if a_nums \<noteq> {} \<and> b_nums \<noteq> {} \<and> a_nums \<noteq> b_nums
         then Some \<lparr>x_fact_id_a = f_fact_id fact_a, x_fact_id_b = f_fact_id fact_b,
                    x_reason = ''Different numeric values for entity '' @ [CHR 0x27] @ entity_name @ [CHR 0x27]
                      @ '': '' @ show_set a_nums @ '' vs '' @ show_set b_nums\<rparr>
         else None)"

fun pair_conflicts :: "(string set \<Rightarrow> string) \<Rightarrow> string \<Rightarrow> fact_entry list \<Rightarrow> fact_conflict list" where
  "pair_conflicts show_set entity_name [] = []"
| "pair_conflicts show_set entity_name (fact_a # rest) =
     List.map_filter (\<lambda>fact_b. check_conflict show_set fact_a fact_b entity_name) rest
       @ pair_conflicts show_set entity_name rest"

definition detect_conflicts :: "(string set \<Rightarrow> string) \<Rightarrow> ledger \<Rightarrow> fact_conflict list" where
  "detect_conflicts show_set l =
     concat (map (\<lambda>(entity_name, link).
               if length (l_fact_ids link) < 2 then []
               else let facts_list = present_facts l (l_fact_ids link)
                    in if length facts_list < 2 then [] else pair_conflicts show_set entity_name facts_list)
       (entity_index l))"

text \<open>The end of \<open>extract_from_clusters\<close>: the ledgers of the clusters are merged in order.\<close>

definition merge_clusters :: "(string set \<Rightarrow> string) \<Rightarrow> ledger list \<Rightarrow> ledger" where
  "merge_clusters show_set ledgers =
     (let merged = fold (\<lambda>l m. merge_ledgers m l) ledgers empty_ledger
      in merged\<lparr>conflicts := conflicts merged @ detect_conflicts show_set merged\<rparr>)"

subsection \<open>Texts for prompts and reports\<close>

definition constants_by_file :: "ledger \<Rightarrow> (string, constant_entry list) pydict" where
  "constants_by_file l =
     fold (\<lambda>entry d. dict_set (k_file_path entry)
             ((case dict_get d (k_file_path entry) of None \<Rightarrow> [] | Some es \<Rightarrow> es) @ [entry]) d)
       (dict_values (constants l)) []"

definition constant_line :: "constant_entry \<Rightarrow> string" where
  "constant_line entry =
     ''  - '' @ k_name entry
       @ (case k_value entry of None \<Rightarrow> '''' | Some v \<Rightarrow> '' = '' @ v)
       @ (if truthy_str (k_type entry) then '' ('' @ the (k_type entry) @ '')'' else '''')"

definition limit_reached :: "int option \<Rightarrow> int \<Rightarrow> bool" where
  "limit_reached max_ents cnt = (case max_ents of None \<Rightarrow> False | Some m \<Rightarrow> m \<le> cnt)"

fun constant_lines :: "int option \<Rightarrow> constant_entry list \<Rightarrow> int \<Rightarrow> string list \<times> int" where
  "constant_lines max_ents [] cnt = ([], cnt)"
| "constant_lines max_ents (entry # entries) cnt =
     (if limit_reached max_ents cnt then ([], cnt)
      else let (ls, n) = constant_lines max_ents entries (cnt + 1) in (constant_line entry # ls, n))"

fun constant_files :: "int option \<Rightarrow> (string, constant_entry list) pydict \<Rightarrow> string list \<Rightarrow> int \<Rightarrow> string list \<times> int" where
  "constant_files max_ents by_file [] cnt = ([], cnt)"
| "constant_files max_ents by_file (file_path # file_paths) cnt =
     (if limit_reached max_ents cnt then ([], cnt)
      else let (file_lines, n) = constant_lines max_ents (sort_key k_name (the (dict_get by_file file_path))) cnt;
               (ls, n2) = constant_files max_ents by_file file_paths n
           in ((if file_lines \<noteq> [] then (nl # ''**'' @ file_path @ ''**:'') # file_lines else []) @ ls, n2))"

definition format_constants_by_file :: "int option \<Rightarrow> ledger \<Rightarrow> string list \<times> int" where
  "format_constants_by_file max_ents l =
     constant_files max_ents (constants_by_file l) (sort (dict_keys (constants_by_file l))) 0"

definition get_constants_prompt_context :: "int \<Rightarrow> ledger \<Rightarrow> string" where
  "get_constants_prompt_context max_ents l =
     (if constants l = [] then ''''
      else let (entry_lines, cnt) = format_constants_by_file (Some max_ents) l;
               ls = ''## Global Constants'' # entry_lines;
               n = int (length (constants l))
           in join_with [nl] (if cnt < n then ls @ [nl # ''... and '' @ str_int (n - cnt) @ '' more constants''] else ls))"

definition CONSTANTS_INSTRUCTION_FULL :: string where
  "CONSTANTS_INSTRUCTION_FULL =
     ''IMPORTANT: When your answer references configuration values, ''
       @ ''limits, or key figures from the source material, refer to them by their ''
       @ ''names (e.g., '' @ [CHR 0x27] @ ''the system processes up to MAX_BATCH_SIZE items'' @ [CHR 0x27] @ '') ''
       @ ''rather than embedding raw values.''"

definition CONSTANTS_INSTRUCTION_SHORT :: string where
  "CONSTANTS_INSTRUCTION_SHORT =
     ''When referencing configuration values or key figures, use their names '' @ ''rather than raw values.''"

definition get_constants_prompt_instruction :: "int \<Rightarrow> bool \<Rightarrow> ledger \<Rightarrow> string" where
  "get_constants_prompt_instruction max_ents use_short_form l =
     (let ctx = get_constants_prompt_context max_ents l in
      if ctx = [] then ''''
      else [nl, nl] @ ctx @ [nl, nl]
             @ (if use_short_form then CONSTANTS_INSTRUCTION_SHORT else CONSTANTS_INSTRUCTION_FULL))"

definition format_fact_location :: "string \<Rightarrow> fact_entry \<Rightarrow> string" where
  "format_fact_location dash f =
     (if truthy_str (f_url f)
      then (if truthy_str (f_source_section f) then the (f_url f) @ dash @ the (f_source_section f) else the (f_url f))
      else let fp = (if f_file_path f \<noteq> [] then f_file_path f else ''unknown'') in
           if truthy_str (f_source_section f) then fp @ dash @ the (f_source_section f)
           else if starts_with (py_lower fp) ''http://'' \<or> starts_with (py_lower fp) ''https://'' then fp
           else if f_start_line f \<noteq> 0 \<or> f_end_line f \<noteq> 0
           then fp @ '':'' @ str_int (f_start_line f) @ ''-'' @ str_int (f_end_line f)
           else fp)"

fun confidence_order :: "confidence_level \<Rightarrow> nat" where
  "confidence_order DEFINITE = 0"
| "confidence_order LIKELY = 1"
| "confidence_order INFERRED = 2"
| "confidence_order UNCERTAIN = 3"

definition sort_facts_by_priority :: "fact_entry list \<Rightarrow> fact_entry list" where
  "sort_facts_by_priority facts_list = sort_key (\<lambda>f. (confidence_order (f_confidence f), f_category f)) facts_list"

definition MAX_FACTS_LIMIT :: nat where
  "MAX_FACTS_LIMIT = 500"

definition format_facts_simple :: "string \<Rightarrow> fact_entry list \<Rightarrow> string" where
  "format_facts_simple dash facts_list =
     (if facts_list = [] then ''''
      else let sorted_facts = sort_facts_by_priority facts_list;
               truncated = MAX_FACTS_LIMIT < length sorted_facts;
               shown = (if truncated then take MAX_FACTS_LIMIT sorted_facts else sorted_facts);
               ls = map (\<lambda>f. ''- ['' @ ascii_upper (take 3 (confidence_value (f_confidence f))) @ ''] ''
                             @ f_statement f @ '' ('' @ format_fact_location dash f @ '')'') shown
           in join_with [nl] ls
                @ (if truncated
                   then [nl, nl] @ ''... truncated to '' @ str_int (int MAX_FACTS_LIMIT) @ '' facts (15k token limit)''
                   else ''''))"

definition conflict_line :: "fact_conflict \<Rightarrow> string" where
  "conflict_line c =
     ''- ['' @ take 6 (x_fact_id_a c) @ ''] vs ['' @ take 6 (x_fact_id_b c) @ '']: ''
       @ (if 50 < length (x_reason c) then take 50 (x_reason c) @ ''...'' else x_reason c)"

definition conflicts_section :: "ledger \<Rightarrow> string" where
  "conflicts_section l =
     (if conflicts l = [] then ''''
      else join_with [nl]
        ((nl # ''### Potential Conflicts (require verification)'')
         # map conflict_line (take 5 (conflicts l))
         @ (if 5 < length (conflicts l)
            then [''... and '' @ str_int (int (length (conflicts l)) - 5) @ '' more conflicts''] else [])))"

definition get_constants_report_section :: "ledger \<Rightarrow> string" where
  "get_constants_report_section l =
     (if constants l = [] then ''''
      else join_with [nl] (''### Constants Referenced'' # fst (format_constants_by_file None l)))"

definition title_case :: "string \<Rightarrow> string" where
  "title_case s = (case s of [] \<Rightarrow> [] | c # r \<Rightarrow> upper_char c # r)"

definition get_facts_report_section :: "string \<Rightarrow> ledger \<Rightarrow> string" where
  "get_facts_report_section dash l =
     (if facts l = [] then ''''
      else join_with [nl]
        (''### Verified Facts'' #
         concat (map (\<lambda>confidence.
           let facts_list = filter (\<lambda>f. f_confidence f = confidence) (dict_values (facts l)) in
           if facts_list = [] then []
           else (nl # ''#### '' @ title_case (confidence_value confidence) @ '' Facts'')
                # map (\<lambda>f. ''- [F-'' @ f_fact_id f @ ''] '' @ f_statement f @ '' ('' @ format_fact_location dash f @ '')'')
                    (sort_key (\<lambda>f. (f_category f, f_file_path f)) facts_list))
           confidence_levels)))"

definition get_report_suffix :: "string \<Rightarrow> ledger \<Rightarrow> string" where
  "get_report_suffix dash l =
     (let sections = (if constants l \<noteq> [] \<or> facts l \<noteq> [] then [nl # ''## Evidence''] else [])
            @ (if get_constants_report_section l \<noteq> [] then [get_constants_report_section l] else [])
            @ (if get_facts_report_section dash l \<noteq> [] then [get_facts_report_section dash l] else [])
      in if sections = [] then '''' else join_with [nl, nl] sections)"

definition insert_into_report :: "string \<Rightarrow> string \<Rightarrow> ledger \<Rightarrow> string" where
  "insert_into_report dash answer l =
     (let suffix = get_report_suffix dash l in
      if suffix = [] then answer
      else if str_contains answer ''## Sources''
      then str_replace ''## Sources'' (suffix @ [nl, nl] @ ''## Sources'') answer
      else answer @ [nl] @ suffix)"

subsection \<open>The JSON form\<close>

definition opt_str :: "string option \<Rightarrow> pyval" where
  "opt_str s = (case s of None \<Rightarrow> PyNone | Some t \<Rightarrow> PyStr t)"

definition constant_to_dict :: "constant_entry \<Rightarrow> pyval" where
  "constant_to_dict c = PyDict
     [(''name'', PyStr (k_name c)), (''file_path'', PyStr (k_file_path c)),
      (''value'', opt_str (k_value c)), (''type'', opt_str (k_type c))]"

definition fact_to_dict :: "fact_entry \<Rightarrow> pyval" where
  "fact_to_dict f = PyDict
     [(''fact_id'', PyStr (f_fact_id f)), (''statement'', PyStr (f_statement f)),
      (''file_path'', PyStr (f_file_path f)), (''start_line'', PyInt (f_start_line f)),
      (''end_line'', PyInt (f_end_line f)), (''category'', PyStr (f_category f)),
      (''confidence'', PyStr (confidence_value (f_confidence f))),
      (''entities'', PyList (map PyStr (f_entities f))), (''cluster_id'', PyInt (f_cluster_id f)),
      (''url'', opt_str (f_url f)), (''source_section'', opt_str (f_source_section f))]"

definition conflict_to_dict :: "fact_conflict \<Rightarrow> pyval" where
  "conflict_to_dict c = PyDict
     [(''fact_id_a'', PyStr (x_fact_id_a c)), (''fact_id_b'', PyStr (x_fact_id_b c)), (''reason'', PyStr (x_reason c))]"

definition ledger_to_dict :: "ledger \<Rightarrow> (string \<times> pyval) list" where
  "ledger_to_dict l =
     [(''constants'', PyDict (map (\<lambda>(k, c). (k, constant_to_dict c)) (constants l))),
      (''facts'', PyDict (map (\<lambda>(k, f). (k, fact_to_dict f)) (facts l))),
      (''conflicts'', PyList (map conflict_to_dict (conflicts l)))]"

text \<open>
  Reading: \<open>d[k]\<close> raises \<open>KeyError\<close>; a value of another type than the declared one, which the code
  would store unchecked, is \<open>Unmodelled\<close>.
\<close>

fun val_str :: "pyval \<Rightarrow> string result" where
  "val_str (PyStr s) = Inr s"
| "val_str _ = Inl Unmodelled"

fun val_int :: "pyval \<Rightarrow> int result" where
  "val_int (PyInt i) = Inr i"
| "val_int _ = Inl Unmodelled"

fun val_opt_str :: "pyval \<Rightarrow> string option result" where
  "val_opt_str PyNone = Inr None"
| "val_opt_str (PyStr s) = Inr (Some s)"
| "val_opt_str _ = Inl Unmodelled"

fun val_items :: "pyval \<Rightarrow> (string \<times> pyval) list result" where
  "val_items (PyDict d) = Inr d"
| "val_items _ = Inl Unmodelled"

fun val_list :: "pyval \<Rightarrow> pyval list result" where
  "val_list (PyList xs) = Inr xs"
| "val_list _ = Inl Unmodelled"

definition item :: "(string \<times> pyval) list \<Rightarrow> string \<Rightarrow> pyval result" where
  "item d k = (case dict_get d k of None \<Rightarrow> Inl KeyError | Some v \<Rightarrow> Inr v)"

definition item_or :: "(string \<times> pyval) list \<Rightarrow> string \<Rightarrow> pyval \<Rightarrow> pyval" where
  "item_or d k v = (case dict_get d k of None \<Rightarrow> v | Some w \<Rightarrow> w)"

text \<open>\<open>tuple(v)\<close>: a string is taken apart into its characters.\<close>

fun val_tuple :: "pyval \<Rightarrow> string list result" where
  "val_tuple (PyList xs) = map_result val_str xs"
| "val_tuple (PyStr s) = Inr (map (\<lambda>c. [c]) s)"
| "val_tuple (PyDict d) = Inr (map fst d)"
| "val_tuple _ = Inl TypeError"

fun val_confidence :: "pyval \<Rightarrow> confidence_level result" where
  "val_confidence (PyStr s) = confidence_of_value s"
| "val_confidence _ = Inl ValueError"

definition constant_from_dict :: "pyval \<Rightarrow> constant_entry result" where
  "constant_from_dict v =
     bind_result (val_items v) (\<lambda>d.
     bind_result (bind_result (item d ''name'') val_str) (\<lambda>name.
     bind_result (bind_result (item d ''file_path'') val_str) (\<lambda>path.
     bind_result (val_opt_str (item_or d ''value'' PyNone)) (\<lambda>vl.
     bind_result (val_opt_str (item_or d ''type'' PyNone)) (\<lambda>ty.
       Inr \<lparr>k_name = name, k_file_path = path, k_value = vl, k_type = ty\<rparr>)))))"

definition fact_from_dict :: "pyval \<Rightarrow> fact_entry result" where
  "fact_from_dict v =
     bind_result (val_items v) (\<lambda>d.
     bind_result (bind_result (item d ''fact_id'') val_str) (\<lambda>i.
     bind_result (bind_result (item d ''statement'') val_str) (\<lambda>st.
     bind_result (bind_result (item d ''file_path'') val_str) (\<lambda>path.
     bind_result (bind_result (item d ''start_line'') val_int) (\<lambda>sl.
     bind_result (bind_result (item d ''end_line'') val_int) (\<lambda>el.
     bind_result (bind_result (item d ''category'') val_str) (\<lambda>cat.
     bind_result (bind_result (item d ''confidence'') val_confidence) (\<lambda>conf.
     bind_result (val_tuple (item_or d ''entities'' (PyList []))) (\<lambda>es.
     bind_result (val_int (item_or d ''cluster_id'' (PyInt 0))) (\<lambda>cid.
     bind_result (val_opt_str (item_or d ''url'' PyNone)) (\<lambda>url.
     bind_result (val_opt_str (item_or d ''source_section'' PyNone)) (\<lambda>sec.
       Inr \<lparr>f_fact_id = i, f_statement = st, f_file_path = path, f_start_line = sl, f_end_line = el,
            f_category = cat, f_confidence = conf, f_entities = es, f_cluster_id = cid,
            f_url = url, f_source_section = sec\<rparr>))))))))))))"

definition conflict_from_dict :: "pyval \<Rightarrow> fact_conflict result" where
  "conflict_from_dict v =
     bind_result (val_items v) (\<lambda>d.
     bind_result (bind_result (item d ''fact_id_a'') val_str) (\<lambda>a.
     bind_result (bind_result (item d ''fact_id_b'') val_str) (\<lambda>b.
     bind_result (bind_result (item d ''reason'') val_str) (\<lambda>r.
       Inr \<lparr>x_fact_id_a = a, x_fact_id_b = b, x_reason = r\<rparr>))))"

definition ledger_from_dict :: "(string \<times> pyval) list \<Rightarrow> ledger result" where
  "ledger_from_dict data =
     bind_result (val_items (item_or data ''constants'' (PyDict []))) (\<lambda>cs.
     bind_result (map_result (\<lambda>(key, v). bind_result (constant_from_dict v) (\<lambda>c. Inr (key, c))) cs) (\<lambda>consts.
     bind_result (val_items (item_or data ''facts'' (PyDict []))) (\<lambda>fds.
     bind_result (map_result (\<lambda>(key, v). fact_from_dict v) fds) (\<lambda>fs.
     bind_result (val_list (item_or data ''conflicts'' (PyList []))) (\<lambda>xds.
     bind_result (map_result conflict_from_dict xds) (\<lambda>xs.
       let l0 = empty_ledger\<lparr>constants := fold (\<lambda>(key, c). dict_set key c) consts []\<rparr>
       in Inr ((fold add_fact fs l0)\<lparr>conflicts := xs\<rparr>)))))))"

subsection \<open>The entity index\<close>

text \<open>The ids under a normalised name, and the index of a list of facts added in order.\<close>

definition ids_of :: "(string, entity_link) pydict \<Rightarrow> string \<Rightarrow> string list" where
  "ids_of index n = (case dict_get index n of None \<Rightarrow> [] | Some link \<Rightarrow> l_fact_ids link)"

definition index_facts :: "fact_entry list \<Rightarrow> (string, entity_link) pydict \<Rightarrow> (string, entity_link) pydict" where
  "index_facts fs index = fold (\<lambda>f. fold (link_entity (f_fact_id f)) (f_entities f)) fs index"

definition mentions :: "string \<Rightarrow> fact_entry \<Rightarrow> bool" where
  "mentions n f \<longleftrightarrow> n \<in> normalize_entity_name ` set (f_entities f)"

lemma ids_of_link_entity:
  "ids_of (link_entity i e index) n =
     (if n = normalize_entity_name e \<and> i \<notin> set (ids_of index n) then ids_of index n @ [i] else ids_of index n)"
  by (auto simp: link_entity_def ids_of_def Let_def split: option.split)

lemma ids_of_link_entities:
  "ids_of (fold (link_entity i) es index) n =
     (if n \<in> normalize_entity_name ` set es \<and> i \<notin> set (ids_of index n)
      then ids_of index n @ [i] else ids_of index n)"
  by (induction es arbitrary: index) (auto simp: ids_of_link_entity)

lemma ids_of_index_facts:
  assumes "distinct (map f_fact_id fs)" and "\<And>f. f \<in> set fs \<Longrightarrow> f_fact_id f \<notin> set (ids_of index n)"
  shows "ids_of (index_facts fs index) n = ids_of index n @ map f_fact_id (filter (mentions n) fs)"
  using assms
proof (induction fs arbitrary: index)
  case Nil
  then show ?case by (simp add: index_facts_def)
next
  case (Cons f fs)
  let ?index = "fold (link_entity (f_fact_id f)) (f_entities f) index"
  have ids: "ids_of ?index n = ids_of index n @ (if mentions n f then [f_fact_id f] else [])"
    using Cons.prems(2) [of f] by (simp add: ids_of_link_entities mentions_def)
  have "f_fact_id g \<notin> set (ids_of ?index n)" if m: "g \<in> set fs" for g
    using m Cons.prems by (auto simp: ids image_iff)
  with Cons.IH [of ?index] Cons.prems(1)
  have "ids_of (index_facts fs ?index) n = ids_of ?index n @ map f_fact_id (filter (mentions n) fs)" by simp
  then show ?case by (simp add: ids index_facts_def)
qed

lemma ids_of_built_index:
  "distinct (map f_fact_id fs) \<Longrightarrow> ids_of (index_facts fs []) n = map f_fact_id (filter (mentions n) fs)"
  using ids_of_index_facts [of fs "[]" n] by (simp add: ids_of_def)

lemma link_entity_known: "i \<in> set (ids_of index (normalize_entity_name e)) \<Longrightarrow> link_entity i e index = index"
  by (auto simp: link_entity_def ids_of_def Let_def split: option.splits)

lemma link_entities_known:
  "(\<And>e. e \<in> set es \<Longrightarrow> i \<in> set (ids_of index (normalize_entity_name e))) \<Longrightarrow> fold (link_entity i) es index = index"
  by (induction es) (simp_all add: link_entity_known)

subsection \<open>Well-formed ledgers\<close>

text \<open>
  Constants and facts stand under their keys, and the index is the one that adding the facts in
  order builds.  A fact may be added when its id is new or stands for the same fact: the ids are
  hashes, so this is what the ledger relies on.
\<close>

definition constant_key :: "constant_entry \<Rightarrow> string" where
  "constant_key c = k_file_path c @ '':'' @ k_name c"

definition ledger_ok :: "ledger \<Rightarrow> bool" where
  "ledger_ok l \<longleftrightarrow>
     dict_ok (constants l) \<and> list_all (\<lambda>(k, c). k = constant_key c) (constants l)
     \<and> dict_ok (facts l) \<and> list_all (\<lambda>(k, f). k = f_fact_id f) (facts l)
     \<and> entity_index l = index_facts (dict_values (facts l)) []"

definition addable :: "ledger \<Rightarrow> fact_entry \<Rightarrow> bool" where
  "addable l f \<longleftrightarrow> (case dict_get (facts l) (f_fact_id f) of None \<Rightarrow> True | Some g \<Rightarrow> g = f)"

lemma ledger_ok_empty [simp]: "ledger_ok empty_ledger"
  by (simp add: ledger_ok_def empty_ledger_def dict_values_def index_facts_def)

lemma fact_keys: "ledger_ok l \<Longrightarrow> map fst (facts l) = map f_fact_id (dict_values (facts l))"
  by (auto simp: ledger_ok_def dict_values_def list_all_iff)

lemma facts_distinct: "ledger_ok l \<Longrightarrow> distinct (map f_fact_id (dict_values (facts l)))"
  using fact_keys [of l] by (simp add: ledger_ok_def dict_ok_def)

lemma dict_get_fact: "ledger_ok l \<Longrightarrow> f \<in> set (dict_values (facts l)) \<Longrightarrow> dict_get (facts l) (f_fact_id f) = Some f"
  by (auto simp: ledger_ok_def dict_values_def dict_get_Some_iff list_all_iff)

lemma dict_get_fact_iff:
  "ledger_ok l \<Longrightarrow> dict_get (facts l) i = Some f \<longleftrightarrow> f \<in> set (dict_values (facts l)) \<and> f_fact_id f = i"
  by (auto simp: ledger_ok_def dict_values_def dict_get_Some_iff list_all_iff intro: rev_image_eqI)

lemma index_ids:
  "ledger_ok l \<Longrightarrow> ids_of (entity_index l) n = map f_fact_id (filter (mentions n) (dict_values (facts l)))"
  using facts_distinct [of l] ids_of_built_index by (simp add: ledger_ok_def)

lemma dict_set_same: "dict_get d k = Some v \<Longrightarrow> dict_set k v d = d"
  by (induction d) (auto split: if_splits)

lemma add_known_fact:
  assumes ok: "ledger_ok l" and known: "dict_get (facts l) (f_fact_id f) = Some f"
  shows "add_fact f l = l"
proof -
  have "f \<in> set (dict_values (facts l))" using known ok by (simp add: dict_get_fact_iff)
  then have "fold (link_entity (f_fact_id f)) (f_entities f) (entity_index l) = entity_index l"
    by (intro link_entities_known) (auto simp: index_ids [OF ok] mentions_def)
  then show ?thesis using known by (simp add: add_fact_def dict_set_same)
qed

lemma add_new_fact:
  assumes ok: "ledger_ok l" and "dict_get (facts l) (f_fact_id f) = None"
  shows "ledger_ok (add_fact f l)" and "facts (add_fact f l) = facts l @ [(f_fact_id f, f)]"
proof -
  have new: "f_fact_id f \<notin> fst ` set (facts l)" using assms(2) by (simp add: dict_get_None_iff)
  then show fs: "facts (add_fact f l) = facts l @ [(f_fact_id f, f)]" by (simp add: add_fact_def dict_set_new)
  have "entity_index (add_fact f l) = index_facts (dict_values (facts l) @ [f]) []"
    using ok by (simp add: add_fact_def ledger_ok_def index_facts_def)
  then show "ledger_ok (add_fact f l)"
    using ok new fs by (simp add: ledger_ok_def dict_values_def dict_ok_def) (simp add: add_fact_def)
qed

lemma add_fact_constants [simp]: "constants (add_fact f l) = constants l" "conflicts (add_fact f l) = conflicts l"
  by (simp_all add: add_fact_def)

lemma add_fact_ok:
  assumes "ledger_ok l" and "addable l f"
  shows "ledger_ok (add_fact f l)"
    and "dict_get (facts (add_fact f l)) = (dict_get (facts l))(f_fact_id f \<mapsto> f)"
    and "set (dict_values (facts (add_fact f l))) = insert f (set (dict_values (facts l)))"
proof -
  have r: "ledger_ok (add_fact f l) \<and> set (dict_values (facts (add_fact f l))) = insert f (set (dict_values (facts l)))"
  proof (cases "dict_get (facts l) (f_fact_id f)")
    case None
    then show ?thesis using add_new_fact [OF assms(1)] by (simp add: dict_values_def)
  next
    case (Some g)
    with assms have "dict_get (facts l) (f_fact_id f) = Some f" by (simp add: addable_def)
    with assms(1) show ?thesis using dict_get_fact_iff [OF assms(1)] by (auto simp: add_known_fact)
  qed
  then show "ledger_ok (add_fact f l)"
    "set (dict_values (facts (add_fact f l))) = insert f (set (dict_values (facts l)))" by simp_all
  show "dict_get (facts (add_fact f l)) = (dict_get (facts l))(f_fact_id f \<mapsto> f)"
    by (simp add: add_fact_def fun_upd_def)
qed

lemma add_facts_ok:
  assumes "ledger_ok l" and "\<And>f. f \<in> set fs \<Longrightarrow> addable l f" and "distinct (map f_fact_id fs)"
  shows "ledger_ok (fold add_fact fs l) \<and> constants (fold add_fact fs l) = constants l
     \<and> conflicts (fold add_fact fs l) = conflicts l
     \<and> set (dict_values (facts (fold add_fact fs l))) = set (dict_values (facts l)) \<union> set fs"
  using assms
proof (induction fs arbitrary: l)
  case (Cons f fs)
  note f = add_fact_ok [OF Cons.prems(1) Cons.prems(2) [of f, simplified]]
  have "addable (add_fact f l) g" if m: "g \<in> set fs" for g
    using m Cons.prems(2) [of g] Cons.prems(3) by (auto simp: addable_def f(2) image_iff)
  with Cons.IH [of "add_fact f l"] Cons.prems(3) f show ?case by auto
qed simp

subsection \<open>Every operation keeps a ledger well-formed\<close>

lemma add_constant_ok:
  assumes "ledger_ok l"
  shows "ledger_ok (add_constant c l)" and "facts (add_constant c l) = facts l"
    and "entity_index (add_constant c l) = entity_index l"
proof -
  have "list_all (\<lambda>(k, c). k = constant_key c) (dict_set (constant_key c) c (constants l))"
    if m: "list_all (\<lambda>(k, c). k = constant_key c) (constants l)"
    using m set_dict_set_subset [of "constant_key c" c "constants l"] by (auto simp: list_all_iff)
  then show "ledger_ok (add_constant c l)"
    using assms by (auto simp: ledger_ok_def add_constant_def constant_key_def Let_def)
qed (simp_all add: add_constant_def Let_def)

lemma add_chunk_constant_ok: "ledger_ok l \<Longrightarrow> ledger_ok (add_chunk_constant p c l)"
  and add_chunk_constant_facts: "facts (add_chunk_constant p c l) = facts l"
  by (auto simp: add_chunk_constant_def add_constant_ok split: option.split)
     (simp_all add: add_constant_def Let_def)

lemma add_chunk_constants_ok:
  "ledger_ok l \<Longrightarrow> facts l = [] \<Longrightarrow>
   ledger_ok (fold (add_chunk_constant p) cs l) \<and> facts (fold (add_chunk_constant p) cs l) = []"
  by (induction cs arbitrary: l) (simp_all add: add_chunk_constant_ok add_chunk_constant_facts)

lemma from_chunks_ok: "ledger_ok (from_chunks chunks) \<and> facts (from_chunks chunks) = []"
proof -
  let ?step = "\<lambda>chunk l. let file_path = (case ck_file_path chunk of None \<Rightarrow> '''' | Some p \<Rightarrow> p)
             in fold (add_chunk_constant file_path) (ck_constants chunk) l"
  have "ledger_ok l \<Longrightarrow> facts l = [] \<Longrightarrow> ledger_ok (fold ?step chunks l) \<and> facts (fold ?step chunks l) = []" for l
    by (induction chunks arbitrary: l) (simp_all add: Let_def add_chunk_constants_ok)
  from this [OF ledger_ok_empty] show ?thesis by (simp add: from_chunks_def empty_ledger_def)
qed

definition same_ids_same_facts :: "ledger \<Rightarrow> ledger \<Rightarrow> bool" where
  "same_ids_same_facts l l' \<longleftrightarrow> list_all (addable l) (dict_values (facts l'))"

lemma merged_constants_ok:
  assumes "ledger_ok l" and "ledger_ok l'"
  shows "ledger_ok (empty_ledger\<lparr>constants := fold (\<lambda>(k, v). dict_set k v) (constants l') (constants l)\<rparr>)"
proof -
  have "dict_ok (fold (\<lambda>(k, v). dict_set k v) kvs d) \<and>
        list_all (\<lambda>(k, c). k = constant_key c) (fold (\<lambda>(k, v). dict_set k v) kvs d)"
    if m: "dict_ok d" "list_all (\<lambda>(k, c). k = constant_key c) d" "list_all (\<lambda>(k, c). k = constant_key c) kvs"
    for kvs d
    using m
  proof (induction kvs arbitrary: d)
    case (Cons e kvs)
    obtain k c where e: "e = (k, c)" by (cases e)
    have "list_all (\<lambda>(k, c). k = constant_key c) (dict_set k c d)"
      using Cons.prems set_dict_set_subset [of k c d] by (auto simp: list_all_iff e)
    with Cons.IH [of "dict_set k c d"] Cons.prems show ?case by (simp add: e dict_ok_set)
  qed simp
  from this [of "constants l" "constants l'"] show ?thesis
    using assms by (simp add: ledger_ok_def empty_ledger_def dict_values_def index_facts_def)
qed

lemma merge_ledgers_ok:
  assumes "ledger_ok l" and "ledger_ok l'" and "same_ids_same_facts l l'"
  shows "ledger_ok (merge_ledgers l l')"
    and "set (dict_values (facts (merge_ledgers l l'))) = set (dict_values (facts l)) \<union> set (dict_values (facts l'))"
proof -
  let ?m0 = "empty_ledger\<lparr>constants := fold (\<lambda>(k, v). dict_set k v) (constants l') (constants l)\<rparr>"
  let ?m1 = "fold add_fact (dict_values (facts l)) ?m0"
  let ?m2 = "fold add_fact (dict_values (facts l')) ?m1"
  have ok0: "ledger_ok ?m0" using assms(1,2) by (rule merged_constants_ok)
  have m1: "ledger_ok ?m1 \<and> set (dict_values (facts ?m1)) = set (dict_values (facts l))"
    using add_facts_ok [OF ok0 _ facts_distinct [OF assms(1)]] by (simp add: addable_def empty_ledger_def dict_values_def)
  have "addable ?m1 f" if m: "f \<in> set (dict_values (facts l'))" for f
  proof -
    have "addable l f" using m assms(3) by (simp add: same_ids_same_facts_def list_all_iff)
    moreover have "dict_get (facts ?m1) i = dict_get (facts l) i" for i
      using m1 dict_get_fact_iff [OF assms(1), of i] dict_get_fact_iff [of ?m1 i]
      by (cases "dict_get (facts ?m1) i"; cases "dict_get (facts l) i") auto
    ultimately show ?thesis by (simp add: addable_def)
  qed
  then have "ledger_ok ?m2 \<and> set (dict_values (facts ?m2)) = set (dict_values (facts l)) \<union> set (dict_values (facts l'))"
    using add_facts_ok [OF _ _ facts_distinct [OF assms(2)], of ?m1] m1 by simp
  then show "ledger_ok (merge_ledgers l l')"
    "set (dict_values (facts (merge_ledgers l l'))) = set (dict_values (facts l)) \<union> set (dict_values (facts l'))"
    by (simp_all add: merge_ledgers_def Let_def ledger_ok_def)
qed

lemma replace_constants_ok:
  assumes "ledger_ok l"
  shows "ledger_ok (replace_constants_from_chunks chunks l)"
    and "set (dict_values (facts (replace_constants_from_chunks chunks l))) = set (dict_values (facts l))"
proof -
  have "addable (from_chunks chunks) f" for f using from_chunks_ok [of chunks] by (simp add: addable_def)
  from add_facts_ok [OF _ this facts_distinct [OF assms]] from_chunks_ok [of chunks]
  have "ledger_ok (fold add_fact (dict_values (facts l)) (from_chunks chunks))
      \<and> set (dict_values (facts (fold add_fact (dict_values (facts l)) (from_chunks chunks)))) = set (dict_values (facts l))"
    by (simp add: dict_values_def)
  then show "ledger_ok (replace_constants_from_chunks chunks l)"
    "set (dict_values (facts (replace_constants_from_chunks chunks l))) = set (dict_values (facts l))"
    by (simp_all add: replace_constants_from_chunks_def ledger_ok_def)
qed

text \<open>
  C36: As long as equal ids stand for equal facts, every operation keeps the ledger well-formed
  (constants and facts under their own keys, and the entity index exactly that of its facts);
  merging gives the union of the facts and rebuilding the constants keeps them.
\<close>

theorem operations_keep_ledger_ok:
  assumes "ledger_ok l" and "ledger_ok l'" and "addable l f" and "same_ids_same_facts l l'"
  shows "ledger_ok (from_chunks chunks) \<and> ledger_ok (add_constant c l) \<and> ledger_ok (add_fact f l)
     \<and> ledger_ok (merge_ledgers l l') \<and> ledger_ok (replace_constants_from_chunks chunks l)
     \<and> set (dict_values (facts (merge_ledgers l l'))) = set (dict_values (facts l)) \<union> set (dict_values (facts l'))
     \<and> set (dict_values (facts (replace_constants_from_chunks chunks l))) = set (dict_values (facts l))"
  using from_chunks_ok add_constant_ok(1) [OF assms(1)] add_fact_ok(1) [OF assms(1,3)]
    merge_ledgers_ok [OF assms(1,2,4)] replace_constants_ok [OF assms(1)] by blast

definition sample_fact :: "string \<Rightarrow> string \<Rightarrow> string list \<Rightarrow> string \<Rightarrow> int \<Rightarrow> fact_entry" where
  "sample_fact i st es path cid =
     \<lparr>f_fact_id = i, f_statement = st, f_file_path = path, f_start_line = 1, f_end_line = 2,
      f_category = ''general'', f_confidence = LIKELY, f_entities = es, f_cluster_id = cid,
      f_url = None, f_source_section = None\<rparr>"

lemma sample_ledger_ok: "ledger_ok (add_fact (sample_fact i st es path cid) empty_ledger)"
  by (intro add_fact_ok(1) ledger_ok_empty) (simp add: addable_def empty_ledger_def)

lemma operations_keep_ledger_ok_witness:
  "ledger_ok (merge_ledgers (add_fact (sample_fact ''1'' ''a'' [''X''] ''p'' 0) empty_ledger) empty_ledger)"
  using operations_keep_ledger_ok [OF sample_ledger_ok [of "''1''" "''a''" "[''X'']" "''p''" 0] ledger_ok_empty,
      where f = "sample_fact ''2'' ''b'' [] ''q'' 1"]
  by (simp add: same_ids_same_facts_def addable_def add_fact_def empty_ledger_def sample_fact_def dict_values_def)

subsection \<open>The queries\<close>

lemma present_facts_map_id:
  "ledger_ok l \<Longrightarrow> set fs \<subseteq> set (dict_values (facts l)) \<Longrightarrow> present_facts l (map f_fact_id fs) = fs"
  by (induction fs) (auto simp: present_facts_def map_filter_simps dict_get_fact)

lemma facts_for_entity_eq:
  assumes "ledger_ok l"
  shows "get_facts_for_entity entity l = filter (mentions (normalize_entity_name entity)) (dict_values (facts l))"
proof -
  let ?n = "normalize_entity_name entity"
  let ?fs = "filter (mentions ?n) (dict_values (facts l))"
  have ids: "ids_of (entity_index l) ?n = map f_fact_id ?fs" using assms by (rule index_ids)
  have "get_facts_for_entity entity l = present_facts l (ids_of (entity_index l) ?n)"
    by (simp add: get_facts_for_entity_def ids_of_def present_facts_def map_filter_simps split: option.split)
  also have "\<dots> = ?fs" unfolding ids by (rule present_facts_map_id [OF assms]) auto
  finally show ?thesis .
qed

lemma dict_ok_link_entities: "dict_ok index \<Longrightarrow> dict_ok (fold (link_entity i) es index)"
  by (induction es arbitrary: index) (auto simp: link_entity_def Let_def split: option.split)

lemma index_dict_ok: "ledger_ok l \<Longrightarrow> dict_ok (entity_index l)"
proof -
  have "dict_ok index \<Longrightarrow> dict_ok (index_facts fs index)" for fs index
    by (induction fs arbitrary: index) (simp_all add: index_facts_def dict_ok_link_entities)
  then show "ledger_ok l \<Longrightarrow> dict_ok (entity_index l)" by (simp add: ledger_ok_def)
qed

lemma index_has_key:
  assumes "ledger_ok l" and "f \<in> set (dict_values (facts l))" and "mentions n f"
  shows "\<exists>link. (n, link) \<in> set (entity_index l)"
proof -
  have "f_fact_id f \<in> set (ids_of (entity_index l) n)" using assms by (auto simp: index_ids)
  then show ?thesis
    by (cases "dict_get (entity_index l) n") (auto simp: ids_of_def dest: map_of_SomeD)
qed

text \<open>
  In a well-formed ledger the lookup of an entity returns exactly the facts that name it, up to
  case and surrounding white space, in the order in which the facts were added.
\<close>

theorem facts_for_entity_exact:
  assumes "ledger_ok l"
  shows "get_facts_for_entity entity l
       = filter (\<lambda>f. normalize_entity_name entity \<in> normalize_entity_name ` set (f_entities f)) (dict_values (facts l))"
  unfolding facts_for_entity_eq [OF assms] by (intro filter_cong) (simp_all add: mentions_def)

lemma facts_for_entity_exact_witness:
  "get_facts_for_entity ''x '' (add_fact (sample_fact ''1'' ''a'' [''X''] ''p'' 0) empty_ledger)
     = [sample_fact ''1'' ''a'' [''X''] ''p'' 0]"
  unfolding facts_for_entity_exact [OF sample_ledger_ok] by code_simp

text \<open>The facts related to some files: those of the files (or the cluster) and all that share an entity with one of them.\<close>

definition shares_entity :: "fact_entry \<Rightarrow> fact_entry \<Rightarrow> bool" where
  "shares_entity f g \<longleftrightarrow>
     normalize_entity_name ` set (f_entities f) \<inter> normalize_entity_name ` set (f_entities g) \<noteq> {}"

definition is_direct :: "string set \<Rightarrow> int option \<Rightarrow> fact_entry \<Rightarrow> bool" where
  "is_direct file_paths cluster_id f \<longleftrightarrow>
     f_file_path f \<in> file_paths \<or> (cluster_id \<noteq> None \<and> Some (f_cluster_id f) = cluster_id)"

lemma set_present_facts:
  assumes "ledger_ok l"
  shows "set (present_facts l ids) = {f \<in> set (dict_values (facts l)). f_fact_id f \<in> set ids}"
proof -
  have "set (List.map_filter g xs) = {y. \<exists>x\<in>set xs. g x = Some y}" for g :: "string \<Rightarrow> fact_entry option" and xs
    by (induction xs) (auto simp: map_filter_simps split: option.split)
  then show ?thesis using dict_get_fact_iff [OF assms] by (auto simp: present_facts_def)
qed

lemma distinct_present_facts: "ledger_ok l \<Longrightarrow> distinct ids \<Longrightarrow> distinct (map f_fact_id (present_facts l ids))"
proof (induction ids)
  case (Cons i ids)
  show ?case
  proof (cases "dict_get (facts l) i")
    case None
    then have "present_facts l (i # ids) = present_facts l ids" by (simp add: present_facts_def map_filter_simps)
    with Cons show ?thesis by simp
  next
    case (Some f)
    then have "present_facts l (i # ids) = f # present_facts l ids" by (simp add: present_facts_def map_filter_simps)
    moreover have "f_fact_id f = i" using Some dict_get_fact_iff [OF Cons.prems(1)] by simp
    moreover have "distinct (map f_fact_id (present_facts l ids))" using Cons.IH Cons.prems by simp
    moreover have "i \<notin> f_fact_id ` set (present_facts l ids)"
      using Cons.prems(2) unfolding set_present_facts [OF Cons.prems(1)] by auto
    ultimately show ?thesis by simp
  qed
qed (simp add: present_facts_def map_filter_simps)

lemma set_present_ids:
  assumes "ledger_ok l" and "A \<subseteq> set (dict_values (facts l))" and "set ids = f_fact_id ` A"
  shows "set (present_facts l ids) = A"
proof -
  have "inj_on f_fact_id (set (dict_values (facts l)))"
    using facts_distinct [OF assms(1)] by (simp add: distinct_map)
  then show ?thesis
    using assms(2,3) unfolding set_present_facts [OF assms(1)] by (auto dest: inj_onD)
qed

lemma fold_union: "fold (\<lambda>x A. A \<union> g x) xs A = A \<union> (\<Union>x\<in>set xs. g x)"
  by (induction xs arbitrary: A) auto

lemma shares_entity_iff: "shares_entity f g \<longleftrightarrow> (\<exists>n. mentions n f \<and> mentions n g)"
  by (auto simp: shares_entity_def mentions_def)

lemma related_ids_union:
  assumes "ledger_ok l"
  shows "(\<Union>e\<in>(\<Union>g\<in>D. set (f_entities g)). set (map f_fact_id (get_facts_for_entity e l)))
       = f_fact_id ` {f \<in> set (dict_values (facts l)). \<exists>g\<in>D. shares_entity g f}"
proof -
  have "(\<Union>e\<in>(\<Union>g\<in>D. set (f_entities g)). set (map f_fact_id (get_facts_for_entity e l)))
      = (\<Union>n\<in>(\<Union>g\<in>D. normalize_entity_name ` set (f_entities g)). f_fact_id ` {f \<in> set (dict_values (facts l)). mentions n f})"
    unfolding facts_for_entity_eq [OF assms] by (auto intro: rev_image_eqI)
  also have "\<dots> = f_fact_id ` {f \<in> set (dict_values (facts l)). \<exists>g\<in>D. shares_entity g f}"
    unfolding shares_entity_iff by (auto simp: mentions_def [of _ g for g])
  finally show ?thesis .
qed

text \<open>
  In a well-formed ledger the facts related to a set of files are, each once, the facts of those
  files or of the cluster together with all facts that share an entity with one of them, in whatever
  order sets are listed.
\<close>

theorem related_facts_exact:
  assumes "ledger_ok l" and "\<And>A. finite A \<Longrightarrow> set (enum A) = A \<and> distinct (enum A)"
  shows "distinct (map f_fact_id (get_related_facts enum file_paths cluster_id l))
     \<and> set (get_related_facts enum file_paths cluster_id l)
       = {f \<in> set (dict_values (facts l)). is_direct file_paths cluster_id f
            \<or> (\<exists>g\<in>set (dict_values (facts l)). is_direct file_paths cluster_id g \<and> shares_entity g f)}"
proof -
  let ?fs = "dict_values (facts l)"
  let ?direct = "direct_fact_ids file_paths cluster_id l"
  let ?D = "{f \<in> set ?fs. is_direct file_paths cluster_id f}"
  let ?E = "set (concat (map f_entities (present_facts l (enum ?direct))))"
  let ?R = "?direct \<union> (\<Union>e\<in>?E. set (map f_fact_id (get_facts_for_entity e l)))"
  have fin: "finite ?direct" by (simp add: direct_fact_ids_def)
  have direct: "?direct = f_fact_id ` ?D" by (auto simp: direct_fact_ids_def is_direct_def)
  have "set (present_facts l (enum ?direct)) = ?D"
    using assms(2) [OF fin] by (intro set_present_ids [OF assms(1)]) (auto simp: direct)
  then have E: "?E = (\<Union>g\<in>?D. set (f_entities g))" by simp
  have R: "?R = f_fact_id ` ({f \<in> set ?fs. is_direct file_paths cluster_id f
        \<or> (\<exists>g\<in>set ?fs. is_direct file_paths cluster_id g \<and> shares_entity g f)})"
    unfolding E unfolding direct related_ids_union [OF assms(1)] by (auto simp: shares_entity_iff)
  have run: "get_related_facts enum file_paths cluster_id l = present_facts l (enum ?R)"
    using assms(2) [of ?E] by (simp add: get_related_facts_def Let_def fold_union)
  have finR: "finite ?R" using fin by simp
  have e: "set (enum ?R) = ?R" "distinct (enum ?R)"
    by (rule conjunct1 [OF assms(2) [OF finR]]) (rule conjunct2 [OF assms(2) [OF finR]])
  have "set (present_facts l (enum ?R)) = {f \<in> set ?fs. is_direct file_paths cluster_id f
            \<or> (\<exists>g\<in>set ?fs. is_direct file_paths cluster_id g \<and> shares_entity g f)}"
    by (rule set_present_ids [OF assms(1) _ trans [OF e(1) R]]) (rule Collect_subset)
  with distinct_present_facts [OF assms(1) e(2)] show ?thesis unfolding run by (rule conjI)
qed

lemma related_facts_exact_witness:
  "distinct (map f_fact_id (get_related_facts sorted_list_of_set {''p''} None
     (add_fact (sample_fact ''1'' ''a'' [''X''] ''p'' 0) empty_ledger)))"
  using related_facts_exact [OF sample_ledger_ok, of sorted_list_of_set "{''p''}" None] by simp

subsection \<open>Conflicts between facts\<close>

definition contradict :: "fact_entry \<Rightarrow> fact_entry \<Rightarrow> bool" where
  "contradict f g \<longleftrightarrow>
     has_negation None (f_statement f) \<noteq> has_negation None (f_statement g)
     \<or> find_numbers None (f_statement f) \<noteq> [] \<and> find_numbers None (f_statement g) \<noteq> []
       \<and> set (find_numbers None (f_statement f)) \<noteq> set (find_numbers None (f_statement g))"

definition comes_before :: "'a \<Rightarrow> 'a \<Rightarrow> 'a list \<Rightarrow> bool" where
  "comes_before x y xs \<longleftrightarrow> (\<exists>as bs cs. xs = as @ x # bs @ y # cs)"

definition reported :: "fact_conflict list \<Rightarrow> (string \<times> string) set" where
  "reported xs = (\<lambda>c. (x_fact_id_a c, x_fact_id_b c)) ` set xs"

lemma check_conflict_ids:
  "check_conflict sh f g e = None \<longleftrightarrow> \<not> contradict f g"
  "check_conflict sh f g e = Some c \<Longrightarrow> x_fact_id_a c = f_fact_id f \<and> x_fact_id_b c = f_fact_id g"
  by (auto simp: check_conflict_def contradict_def Let_def split: if_splits)

lemma comes_before_Cons: "comes_before x y (z # zs) \<longleftrightarrow> (x = z \<and> y \<in> set zs) \<or> comes_before x y zs"
proof
  assume "comes_before x y (z # zs)"
  then obtain as bs cs where "z # zs = as @ x # bs @ y # cs" by (auto simp: comes_before_def)
  then show "(x = z \<and> y \<in> set zs) \<or> comes_before x y zs"
    by (cases as) (auto simp: comes_before_def)
next
  assume "(x = z \<and> y \<in> set zs) \<or> comes_before x y zs"
  then show "comes_before x y (z # zs)"
  proof
    assume "x = z \<and> y \<in> set zs"
    then obtain bs cs where "z # zs = [] @ x # bs @ y # cs" by (auto simp: in_set_conv_decomp)
    then show ?thesis unfolding comes_before_def by blast
  next
    assume "comes_before x y zs"
    then obtain as bs cs where "z # zs = (z # as) @ x # bs @ y # cs" by (auto simp: comes_before_def)
    then show ?thesis unfolding comes_before_def by blast
  qed
qed

lemma comes_before_filter: "distinct xs \<Longrightarrow> comes_before x y (filter P xs) \<longleftrightarrow> P x \<and> P y \<and> comes_before x y xs"
proof (induction xs)
  case (Cons z zs)
  have "comes_before x y zs \<Longrightarrow> x \<in> set zs \<and> y \<in> set zs" by (auto simp: comes_before_def)
  with Cons show ?case by (auto simp: comes_before_Cons)
qed (simp add: comes_before_def)

lemma reported_pairs:
  "reported (pair_conflicts sh e fs) =
     {(f_fact_id f, f_fact_id g) | f g. comes_before f g fs \<and> contradict f g}"
proof (induction fs)
  case (Cons f fs)
  have "reported (List.map_filter (\<lambda>g. check_conflict sh f g e) fs)
      = {(f_fact_id f, f_fact_id g) | g. g \<in> set fs \<and> contradict f g}"
    using check_conflict_ids(1) [of sh f _ e] check_conflict_ids(2) [of sh f _ e]
    by (auto simp: reported_def map_filter_def image_iff)
  with Cons show ?case by (auto simp: reported_def comes_before_Cons image_Un)
qed (simp add: reported_def comes_before_def)

lemma index_entry:
  assumes "ledger_ok l" and "(n, link) \<in> set (entity_index l)"
  shows "l_fact_ids link = map f_fact_id (filter (mentions n) (dict_values (facts l)))"
proof -
  have "dict_get (entity_index l) n = Some link" using assms index_dict_ok by (simp add: dict_get_Some_iff)
  with index_ids [OF assms(1), of n] show ?thesis by (simp add: ids_of_def)
qed

lemma reported_concat: "reported (concat xss) = (\<Union>xs\<in>set xss. reported xs)"
  by (auto simp: reported_def)

text \<open>
  The conflicts detected in a well-formed ledger are exactly those between two facts that name a
  common entity and of which one contains a negation word and the other does not, or which state
  different sets of numbers; the fact added first is named first.
\<close>

theorem conflicts_exact:
  assumes "ledger_ok l"
  shows "reported (detect_conflicts show_set l)
       = {(f_fact_id f, f_fact_id g) | f g. comes_before f g (dict_values (facts l))
            \<and> shares_entity f g \<and> contradict f g}"
proof -
  let ?fs = "dict_values (facts l)"
  have dist: "distinct ?fs" using facts_distinct [OF assms] by (simp add: distinct_map)
  let ?pairs = "\<lambda>n. {(f_fact_id f, f_fact_id g) | f g. comes_before f g ?fs \<and> mentions n f \<and> mentions n g \<and> contradict f g}"
  have entry: "reported (if length (l_fact_ids link) < 2 then []
      else let facts_list = present_facts l (l_fact_ids link)
           in if length facts_list < 2 then [] else pair_conflicts show_set n facts_list) = ?pairs n"
    if m: "(n, link) \<in> set (entity_index l)" for n link
  proof -
    have ids: "l_fact_ids link = map f_fact_id (filter (mentions n) ?fs)" using index_entry [OF assms m] .
    have present: "present_facts l (map f_fact_id (filter (mentions n) ?fs)) = filter (mentions n) ?fs"
      by (rule present_facts_map_id [OF assms]) auto
    have pairs: "reported (pair_conflicts show_set n (filter (mentions n) ?fs)) = ?pairs n"
      by (auto simp: reported_pairs comes_before_filter [OF dist])
    have "pair_conflicts show_set n xs = []" if short: "length xs < 2" for xs
      using short by (cases xs; cases "tl xs") (auto simp: map_filter_simps)
    then have "(if length (l_fact_ids link) < 2 then []
      else let facts_list = present_facts l (l_fact_ids link)
           in if length facts_list < 2 then [] else pair_conflicts show_set n facts_list)
      = pair_conflicts show_set n (filter (mentions n) ?fs)"
      by (simp add: ids present Let_def)
    with pairs show ?thesis by simp
  qed
  have "reported (detect_conflicts show_set l) = (\<Union>(n, link)\<in>set (entity_index l). ?pairs n)"
    unfolding detect_conflicts_def reported_concat set_map image_image
    by (intro SUP_cong refl) (simp only: case_prod_unfold entry prod.collapse split: prod.split)
  also have "\<dots> = {(f_fact_id f, f_fact_id g) | f g. comes_before f g ?fs \<and> shares_entity f g \<and> contradict f g}"
  proof (intro equalityI subsetI)
    fix p
    assume "p \<in> (\<Union>(n, link)\<in>set (entity_index l). ?pairs n)"
    then obtain n f g where "p = (f_fact_id f, f_fact_id g)" "comes_before f g ?fs" "mentions n f" "mentions n g"
      "contradict f g" by blast
    then show "p \<in> {(f_fact_id f, f_fact_id g) | f g. comes_before f g ?fs \<and> shares_entity f g \<and> contradict f g}"
      unfolding shares_entity_iff by blast
  next
    fix p
    assume "p \<in> {(f_fact_id f, f_fact_id g) | f g. comes_before f g ?fs \<and> shares_entity f g \<and> contradict f g}"
    then obtain n f g where p: "p = (f_fact_id f, f_fact_id g)" "comes_before f g ?fs" "mentions n f" "mentions n g"
      "contradict f g" unfolding shares_entity_iff by blast
    then have "f \<in> set ?fs" by (auto simp: comes_before_def)
    then obtain link where "(n, link) \<in> set (entity_index l)" using index_has_key [OF assms _ p(3)] by blast
    with p show "p \<in> (\<Union>(n, link)\<in>set (entity_index l). ?pairs n)" by blast
  qed
  finally show ?thesis .
qed

lemma conflicts_exact_witness:
  "(''1'', ''2'') \<in> reported (detect_conflicts (\<lambda>A. '''')
     (add_fact (sample_fact ''2'' ''never b'' [''X''] ''p'' 0) (add_fact (sample_fact ''1'' ''a'' [''x''] ''p'' 0) empty_ledger)))"
proof -
  let ?a = "sample_fact ''1'' ''a'' [''x''] ''p'' 0" and ?b = "sample_fact ''2'' ''never b'' [''X''] ''p'' 0"
  have ok: "ledger_ok (add_fact ?b (add_fact ?a empty_ledger))"
    by (intro add_fact_ok(1) sample_ledger_ok) (simp add: addable_def add_fact_def empty_ledger_def sample_fact_def)
  have vals: "dict_values (facts (add_fact ?b (add_fact ?a empty_ledger))) = [?a, ?b]"
    by (simp add: add_fact_def empty_ledger_def sample_fact_def dict_values_def)
  have "shares_entity ?a ?b \<and> contradict ?a ?b"
    unfolding shares_entity_def contradict_def by code_simp
  moreover have "comes_before ?a ?b [?a, ?b]" by (simp add: comes_before_Cons)
  moreover have "f_fact_id ?a = ''1''" "f_fact_id ?b = ''2''" by (simp_all add: sample_fact_def)
  ultimately show ?thesis unfolding conflicts_exact [OF ok] vals
    by (intro CollectI exI [of _ ?a] exI [of _ ?b]) simp
qed

subsection \<open>The JSON round trip\<close>

lemma confidence_roundtrip: "confidence_of_value (confidence_value c) = Inr c"
  by (cases c) (simp_all add: confidence_of_value_def confidence_levels_def)

lemma val_opt_str_opt_str [simp]: "val_opt_str (opt_str s) = Inr s"
  by (simp add: opt_str_def split: option.split)

lemma constant_dict_roundtrip [simp]: "constant_from_dict (constant_to_dict c) = Inr c"
  by (simp add: constant_from_dict_def constant_to_dict_def item_def item_or_def)

lemma fact_dict_roundtrip [simp]: "fact_from_dict (fact_to_dict f) = Inr f"
proof -
  have "map_result val_str (map PyStr xs) = Inr xs" for xs by (induction xs) simp_all
  then show ?thesis
    by (simp add: fact_from_dict_def fact_to_dict_def item_def item_or_def confidence_roundtrip)
qed

lemma conflict_dict_roundtrip [simp]: "conflict_from_dict (conflict_to_dict c) = Inr c"
  by (simp add: conflict_from_dict_def conflict_to_dict_def item_def)

lemma map_result_map: "(\<And>x. x \<in> set xs \<Longrightarrow> f (g x) = Inr (h x)) \<Longrightarrow> map_result f (map g xs) = Inr (map h xs)"
  by (induction xs) simp_all

lemma fold_add_facts_rebuild:
  assumes "distinct (map f_fact_id (map snd (facts l) @ fs))" and "list_all (\<lambda>(k, f). k = f_fact_id f) (facts l)"
  shows "facts (fold add_fact fs l) = facts l @ map (\<lambda>f. (f_fact_id f, f)) fs
     \<and> entity_index (fold add_fact fs l) = index_facts fs (entity_index l)"
  using assms
proof (induction fs arbitrary: l)
  case Nil
  then show ?case by (simp add: index_facts_def)
next
  case (Cons f fs)
  have "fst ` set (facts l) = f_fact_id ` snd ` set (facts l)"
    using Cons.prems(2) by (force simp: list_all_iff image_image)
  then have "f_fact_id f \<notin> fst ` set (facts l)" using Cons.prems(1) by auto
  then have f: "facts (add_fact f l) = facts l @ [(f_fact_id f, f)]" by (simp add: add_fact_def dict_set_new)
  have i: "entity_index (add_fact f l) = fold (link_entity (f_fact_id f)) (f_entities f) (entity_index l)"
    by (simp add: add_fact_def)
  have "distinct (map f_fact_id (map snd (facts (add_fact f l)) @ fs))"
    "list_all (\<lambda>(k, f). k = f_fact_id f) (facts (add_fact f l))"
    using Cons.prems by (simp_all add: f)
  from Cons.IH [OF this] show ?case by (simp add: f i index_facts_def)
qed

text \<open>
  C37: Reading back the JSON form of a well-formed ledger gives the same ledger: constants, facts and
  conflicts in their order, and the entity index, which is not stored, rebuilt with the names it had.
\<close>

theorem ledger_json_roundtrip:
  assumes "ledger_ok l"
  shows "ledger_from_dict (ledger_to_dict l) = Inr l"
proof -
  let ?fs = "dict_values (facts l)"
  have cs: "map_result (\<lambda>(key, v). bind_result (constant_from_dict v) (\<lambda>c. Inr (key, c)))
      (map (\<lambda>(k, c). (k, constant_to_dict c)) (constants l)) = Inr (constants l)"
    by (subst map_result_map [where h = "\<lambda>x. x"]) auto
  have fs: "map_result (\<lambda>(key, v). fact_from_dict v) (map (\<lambda>(k, f). (k, fact_to_dict f)) (facts l)) = Inr ?fs"
    by (subst map_result_map [where h = snd]) (auto simp: dict_values_def)
  have xs: "map_result conflict_from_dict (map conflict_to_dict (conflicts l)) = Inr (conflicts l)"
    by (subst map_result_map [where h = "\<lambda>x. x"]) auto
  let ?l0 = "empty_ledger\<lparr>constants := constants l\<rparr>"
  have kept: "fold (\<lambda>(key, c). dict_set key c) (constants l) [] = constants l"
  proof -
    have "distinct (map fst (d @ kvs)) \<Longrightarrow> fold (\<lambda>(k, v). dict_set k v) kvs d = d @ kvs"
      for d kvs :: "(string, constant_entry) pydict"
      by (induction kvs arbitrary: d) (auto simp: dict_set_new)
    from this [of "[]" "constants l"] show ?thesis using assms by (simp add: ledger_ok_def dict_ok_def)
  qed
  have "map (\<lambda>f. (f_fact_id f, f)) ?fs = facts l"
    using assms by (auto simp: ledger_ok_def dict_values_def list_all_iff intro!: map_idI)
  moreover have "facts (fold add_fact ?fs ?l0) = map (\<lambda>f. (f_fact_id f, f)) ?fs
      \<and> entity_index (fold add_fact ?fs ?l0) = index_facts ?fs []"
    using fold_add_facts_rebuild [of ?l0 ?fs] facts_distinct [OF assms] by (simp add: empty_ledger_def)
  moreover have "constants (fold add_fact fs k) = constants k" for fs k
    by (induction fs arbitrary: k) simp_all
  ultimately have "(fold add_fact ?fs ?l0)\<lparr>conflicts := conflicts l\<rparr> = l"
    using assms by (simp add: ledger_ok_def)
  then show ?thesis
    by (simp add: ledger_from_dict_def ledger_to_dict_def item_or_def cs fs xs kept)
qed

lemma ledger_json_roundtrip_witness:
  "ledger_from_dict (ledger_to_dict (add_fact (sample_fact ''1'' ''a'' [''X'', ''y''] ''p'' 0) empty_ledger))
     = Inr (add_fact (sample_fact ''1'' ''a'' [''X'', ''y''] ''p'' 0) empty_ledger)"
  by (rule ledger_json_roundtrip [OF sample_ledger_ok])

subsection \<open>Where ids do not determine facts\<close>

text \<open>
  The id of a fact hashes statement, source and location but not its entities, file key or cluster.
  Two clusters that extract the same statement of the same page give two facts with one id: merging
  keeps the later one, and a cluster loses the fact extracted from it.
\<close>

lemma merge_loses_cluster_fact:
  "(let a = sample_fact ''1'' ''s'' [''X''] ''fileA'' 0; b = sample_fact ''1'' ''s'' [''X''] ''fileB'' 1;
        l = merge_ledgers (add_fact a empty_ledger) (add_fact b empty_ledger)
    in get_facts_for_files {''fileA''} l = [] \<and> get_related_facts sorted_list_of_set {''fileA''} (Some 0) l = [])"
  by code_simp

text \<open>Replacing a fact leaves its id under the entities of the replaced one.\<close>

lemma replaced_fact_keeps_links:
  "get_facts_for_entity ''X'' (add_fact (sample_fact ''1'' ''s'' [''Y''] ''p'' 0) (add_fact (sample_fact ''1'' ''s'' [''X''] ''p'' 0) empty_ledger))
     = [sample_fact ''1'' ''s'' [''Y''] ''p'' 0]"
  by code_simp

text \<open>The evidence is inserted before every occurrence of the heading, also inside \<open>### Sources\<close>.\<close>

definition sample_constant_ledger :: ledger where
  "sample_constant_ledger = add_constant \<lparr>k_name = ''N'', k_file_path = ''p'', k_value = None, k_type = None\<rparr> empty_ledger"

lemma evidence_inserted_twice:
  "insert_into_report '' - '' (''### Sources'' @ [nl] @ ''x'' @ [nl] @ ''## Sources'') sample_constant_ledger
     = ''#'' @ get_report_suffix '' - '' sample_constant_ledger @ [nl, nl] @ ''## Sources'' @ [nl] @ ''x'' @ [nl]
         @ get_report_suffix '' - '' sample_constant_ledger @ [nl, nl] @ ''## Sources''"
  by code_simp

end
