(* ===== verification/Search_Results.thy ===== *)
theory Search_Results
  imports Splitter Py_Regex
begin

text \<open>
  What the search services share (\<open>services/search/result_enhancer.py\<close> and the pagination that
  every search computes): a search result, the clean-up and enrichment of one result, the weighted
  combination of two result lists, and pages.

  A result is a dictionary with optional keys in the code; here it is a record with one field per
  key that the code reads or sets, \<open>None\<close> for a key that is not there.  The chunk id of a stored
  chunk is an integer, that of a chunk of a diff a string.  Floats are the rationals of
  \<open>Py_Float\<close>.  Page sizes and offsets are natural numbers: the callers clamp what a client sends.
\<close>

datatype hit_id = Db_id int | Diff_id string

text \<open>\<open>"code_preview"\<close> and \<open>"is_truncated"\<close> are set together.\<close>

record hit =
  h_chunk_id :: hit_id
  h_symbol :: "string option"
  h_name :: "string option"
  h_content :: string
  h_code :: "string option"
  h_path :: "string option"
  h_chunk_type :: string
  h_start_line :: int
  h_end_line :: int
  h_file_path :: "string option"
  h_language :: string
  h_metadata :: "(string \<times> pyval) list option"
  h_similarity :: "rat option"
  h_score :: "rat option"
  h_distance :: "rat option"
  h_line_count :: "int option"
  h_code_preview :: "(string \<times> bool) option"
  h_file_extension :: "string option"
  h_similarity_percentage :: "rat option"
  h_search_type :: "string option"
  h_combined_score :: "rat option"
  h_semantic_score :: "rat option"
  h_regex_score :: "rat option"

text \<open>\<open>float(r.get("score", 0.0))\<close>, and a stable sort with \<open>reverse=True\<close>.\<close>

definition score_of :: "hit \<Rightarrow> rat" where
  "score_of r = (case h_score r of None \<Rightarrow> 0 | Some s \<Rightarrow> s)"

definition sort_desc :: "('a \<Rightarrow> rat) \<Rightarrow> 'a list \<Rightarrow> 'a list" where
  "sort_desc f xs = sort_key (\<lambda>x. - f x) xs"

subsection \<open>The names of split chunks\<close>

text \<open>
  \<open>(?:_part\d+)+$\<close>: a maximal run of suffixes (a digit cannot start one, so no match is lost by
  being greedy), then the end of the text or its last newline.
\<close>

function match_parts :: "string \<Rightarrow> string \<times> bool" where
  "match_parts s =
     (case match_lit ''_part'' s of
        None \<Rightarrow> (s, False)
      | Some r \<Rightarrow>
          (case match_digits r of
             None \<Rightarrow> (s, False)
           | Some (ds, r') \<Rightarrow> (fst (match_parts r'), True)))"
  by pat_completeness auto
termination
  by (relation "measure length") (auto simp: match_lit_Some_iff match_digits_Some_iff)

declare match_parts.simps [simp del]

definition part_suffix_here :: "string \<Rightarrow> string option" where
  "part_suffix_here s =
     (let (r, found) = match_parts s in if found \<and> (r = [] \<or> r = [nl]) then Some r else None)"

fun strip_chunk_part_suffix :: "string \<Rightarrow> string" where
  "strip_chunk_part_suffix [] = []"
| "strip_chunk_part_suffix (c # s) =
     (case part_suffix_here (c # s) of
        Some r \<Rightarrow> r
      | None \<Rightarrow> c # strip_chunk_part_suffix s)"

subsection \<open>Enriching a result\<close>

text \<open>\<open>round(x, 2)\<close>: the nearest two-digit decimal, ties to even, as a float again.\<close>

definition py_round2 :: "rat \<Rightarrow> rat" where
  "py_round2 x = fl (of_int (round_half_even (100 * x)) / 100)"

definition clean_symbol :: "hit \<Rightarrow> hit" where
  "clean_symbol r =
     (if truthy_str (h_symbol r) then
        let original = the (h_symbol r); clean = strip_chunk_part_suffix original
        in if clean \<noteq> original
           then r\<lparr>h_symbol := Some clean,
                  h_metadata := Some (dict_set ''original_symbol'' (PyStr original)
                    (case h_metadata r of None \<Rightarrow> [] | Some md \<Rightarrow> md))\<rparr>
           else r
      else r)"

definition code_preview :: "string \<Rightarrow> string \<times> bool" where
  "code_preview code = (if length code > 500 then (take 500 code @ ''...'', True) else (code, False))"

definition enhance_search_result :: "hit \<Rightarrow> hit" where
  "enhance_search_result result =
     (clean_symbol result)
       \<lparr>h_line_count := Some (h_end_line result - h_start_line result + 1),
        h_code_preview :=
          (if truthy_str (h_code result) then Some (code_preview (the (h_code result)))
           else h_code_preview result),
        h_file_extension :=
          (case h_path result of None \<Rightarrow> h_file_extension result | Some p \<Rightarrow> Some (py_lower (path_suffix p))),
        h_similarity_percentage :=
          (case h_similarity result of None \<Rightarrow> h_similarity_percentage result
           | Some s \<Rightarrow> Some (py_round2 (fl (s * 100))))\<rparr>"

subsection \<open>Combining semantic and regex results\<close>

definition position_score :: "nat \<Rightarrow> nat \<Rightarrow> rat" where
  "position_score n i = py_truediv (int n - int i) (int n)"

text \<open>\<open>result.get("chunk_id") or result.get("id")\<close>, and its truth value: no result has an \<open>"id"\<close>.\<close>

definition usable_id :: "hit \<Rightarrow> bool" where
  "usable_id r = (case h_chunk_id r of Db_id i \<Rightarrow> i \<noteq> 0 | Diff_id s \<Rightarrow> s \<noteq> [])"

definition semantic_result_score :: "rat \<Rightarrow> nat \<Rightarrow> nat \<Rightarrow> rat \<Rightarrow> rat" where
  "semantic_result_score weight n i similarity =
     fl (fl (fl (position_score n i * fl (3/10)) + fl (similarity * fl (7/10))) * weight)"

definition add_semantic :: "rat \<Rightarrow> nat \<Rightarrow> nat \<times> hit \<Rightarrow> (hit_id, hit) pydict \<Rightarrow> (hit_id, hit) pydict" where
  "add_semantic weight n ir combined =
     (let (i, result) = ir in
      if usable_id result then
        let similarity = (case h_similarity result of None \<Rightarrow> 1/2 | Some s \<Rightarrow> s)
        in dict_set (h_chunk_id result)
             (result\<lparr>h_search_type := Some ''semantic'',
                     h_combined_score := Some (semantic_result_score weight n i similarity),
                     h_semantic_score := Some similarity\<rparr>) combined
      else combined)"

definition add_regex :: "rat \<Rightarrow> nat \<Rightarrow> nat \<times> hit \<Rightarrow> (hit_id, hit) pydict \<Rightarrow> (hit_id, hit) pydict" where
  "add_regex weight n ir combined =
     (let (i, result) = ir in
      if usable_id result then
        let position = position_score n i; score = fl (position * weight)
        in (case dict_get combined (h_chunk_id result) of
              Some r \<Rightarrow>
                dict_set (h_chunk_id result)
                  (r\<lparr>h_combined_score := map_option (\<lambda>c. fl (c + score)) (h_combined_score r),
                     h_search_type := Some ''hybrid'',
                     h_regex_score := Some position\<rparr>) combined
            | None \<Rightarrow>
                dict_set (h_chunk_id result)
                  (result\<lparr>h_search_type := Some ''regex'', h_combined_score := Some score,
                          h_regex_score := Some position\<rparr>) combined)
      else combined)"

definition combine_search_results :: "hit list \<Rightarrow> hit list \<Rightarrow> rat \<Rightarrow> nat \<Rightarrow> hit list" where
  "combine_search_results semantic_results regex_results semantic_weight limit =
     (let regex_weight = fl (1 - semantic_weight);
          combined1 = fold (add_semantic semantic_weight (length semantic_results))
                        (enumerate 0 semantic_results) [];
          combined = fold (add_regex regex_weight (length regex_results)) (enumerate 0 regex_results) combined1
      in take limit (sort_desc (\<lambda>x. the (h_combined_score x)) (dict_values combined)))"

subsection \<open>Pages\<close>

text \<open>\<open>pg_has_more\<close> is \<open>None\<close> where the code returns a dictionary without that key.\<close>

record pagination =
  pg_offset :: nat
  pg_page_size :: nat
  pg_has_more :: "bool option"
  pg_next_offset :: "nat option"
  pg_total :: "nat option"

definition page_info :: "nat \<Rightarrow> nat \<Rightarrow> nat \<Rightarrow> pagination" where
  "page_info page_size offset n =
     (let has_more = offset + page_size < n
      in \<lparr>pg_offset = offset, pg_page_size = page_size, pg_has_more = Some has_more,
          pg_next_offset = (if has_more then Some (offset + page_size) else None), pg_total = Some n\<rparr>)"

definition paginate :: "nat \<Rightarrow> nat \<Rightarrow> 'a list \<Rightarrow> 'a list \<times> pagination" where
  "paginate page_size offset xs = (take page_size (drop offset xs), page_info page_size offset (length xs))"

text \<open>A client that follows \<open>next_offset\<close> to the last page; \<open>None\<close> when there is no last page.\<close>

partial_function (option) follow_pages ::
  "(nat \<Rightarrow> 'a list \<times> pagination) \<Rightarrow> nat \<Rightarrow> 'a list option" where
  "follow_pages search offset =
     (case pg_next_offset (snd (search offset)) of
        None \<Rightarrow> Some (fst (search offset))
      | Some next_offset \<Rightarrow>
          Option.bind (follow_pages search next_offset) (\<lambda>rest. Some (fst (search offset) @ rest)))"

text \<open>The contract of a paged search: the pages are windows of one list that does not change.\<close>

locale paged_search =
  fixes search :: "nat \<Rightarrow> 'a list \<times> pagination" and page_size :: nat and all_results :: "'a list"
  assumes search_eq: "search offset = paginate page_size offset all_results"
begin

lemma next_offset: "pg_next_offset (snd (search offset))
    = (if offset + page_size < length all_results then Some (offset + page_size) else None)"
  by (simp add: search_eq paginate_def page_info_def Let_def)

lemma page: "fst (search offset) = take page_size (drop offset all_results)"
  by (simp add: search_eq paginate_def)

lemma follow_pages_from:
  assumes "0 < page_size"
  shows "follow_pages search offset = Some (drop offset all_results)"
proof (induction "length all_results - offset" arbitrary: offset rule: less_induct)
  case less
  show ?case
  proof (cases "offset + page_size < length all_results")
    case True
    then have "follow_pages search (offset + page_size) = Some (drop (offset + page_size) all_results)"
      using less assms by simp
    moreover have "take page_size (drop offset all_results) @ drop (offset + page_size) all_results
        = drop offset all_results"
      by (metis add.commute append_take_drop_id drop_drop)
    ultimately show ?thesis using True by (subst follow_pages.simps) (simp add: next_offset page)
  next
    case False
    then show ?thesis by (subst follow_pages.simps) (simp add: next_offset page)
  qed
qed

lemma follow_pages_all: "0 < page_size \<Longrightarrow> follow_pages search 0 = Some all_results"
  using follow_pages_from [of 0] by simp

end

subsection \<open>Sorting\<close>

lemma set_sort_desc [simp]: "set (sort_desc f xs) = set xs"
  by (simp add: sort_desc_def)

lemma mset_sort_desc [simp]: "mset (sort_desc f xs) = mset xs"
  by (simp add: sort_desc_def)

lemma length_sort_desc [simp]: "length (sort_desc f xs) = length xs"
  by (simp add: sort_desc_def)

lemma distinct_map_sort_desc [simp]: "distinct (map g (sort_desc f xs)) \<longleftrightarrow> distinct (map g xs)"
  by (metis mset_map mset_sort_desc mset_eq_imp_distinct_iff)

abbreviation desc_by :: "('a \<Rightarrow> rat) \<Rightarrow> 'a list \<Rightarrow> bool" where
  "desc_by f xs \<equiv> sorted_wrt (\<lambda>x y. f y \<le> f x) xs"

lemma sort_desc_sorted [simp]: "desc_by f (sort_desc f xs)"
proof -
  have "sorted (map (\<lambda>x. - f x) (sort_desc f xs))" by (simp add: sort_desc_def)
  then show ?thesis by (simp add: sorted_map)
qed

lemma sort_desc_id: "desc_by f xs \<Longrightarrow> sort_desc f xs = xs"
  by (simp add: sort_desc_def sort_key_id_if_sorted sorted_map)

lemma desc_by_filter: "desc_by f xs \<Longrightarrow> desc_by f (filter P xs)"
  by (rule sorted_wrt_filter)

subsection \<open>Names of split chunks\<close>

definition part_name :: "string \<Rightarrow> bool" where
  "part_name p \<longleftrightarrow> (\<exists>ds. p = ''_part'' @ ds \<and> ds \<noteq> [] \<and> list_all is_digit ds)"

lemma match_lit_append_extends:
  "match_lit p s = Some r \<Longrightarrow> match_lit p (s @ t) = Some (r @ t)"
  by (simp add: match_lit_Some_iff)

lemma match_parts_stop: "match_lit ''_part'' s = None \<Longrightarrow> match_parts s = (s, False)"
  by (subst match_parts.simps) simp

lemma match_parts_empty [simp]: "match_parts [] = ([], False)"
  by (subst match_parts.simps) (simp add: match_lit_def starts_with_def)

lemma match_parts_Nil: "match_parts s = ([], f) \<Longrightarrow> s = [] \<or> f"
  by (subst (asm) match_parts.simps) (auto split: option.splits)

lemma match_parts_part:
  assumes "part_name p" shows "match_parts p = ([], True)"
proof -
  obtain ds where p: "p = ''_part'' @ ds" "ds \<noteq> []" "list_all is_digit ds"
    using assms by (auto simp: part_name_def)
  have "match_digits ds = Some (ds, [])" using p by (simp add: match_digits_Some_iff)
  then show ?thesis
    unfolding p(1) by (subst match_parts.simps) (simp add: match_parts_stop match_lit_def starts_with_def)
qed

lemma part_after_prefix:
  assumes "match_lit ''_part'' s = None" "s \<noteq> []" "part_name p"
  shows "match_lit ''_part'' (s @ p) = None"
proof (rule ccontr)
  assume "match_lit ''_part'' (s @ p) \<noteq> None"
  then obtain r where r: "s @ p = ''_part'' @ r" by (auto simp: match_lit_Some_iff)
  obtain ds where p: "p = ''_part'' @ ds" using assms(3) by (auto simp: part_name_def)
  have no: "s \<noteq> ''_part'' @ u" for u
  proof
    assume "s = ''_part'' @ u"
    then have "match_lit ''_part'' s = Some u" by (simp only: match_lit_append)
    with assms(1) show False by simp
  qed
  from r obtain u where "s = ''_part'' @ u \<or> s @ u = ''_part'' \<and> p = u @ r"
    unfolding append_eq_append_conv2 by blast
  then have u: "s @ u = ''_part''" "p = u @ r" using no [of u] by blast+
  have "u \<noteq> []"
  proof
    assume "u = []"
    then show False using u(1) no [of "[]"] by simp
  qed
  obtain c v where cv: "u = c # v" using \<open>u \<noteq> []\<close> by (cases u) auto
  obtain d w where dw: "s = d # w" using assms(2) by (cases s) auto
  have "c = CHR ''_''" using p u(2) cv by simp
  moreover have "c \<noteq> CHR ''_''" using u(1) unfolding cv dw by (auto simp: append_eq_Cons_conv)
  ultimately show False by simp
qed

lemma match_parts_append:
  assumes "part_name p"
  shows "match_parts (s @ p) = (if match_parts s = ([], True) \<or> s = [] then ([], True)
     else (fst (match_parts s) @ p, snd (match_parts s)))"
proof (induction s rule: match_parts.induct)
  case (1 s)
  obtain ds0 where p: "p = ''_part'' @ ds0" using assms by (auto simp: part_name_def)
  show ?case
  proof (cases "s = []")
    case True
    then show ?thesis by (simp add: match_parts_part assms)
  next
    case False
    show ?thesis
    proof (cases "match_lit ''_part'' s")
      case None
      with False show ?thesis by (simp add: match_parts_stop part_after_prefix assms)
    next
      case (Some r)
      note lit = match_lit_append_extends [OF Some, of p]
      show ?thesis
      proof (cases "match_digits r")
        case None
        then have "takeWhile is_digit (r @ p) = []"
          using p by (cases r) (auto simp: match_digits_def is_digit_def split: if_splits)
        then have "match_digits (r @ p) = None" by (simp add: match_digits_def)
        with None Some lit False show ?thesis by (simp add: match_parts.simps [of s] match_parts.simps [of "s @ p"])
      next
        case (Some dr)
        obtain ds r' where dr: "dr = (ds, r')" by fastforce
        have "\<not> is_digit (hd (r' @ p))" using Some p dr
          by (cases r') (auto simp: match_digits_Some_iff is_digit_def)
        with Some dr have "match_digits (r @ p) = Some (ds, r' @ p)" by (auto simp: match_digits_Some_iff)
        with Some dr lit \<open>match_lit ''_part'' s = Some r\<close>
        have "match_parts s = (fst (match_parts r'), True)"
          "match_parts (s @ p) = (fst (match_parts (r' @ p)), True)"
          by (simp_all add: match_parts.simps [of s] match_parts.simps [of "s @ p"])
        moreover note "1.IH" [OF \<open>match_lit ''_part'' s = Some r\<close> Some dr [symmetric]]
        ultimately show ?thesis using False dr match_parts_Nil [of r']
          by (cases "match_parts r'") (auto split: if_splits)
      qed
    qed
  qed
qed

lemma part_suffix_here_plain:
  "nl \<notin> set s \<Longrightarrow> part_suffix_here s = (if match_parts s = ([], True) then Some [] else None)"
proof -
  assume "nl \<notin> set s"
  moreover have "set (fst (match_parts s)) \<subseteq> set s" for s
  proof (induction s rule: match_parts.induct)
    case (1 s)
    show ?case
    proof (cases "\<exists>r ds r'. match_lit ''_part'' s = Some r \<and> match_digits r = Some (ds, r')")
      case True
      then obtain r ds r' where r: "match_lit ''_part'' s = Some r" "match_digits r = Some (ds, r')" by blast
      then have "set (fst (match_parts r')) \<subseteq> set r'" by (rule "1.IH" [OF _ _ refl])
      moreover have "set r' \<subseteq> set s" using r by (auto simp: match_lit_Some_iff match_digits_Some_iff)
      ultimately show ?thesis using r by (subst match_parts.simps) auto
    next
      case False
      then show ?thesis by (subst match_parts.simps) (auto split: option.split)
    qed
  qed
  ultimately have "fst (match_parts s) \<noteq> [nl]" by (metis list.set_intros(1) subsetD)
  then show ?thesis by (cases "match_parts s") (auto simp: part_suffix_here_def)
qed

lemma part_name_no_nl: "part_name p \<Longrightarrow> nl \<notin> set p"
proof -
  assume "part_name p"
  then obtain ds where "p = ''_part'' @ ds" "\<forall>c\<in>set ds. is_digit c"
    by (auto simp: part_name_def list_all_iff)
  moreover have "\<not> is_digit nl" by (simp add: is_digit_def)
  ultimately show ?thesis by auto
qed

theorem strip_part_name:
  assumes "part_name p" "nl \<notin> set s"
  shows "strip_chunk_part_suffix (s @ p) = strip_chunk_part_suffix s"
proof -
  have p: "nl \<notin> set p" by (rule part_name_no_nl [OF assms(1)])
  from assms(2) show ?thesis
  proof (induction s)
    case Nil
    obtain ds where ds: "p = CHR ''_'' # ''part'' @ ds" using assms(1) by (auto simp: part_name_def)
    have "part_suffix_here p = Some []" using assms(1) p by (simp add: part_suffix_here_plain match_parts_part)
    then show ?case unfolding ds by simp
  next
    case (Cons c s)
    then have "part_suffix_here (c # s @ p) = part_suffix_here (c # s)"
      using p match_parts_append [OF assms(1), of "c # s"] part_suffix_here_plain [of "c # s @ p"]
        part_suffix_here_plain [of "c # s"] by (auto split: if_splits)
    then show ?case using Cons by (simp split: option.split)
  qed
qed

lemma part_name_str_int: "0 \<le> k \<Longrightarrow> part_name (''_part'' @ str_int k)"
  by (auto simp: part_name_def str_int_def is_digit_str_nat)

definition same_name :: "universal_chunk \<Rightarrow> universal_chunk \<Rightarrow> bool" where
  "same_name c p \<longleftrightarrow> nl \<notin> set (uc_name p)
     \<and> strip_chunk_part_suffix (uc_name p) = strip_chunk_part_suffix (uc_name c)"

lemma same_name_trans: "same_name c b \<Longrightarrow> same_name b a \<Longrightarrow> same_name c a"
  by (simp add: same_name_def)

lemma same_name_self: "nl \<notin> set (uc_name c) \<Longrightarrow> same_name c c"
  by (simp add: same_name_def)

lemma same_name_part:
  assumes "nl \<notin> set (uc_name c)" "uc_name p = uc_name c @ q" "part_name q"
  shows "same_name c p"
  using assms strip_part_name [OF assms(3,1)] part_name_no_nl [OF assms(3)]
  by (simp add: same_name_def)

lemma same_name_create:
  "nl \<notin> set (uc_name c) \<Longrightarrow> 0 \<le> k \<Longrightarrow> same_name c (create_split_chunk c s k pos n)"
  using part_name_str_int [of k]
  by (intro same_name_part [where q = "''_part'' @ str_int k"])
    (simp_all add: create_split_chunk_def Let_def split: prod.split)

lemma emergency_loop_names:
  assumes "emergency_loop cfg c r k pos = Some ps"
  shows "nl \<notin> set (uc_name c) \<and> 0 \<le> k \<longrightarrow> list_all (same_name c) ps"
proof (rule emergency_loop.raw_induct
    [where P = "\<lambda>cfg c r k pos ps. nl \<notin> set (uc_name c) \<and> 0 \<le> k \<longrightarrow> list_all (same_name c) ps", OF _ assms])
  fix loop :: "cast_config \<Rightarrow> universal_chunk \<Rightarrow> string \<Rightarrow> int \<Rightarrow> int \<Rightarrow> universal_chunk list option"
    and cfg c r k pos ps
  assume IH: "\<And>cfg c r k pos ps. loop cfg c r k pos = Some ps \<Longrightarrow>
      nl \<notin> set (uc_name c) \<and> 0 \<le> k \<longrightarrow> list_all (same_name c) ps"
    and "(if r = [] then Some []
      else if fits cfg r then Some [create_split_chunk c r k pos (int (length (uc_content c)))]
      else Option.bind (split_point cfg r) (\<lambda>b.
             Option.bind (loop cfg c (py_drop b r) (k + 1) (pos + b)) (\<lambda>rest.
               Some (create_split_chunk c (py_take b r) k pos (int (length (uc_content c))) # rest)))) = Some ps"
  then show "nl \<notin> set (uc_name c) \<and> 0 \<le> k \<longrightarrow> list_all (same_name c) ps"
    by (auto simp: bind_eq_Some_conv same_name_create split: if_splits dest!: IH)
qed

lemma emergency_split_names:
  "emergency_split cfg c = Some ps \<Longrightarrow> nl \<notin> set (uc_name c) \<Longrightarrow> list_all (same_name c) ps"
  using emergency_loop_names [of cfg c "uc_content c" 1 0 ps]
  by (auto simp: emergency_split_def same_name_def split: if_splits)

lemma split_by_lines_names:
  assumes "split_by_lines_simple c ls = Some (a, b)" "nl \<notin> set (uc_name c)"
  shows "same_name c a" "same_name c b"
  using assms same_name_part [OF assms(2), of a "''_part1''"] same_name_part [OF assms(2), of b "''_part2''"]
  by (auto simp: split_by_lines_simple_def Let_def part_name_def is_digit_def split: if_splits)

lemma recursive_split_names:
  "recursive_split cfg c = Some ps \<Longrightarrow> nl \<notin> set (uc_name c) \<Longrightarrow> list_all (same_name c) ps"
proof (induction cfg c arbitrary: ps rule: recursive_split.induct)
  case (1 cfg c)
  show ?case
  proof (cases "\<exists>a b. \<not> fits cfg (uc_content c) \<and> \<not> (length (split_on nl (uc_content c)) \<le> 2
      \<or> analyze_lines cfg (split_on nl (uc_content c)) \<or> uc_end_line c - uc_start_line c < 2)
      \<and> split_by_lines_simple c (split_on nl (uc_content c)) = Some (a, b)")
    case False
    then show ?thesis using "1.prems" emergency_split_names [of cfg c ps]
      by (subst (asm) recursive_split.simps) (auto simp: Let_def same_name_self split: if_splits option.splits)
  next
    case True
    then obtain a b where s: "\<not> fits cfg (uc_content c)" "\<not> (length (split_on nl (uc_content c)) \<le> 2
      \<or> analyze_lines cfg (split_on nl (uc_content c)) \<or> uc_end_line c - uc_start_line c < 2)"
      "split_by_lines_simple c (split_on nl (uc_content c)) = Some (a, b)" by blast
    then obtain pa pb where p: "recursive_split cfg a = Some pa" "recursive_split cfg b = Some pb" "ps = pa @ pb"
      using "1.prems"(1) by (subst (asm) recursive_split.simps) (auto simp: Let_def bind_eq_Some_conv)
    note names = split_by_lines_names [OF s(3) "1.prems"(2)]
    have nls: "nl \<notin> set (uc_name a)" "nl \<notin> set (uc_name b)" using names by (simp_all add: same_name_def)
    have "list_all (same_name a) pa"
      by (rule "1.IH"(1) [OF s(1) refl refl refl s(2,3) refl p(1) nls(1)])
    moreover have "list_all (same_name b) pb"
      by (rule "1.IH"(2) [OF s(1) refl refl refl s(2,3) refl p(1,2) nls(2)])
    ultimately show ?thesis using names same_name_trans p(3) by (fastforce simp: list_all_iff)
  qed
qed

text \<open>
  cleaning the name of a part of a split chunk gives what cleaning the name of the whole chunk
  gives: however deep the splitter split, a client sees the name that the parser found.
\<close>

theorem clean_name_of_part:
  assumes "validate_and_split cfg c = Some ps" "p \<in> set ps" "nl \<notin> set (uc_name c)"
  shows "strip_chunk_part_suffix (uc_name p) = strip_chunk_part_suffix (uc_name c)"
proof -
  have "list_all (same_name c) ps"
    using assms(1,3) recursive_split_names [of cfg c ps]
    by (auto simp: validate_and_split_def same_name_def split: if_splits)
  then show ?thesis using assms(2) by (auto simp: list_all_iff same_name_def)
qed

theorem clean_name_of_part_witness:
  "\<exists>ps. validate_and_split small_config sample_uchunk = Some ps
     \<and> (\<forall>p\<in>set ps. strip_chunk_part_suffix (uc_name p) = ''b'')"
proof -
  obtain ps where ps: "validate_and_split small_config sample_uchunk = Some ps"
    using validate_and_split_correct [of small_config sample_uchunk]
    by (auto simp: cfg_ok_def small_config_def sample_uchunk_def)
  have "strip_chunk_part_suffix (uc_name sample_uchunk) = ''b''" "nl \<notin> set (uc_name sample_uchunk)"
    by code_simp+
  then show ?thesis using ps clean_name_of_part [OF ps] by auto
qed

subsection \<open>The combined list\<close>

definition usable_ids :: "hit list \<Rightarrow> hit_id set" where
  "usable_ids rs = h_chunk_id ` set (filter usable_id rs)"

definition search_type_of :: "hit_id set \<Rightarrow> hit_id set \<Rightarrow> hit_id \<Rightarrow> string" where
  "search_type_of S R k = (if k \<in> S then if k \<in> R then ''hybrid'' else ''semantic'' else ''regex'')"

definition combined_ok :: "hit_id set \<Rightarrow> hit_id set \<Rightarrow> (hit_id, hit) pydict \<Rightarrow> bool" where
  "combined_ok S R d \<longleftrightarrow> dict_ok d \<and> fst ` set d = S \<union> R
     \<and> (\<forall>k v. dict_get d k = Some v \<longrightarrow>
          h_chunk_id v = k \<and> h_search_type v = Some (search_type_of S R k))"

lemma combined_ok_semantic:
  assumes "combined_ok S {} d"
  shows "combined_ok (S \<union> usable_ids [r]) {} (add_semantic w n (i, r) d)"
proof (cases "usable_id r")
  case True
  then have "add_semantic w n (i, r) d = dict_set (h_chunk_id r)
      (r\<lparr>h_search_type := Some ''semantic'',
         h_combined_score := Some (semantic_result_score w n i (case h_similarity r of None \<Rightarrow> 1/2 | Some s \<Rightarrow> s)),
         h_semantic_score := Some (case h_similarity r of None \<Rightarrow> 1/2 | Some s \<Rightarrow> s)\<rparr>) d"
    by (simp add: add_semantic_def Let_def)
  with True assms show ?thesis
    by (auto simp: combined_ok_def usable_ids_def search_type_of_def keys_dict_set dict_ok_set)
next
  case False
  with assms show ?thesis by (simp add: add_semantic_def usable_ids_def)
qed

lemma combined_ok_regex:
  assumes "combined_ok S R d" "h_chunk_id r \<notin> R"
  shows "combined_ok S (R \<union> usable_ids [r]) (add_regex w n (i, r) d)"
proof (cases "usable_id r")
  case False
  with assms show ?thesis by (simp add: add_regex_def usable_ids_def)
next
  case True
  show ?thesis
  proof (cases "dict_get d (h_chunk_id r)")
    case None
    then have "h_chunk_id r \<notin> fst ` set d" by (simp add: dict_get_None_iff)
    then have "h_chunk_id r \<notin> S" using assms(1) by (auto simp: combined_ok_def)
    with True None assms show ?thesis
      by (auto simp: add_regex_def Let_def combined_ok_def usable_ids_def search_type_of_def
          keys_dict_set dict_ok_set)
  next
    case (Some v)
    then have "h_chunk_id r \<in> fst ` set d" using dict_get_None_iff [of d "h_chunk_id r"] by auto
    then have "h_chunk_id r \<in> S" "h_chunk_id v = h_chunk_id r" using assms Some by (auto simp: combined_ok_def)
    with True Some assms show ?thesis
      by (auto simp: add_regex_def Let_def combined_ok_def usable_ids_def search_type_of_def
          keys_dict_set dict_ok_set)
  qed
qed

lemma usable_ids_Cons: "usable_ids (r # rs) = usable_ids [r] \<union> usable_ids rs"
  by (auto simp: usable_ids_def)

lemma fold_semantic:
  "combined_ok S {} d \<Longrightarrow> combined_ok (S \<union> usable_ids rs) {} (fold (add_semantic w n) (enumerate i rs) d)"
proof (induction rs arbitrary: S d i)
  case Nil
  then show ?case by (simp add: usable_ids_def)
next
  case (Cons r rs)
  show ?case using Cons.IH [OF combined_ok_semantic [OF Cons.prems]]
    by (simp add: usable_ids_Cons [of r rs] Un_assoc)
qed

lemma fold_regex:
  "combined_ok S R d \<Longrightarrow> distinct (map h_chunk_id rs) \<Longrightarrow> R \<inter> h_chunk_id ` set rs = {} \<Longrightarrow>
   combined_ok S (R \<union> usable_ids rs) (fold (add_regex w n) (enumerate i rs) d)"
proof (induction rs arbitrary: R d i)
  case Nil
  then show ?case by (simp add: usable_ids_def)
next
  case (Cons r rs)
  have "combined_ok S (R \<union> usable_ids [r]) (add_regex w n (i, r) d)"
    using Cons.prems by (intro combined_ok_regex) auto
  moreover have "(R \<union> usable_ids [r]) \<inter> h_chunk_id ` set rs = {}"
    using Cons.prems by (auto simp: usable_ids_def)
  ultimately show ?case using Cons.IH [of "R \<union> usable_ids [r]"] Cons.prems
    by (simp add: usable_ids_Cons [of r rs] Un_assoc)
qed

lemma combined_values:
  assumes "combined_ok S R d"
  shows "distinct (map h_chunk_id (dict_values d))" "h_chunk_id ` set (dict_values d) = S \<union> R"
    "\<forall>x\<in>set (dict_values d). h_search_type x = Some (search_type_of S R (h_chunk_id x))"
proof -
  have e: "\<forall>e\<in>set d. h_chunk_id (snd e) = fst e \<and> h_search_type (snd e) = Some (search_type_of S R (fst e))"
    using assms by (auto simp: combined_ok_def dict_get_Some_iff)
  then have m: "map h_chunk_id (dict_values d) = map fst d" by (simp add: dict_values_def)
  then show "distinct (map h_chunk_id (dict_values d))" using assms by (simp add: combined_ok_def dict_ok_def)
  show "h_chunk_id ` set (dict_values d) = S \<union> R"
    using arg_cong [OF m, of set] assms by (simp add: combined_ok_def)
  show "\<forall>x\<in>set (dict_values d). h_search_type x = Some (search_type_of S R (h_chunk_id x))"
    using e by (auto simp: dict_values_def)
qed

text \<open>
  the combined list has every chunk once, is ordered by the combined score, is as long as the
  limit and the chunks found allow, and calls a chunk hybrid exactly when both searches found it.
\<close>

theorem combine_search_results_ranked:
  assumes "distinct (map h_chunk_id regex_results)"
  shows "let R = combine_search_results semantic_results regex_results weight limit;
             S = usable_ids semantic_results; T = usable_ids regex_results
    in distinct (map h_chunk_id R) \<and> length R = min limit (card (S \<union> T))
       \<and> h_chunk_id ` set R \<subseteq> S \<union> T \<and> desc_by (\<lambda>x. the (h_combined_score x)) R
       \<and> (\<forall>x\<in>set R. h_search_type x = Some (search_type_of S T (h_chunk_id x)))"
proof -
  define d where "d = fold (add_regex (fl (1 - weight)) (length regex_results)) (enumerate 0 regex_results)
    (fold (add_semantic weight (length semantic_results)) (enumerate 0 semantic_results) [])"
  have "combined_ok {} {} []" by (simp add: combined_ok_def)
  from fold_regex [OF fold_semantic [OF this], of regex_results] assms
  have "combined_ok (usable_ids semantic_results) (usable_ids regex_results) d"
    unfolding d_def by simp
  note v = combined_values [OF this]
  have R: "combine_search_results semantic_results regex_results weight limit
      = take limit (sort_desc (\<lambda>x. the (h_combined_score x)) (dict_values d))"
    by (simp add: combine_search_results_def d_def Let_def)
  have "length (dict_values d) = card (usable_ids semantic_results \<union> usable_ids regex_results)"
    using v(1,2) distinct_card [of "map h_chunk_id (dict_values d)"] by simp
  moreover have "set (take limit (sort_desc f (dict_values d))) \<subseteq> set (dict_values d)" for f
    using set_take_subset by force
  moreover have "distinct (map h_chunk_id (take limit (sort_desc f (dict_values d))))" for f
    unfolding take_map [symmetric] using v(1) by (intro distinct_take) simp
  ultimately show ?thesis unfolding R Let_def using v(2,3)
    by (intro conjI sorted_wrt_take sort_desc_sorted) (simp_all, blast+)
qed

definition sample_hit :: "int \<Rightarrow> string \<Rightarrow> int \<Rightarrow> rat option \<Rightarrow> hit" where
  "sample_hit i path line similarity = \<lparr>h_chunk_id = Db_id i, h_symbol = None, h_name = None, h_content = ''x'',
     h_code = None, h_path = None, h_chunk_type = ''function'', h_start_line = line, h_end_line = line + 2,
     h_file_path = Some path, h_language = ''python'', h_metadata = Some [], h_similarity = similarity,
     h_score = None, h_distance = None, h_line_count = None, h_code_preview = None, h_file_extension = None,
     h_similarity_percentage = None, h_search_type = None, h_combined_score = None, h_semantic_score = None,
     h_regex_score = None\<rparr>"

theorem combine_search_results_ranked_witness:
  "let R = combine_search_results [sample_hit 1 ''a'' 1 (Some (1/2)), sample_hit 2 ''a'' 5 (Some (1/4))]
             [sample_hit 2 ''a'' 5 None, sample_hit 3 ''b'' 1 None] (fl (7/10)) 10
   in length R = 3 \<and> distinct (map h_chunk_id R)"
proof -
  have d: "distinct (map h_chunk_id [sample_hit 2 ''a'' 5 None, sample_hit 3 ''b'' 1 None])"
    by (simp add: sample_hit_def)
  have c: "card (usable_ids [sample_hit 1 ''a'' 1 (Some (1/2)), sample_hit 2 ''a'' 5 (Some (1/4))]
      \<union> usable_ids [sample_hit 2 ''a'' 5 None, sample_hit 3 ''b'' 1 None]) = 3"
    by (simp add: usable_ids_def usable_id_def sample_hit_def card_insert_if)
  show ?thesis
    using combine_search_results_ranked [OF d, of "[sample_hit 1 ''a'' 1 (Some (1/2)), sample_hit 2 ''a'' 5 (Some (1/4))]"
        "fl (7/10)" 10] c
    by (simp add: Let_def)
qed

end
