(* ===== verification/DB_Search.thy ===== *)
theory DB_Search
  imports Chunk_Store Text_Utils Search_Results
begin

text \<open>
  The searches of the database, from the executor methods of
  \<open>providers/database/duckdb_provider.py\<close>: the validation of a path filter, the \<open>LIKE\<close> pattern made
  from it, and the semantic, regex, similarity and text searches with their pages, over the tables
  of \<open>Chunk_Store\<close>.

  Arguments stand for the database's own functions: \<open>like\<close> is \<open>LIKE ... ESCAPE\<close>, \<open>regexp\<close> is
  \<open>regexp_matches\<close>, \<open>sim\<close> and \<open>cdist\<close> are the cosine similarity of a stored vector with the query's
  vector and the cosine distance of two stored vectors.  A table \<open>embeddings_<dims>\<close> is the list of
  its rows, \<open>None\<close> when it does not exist.  An exception inside an executor is caught there and
  gives the empty result.
\<close>

type_synonym joined_row = "chunk_row \<times> file_row"

subsection \<open>Path filters\<close>

definition dangerous_patterns :: "string list" where
  "dangerous_patterns =
     [''..'', ''~'', ''*'', ''?'', ''['', '']'', [CHR 0x00], [nl], [cr]]"

text \<open>\<open>str.lstrip("/")\<close> and \<open>str.rstrip("/")\<close>.\<close>

definition lstrip_slash :: "string \<Rightarrow> string" where
  "lstrip_slash s = dropWhile (\<lambda>c. c = CHR ''/'') s"

definition rstrip_slash :: "string \<Rightarrow> string" where
  "rstrip_slash s = rev (dropWhile (\<lambda>c. c = CHR ''/'') (rev s))"

definition has_file_extension :: "string \<Rightarrow> bool" where
  "has_file_extension p = (CHR ''.'' \<in> set (drop 1 (last (split_on CHR ''/'' p))))"

definition validate_and_normalize_path_filter :: "string option \<Rightarrow> string option result" where
  "validate_and_normalize_path_filter path_filter =
     (case path_filter of
        None \<Rightarrow> Inr None
      | Some p \<Rightarrow>
          (let stripped = py_strip p in
           if stripped = [] then Inr None
           else if list_ex (str_contains stripped) dangerous_patterns then Inl ValueError
           else
             (let relative = lstrip_slash (str_replace [backslash] ''/'' stripped) in
              Inr (Some (if relative \<noteq> [] \<and> \<not> ends_with relative ''/'' \<and> \<not> has_file_extension relative
                         then relative @ ''/'' else relative)))))"

definition build_path_like_pattern :: "string \<Rightarrow> string" where
  "build_path_like_pattern normalized_path =
     (let escaped = escape_like_pattern normalized_path False in
      if ends_with escaped ''/'' then ''%/'' @ escaped @ ''%'' else ''%/'' @ escaped)"

text \<open>\<open>CONCAT('/', f.path) LIKE ? ESCAPE '\'\<close>, present when the filter is not \<open>None\<close>.\<close>

definition path_condition :: "(string \<Rightarrow> string \<Rightarrow> bool) \<Rightarrow> string option \<Rightarrow> string \<Rightarrow> bool" where
  "path_condition like normalized path =
     (case normalized of
        None \<Rightarrow> True
      | Some n \<Rightarrow> like (build_path_like_pattern n) (''/'' @ path))"

subsection \<open>Rows and results\<close>

text \<open>\<open>chunks c JOIN files f ON c.file_id = f.id\<close>, and with an embeddings table before it.\<close>

definition chunks_with_files :: "database \<Rightarrow> joined_row list" where
  "chunks_with_files db =
     concat (map (\<lambda>c. map (Pair c) (filter (\<lambda>f. fr_id f = r_file_id c) (t_files (db_tables db))))
       (t_chunks (db_tables db)))"

definition embedded_chunks :: "database \<Rightarrow> embedding_row list \<Rightarrow> (embedding_row \<times> joined_row) list" where
  "embedded_chunks db table =
     concat (map (\<lambda>e. map (Pair e) (filter (\<lambda>(c, f). r_id c = fst e) (chunks_with_files db))) table)"

text \<open>The columns that every search returns, before the ones of the single search.\<close>

definition row_hit :: "joined_row \<Rightarrow> hit" where
  "row_hit cf = (let (c, f) = cf in
     \<lparr>h_chunk_id = Db_id (r_id c), h_symbol = None, h_name = None, h_content = r_code c, h_code = None,
      h_path = None, h_chunk_type = r_chunk_type c, h_start_line = r_start_line c, h_end_line = r_end_line c,
      h_file_path = Some (fr_path f), h_language = (case fr_language f of None \<Rightarrow> [] | Some l \<Rightarrow> l),
      h_metadata = None, h_similarity = None, h_score = None, h_distance = None, h_line_count = None,
      h_code_preview = None, h_file_extension = None, h_similarity_percentage = None, h_search_type = None,
      h_combined_score = None, h_semantic_score = None, h_regex_score = None\<rparr>)"

definition loaded_metadata :: "joined_row \<Rightarrow> (string \<times> pyval) list option" where
  "loaded_metadata cf = Some (case r_metadata (fst cf) of None \<Rightarrow> [] | Some md \<Rightarrow> md)"

definition no_page :: "nat \<Rightarrow> nat \<Rightarrow> pagination" where
  "no_page page_size offset = \<lparr>pg_offset = offset, pg_page_size = page_size, pg_has_more = Some False,
     pg_next_offset = None, pg_total = Some 0\<rparr>"

subsection \<open>Semantic search\<close>

definition semantic_condition ::
  "(string \<Rightarrow> string \<Rightarrow> bool) \<Rightarrow> (embedding_row \<Rightarrow> rat) \<Rightarrow> string \<Rightarrow> string \<Rightarrow> rat option \<Rightarrow> string option \<Rightarrow>
     embedding_row \<times> joined_row \<Rightarrow> bool" where
  "semantic_condition like sim provider model threshold normalized = (\<lambda>(e, c, f).
     fst (snd e) = provider \<and> snd (snd e) = model
     \<and> (case threshold of None \<Rightarrow> True | Some t \<Rightarrow> t \<le> sim e)
     \<and> path_condition like normalized (fr_path f))"

definition semantic_hit :: "(embedding_row \<Rightarrow> rat) \<Rightarrow> embedding_row \<times> joined_row \<Rightarrow> hit" where
  "semantic_hit sim = (\<lambda>(e, cf). (row_hit cf)\<lparr>h_symbol := Some (r_symbol (fst cf)),
     h_similarity := Some (sim e), h_metadata := loaded_metadata cf\<rparr>)"

definition search_semantic ::
  "(string \<Rightarrow> string \<Rightarrow> bool) \<Rightarrow> (embedding_row \<Rightarrow> rat) \<Rightarrow> database \<Rightarrow> embedding_row list option \<Rightarrow>
     string \<Rightarrow> string \<Rightarrow> nat \<Rightarrow> nat \<Rightarrow> rat option \<Rightarrow> string option \<Rightarrow> hit list \<times> pagination" where
  "search_semantic like sim db table provider model page_size offset threshold path_filter =
     (case validate_and_normalize_path_filter path_filter of
        Inl e \<Rightarrow> ([], no_page page_size offset)
      | Inr normalized \<Rightarrow>
          (case table of
             None \<Rightarrow> ([], no_page page_size offset)
           | Some rows \<Rightarrow>
               (let matching = filter (semantic_condition like sim provider model threshold normalized)
                      (embedded_chunks db rows);
                    total_count = length matching;
                    results = take page_size (drop offset (sort_desc (\<lambda>x. sim (fst x)) matching))
                in (map (semantic_hit sim) results, page_info page_size offset total_count))))"

subsection \<open>Regex search\<close>

definition path_line_order :: "joined_row \<Rightarrow> string \<times> int" where
  "path_line_order = (\<lambda>(c, f). (fr_path f, r_start_line c))"

definition regex_hit :: "joined_row \<Rightarrow> hit" where
  "regex_hit cf = (row_hit cf)\<lparr>h_name := Some (r_symbol (fst cf)), h_metadata := loaded_metadata cf\<rparr>"

definition search_regex ::
  "(string \<Rightarrow> string \<Rightarrow> bool) \<Rightarrow> (string \<Rightarrow> string \<Rightarrow> bool) \<Rightarrow> database \<Rightarrow> string \<Rightarrow> nat \<Rightarrow> nat \<Rightarrow> string option \<Rightarrow>
     hit list \<times> pagination" where
  "search_regex like regexp db pattern page_size offset path_filter =
     (case validate_and_normalize_path_filter path_filter of
        Inl e \<Rightarrow> ([], no_page page_size offset)
      | Inr normalized \<Rightarrow>
          (let matching = filter (\<lambda>(c, f). regexp pattern (r_code c) \<and> path_condition like normalized (fr_path f))
                 (chunks_with_files db);
               total_count = length matching;
               results = take page_size (drop offset (sort_key path_line_order matching))
           in (map regex_hit results, page_info page_size offset total_count)))"

text \<open>\<open>search_chunks_regex\<close>: one large page.\<close>

definition search_chunks_regex ::
  "(string \<Rightarrow> string \<Rightarrow> bool) \<Rightarrow> (string \<Rightarrow> string \<Rightarrow> bool) \<Rightarrow> database \<Rightarrow> string \<Rightarrow> string option \<Rightarrow> hit list" where
  "search_chunks_regex like regexp db pattern file_path =
     fst (search_regex like regexp db pattern 1000 0 file_path)"

subsection \<open>Similar chunks\<close>

text \<open>The first table that has a vector of the chunk for the provider and model.\<close>

fun find_embedding ::
  "embedding_row list list \<Rightarrow> int \<Rightarrow> string \<Rightarrow> string \<Rightarrow> (embedding_row \<times> embedding_row list) option" where
  "find_embedding [] chunk_id provider model = None"
| "find_embedding (table # embedding_tables) chunk_id provider model =
     (if (chunk_id, provider, model) \<in> set table then Some ((chunk_id, provider, model), table)
      else find_embedding embedding_tables chunk_id provider model)"

definition near_condition ::
  "(string \<Rightarrow> string \<Rightarrow> bool) \<Rightarrow> (embedding_row \<Rightarrow> rat) \<Rightarrow> string \<Rightarrow> string \<Rightarrow> rat option \<Rightarrow> string option \<Rightarrow>
     embedding_row \<times> joined_row \<Rightarrow> bool" where
  "near_condition like distance provider model threshold normalized = (\<lambda>(e, c, f).
     fst (snd e) = provider \<and> snd (snd e) = model
     \<and> path_condition like normalized (fr_path f)
     \<and> (case threshold of None \<Rightarrow> True | Some t \<Rightarrow> distance e \<le> t))"

definition near_hit :: "(embedding_row \<Rightarrow> rat) \<Rightarrow> embedding_row \<times> joined_row \<Rightarrow> hit" where
  "near_hit distance = (\<lambda>(e, cf). (row_hit cf)\<lparr>h_name := Some (r_symbol (fst cf)),
     h_score := Some (fl (1 - distance e))\<rparr>)"

definition find_similar_chunks ::
  "(string \<Rightarrow> string \<Rightarrow> bool) \<Rightarrow> (embedding_row \<Rightarrow> embedding_row \<Rightarrow> rat) \<Rightarrow> database \<Rightarrow> embedding_row list list \<Rightarrow>
     int \<Rightarrow> string \<Rightarrow> string \<Rightarrow> nat \<Rightarrow> rat option \<Rightarrow> string option \<Rightarrow> hit list" where
  "find_similar_chunks like cdist db embedding_tables chunk_id provider model limit threshold path_filter =
     (case validate_and_normalize_path_filter path_filter of
        Inl e \<Rightarrow> []
      | Inr normalized \<Rightarrow>
          (case find_embedding embedding_tables chunk_id provider model of
             None \<Rightarrow> []
           | Some (target, table) \<Rightarrow>
               (let matching = filter (\<lambda>x. near_condition like (cdist target) provider model threshold normalized x
                                       \<and> r_id (fst (snd x)) \<noteq> chunk_id) (embedded_chunks db table)
                in map (\<lambda>x. (near_hit (cdist target) x)\<lparr>h_metadata := loaded_metadata (snd x)\<rparr>)
                     (take limit (sort_key (\<lambda>x. cdist target (fst x)) matching)))))"

definition search_by_embedding ::
  "(string \<Rightarrow> string \<Rightarrow> bool) \<Rightarrow> (embedding_row \<Rightarrow> rat) \<Rightarrow> database \<Rightarrow> embedding_row list option \<Rightarrow>
     string \<Rightarrow> string \<Rightarrow> nat \<Rightarrow> rat option \<Rightarrow> string option \<Rightarrow> hit list" where
  "search_by_embedding like distance db table provider model limit threshold path_filter =
     (case table of
        None \<Rightarrow> []
      | Some rows \<Rightarrow>
          (case validate_and_normalize_path_filter path_filter of
             Inl e \<Rightarrow> []
           | Inr normalized \<Rightarrow>
               map (near_hit distance)
                 (take limit (sort_key (\<lambda>x. distance (fst x))
                   (filter (near_condition like distance provider model threshold normalized)
                     (embedded_chunks db rows))))))"

subsection \<open>Similarities and text search\<close>

definition get_chunk_similarities ::
  "(embedding_row \<Rightarrow> rat) \<Rightarrow> embedding_row list option \<Rightarrow> int list \<Rightarrow> string \<Rightarrow> string \<Rightarrow> (int, rat) pydict" where
  "get_chunk_similarities sim table chunk_ids provider model =
     (if chunk_ids = [] then []
      else (case table of
              None \<Rightarrow> []
            | Some rows \<Rightarrow>
                fold (\<lambda>e d. dict_set (fst e) (sim e) d)
                  (filter (\<lambda>e. fst e \<in> set chunk_ids \<and> snd e = (provider, model)) rows) []))"

definition search_text :: "(string \<Rightarrow> string \<Rightarrow> bool) \<Rightarrow> database \<Rightarrow> string \<Rightarrow> nat \<Rightarrow> hit list" where
  "search_text like db query limit =
     (let search_pattern = ''%'' @ query @ ''%'' in
      map (\<lambda>cf. (row_hit cf)\<lparr>h_name := Some (r_symbol (fst cf))\<rparr>)
        (take limit (sort_key path_line_order
          (filter (\<lambda>(c, f). like search_pattern (r_code c) \<or> like search_pattern (r_symbol c))
            (chunks_with_files db)))))"

subsection \<open>The scope of a path filter\<close>

lemma split_on_append: "split_on c (s @ c # t) = split_on c s @ split_on c t"
proof (induction s)
  case (Cons x s)
  then show ?case by (cases "split_on c s") auto
qed simp

lemma split_on_inj: "split_on c s = split_on c t \<Longrightarrow> s = t"
  by (metis join_split_on)

lemma split_on_parts:
  assumes "split_on c s = xs @ ys" "xs \<noteq> []" "ys \<noteq> []"
  shows "s = join_with [c] xs @ c # join_with [c] ys"
  using join_append [OF assms(2,3), of "[c]"] join_split_on [of c s] assms(1) by simp

lemma split_on_suffix_iff:
  "(\<exists>u. CHR ''/'' # path = u @ CHR ''/'' # d) \<longleftrightarrow>
     (\<exists>as. split_on CHR ''/'' path = as @ split_on CHR ''/'' d)"
proof
  assume "\<exists>u. CHR ''/'' # path = u @ CHR ''/'' # d"
  then obtain u where "CHR ''/'' # path = u @ CHR ''/'' # d" ..
  then show "\<exists>as. split_on CHR ''/'' path = as @ split_on CHR ''/'' d"
    by (cases u) (auto simp: split_on_append)
next
  assume "\<exists>as. split_on CHR ''/'' path = as @ split_on CHR ''/'' d"
  then obtain as where as: "split_on CHR ''/'' path = as @ split_on CHR ''/'' d" ..
  show "\<exists>u. CHR ''/'' # path = u @ CHR ''/'' # d"
  proof (cases "as = []")
    case True
    with as have "path = d" by (auto dest: split_on_inj)
    then show ?thesis by (intro exI [of _ "[]"]) simp
  next
    case False
    from split_on_parts [OF as False] show ?thesis
      by (intro exI [of _ "CHR ''/'' # join_with [CHR ''/''] as"]) (simp add: join_split_on)
  qed
qed

lemma split_on_infix_iff:
  "(\<exists>u v. CHR ''/'' # path = u @ CHR ''/'' # d @ CHR ''/'' # v) \<longleftrightarrow>
     (\<exists>as bs. bs \<noteq> [] \<and> split_on CHR ''/'' path = as @ split_on CHR ''/'' d @ bs)"
proof
  assume "\<exists>u v. CHR ''/'' # path = u @ CHR ''/'' # d @ CHR ''/'' # v"
  then obtain u v where "CHR ''/'' # path = u @ CHR ''/'' # (d @ CHR ''/'' # v)" by blast
  then obtain as where "split_on CHR ''/'' path = as @ split_on CHR ''/'' (d @ CHR ''/'' # v)"
    using split_on_suffix_iff [of path "d @ CHR ''/'' # v"] by blast
  then show "\<exists>as bs. bs \<noteq> [] \<and> split_on CHR ''/'' path = as @ split_on CHR ''/'' d @ bs"
    by (intro exI [of _ as] exI [of _ "split_on CHR ''/'' v"]) (simp add: split_on_append)
next
  assume "\<exists>as bs. bs \<noteq> [] \<and> split_on CHR ''/'' path = as @ split_on CHR ''/'' d @ bs"
  then obtain as bs where a: "bs \<noteq> []" "split_on CHR ''/'' path = as @ split_on CHR ''/'' d @ bs" by blast
  have "\<forall>b\<in>set bs. CHR ''/'' \<notin> set b"
    using split_on_no_sep [of _ "CHR ''/''" path] a(2) by simp
  then have "split_on CHR ''/'' (d @ CHR ''/'' # join_with [CHR ''/''] bs) = split_on CHR ''/'' d @ bs"
    using a(1) by (simp add: split_on_append split_join)
  with a(2) have "\<exists>as. split_on CHR ''/'' path
      = as @ split_on CHR ''/'' (d @ CHR ''/'' # join_with [CHR ''/''] bs)" by auto
  then show "\<exists>u v. CHR ''/'' # path = u @ CHR ''/'' # d @ CHR ''/'' # v"
    using split_on_suffix_iff [of path "d @ CHR ''/'' # join_with [CHR ''/''] bs"] by auto
qed

lemma ends_with_char: "ends_with s [c] \<longleftrightarrow> s \<noteq> [] \<and> last s = c"
  by (cases s rule: rev_cases) (auto simp: ends_with_def)

lemma escaped_ends_with_slash:
  "ends_with (escape_like_pattern n False) ''/'' \<longleftrightarrow> ends_with n ''/''"
  unfolding escape_like_pattern_eq ends_with_char
  by (cases n rule: rev_cases) (auto simp: like_escape_char_def)

lemma path_condition_eq:
  assumes "like_operator like"
  shows "path_condition like (Some n) path \<longleftrightarrow>
     (if ends_with n ''/'' then \<exists>u v. CHR ''/'' # path = u @ CHR ''/'' # n @ v
      else \<exists>u. CHR ''/'' # path = u @ CHR ''/'' # n)"
proof -
  note L = like_operator.like_any [OF assms] like_operator.like_plain [OF assms]
    like_operator.like_literal [OF assms] like_operator.like_Nil [OF assms]
  have "path_condition like (Some n) path \<longleftrightarrow>
      like (CHR ''%'' # CHR ''/'' # concat (map like_escape_char n) @ (if ends_with n ''/'' then ''%'' else []))
        (CHR ''/'' # path)"
    by (simp add: path_condition_def build_path_like_pattern_def Let_def escaped_ends_with_slash
        escape_like_pattern_eq [symmetric])
  then show ?thesis by (auto simp: L)
qed

text \<open>
  C38: a filter that names a directory selects exactly the files below a directory whose path ends
  in the components of the filter, at any depth, and a filter that names a file exactly the files
  whose path ends in them; components are compared whole and literally, whatever \<open>LIKE\<close>
  metacharacters they hold.
\<close>

theorem path_scope_exact:
  assumes "like_operator like"
  shows "path_condition like (Some n) path \<longleftrightarrow>
     (if ends_with n ''/''
      then \<exists>as bs. bs \<noteq> [] \<and> split_on CHR ''/'' path = as @ split_on CHR ''/'' (butlast n) @ bs
      else \<exists>as. split_on CHR ''/'' path = as @ split_on CHR ''/'' n)"
proof (cases "ends_with n ''/''")
  case True
  then have "n = butlast n @ ''/''" by (metis append_butlast_last_id ends_with_char)
  then obtain d where "n = d @ ''/''" by blast
  then show ?thesis
    using True path_condition_eq [OF assms, of n path] split_on_infix_iff [of path d] by simp
next
  case False
  then show ?thesis using path_condition_eq [OF assms, of n path] split_on_suffix_iff [of path n] by simp
qed

theorem path_scope_exact_witness:
  "path_condition sql_like (Some ''my_app/'') ''libs/my_app/main.py''
   \<and> \<not> path_condition sql_like (Some ''my_app/'') ''libs/myxapp/main.py''"
  unfolding path_scope_exact [OF sql.like_operator_axioms]
  by (auto simp: ends_with_def Cons_eq_append_conv append_eq_Cons_conv)

text \<open>
  The filter \<open>/\<close> is not empty for the check but is empty after normalisation; its pattern asks for
  a path that ends in a slash, so it selects no file.
\<close>

theorem root_filter_selects_nothing:
  assumes "like_operator like" "path \<noteq> []" "last path \<noteq> CHR ''/''"
  shows "validate_and_normalize_path_filter (Some ''/'') = Inr (Some [])
    \<and> \<not> path_condition like (Some []) path"
proof
  show "validate_and_normalize_path_filter (Some ''/'') = Inr (Some [])" by code_simp
  have "CHR ''/'' # path \<noteq> u @ CHR ''/'' # []" for u
    using assms(2,3) by (cases path rule: rev_cases) auto
  then show "\<not> path_condition like (Some []) path"
    unfolding path_condition_eq [OF assms(1)] by (simp add: ends_with_def)
qed

subsection \<open>Pages\<close>

lemma no_page_eq: "no_page page_size offset = page_info page_size offset 0"
  by (simp add: no_page_def page_info_def)

lemma paginate_map: "paginate page_size offset (map f xs)
    = (map f (take page_size (drop offset xs)), page_info page_size offset (length xs))"
  by (simp add: paginate_def take_map drop_map)

definition semantic_matches ::
  "(string \<Rightarrow> string \<Rightarrow> bool) \<Rightarrow> (embedding_row \<Rightarrow> rat) \<Rightarrow> database \<Rightarrow> embedding_row list option \<Rightarrow>
     string \<Rightarrow> string \<Rightarrow> rat option \<Rightarrow> string option \<Rightarrow> hit list" where
  "semantic_matches like sim db table provider model threshold path_filter =
     (case (validate_and_normalize_path_filter path_filter, table) of
        (Inr normalized, Some rows) \<Rightarrow>
          map (semantic_hit sim) (filter (semantic_condition like sim provider model threshold normalized)
            (embedded_chunks db rows))
      | _ \<Rightarrow> [])"

definition regex_matches ::
  "(string \<Rightarrow> string \<Rightarrow> bool) \<Rightarrow> (string \<Rightarrow> string \<Rightarrow> bool) \<Rightarrow> database \<Rightarrow> string \<Rightarrow> string option \<Rightarrow> hit list" where
  "regex_matches like regexp db pattern path_filter =
     (case validate_and_normalize_path_filter path_filter of
        Inl e \<Rightarrow> []
      | Inr normalized \<Rightarrow>
          map regex_hit (filter (\<lambda>(c, f). regexp pattern (r_code c) \<and> path_condition like normalized (fr_path f))
            (chunks_with_files db)))"

definition hit_similarity :: "hit \<Rightarrow> rat" where
  "hit_similarity r = (case h_similarity r of None \<Rightarrow> 0 | Some s \<Rightarrow> s)"

definition hit_position :: "hit \<Rightarrow> string \<times> int" where
  "hit_position r = (case h_file_path r of None \<Rightarrow> [] | Some p \<Rightarrow> p, h_start_line r)"

lemma sort_key_map: "sort_key f (map g xs) = map g (sort_key (\<lambda>x. f (g x)) xs)"
proof (induction xs)
  case (Cons x xs)
  have "insort_key f (g x) (map g ys) = map g (insort_key (\<lambda>x. f (g x)) x ys)" for ys
    by (induction ys) auto
  with Cons show ?case by simp
qed simp

lemma semantic_paged:
  "search_semantic like sim db table provider model page_size offset threshold path_filter
   = paginate page_size offset
       (sort_desc hit_similarity (semantic_matches like sim db table provider model threshold path_filter))"
proof (cases "validate_and_normalize_path_filter path_filter"; cases table)
  fix normalized rows
  assume "validate_and_normalize_path_filter path_filter = Inr normalized" "table = Some rows"
  moreover have "(\<lambda>x. - hit_similarity (semantic_hit sim x)) = (\<lambda>x. - sim (fst x))"
    by (auto simp: hit_similarity_def semantic_hit_def fun_eq_iff)
  ultimately show ?thesis
    by (simp add: search_semantic_def semantic_matches_def sort_desc_def sort_key_map
        paginate_map Let_def)
qed (simp_all add: search_semantic_def semantic_matches_def sort_desc_def no_page_eq paginate_def)

lemma regex_paged:
  "search_regex like regexp db pattern page_size offset path_filter
   = paginate page_size offset (sort_key hit_position (regex_matches like regexp db pattern path_filter))"
proof (cases "validate_and_normalize_path_filter path_filter")
  case (Inr normalized)
  moreover have "(\<lambda>x. hit_position (regex_hit x)) = path_line_order"
    by (auto simp: hit_position_def regex_hit_def row_hit_def path_line_order_def fun_eq_iff)
  ultimately show ?thesis
    by (simp add: search_regex_def regex_matches_def sort_key_map paginate_map Let_def)
qed (simp add: search_regex_def regex_matches_def no_page_eq paginate_def)

interpretation semantic: paged_search
  "\<lambda>offset. search_semantic like sim db table provider model page_size offset threshold path_filter" page_size
  "sort_desc hit_similarity (semantic_matches like sim db table provider model threshold path_filter)"
  for like sim db table provider model threshold path_filter page_size
  by unfold_locales (rule semantic_paged)

interpretation regex: paged_search
  "\<lambda>offset. search_regex like regexp db pattern page_size offset path_filter" page_size
  "sort_key hit_position (regex_matches like regexp db pattern path_filter)"
  for like regexp db pattern path_filter page_size
  by unfold_locales (rule regex_paged)


text \<open>
  The threshold of \<open>find_similar_chunks\<close> and \<open>search_by_embedding\<close> bounds the distance, not the
  similarity that the interface speaks of: a threshold of \<open>0.9\<close> keeps a chunk of similarity \<open>0.2\<close>.
\<close>

theorem threshold_is_a_distance:
  "near_condition like (\<lambda>e. 8/10) prov model (Some (9/10)) None ((i, prov, model), c, f)
   \<and> \<not> near_condition like (\<lambda>e. 8/10) prov model (Some (7/10)) None ((i, prov, model), c, f)"
  by (simp add: near_condition_def path_condition_def)

definition sample_search_db :: database where
  "sample_search_db =
     (let file = (\<lambda>i p. \<lparr>fr_id = i, fr_path = p, fr_name = p, fr_extension = ''.py'', fr_size = 1, fr_mtime = 0,
                fr_content_hash = None, fr_language = Some ''python'', fr_skip_reason = None\<rparr>);
          chunk = (\<lambda>i f l. \<lparr>r_id = i, r_file_id = f, r_chunk_type = ''function'', r_symbol = ''f'', r_code = ''def f'',
                r_start_line = l, r_end_line = l, r_start_byte = None, r_end_byte = None,
                r_language = ''python'', r_metadata = None\<rparr>)
      in \<lparr>db_tables = \<lparr>t_files = [file 1 ''lib/b.py'', file 2 ''lib/a.py''],
            t_chunks = [chunk 1 1 4, chunk 2 1 1, chunk 3 2 1],
            t_embeddings = [(1, ''p'', ''m''), (2, ''p'', ''m''), (3, ''p'', ''m'')]\<rparr>,
          files_id_seq = 3, chunks_id_seq = 4, transaction = None\<rparr>)"


end
