(* ===== verification/Diff_Search.thy ===== *)
theory Diff_Search
  imports DB_Search
begin

text \<open>
  The search over a diff and the database together (\<open>services/diff_aware_search_service.py\<close>):
  \<open>DiffAwareSearchService\<close> with its three modes, the ranking of the chunks of the diff, the two-pass
  merge with the results of the database, and the pages of the merged list.

  The vectors, the cosine similarity of the query with a row and \<open>numpy.argsort\<close> are arguments; so
  is the wrapped service, a function from page size, offset and threshold to its page.
\<close>

type_synonym 'a page = "'a list \<times> pagination"

record 'v diff_service =
  ds_chunks :: "chunk list"
  ds_matrix :: "'v list option"
  ds_vector_source :: string

text \<open>The rows of an empty matrix have no norms: numpy raises a \<open>ValueError\<close>.\<close>

definition new_diff_service :: "chunk list \<Rightarrow> 'v list \<Rightarrow> string \<Rightarrow> 'v diff_service result" where
  "new_diff_service diff_chunks diff_embeddings vector_source =
     (if diff_embeddings \<noteq> [] then
        let M = min (length diff_embeddings) (length diff_chunks)
        in if M = 0 then Inl ValueError
           else Inr \<lparr>ds_chunks = take M diff_chunks, ds_matrix = Some (take M diff_embeddings),
                     ds_vector_source = vector_source\<rparr>
      else Inr \<lparr>ds_chunks = diff_chunks, ds_matrix = None, ds_vector_source = vector_source\<rparr>)"

definition str_or_None :: "string option \<Rightarrow> string" where
  "str_or_None s = (case s of None \<Rightarrow> ''None'' | Some t \<Rightarrow> t)"

definition chunk_to_hit :: "chunk \<Rightarrow> rat \<Rightarrow> hit" where
  "chunk_to_hit c score =
     \<lparr>h_chunk_id = Diff_id (''diff:'' @ str_or_None (c_file_path c) @ '':'' @ str_int (c_start_line c) @ '':''
        @ str_or_None (c_symbol c)),
      h_symbol = c_symbol c, h_name = None, h_content = c_code c, h_code = None, h_path = None,
      h_chunk_type = chunk_type_value (c_chunk_type c), h_start_line = c_start_line c, h_end_line = c_end_line c,
      h_file_path = c_file_path c, h_language = language_value (c_language c), h_metadata = None,
      h_similarity = Some score, h_score = Some score, h_distance = None, h_line_count = None,
      h_code_preview = None, h_file_extension = None, h_similarity_percentage = None, h_search_type = None,
      h_combined_score = None, h_semantic_score = None, h_regex_score = None\<rparr>"

subsection \<open>Search over the chunks of the diff\<close>

definition diff_path_filter :: "string option \<Rightarrow> chunk list \<Rightarrow> nat list \<Rightarrow> nat list result" where
  "diff_path_filter path_filter chunks sorted_indices =
     (if truthy_str path_filter then
        let p = the path_filter
        in if list_ex (str_contains p) dangerous_patterns then Inl ValueError
           else let pf = rstrip_slash (lstrip_slash (str_replace [backslash] ''/'' p)) @ ''/''
                in Inr (filter (\<lambda>i. truthy_str (c_file_path (chunks ! i))
                                  \<and> starts_with (the (c_file_path (chunks ! i))) pf) sorted_indices)
      else Inr sorted_indices)"

definition above_threshold :: "rat option \<Rightarrow> rat \<Rightarrow> bool" where
  "above_threshold threshold score = (case threshold of None \<Rightarrow> True | Some t \<Rightarrow> t \<le> score)"

definition search_diff ::
  "(rat list \<Rightarrow> nat list) \<Rightarrow> ('v \<Rightarrow> rat) \<Rightarrow> 'v diff_service \<Rightarrow> nat \<Rightarrow> nat \<Rightarrow> rat option \<Rightarrow> string option \<Rightarrow>
     hit page result" where
  "search_diff argsort cosine svc page_size offset threshold path_filter =
     (if ds_chunks svc = [] \<or> ds_matrix svc = None
      then Inr ([], \<lparr>pg_offset = offset, pg_page_size = page_size, pg_has_more = None, pg_next_offset = None,
                     pg_total = Some 0\<rparr>)
      else
        let scores = map cosine (the (ds_matrix svc));
            sorted_indices = rev (argsort scores)
        in bind_result (diff_path_filter path_filter (ds_chunks svc) sorted_indices) (\<lambda>in_scope.
             let kept = filter (\<lambda>i. above_threshold threshold (scores ! i)) in_scope;
                 paged = take page_size (drop offset kept)
             in Inr (map (\<lambda>i. chunk_to_hit (ds_chunks svc ! i) (scores ! i)) paged,
                     page_info page_size offset (length kept))))"

subsection \<open>Merging\<close>

definition normalise_db_result :: "hit \<Rightarrow> hit" where
  "normalise_db_result r =
     (if h_distance r \<noteq> None \<and> h_similarity r = None
      then let s = fl (1 - the (h_distance r)) in r\<lparr>h_similarity := Some s, h_score := Some s\<rparr>
      else if h_similarity r \<noteq> None \<and> h_score r = None then r\<lparr>h_score := h_similarity r\<rparr>
      else r)"

definition location :: "hit \<Rightarrow> string option \<times> int" where
  "location r = (h_file_path r, h_start_line r)"

definition str_id :: "hit_id \<Rightarrow> string" where
  "str_id i = (case i of Db_id n \<Rightarrow> str_int n | Diff_id s \<Rightarrow> s)"

fun dedup_diff :: "string set \<Rightarrow> hit list \<Rightarrow> hit list" where
  "dedup_diff seen_diff_ids [] = []"
| "dedup_diff seen_diff_ids (r # rs) =
     (if str_id (h_chunk_id r) \<in> seen_diff_ids then dedup_diff seen_diff_ids rs
      else r # dedup_diff (insert (str_id (h_chunk_id r)) seen_diff_ids) rs)"

fun dedup_db :: "(string option \<times> int) set \<Rightarrow> (string option \<times> int) set \<Rightarrow> hit list \<Rightarrow> hit list" where
  "dedup_db diff_locations seen_db_locs [] = []"
| "dedup_db diff_locations seen_db_locs (r # rs) =
     (if location r \<notin> diff_locations \<and> location r \<notin> seen_db_locs
      then r # dedup_db diff_locations (insert (location r) seen_db_locs) rs
      else dedup_db diff_locations seen_db_locs rs)"

definition merge_results :: "hit list \<Rightarrow> hit list \<Rightarrow> hit list" where
  "merge_results diff_results db_results =
     (let deduped_diff = dedup_diff {} (sort_desc score_of diff_results);
          diff_locations = set (map location deduped_diff);
          deduped_db = dedup_db diff_locations {} (sort_desc score_of (map normalise_db_result db_results))
      in sort_desc score_of (deduped_diff @ deduped_db))"

definition MAX_BOTH_DB_FETCH :: nat where "MAX_BOTH_DB_FETCH = 10000"

definition diff_aware_search ::
  "(rat list \<Rightarrow> nat list) \<Rightarrow> ('v \<Rightarrow> rat) \<Rightarrow> (nat \<Rightarrow> nat \<Rightarrow> rat option \<Rightarrow> hit page) \<Rightarrow> 'v diff_service \<Rightarrow>
     nat \<Rightarrow> nat \<Rightarrow> rat option \<Rightarrow> string option \<Rightarrow> hit page result" where
  "diff_aware_search argsort cosine original svc page_size offset threshold path_filter =
     (if ds_vector_source svc = ''db'' then Inr (original page_size offset threshold)
      else if ds_vector_source svc = ''diff''
      then search_diff argsort cosine svc page_size offset threshold path_filter
      else
        let diff_fetch = (if ds_chunks svc \<noteq> [] then length (ds_chunks svc) else offset + page_size)
        in bind_result (search_diff argsort cosine svc diff_fetch 0 None path_filter) (\<lambda>(diff_results, _).
             let (db_results, _) = original MAX_BOTH_DB_FETCH 0 None;
                 deduped = filter (\<lambda>r. above_threshold threshold (score_of r))
                             (merge_results diff_results db_results)
             in Inr (paginate page_size offset deduped)))"

subsection \<open>The two passes\<close>

lemma dedup_diff_ids:
  "distinct (map (\<lambda>r. str_id (h_chunk_id r)) (dedup_diff S rs))
   \<and> (\<lambda>r. str_id (h_chunk_id r)) ` set (dedup_diff S rs) = (\<lambda>r. str_id (h_chunk_id r)) ` set rs - S
   \<and> set (dedup_diff S rs) \<subseteq> set rs"
  by (induction S rs rule: dedup_diff.induct) auto

lemma dedup_diff_best:
  assumes "desc_by f rs" "r \<in> set rs" "str_id (h_chunk_id r) \<notin> S"
  shows "\<exists>x\<in>set (dedup_diff S rs). str_id (h_chunk_id x) = str_id (h_chunk_id r) \<and> f r \<le> f x"
  using assms by (induction S rs rule: dedup_diff.induct) force+

lemma dedup_db_locations:
  "distinct (map location (dedup_db D S rs)) \<and> location ` set (dedup_db D S rs) = location ` set rs - D - S
   \<and> set (dedup_db D S rs) \<subseteq> set rs"
  by (induction D S rs rule: dedup_db.induct) auto

lemma dedup_db_best:
  assumes "desc_by f rs" "r \<in> set rs" "location r \<notin> D" "location r \<notin> S"
  shows "\<exists>x\<in>set (dedup_db D S rs). location x = location r \<and> f r \<le> f x"
  using assms by (induction D S rs rule: dedup_db.induct) force+

text \<open>
  merging ranks all results by score and loses no location: every chunk of the diff is
  represented by a result with its id and at least its score, and the location of every result of
  the database by a diff result or by the best result of the database there; a database result at
  a location of the diff never appears.
\<close>

theorem merge_results_correct:
  assumes "M = merge_results diff_results db_results"
    and "DB = map normalise_db_result db_results"
    and "\<forall>d\<in>set diff_results. \<exists>s. h_chunk_id d = Diff_id s"
    and "\<forall>r\<in>set db_results. \<exists>i. h_chunk_id r = Db_id i"
  shows "desc_by score_of M \<and> set M \<subseteq> set diff_results \<union> set DB
    \<and> (\<forall>d\<in>set diff_results. \<exists>x\<in>set M \<inter> set diff_results.
          str_id (h_chunk_id x) = str_id (h_chunk_id d) \<and> score_of d \<le> score_of x)
    \<and> (\<forall>r\<in>set DB. \<exists>x\<in>set M. location x = location r
          \<and> (x \<in> set diff_results \<or> score_of r \<le> score_of x))
    \<and> (\<forall>x\<in>set M - set diff_results. location x \<notin> location ` (set M \<inter> set diff_results))"
proof -
  define E where "E = dedup_diff {} (sort_desc score_of diff_results)"
  define F where "F = dedup_db (location ` set E) {} (sort_desc score_of DB)"
  have M: "M = sort_desc score_of (E @ F)"
    unfolding assms(1,2) E_def F_def by (simp add: merge_results_def Let_def)
  then have sM: "set M = set E \<union> set F" by simp
  have disj: "set diff_results \<inter> set DB = {}"
    using assms(3,4) unfolding assms(2) by (auto simp: normalise_db_result_def Let_def) fastforce+
  have E: "set E \<subseteq> set diff_results"
    using dedup_diff_ids [of "{}" "sort_desc score_of diff_results"] by (simp add: E_def)
  have F: "set F \<subseteq> set DB" "location ` set F = location ` set DB - location ` set E"
    using dedup_db_locations [of "location ` set E" "{}" "sort_desc score_of DB"] by (simp_all add: F_def)
  have "\<exists>x\<in>set M. location x = location r \<and> (x \<in> set diff_results \<or> score_of r \<le> score_of x)"
    if "r \<in> set DB" for r
  proof (cases "location r \<in> location ` set E")
    case True
    then show ?thesis using E unfolding sM by force
  next
    case False
    then have "\<exists>x\<in>set F. location x = location r \<and> score_of r \<le> score_of x"
      unfolding F_def using that by (intro dedup_db_best) simp_all
    then show ?thesis unfolding sM by blast
  qed
  moreover have "\<exists>x\<in>set M \<inter> set diff_results.
      str_id (h_chunk_id x) = str_id (h_chunk_id d) \<and> score_of d \<le> score_of x"
    if "d \<in> set diff_results" for d
    using that dedup_diff_best [of score_of "sort_desc score_of diff_results" d "{}"] E
    unfolding sM E_def by auto
  moreover have "location x \<notin> location ` (set M \<inter> set diff_results)" if "x \<in> set M - set diff_results" for x
  proof -
    from that E have "x \<in> set F" by (auto simp: sM)
    then have "location x \<notin> location ` set E" using F(2) by auto
    moreover have "set M \<inter> set diff_results \<subseteq> set E" using F(1) disj by (auto simp: sM)
    ultimately show ?thesis by blast
  qed
  moreover have "set M \<subseteq> set diff_results \<union> set DB" using E F(1) sM by blast
  ultimately show ?thesis using M by auto
qed

subsection \<open>Pages of the merged list\<close>

text \<open>What numpy documents of \<open>argsort\<close>: the indices in the order of the values, equal values in any order.\<close>

definition argsort_ok :: "(rat list \<Rightarrow> nat list) \<Rightarrow> bool" where
  "argsort_ok argsort \<longleftrightarrow>
     (\<forall>xs. mset (argsort xs) = mset [0..<length xs] \<and> sorted (map ((!) xs) (argsort xs)))"

text \<open>The results of a search over the diff, one for each chunk in the scope and above the threshold.\<close>

definition diff_hits ::
  "('v \<Rightarrow> rat) \<Rightarrow> 'v diff_service \<Rightarrow> rat option \<Rightarrow> nat list \<Rightarrow> hit list" where
  "diff_hits cosine svc threshold indices =
     (let scores = map cosine (the (ds_matrix svc))
      in map (\<lambda>i. chunk_to_hit (ds_chunks svc ! i) (scores ! i))
           (filter (\<lambda>i. above_threshold threshold (scores ! i)) indices))"

definition diff_results_of ::
  "(rat list \<Rightarrow> nat list) \<Rightarrow> ('v \<Rightarrow> rat) \<Rightarrow> 'v diff_service \<Rightarrow> rat option \<Rightarrow> string option \<Rightarrow> hit list" where
  "diff_results_of argsort cosine svc threshold path_filter =
     (if ds_chunks svc = [] \<or> ds_matrix svc = None then []
      else case diff_path_filter path_filter (ds_chunks svc) (rev (argsort (map cosine (the (ds_matrix svc))))) of
             Inl e \<Rightarrow> []
           | Inr in_scope \<Rightarrow> diff_hits cosine svc threshold in_scope)"

definition diff_filter_ok :: "string option \<Rightarrow> bool" where
  "diff_filter_ok path_filter \<longleftrightarrow>
     \<not> (truthy_str path_filter \<and> list_ex (str_contains (the path_filter)) dangerous_patterns)"

lemma diff_path_filter_ok:
  assumes "diff_filter_ok path_filter"
  shows "\<exists>P. \<forall>chunks xs. diff_path_filter path_filter chunks xs = Inr (filter (P chunks) xs)"
proof (cases "truthy_str path_filter")
  case True
  with assms show ?thesis
    unfolding diff_path_filter_def diff_filter_ok_def Let_def by auto
next
  case False
  then show ?thesis by (intro exI [of _ "\<lambda>_ _. True"]) (simp add: diff_path_filter_def)
qed

lemma search_diff_results:
  assumes "diff_filter_ok path_filter"
  shows "\<exists>pg. search_diff argsort cosine svc page_size offset threshold path_filter =
    Inr (take page_size (drop offset (diff_results_of argsort cosine svc threshold path_filter)), pg)
    \<and> pg_next_offset pg = pg_next_offset (page_info page_size offset
        (length (diff_results_of argsort cosine svc threshold path_filter)))"
proof -
  obtain P where "\<forall>chunks xs. diff_path_filter path_filter chunks xs = Inr (filter (P chunks) xs)"
    using diff_path_filter_ok [OF assms] by blast
  then show ?thesis
    by (auto simp: search_diff_def diff_results_of_def diff_hits_def Let_def take_map drop_map page_info_def)
qed

lemma length_diff_results:
  assumes "argsort_ok argsort" "diff_filter_ok path_filter"
    and "\<forall>m. ds_matrix svc = Some m \<longrightarrow> length m \<le> length (ds_chunks svc)"
  shows "length (diff_results_of argsort cosine svc threshold path_filter) \<le> length (ds_chunks svc)"
proof -
  obtain P where P: "\<forall>chunks xs. diff_path_filter path_filter chunks xs = Inr (filter (P chunks) xs)"
    using diff_path_filter_ok [OF assms(2)] by blast
  have "length (argsort xs) = length xs" for xs
    using assms(1) mset_eq_length [of "argsort xs" "[0..<length xs]"] by (simp add: argsort_ok_def)
  then have "length (filter Q (filter R (rev (argsort (map cosine m))))) \<le> length m" for Q R m
    by (metis length_filter_le length_map length_rev order.trans)
  then have "length m \<le> k \<Longrightarrow> length (filter Q (filter R (rev (argsort (map cosine m))))) \<le> k" for Q R m k
    using order.trans by blast
  then show ?thesis using assms(3)
    by (auto simp: diff_results_of_def diff_hits_def P Let_def simp del: filter_filter)
qed

definition both_results ::
  "(rat list \<Rightarrow> nat list) \<Rightarrow> ('v \<Rightarrow> rat) \<Rightarrow> (nat \<Rightarrow> nat \<Rightarrow> rat option \<Rightarrow> hit page) \<Rightarrow> 'v diff_service \<Rightarrow>
     rat option \<Rightarrow> string option \<Rightarrow> hit list" where
  "both_results argsort cosine original svc threshold path_filter =
     filter (\<lambda>r. above_threshold threshold (score_of r))
       (merge_results (diff_results_of argsort cosine svc None path_filter)
         (fst (original MAX_BOTH_DB_FETCH 0 None)))"

lemma both_paged:
  assumes "argsort_ok argsort" "diff_filter_ok path_filter"
    and "\<forall>m. ds_matrix svc = Some m \<longrightarrow> length m \<le> length (ds_chunks svc)"
    and "ds_vector_source svc \<noteq> ''db''" "ds_vector_source svc \<noteq> ''diff''"
  shows "diff_aware_search argsort cosine original svc page_size offset threshold path_filter =
    Inr (paginate page_size offset (both_results argsort cosine original svc threshold path_filter))"
proof -
  let ?n = "if ds_chunks svc \<noteq> [] then length (ds_chunks svc) else offset + page_size"
  obtain pg where "search_diff argsort cosine svc ?n 0 None path_filter
      = Inr (take ?n (diff_results_of argsort cosine svc None path_filter), pg)"
    using search_diff_results [OF assms(2), of argsort cosine svc ?n 0 None] by auto
  moreover have "take ?n (diff_results_of argsort cosine svc None path_filter)
      = diff_results_of argsort cosine svc None path_filter"
    using length_diff_results [OF assms(1-3), of cosine None] by auto
  ultimately show ?thesis using assms(4,5)
    by (simp add: diff_aware_search_def both_results_def Let_def split: prod.split)
qed

text \<open>
  in the mode that merges both sources the pages of a query are windows of one ranked list: a
  client that follows \<open>next_offset\<close> gets every merged result above the threshold once, by falling
  score, whatever the page size.
\<close>

theorem diff_aware_pages_complete:
  assumes "argsort_ok argsort" "diff_filter_ok path_filter"
    and "new_diff_service chunks embeddings source = Inr svc" "source \<noteq> ''db''" "source \<noteq> ''diff''"
    and "0 < page_size"
  shows "follow_pages (\<lambda>offset. projr (diff_aware_search argsort cosine original svc page_size offset
      threshold path_filter)) 0 = Some (both_results argsort cosine original svc threshold path_filter)
    \<and> desc_by score_of (both_results argsort cosine original svc threshold path_filter)"
proof -
  have svc: "\<forall>m. ds_matrix svc = Some m \<longrightarrow> length m \<le> length (ds_chunks svc)" "ds_vector_source svc = source"
    using assms(3) by (auto simp: new_diff_service_def Let_def split: if_splits)
  have "paged_search (\<lambda>offset. projr (diff_aware_search argsort cosine original svc page_size offset
      threshold path_filter)) page_size (both_results argsort cosine original svc threshold path_filter)"
    by unfold_locales (simp add: both_paged [OF assms(1,2) svc(1)] svc(2) assms(4,5))
  from paged_search.follow_pages_all [OF this assms(6)] show ?thesis
    by (simp add: both_results_def merge_results_def Let_def sorted_wrt_filter)
qed

definition rank_all :: "rat list \<Rightarrow> nat list" where
  "rank_all xs = sort_key ((!) xs) [0..<length xs]"

lemma rank_all_ok: "argsort_ok rank_all"
  by (simp add: argsort_ok_def rank_all_def)

definition diff_chunk :: "string \<Rightarrow> int \<Rightarrow> chunk" where
  "diff_chunk path line = \<lparr>c_symbol = Some ''f'', c_start_line = line, c_end_line = line, c_code = ''x'',
     c_chunk_type = CT_FUNCTION, c_file_id = 0, c_language = L_PYTHON, c_id = None, c_file_path = Some path,
     c_parent_header = None, c_start_byte = None, c_end_byte = None, c_created_at = None, c_updated_at = None,
     c_metadata = None\<rparr>"

definition one_page :: "hit list \<Rightarrow> nat \<Rightarrow> nat \<Rightarrow> rat option \<Rightarrow> hit page" where
  "one_page hits page_size offset threshold =
     paginate page_size offset (filter (\<lambda>r. above_threshold threshold (hit_similarity r)) hits)"

theorem merge_results_correct_witness:
  "desc_by score_of (merge_results [chunk_to_hit (diff_chunk ''a.py'' 1) (1/2)]
     [sample_hit 1 ''a.py'' 1 (Some (3/4)), sample_hit 2 ''b.py'' 1 (Some (2/3))])"
  using merge_results_correct [OF refl refl, of "[chunk_to_hit (diff_chunk ''a.py'' 1) (1/2)]"
      "[sample_hit 1 ''a.py'' 1 (Some (3/4)), sample_hit 2 ''b.py'' 1 (Some (2/3))]"]
  by (simp add: chunk_to_hit_def sample_hit_def)

theorem diff_aware_pages_complete_witness:
  "\<exists>svc. new_diff_service [diff_chunk ''a.py'' 1, diff_chunk ''b.py'' 7] [1/2, 3/4 :: rat] ''both'' = Inr svc
     \<and> follow_pages (\<lambda>offset. projr (diff_aware_search rank_all (\<lambda>v. v)
           (one_page [sample_hit 1 ''c.py'' 1 (Some (2/3))]) svc 1 offset None None)) 0
       = Some (both_results rank_all (\<lambda>v. v) (one_page [sample_hit 1 ''c.py'' 1 (Some (2/3))]) svc None None)"
proof -
  obtain svc where svc: "new_diff_service [diff_chunk ''a.py'' 1, diff_chunk ''b.py'' 7] [1/2, 3/4 :: rat] ''both'' = Inr svc"
    by (simp add: new_diff_service_def)
  have "diff_filter_ok None" by (simp add: diff_filter_ok_def)
  then show ?thesis
    using svc diff_aware_pages_complete [OF rank_all_ok _ svc, of None 1 "\<lambda>v. v"] by auto
qed

subsection \<open>What the modes do not agree on\<close>

text \<open>
  Two chunks of one file that start on one line, as the parts of a long line do, are two results of
  the database; merging keeps only the better one although the diff has nothing there.
\<close>

theorem same_line_chunk_dropped:
  "merge_results [] [sample_hit 1 ''min.js'' 1 (Some (3/4)), sample_hit 2 ''min.js'' 1 (Some (2/3))]
   = [(sample_hit 1 ''min.js'' 1 (Some (3/4)))\<lparr>h_score := Some (3/4)\<rparr>]"
  by (simp add: merge_results_def normalise_db_result_def sample_hit_def sort_desc_def score_of_def location_def)

text \<open>
  The same filter has two scopes: the database takes a directory at any depth and a file, the diff
  only a directory at the root.
\<close>

theorem path_filter_scopes_differ:
  "validate_and_normalize_path_filter (Some ''src'') = Inr (Some ''src/'')
   \<and> path_condition sql_like (Some ''src/'') ''app/src/x.py''
   \<and> diff_path_filter (Some ''src'') [diff_chunk ''app/src/x.py'' 1] [0] = Inr []
   \<and> validate_and_normalize_path_filter (Some ''src/x.py'') = Inr (Some ''src/x.py'')
   \<and> path_condition sql_like (Some ''src/x.py'') ''src/x.py''
   \<and> diff_path_filter (Some ''src/x.py'') [diff_chunk ''src/x.py'' 1] [0] = Inr []"
proof (intro conjI)
  show "path_condition sql_like (Some ''src/'') ''app/src/x.py''"
    "path_condition sql_like (Some ''src/x.py'') ''src/x.py''"
    unfolding path_condition_eq [OF sql.like_operator_axioms]
    by (auto simp: ends_with_def Cons_eq_append_conv)
qed code_simp+

end
