(* ===== verification/Multi_Hop.thy ===== *)
theory Multi_Hop
  imports Search_Results
begin

text \<open>
  The multi-hop search (\<open>services/search/multi_hop_strategy.py\<close>): the limits, the reranking with its
  failure paths, the expansion loop with its five ends, the final threshold and the pages.

  Arguments: \<open>single_hop\<close>, the first search as a function of its limit; \<open>rerank\<close>, which maps
  documents to pairs of index and score, or \<open>None\<close> when it raises or the provider has none;
  \<open>find_similar\<close>, the neighbours of a chunk up to a limit, or \<open>None\<close> when it raises; \<open>expired\<close>, which
  says whether the clock has passed the time limit at the start of a round.  The dictionaries of
  results are changed in place by one owner, so they are values here.
\<close>

definition INITIAL_LIMIT_CAP_NORMAL :: nat where "INITIAL_LIMIT_CAP_NORMAL = 100"
definition INITIAL_LIMIT_CAP_EXHAUSTIVE :: nat where "INITIAL_LIMIT_CAP_EXHAUSTIVE = 500"
definition NEIGHBORS_PER_CANDIDATE_NORMAL :: nat where "NEIGHBORS_PER_CANDIDATE_NORMAL = 20"
definition NEIGHBORS_PER_CANDIDATE_EXHAUSTIVE :: nat where "NEIGHBORS_PER_CANDIDATE_EXHAUSTIVE = 30"
definition MIN_EXPANSION_CANDIDATES :: nat where "MIN_EXPANSION_CANDIDATES = 5"
definition SCORE_DROP_THRESHOLD :: rat where "SCORE_DROP_THRESHOLD = fl (15 / 100)"
definition MIN_RELEVANCE_FLOOR :: rat where "MIN_RELEVANCE_FLOOR = fl (3 / 10)"

text \<open>The part of the research configuration that the strategy reads.\<close>

record hop_config =
  exhaustive_mode :: bool
  multi_hop_result_limit :: nat

definition get_effective_result_limit :: "hop_config \<Rightarrow> nat option" where
  "get_effective_result_limit cfg =
     (if exhaustive_mode cfg then None else Some (multi_hop_result_limit cfg))"

definition effective_result_limit :: "nat option \<Rightarrow> hop_config option \<Rightarrow> nat option" where
  "effective_result_limit result_limit config =
     (case result_limit of
        Some l \<Rightarrow> Some l
      | None \<Rightarrow> (case config of None \<Rightarrow> Some 500 | Some cfg \<Rightarrow> get_effective_result_limit cfg))"

definition exhaustive :: "hop_config option \<Rightarrow> bool" where
  "exhaustive config = (case config of None \<Rightarrow> False | Some cfg \<Rightarrow> exhaustive_mode cfg)"

definition initial_limit :: "nat \<Rightarrow> hop_config option \<Rightarrow> nat option \<Rightarrow> nat" where
  "initial_limit page_size config limit =
     (let cap = (if exhaustive config then INITIAL_LIMIT_CAP_EXHAUSTIVE else INITIAL_LIMIT_CAP_NORMAL);
          first = min (page_size * 3) cap
      in case limit of None \<Rightarrow> first | Some l \<Rightarrow> min first l)"

definition neighbor_limit :: "hop_config option \<Rightarrow> nat" where
  "neighbor_limit config =
     (if exhaustive config then NEIGHBORS_PER_CANDIDATE_EXHAUSTIVE else NEIGHBORS_PER_CANDIDATE_NORMAL)"

subsection \<open>Reranking\<close>

type_synonym reranker = "string list \<Rightarrow> (int \<times> rat) list option"

definition seed_score :: "hit \<Rightarrow> hit" where
  "seed_score r = (case h_score r of
     Some s \<Rightarrow> r
   | None \<Rightarrow> r\<lparr>h_score := Some (case h_similarity r of None \<Rightarrow> 0 | Some s \<Rightarrow> s)\<rparr>)"

definition apply_rerank_score :: "int \<times> rat \<Rightarrow> hit list \<Rightarrow> hit list" where
  "apply_rerank_score rr results =
     (let (index, score) = rr in
      if 0 \<le> index \<and> index < int (length results)
      then results[nat index := (results ! nat index)\<lparr>h_score := Some score\<rparr>] else results)"

text \<open>The common part of both rerankings: the results with scores, ranked when the reranker answered.\<close>

definition rerank_results :: "reranker \<Rightarrow> hit list \<Rightarrow> hit list option" where
  "rerank_results rerank results =
     (case rerank (map h_content results) of
        None \<Rightarrow> None
      | Some scores \<Rightarrow> Some (sort_desc score_of (fold apply_rerank_score scores (map seed_score results))))"

definition rerank_initial :: "reranker \<Rightarrow> hit list \<Rightarrow> hit list" where
  "rerank_initial rerank initial_results =
     (case rerank_results rerank initial_results of
        Some results \<Rightarrow> results
      | None \<Rightarrow> map seed_score initial_results)"

subsection \<open>Expansion\<close>

record hop_state =
  all_results :: "hit list"
  seen_chunk_ids :: "hit_id set"
  top_chunk_scores :: "(hit_id, rat) pydict"
  expansion_round :: nat

definition top_scores :: "hit list \<Rightarrow> (hit_id, rat) pydict" where
  "top_scores results =
     fold (\<lambda>r d. dict_set (h_chunk_id r) (score_of r) d) (take MIN_EXPANSION_CANDIDATES results) []"

definition initial_state :: "hit list \<Rightarrow> hop_state" where
  "initial_state initial_results =
     \<lparr>all_results = initial_results, seen_chunk_ids = h_chunk_id ` set initial_results,
      top_chunk_scores = top_scores initial_results, expansion_round = 0\<rparr>"

fun add_neighbors :: "hit_id set \<Rightarrow> hit list \<Rightarrow> hit list \<Rightarrow> hit list" where
  "add_neighbors seen new_candidates [] = new_candidates"
| "add_neighbors seen new_candidates (n # ns) =
     (if h_chunk_id n \<in> seen \<or> h_chunk_id n \<in> h_chunk_id ` set new_candidates
      then add_neighbors seen new_candidates ns
      else add_neighbors seen (new_candidates @ [n]) ns)"

definition expand_candidate ::
  "(hit_id \<Rightarrow> nat \<Rightarrow> hit list option) \<Rightarrow> nat \<Rightarrow> hit_id set \<Rightarrow> hit \<Rightarrow> hit list \<Rightarrow> hit list" where
  "expand_candidate find_similar neighbors seen candidate new_candidates =
     (case find_similar (h_chunk_id candidate) neighbors of
        None \<Rightarrow> new_candidates
      | Some ns \<Rightarrow> add_neighbors seen new_candidates ns)"

definition truncate_to_budget :: "nat option \<Rightarrow> nat \<Rightarrow> hit list \<Rightarrow> hit list" where
  "truncate_to_budget limit n new_candidates =
     (case limit of None \<Rightarrow> new_candidates | Some l \<Rightarrow> take (l - n) new_candidates)"

definition score_drops :: "(hit_id, rat) pydict \<Rightarrow> hit list \<Rightarrow> rat list" where
  "score_drops tracked results =
     map (\<lambda>(p, c). fl (p - c))
       (filter (\<lambda>(p, c). c < p)
         (map (\<lambda>(chunk_id, prev_score).
            (prev_score, case find (\<lambda>r. h_chunk_id r = chunk_id) results of None \<Rightarrow> 0 | Some r \<Rightarrow> score_of r)) tracked))"

datatype hop_outcome = Stop "hit list" | Continue hop_state

definition judge_scores :: "hop_state \<Rightarrow> hit list \<Rightarrow> hit_id set \<Rightarrow> hop_outcome" where
  "judge_scores st results seen =
     (let current_top_scores = map score_of (take MIN_EXPANSION_CANDIDATES results);
          drops = score_drops (top_chunk_scores st) results
      in if drops \<noteq> [] \<and> SCORE_DROP_THRESHOLD \<le> Max (set drops) then Stop results
         else if Min (set current_top_scores) < MIN_RELEVANCE_FLOOR then Stop results
         else Continue \<lparr>all_results = results, seen_chunk_ids = seen, top_chunk_scores = top_scores results,
                        expansion_round = expansion_round st + 1\<rparr>)"

definition expand_once ::
  "reranker \<Rightarrow> (hit_id \<Rightarrow> nat \<Rightarrow> hit list option) \<Rightarrow> nat \<Rightarrow> nat option \<Rightarrow> hop_state \<Rightarrow> hop_outcome" where
  "expand_once rerank find_similar neighbors limit st =
     (let results = all_results st;
          top_candidates = take MIN_EXPANSION_CANDIDATES (filter (\<lambda>r. 0 < score_of r) results);
          found = fold (expand_candidate find_similar neighbors (seen_chunk_ids st)) top_candidates [];
          new_candidates = truncate_to_budget limit (length results) found
      in if length top_candidates < MIN_EXPANSION_CANDIDATES then Stop results
         else if found = [] then Stop results
         else if limit \<noteq> None \<and> the limit \<le> length results then Stop results
         else
           (case rerank_results rerank (results @ new_candidates) of
              None \<Rightarrow> Stop (sort_desc score_of (map seed_score (results @ new_candidates)))
            | Some ranked \<Rightarrow> judge_scores st ranked (seen_chunk_ids st \<union> h_chunk_id ` set new_candidates)))"

partial_function (option) expansion_loop ::
  "reranker \<Rightarrow> (hit_id \<Rightarrow> nat \<Rightarrow> hit list option) \<Rightarrow> nat \<Rightarrow> nat option \<Rightarrow> (nat \<Rightarrow> bool) \<Rightarrow> hop_state \<Rightarrow>
     hit list option" where
  "expansion_loop rerank find_similar neighbors limit expired st =
     (if expired (expansion_round st) then Some (all_results st)
      else if limit \<noteq> None \<and> the limit \<le> length (all_results st) then Some (all_results st)
      else case expand_once rerank find_similar neighbors limit st of
             Stop results \<Rightarrow> Some results
           | Continue st' \<Rightarrow> expansion_loop rerank find_similar neighbors limit expired st')"

definition apply_threshold :: "rat option \<Rightarrow> hit list \<Rightarrow> hit list" where
  "apply_threshold threshold results =
     (case threshold of None \<Rightarrow> results | Some t \<Rightarrow> filter (\<lambda>r. t \<le> score_of r) results)"

definition hop_results ::
  "(nat \<Rightarrow> hit list) \<Rightarrow> reranker \<Rightarrow> (hit_id \<Rightarrow> nat \<Rightarrow> hit list option) \<Rightarrow> hop_config option \<Rightarrow> (nat \<Rightarrow> bool) \<Rightarrow>
     nat \<Rightarrow> nat option \<Rightarrow> hit list option" where
  "hop_results single_hop rerank find_similar config expired page_size result_limit =
     (let limit = effective_result_limit result_limit config;
          initial_results = rerank_initial rerank (single_hop (initial_limit page_size config limit))
      in expansion_loop rerank find_similar (neighbor_limit config) limit expired (initial_state initial_results))"

definition multi_hop_search ::
  "(nat \<Rightarrow> hit list) \<Rightarrow> reranker \<Rightarrow> (hit_id \<Rightarrow> nat \<Rightarrow> hit list option) \<Rightarrow> hop_config option \<Rightarrow> (nat \<Rightarrow> bool) \<Rightarrow>
     nat \<Rightarrow> nat \<Rightarrow> rat option \<Rightarrow> nat option \<Rightarrow> (hit list \<times> pagination) option" where
  "multi_hop_search single_hop rerank find_similar config expired page_size offset threshold result_limit =
     map_option (\<lambda>results. paginate page_size offset (apply_threshold threshold results))
       (hop_results single_hop rerank find_similar config expired page_size result_limit)"

subsection \<open>What a round does to the results\<close>

text \<open>A result without its score: reranking changes nothing else.\<close>

definition erase_score :: "hit \<Rightarrow> hit" where
  "erase_score r = r\<lparr>h_score := None\<rparr>"

lemma erase_seed [simp]: "erase_score (seed_score r) = erase_score r"
  by (simp add: erase_score_def seed_score_def split: option.split)

lemma chunk_id_erase [simp]: "h_chunk_id (erase_score r) = h_chunk_id r"
  by (simp add: erase_score_def)

lemma map_erase_apply: "map erase_score (apply_rerank_score rr rs) = map erase_score rs"
  by (auto simp: apply_rerank_score_def map_update erase_score_def list_update_id split: prod.split)
    (metis list_update_id nth_map map_update erase_score_def nat_less_iff)

lemma map_erase_fold: "map erase_score (fold apply_rerank_score scores rs) = map erase_score rs"
  by (induction scores arbitrary: rs) (simp_all add: map_erase_apply)

definition same_hits :: "hit list \<Rightarrow> hit list \<Rightarrow> bool" where
  "same_hits rs rs' \<longleftrightarrow> mset (map erase_score rs) = mset (map erase_score rs')"

lemma same_hits_sorted: "same_hits (sort_desc f rs) rs' \<longleftrightarrow> same_hits rs rs'"
  by (simp add: same_hits_def)

lemma same_hits_seeded [simp]: "same_hits (map seed_score rs) rs"
  by (simp add: same_hits_def comp_def)

lemma same_hits_reranked: "rerank_results rerank rs = Some rs' \<Longrightarrow> same_hits rs' rs"
  by (auto simp: rerank_results_def same_hits_sorted split: option.splits)
    (simp add: same_hits_def map_erase_fold comp_def)

lemma same_hits_initial: "same_hits (rerank_initial rerank rs) rs"
  by (auto simp: rerank_initial_def same_hits_reranked split: option.split)

lemma same_hits_ids:
  assumes "same_hits rs rs'"
  shows "mset (map h_chunk_id rs) = mset (map h_chunk_id rs')" and "length rs = length rs'"
    and "erase_score ` set rs = erase_score ` set rs'"
proof -
  have "image_mset h_chunk_id (mset (map erase_score rs)) = image_mset h_chunk_id (mset (map erase_score rs'))"
    using assms by (simp only: same_hits_def)
  then show "mset (map h_chunk_id rs) = mset (map h_chunk_id rs')" by (simp add: multiset.map_comp comp_def)
  show "length rs = length rs'" using assms by (metis length_map same_hits_def size_mset)
  show "erase_score ` set rs = erase_score ` set rs'" using assms by (metis list.set_map same_hits_def set_mset_mset)
qed

definition all_neighbors :: "(hit_id \<Rightarrow> nat \<Rightarrow> hit list option) \<Rightarrow> hit set" where
  "all_neighbors find_similar = {n. \<exists>i k ns. find_similar i k = Some ns \<and> n \<in> set ns}"

definition new_hits :: "hit set \<Rightarrow> hit_id set \<Rightarrow> hit list \<Rightarrow> bool" where
  "new_hits N seen new \<longleftrightarrow> set new \<subseteq> N \<and> distinct (map h_chunk_id new) \<and> h_chunk_id ` set new \<inter> seen = {}"

lemma new_hits_add: "new_hits N seen new \<Longrightarrow> set ns \<subseteq> N \<Longrightarrow> new_hits N seen (add_neighbors seen new ns)"
  by (induction seen new ns rule: add_neighbors.induct) (auto simp: new_hits_def)

lemma new_hits_expand:
  "new_hits (all_neighbors find_similar) seen new \<Longrightarrow>
   new_hits (all_neighbors find_similar) seen (fold (expand_candidate find_similar k seen) cs new)"
proof (induction cs arbitrary: new)
  case (Cons c cs)
  have "new_hits (all_neighbors find_similar) seen (expand_candidate find_similar k seen c new)"
    using Cons.prems
    by (auto simp: expand_candidate_def all_neighbors_def intro!: new_hits_add split: option.split)
  with Cons.IH show ?case by simp
qed simp

lemma new_hits_take: "new_hits N seen new \<Longrightarrow> new_hits N seen (take k new)"
  unfolding new_hits_def take_map [symmetric]
  by (auto intro: distinct_take dest: in_set_takeD)

text \<open>The hits after a round are those before it and some new ones; a round that goes on has new ones.\<close>

lemma expand_once_cases:
  assumes "st = \<lparr>all_results = rs, seen_chunk_ids = seen, top_chunk_scores = t, expansion_round = k\<rparr>"
  shows "expand_once rerank find_similar nb limit st = Stop rs
    \<or> (\<exists>new rs'. new_hits (all_neighbors find_similar) seen new \<and> same_hits rs' (rs @ new) \<and> new \<noteq> []
        \<and> desc_by score_of rs' \<and> (\<forall>l. limit = Some l \<longrightarrow> length rs + length new \<le> l)
        \<and> (expand_once rerank find_similar nb limit st = Stop rs'
           \<or> expand_once rerank find_similar nb limit st = Continue \<lparr>all_results = rs',
                seen_chunk_ids = seen \<union> h_chunk_id ` set new, top_chunk_scores = top_scores rs',
                expansion_round = k + 1\<rparr>))"
proof -
  define cs where "cs = take MIN_EXPANSION_CANDIDATES (filter (\<lambda>r. 0 < score_of r) rs)"
  define found where "found = fold (expand_candidate find_similar nb seen) cs []"
  define new where "new = truncate_to_budget limit (length rs) found"
  have eo: "expand_once rerank find_similar nb limit st =
    (if length cs < MIN_EXPANSION_CANDIDATES \<or> found = [] \<or> limit \<noteq> None \<and> the limit \<le> length rs then Stop rs
     else case rerank_results rerank (rs @ new) of
            None \<Rightarrow> Stop (sort_desc score_of (map seed_score (rs @ new)))
          | Some ranked \<Rightarrow> judge_scores st ranked (seen \<union> h_chunk_id ` set new))"
    unfolding assms expand_once_def Let_def hop_state.simps cs_def [symmetric] found_def [symmetric]
      new_def [symmetric] by auto
  show ?thesis
  proof (cases "length cs < MIN_EXPANSION_CANDIDATES \<or> found = [] \<or> limit \<noteq> None \<and> the limit \<le> length rs")
    case True
    then show ?thesis unfolding eo by simp
  next
    case False
    have "new_hits (all_neighbors find_similar) seen found"
      unfolding found_def by (rule new_hits_expand) (simp add: new_hits_def)
    then have new: "new_hits (all_neighbors find_similar) seen new" "new \<noteq> []"
      "\<forall>l. limit = Some l \<longrightarrow> length rs + length new \<le> l"
      using False by (auto simp: new_def truncate_to_budget_def new_hits_take split: option.split)
    show ?thesis
    proof (cases "rerank_results rerank (rs @ new)")
      case None
      have "same_hits (sort_desc score_of (map seed_score (rs @ new))) (rs @ new)"
        by (simp only: same_hits_sorted same_hits_seeded)
      with None new show ?thesis unfolding eo if_not_P [OF False]
        using sort_desc_sorted by (metis option.simps(4))
    next
      case (Some ranked)
      moreover from Some have "desc_by score_of ranked"
        by (auto simp: rerank_results_def split: option.splits)
      moreover have "judge_scores st ranked s = Stop ranked \<or> judge_scores st ranked s =
          Continue \<lparr>all_results = ranked, seen_chunk_ids = s, top_chunk_scores = top_scores ranked,
            expansion_round = k + 1\<rparr>" for s
        by (simp add: judge_scores_def Let_def assms)
      ultimately show ?thesis using new same_hits_reranked [OF Some] unfolding eo if_not_P [OF False]
        by (metis option.simps(5))
    qed
  qed
qed

subsection \<open>The loop ends with good results\<close>

definition results_ok :: "hit list \<Rightarrow> hit set \<Rightarrow> nat option \<Rightarrow> hit list \<Rightarrow> bool" where
  "results_ok init N limit rs \<longleftrightarrow>
     distinct (map h_chunk_id rs)
     \<and> erase_score ` set rs \<subseteq> erase_score ` (set init \<union> N)
     \<and> erase_score ` set init \<subseteq> erase_score ` set rs
     \<and> (\<forall>l. limit = Some l \<longrightarrow> length rs \<le> max (length init) l)
     \<and> (desc_by score_of init \<longrightarrow> desc_by score_of rs)"

definition state_ok :: "hit list \<Rightarrow> hit set \<Rightarrow> nat option \<Rightarrow> hop_state \<Rightarrow> bool" where
  "state_ok init N limit st \<longleftrightarrow>
     results_ok init N limit (all_results st) \<and> seen_chunk_ids st = h_chunk_id ` set (all_results st)"

lemma results_ok_extend:
  assumes "results_ok init N limit rs" "new_hits N (h_chunk_id ` set rs) new" "same_hits rs' (rs @ new)"
    "desc_by score_of rs'" "\<forall>l. limit = Some l \<longrightarrow> length rs + length new \<le> l"
  shows "results_ok init N limit rs'" and "h_chunk_id ` set rs' = h_chunk_id ` set rs \<union> h_chunk_id ` set new"
proof -
  note e = same_hits_ids [OF assms(3)]
  have "distinct (map h_chunk_id (rs @ new))" using assms(1,2) by (auto simp: results_ok_def new_hits_def)
  then have "distinct (map h_chunk_id rs')" using e(1) mset_eq_imp_distinct_iff by blast
  moreover have "erase_score ` set rs' = erase_score ` set rs \<union> erase_score ` set new"
    using e(3) by (simp add: image_Un)
  ultimately show "results_ok init N limit rs'"
    using assms(1,2,4,5) e(2) by (auto simp: results_ok_def new_hits_def)
  show "h_chunk_id ` set rs' = h_chunk_id ` set rs \<union> h_chunk_id ` set new"
    using mset_eq_setD [OF e(1)] by (simp add: image_Un)
qed

lemma expand_once_ok:
  assumes "state_ok init (all_neighbors find_similar) limit st"
  shows "case expand_once rerank find_similar nb limit st of
      Stop rs \<Rightarrow> results_ok init (all_neighbors find_similar) limit rs
    | Continue st' \<Rightarrow> state_ok init (all_neighbors find_similar) limit st'
        \<and> length (all_results st) < length (all_results st')
        \<and> (\<exists>n\<in>all_neighbors find_similar. h_chunk_id n \<notin> seen_chunk_ids st \<and> h_chunk_id n \<in> seen_chunk_ids st')
        \<and> seen_chunk_ids st \<subseteq> seen_chunk_ids st'"
proof -
  let ?N = "all_neighbors find_similar"
  obtain rs seen t k where st: "st = \<lparr>all_results = rs, seen_chunk_ids = seen, top_chunk_scores = t,
      expansion_round = k\<rparr>" by (cases st) blast
  have ok: "results_ok init ?N limit rs" "seen = h_chunk_id ` set rs"
    using assms by (simp_all add: state_ok_def st)
  from expand_once_cases [OF st, of rerank find_similar nb limit] show ?thesis
  proof (elim disjE exE conjE)
    assume "expand_once rerank find_similar nb limit st = Stop rs"
    with ok show ?thesis by simp
  next
    fix new rs'
    assume "new_hits ?N seen new" "same_hits rs' (rs @ new)" "desc_by score_of rs'"
      "\<forall>l. limit = Some l \<longrightarrow> length rs + length new \<le> l"
      "expand_once rerank find_similar nb limit st = Stop rs'"
    with results_ok_extend [OF ok(1), of new rs'] ok(2) show ?thesis by simp
  next
    fix new rs'
    assume new: "new_hits ?N seen new" "same_hits rs' (rs @ new)" "desc_by score_of rs'"
      "\<forall>l. limit = Some l \<longrightarrow> length rs + length new \<le> l" "new \<noteq> []"
      and c: "expand_once rerank find_similar nb limit st = Continue \<lparr>all_results = rs',
        seen_chunk_ids = seen \<union> h_chunk_id ` set new, top_chunk_scores = top_scores rs', expansion_round = k + 1\<rparr>"
    note r = results_ok_extend [OF ok(1), of new rs']
    have "length rs < length rs'" using same_hits_ids(2) [OF new(2)] new(5) by simp
    moreover obtain n where "n \<in> set new" using new(5) by (cases new) auto
    moreover have "n \<in> set new \<Longrightarrow> n \<in> ?N \<and> h_chunk_id n \<notin> seen"
      using new(1) by (auto simp: new_hits_def)
    ultimately show ?thesis using r new ok(2) unfolding c by (auto simp: state_ok_def st)
  qed
qed

lemma expansion_loop_total:
  assumes "state_ok init (all_neighbors find_similar) limit st"
    and "limit = None \<Longrightarrow> finite (h_chunk_id ` all_neighbors find_similar)"
  shows "\<exists>rs. expansion_loop rerank find_similar nb limit expired st = Some rs
    \<and> results_ok init (all_neighbors find_similar) limit rs"
  using assms(1)
proof (induction "case limit of Some l \<Rightarrow> l - length (all_results st)
    | None \<Rightarrow> card (h_chunk_id ` all_neighbors find_similar - seen_chunk_ids st)" arbitrary: st rule: less_induct)
  case less
  let ?N = "all_neighbors find_similar"
  let ?go = "expand_once rerank find_similar nb limit st"
  have now: "results_ok init ?N limit (all_results st)" using less.prems by (simp add: state_ok_def)
  show ?case
  proof (cases "expired (expansion_round st) \<or> limit \<noteq> None \<and> the limit \<le> length (all_results st)")
    case True
    with now show ?thesis by (subst expansion_loop.simps) auto
  next
    case False
    have step: "expansion_loop rerank find_similar nb limit expired st = (case ?go of
        Stop results \<Rightarrow> Some results
      | Continue st' \<Rightarrow> expansion_loop rerank find_similar nb limit expired st')"
      using False by (subst expansion_loop.simps) auto
    show ?thesis
    proof (cases ?go)
      case (Stop rs)
      with expand_once_ok [OF less.prems, of rerank nb] show ?thesis unfolding step by simp
    next
      case (Continue st')
      with expand_once_ok [OF less.prems, of rerank nb]
      have ok: "state_ok init ?N limit st'" "length (all_results st) < length (all_results st')"
        and "\<exists>n\<in>?N. h_chunk_id n \<notin> seen_chunk_ids st \<and> h_chunk_id n \<in> seen_chunk_ids st'"
        "seen_chunk_ids st \<subseteq> seen_chunk_ids st'" by simp_all
      then have "h_chunk_id ` ?N - seen_chunk_ids st' \<subset> h_chunk_id ` ?N - seen_chunk_ids st" by blast
      then have "limit = None \<Longrightarrow> card (h_chunk_id ` ?N - seen_chunk_ids st') < card (h_chunk_id ` ?N - seen_chunk_ids st)"
        using assms(2) by (intro psubset_card_mono) auto
      then show ?thesis unfolding step Continue hop_outcome.simps
        using ok False by (intro less.hyps) (auto split: option.split)
    qed
  qed
qed

text \<open>
  the multi-hop search returns whenever there is a result limit or the index has finitely many
  chunks, whatever the reranker, the neighbours and the clock do; its results are chunks of the
  first search or neighbours, unchanged but for the score and each once, none of the first search
  is lost, their number stays within the result limit, and when the reranker answered first or the
  first search was ranked they are ranked.
\<close>

theorem multi_hop_total:
  assumes "distinct (map h_chunk_id (single_hop first))" "length (single_hop first) \<le> first"
    and "first = initial_limit page_size config (effective_result_limit result_limit config)"
    and "effective_result_limit result_limit config = None \<longrightarrow> finite (h_chunk_id ` all_neighbors find_similar)"
  shows "\<exists>rs. hop_results single_hop rerank find_similar config expired page_size result_limit = Some rs
    \<and> distinct (map h_chunk_id rs)
    \<and> erase_score ` set rs \<subseteq> erase_score ` (set (single_hop first) \<union> all_neighbors find_similar)
    \<and> erase_score ` set (single_hop first) \<subseteq> erase_score ` set rs
    \<and> (\<forall>l. effective_result_limit result_limit config = Some l \<longrightarrow> length rs \<le> l)
    \<and> (desc_by score_of (rerank_initial rerank (single_hop first)) \<longrightarrow> desc_by score_of rs)"
proof -
  let ?limit = "effective_result_limit result_limit config"
  let ?init = "rerank_initial rerank (single_hop first)"
  note e = same_hits_ids [OF same_hits_initial [of rerank "single_hop first"]]
  have "distinct (map h_chunk_id ?init)" using assms(1) e(1) mset_eq_imp_distinct_iff by blast
  then have "state_ok ?init (all_neighbors find_similar) ?limit (initial_state ?init)"
    by (auto simp: state_ok_def results_ok_def initial_state_def)
  then obtain rs where rs: "expansion_loop rerank find_similar (neighbor_limit config) ?limit expired (initial_state ?init)
      = Some rs" "results_ok ?init (all_neighbors find_similar) ?limit rs"
    using expansion_loop_total [of ?init find_similar ?limit "initial_state ?init" rerank "neighbor_limit config" expired]
      assms(4) by blast
  have "length rs \<le> l" if "?limit = Some l" for l
  proof -
    have "first \<le> l" using that by (simp add: assms(3) initial_limit_def Let_def)
    then show ?thesis using rs(2) that e(2) assms(2) by (auto simp: results_ok_def)
  qed
  with rs e(3) show ?thesis
    by (intro exI [of _ rs]) (simp add: hop_results_def Let_def assms(3) [symmetric] results_ok_def image_Un)
qed

definition six_hits :: "nat \<Rightarrow> hit list" where
  "six_hits k = take k (map (\<lambda>i. sample_hit i ''a.py'' i (Some (1/2))) [1, 2, 3, 4, 5, 6])"

definition next_chunk :: "hit_id \<Rightarrow> nat \<Rightarrow> hit list option" where
  "next_chunk i k = (case i of Db_id n \<Rightarrow> Some (take k [sample_hit (n + 1) ''b.py'' 1 None]) | Diff_id s \<Rightarrow> None)"

theorem multi_hop_total_witness:
  "\<exists>rs. hop_results six_hits (\<lambda>docs. Some [(0, 9/10)]) next_chunk None (\<lambda>r. False) 2 (Some 9) = Some rs
     \<and> distinct (map h_chunk_id rs) \<and> length rs \<le> 9 \<and> erase_score ` set (six_hits 6) \<subseteq> erase_score ` set rs"
proof -
  have first: "6 = initial_limit 2 None (effective_result_limit (Some 9) None)"
    by (simp add: initial_limit_def effective_result_limit_def exhaustive_def INITIAL_LIMIT_CAP_NORMAL_def)
  have ok: "distinct (map h_chunk_id (six_hits 6))" "length (six_hits 6) \<le> 6"
    by (simp_all add: six_hits_def sample_hit_def)
  show ?thesis
    using multi_hop_total [of six_hits 6 2 None "Some 9" next_chunk "\<lambda>docs. Some [(0, 9/10)]" "\<lambda>r. False"] ok first
    by (auto simp: effective_result_limit_def)
qed

end
