(* ===== verification/Search_Service.thy ===== *)
theory Search_Service
  imports Diff_Search Multi_Hop
begin

text \<open>
  The search service over the database (\<open>services/search_service.py\<close>, with
  \<open>services/search/single_hop_strategy.py\<close> and \<open>context_retriever.py\<close>): the choice of the strategy,
  the enrichment of every result, the regex searches, the hybrid search and the context of a chunk.

  Arguments: \<open>single\<close> and \<open>multi\<close>, the two strategies with the query bound, as functions of page
  size, offset and threshold; \<open>regex\<close>, the regex search of the database with the pattern bound.
\<close>

type_synonym paged = "nat \<Rightarrow> nat \<Rightarrow> hit page"

subsection \<open>Semantic search\<close>

text \<open>
  \<open>supports_reranking\<close> is whether the provider has the method and it returns true; an empty
  embedding of the query ends the single-hop search with an empty page without any field.
\<close>

definition use_multi_hop :: "string option \<Rightarrow> bool \<Rightarrow> bool" where
  "use_multi_hop force_strategy supports_reranking =
     (let wanted = (if force_strategy = Some ''multi_hop'' then True
                    else if force_strategy = Some ''single_hop'' then False
                    else supports_reranking)
      in wanted \<and> supports_reranking)"

definition enhance_page :: "hit page \<Rightarrow> hit page" where
  "enhance_page p = (map enhance_search_result (fst p), snd p)"

definition service_search_semantic ::
  "bool \<Rightarrow> bool \<Rightarrow> (nat \<Rightarrow> nat \<Rightarrow> rat option \<Rightarrow> hit page) \<Rightarrow> (nat \<Rightarrow> nat \<Rightarrow> rat option \<Rightarrow> hit page) \<Rightarrow>
     string option \<Rightarrow> nat \<Rightarrow> nat \<Rightarrow> rat option \<Rightarrow> hit page result" where
  "service_search_semantic has_provider supports_reranking single multi force_strategy page_size offset threshold =
     (if \<not> has_provider then Inl ValueError
      else Inr (enhance_page
        (if use_multi_hop force_strategy supports_reranking then multi page_size offset threshold
         else single page_size offset threshold)))"

subsection \<open>Regex search\<close>

definition service_search_regex :: "paged \<Rightarrow> paged" where
  "service_search_regex regex page_size offset = enhance_page (regex page_size offset)"

text \<open>
  \<open>query_scores\<close> is \<open>None\<close> when there is no query or no provider or scoring raises, and else the
  similarities of the chunks asked for.
\<close>

definition attach_similarity :: "(int, rat) pydict \<Rightarrow> hit \<Rightarrow> hit" where
  "attach_similarity scores r =
     (case h_chunk_id r of
        Db_id i \<Rightarrow> r\<lparr>h_similarity := Some (case dict_get scores i of None \<Rightarrow> 0 | Some s \<Rightarrow> s)\<rparr>
      | Diff_id s \<Rightarrow> r)"

definition service_search_regex_async ::
  "(int list \<Rightarrow> (int, rat) pydict) option \<Rightarrow> paged \<Rightarrow> paged" where
  "service_search_regex_async query_scores regex page_size offset =
     (let (results, pg) = regex page_size offset;
          chunk_ids = concat (map (\<lambda>c. case h_chunk_id c of Db_id i \<Rightarrow> [i] | Diff_id s \<Rightarrow> []) results);
          scored = (case query_scores of
                      None \<Rightarrow> results
                    | Some f \<Rightarrow> if chunk_ids \<noteq> [] then map (attach_similarity (f chunk_ids)) results else results)
      in enhance_page (scored, pg))"

subsection \<open>Hybrid search\<close>

definition search_hybrid :: "paged option \<Rightarrow> paged option \<Rightarrow> rat \<Rightarrow> paged" where
  "search_hybrid semantic regex semantic_weight page_size offset =
     (let semantic_results = (case semantic of None \<Rightarrow> [] | Some f \<Rightarrow> fst (f (page_size * 2) offset));
          regex_results = (case regex of None \<Rightarrow> [] | Some f \<Rightarrow> fst (f (page_size * 2) offset));
          combined = combine_search_results semantic_results regex_results semantic_weight page_size;
          has_more = (length combined = page_size)
      in (combined, \<lparr>pg_offset = offset, pg_page_size = page_size, pg_has_more = Some has_more,
            pg_next_offset = (if has_more then Some (offset + page_size) else None), pg_total = None\<rparr>))"

subsection \<open>The context of a chunk\<close>

record chunk_context =
  cx_chunk :: chunk_row
  cx_context :: "chunk_row list"
  cx_file_path :: string
  cx_language :: "string option"

definition context_condition :: "int \<Rightarrow> int \<Rightarrow> chunk_row \<Rightarrow> bool" where
  "context_condition start_context end_context r \<longleftrightarrow>
     start_context \<le> r_start_line r \<and> r_start_line r \<le> end_context
     \<or> start_context \<le> r_end_line r \<and> r_end_line r \<le> end_context
     \<or> r_start_line r \<le> start_context \<and> end_context \<le> r_end_line r"

definition get_chunk_context :: "database \<Rightarrow> int \<Rightarrow> int \<Rightarrow> chunk_context option" where
  "get_chunk_context db chunk_id context_lines =
     (case filter (\<lambda>(c, f). r_id c = chunk_id) (chunks_with_files db) of
        [] \<Rightarrow> None
      | (c, f) # _ \<Rightarrow>
          (let start_context = max 1 (r_start_line c - context_lines);
               end_context = r_end_line c + context_lines
           in Some \<lparr>cx_chunk = c,
                cx_context = sort_key r_start_line
                  (filter (\<lambda>r. r_file_id r = r_file_id c \<and> context_condition start_context end_context r)
                    (t_chunks (db_tables db))),
                cx_file_path = fr_path f, cx_language = fr_language f\<rparr>))"

definition get_file_chunks :: "database \<Rightarrow> string \<Rightarrow> chunk_row list" where
  "get_file_chunks db file_path =
     map fst (sort_key (\<lambda>(c, f). r_start_line c)
       (filter (\<lambda>(c, f). fr_path f = file_path) (chunks_with_files db)))"

text \<open>The three alternatives of the query are one: the lines of the row and of the window overlap.\<close>

lemma context_condition_overlap:
  "r_start_line r \<le> r_end_line r \<Longrightarrow> s \<le> e \<Longrightarrow>
   context_condition s e r \<longleftrightarrow> r_start_line r \<le> e \<and> s \<le> r_end_line r"
  by (auto simp: context_condition_def)

subsection \<open>Properties\<close>

text \<open>
  the multi-hop strategy runs exactly when the provider can rerank and the single-hop strategy
  is not forced; whichever runs, its page keeps its chunks, their order and its pagination, and
  without a provider the search is an error.
\<close>

theorem service_semantic_correct:
  "service_search_semantic False sr single multi force ps off th = Inl ValueError
   \<and> (\<exists>p. service_search_semantic True sr single multi force ps off th = Inr p
        \<and> (let q = (if sr \<and> force \<noteq> Some ''single_hop'' then multi ps off th else single ps off th)
           in snd p = snd q \<and> map h_chunk_id (fst p) = map h_chunk_id (fst q)
              \<and> map h_content (fst p) = map h_content (fst q)
              \<and> list_all2 (\<lambda>x y. h_symbol x = map_option strip_chunk_part_suffix (h_symbol y)) (fst p) (fst q)))"
proof -
  let ?q = "if sr \<and> force \<noteq> Some ''single_hop'' then multi ps off th else single ps off th"
  have "service_search_semantic True sr single multi force ps off th = Inr (enhance_page ?q)"
    by (auto simp: service_search_semantic_def use_multi_hop_def Let_def)
  moreover have "h_symbol (enhance_search_result y) = map_option strip_chunk_part_suffix (h_symbol y)" for y
    by (cases "h_symbol y") (auto simp: enhance_search_result_def clean_symbol_def Let_def)
  moreover have "h_chunk_id (enhance_search_result y) = h_chunk_id y"
    "h_content (enhance_search_result y) = h_content y" for y
    by (simp_all add: enhance_search_result_def clean_symbol_def Let_def)
  ultimately show ?thesis
    by (simp add: service_search_semantic_def enhance_page_def Let_def list_all2_map1 list_all2_same comp_def)
qed

text \<open>
  The results of the database have no \<open>code\<close> and no \<open>path\<close> key and a regex result has its name under
  \<open>name\<close>: no result gets a preview or an extension, and a regex result keeps its part suffix.
\<close>

theorem enrichment_misses_keys:
  "h_code_preview (enhance_search_result (semantic_hit sim x)) = None
   \<and> h_file_extension (enhance_search_result (semantic_hit sim x)) = None
   \<and> h_code_preview (enhance_search_result (regex_hit cf)) = None
   \<and> h_name (enhance_search_result (regex_hit cf)) = Some (r_symbol (fst cf))"
  by (cases x; cases "snd x"; cases cf)
    (simp add: enhance_search_result_def clean_symbol_def semantic_hit_def regex_hit_def row_hit_def Let_def)

text \<open>
  Each page of a hybrid search combines windows of two pages and shows one page of them, and the
  next page starts one page later in both: a client that follows the pages to the end need not see
  every result.  Here the regex match \<open>9\<close> is in no page.
\<close>

definition two_semantic :: paged where
  "two_semantic page_size offset =
     paginate page_size offset [sample_hit 1 ''a'' 1 (Some (1/2)), sample_hit 2 ''a'' 5 (Some (1/2))]"

definition one_regex :: paged where
  "one_regex page_size offset = paginate page_size offset [sample_hit 9 ''b'' 1 None]"

lemma first_two_scores:
  "semantic_result_score (fl (7/10)) 2 1 (1/2) \<le> semantic_result_score (fl (7/10)) 2 0 (1/2)"
  "fl (position_score 1 0 * fl (1 - fl (7/10))) \<le> semantic_result_score (fl (7/10)) 2 0 (1/2)"
proof -
  have exact: "fl (1/4) = 1/4" "fl (5/16) = 5/16" "fl (11/32) = 11/32" "fl (19/32) = 19/32" "fl (11/16) = 11/16"
    "fl 1 = 1" "fl (1/2) = 1/2"
    by code_simp+
  have pos: "position_score 2 0 = 1" "position_score 2 1 = 1/2" "position_score 1 0 = 1"
    by (simp_all add: position_score_def py_truediv_def exact)
  have w: "1/4 \<le> fl (3/10)" "11/16 \<le> fl (7/10)" using fl_mono [of "1/4" "3/10"] fl_mono [of "11/16" "7/10"] exact by simp_all
  have "fl (1/4) \<le> fl (1 * fl (3/10))" by (rule fl_mono) (use w in simp)
  moreover have "fl (11/32) \<le> fl (1/2 * fl (7/10))" by (rule fl_mono) (use w in simp)
  ultimately have "fl (19/32) \<le> fl (fl (1 * fl (3/10)) + fl (1/2 * fl (7/10)))"
    using exact by (intro fl_mono) simp
  then have "19/32 * (11/16) \<le> fl (fl (1 * fl (3/10)) + fl (1/2 * fl (7/10))) * fl (7/10)"
    using w exact by (intro mult_mono) simp_all
  then have "fl (5/16) \<le> semantic_result_score (fl (7/10)) 2 0 (1/2)"
    unfolding semantic_result_score_def pos by (intro fl_mono) simp
  moreover have "fl (1 - fl (7/10)) \<le> fl (5/16)" using w by (intro fl_mono) simp
  ultimately show "fl (position_score 1 0 * fl (1 - fl (7/10))) \<le> semantic_result_score (fl (7/10)) 2 0 (1/2)"
    using fl_mono [of "fl (1 - fl (7/10))" "5/16"] exact unfolding pos by simp
  have "0 \<le> fl (3/10)" "0 \<le> fl (7/10)" using w by simp_all
  then show "semantic_result_score (fl (7/10)) 2 1 (1/2) \<le> semantic_result_score (fl (7/10)) 2 0 (1/2)"
    unfolding semantic_result_score_def pos by (intro fl_mono mult_right_mono add_right_mono) simp_all
qed

theorem hybrid_pages_lose_results:
  "map_option (map h_chunk_id)
     (follow_pages (search_hybrid (Some two_semantic) (Some one_regex) (fl (7/10)) 1) 0) = Some [Db_id 1, Db_id 2]"
proof -
  have scores: "semantic_result_score (fl (7/10)) 2 1 (1/2) \<le> semantic_result_score (fl (7/10)) 2 0 (1/2)"
    "fl (position_score 1 0 * fl (1 - fl (7/10))) \<le> semantic_result_score (fl (7/10)) 2 0 (1/2)"
    by (rule first_two_scores)+
  note simps = combine_search_results_def add_semantic_def add_regex_def usable_id_def dict_values_def
    sample_hit_def sort_desc_def Let_def
  let ?h = "search_hybrid (Some two_semantic) (Some one_regex) (fl (7/10)) 1"
  let ?s = "\<lambda>i l. sample_hit i ''a'' l (Some (1/2))" and ?r = "sample_hit 9 ''b'' 1 None"
  have windows: "fst (two_semantic 2 0) = [?s 1 1, ?s 2 5]" "fst (two_semantic 2 1) = [?s 2 5]"
    "fst (two_semantic 2 2) = []" "fst (one_regex 2 0) = [?r]" "fst (one_regex 2 1) = []" "fst (one_regex 2 2) = []"
    by (simp_all add: two_semantic_def one_regex_def paginate_def)
  have c0: "map h_chunk_id (combine_search_results [?s 1 1, ?s 2 5] [?r] (fl (7/10)) 1) = [Db_id 1]"
    using scores [unfolded numeral_2_eq_2] by (simp add: simps)
  have c1: "map h_chunk_id (combine_search_results [?s 2 5] [] (fl (7/10)) 1) = [Db_id 2]"
    by (simp add: simps)
  have c2: "combine_search_results [] [] (fl (7/10)) 1 = []" by (simp add: simps)
  have len: "length xs = 1" if "map h_chunk_id xs = [k]" for xs k using that by (metis One_nat_def length_Cons length_map list.size(3))
  have "map h_chunk_id (fst (?h 0)) = [Db_id 1]" "pg_next_offset (snd (?h 0)) = Some 1"
    "map h_chunk_id (fst (?h 1)) = [Db_id 2]" "pg_next_offset (snd (?h 1)) = Some 2"
    "fst (?h 2) = []" "pg_next_offset (snd (?h 2)) = None"
    using c0 c1 c2 len [OF c0] len [OF c1] by (simp_all add: search_hybrid_def windows windows [unfolded One_nat_def] Let_def)
  then show ?thesis
    by (simp add: follow_pages.simps [of _ 0] follow_pages.simps [of _ "Suc 0"] follow_pages.simps [of _ 2])
qed

end
