(* ===== verification/Cast_Parser.thy ===== *)
theory Cast_Parser
  imports Dedup
begin

text \<open>
  The chunking algorithm over a parser's output: \<open>parsers/universal_parser.py\<close>.  The concepts that
  the syntax tree yields are deduplicated, grouped by kind, merged with their neighbours, split to
  the size limits and merged greedily again (\<open>_apply_cast_algorithm\<close>), and become chunks
  (\<open>_convert_to_chunks\<close>); plain text is cut at blank lines (\<open>_parse_text_content\<close>).

  The tree-sitter engine with the concept extractor and the detector of embedded SQL are arguments
  that yield universal chunks, and so are the PDF and Lark parsers and the reading of the file.
  \<open>None\<close> is a run of the splitter that does not return.
\<close>

definition COMPATIBLE_CONCEPT_PAIRS :: "(universal_concept \<times> universal_concept) list" where
  "COMPATIBLE_CONCEPT_PAIRS =
     [(COMMENT, DEFINITION), (DEFINITION, COMMENT), (BLOCK, COMMENT), (COMMENT, BLOCK),
      (DEFINITION, STRUCTURE), (STRUCTURE, DEFINITION)]"

subsection \<open>Merging a group\<close>

definition can_merge_chunks :: "cast_config \<Rightarrow> universal_chunk list \<Rightarrow> universal_chunk \<Rightarrow> bool" where
  "can_merge_chunks cfg current_group candidate =
     (if current_group = [] then True
      else
        let total_content = join_with [nl] (map uc_content current_group) @ [nl] @ uc_content candidate;
            last_chunk = last current_group
        in if of_int (non_whitespace_chars (metrics_from_content total_content))
                > py_fmul (merge_threshold cfg) (max_chunk_size cfg)
              \<or> of_int (estimate_tokens_chunking total_content)
                > py_fmul (merge_threshold cfg) (safe_token_limit cfg) then False
           else if uc_start_line candidate - uc_end_line last_chunk > 5 then False
           else uc_concept last_chunk = uc_concept candidate
             \<or> (uc_concept last_chunk, uc_concept candidate) \<in> set COMPATIBLE_CONCEPT_PAIRS)"

text \<open>\<open>chunk.content.strip() not in combined_content\<close>: content that is there is not added again.\<close>

definition add_content :: "string \<Rightarrow> string \<Rightarrow> string" where
  "add_content combined_content content =
     (if str_contains combined_content (py_strip content) then combined_content
      else combined_content @ [nl] @ content)"

text \<open>\<open>list(dict.fromkeys(names))\<close>.\<close>

definition unique_names :: "string list \<Rightarrow> string list" where
  "unique_names names = dict_keys (fold (\<lambda>n d. dict_set n () d) names [])"

definition merge_chunk_group :: "cast_config \<Rightarrow> universal_chunk list \<Rightarrow> universal_chunk list" where
  "merge_chunk_group cfg chunk_group =
     (if length chunk_group \<le> 1 then chunk_group
      else
        let sorted_group = sort_key uc_start_line chunk_group;
            combined_content =
              foldl (\<lambda>s c. add_content s (uc_content c)) (uc_content (hd sorted_group)) (tl sorted_group);
            names = map uc_name sorted_group
        in if \<not> fits cfg combined_content then chunk_group
           else [\<lparr>uc_concept = uc_concept (hd sorted_group),
                  uc_name = join_with ''_'' (unique_names names),
                  uc_content = combined_content,
                  uc_start_line = uc_start_line (hd sorted_group),
                  uc_end_line = uc_end_line (last sorted_group),
                  uc_metadata = dict_set ''chunk_count'' (PyInt (int (length sorted_group)))
                    (dict_set ''merged_from'' (PyList (map PyStr names)) (uc_metadata (hd sorted_group))),
                  uc_language_node_type = uc_language_node_type (hd sorted_group)\<rparr>])"

text \<open>The loop of \<open>_chunk_blocks\<close> and \<open>_chunk_comments\<close>: runs of the sorted chunks.\<close>

fun group_chunks ::
  "(universal_chunk list \<Rightarrow> universal_chunk \<Rightarrow> bool) \<Rightarrow> universal_chunk list \<Rightarrow> universal_chunk list \<Rightarrow>
     universal_chunk list list" where
  "group_chunks ok current_group [] = [current_group]"
| "group_chunks ok current_group (c # cs) =
     (if ok current_group c then group_chunks ok (current_group @ [c]) cs
      else current_group # group_chunks ok [c] cs)"

definition merge_runs ::
  "cast_config \<Rightarrow> (universal_chunk list \<Rightarrow> universal_chunk \<Rightarrow> bool) \<Rightarrow> universal_chunk list \<Rightarrow> universal_chunk list" where
  "merge_runs cfg ok chunks =
     (case sort_key uc_start_line chunks of
        [] \<Rightarrow> []
      | c # cs \<Rightarrow> concat (map (merge_chunk_group cfg) (group_chunks ok [c] cs)))"

fun split_all :: "cast_config \<Rightarrow> universal_chunk list \<Rightarrow> universal_chunk list option" where
  "split_all cfg [] = Some []"
| "split_all cfg (c # cs) =
     Option.bind (validate_and_split cfg c) (\<lambda>ps.
       Option.bind (split_all cfg cs) (\<lambda>rest. Some (ps @ rest)))"

definition chunk_definitions :: "cast_config \<Rightarrow> universal_chunk list \<Rightarrow> universal_chunk list option" where
  "chunk_definitions cfg chunks = split_all cfg chunks"

definition chunk_blocks :: "cast_config \<Rightarrow> universal_chunk list \<Rightarrow> universal_chunk list option" where
  "chunk_blocks cfg chunks = split_all cfg (merge_runs cfg (can_merge_chunks cfg) chunks)"

definition consecutive_comments :: "universal_chunk list \<Rightarrow> universal_chunk \<Rightarrow> bool" where
  "consecutive_comments current_group c \<longleftrightarrow> uc_start_line c - uc_end_line (last current_group) \<le> 1"

definition chunk_comments :: "cast_config \<Rightarrow> universal_chunk list \<Rightarrow> universal_chunk list option" where
  "chunk_comments cfg chunks = split_all cfg (merge_runs cfg consecutive_comments chunks)"

subsection \<open>The greedy pass\<close>

definition meta :: "string \<Rightarrow> universal_chunk \<Rightarrow> pyval" where
  "meta k c = get_or_none (uc_metadata c) k"

definition incompatible_concepts :: "universal_chunk \<Rightarrow> universal_chunk \<Rightarrow> bool" where
  "incompatible_concepts current next_chunk \<longleftrightarrow> uc_concept current \<noteq> uc_concept next_chunk
     \<and> (uc_concept current, uc_concept next_chunk) \<notin> set COMPATIBLE_CONCEPT_PAIRS"

definition is_nested :: "universal_chunk \<Rightarrow> universal_chunk \<Rightarrow> bool" where
  "is_nested current next_chunk \<longleftrightarrow> uc_start_line next_chunk > uc_start_line current
     \<and> uc_end_line next_chunk \<le> uc_end_line current"

definition prevents_merge :: "universal_chunk \<Rightarrow> bool" where
  "prevents_merge c \<longleftrightarrow> py_truthy (meta ''prevent_merge_across_concepts'' c)"

definition semantic_mismatch :: "universal_chunk \<Rightarrow> universal_chunk \<Rightarrow> bool" where
  "semantic_mismatch current next_chunk \<longleftrightarrow>
     uc_concept current = DEFINITION \<and> uc_concept next_chunk = DEFINITION
     \<and> (let current_kind = meta ''kind'' current; next_kind = meta ''kind'' next_chunk
        in py_truthy current_kind \<and> py_truthy next_kind \<and> current_kind \<noteq> next_kind
           \<or> current_kind = PyStr ''rule'' \<and> next_kind = PyStr ''rule'')"

definition max_gap :: "universal_chunk \<Rightarrow> universal_chunk \<Rightarrow> int" where
  "max_gap current next_chunk =
     (if uc_concept current \<noteq> uc_concept next_chunk
         \<and> (uc_concept current = COMMENT \<or> uc_concept next_chunk = COMMENT) then 1 else 5)"

definition try_merge :: "cast_config \<Rightarrow> universal_chunk \<Rightarrow> universal_chunk \<Rightarrow> universal_chunk option" where
  "try_merge cfg current next_chunk =
     (if incompatible_concepts current next_chunk then None
      else if is_nested current next_chunk then None
      else if prevents_merge current \<or> prevents_merge next_chunk then None
      else
        let is_new_content = \<not> str_contains (uc_content current) (py_strip (uc_content next_chunk));
            combined_content = add_content (uc_content current) (uc_content next_chunk);
            can_merge = \<not> semantic_mismatch current next_chunk \<and> fits cfg combined_content
              \<and> uc_start_line next_chunk - uc_end_line current \<le> max_gap current next_chunk;
            model = (if uc_concept current \<noteq> uc_concept next_chunk
                        \<and> get_chunk_specificity (AUniversal next_chunk) > get_chunk_specificity (AUniversal current)
                     then next_chunk else current)
        in if can_merge
           then Some \<lparr>uc_concept = uc_concept model, uc_name = uc_name model, uc_content = combined_content,
                      uc_start_line = uc_start_line current,
                      uc_end_line = (if is_new_content then uc_end_line next_chunk else uc_end_line current),
                      uc_metadata = uc_metadata model,
                      uc_language_node_type = uc_language_node_type model\<rparr>
           else None)"

fun greedy_loop :: "cast_config \<Rightarrow> universal_chunk \<Rightarrow> universal_chunk list \<Rightarrow> universal_chunk list" where
  "greedy_loop cfg current [] = [current]"
| "greedy_loop cfg current (n # ns) =
     (case try_merge cfg current n of
        None \<Rightarrow> current # greedy_loop cfg n ns
      | Some merged \<Rightarrow> greedy_loop cfg merged ns)"

definition greedy_merge_pass :: "cast_config \<Rightarrow> universal_chunk list \<Rightarrow> universal_chunk list" where
  "greedy_merge_pass cfg chunks =
     (if length chunks \<le> 1 then chunks
      else case sort_key uc_start_line chunks of [] \<Rightarrow> [] | c # cs \<Rightarrow> greedy_loop cfg c cs)"

subsection \<open>The algorithm\<close>

definition group_by_concept :: "universal_chunk list \<Rightarrow> (universal_concept, universal_chunk list) pydict" where
  "group_by_concept chunks =
     fold (\<lambda>c d. dict_set (uc_concept c) ((case dict_get d (uc_concept c) of None \<Rightarrow> [] | Some cs \<Rightarrow> cs) @ [c]) d)
       chunks []"

definition chunk_concept ::
  "cast_config \<Rightarrow> universal_concept \<times> universal_chunk list \<Rightarrow> universal_chunk list option" where
  "chunk_concept cfg kc =
     (let (concept, concept_chunks) = kc in
      case concept of
        DEFINITION \<Rightarrow> chunk_definitions cfg concept_chunks
      | COMMENT \<Rightarrow> chunk_comments cfg concept_chunks
      | _ \<Rightarrow> chunk_blocks cfg concept_chunks)"

fun chunk_concepts ::
  "cast_config \<Rightarrow> (universal_concept, universal_chunk list) pydict \<Rightarrow> universal_chunk list option" where
  "chunk_concepts cfg [] = Some []"
| "chunk_concepts cfg (kc # d) =
     Option.bind (chunk_concept cfg kc) (\<lambda>cs.
       Option.bind (chunk_concepts cfg d) (\<lambda>rest. Some (cs @ rest)))"

definition dedup_universal ::
  "(nat list \<Rightarrow> int) \<Rightarrow> universal_chunk list \<Rightarrow> string \<Rightarrow> universal_chunk list" where
  "dedup_universal xxh chunks language_name =
     concat (map (\<lambda>c. case c of AUniversal u \<Rightarrow> [u] | AChunk k \<Rightarrow> [])
       (deduplicate_chunks xxh (map AUniversal chunks) (Some (LStr language_name))))"

definition apply_cast_algorithm ::
  "(nat list \<Rightarrow> int) \<Rightarrow> cast_config \<Rightarrow> string \<Rightarrow> universal_chunk list \<Rightarrow> universal_chunk list option" where
  "apply_cast_algorithm xxh cfg language_name universal_chunks =
     (if universal_chunks = [] then Some []
      else
        map_option (\<lambda>optimized. if greedy_merge cfg then greedy_merge_pass cfg optimized else optimized)
          (chunk_concepts cfg (group_by_concept (dedup_universal xxh universal_chunks language_name))))"

subsection \<open>Contained text\<close>

lemma str_contains_trans: "str_contains s t \<Longrightarrow> str_contains t u \<Longrightarrow> str_contains s u"
  unfolding str_contains_iff by (metis append.assoc)

lemma str_contains_append: "str_contains s t \<Longrightarrow> str_contains (s @ u) t"
  unfolding str_contains_iff by (metis append.assoc)

lemma str_contains_strip: "str_contains s (py_strip s)"
proof -
  have "s = takeWhile py_space s @ py_lstrip s" by (simp add: py_lstrip_def)
  moreover obtain t where "py_lstrip s = py_strip s @ t"
    unfolding py_strip_def using py_rstrip_decomp by blast
  ultimately show ?thesis unfolding str_contains_iff by metis
qed

lemma add_content_old: "str_contains s t \<Longrightarrow> str_contains (add_content s u) t"
  by (simp add: add_content_def str_contains_append)

lemma add_content_new: "str_contains (add_content s u) (py_strip u)"
proof (cases "str_contains s (py_strip u)")
  case False
  have "str_contains (s @ [nl] @ u) u" unfolding str_contains_iff by (metis append.assoc append_Nil2)
  then show ?thesis using False str_contains_trans [OF _ str_contains_strip] by (simp add: add_content_def)
qed (simp add: add_content_def)

lemma fold_content:
  "str_contains s t \<or> (\<exists>c\<in>set cs. py_strip (uc_content c) = t) \<Longrightarrow>
   str_contains (foldl (\<lambda>s c. add_content s (uc_content c)) s cs) t"
proof (induction cs arbitrary: s)
  case (Cons c cs)
  show ?case using Cons.prems Cons.IH [of "add_content s (uc_content c)"] add_content_new add_content_old by auto
qed simp

text \<open>\<open>valid_lines\<close> is the condition on line numbers; \<open>holds_text o c\<close> says that \<open>o\<close> holds the text of \<open>c\<close>.\<close>

definition valid_lines :: "universal_chunk \<Rightarrow> bool" where
  "valid_lines c \<longleftrightarrow> uc_start_line c \<le> uc_end_line c"

definition holds_text :: "universal_chunk \<Rightarrow> universal_chunk \<Rightarrow> bool" where
  "holds_text out c \<longleftrightarrow> str_contains (uc_content out) (py_strip (uc_content c))"

lemma holds_text_self [simp]: "holds_text c c"
  by (simp add: holds_text_def str_contains_strip)

lemma dropWhile_keeps:
  assumes "u \<noteq> []" "\<not> P (hd u)"
  shows "\<exists>a'. dropWhile P (a @ u @ b) = a' @ u @ b"
proof (cases "\<exists>x\<in>set a. \<not> P x")
  case True
  then have "dropWhile P (a @ u @ b) = dropWhile P a @ u @ b" by (metis dropWhile_append1)
  then show ?thesis by blast
next
  case False
  then have "dropWhile P (a @ u @ b) = dropWhile P (u @ b)" by (metis dropWhile_append2)
  also have "\<dots> = [] @ u @ b" using assms by (cases u) auto
  finally show ?thesis by blast
qed

lemma str_contains_strip_both:
  assumes "str_contains s (py_strip t)"
  shows "str_contains (py_strip s) (py_strip t)"
proof (cases "py_strip t = []")
  case True
  then show ?thesis by (simp add: str_contains_iff) (metis append_Nil)
next
  case False
  obtain a b where s: "s = a @ py_strip t @ b" using assms by (auto simp: str_contains_iff)
  obtain a' where l: "py_lstrip s = a' @ py_strip t @ b"
    unfolding py_lstrip_def s
    using dropWhile_keeps [of "py_strip t" py_space a b] False py_strip_ends(1) [OF False] by blast
  have "hd (rev (py_strip t)) = last (py_strip t)" using False by (simp add: hd_rev)
  then have "\<not> py_space (hd (rev (py_strip t)))" using py_strip_ends(2) [OF False] by simp
  with False obtain b' where "dropWhile py_space (rev b @ rev (py_strip t) @ rev a') = b' @ rev (py_strip t) @ rev a'"
    using dropWhile_keeps [of "rev (py_strip t)" py_space "rev b" "rev a'"] by auto
  then have "py_rstrip (a' @ py_strip t @ b) = a' @ py_strip t @ rev b'"
    by (simp add: py_rstrip_def [of "a' @ py_strip t @ b"])
  then have "py_strip s = a' @ py_strip t @ rev b'" by (simp only: py_strip_def [of s] l)
  then show ?thesis unfolding str_contains_iff by blast
qed

lemma holds_text_trans: "holds_text r' r \<Longrightarrow> holds_text r p \<Longrightarrow> holds_text r' p"
  unfolding holds_text_def using str_contains_strip_both str_contains_trans by blast

subsection \<open>Groups\<close>

lemma group_chunks_concat: "concat (group_chunks ok g cs) = g @ cs"
  by (induction ok g cs rule: group_chunks.induct) auto

lemma hd_le_last: "sorted (map f xs) \<Longrightarrow> xs \<noteq> [] \<Longrightarrow> f (hd xs) \<le> f (last xs)"
  by (cases xs) auto

lemma merge_chunk_group_cases:
  assumes "m \<in> set (merge_chunk_group cfg g)" "list_all valid_lines g"
  shows "valid_lines m \<and> (m \<in> set g \<or> fits cfg (uc_content m))"
proof (cases "merge_chunk_group cfg g = g")
  case False
  then have g: "g \<noteq> []" and m: "fits cfg (uc_content m)"
    "uc_start_line m = uc_start_line (hd (sort_key uc_start_line g))"
    "uc_end_line m = uc_end_line (last (sort_key uc_start_line g))"
    using assms(1) by (auto simp: merge_chunk_group_def Let_def split: if_splits)
  let ?s = "sort_key uc_start_line g"
  have ne: "?s \<noteq> []" using g by (metis length_0_conv length_sort)
  have "uc_start_line (hd ?s) \<le> uc_start_line (last ?s)" using ne by (intro hd_le_last) simp_all
  moreover have "valid_lines (last ?s)"
    using assms(2) last_in_set [OF ne] by (simp add: list_all_iff)
  ultimately show ?thesis using m by (simp add: valid_lines_def)
qed (use assms in \<open>auto simp: list_all_iff\<close>)

lemma merge_chunk_group_holds:
  assumes "c \<in> set g"
  shows "c \<in> set (merge_chunk_group cfg g)
    \<or> (\<exists>m\<in>set (merge_chunk_group cfg g). fits cfg (uc_content m) \<and> holds_text m c)"
proof (cases "merge_chunk_group cfg g = g")
  case False
  let ?s = "sort_key uc_start_line g"
  let ?t = "foldl (\<lambda>s c. add_content s (uc_content c)) (uc_content (hd ?s)) (tl ?s)"
  have "?s \<noteq> []" using assms by (metis empty_iff length_0_conv length_sort list.set(1))
  then have "c = hd ?s \<or> c \<in> set (tl ?s)" using assms set_sort [of uc_start_line g] by (cases ?s) auto
  then have "str_contains ?t (py_strip (uc_content c))"
    using fold_content [of "uc_content (hd ?s)" "py_strip (uc_content c)" "tl ?s"] str_contains_strip by auto
  moreover have "\<exists>m. merge_chunk_group cfg g = [m] \<and> uc_content m = ?t \<and> fits cfg ?t"
    using False by (auto simp: merge_chunk_group_def Let_def split: if_splits)
  ultimately show ?thesis by (auto simp: holds_text_def)
qed (use assms in auto)

lemma merge_runs_cases:
  assumes "m \<in> set (merge_runs cfg ok cs)" "list_all valid_lines cs"
  shows "valid_lines m \<and> (m \<in> set cs \<or> fits cfg (uc_content m))"
proof (cases "sort_key uc_start_line cs")
  case Nil
  then show ?thesis using assms(1) by (simp add: merge_runs_def)
next
  case (Cons c rest)
  then obtain g where g: "g \<in> set (group_chunks ok [c] rest)" "m \<in> set (merge_chunk_group cfg g)"
    using assms(1) by (auto simp: merge_runs_def)
  have "set (c # rest) = set cs" using Cons by (metis set_sort)
  moreover have "set g \<subseteq> set (concat (group_chunks ok [c] rest))" using g(1) by auto
  ultimately have "set g \<subseteq> set cs" by (simp add: group_chunks_concat)
  then have "list_all valid_lines g" using assms(2) by (auto simp: list_all_iff)
  with merge_chunk_group_cases [OF g(2)] \<open>set g \<subseteq> set cs\<close> show ?thesis by blast
qed

lemma merge_runs_holds:
  assumes "x \<in> set cs"
  shows "x \<in> set (merge_runs cfg ok cs)
    \<or> (\<exists>m\<in>set (merge_runs cfg ok cs). fits cfg (uc_content m) \<and> holds_text m x)"
proof -
  have "x \<in> set (sort_key uc_start_line cs)" using assms by simp
  then obtain c rest where s: "sort_key uc_start_line cs = c # rest" by (cases "sort_key uc_start_line cs") auto
  have "set (c # rest) = set cs" using s by (metis set_sort)
  then have "x \<in> set (concat (group_chunks ok [c] rest))" using assms by (simp add: group_chunks_concat)
  then obtain g where "g \<in> set (group_chunks ok [c] rest)" "x \<in> set g" by auto
  with merge_chunk_group_holds [of x g cfg] s show ?thesis by (auto simp: merge_runs_def)
qed

subsection \<open>Splitting\<close>

text \<open>The text of \<open>c\<close> is in the results: whole, when it fits, and else in the parts it is split into.\<close>

definition covered :: "cast_config \<Rightarrow> universal_chunk list \<Rightarrow> universal_chunk \<Rightarrow> bool" where
  "covered cfg out c \<longleftrightarrow> (\<exists>ps. concat (map (nonws \<circ> uc_content) ps) = nonws (uc_content c)
     \<and> (fits cfg (uc_content c) \<longrightarrow> ps = [c]) \<and> (\<forall>p\<in>set ps. \<exists>r\<in>set out. holds_text r p))"

lemma covered_direct: "r \<in> set out \<Longrightarrow> holds_text r c \<Longrightarrow> covered cfg out c"
  by (auto simp: covered_def intro!: exI [of _ "[c]"])

lemma covered_mono: "covered cfg out c \<Longrightarrow> set out \<subseteq> set out' \<Longrightarrow> covered cfg out' c"
  unfolding covered_def by blast

definition good_chunks :: "cast_config \<Rightarrow> universal_chunk list \<Rightarrow> bool" where
  "good_chunks cfg cs \<longleftrightarrow> list_all valid_lines cs \<and> (cfg_tight cfg \<longrightarrow> list_all (fits cfg \<circ> uc_content) cs)"

lemma split_all_total:
  assumes "cfg_ok cfg" "list_all valid_lines cs"
  shows "\<exists>out. split_all cfg cs = Some out \<and> good_chunks cfg out \<and> (\<forall>c\<in>set cs. covered cfg out c)
    \<and> (\<forall>c\<in>set cs. fits cfg (uc_content c) \<longrightarrow> c \<in> set out)"
  using assms(2)
proof (induction cs)
  case Nil
  then show ?case by (simp add: good_chunks_def)
next
  case (Cons c cs)
  then obtain out where out: "split_all cfg cs = Some out" "good_chunks cfg out"
    "\<forall>c\<in>set cs. covered cfg out c" "\<forall>c\<in>set cs. fits cfg (uc_content c) \<longrightarrow> c \<in> set out" by auto
  from Cons.prems have "uc_start_line c \<le> uc_end_line c" by (simp add: valid_lines_def)
  then obtain ps where ps: "validate_and_split cfg c = Some ps" "splits_into cfg c ps"
    using validate_and_split_correct [OF assms(1)] by blast
  have self: "fits cfg (uc_content c) \<Longrightarrow> ps = [c]" using ps(1) by (simp add: validate_and_split_def)
  have "covered cfg ps c"
    using ps(2) self holds_text_self unfolding covered_def splits_into_def by blast
  moreover have "good_chunks cfg ps"
    using ps(2) by (auto simp: good_chunks_def splits_into_def part_of_def valid_lines_def list_all_iff)
  ultimately show ?case
    using ps(1) out self covered_mono [of cfg _ _ "ps @ out"]
    by (auto simp: good_chunks_def list_all_iff)
qed

lemma merged_and_split:
  assumes "cfg_ok cfg" "list_all valid_lines cs"
  shows "\<exists>out. split_all cfg (merge_runs cfg ok cs) = Some out \<and> good_chunks cfg out
    \<and> (\<forall>c\<in>set cs. covered cfg out c)"
proof -
  have "list_all valid_lines (merge_runs cfg ok cs)"
    using merge_runs_cases [OF _ assms(2)] by (auto simp: list_all_iff)
  from split_all_total [OF assms(1) this]
  obtain out where out: "split_all cfg (merge_runs cfg ok cs) = Some out" "good_chunks cfg out"
    "\<forall>c\<in>set (merge_runs cfg ok cs). covered cfg out c"
    "\<forall>c\<in>set (merge_runs cfg ok cs). fits cfg (uc_content c) \<longrightarrow> c \<in> set out" by blast
  have "covered cfg out c" if "c \<in> set cs" for c
    using merge_runs_holds [OF that, of cfg ok] out(3,4) covered_direct by blast
  with out show ?thesis by blast
qed

lemma chunk_concept_total:
  assumes "cfg_ok cfg" "list_all valid_lines cs"
  shows "\<exists>out. chunk_concept cfg (k, cs) = Some out \<and> good_chunks cfg out \<and> (\<forall>c\<in>set cs. covered cfg out c)"
  using split_all_total [OF assms] merged_and_split [OF assms]
  by (cases k) (auto simp: chunk_concept_def chunk_definitions_def chunk_blocks_def chunk_comments_def)

lemma chunk_concepts_total:
  assumes "cfg_ok cfg" "\<forall>(k, cs)\<in>set d. list_all valid_lines cs"
  shows "\<exists>out. chunk_concepts cfg d = Some out \<and> good_chunks cfg out
    \<and> (\<forall>(k, cs)\<in>set d. \<forall>c\<in>set cs. covered cfg out c)"
  using assms(2)
proof (induction d)
  case Nil
  then show ?case by (simp add: good_chunks_def)
next
  case (Cons e d)
  obtain k cs where e: "e = (k, cs)" by fastforce
  obtain a where a: "chunk_concept cfg (k, cs) = Some a" "good_chunks cfg a" "\<forall>c\<in>set cs. covered cfg a c"
    using chunk_concept_total [OF assms(1), of cs k] Cons.prems e by auto
  obtain b where b: "chunk_concepts cfg d = Some b" "good_chunks cfg b"
    "\<forall>(k, cs)\<in>set d. \<forall>c\<in>set cs. covered cfg b c"
    using Cons by auto
  then have "\<forall>(k, cs)\<in>set (e # d). \<forall>c\<in>set cs. covered cfg (a @ b) c"
    using a(3) e covered_mono [of cfg a _ "a @ b"] covered_mono [of cfg b _ "a @ b"] by fastforce
  then show ?case using a(1,2) b(1,2) e by (auto simp: good_chunks_def)
qed

subsection \<open>The greedy pass keeps text, sizes and line order\<close>

lemma try_merge_Some:
  assumes "try_merge cfg cur n = Some m"
  shows "uc_content m = add_content (uc_content cur) (uc_content n)" "fits cfg (uc_content m)"
    "uc_start_line m = uc_start_line cur" "uc_end_line m \<in> {uc_end_line cur, uc_end_line n}"
  using assms by (auto simp: try_merge_def Let_def split: if_splits)

lemma greedy_loop_holds:
  "x = cur \<or> x \<in> set ns \<or> (\<exists>y. holds_text y x \<and> str_contains (uc_content cur) (uc_content y)) \<Longrightarrow>
   \<exists>r\<in>set (greedy_loop cfg cur ns). holds_text r x"
proof (induction cfg cur ns rule: greedy_loop.induct)
  case (1 cfg cur)
  then show ?case by (auto simp: holds_text_def str_contains_strip intro: str_contains_trans)
next
  case (2 cfg cur n ns)
  show ?case
  proof (cases "try_merge cfg cur n")
    case None
    show ?thesis
    proof (cases "x = n \<or> x \<in> set ns")
      case True
      then have "\<exists>r\<in>set (greedy_loop cfg n ns). holds_text r x" using "2.IH"(1) [OF None] by blast
      then show ?thesis using None by auto
    next
      case False
      then have "holds_text cur x" using "2.prems" by (auto simp: holds_text_def str_contains_strip intro: str_contains_trans)
      then show ?thesis using None by auto
    qed
  next
    case (Some m)
    note m = try_merge_Some(1) [OF Some]
    have "holds_text m n" by (simp add: holds_text_def m add_content_new)
    moreover have "str_contains (uc_content m) (uc_content cur)" by (simp add: m add_content_old)
    ultimately have "x \<in> set ns \<or> (\<exists>y. holds_text y x \<and> str_contains (uc_content m) (uc_content y))"
      using "2.prems" holds_text_self str_contains_refl str_contains_trans by (metis set_ConsD)
    then show ?thesis using "2.IH"(2) [OF Some] Some by auto
  qed
qed

lemma greedy_loop_not_Nil [simp]: "greedy_loop cfg cur ns \<noteq> []"
  by (induction cfg cur ns rule: greedy_loop.induct) (auto split: option.split)

lemma greedy_loop_good:
  assumes "list_all valid_lines (cur # ns)" "sorted (map uc_start_line (cur # ns))"
  shows "list_all valid_lines (greedy_loop cfg cur ns) \<and> sorted (map uc_start_line (greedy_loop cfg cur ns))
    \<and> uc_start_line (hd (greedy_loop cfg cur ns)) = uc_start_line cur
    \<and> (list_all (fits cfg \<circ> uc_content) (cur # ns) \<longrightarrow> list_all (fits cfg \<circ> uc_content) (greedy_loop cfg cur ns))"
  using assms
proof (induction cfg cur ns rule: greedy_loop.induct)
  case (2 cfg cur n ns)
  show ?case
  proof (cases "try_merge cfg cur n")
    case None
    obtain g gs where g: "greedy_loop cfg n ns = g # gs"
      using greedy_loop_not_Nil by (cases "greedy_loop cfg n ns") auto
    with "2.IH"(1) [OF None] "2.prems" None show ?thesis by auto
  next
    case (Some m)
    note m = try_merge_Some [OF Some]
    have "valid_lines m" using m(3,4) "2.prems" by (auto simp: valid_lines_def)
    with "2.IH"(2) [OF Some] "2.prems" m Some show ?thesis by auto
  qed
qed simp

lemma greedy_merge_pass_good:
  assumes "good_chunks cfg cs"
  shows "good_chunks cfg (greedy_merge_pass cfg cs)" and "sorted (map uc_start_line (greedy_merge_pass cfg cs))"
    and "x \<in> set cs \<Longrightarrow> \<exists>r\<in>set (greedy_merge_pass cfg cs). holds_text r x"
proof -
  let ?P = "good_chunks cfg (greedy_merge_pass cfg cs) \<and> sorted (map uc_start_line (greedy_merge_pass cfg cs))
    \<and> (x \<in> set cs \<longrightarrow> (\<exists>r\<in>set (greedy_merge_pass cfg cs). holds_text r x))"
  have ?P
  proof (cases "length cs \<le> 1")
    case True
    then show ?thesis using assms by (cases cs) (auto simp: greedy_merge_pass_def)
  next
    case False
    obtain c ns where s: "sort_key uc_start_line cs = c # ns"
      using False by (cases "sort_key uc_start_line cs") (auto dest: arg_cong [of _ _ length])
    have set: "set (c # ns) = set cs" using s by (metis set_sort)
    have "sorted (map uc_start_line (c # ns))" unfolding s [symmetric] by simp
    moreover have v: "list_all valid_lines (c # ns)"
      using assms set by (simp add: good_chunks_def list_all_iff del: list.set)
    moreover have f: "cfg_tight cfg \<longrightarrow> list_all (fits cfg \<circ> uc_content) (c # ns)"
      using assms set by (simp add: good_chunks_def list_all_iff del: list.set)
    ultimately have "good_chunks cfg (greedy_loop cfg c ns)" "sorted (map uc_start_line (greedy_loop cfg c ns))"
      using greedy_loop_good [of c ns cfg] by (auto simp: good_chunks_def)
    moreover have "x \<in> set cs \<longrightarrow> (\<exists>r\<in>set (greedy_loop cfg c ns). holds_text r x)"
      using set greedy_loop_holds [of x c ns cfg] by auto
    ultimately show ?thesis using False s by (simp add: greedy_merge_pass_def)
  qed
  then show "good_chunks cfg (greedy_merge_pass cfg cs)" "sorted (map uc_start_line (greedy_merge_pass cfg cs))"
    "x \<in> set cs \<Longrightarrow> \<exists>r\<in>set (greedy_merge_pass cfg cs). holds_text r x" by auto
qed

subsection \<open>The algorithm as a whole\<close>

lemma group_by_concept_fold:
  fixes d :: "(universal_concept, universal_chunk list) pydict"
  defines "step \<equiv> \<lambda>c d. dict_set (uc_concept c)
     ((case dict_get d (uc_concept c) of None \<Rightarrow> [] | Some cs \<Rightarrow> cs) @ [c]) d"
  assumes "dict_ok d"
  shows "dict_ok (fold step chunks d)
    \<and> (\<Union>(k, cs)\<in>set (fold step chunks d). set cs) = (\<Union>(k, cs)\<in>set d. set cs) \<union> set chunks"
  using assms(2)
proof (induction chunks arbitrary: d)
  case (Cons c chunks)
  let ?old = "case dict_get d (uc_concept c) of None \<Rightarrow> [] | Some cs \<Rightarrow> cs"
  have ok: "dict_ok (step c d)" using Cons.prems by (simp add: step_def dict_ok_set)
  have "(\<Union>(k, cs)\<in>set (step c d). set cs) = (\<Union>(k, cs)\<in>set d. set cs) \<union> {c}"
  proof -
    have mem: "(k, cs) \<in> set e \<longleftrightarrow> dict_get e k = Some cs" if "dict_ok e" for e :: "(universal_concept, universal_chunk list) pydict" and k cs
      using dict_get_Some_iff [OF that] by blast
    have U: "(\<Union>(k, cs)\<in>set e. set cs) = {x. \<exists>k cs. dict_get e k = Some cs \<and> x \<in> set cs}"
      if "dict_ok e" for e :: "(universal_concept, universal_chunk list) pydict"
      using mem [OF that] by fastforce
    show ?thesis unfolding U [OF ok] U [OF Cons.prems]
      by (auto simp: step_def split: if_splits option.splits) (metis option.inject)
  qed
  with Cons.IH [OF ok] show ?case by auto
qed simp

lemma set_group_by_concept: "(\<Union>(k, cs)\<in>set (group_by_concept chunks). set cs) = set chunks"
  using group_by_concept_fold [of "[]" chunks] by (simp add: group_by_concept_def)

lemma apply_cast_total:
  assumes "cfg_ok cfg" "list_all valid_lines (dedup_universal xxh cs lang)"
  shows "\<exists>out. apply_cast_algorithm xxh cfg lang cs = Some out \<and> good_chunks cfg out
    \<and> (greedy_merge cfg \<longrightarrow> sorted (map uc_start_line out))
    \<and> (cs \<noteq> [] \<longrightarrow> (\<forall>c\<in>set (dedup_universal xxh cs lang). covered cfg out c))"
proof (cases "cs = []")
  case True
  then show ?thesis by (simp add: apply_cast_algorithm_def good_chunks_def)
next
  case False
  let ?u = "dedup_universal xxh cs lang"
  have u: "(\<Union>(k, cs)\<in>set (group_by_concept ?u). set cs) = set ?u" by (rule set_group_by_concept)
  then have "\<forall>(k, cs)\<in>set (group_by_concept ?u). list_all valid_lines cs"
    using assms(2) unfolding list_all_iff by fastforce
  from chunk_concepts_total [OF assms(1) this]
  obtain out where out: "chunk_concepts cfg (group_by_concept ?u) = Some out" "good_chunks cfg out"
    "\<forall>(k, cs)\<in>set (group_by_concept ?u). \<forall>c\<in>set cs. covered cfg out c" by blast
  have cov: "covered cfg out c" if "c \<in> set ?u" for c using that out(3) unfolding u [symmetric] by fastforce
  show ?thesis
  proof (cases "greedy_merge cfg")
    case False
    then show ?thesis using out cov \<open>cs \<noteq> []\<close> by (simp add: apply_cast_algorithm_def)
  next
    case True
    note g = greedy_merge_pass_good [OF out(2)]
    have "covered cfg (greedy_merge_pass cfg out) c" if "c \<in> set ?u" for c
    proof -
      from cov [OF that] obtain ps where ps: "concat (map (nonws \<circ> uc_content) ps) = nonws (uc_content c)"
        "fits cfg (uc_content c) \<longrightarrow> ps = [c]" "\<forall>p\<in>set ps. \<exists>r\<in>set out. holds_text r p"
        unfolding covered_def by blast
      have "\<exists>r\<in>set (greedy_merge_pass cfg out). holds_text r p" if "p \<in> set ps" for p
      proof -
        obtain r where r: "r \<in> set out" "holds_text r p" using ps(3) \<open>p \<in> set ps\<close> by blast
        then obtain r' where "r' \<in> set (greedy_merge_pass cfg out)" "holds_text r' r" using g(3) by blast
        with r(2) show ?thesis using holds_text_trans by blast
      qed
      with ps show ?thesis unfolding covered_def by blast
    qed
    then show ?thesis using out(1) g(1,2) True \<open>cs \<noteq> []\<close> by (simp add: apply_cast_algorithm_def)
  qed
qed

lemma dedup_universal_subset: "set (dedup_universal xxh cs lang) \<subseteq> set cs"
proof -
  have "set (deduplicate_chunks xxh (map AUniversal cs) l) \<subseteq> AUniversal ` set cs" for l
    using set_remove [of "deduplicate_exact_content xxh (map AUniversal cs)"] set_exact [of _ xxh "map AUniversal cs"]
    by (auto simp: deduplicate_chunks_def)
  then show ?thesis unfolding dedup_universal_def by (fastforce split: any_chunk.splits)
qed


text \<open>
  C14: no text is lost: every chunk that survives deduplication and fits the limits is contained, whole
  and without its outer white space, in one chunk of the result, and one that does not fit is cut
  into parts that carry its non-white-space characters in order, each contained in a chunk of the
  result.
\<close>

theorem apply_cast_keeps_text:
  assumes "cfg_ok cfg" "\<forall>c\<in>set cs. uc_start_line c \<le> uc_end_line c"
    and "apply_cast_algorithm xxh cfg lang cs = Some out" "c \<in> set (dedup_universal xxh cs lang)"
  shows "\<exists>ps. concat (map (nonws \<circ> uc_content) ps) = nonws (uc_content c)
    \<and> (fits cfg (uc_content c) \<longrightarrow> ps = [c])
    \<and> (\<forall>p\<in>set ps. \<exists>r\<in>set out. str_contains (uc_content r) (py_strip (uc_content p)))"
proof -
  have "list_all valid_lines (dedup_universal xxh cs lang)"
    using assms(2) dedup_universal_subset [of xxh cs lang] by (auto simp: list_all_iff valid_lines_def)
  moreover have "cs \<noteq> []" using assms(4) dedup_universal_subset [of xxh cs lang] by auto
  ultimately have "covered cfg out c"
    using apply_cast_total [OF assms(1), of xxh cs lang] assms(3,4) by auto
  then show ?thesis by (simp add: covered_def holds_text_def)
qed

definition two_uchunks :: "universal_chunk list" where
  "two_uchunks = [sample_uchunk,
     sample_uchunk\<lparr>uc_concept := COMMENT, uc_name := ''c'', uc_content := ''# a'', uc_start_line := 2, uc_end_line := 2\<rparr>]"

lemma two_uchunks_ok:
  "cfg_tight small_config" "cfg_ok small_config" "\<forall>c\<in>set two_uchunks. uc_start_line c \<le> uc_end_line c"
  by (simp_all add: cfg_tight_def cfg_ok_def small_config_def two_uchunks_def sample_uchunk_def)

definition sample_hash :: "nat list \<Rightarrow> int" where
  "sample_hash bs = int (length bs)"


theorem apply_cast_keeps_text_witness:
  "\<exists>out (ps :: universal_chunk list). apply_cast_algorithm sample_hash small_config ''vue'' two_uchunks = Some out
     \<and> concat (map (nonws \<circ> uc_content) ps) = ''aaaa;bbbb;cccc;dddd''
     \<and> (\<forall>p\<in>set ps. \<exists>r\<in>set out. str_contains (uc_content r) (py_strip (uc_content p)))"
proof -
  have "list_all valid_lines (dedup_universal sample_hash two_uchunks ''vue'')"
    using two_uchunks_ok(3) dedup_universal_subset [of sample_hash two_uchunks "''vue''"]
    by (auto simp: list_all_iff valid_lines_def)
  then obtain out where out: "apply_cast_algorithm sample_hash small_config ''vue'' two_uchunks = Some out"
    using apply_cast_total [OF two_uchunks_ok(2)] by blast
  have "preserve_duplicates (Some (LStr ''vue''))" by code_simp
  then have "sample_uchunk \<in> set (dedup_universal sample_hash two_uchunks ''vue'')"
    by (simp add: dedup_universal_def deduplicate_chunks_def two_uchunks_def)
  from apply_cast_keeps_text [OF two_uchunks_ok(2,3) out this]
  obtain ps :: "universal_chunk list" where
    ps: "concat (map (nonws \<circ> uc_content) ps) = nonws (uc_content sample_uchunk)"
    "\<forall>p\<in>set ps. \<exists>r\<in>set out. str_contains (uc_content r) (py_strip (uc_content p))" by blast
  have "nonws (uc_content sample_uchunk) = ''aaaa;bbbb;cccc;dddd''" by code_simp
  with ps(1) have "concat (map (nonws \<circ> uc_content) ps) = ''aaaa;bbbb;cccc;dddd''" by (simp only:)
  with out ps(2) show ?thesis by blast
qed

text \<open>
  Merging a group takes the last line of the chunk that starts last.  A block that another one
  contains adds no text but moves the end up: lines 4 to 9 of the merged chunk are in its text and
  not in its range.
\<close>

definition outer_block :: universal_chunk where
  "outer_block = sample_uchunk\<lparr>uc_content := ''if a:'' @ [nl] @ ''f()'' @ [nl] @ ''g()'', uc_start_line := 1, uc_end_line := 9\<rparr>"

definition inner_block :: universal_chunk where
  "inner_block = sample_uchunk\<lparr>uc_content := ''f()'', uc_start_line := 3, uc_end_line := 3\<rparr>"

theorem merged_block_loses_lines:
  "map (\<lambda>m. (uc_content m, uc_start_line m, uc_end_line m))
     (merge_chunk_group default_cast_config [outer_block, inner_block]) = [(uc_content outer_block, 1, 3)]"
  by code_simp

end
