(* ===== verification/Parse_Content.thy ===== *)
theory Parse_Content
  imports Cast_Parser
begin

text \<open>
  The entry points of \<open>parsers/universal_parser.py\<close> around the chunking algorithm: reading and
  normalising a file, the choice between syntax tree, PDF, Lark and plain text, paragraphs of plain
  text, embedded SQL, and the conversion of universal chunks to \<open>Chunk\<close> objects with their types
  and byte offsets.

  \<open>parse_env\<close> holds the code that is outside the model: the sanitiser of the language mapping, the
  engine with the concept extractor, the SQL detector, the PDF and Lark parsers and the hash.
\<close>

subsection \<open>The type of a chunk\<close>

definition hint_map :: "(string, ChunkType) pydict" where
  "hint_map = [(''table'', CT_TABLE), (''key_value'', CT_KEY_VALUE), (''array'', CT_ARRAY), (''object'', CT_OBJECT),
     (''function'', CT_FUNCTION), (''class'', CT_CLASS), (''method'', CT_METHOD), (''block'', CT_BLOCK),
     (''comment'', CT_COMMENT), (''namespace'', CT_NAMESPACE), (''embedded_sql'', CT_EMBEDDED_SQL),
     (''import'', CT_IMPORT)]"

text \<open>\<open>metadata.get(key, "").lower()\<close>.\<close>

definition get_lower :: "(string \<times> pyval) list \<Rightarrow> string \<Rightarrow> string result" where
  "get_lower md k =
     (case map_of md k of
        None \<Rightarrow> Inr []
      | Some (PyStr s) \<Rightarrow> Inr (py_lower s)
      | Some _ \<Rightarrow> Inl AttributeError)"

definition definition_chunk_type :: "string \<Rightarrow> string \<Rightarrow> ChunkType" where
  "definition_chunk_type kind node_type =
     (if kind \<in> {''table'', ''alter_table'', ''view'', ''drop_table'', ''drop_view''} then CT_TABLE
      else if kind \<in> {''trigger'', ''index'', ''drop_index'', ''drop_function''} then CT_BLOCK
      else if kind = ''function'' \<or> str_contains node_type ''function'' then CT_FUNCTION
      else if kind = ''class'' \<or> str_contains node_type ''class'' then CT_CLASS
      else if kind = ''method'' \<or> str_contains node_type ''method'' then CT_METHOD
      else if kind \<in> {''constructor'', ''initializer''} \<or> str_contains node_type ''constructor'' then CT_CONSTRUCTOR
      else if kind = ''struct'' \<or> str_contains node_type ''struct'' then CT_CLASS
      else if kind = ''enum'' \<or> str_contains node_type ''enum'' then CT_ENUM
      else if kind = ''interface'' \<or> str_contains node_type ''interface'' then CT_INTERFACE
      else if kind = ''trait'' \<or> str_contains node_type ''trait'' then CT_TRAIT
      else if kind = ''program'' then CT_PROGRAM
      else if kind = ''function_block'' then CT_FUNCTION_BLOCK
      else if kind = ''action'' then CT_ACTION
      else if kind = ''namespace'' \<or> str_contains node_type ''namespace'' then CT_NAMESPACE
      else if kind = ''property'' \<or> str_contains node_type ''property'' then CT_PROPERTY
      else if kind = ''field'' \<or> str_contains node_type ''field'' then CT_FIELD
      else if kind \<in> {''variable'', ''loop_variable'', ''constant'', ''const'', ''define''}
              \<or> str_contains node_type ''variable'' then CT_VARIABLE
      else if kind \<in> {''type_alias'', ''typedef''} \<or> str_contains node_type ''type_alias'' then CT_TYPE_ALIAS
      else if kind = ''type'' \<or> node_type = ''type'' then CT_TYPE
      else if kind = ''macro'' \<or> str_contains node_type ''macro'' then CT_MACRO
      else if kind = ''mapping_pair'' then CT_KEY_VALUE
      else if kind = ''sequence_item'' then CT_ARRAY
      else CT_FUNCTION)"

definition map_concept_to_chunk_type ::
  "universal_concept \<Rightarrow> (string \<times> pyval) list \<Rightarrow> ChunkType result" where
  "map_concept_to_chunk_type concept metadata =
     bind_result (get_lower metadata ''chunk_type_hint'') (\<lambda>hint.
       case (if hint = [] then None else dict_get hint_map hint) of
         Some t \<Rightarrow> Inr t
       | None \<Rightarrow>
           (case concept of
              DEFINITION \<Rightarrow>
                bind_result (get_lower metadata ''kind'') (\<lambda>kind.
                bind_result (get_lower metadata ''node_type'') (\<lambda>node_type.
                  Inr (definition_chunk_type kind node_type)))
            | BLOCK \<Rightarrow> Inr CT_BLOCK
            | COMMENT \<Rightarrow> Inr CT_COMMENT
            | IMPORT \<Rightarrow> Inr CT_IMPORT
            | STRUCTURE \<Rightarrow> Inr CT_NAMESPACE))"

subsection \<open>Conversion\<close>

definition byte_range :: "string \<Rightarrow> universal_chunk \<Rightarrow> int option \<times> int option" where
  "byte_range content uc =
     (if content = [] then (None, None)
      else let lines_before = py_take (uc_start_line uc - 1) (split_on nl content);
               start_byte = sum_list (map (\<lambda>l. int (length l) + 1) lines_before)
           in (Some start_byte, Some (start_byte + int (length (utf8 (uc_content uc))))))"

definition convert_to_chunk ::
  "string \<Rightarrow> string \<Rightarrow> string option \<Rightarrow> int option \<Rightarrow> universal_chunk \<Rightarrow> chunk result" where
  "convert_to_chunk language_name content file_path file_id uc =
     bind_result (map_concept_to_chunk_type (uc_concept uc) (uc_metadata uc)) (\<lambda>chunk_type.
       let (start_byte, end_byte) = byte_range content uc
       in mk_chunk \<lparr>c_symbol = Some (uc_name uc), c_start_line = uc_start_line uc, c_end_line = uc_end_line uc,
            c_code = uc_content uc, c_chunk_type = chunk_type,
            c_file_id = (case file_id of None \<Rightarrow> 0 | Some i \<Rightarrow> i),
            c_language = language_from_string language_name, c_id = None, c_file_path = file_path,
            c_parent_header = None, c_start_byte = start_byte, c_end_byte = end_byte, c_created_at = None,
            c_updated_at = None, c_metadata = Some (uc_metadata uc)\<rparr>)"

definition convert_to_chunks ::
  "string \<Rightarrow> string \<Rightarrow> string option \<Rightarrow> int option \<Rightarrow> universal_chunk list \<Rightarrow> chunk list result" where
  "convert_to_chunks language_name content file_path file_id ucs =
     map_result (convert_to_chunk language_name content file_path file_id) ucs"

definition normalize_universal :: "universal_chunk list \<Rightarrow> universal_chunk list" where
  "normalize_universal ucs =
     filter (\<lambda>c. uc_content c \<noteq> []) (map (\<lambda>c. c\<lparr>uc_content := normalize_content (uc_content c)\<rparr>) ucs)"

definition apply_cast_and_convert ::
  "(nat list \<Rightarrow> int) \<Rightarrow> cast_config \<Rightarrow> string \<Rightarrow> universal_chunk list \<Rightarrow> string \<Rightarrow> string option \<Rightarrow> int option \<Rightarrow>
     chunk list result option" where
  "apply_cast_and_convert xxh cfg language_name universal_chunks content file_path file_id =
     map_option (convert_to_chunks language_name content file_path file_id)
       (apply_cast_algorithm xxh cfg language_name (normalize_universal universal_chunks))"

subsection \<open>Plain text\<close>

text \<open>The paragraphs of the text with their first and last lines.\<close>

fun paragraphs :: "string list \<Rightarrow> int \<Rightarrow> int \<Rightarrow> string list \<Rightarrow> (string list \<times> int \<times> int) list" where
  "paragraphs current start_line line_num [] =
     (if current \<noteq> [] then [(current, start_line, line_num - 1)] else [])"
| "paragraphs current start_line line_num (l # ls) =
     (if py_strip l \<noteq> []
      then paragraphs (current @ [l]) (if current = [] then line_num else start_line) (line_num + 1) ls
      else (if current \<noteq> [] then [(current, start_line, line_num - 1)] else [])
             @ paragraphs [] start_line (line_num + 1) ls)"

definition paragraph_name :: "int \<Rightarrow> string" where
  "paragraph_name start_line = ''paragraph_'' @ str_int start_line"

fun paragraph_chunks ::
  "cast_config \<Rightarrow> string option \<Rightarrow> int option \<Rightarrow> (string list \<times> int \<times> int) list \<Rightarrow> chunk list result option" where
  "paragraph_chunks cfg file_path file_id [] = Some (Inr [])"
| "paragraph_chunks cfg file_path file_id ((ls, start_line, end_line) # ps) =
     (let paragraph_content = join_with [nl] ls in
      if non_whitespace_chars (metrics_from_content paragraph_content) \<ge> min_chunk_size cfg
      then
        Option.bind (validate_and_convert_text cfg paragraph_content (paragraph_name start_line) start_line end_line
                       file_path file_id L_TEXT) (\<lambda>r.
          case r of
            Inl e \<Rightarrow> Some (Inl e)
          | Inr cs \<Rightarrow> map_option (\<lambda>rest. bind_result rest (\<lambda>xs. Inr (cs @ xs)))
                        (paragraph_chunks cfg file_path file_id ps))
      else paragraph_chunks cfg file_path file_id ps)"

definition parse_text_content ::
  "cast_config \<Rightarrow> string \<Rightarrow> string option \<Rightarrow> int option \<Rightarrow> chunk list result option" where
  "parse_text_content cfg content file_path file_id =
     paragraph_chunks cfg file_path file_id (paragraphs [] 1 1 (split_on nl content))"

subsection \<open>Parsing content and files\<close>

datatype parser_kind = Tree_Sitter | Pdf | Lark | Plain_Text

text \<open>
  \<open>pe_concepts source content\<close> are the concepts extracted from the tree of the sanitised source with
  the text of the content; \<open>pe_sql\<close> is \<open>None\<close> when no detector is configured; \<open>pe_pdf\<close> is \<open>None\<close> when
  the mapping has no PDF method.
\<close>

record parse_env =
  pe_xxh :: "nat list \<Rightarrow> int"
  pe_preprocess :: "string \<Rightarrow> string"
  pe_concepts :: "string \<Rightarrow> string \<Rightarrow> universal_chunk list"
  pe_sql :: "(string \<Rightarrow> universal_chunk list) option"
  pe_pdf :: "(string \<Rightarrow> chunk list result) option"
  pe_lark :: "string \<Rightarrow> universal_chunk list"

record universal_parser =
  up_kind :: parser_kind
  up_config :: cast_config
  up_language :: string
  up_total_files_parsed :: nat
  up_total_chunks_created :: nat

definition count_parsed :: "universal_parser \<Rightarrow> chunk list \<Rightarrow> universal_parser" where
  "count_parsed p chunks = p\<lparr>up_total_files_parsed := up_total_files_parsed p + 1,
     up_total_chunks_created := up_total_chunks_created p + length chunks\<rparr>"

definition counted :: "universal_parser \<Rightarrow> chunk list result \<Rightarrow> universal_parser \<times> chunk list result" where
  "counted p r = (case r of Inl e \<Rightarrow> (p, Inl e) | Inr chunks \<Rightarrow> (count_parsed p chunks, Inr chunks))"

definition ast_source_of :: "parse_env \<Rightarrow> string \<Rightarrow> string" where
  "ast_source_of env content =
     (let ast_source = pe_preprocess env content
      in if length (utf8 ast_source) \<noteq> length (utf8 content) then content else ast_source)"

definition detect_embedded_sql ::
  "parse_env \<Rightarrow> universal_parser \<Rightarrow> string \<Rightarrow> string \<Rightarrow> string option \<Rightarrow> int option \<Rightarrow> chunk list result option" where
  "detect_embedded_sql env p ast_source content file_path file_id =
     (case pe_sql env of
        None \<Rightarrow> Some (Inr [])
      | Some detect \<Rightarrow>
          (if detect ast_source = [] then Some (Inr [])
           else map_option (convert_to_chunks (up_language p) content file_path file_id)
                  (split_all (up_config p) (dedup_universal (pe_xxh env) (detect ast_source) (up_language p)))))"

definition parse_content ::
  "parse_env \<Rightarrow> universal_parser \<Rightarrow> string \<Rightarrow> string option \<Rightarrow> int option \<Rightarrow>
     (universal_parser \<times> chunk list result) option" where
  "parse_content env p content file_path file_id =
     (if py_strip content = [] then Some (p, Inr [])
      else case up_kind p of
        Pdf \<Rightarrow> Some (p, case pe_pdf env of Some parse \<Rightarrow> parse content | None \<Rightarrow> Inl RuntimeError)
      | Lark \<Rightarrow>
          map_option (counted p)
            (apply_cast_and_convert (pe_xxh env) (up_config p) (up_language p) (pe_lark env content) content
               file_path file_id)
      | Plain_Text \<Rightarrow> map_option (counted p) (parse_text_content (up_config p) content file_path file_id)
      | Tree_Sitter \<Rightarrow>
          (let ast_source = ast_source_of env content in
           Option.bind (apply_cast_and_convert (pe_xxh env) (up_config p) (up_language p)
                          (pe_concepts env ast_source content) content file_path file_id) (\<lambda>r.
             case r of
               Inl e \<Rightarrow> Some (p, Inl e)
             | Inr chunks \<Rightarrow>
                 map_option (\<lambda>sql. counted p (bind_result sql (\<lambda>more. Inr (chunks @ more))))
                   (detect_embedded_sql env p ast_source content file_path file_id))))"

text \<open>A file as \<open>parse_file\<close> sees it; Latin-1 decodes every byte string, so the other fall-backs are not reached.\<close>

record source_text =
  st_exists :: bool
  st_suffix :: string
  st_utf8 :: "string option"
  st_latin1 :: string

definition unnormalized_suffixes :: "string list" where
  "unnormalized_suffixes = [''.pdf'', ''.png'', ''.jpg'', ''.gif'', ''.zip'', ''.eml'', ''.http'']"

definition parse_file ::
  "parse_env \<Rightarrow> universal_parser \<Rightarrow> source_text \<Rightarrow> string \<Rightarrow> int \<Rightarrow> (universal_parser \<times> chunk list result) option" where
  "parse_file env p src file_path file_id =
     (if \<not> st_exists src then Some (p, Inl FileNotFoundError)
      else if py_lower (st_suffix src) = ''.pdf''
      then Some (p, case pe_pdf env of Some parse \<Rightarrow> parse (st_latin1 src) | None \<Rightarrow> Inl RuntimeError)
      else
        let content = (case st_utf8 src of Some s \<Rightarrow> s | None \<Rightarrow> st_latin1 src)
        in parse_content env p
             (if py_lower (st_suffix src) \<in> set unnormalized_suffixes then content else normalize_content content)
             (Some file_path) (Some file_id))"

text \<open>\<open>parse_with_result\<close> turns every exception into an empty result with an error message.\<close>

record parse_result =
  pr_chunks :: "chunk list"
  pr_errors :: "pyerror list"

definition parse_with_result ::
  "parse_env \<Rightarrow> universal_parser \<Rightarrow> source_text \<Rightarrow> string \<Rightarrow> int \<Rightarrow> (universal_parser \<times> parse_result) option" where
  "parse_with_result env p src file_path file_id =
     map_option (\<lambda>(p', r). (p', case r of
         Inl e \<Rightarrow> \<lparr>pr_chunks = [], pr_errors = [e]\<rparr>
       | Inr chunks \<Rightarrow> \<lparr>pr_chunks = chunks, pr_errors = []\<rparr>))
       (parse_file env p src file_path file_id)"

subsection \<open>Well-typed universal chunks\<close>

text \<open>
  What an extractor has to deliver: line numbers from 1, text, and strings under the three metadata
  keys that decide the type.  The algorithm keeps it.
\<close>

definition string_or_absent :: "pyval option \<Rightarrow> bool" where
  "string_or_absent v \<longleftrightarrow> (case v of None \<Rightarrow> True | Some (PyStr s) \<Rightarrow> True | Some _ \<Rightarrow> False)"

definition typed_metadata :: "(string \<times> pyval) list \<Rightarrow> bool" where
  "typed_metadata md \<longleftrightarrow> string_or_absent (map_of md ''chunk_type_hint'')
     \<and> string_or_absent (map_of md ''kind'') \<and> string_or_absent (map_of md ''node_type'')"

definition typed_chunk :: "universal_chunk \<Rightarrow> bool" where
  "typed_chunk c \<longleftrightarrow> 1 \<le> uc_start_line c \<and> uc_content c \<noteq> [] \<and> typed_metadata (uc_metadata c)"

lemma get_lower_total: "string_or_absent (map_of md k) \<Longrightarrow> \<exists>s. get_lower md k = Inr s"
  by (auto simp: string_or_absent_def get_lower_def split: option.splits pyval.splits)

lemma map_concept_total: "typed_metadata md \<Longrightarrow> \<exists>t. map_concept_to_chunk_type k md = Inr t"
  using get_lower_total [of md "''chunk_type_hint''"] get_lower_total [of md "''kind''"]
    get_lower_total [of md "''node_type''"]
  by (auto simp: typed_metadata_def map_concept_to_chunk_type_def split: option.split universal_concept.split)

lemma split_typed:
  assumes "cfg_lines cfg" "typed_chunk c" "valid_lines c" "validate_and_split cfg c = Some ps"
  shows "list_all typed_chunk ps"
proof -
  have "splits_into cfg c ps"
    using validate_and_split_correct [of cfg c] assms by (auto simp: cfg_lines_def valid_lines_def)
  moreover have "\<forall>p\<in>set ps. uc_content p \<noteq> []"
    using assms recursive_split_nonempty [of cfg c ps]
    by (auto simp: validate_and_split_def typed_chunk_def valid_lines_def split: if_splits)
  ultimately show ?thesis
    using assms(2) by (auto simp: list_all_iff typed_chunk_def splits_into_def part_of_def)
qed

lemma split_all_typed:
  assumes "cfg_lines cfg"
  shows "list_all typed_chunk cs \<Longrightarrow> list_all valid_lines cs \<Longrightarrow> split_all cfg cs = Some out \<Longrightarrow> list_all typed_chunk out"
proof (induction cs arbitrary: out)
  case (Cons c cs)
  then obtain ps rest where "validate_and_split cfg c = Some ps" "split_all cfg cs = Some rest" "out = ps @ rest"
    by (auto simp: bind_eq_Some_conv)
  with Cons split_typed [OF assms, of c ps] show ?case by simp
qed simp

lemma foldl_add_content_not_Nil: "s \<noteq> [] \<Longrightarrow> foldl (\<lambda>s c. add_content s (f c)) s cs \<noteq> []"
  by (induction cs arbitrary: s) (auto simp: add_content_def)

lemma merge_chunk_group_typed:
  assumes "list_all typed_chunk g"
  shows "list_all typed_chunk (merge_chunk_group cfg g)"
proof (cases "merge_chunk_group cfg g = g")
  case False
  let ?s = "sort_key uc_start_line g"
  have "g \<noteq> []" using False by (auto simp: merge_chunk_group_def)
  then have "?s \<noteq> []" by (metis length_0_conv length_sort)
  then have "hd ?s \<in> set g" by (metis hd_in_set set_sort)
  then have t: "typed_chunk (hd ?s)" using assms by (simp add: list_all_iff)
  obtain m where m: "merge_chunk_group cfg g = [m]" "uc_start_line m = uc_start_line (hd ?s)"
    "uc_content m = foldl (\<lambda>s c. add_content s (uc_content c)) (uc_content (hd ?s)) (tl ?s)"
    "uc_metadata m = dict_set ''chunk_count'' (PyInt (int (length ?s)))
       (dict_set ''merged_from'' (PyList (map PyStr (map uc_name ?s))) (uc_metadata (hd ?s)))"
    using False by (auto simp: merge_chunk_group_def Let_def split: if_splits)
  have "typed_metadata (uc_metadata m)" using t by (simp add: m(4) typed_metadata_def typed_chunk_def)
  moreover have "uc_content m \<noteq> []"
    unfolding m(3) using t by (intro foldl_add_content_not_Nil) (simp add: typed_chunk_def)
  ultimately show ?thesis using m(1,2) t by (simp add: typed_chunk_def)
qed (use assms in simp)

lemma merge_runs_typed:
  assumes "list_all typed_chunk cs"
  shows "list_all typed_chunk (merge_runs cfg ok cs)"
proof (cases "sort_key uc_start_line cs")
  case (Cons c rest)
  have "set (c # rest) = set cs" using Cons by (metis set_sort)
  then have "list_all typed_chunk (concat (group_chunks ok [c] rest))"
    using assms by (simp add: group_chunks_concat list_all_iff del: list.set)
  then have "\<forall>g\<in>set (group_chunks ok [c] rest). list_all typed_chunk g" by (auto simp: list_all_iff)
  then have "\<forall>g\<in>set (group_chunks ok [c] rest). list_all typed_chunk (merge_chunk_group cfg g)"
    using merge_chunk_group_typed by blast
  then show ?thesis by (auto simp: merge_runs_def Cons list_all_iff)
qed (simp add: merge_runs_def)

lemma merge_runs_valid: "list_all valid_lines cs \<Longrightarrow> list_all valid_lines (merge_runs cfg ok cs)"
  using merge_runs_cases [of _ cfg ok cs] by (auto simp: list_all_iff)

lemma chunk_concept_typed:
  assumes "cfg_lines cfg" "list_all typed_chunk cs" "list_all valid_lines cs" "chunk_concept cfg (k, cs) = Some out"
  shows "list_all typed_chunk out"
  using split_all_typed [OF assms(1) merge_runs_typed [OF assms(2)] merge_runs_valid [OF assms(3)]]
    split_all_typed [OF assms(1-3)] assms(4)
  by (cases k) (auto simp: chunk_concept_def chunk_definitions_def chunk_blocks_def chunk_comments_def)

lemma chunk_concepts_typed:
  assumes "cfg_lines cfg"
  shows "\<forall>(k, cs)\<in>set d. list_all typed_chunk cs \<and> list_all valid_lines cs \<Longrightarrow> chunk_concepts cfg d = Some out \<Longrightarrow>
    list_all typed_chunk out"
proof (induction d arbitrary: out)
  case (Cons e d)
  obtain k cs where e: "e = (k, cs)" by fastforce
  with Cons.prems(2) obtain a b where "chunk_concept cfg (k, cs) = Some a" "chunk_concepts cfg d = Some b" "out = a @ b"
    by (auto simp: bind_eq_Some_conv)
  with Cons e chunk_concept_typed [OF assms, of cs k a] show ?case by simp
qed simp

lemma try_merge_typed:
  "typed_chunk a \<Longrightarrow> typed_chunk b \<Longrightarrow> try_merge cfg a b = Some m \<Longrightarrow> typed_chunk m"
  by (auto simp: try_merge_def Let_def typed_chunk_def add_content_def split: if_splits)

lemma greedy_loop_typed: "list_all typed_chunk (c # cs) \<Longrightarrow> list_all typed_chunk (greedy_loop cfg c cs)"
  by (induction cfg c cs rule: greedy_loop.induct) (auto split: option.split dest: try_merge_typed)

lemma greedy_merge_pass_typed: "list_all typed_chunk cs \<Longrightarrow> list_all typed_chunk (greedy_merge_pass cfg cs)"
proof (cases "sort_key uc_start_line cs")
  case (Cons c rest)
  moreover assume "list_all typed_chunk cs"
  moreover have "set (c # rest) = set cs" using Cons by (metis set_sort)
  ultimately have "list_all typed_chunk (c # rest)" by (simp add: list_all_iff del: list.set)
  then show ?thesis using greedy_loop_typed \<open>list_all typed_chunk cs\<close> by (simp add: greedy_merge_pass_def Cons)
qed (simp add: greedy_merge_pass_def)

lemma apply_cast_typed:
  assumes "cfg_lines cfg" "list_all typed_chunk cs" "list_all valid_lines cs"
  shows "\<exists>out. apply_cast_algorithm xxh cfg lang cs = Some out \<and> list_all typed_chunk out \<and> list_all valid_lines out"
proof -
  let ?u = "dedup_universal xxh cs lang"
  have u: "list_all typed_chunk ?u" "list_all valid_lines ?u"
    using assms dedup_universal_subset [of xxh cs lang] by (auto simp: list_all_iff)
  have ok: "cfg_ok cfg" using assms(1) by (simp add: cfg_lines_def)
  from apply_cast_total [OF ok u(2)] obtain out
    where out: "apply_cast_algorithm xxh cfg lang cs = Some out" "good_chunks cfg out" by blast
  have "\<forall>(k, cs)\<in>set (group_by_concept ?u). list_all typed_chunk cs \<and> list_all valid_lines cs"
    using u set_group_by_concept [of ?u] unfolding list_all_iff by fastforce
  then have "list_all typed_chunk out"
    using out(1) chunk_concepts_typed [OF assms(1)] greedy_merge_pass_typed
    by (auto simp: apply_cast_algorithm_def split: if_splits)
  with out show ?thesis by (auto simp: good_chunks_def)
qed

subsection \<open>Conversion is total on well-typed chunks\<close>

definition chunk_of :: "string \<Rightarrow> string option \<Rightarrow> int option \<Rightarrow> universal_chunk \<Rightarrow> chunk \<Rightarrow> bool" where
  "chunk_of language_name file_path file_id uc c \<longleftrightarrow>
     chunk_ok c \<and> c_code c = uc_content uc \<and> c_start_line c = uc_start_line uc \<and> c_end_line c = uc_end_line uc
       \<and> c_language c = language_from_string language_name \<and> c_file_path c = file_path
       \<and> c_file_id c = (case file_id of None \<Rightarrow> 0 | Some i \<Rightarrow> i) \<and> c_metadata c = Some (uc_metadata uc)"

lemma byte_range_ok: "\<not> opt_neg (fst (byte_range s uc)) \<and> \<not> opt_neg (snd (byte_range s uc))
  \<and> \<not> opt_gt (fst (byte_range s uc)) (snd (byte_range s uc))"
proof -
  have "0 \<le> sum_list (map (\<lambda>l. int (length l) + 1) (py_take (uc_start_line uc - 1) (split_on nl s)))"
    by (rule sum_list_nonneg) auto
  then show ?thesis by (auto simp: byte_range_def opt_neg_def opt_gt_def Let_def not_less)
qed

lemma convert_to_chunk_typed:
  assumes "typed_chunk uc" "valid_lines uc"
  shows "\<exists>c. convert_to_chunk lang s fp fid uc = Inr c \<and> chunk_of lang fp fid uc c"
proof -
  obtain t where t: "map_concept_to_chunk_type (uc_concept uc) (uc_metadata uc) = Inr t"
    using map_concept_total assms(1) by (auto simp: typed_chunk_def)
  obtain a b where ab: "byte_range s uc = (a, b)" by fastforce
  then have "\<not> opt_neg a" "\<not> opt_neg b" "\<not> opt_gt a b" using byte_range_ok [of s uc] by simp_all
  with assms t ab show ?thesis
    by (simp add: convert_to_chunk_def mk_chunk_def chunk_of_def chunk_ok_def typed_chunk_def valid_lines_def)
qed

lemma map_result_total:
  "(\<And>x. x \<in> set xs \<Longrightarrow> \<exists>y. f x = Inr y \<and> P x y) \<Longrightarrow> \<exists>ys. map_result f xs = Inr ys \<and> list_all2 P xs ys"
  by (induction xs) fastforce+

lemma convert_to_chunks_typed:
  assumes "list_all typed_chunk ucs" "list_all valid_lines ucs"
  shows "\<exists>cs. convert_to_chunks lang s fp fid ucs = Inr cs \<and> list_all2 (chunk_of lang fp fid) ucs cs"
  unfolding convert_to_chunks_def
  by (rule map_result_total) (use assms convert_to_chunk_typed in \<open>auto simp: list_all_iff\<close>)

text \<open>What a syntax-tree extractor delivers; its texts may be empty, they are dropped.\<close>

definition extracted_ok :: "universal_chunk \<Rightarrow> bool" where
  "extracted_ok c \<longleftrightarrow> 1 \<le> uc_start_line c \<and> uc_start_line c \<le> uc_end_line c \<and> typed_metadata (uc_metadata c)"

lemma normalize_universal_typed:
  "list_all extracted_ok cs \<Longrightarrow> list_all typed_chunk (normalize_universal cs) \<and> list_all valid_lines (normalize_universal cs)"
  by (auto simp: list_all_iff normalize_universal_def extracted_ok_def typed_chunk_def valid_lines_def)

definition made_for :: "universal_parser \<Rightarrow> string option \<Rightarrow> int option \<Rightarrow> chunk \<Rightarrow> bool" where
  "made_for p fp fid c \<longleftrightarrow> chunk_ok c \<and> c_language c = language_from_string (up_language p) \<and> c_file_path c = fp
     \<and> c_file_id c = (case fid of None \<Rightarrow> 0 | Some i \<Rightarrow> i)"

lemma chunks_made_for: "list_all2 (chunk_of (up_language p) fp fid) ucs cs \<Longrightarrow> list_all (made_for p fp fid) cs"
  by (induction rule: list_all2_induct) (auto simp: chunk_of_def made_for_def)

lemma convert_made_for:
  assumes "list_all typed_chunk ucs" "list_all valid_lines ucs"
  shows "\<exists>cs. convert_to_chunks (up_language p) s fp fid ucs = Inr cs \<and> list_all (made_for p fp fid) cs"
  using convert_to_chunks_typed [OF assms] chunks_made_for by blast

lemma apply_cast_and_convert_typed:
  assumes "cfg_lines cfg" "list_all extracted_ok ucs"
  shows "\<exists>cs. apply_cast_and_convert xxh cfg (up_language p) ucs s fp fid = Some (Inr cs) \<and> list_all (made_for p fp fid) cs"
proof -
  from normalize_universal_typed [OF assms(2)] apply_cast_typed [OF assms(1), of "normalize_universal ucs" xxh "up_language p"]
  obtain out where "apply_cast_algorithm xxh cfg (up_language p) (normalize_universal ucs) = Some out"
    "list_all typed_chunk out" "list_all valid_lines out" by blast
  with convert_made_for [of out p s fp fid] show ?thesis by (auto simp: apply_cast_and_convert_def)
qed

lemma split_all_valid:
  "cfg_lines cfg \<Longrightarrow> list_all typed_chunk cs \<Longrightarrow> list_all valid_lines cs \<Longrightarrow>
     \<exists>out. split_all cfg cs = Some out \<and> list_all typed_chunk out \<and> list_all valid_lines out"
  using split_all_total [of cfg cs] split_all_typed [of cfg cs] by (fastforce simp: cfg_lines_def good_chunks_def)


definition extractor_ok :: "parse_env \<Rightarrow> string \<Rightarrow> bool" where
  "extractor_ok env content \<longleftrightarrow>
     (let ast_source = ast_source_of env content
      in list_all extracted_ok (pe_concepts env ast_source content)
         \<and> (case pe_sql env of
              None \<Rightarrow> True
            | Some detect \<Rightarrow> list_all (\<lambda>c. extracted_ok c \<and> uc_content c \<noteq> []) (detect ast_source)))"

lemma detect_embedded_sql_typed:
  assumes "cfg_lines (up_config p)" "extractor_ok env content"
  shows "\<exists>cs. detect_embedded_sql env p (ast_source_of env content) content fp fid = Some (Inr cs) \<and> list_all (made_for p fp fid) cs"
proof (cases "pe_sql env")
  case (Some detect)
  let ?d = "detect (ast_source_of env content)"
  let ?u = "dedup_universal (pe_xxh env) ?d (up_language p)"
  have "list_all (\<lambda>c. extracted_ok c \<and> uc_content c \<noteq> []) ?d" using assms(2) Some by (simp add: extractor_ok_def Let_def)
  then have "list_all typed_chunk ?u" "list_all valid_lines ?u"
    using dedup_universal_subset [of "pe_xxh env" ?d "up_language p"]
    by (auto simp: list_all_iff extracted_ok_def typed_chunk_def valid_lines_def)
  from split_all_valid [OF assms(1) this] obtain out
    where "split_all (up_config p) ?u = Some out" "list_all typed_chunk out" "list_all valid_lines out" by blast
  with Some convert_made_for [of out p content fp fid] show ?thesis by (auto simp: detect_embedded_sql_def)
qed (simp add: detect_embedded_sql_def)

text \<open>
  C15: parsing is well typed.  When the extractor delivers lines from 1 in order and strings under the
  metadata keys that decide the type, no parse raises and none runs forever, whatever the content, the
  merging and the splitting: each chunk it returns satisfies the invariant of \<open>Chunk\<close> (text, lines
  and byte offsets in order, a name that is not blank), has the parser's language and belongs to
  the file of the call, and the statistics count it.
\<close>

theorem parse_content_typed:
  assumes "up_kind p = Tree_Sitter" "cfg_lines (up_config p)" "extractor_ok env content"
  shows "\<exists>p' chunks. parse_content env p content fp fid = Some (p', Inr chunks)
    \<and> list_all (made_for p fp fid) chunks
    \<and> up_total_chunks_created p' = up_total_chunks_created p + length chunks"
proof (cases "py_strip content = []")
  case False
  have "list_all extracted_ok (pe_concepts env (ast_source_of env content) content)"
    using assms(3) by (simp add: extractor_ok_def Let_def)
  from apply_cast_and_convert_typed [OF assms(2) this] obtain cs
    where "apply_cast_and_convert (pe_xxh env) (up_config p) (up_language p)
      (pe_concepts env (ast_source_of env content) content) content fp fid = Some (Inr cs)"
      "list_all (made_for p fp fid) cs" by blast
  moreover from detect_embedded_sql_typed [OF assms(2,3)] obtain qs
    where "detect_embedded_sql env p (ast_source_of env content) content fp fid = Some (Inr qs)"
      "list_all (made_for p fp fid) qs" by blast
  ultimately show ?thesis using False assms(1)
    by (simp add: parse_content_def Let_def counted_def count_parsed_def)
qed (simp add: parse_content_def)

definition sample_env :: parse_env where
  "sample_env = \<lparr>pe_xxh = (\<lambda>bs. int (length bs)), pe_preprocess = (\<lambda>s. s), pe_concepts = (\<lambda>s t. two_uchunks),
     pe_sql = Some (\<lambda>s. [sample_uchunk\<lparr>uc_metadata := [(''kind'', PyStr ''table'')]\<rparr>]), pe_pdf = None,
     pe_lark = (\<lambda>s. [])\<rparr>"

definition sample_parser :: universal_parser where
  "sample_parser = \<lparr>up_kind = Tree_Sitter, up_config = default_cast_config, up_language = ''vue'',
     up_total_files_parsed = 0, up_total_chunks_created = 0\<rparr>"

theorem parse_content_typed_witness:
  "\<exists>p' chunks. parse_content sample_env sample_parser ''x = 1'' (Some ''a.vue'') (Some 7) = Some (p', Inr chunks)
    \<and> list_all (\<lambda>c. chunk_ok c \<and> c_language c = L_VUE \<and> c_file_id c = 7) chunks
    \<and> up_total_chunks_created p' = length chunks"
proof -
  have "up_kind sample_parser = Tree_Sitter" "cfg_lines (up_config sample_parser)" "extractor_ok sample_env ''x = 1''"
    "language_from_string (up_language sample_parser) = L_VUE" "up_total_chunks_created sample_parser = 0"
    by code_simp+
  with parse_content_typed [OF this(1-3), of "Some ''a.vue''" "Some 7"] show ?thesis
    by (fastforce simp: made_for_def list_all_iff)
qed

subsection \<open>Paragraphs of plain text\<close>

text \<open>
  A paragraph is a longest run of lines that are not blank, with the numbers of its first and last
  line; the lines are numbered from \<open>n\<close>.
\<close>

definition spans :: "int \<Rightarrow> string list \<Rightarrow> string list \<times> int \<times> int \<Rightarrow> bool" where
  "spans n ls p \<longleftrightarrow>
     (case p of (qs, s, e) \<Rightarrow>
        \<exists>pre post. ls = pre @ qs @ post \<and> qs \<noteq> [] \<and> (\<forall>l\<in>set qs. py_strip l \<noteq> [])
          \<and> s = n + int (length pre) \<and> e = s + int (length qs) - 1
          \<and> (pre = [] \<or> py_strip (last pre) = []) \<and> (post = [] \<or> py_strip (hd post) = []))"

lemma spans_after_blank:
  assumes "spans n ls p" "py_strip l = []"
  shows "spans (n - int (length cur) - 1) (cur @ l # ls) p"
proof -
  obtain qs s e where p: "p = (qs, s, e)" by (cases p)
  with assms(1) obtain pre post where q: "ls = pre @ qs @ post" "qs \<noteq> []" "\<forall>l\<in>set qs. py_strip l \<noteq> []"
    "s = n + int (length pre)" "e = s + int (length qs) - 1" "pre = [] \<or> py_strip (last pre) = []"
    "post = [] \<or> py_strip (hd post) = []" by (auto simp: spans_def)
  show ?thesis unfolding spans_def p prod.case
    by (intro exI [of _ "cur @ l # pre"] exI [of _ post]) (use q assms(2) in auto)
qed

lemma paragraphs_spans:
  assumes "\<forall>l\<in>set cur. py_strip l \<noteq> []" "cur \<noteq> [] \<longrightarrow> st = n - int (length cur)"
  shows "list_all (spans (n - int (length cur)) (cur @ ls)) (paragraphs cur st n ls)
    \<and> concat (map fst (paragraphs cur st n ls)) = cur @ filter (\<lambda>l. py_strip l \<noteq> []) ls"
  using assms
proof (induction ls arbitrary: cur st n)
  case Nil
  have "cur \<noteq> [] \<Longrightarrow> spans (n - int (length cur)) cur (cur, st, n - 1)"
    unfolding spans_def prod.case by (intro exI [of _ "[]"]) (use Nil in auto)
  then show ?case by simp
next
  case (Cons l ls)
  show ?case
  proof (cases "py_strip l = []")
    case False
    have "(if cur = [] then n else st) = n + 1 - int (length (cur @ [l]))" using Cons.prems(2) by simp
    moreover have "n + 1 - int (length (cur @ [l])) = n - int (length cur)" by simp
    ultimately show ?thesis
      using Cons.IH [of "cur @ [l]" "if cur = [] then n else st" "n + 1"] Cons.prems False
      by (simp only: paragraphs.simps append.assoc append.simps) simp
  next
    case True
    have "list_all (spans (n + 1) ls) (paragraphs [] st (n + 1) ls)"
      "concat (map fst (paragraphs [] st (n + 1) ls)) = filter (\<lambda>l. py_strip l \<noteq> []) ls"
      using Cons.IH [of "[]" st "n + 1"] by simp_all
    moreover have "spans (n + 1) ls p \<Longrightarrow> spans (n - int (length cur)) (cur @ l # ls) p" for p
      using spans_after_blank [of "n + 1" ls p l cur] True by simp
    moreover have "cur \<noteq> [] \<Longrightarrow> spans (n - int (length cur)) (cur @ l # ls) (cur, st, n - 1)"
      unfolding spans_def prod.case by (intro exI [of _ "[]"] exI [of _ "l # ls"]) (use Cons.prems True in auto)
    ultimately show ?thesis using True by (auto simp: list_all_iff)
  qed
qed

text \<open>
  plain text is cut exactly at its blank lines: the paragraphs are, in order, all the lines that
  are not blank, each paragraph is a longest run of them, and its two numbers are those of its first
  and last line in the file.
\<close>

theorem paragraphs_exact:
  "concat (map fst (paragraphs [] 1 1 (split_on nl content))) = filter (\<lambda>l. py_strip l \<noteq> []) (split_on nl content)
    \<and> list_all (spans 1 (split_on nl content)) (paragraphs [] 1 1 (split_on nl content))"
  using paragraphs_spans [of "[]" 1 1 "split_on nl content"] by simp

text \<open>
  The first byte is the number of characters before the line, not of bytes: after a line with an
  e-acute the chunk of line 2 starts at byte 3, and \<open>start_byte\<close> is 2.
\<close>

theorem byte_offsets_count_characters:
  "byte_range [CHR 0xE9, nl, CHR ''x''] (sample_uchunk\<lparr>uc_content := ''x'', uc_start_line := 2, uc_end_line := 2\<rparr>)
     = (Some 2, Some 3) \<and> take 3 (utf8 [CHR 0xE9, nl, CHR ''x'']) = utf8 [CHR 0xE9, nl]"
  by code_simp

text \<open>
  A paragraph with less than \<open>min_chunk_size\<close> characters has no chunk at all, while code of that size
  is kept: a text file of one short line is not in the index.
\<close>

theorem short_paragraphs_dropped:
  "min_chunk_size default_cast_config = 50
     \<and> parse_text_content default_cast_config ''a note'' (Some ''n.txt'') (Some 7) = Some (Inr [])"
  by code_simp

end
