(* ===== verification/Research_Context.thy ===== *)
theory Research_Context
  imports Search_Results
begin

text \<open>
  What deep research shows a language model: \<open>services/research/shared/chunk_range.py\<close> (line ranges
  widened to functions and blocks), \<open>chunk_dedup.py\<close>, \<open>elbow_detection.py\<close> with
  \<open>exploration/elbow_filter.py\<close> (the cut in a list of scores).

  A chunk is a dictionary in the code; here it is a record with one field per key that this code
  reads or sets, \<open>None\<close> for a key that is not there.  Arguments: reading a file and the square root.
\<close>

record rchunk =
  k_chunk_id :: "hit_id option"
  k_id :: "hit_id option"
  k_file_path :: "string option"
  k_path :: "string option"
  k_start_line :: "int option"
  k_end_line :: "int option"
  k_symbol :: "string option"
  k_symbol_type :: "string option"
  k_metadata_kind :: "string option"
  k_content :: "string option"
  k_code :: "string option"
  k_text :: "string option"
  k_rerank_score :: "rat option"
  k_similarity :: "rat option"
  k_score :: "rat option"
  k_expanded_start_line :: "int option"
  k_expanded_end_line :: "int option"

definition empty_rchunk :: rchunk where
  "empty_rchunk = \<lparr>k_chunk_id = None, k_id = None, k_file_path = None, k_path = None, k_start_line = None,
     k_end_line = None, k_symbol = None, k_symbol_type = None, k_metadata_kind = None, k_content = None, k_code = None,
     k_text = None, k_rerank_score = None, k_similarity = None, k_score = None, k_expanded_start_line = None,
     k_expanded_end_line = None\<rparr>"

text \<open>\<open>a or b\<close> for optional strings, and \<open>chunk.get(key, default)\<close>.\<close>

definition str_or :: "string option \<Rightarrow> string \<Rightarrow> string" where
  "str_or s d = (case s of None \<Rightarrow> d | Some t \<Rightarrow> if t = [] then d else t)"

definition get_default :: "'a option \<Rightarrow> 'a \<Rightarrow> 'a" where
  "get_default v d = (case v of None \<Rightarrow> d | Some x \<Rightarrow> x)"

subsection \<open>Natural boundaries\<close>

definition ENABLE_SMART_BOUNDARIES :: bool where "ENABLE_SMART_BOUNDARIES = True"
definition EXTRA_CONTEXT_TOKENS :: int where "EXTRA_CONTEXT_TOKENS = 1000"
definition MAX_BOUNDARY_EXPANSION_LINES :: nat where "MAX_BOUNDARY_EXPANSION_LINES = 300"

definition complete_kinds :: "string list" where
  "complete_kinds = [''function'', ''method'', ''class'', ''interface'', ''struct'', ''enum'', ''program'', ''function_block'',
     ''action'', ''property'']"

definition chunk_kind :: "rchunk \<Rightarrow> string" where
  "chunk_kind c = str_or (k_metadata_kind c) (get_default (k_symbol_type c) [])"

definition is_python_path :: "string \<Rightarrow> bool" where
  "is_python_path p = list_ex (ends_with (py_lower p)) [''.py'', ''.pyw'']"

definition brace_extensions :: "string list" where
  "brace_extensions = [''.c'', ''.cpp'', ''.cc'', ''.cxx'', ''.h'', ''.hpp'', ''.rs'', ''.go'', ''.java'', ''.js'', ''.ts'', ''.tsx'',
     ''.jsx'', ''.cs'', ''.swift'', ''.kt'', ''.scala'']"

definition is_brace_path :: "string \<Rightarrow> bool" where
  "is_brace_path p = list_ex (ends_with (py_lower p)) brace_extensions"

text \<open>The lines \<open>range(i, max(0, i - n), -1)\<close>.\<close>

definition lines_above :: "nat \<Rightarrow> nat \<Rightarrow> nat list" where
  "lines_above i n = rev [Suc (i - n)..<Suc i]"

fun def_above :: "string list \<Rightarrow> nat list \<Rightarrow> nat option" where
  "def_above ls [] = None"
| "def_above ls (i # is) =
     (let line = py_strip (ls ! i) in
      if list_ex (starts_with line) [''def '', ''class '', ''async def ''] then Some i
      else if line = [] \<and> i > 0
        \<and> (let next_line = (if i + 1 < length ls then py_lstrip (ls ! (i + 1)) else [])
           in next_line \<noteq> [] \<and> \<not> starts_with next_line '' '' \<and> \<not> starts_with next_line [CHR 0x09])
      then None
      else def_above ls is)"

definition opens :: "string \<Rightarrow> int" where "opens l = int (count_list l (CHR ''{''))"
definition closes :: "string \<Rightarrow> int" where "closes l = int (count_list l (CHR ''}''))"

fun signature_above :: "string list \<Rightarrow> nat \<Rightarrow> nat list \<Rightarrow> nat option" where
  "signature_above ls i [] = None"
| "signature_above ls i (j # js) =
     (let sig = py_strip (ls ! j) in
      if CHR ''('' \<in> set sig \<and> (CHR '')'' \<in> set sig \<or> j < i) then Some j else signature_above ls i js)"

fun brace_above :: "string list \<Rightarrow> nat \<Rightarrow> int \<Rightarrow> nat list \<Rightarrow> nat" where
  "brace_above ls start_idx depth [] = start_idx"
| "brace_above ls start_idx depth (i # is) =
     (let depth' = depth + (closes (ls ! i) - opens (ls ! i)) in
      if depth' > 0 \<and> CHR ''{'' \<in> set (ls ! i)
      then (case signature_above ls i (lines_above i 10) of
              Some j \<Rightarrow> if j \<noteq> start_idx then j else brace_above ls start_idx depth' is
            | None \<Rightarrow> brace_above ls start_idx depth' is)
      else brace_above ls start_idx depth' is)"

definition indent_of :: "string \<Rightarrow> nat" where
  "indent_of l = length l - length (py_lstrip l)"

fun dedent_below :: "string list \<Rightarrow> nat \<Rightarrow> nat list \<Rightarrow> nat option" where
  "dedent_below ls start_indent [] = None"
| "dedent_below ls start_indent (i # is) =
     (if py_strip (ls ! i) \<noteq> [] \<and> indent_of (ls ! i) \<le> start_indent then Some (i - 1)
      else dedent_below ls start_indent is)"

fun brace_below :: "string list \<Rightarrow> nat \<Rightarrow> int \<Rightarrow> nat list \<Rightarrow> nat option" where
  "brace_below ls expanded_start depth [] = None"
| "brace_below ls expanded_start depth (i # is) =
     (let depth' = depth + (opens (ls ! i) - closes (ls ! i)) in
      if depth' = 0 \<and> i > expanded_start \<and> CHR ''}'' \<in> set (ls ! i) then Some i
      else brace_below ls expanded_start depth' is)"

definition expanded_start_of :: "string list \<Rightarrow> string \<Rightarrow> nat \<Rightarrow> nat" where
  "expanded_start_of ls file_path start_idx =
     (if is_python_path file_path
      then get_default (def_above ls (rev [Suc (start_idx - 200)..<start_idx])) start_idx
      else if is_brace_path file_path then brace_above ls start_idx 0 (lines_above start_idx 200)
      else start_idx)"

definition expanded_end_of :: "string list \<Rightarrow> string \<Rightarrow> nat \<Rightarrow> nat \<Rightarrow> nat" where
  "expanded_end_of ls file_path expanded_start end_idx =
     (if is_python_path file_path
      then (case dedent_below ls (indent_of (ls ! expanded_start)) [Suc end_idx..<min (length ls) (end_idx + 200)] of
              Some e \<Rightarrow> e
            | None \<Rightarrow> min (length ls - 1) (end_idx + 50))
      else if is_brace_path file_path
      then get_default (brace_below ls expanded_start 0 [expanded_start..<min (length ls) (end_idx + 200)]) end_idx
      else end_idx)"

definition expand_to_natural_boundaries ::
  "string list \<Rightarrow> int \<Rightarrow> int \<Rightarrow> rchunk \<Rightarrow> string \<Rightarrow> int \<times> int" where
  "expand_to_natural_boundaries ls start_line end_line chunk file_path =
     (if start_line < 1 \<or> start_line > end_line \<or> end_line > int (length ls) then (0, 0)
      else if \<not> ENABLE_SMART_BOUNDARIES
      then (max 1 (start_line - EXTRA_CONTEXT_TOKENS div 20), min (int (length ls)) (end_line + EXTRA_CONTEXT_TOKENS div 20))
      else if chunk_kind chunk \<in> set complete_kinds
      then (max 1 (start_line - 3), min (int (length ls)) (end_line + 3))
      else
        let expanded_start = expanded_start_of ls file_path (nat (start_line - 1));
            expanded_end = expanded_end_of ls file_path expanded_start (nat (end_line - 1));
            limited = (if int expanded_end - int expanded_start > int MAX_BOUNDARY_EXPANSION_LINES
                       then expanded_start + MAX_BOUNDARY_EXPANSION_LINES else expanded_end)
        in (int expanded_start + 1, int limited + 1))"

text \<open>\<open>read_lines\<close> is \<open>readlines\<close> of the resolved path; \<open>Inl\<close> when opening or reading raises.\<close>

definition get_chunk_expanded_range :: "(string \<Rightarrow> string list result) \<Rightarrow> rchunk \<Rightarrow> int \<times> int" where
  "get_chunk_expanded_range read_lines chunk =
     (case (k_expanded_start_line chunk, k_expanded_end_line chunk) of
        (Some s, Some e) \<Rightarrow> (s, e)
      | _ \<Rightarrow>
          (let start_line = get_default (k_start_line chunk) 0;
               end_line = get_default (k_end_line chunk) 0
           in case k_file_path chunk of
                None \<Rightarrow> (start_line, end_line)
              | Some p \<Rightarrow>
                  (if p = [] \<or> start_line = 0 \<or> end_line = 0 then (start_line, end_line)
                   else case read_lines p of
                          Inl e \<Rightarrow> (start_line, end_line)
                        | Inr ls \<Rightarrow>
                            (let r = expand_to_natural_boundaries ls start_line end_line chunk p
                             in if r = (0, 0) then (start_line, end_line) else r))))"

subsection \<open>Where the range can end\<close>

lemma def_above_mem: "def_above ls is = Some i \<Longrightarrow> i \<in> set is"
  by (induction ls "is" rule: def_above.induct) (auto simp: Let_def split: if_splits)

lemma signature_above_mem: "signature_above ls i js = Some j \<Longrightarrow> j \<in> set js"
  by (induction ls i js rule: signature_above.induct) (auto simp: Let_def split: if_splits)

lemma brace_above_cases:
  "brace_above ls s d is = s \<or> (\<exists>i\<in>set is. brace_above ls s d is \<in> set (lines_above i 10))"
proof (induction ls s d "is" rule: brace_above.induct)
  case (2 ls s d i "is")
  then show ?case
    using signature_above_mem [of ls i "lines_above i 10"] by (auto simp: Let_def split: option.split)
qed simp

lemma dedent_below_mem: "dedent_below ls n is = Some e \<Longrightarrow> \<exists>i\<in>set is. e = i - 1"
  by (induction ls n "is" rule: dedent_below.induct) (auto split: if_splits)

lemma brace_below_mem: "brace_below ls s d is = Some e \<Longrightarrow> e \<in> set is \<and> s < e"
  by (induction ls s d "is" rule: brace_below.induct) (auto simp: Let_def split: if_splits)

lemma set_lines_above: "i \<in> set (lines_above m n) \<longleftrightarrow> m - n < i \<and> i \<le> m"
  by (auto simp: lines_above_def)

lemma brace_above_bounds: "brace_above ls s d (lines_above s 200) \<le> s \<and> s \<le> brace_above ls s d (lines_above s 200) + 208"
proof -
  obtain r where r: "brace_above ls s d (lines_above s 200) = r" by simp
  with brace_above_cases [of ls s d "lines_above s 200"]
  have "r = s \<or> (\<exists>i\<in>set (lines_above s 200). r \<in> set (lines_above i 10))" by simp
  then show ?thesis unfolding r by (auto simp: set_lines_above)
qed

lemma def_above_bounds:
  "def_above ls (rev [Suc (s - 200)..<s]) = Some i \<Longrightarrow> i \<le> s \<and> s \<le> i + 208"
  using def_above_mem [of ls "rev [Suc (s - 200)..<s]" i] by auto

lemma expanded_start_bounds: "expanded_start_of ls p s \<le> s \<and> s \<le> expanded_start_of ls p s + 208"
  using brace_above_bounds [of ls s 0] def_above_bounds [of ls s]
  by (auto simp: expanded_start_of_def get_default_def split: option.split)

definition python_end :: "string list \<Rightarrow> nat \<Rightarrow> nat \<Rightarrow> nat option" where
  "python_end ls s e = dedent_below ls (indent_of (ls ! s)) [Suc e..<min (length ls) (e + 200)]"

definition brace_end :: "string list \<Rightarrow> nat \<Rightarrow> nat \<Rightarrow> nat option" where
  "brace_end ls s e = brace_below ls s 0 [s..<min (length ls) (e + 200)]"

lemma expanded_end_eq:
  "expanded_end_of ls p s e =
     (if is_python_path p then (case python_end ls s e of Some k \<Rightarrow> k | None \<Rightarrow> min (length ls - 1) (e + 50))
      else if is_brace_path p then get_default (brace_end ls s e) e else e)"
  by (simp add: expanded_end_of_def python_end_def brace_end_def)

lemma python_end_bounds: "python_end ls s e = Some k \<Longrightarrow> e \<le> k \<and> k < length ls \<and> k \<le> e + 199"
  unfolding python_end_def by (drule dedent_below_mem) auto

lemma brace_end_bounds: "brace_end ls s e = Some k \<Longrightarrow> s \<le> k \<and> k < length ls \<and> k \<le> e + 199"
  unfolding brace_end_def by (drule brace_below_mem) auto

lemma expanded_end_bounds:
  assumes "s \<le> e" "e < length ls"
  shows "s \<le> expanded_end_of ls p s e \<and> expanded_end_of ls p s e < length ls \<and> expanded_end_of ls p s e \<le> e + 199
    \<and> (is_python_path p \<or> \<not> is_brace_path p \<longrightarrow> e \<le> expanded_end_of ls p s e)"
  using assms python_end_bounds [of ls s e] brace_end_bounds [of ls s e]
  unfolding expanded_end_eq by (cases "python_end ls s e"; cases "brace_end ls s e") (auto simp: get_default_def min_def)

lemma expanded_range:
  assumes "expand_to_natural_boundaries ls s e chunk p = (a, b)"
  shows "(if s < 1 \<or> s > e \<or> e > int (length ls) then a = 0 \<and> b = 0
    else 1 \<le> a \<and> a \<le> s \<and> s - 208 \<le> a \<and> a \<le> b \<and> b \<le> int (length ls) \<and> b \<le> e + 199
      \<and> (e \<le> b \<or> b = a + 300 \<or> is_brace_path p \<and> \<not> is_python_path p \<and> chunk_kind chunk \<notin> set complete_kinds))"
proof (cases "s < 1 \<or> s > e \<or> e > int (length ls)")
  case True
  then show ?thesis using assms by (auto simp: expand_to_natural_boundaries_def)
next
  case valid: False
  show ?thesis
  proof (cases "chunk_kind chunk \<in> set complete_kinds")
    case True
    then show ?thesis using assms valid
      by (auto simp: expand_to_natural_boundaries_def ENABLE_SMART_BOUNDARIES_def)
  next
    case False
    let ?s = "nat (s - 1)" and ?e = "nat (e - 1)"
    let ?a = "expanded_start_of ls p ?s"
    have v: "int ?s = s - 1" "int ?e = e - 1" "?e < length ls" using valid by auto
    obtain i where i: "?a = i" by simp
    have st: "int i \<le> s - 1" "s - 1 \<le> int i + 208"
      using expanded_start_bounds [of ls p ?s] v(1) unfolding i by linarith+
    then have "i \<le> ?e" using v valid by linarith
    from expanded_end_bounds [OF this v(3), of p]
    obtain k where k: "expanded_end_of ls p i ?e = k" "i \<le> k" "k < length ls" "k \<le> ?e + 199"
      "is_python_path p \<or> \<not> is_brace_path p \<longrightarrow> ?e \<le> k" by blast
    have "a = int i + 1" "b = (if int k - int i > 300 then int i + 300 else int k) + 1"
      using assms valid False i k(1)
      by (auto simp: expand_to_natural_boundaries_def ENABLE_SMART_BOUNDARIES_def MAX_BOUNDARY_EXPANSION_LINES_def Let_def)
    moreover have "int k < int (length ls)" "int k \<le> e + 198" using k v by linarith+
    ultimately show ?thesis using st k(2,5) v valid False by (auto split: if_splits)
  qed
qed

text \<open>
  the widened range of a valid chunk lies in the file, is not empty, starts at or before the chunk
  and at most 208 lines before it, and ends at most 199 lines after it.  It contains the chunk unless
  it is cut to the maximum of 301 lines or the language has braces, where it can end inside the
  chunk.  An invalid range, and only that, gives (0, 0).
\<close>

theorem expanded_range_bounds:
  assumes "expand_to_natural_boundaries ls s e chunk p = (a, b)"
  shows "(if s < 1 \<or> s > e \<or> e > int (length ls) then a = 0 \<and> b = 0
    else 1 \<le> a \<and> a \<le> s \<and> s - 208 \<le> a \<and> a \<le> b \<and> b \<le> int (length ls) \<and> b \<le> e + 199
      \<and> (e \<le> b \<or> b = a + 300 \<or> is_brace_path p \<and> \<not> is_python_path p \<and> chunk_kind chunk \<notin> set complete_kinds))"
  using assms by (rule expanded_range)

definition python_lines :: "string list" where
  "python_lines = [''def f():'', ''    a'', ''    b'', ''x = 1'']"

definition block_chunk :: rchunk where
  "block_chunk = empty_rchunk\<lparr>k_file_path := Some ''m.py'', k_symbol_type := Some ''block''\<rparr>"

theorem expanded_range_bounds_witness:
  "\<exists>a b. expand_to_natural_boundaries python_lines 2 3 block_chunk ''m.py'' = (a, b) \<and> 1 \<le> a \<and> a \<le> 2 \<and> 3 \<le> b \<and> b \<le> 4"
proof -
  have r: "expand_to_natural_boundaries python_lines 2 3 block_chunk ''m.py'' = (2, 3)" by code_simp
  have "length python_lines = 4" by (simp add: python_lines_def)
  with expanded_range_bounds [OF r] r show ?thesis by simp
qed

text \<open>The first line of a file is not searched, so its function is not found.\<close>

theorem first_line_not_searched:
  "expand_to_natural_boundaries python_lines 3 3 block_chunk ''m.py'' = (3, 3)
     \<and> expand_to_natural_boundaries ('''' # python_lines) 4 4 block_chunk ''m.py'' = (2, 4)"
  by code_simp

text \<open>
  A blank line in a function ends the search as if it were the end of a block: the next line is
  stripped before its indentation is tested.
\<close>

theorem blank_line_stops_search:
  "expand_to_natural_boundaries ['''', ''def f():'', ''    a'', '''', ''    b'', ''x = 1''] 5 5 block_chunk ''m.py'' = (5, 5)"
  by code_simp

text \<open>
  With braces the range ends at the first balanced line of the chunk, here before its second
  statement; and the enclosing function is not found, as the sign of the depth is that of a search
  downwards.
\<close>

theorem brace_range_cuts_chunk:
  "expand_to_natural_boundaries ['''', ''if (a) {'', ''  x();'', ''}'', ''y();''] 2 5 block_chunk ''m.c'' = (2, 4)
     \<and> expand_to_natural_boundaries ['''', ''int f() {'', ''  x();'', ''  y();'', ''}''] 4 4 block_chunk ''m.c'' = (4, 4)"
  by code_simp

subsection \<open>Deduplication by id\<close>

definition id_truthy :: "hit_id \<Rightarrow> bool" where
  "id_truthy i = (case i of Db_id n \<Rightarrow> n \<noteq> 0 | Diff_id s \<Rightarrow> s \<noteq> [])"

text \<open>\<open>get_chunk_id\<close>; \<open>None\<close> stands for every falsy id, which all callers skip.\<close>

definition chunk_id_of :: "rchunk \<Rightarrow> hit_id option" where
  "chunk_id_of c =
     (case (k_chunk_id c, k_id c) of
        (Some i, j) \<Rightarrow> if id_truthy i then Some i else Option.bind j (\<lambda>i. if id_truthy i then Some i else None)
      | (None, j) \<Rightarrow> Option.bind j (\<lambda>i. if id_truthy i then Some i else None))"

definition field_score :: "string \<Rightarrow> rat \<Rightarrow> rchunk \<Rightarrow> rat" where
  "field_score score_field default_score c =
     get_default
       (if score_field = ''rerank_score'' then k_rerank_score c
        else if score_field = ''similarity'' then k_similarity c
        else if score_field = ''score'' then k_score c else None) default_score"

definition pick_score :: "(rchunk \<Rightarrow> rat) option \<Rightarrow> string \<Rightarrow> rat \<Rightarrow> rchunk \<Rightarrow> rat" where
  "pick_score score_fn score_field default_score = get_default score_fn (field_score score_field default_score)"

definition keep_best :: "(rchunk \<Rightarrow> rat) \<Rightarrow> rchunk \<Rightarrow> (hit_id, rchunk) pydict \<Rightarrow> (hit_id, rchunk) pydict" where
  "keep_best get_score c chunk_map =
     (case chunk_id_of c of
        None \<Rightarrow> chunk_map
      | Some i \<Rightarrow>
          (case dict_get chunk_map i of
             None \<Rightarrow> dict_set i c chunk_map
           | Some existing \<Rightarrow> if get_score c > get_score existing then dict_set i c chunk_map else chunk_map))"

definition deduplicate_chunk_lists ::
  "rchunk list list \<Rightarrow> string \<Rightarrow> rat \<Rightarrow> (rchunk \<Rightarrow> rat) option \<Rightarrow> rchunk list" where
  "deduplicate_chunk_lists chunk_lists score_field default_score score_fn =
     dict_values (fold (keep_best (pick_score score_fn score_field default_score)) (concat chunk_lists) [])"

definition add_base :: "rchunk \<Rightarrow> (hit_id, rchunk) pydict \<Rightarrow> (hit_id, rchunk) pydict" where
  "add_base c chunk_map = (case chunk_id_of c of None \<Rightarrow> chunk_map | Some i \<Rightarrow> dict_set i c chunk_map)"

definition merge_chunk_lists ::
  "rchunk list \<Rightarrow> rchunk list \<Rightarrow> string \<Rightarrow> rat \<Rightarrow> (rchunk \<Rightarrow> rat) option \<Rightarrow> rchunk list" where
  "merge_chunk_lists base_chunks new_chunks score_field default_score score_fn =
     dict_values (fold (keep_best (pick_score score_fn score_field default_score)) new_chunks
       (fold add_base base_chunks []))"

text \<open>A map of the best chunks of a list: one entry for every id, under its id, none with a better score.\<close>

definition best_map :: "(rchunk \<Rightarrow> rat) \<Rightarrow> rchunk list \<Rightarrow> (hit_id, rchunk) pydict \<Rightarrow> bool" where
  "best_map g cs m \<longleftrightarrow> dict_ok m
     \<and> (\<forall>i c. dict_get m i = Some c \<longrightarrow> c \<in> set cs \<and> chunk_id_of c = Some i)
     \<and> (\<forall>c\<in>set cs. \<forall>i. chunk_id_of c = Some i \<longrightarrow> (\<exists>d. dict_get m i = Some d \<and> g c \<le> g d))"

lemma best_map_Nil: "best_map g [] []"
  by (simp add: best_map_def)

lemma keep_best_best:
  assumes "best_map g cs m"
  shows "best_map g (cs @ [c]) (keep_best g c m)"
proof (cases "chunk_id_of c")
  case None
  then show ?thesis using assms by (auto simp: keep_best_def best_map_def)
next
  case (Some i)
  show ?thesis
  proof (cases "dict_get m i")
    case None
    with assms Some show ?thesis by (auto simp: keep_best_def best_map_def)
  next
    case (Some d)
    with assms \<open>chunk_id_of c = Some i\<close> show ?thesis
      by (fastforce simp: keep_best_def best_map_def)
  qed
qed

lemma fold_keep_best: "best_map g cs m \<Longrightarrow> best_map g (cs @ ds) (fold (keep_best g) ds m)"
proof (induction ds arbitrary: cs m)
  case (Cons d ds)
  then show ?case using Cons.IH [of "cs @ [d]" "keep_best g d m"] keep_best_best by simp
qed simp

lemma best_map_values:
  assumes "best_map g cs m"
  shows "distinct (map chunk_id_of (dict_values m)) \<and> set (dict_values m) \<subseteq> set cs
    \<and> (\<forall>c\<in>set cs. \<forall>i. chunk_id_of c = Some i \<longrightarrow> (\<exists>d\<in>set (dict_values m). chunk_id_of d = Some i \<and> g c \<le> g d))"
proof -
  have get: "(i, c) \<in> set m \<longleftrightarrow> dict_get m i = Some c" for i c
    using assms by (simp add: best_map_def dict_ok_def)
  have "map chunk_id_of (dict_values m) = map Some (map fst m)"
    using assms get by (auto simp: best_map_def dict_values_def)
  then have "distinct (map chunk_id_of (dict_values m))"
    using assms by (simp add: best_map_def dict_ok_def distinct_map inj_on_def del: map_map)
  moreover have "c \<in> set (dict_values m) \<longleftrightarrow> (\<exists>i. dict_get m i = Some c)" for c
    by (force simp: dict_values_def get [symmetric])
  ultimately show ?thesis using assms unfolding best_map_def by blast
qed

text \<open>
  deduplicating keeps exactly one chunk for every id that occurs, one of the chunks with that id
  whose score none of them exceeds, and invents none.
\<close>

theorem deduplicate_chunk_lists_best:
  "let g = pick_score score_fn score_field default_score;
       out = deduplicate_chunk_lists chunk_lists score_field default_score score_fn
   in distinct (map chunk_id_of out) \<and> set out \<subseteq> set (concat chunk_lists)
     \<and> (\<forall>c\<in>set (concat chunk_lists). \<forall>i. chunk_id_of c = Some i \<longrightarrow>
           (\<exists>d\<in>set out. chunk_id_of d = Some i \<and> g c \<le> g d))"
  unfolding Let_def deduplicate_chunk_lists_def
  using best_map_values [OF fold_keep_best [OF best_map_Nil, of _ "concat chunk_lists"]] by simp

text \<open>
  Merging takes the last of several base chunks with one id, whatever its score.
\<close>

theorem merge_ignores_base_scores:
  "let c = empty_rchunk\<lparr>k_chunk_id := Some (Db_id 1)\<rparr>; d = (\<lambda>q. c\<lparr>k_rerank_score := Some q\<rparr>)
   in merge_chunk_lists [d (9 / 10), d (1 / 10)] [] ''rerank_score'' 0 None = [d (1 / 10)]
     \<and> deduplicate_chunk_lists [[d (9 / 10), d (1 / 10)]] ''rerank_score'' 0 None = [d (9 / 10)]"
  by code_simp

subsection \<open>The elbow of a list of scores\<close>

definition linspace01 :: "nat \<Rightarrow> nat \<Rightarrow> rat" where
  "linspace01 n i = (if i = n - 1 then 1 else fl (fl (of_nat i) * py_truediv 1 (int n - 1)))"

definition argmax :: "rat list \<Rightarrow> nat" where
  "argmax ds = length (takeWhile (\<lambda>d. d \<noteq> Max (set ds)) ds)"

definition normalized_scores :: "rat list \<Rightarrow> rat list" where
  "normalized_scores scores =
     (let mn = Min (set scores); mx = Max (set scores) in map (\<lambda>s. fl (fl (s - mn) / fl (mx - mn))) scores)"

definition line_distance :: "rat \<Rightarrow> rat \<Rightarrow> rat \<Rightarrow> rat \<Rightarrow> rat \<Rightarrow> rat" where
  "line_distance m b denominator x y = fl (\<bar>fl (fl (fl (m * x) - y) + b)\<bar> / denominator)"

definition kneedle_distances :: "(rat \<Rightarrow> rat) \<Rightarrow> rat list \<Rightarrow> rat list" where
  "kneedle_distances fsqrt scores =
     (let normalized = normalized_scores scores;
          xs = map (linspace01 (length scores)) [0..<length scores];
          x1 = hd xs; y1 = hd normalized; x2 = last xs; y2 = last normalized;
          m = fl (fl (y2 - y1) / fl (x2 - x1));
          b = fl (y1 - fl (m * x1));
          denominator = fsqrt (fl (fl (m * m) + 1))
      in map (\<lambda>(x, y). line_distance m b denominator x y) (zip xs normalized))"

definition find_elbow_kneedle :: "(rat \<Rightarrow> rat) \<Rightarrow> rat list \<Rightarrow> nat option" where
  "find_elbow_kneedle fsqrt sorted_scores =
     (if length sorted_scores < 3 then None
      else if Max (set sorted_scores) = Min (set sorted_scores) then None
      else
        let ds = kneedle_distances fsqrt sorted_scores; elbow_idx = argmax ds
        in if ds ! elbow_idx < fl (1 / 100) then None else Some elbow_idx)"

definition compute_elbow_threshold :: "(rat \<Rightarrow> rat) \<Rightarrow> rat list \<Rightarrow> rat" where
  "compute_elbow_threshold fsqrt scores =
     (if scores = [] then 1 / 2
      else
        let sorted_scores = sort_desc (\<lambda>s. s) scores
        in case find_elbow_kneedle fsqrt sorted_scores of
             Some i \<Rightarrow> if i < length sorted_scores then sorted_scores ! i else sorted_scores ! (length sorted_scores div 2)
           | None \<Rightarrow> sorted_scores ! (length sorted_scores div 2))"

definition get_unified_score :: "rchunk \<Rightarrow> rat" where
  "get_unified_score c =
     (case k_rerank_score c of
        Some s \<Rightarrow> s
      | None \<Rightarrow> (case k_similarity c of Some s \<Rightarrow> s | None \<Rightarrow> get_default (k_score c) 0))"

record filter_stats =
  fs_method :: string
  fs_reason :: string
  fs_original_count :: nat
  fs_filtered_count :: nat
  fs_cutoff_score :: "rat option"
  fs_elbow_index :: "nat option"

definition passthrough :: "string \<Rightarrow> nat \<Rightarrow> filter_stats" where
  "passthrough reason n = \<lparr>fs_method = ''passthrough'', fs_reason = reason, fs_original_count = n, fs_filtered_count = n,
     fs_cutoff_score = None, fs_elbow_index = None\<rparr>"

definition filter_chunks_by_elbow ::
  "(rat \<Rightarrow> rat) \<Rightarrow> rchunk list \<Rightarrow> string option \<Rightarrow> rchunk list \<times> filter_stats" where
  "filter_chunks_by_elbow fsqrt chunks score_key =
     (if chunks = [] then ([], passthrough ''empty_input'' 0)
      else if length chunks < 3 then (chunks, passthrough ''too_few_chunks'' (length chunks))
      else
        let score = (case score_key of None \<Rightarrow> get_unified_score | Some k \<Rightarrow> field_score k 0);
            sorted_chunks = sort_desc score chunks;
            scores = map score sorted_chunks
        in case find_elbow_kneedle fsqrt scores of
             None \<Rightarrow> (sorted_chunks, passthrough ''no_elbow_detected'' (length chunks))
           | Some i \<Rightarrow>
               (take (i + 1) sorted_chunks,
                \<lparr>fs_method = ''elbow'', fs_reason = ''elbow_detected'', fs_original_count = length chunks,
                 fs_filtered_count = length (take (i + 1) sorted_chunks), fs_cutoff_score = Some (scores ! i),
                 fs_elbow_index = Some i\<rparr>))"

lemma takeWhile_less: "x \<in> set xs \<Longrightarrow> \<not> P x \<Longrightarrow> length (takeWhile P xs) < length xs"
  by (induction xs) auto

lemma argmax_less: "ds \<noteq> [] \<Longrightarrow> argmax ds < length ds"
  unfolding argmax_def by (rule takeWhile_less [of "Max (set ds)"]) simp_all

lemma length_normalized [simp]: "length (normalized_scores scores) = length scores"
  by (simp add: normalized_scores_def Let_def)

lemma length_kneedle: "length (kneedle_distances fsqrt scores) = length scores"
  by (simp add: kneedle_distances_def Let_def)

lemma fl_1 [simp]: "fl 1 = 1"
  using fl_exact_int [of 1] by simp

lemma fl_neg_1 [simp]: "fl (- 1) = - 1"
  by (simp add: fl_minus)

text \<open>For falling scores the line has the slope -1 and goes through the first and the last point.\<close>

lemma normalized_ends:
  assumes "scores \<noteq> []" "hd scores = Max (set scores)" "last scores = Min (set scores)" "Max (set scores) \<noteq> Min (set scores)"
  shows "hd (normalized_scores scores) = 1" "last (normalized_scores scores) = 0"
proof -
  have "Min (set scores) \<le> Max (set scores)" using assms(1) by simp
  then have "0 < fl (Max (set scores) - Min (set scores))" using assms(4) by (intro fl_pos) simp
  then show "hd (normalized_scores scores) = 1" "last (normalized_scores scores) = 0"
    using assms by (simp_all add: normalized_scores_def Let_def hd_map last_map)
qed

lemma kneedle_falling:
  assumes "3 \<le> length scores" "hd scores = Max (set scores)" "last scores = Min (set scores)"
    "Max (set scores) \<noteq> Min (set scores)"
  shows "kneedle_distances fsqrt scores = map (\<lambda>(x, y). line_distance (- 1) 1 (fsqrt 2) x y)
    (zip (map (linspace01 (length scores)) [0..<length scores]) (normalized_scores scores))"
proof -
  let ?xs = "map (linspace01 (length scores)) [0..<length scores]"
  have ne: "scores \<noteq> []" using assms(1) by auto
  have "linspace01 (length scores) 0 = 0" "linspace01 (length scores) (length scores - 1) = 1"
    using assms(1) by (auto simp: linspace01_def)
  then have x: "hd ?xs = 0" "last ?xs = 1" using ne by (simp_all add: hd_map last_map)
  have two: "fl 2 = 2" using fl_exact_int [of 2] by simp
  show ?thesis
    unfolding kneedle_distances_def Let_def x normalized_ends [OF ne assms(2-4)] by (simp add: two)
qed

lemma kneedle_ends:
  assumes "3 \<le> length scores" "hd scores = Max (set scores)" "last scores = Min (set scores)"
    "Max (set scores) \<noteq> Min (set scores)"
  shows "kneedle_distances fsqrt scores ! 0 = 0" "kneedle_distances fsqrt scores ! (length scores - 1) = 0"
proof -
  have ne: "scores \<noteq> []" using assms(1) by auto
  then have "normalized_scores scores \<noteq> []" by (metis length_0_conv length_normalized)
  then have "normalized_scores scores ! 0 = 1" "normalized_scores scores ! (length scores - 1) = 0"
    using normalized_ends [OF ne assms(2-4)] by (simp_all add: hd_conv_nth last_conv_nth)
  moreover have "linspace01 (length scores) 0 = 0" "linspace01 (length scores) (length scores - 1) = 1"
    using assms(1) by (auto simp: linspace01_def)
  ultimately show "kneedle_distances fsqrt scores ! 0 = 0" "kneedle_distances fsqrt scores ! (length scores - 1) = 0"
    unfolding kneedle_falling [OF assms] using ne by (simp_all add: line_distance_def)
qed

lemma desc_Max: "sorted (map (\<lambda>s. - s) (xs :: rat list)) \<Longrightarrow> xs \<noteq> [] \<Longrightarrow> hd xs = Max (set xs)"
  by (cases xs) (auto intro!: Max_eqI [symmetric])

lemma desc_last: "sorted (map (\<lambda>s. - s) (xs :: rat list)) \<Longrightarrow> y \<in> set xs \<Longrightarrow> last xs \<le> y"
  by (induction xs) (auto split: if_splits)

lemma desc_Min: "sorted (map (\<lambda>s. - s) (xs :: rat list)) \<Longrightarrow> xs \<noteq> [] \<Longrightarrow> last xs = Min (set xs)"
  by (rule Min_eqI [symmetric]) (auto intro: desc_last)

lemma elbow_interior:
  assumes "sorted (map (\<lambda>s. - s) scores)" "find_elbow_kneedle fsqrt scores = Some i"
  shows "0 < i \<and> i < length scores - 1"
proof -
  let ?d = "kneedle_distances fsqrt scores"
  have s: "3 \<le> length scores" "Max (set scores) \<noteq> Min (set scores)" "i = argmax ?d" "fl (1 / 100) \<le> ?d ! i"
    using assms(2) by (auto simp: find_elbow_kneedle_def Let_def split: if_splits)
  then have "?d \<noteq> []" using length_kneedle [of fsqrt scores] by (cases "?d") auto
  then have i: "i < length scores" using s(3) argmax_less length_kneedle by metis
  have "scores \<noteq> []" using s(1) by auto
  then have "hd scores = Max (set scores)" "last scores = Min (set scores)" using assms(1) desc_Max desc_Min by blast+
  from kneedle_ends [OF s(1) this s(2)] have z: "?d ! 0 = 0" "?d ! (length scores - 1) = 0" by simp_all
  have "0 < fl (1 / 100)" by (rule fl_pos) simp
  then have "0 < ?d ! i" using s(4) by (rule less_le_trans)
  then have "i \<noteq> 0" "i \<noteq> length scores - 1" using z by (intro notI; simp)+
  with i show ?thesis by linarith
qed


text \<open>
  the elbow filter returns the best chunks by score: every chunk it keeps scores at least as much
  as every chunk it drops, kept and dropped chunks together are the input, and it drops chunks only at
  an elbow, which is never the first or the last chunk, so at least two are kept and one is dropped.
\<close>

theorem elbow_filter_keeps_best:
  "let score = (case score_key of None \<Rightarrow> get_unified_score | Some k \<Rightarrow> field_score k 0);
       (kept, st) = filter_chunks_by_elbow fsqrt chunks score_key
   in \<exists>dropped. mset kept + mset dropped = mset chunks
        \<and> \<not> (\<exists>c\<in>set kept. \<exists>d\<in>set dropped. score c < score d)
        \<and> fs_original_count st = length chunks \<and> fs_filtered_count st = length kept
        \<and> (dropped = [] \<or> fs_method st = ''elbow'' \<and> 2 \<le> length kept)"
proof -
  define score where "score = (case score_key of None \<Rightarrow> get_unified_score | Some k \<Rightarrow> field_score k 0)"
  let ?s = "sort_desc score chunks"
  have m: "mset ?s = mset chunks" "length ?s = length chunks" by (simp_all add: sort_desc_def)
  have sorted: "sorted (map (\<lambda>s. - s) (map score ?s))" by (simp add: sort_desc_def o_def)
  show ?thesis
  proof (cases "length chunks < 3 \<or> find_elbow_kneedle fsqrt (map score ?s) = None")
    case True
    then show ?thesis using m
      by (auto simp: filter_chunks_by_elbow_def passthrough_def Let_def score_def split: option.splits)
  next
    case False
    then obtain i where i: "find_elbow_kneedle fsqrt (map score ?s) = Some i" by auto
    from elbow_interior [OF sorted i] have b: "0 < i" "i < length chunks - 1" using m by simp_all
    let ?k = "take (i + 1) ?s" and ?d = "drop (i + 1) ?s"
    have "mset ?k + mset ?d = mset chunks" using m by (metis append_take_drop_id mset_append)
    moreover have "score d \<le> score c" if "c \<in> set ?k" "d \<in> set ?d" for c d
    proof -
      have "sorted (map (\<lambda>c. - score c) (?k @ ?d))" by (simp add: sort_desc_def)
      then have "\<forall>x\<in>set (map (\<lambda>c. - score c) ?k). \<forall>y\<in>set (map (\<lambda>c. - score c) ?d). x \<le> y"
        unfolding map_append sorted_append by blast
      with that show ?thesis by simp
    qed
    moreover have "filter_chunks_by_elbow fsqrt chunks score_key = (?k,
        \<lparr>fs_method = ''elbow'', fs_reason = ''elbow_detected'', fs_original_count = length chunks,
          fs_filtered_count = length ?k, fs_cutoff_score = Some (map score ?s ! i), fs_elbow_index = Some i\<rparr>)"
      using False i by (auto simp: filter_chunks_by_elbow_def Let_def score_def)
    moreover have "2 \<le> length ?k" using b m by simp
    ultimately show ?thesis unfolding Let_def score_def [symmetric] by (fastforce simp: not_less)
  qed
qed

text \<open>The threshold is one of the scores, so a chunk at the threshold exists.\<close>

lemma elbow_threshold_is_score: "scores \<noteq> [] \<Longrightarrow> compute_elbow_threshold fsqrt scores \<in> set scores"
proof -
  assume "scores \<noteq> []"
  then have "0 < length scores" by simp
  then have "sort_desc (\<lambda>s. s) scores ! i \<in> set scores" if "i < length scores" for i
    using that nth_mem [of i "sort_desc (\<lambda>s. s) scores"] by (simp add: sort_desc_def)
  with \<open>scores \<noteq> []\<close> show ?thesis
    by (auto simp: compute_elbow_threshold_def Let_def sort_desc_def split: option.split)
qed

text \<open>
  The documentation promises the last score before the drop (index 2 for 0.95, 0.92, 0.88, 0.45, 0.42,
  0.40).  The distance has no sign, and a score just after the drop can be farther below the line than
  the last one before it is above: here the drop is after index 1 and the elbow at index 2.
\<close>

theorem elbow_after_the_drop:
  assumes "1 \<le> fsqrt 2" "fsqrt 2 \<le> 3 / 2"
  shows "find_elbow_kneedle fsqrt [1, 7 / 8, 1 / 8, 1 / 16, 0] = Some 2"
proof -
  let ?s = "[1, 7 / 8, 1 / 8, 1 / 16, 0] :: rat list" and ?d = "\<lambda>q. fl (q / fsqrt 2)"
  have v: "normalized_scores ?s = ?s" "map (linspace01 5) [0..<5] = [0, 1 / 4, 1 / 2, 3 / 4, 1]"
    "fl (7 / 8) = 7 / 8" "fl (3 / 4) = 3 / 4" "fl (1 / 8) = 1 / 8" "fl (1 / 4) = 1 / 4" "fl (3 / 8) = 3 / 8"
    "fl (1 / 2) = 1 / 2" "fl (3 / 16) = 3 / 16" "fl (5 / 8) = 5 / 8" "fl (9 / 8) = 9 / 8" "fl (13 / 16) = 13 / 16"
    by code_simp+
  have "kneedle_distances fsqrt ?s = map (\<lambda>(x, y). line_distance (- 1) 1 (fsqrt 2) x y)
      (zip (map (linspace01 5) [0..<5]) (normalized_scores ?s))"
    using kneedle_falling [of ?s fsqrt] by (simp add: eval_nat_numeral)
  then have k: "kneedle_distances fsqrt ?s = [0, ?d (1 / 8), ?d (3 / 8), ?d (3 / 16), 0]"
    unfolding v by (simp add: line_distance_def fl_minus v)
  have "?d (1 / 8) \<le> fl (1 / 8)" "?d (3 / 16) \<le> fl (3 / 16)" "fl (1 / 4) \<le> ?d (3 / 8)"
    using assms by (auto intro!: fl_mono simp: field_simps)
  then have d: "?d (1 / 8) \<le> 1 / 8" "?d (3 / 16) \<le> 3 / 16" "1 / 4 \<le> ?d (3 / 8)" by (simp_all add: v)
  then have "Max (set (kneedle_distances fsqrt ?s)) = ?d (3 / 8)" unfolding k by (intro Max_eqI) auto
  moreover have "fl (1 / 100) \<le> fl (1 / 4)" by (rule fl_mono) simp
  ultimately show ?thesis using d v unfolding find_elbow_kneedle_def argmax_def k by (simp add: Let_def)
qed

end
