(* ===== verification/Context_Budget.thy ===== *)
theory Context_Budget
  imports Research_Context
begin

text \<open>
  The texts that deep research puts into a prompt: \<open>services/research/shared/file_reader.py\<close> and
  \<open>chunk_context_builder.py\<close>, which read and join texts within a token budget, and
  \<open>budget_calculator.py\<close>, which sets the budgets.

  Arguments: reading a file, the estimate of tokens and the imports of a file.
\<close>

subsection \<open>Reading files within a budget\<close>

definition TOKEN_BUDGET_PER_FILE :: int where "TOKEN_BUDGET_PER_FILE = 4000"
definition FILE_CONTENT_TOKENS_MAX :: int where "FILE_CONTENT_TOKENS_MAX = 50000"
definition PART_SEPARATOR :: string where
  "PART_SEPARATOR = [nl, nl] @ ''...'' @ [nl, nl]"

text \<open>
  The chunks are objects that the reader annotates: a group holds the positions of its chunks in the
  list of the call.
\<close>

definition path_of_chunk :: "rchunk \<Rightarrow> string" where
  "path_of_chunk c = str_or (k_file_path c) (get_default (k_path c) [])"

definition group_by_file :: "rchunk list \<Rightarrow> (string, nat list) pydict" where
  "group_by_file chunks =
     fold (\<lambda>i d. let p = path_of_chunk (chunks ! i) in
       if p = [] then d else dict_set p ((case dict_get d p of None \<Rightarrow> [] | Some is \<Rightarrow> is) @ [i]) d)
       [0..<length chunks] []"

record read_state =
  rd_contents :: "(string, string) pydict"
  rd_total :: int
  rd_chunks :: "rchunk list"

text \<open>The parts of a file that is too large, in the order of its chunks; a chunk with an invalid range has none.\<close>

fun extract_parts :: "string list \<Rightarrow> string \<Rightarrow> nat list \<Rightarrow> rchunk list \<Rightarrow> string list \<times> rchunk list" where
  "extract_parts ls p [] chunks = ([], chunks)"
| "extract_parts ls p (i # is) chunks =
     (let c = chunks ! i;
          (a, b) = expand_to_natural_boundaries ls (get_default (k_start_line c) 1) (get_default (k_end_line c) 1) c p
      in if a = 0 \<and> b = 0 then extract_parts ls p is chunks
         else
           let chunks' = chunks[i := c\<lparr>k_expanded_start_line := Some a, k_expanded_end_line := Some b\<rparr>];
               start_idx = max 0 (a - 1); end_idx = min (int (length ls)) b;
               (parts, chunks'') = extract_parts ls p is chunks'
           in (join_with [nl] (py_drop start_idx (py_take end_idx ls)) # parts, chunks''))"

text \<open>
  \<open>add_text\<close> is the end of both branches: the text if it fits, else its beginning if more than 500
  tokens are left, and then the loop ends.
\<close>

definition add_text ::
  "(string \<Rightarrow> int) \<Rightarrow> int option \<Rightarrow> string \<Rightarrow> string \<Rightarrow> read_state \<Rightarrow> read_state \<times> bool" where
  "add_text est limit p text st =
     (case limit of
        None \<Rightarrow> (st\<lparr>rd_contents := dict_set p text (rd_contents st), rd_total := rd_total st + est text\<rparr>, True)
      | Some b \<Rightarrow>
          (if rd_total st + est text \<le> b
           then (st\<lparr>rd_contents := dict_set p text (rd_contents st), rd_total := rd_total st + est text\<rparr>, True)
           else
             let remaining = b - rd_total st
             in (if remaining > 500
                 then st\<lparr>rd_contents := dict_set p (py_take (remaining * 4) text) (rd_contents st), rd_total := b\<rparr>
                 else st, False)))"

text \<open>\<open>read p\<close>: \<open>Inl\<close> when reading raises, \<open>Inr None\<close> when the path does not exist.\<close>

fun read_files_loop ::
  "(string \<Rightarrow> string option result) \<Rightarrow> (string \<Rightarrow> int) \<Rightarrow> int option \<Rightarrow> (string, nat list) pydict \<Rightarrow> read_state \<Rightarrow> read_state" where
  "read_files_loop read est limit [] st = st"
| "read_files_loop read est limit ((p, is) # files) st =
     (if (case limit of None \<Rightarrow> False | Some b \<Rightarrow> rd_total st \<ge> b) then st
      else case read p of
        Inl e \<Rightarrow> read_files_loop read est limit files st
      | Inr None \<Rightarrow> read_files_loop read est limit files st
      | Inr (Some content) \<Rightarrow>
          (let budget = min (TOKEN_BUDGET_PER_FILE * int (length is)) FILE_CONTENT_TOKENS_MAX;
               (st', continue) =
                 (if est content \<le> budget then add_text est limit p content st
                  else
                    let (parts, chunks) = extract_parts (split_on nl content) p is (rd_chunks st)
                    in add_text est limit p (join_with PART_SEPARATOR parts) (st\<lparr>rd_chunks := chunks\<rparr>))
           in if continue then read_files_loop read est limit files st' else st'))"

definition read_files_with_budget ::
  "(string \<Rightarrow> string option result) \<Rightarrow> (string \<Rightarrow> int) \<Rightarrow> rchunk list \<Rightarrow> int option \<Rightarrow>
     (string, string) pydict result \<times> rchunk list" where
  "read_files_with_budget read est chunks max_tokens =
     (let st = read_files_loop read est max_tokens (group_by_file chunks)
                 \<lparr>rd_contents = [], rd_total = 0, rd_chunks = chunks\<rparr>
      in (if chunks \<noteq> [] \<and> rd_contents st = [] then Inl RuntimeError else Inr (rd_contents st), rd_chunks st))"

definition is_file_fully_read :: "string \<Rightarrow> bool" where
  "is_file_fully_read file_content = (\<not> str_contains file_content PART_SEPARATOR)"

subsection \<open>What the reader returns\<close>

lemma dict_ok_group_by_file: "dict_ok (group_by_file chunks)"
proof -
  have "dict_ok d \<Longrightarrow> dict_ok (fold (\<lambda>i d. let p = path_of_chunk (chunks ! i) in
       if p = [] then d else dict_set p ((case dict_get d p of None \<Rightarrow> [] | Some is \<Rightarrow> is) @ [i]) d) js d)" for js d
    by (induction js arbitrary: d) (auto simp: Let_def)
  then show ?thesis unfolding group_by_file_def by blast
qed

text \<open>The lines \<open>a\<close> to \<open>b\<close> of a file.\<close>

definition range_text :: "string list \<Rightarrow> int \<times> int \<Rightarrow> string" where
  "range_text ls r = join_with [nl] (drop (nat (fst r - 1)) (take (nat (snd r)) ls))"

definition ranges_in :: "string list \<Rightarrow> (int \<times> int) list \<Rightarrow> bool" where
  "ranges_in ls rs \<longleftrightarrow> (\<forall>(a, b)\<in>set rs. 1 \<le> a \<and> a \<le> b \<and> b \<le> int (length ls))"

lemma extract_parts_ranges:
  "\<exists>rs. fst (extract_parts ls p is chunks) = map (range_text ls) rs \<and> ranges_in ls rs"
proof (induction ls p "is" chunks rule: extract_parts.induct)
  case (1 ls p chunks)
  show ?case by (simp add: ranges_in_def)
next
  case (2 ls p i "is" chunks)
  let ?c = "chunks ! i"
  obtain a b where e:
    "expand_to_natural_boundaries ls (get_default (k_start_line ?c) 1) (get_default (k_end_line ?c) 1) ?c p = (a, b)"
    by fastforce
  show ?case
  proof (cases "a = 0 \<and> b = 0")
    case True
    then show ?thesis using 2(1) [OF refl e [symmetric] refl] e by simp
  next
    case False
    from 2(2) [OF refl e [symmetric] refl False refl refl refl] obtain rs where
      rs: "fst (extract_parts ls p is (chunks[i := ?c\<lparr>k_expanded_start_line := Some a, k_expanded_end_line := Some b\<rparr>]))
        = map (range_text ls) rs" "ranges_in ls rs" by blast
    have ab: "1 \<le> a" "a \<le> b" "b \<le> int (length ls)"
      using expanded_range [OF e] False by (auto split: if_splits)
    then have "join_with [nl] (py_drop (max 0 (a - 1)) (py_take (min (int (length ls)) b) ls)) = range_text ls (a, b)"
      by (simp add: range_text_def py_take_nonneg py_drop_nonneg min_def max_def)
    with rs ab False e show ?thesis
      by (intro exI [of _ "(a, b) # rs"]) (auto simp: Let_def ranges_in_def split: prod.splits)
  qed
qed

definition excerpt :: "string \<Rightarrow> string \<Rightarrow> bool" where
  "excerpt content t \<longleftrightarrow> (\<exists>n. t = take n content) \<or>
     (\<exists>rs n. ranges_in (split_on nl content) rs \<and> t = take n (join_with PART_SEPARATOR (map (range_text (split_on nl content)) rs)))"

lemma excerpt_take: "excerpt content t \<Longrightarrow> excerpt content (take n t)"
  unfolding excerpt_def by (metis take_take)

lemma excerpt_full: "excerpt content content"
  unfolding excerpt_def by (rule disjI1, rule exI [of _ "length content"]) simp

lemma excerpt_parts: "excerpt content (join_with PART_SEPARATOR (fst (extract_parts (split_on nl content) p is chunks)))"
proof -
  from extract_parts_ranges [of "split_on nl content" p "is" chunks] obtain rs where
    "fst (extract_parts (split_on nl content) p is chunks) = map (range_text (split_on nl content)) rs"
    "ranges_in (split_on nl content) rs" by blast
  then show ?thesis unfolding excerpt_def
    by (intro disjI2 exI [of _ rs] exI [of _ "length (join_with PART_SEPARATOR (map (range_text (split_on nl content)) rs))"])
      simp
qed

definition contents_from :: "(string \<Rightarrow> string option result) \<Rightarrow> (string, string) pydict \<Rightarrow> bool" where
  "contents_from read d \<longleftrightarrow> (\<forall>(p, t)\<in>set d. \<exists>content. read p = Inr (Some content) \<and> excerpt content t)"

definition tokens_of :: "(string \<Rightarrow> int) \<Rightarrow> (string, string) pydict \<Rightarrow> int" where
  "tokens_of est d = sum_list (map est (dict_values d))"

definition in_budget :: "(string \<Rightarrow> int) \<Rightarrow> int option \<Rightarrow> read_state \<Rightarrow> bool" where
  "in_budget est limit st \<longleftrightarrow> (case limit of None \<Rightarrow> True | Some b \<Rightarrow> tokens_of est (rd_contents st) \<le> rd_total st \<and> rd_total st \<le> b)"

text \<open>An estimate counts four characters or more for a token.\<close>

definition four_chars :: "(string \<Rightarrow> int) \<Rightarrow> bool" where
  "four_chars est \<longleftrightarrow> (\<forall>s. 0 \<le> est s \<and> 4 * est s \<le> int (length s))"

lemma tokens_of_new: "p \<notin> fst ` set d \<Longrightarrow> tokens_of est (dict_set p t d) = tokens_of est d + est t"
  by (simp add: tokens_of_def dict_values_def dict_set_new)

lemma add_text_ok:
  assumes "add_text est limit p text st = (st', continue)" "p \<notin> fst ` set (rd_contents st)" "in_budget est limit st"
    "four_chars est" "read p = Inr (Some content)" "excerpt content text" "contents_from read (rd_contents st)"
  shows "in_budget est limit st' \<and> contents_from read (rd_contents st') \<and> fst ` set (rd_contents st') \<subseteq> insert p (fst ` set (rd_contents st))"
proof -
  have c: "contents_from read (dict_set p t (rd_contents st))" if "excerpt content t" for t
    using assms(2,5,7) that by (auto simp: contents_from_def dict_set_new)
  show ?thesis
  proof (cases "\<exists>b. limit = Some b \<and> \<not> rd_total st + est text \<le> b \<and> b - rd_total st > 500")
    case False
    then have "(st' = st \<and> limit \<noteq> None)
        \<or> st' = st\<lparr>rd_contents := dict_set p text (rd_contents st), rd_total := rd_total st + est text\<rparr>
          \<and> (\<forall>b. limit = Some b \<longrightarrow> rd_total st + est text \<le> b)"
      using assms(1) by (auto simp: add_text_def Let_def split: option.splits if_splits)
    then show ?thesis using assms(2,3,7) c [OF assms(6)] keys_dict_set [of p "text" "rd_contents st"]
      by (elim disjE conjE; cases limit; simp add: in_budget_def tokens_of_new subset_insertI)
  next
    case True
    then obtain b where b: "limit = Some b" "\<not> rd_total st + est text \<le> b" "b - rd_total st > 500" by blast
    define t where "t = py_take ((b - rd_total st) * 4) text"
    have take: "t = take (nat ((b - rd_total st) * 4)) text" using b(3) by (simp add: t_def py_take_nonneg)
    have "4 * est t \<le> int (length t)" using assms(4) by (simp add: four_chars_def)
    also have "\<dots> \<le> (b - rd_total st) * 4" unfolding take using b(3) by simp
    finally have "est t \<le> b - rd_total st" by simp
    moreover have "contents_from read (dict_set p t (rd_contents st))"
      unfolding take by (intro c excerpt_take assms(6))
    moreover have "st' = st\<lparr>rd_contents := dict_set p t (rd_contents st), rd_total := b\<rparr>"
      using assms(1) b unfolding t_def by (simp add: add_text_def Let_def)
    ultimately show ?thesis using assms(2,3) b(1) keys_dict_set [of p t "rd_contents st"]
      by (simp add: in_budget_def tokens_of_new subset_insertI)
  qed
qed

lemma read_files_loop_ok:
  assumes "four_chars est"
  shows "dict_ok files \<Longrightarrow> fst ` set files \<inter> fst ` set (rd_contents st) = {} \<Longrightarrow> in_budget est limit st \<Longrightarrow>
    contents_from read (rd_contents st) \<Longrightarrow>
    in_budget est limit (read_files_loop read est limit files st) \<and> contents_from read (rd_contents (read_files_loop read est limit files st))"
proof (induction files arbitrary: st)
  case (Cons f files)
  obtain p "is" where f: "f = (p, is)" by fastforce
  have rest: "dict_ok files" "p \<notin> fst ` set files" "p \<notin> fst ` set (rd_contents st)"
    using Cons.prems(1,2) f by (auto simp: dict_ok_def)
  have skip: "in_budget est limit (read_files_loop read est limit files st)
    \<and> contents_from read (rd_contents (read_files_loop read est limit files st))"
    using Cons.prems rest by (intro Cons.IH) auto
  show ?case
  proof (cases "(case limit of None \<Rightarrow> False | Some b \<Rightarrow> rd_total st \<ge> b) \<or> (\<nexists>content. read p = Inr (Some content))")
    case True
    then show ?thesis using skip Cons.prems f by (auto split: sum.splits option.splits)
  next
    case False
    then obtain content where r: "read p = Inr (Some content)" by blast
    let ?e = "extract_parts (split_on nl content) p is (rd_chunks st)"
    define whole where "whole = (est content \<le> min (TOKEN_BUDGET_PER_FILE * int (length is)) FILE_CONTENT_TOKENS_MAX)"
    define body where "body = (if whole then content else join_with PART_SEPARATOR (fst ?e))"
    define st0 where "st0 = (if whole then st else st\<lparr>rd_chunks := snd ?e\<rparr>)"
    have st0: "rd_contents st0 = rd_contents st" "in_budget est limit st0"
      using Cons.prems(3) by (cases limit; simp add: st0_def in_budget_def)+
    have "excerpt content body" unfolding body_def using excerpt_full excerpt_parts by simp
    moreover obtain st' continue where q': "add_text est limit p body st0 = (st', continue)" by fastforce
    ultimately have new: "in_budget est limit st' \<and> contents_from read (rd_contents st')
        \<and> fst ` set (rd_contents st') \<subseteq> insert p (fst ` set (rd_contents st))"
      using add_text_ok [of est limit p body st0 st' continue read content] q' st0(2) assms r rest(3) Cons.prems(4)
      unfolding st0(1) by blast
    have eq: "read_files_loop read est limit (f # files) st = (if continue then read_files_loop read est limit files st' else st')"
      using False f r q' unfolding body_def st0_def whole_def by (auto simp: Let_def split: prod.splits if_splits)
    have "fst ` set files \<inter> fst ` set (rd_contents st') = {}"
    proof -
      have "fst ` set files \<inter> fst ` set (rd_contents st) = {}" using Cons.prems(2) f by simp
      then show ?thesis using new rest(2) by blast
    qed
    with Cons.IH [of st'] rest(1) new show ?thesis unfolding eq by simp
  qed
qed simp



definition quarter :: "string \<Rightarrow> int" where
  "quarter s = int (length s) div 4"

definition one_file :: "string \<Rightarrow> string option result" where
  "one_file p = (if p = ''a.txt'' then Inr (Some (''first'' @ [nl] @ ''second'' @ [nl] @ ''third'')) else Inr None)"

definition text_chunk :: rchunk where
  "text_chunk = empty_rchunk\<lparr>k_file_path := Some ''a.txt'', k_start_line := Some 2, k_end_line := Some 2\<rparr>"

lemma four_chars_quarter: "four_chars quarter"
  by (auto simp: four_chars_def quarter_def)


text \<open>
  A file that is too large and has one chunk is returned in part and counts as read in full, for its
  one part needs no separator; and a file none of whose chunks has a valid range is returned as an
  empty text, which the check against data loss does not see.
\<close>

definition large :: "string \<Rightarrow> int" where
  "large s = (if length s < 10 then 2 else 5000)"

theorem partial_read_counts_as_full:
  "fst (read_files_with_budget one_file large [text_chunk] None) = Inr [(''a.txt'', ''second'')]
     \<and> is_file_fully_read ''second''"
  by code_simp

theorem empty_read_not_noticed:
  "fst (read_files_with_budget one_file large [text_chunk\<lparr>k_end_line := Some 9\<rparr>] None) = Inr [(''a.txt'', '''')]"
  by code_simp

subsection \<open>The context of a prompt\<close>

definition get_chunk_text :: "rchunk \<Rightarrow> string" where
  "get_chunk_text c = str_or (k_content c) (str_or (k_code c) (str_or (k_text c) []))"

text \<open>\<open>estimator\<close> is \<open>None\<close> without a language model manager; an exception of the provider falls back too.\<close>

definition context_tokens :: "(string \<Rightarrow> int result) option \<Rightarrow> string \<Rightarrow> int" where
  "context_tokens estimator s =
     (case estimator of
        None \<Rightarrow> int (length s) div 4
      | Some f \<Rightarrow> (case f s of Inr n \<Rightarrow> n | Inl e \<Rightarrow> int (length s) div 4))"

definition or_question :: "int option \<Rightarrow> string" where
  "or_question v = (case v of None \<Rightarrow> ''?'' | Some n \<Rightarrow> str_int n)"

definition summary_line :: "rchunk \<Rightarrow> string" where
  "summary_line c =
     ''- Lines '' @ or_question (k_start_line c) @ ''-'' @ or_question (k_end_line c)
       @ (let symbol = get_default (k_symbol c) [] in if symbol \<noteq> [] then '' ('' @ symbol @ '')'' else [])
       @ '': '' @ take 200 (get_chunk_text c) @ ''...''"

definition build_chunk_summary :: "rchunk list \<Rightarrow> int \<Rightarrow> string" where
  "build_chunk_summary chunks max_chunks =
     (if chunks = [] then ''(no chunks)''
      else let chunk_summaries = map summary_line (py_take max_chunks chunks)
           in if chunk_summaries \<noteq> [] then join_with [nl] chunk_summaries else ''(no chunks)'')"

definition context_path :: "rchunk \<Rightarrow> string" where
  "context_path c = get_default (k_file_path c) ''unknown''"

definition chunks_by_file :: "rchunk list \<Rightarrow> (string, rchunk list) pydict" where
  "chunks_by_file chunks =
     fold (\<lambda>c d. dict_set (context_path c) ((case dict_get d (context_path c) of None \<Rightarrow> [] | Some cs \<Rightarrow> cs) @ [c]) d) chunks []"

text \<open>
  \<open>get_imports path content\<close> is \<open>None\<close> when the service raises; \<open>imports\<close> is \<open>None\<close> without a service.
\<close>

definition imports_header :: "(string \<Rightarrow> string \<Rightarrow> string list option) option \<Rightarrow> string \<Rightarrow> rchunk list \<Rightarrow> string" where
  "imports_header imports path file_chunks =
     (case imports of
        None \<Rightarrow> []
      | Some get_imports \<Rightarrow>
          (if file_chunks = [] then []
           else case get_imports path (get_chunk_text (hd file_chunks)) of
             None \<Rightarrow> []
           | Some is \<Rightarrow> if is = [] then [] else ''# Imports:'' @ [nl] @ join_with [nl] is @ [nl, nl]))"

definition TRUNCATED :: string where
  "TRUNCATED = [nl] @ ''... (truncated)''"

text \<open>The loop both contexts share: texts while they fit, then the beginning of the next if more than \<open>least\<close> tokens are left.\<close>

fun take_entries :: "(string \<Rightarrow> int) \<Rightarrow> int \<Rightarrow> int \<Rightarrow> int \<Rightarrow> string list \<Rightarrow> string list" where
  "take_entries est max_tokens least current_tokens [] = []"
| "take_entries est max_tokens least current_tokens (entry # entries) =
     (if current_tokens + est entry > max_tokens
      then (let remaining = max_tokens - current_tokens
            in if remaining > least then [py_take (remaining * 4) entry @ TRUNCATED] else [])
      else entry # take_entries est max_tokens least (current_tokens + est entry) entries)"

definition context_entry :: "(string \<Rightarrow> string \<Rightarrow> string list option) option \<Rightarrow> rchunk list \<Rightarrow> rchunk \<Rightarrow> string" where
  "context_entry imports chunks c =
     ''File: '' @ context_path c @ [nl]
       @ imports_header imports (context_path c) (get_default (dict_get (chunks_by_file chunks) (context_path c)) [])
       @ get_chunk_text c @ [nl]"

definition build_code_context_with_imports ::
  "(string \<Rightarrow> string \<Rightarrow> string list option) option \<Rightarrow> (string \<Rightarrow> int) \<Rightarrow> rchunk list \<Rightarrow> int \<Rightarrow> string" where
  "build_code_context_with_imports imports est chunks max_tokens =
     join_with [nl] (take_entries est max_tokens 100 0 (map (context_entry imports chunks) chunks))"

definition grouped_text ::
  "(string \<Rightarrow> string \<Rightarrow> string list option) option \<Rightarrow> (string \<Rightarrow> int) \<Rightarrow> int \<Rightarrow> bool \<Rightarrow> string \<times> rchunk list \<Rightarrow> string" where
  "grouped_text imports est max_tokens include_imports pc =
     (let header = (if include_imports then imports_header imports (fst pc) (snd pc) else [])
      in join_with [nl]
           ((if header = [] then [] else [header])
             @ take_entries est max_tokens 10 (if header = [] then 0 else est header) (map get_chunk_text (snd pc))))"

definition build_file_grouped_context ::
  "(string \<Rightarrow> string \<Rightarrow> string list option) option \<Rightarrow> (string \<Rightarrow> int) \<Rightarrow> rchunk list \<Rightarrow> int \<Rightarrow> bool \<Rightarrow> (string, string) pydict" where
  "build_file_grouped_context imports est chunks max_tokens include_imports =
     map (\<lambda>pc. (fst pc, grouped_text imports est max_tokens include_imports pc)) (chunks_by_file chunks)"


subsection \<open>The length of a context\<close>

definition joined_size :: "string list \<Rightarrow> int" where
  "joined_size es = sum_list (map (\<lambda>e. int (length e) + 1) es)"

lemma length_join: "int (length (join_with [nl] es)) \<le> joined_size es"
proof (induction es)
  case (Cons e es)
  then show ?case by (cases es) (simp_all add: joined_size_def)
qed (simp add: joined_size_def)

lemma take_entries_size:
  assumes "\<And>e. int (length e) \<le> 4 * est e + 3"
  shows "cur \<le> mx \<Longrightarrow> 0 \<le> least \<Longrightarrow>
    joined_size (take_entries est mx least cur es) \<le> 4 * (mx - cur) + 4 * int (length es) + 13"
proof (induction es arbitrary: cur)
  case (Cons e es)
  show ?case
  proof (cases "cur + est e > mx")
    case True
    have "int (length (py_take ((mx - cur) * 4) e)) \<le> 4 * (mx - cur)"
      using Cons.prems(1) by (simp add: py_take_nonneg)
    then show ?thesis using True Cons.prems
      by (auto simp: joined_size_def TRUNCATED_def Let_def split: if_splits)
  next
    case False
    with Cons.IH [of "cur + est e"] Cons.prems assms [of e] show ?thesis by (simp add: joined_size_def)
  qed
qed (simp add: joined_size_def)

lemma take_entries_prefix:
  "\<exists>k. take_entries est mx least cur es = take k es
     \<or> k < length es \<and> take_entries est mx least cur es = take k es @ [py_take ((mx - sum_list (map est (take k es)) - cur) * 4) (es ! k) @ TRUNCATED]"
proof (induction es arbitrary: cur)
  case (Cons e es)
  show ?case
  proof (cases "cur + est e > mx")
    case True
    then show ?thesis by (intro exI [of _ 0]) (auto simp: Let_def)
  next
    case False
    from Cons.IH [of "cur + est e"] obtain k where
      "take_entries est mx least (cur + est e) es = take k es
        \<or> k < length es \<and> take_entries est mx least (cur + est e) es
          = take k es @ [py_take ((mx - sum_list (map est (take k es)) - (cur + est e)) * 4) (es ! k) @ TRUNCATED]" by blast
    with False show ?thesis by (intro exI [of _ "Suc k"]) (auto simp: algebra_simps)
  qed
qed simp

text \<open>
  a code context keeps its budget and its order: without a language model (four characters for a
  token) it has at most four characters for each token of the budget, four for each chunk and twelve,
  and it consists of the entries of the first chunks, whole, of which only the last can be cut.
\<close>

theorem code_context_bounded:
  assumes "0 \<le> max_tokens"
  shows "int (length (build_code_context_with_imports imports (context_tokens None) chunks max_tokens))
      \<le> 4 * max_tokens + 4 * int (length chunks) + 13
    \<and> (\<exists>k cut. build_code_context_with_imports imports (context_tokens None) chunks max_tokens
        = join_with [nl] (take k (map (context_entry imports chunks) chunks) @ cut)
        \<and> (cut = [] \<or> k < length chunks
             \<and> (\<exists>n. cut = [take n (context_entry imports chunks (chunks ! k)) @ TRUNCATED])))"
proof -
  let ?es = "map (context_entry imports chunks) chunks" and ?est = "context_tokens None"
  let ?out = "take_entries ?est max_tokens 100 0 ?es"
  have "int (length e) \<le> 4 * ?est e + 3" for e by (simp add: context_tokens_def)
  from take_entries_size [OF this assms, of 100 ?es] length_join [of ?out]
  have size: "int (length (join_with [nl] ?out)) \<le> 4 * max_tokens + 4 * int (length chunks) + 13" by simp
  from take_entries_prefix [of ?est max_tokens 100 0 ?es] obtain k where
    k: "?out = take k ?es \<or> k < length ?es \<and>
      ?out = take k ?es @ [py_take ((max_tokens - sum_list (map ?est (take k ?es)) - 0) * 4) (?es ! k) @ TRUNCATED]" by blast
  have "\<exists>cut. ?out = take k ?es @ cut \<and> (cut = [] \<or> k < length chunks
      \<and> (\<exists>n. cut = [take n (context_entry imports chunks (chunks ! k)) @ TRUNCATED]))"
    using k unfolding py_take_def by (auto simp del: take_map)
  with size show ?thesis unfolding build_code_context_with_imports_def by metis
qed

theorem code_context_bounded_witness:
  "length (build_code_context_with_imports None (context_tokens None) [text_chunk, text_chunk] 200) \<le> 821"
proof -
  have "0 \<le> (200 :: int)" by simp
  from code_context_bounded [OF this, of None "[text_chunk, text_chunk]"] show ?thesis by simp
qed

subsection \<open>Budgets\<close>

definition CHUNKS_TO_LOC_ESTIMATE :: int where "CHUNKS_TO_LOC_ESTIMATE = 20"
definition LOC_THRESHOLD_TINY :: int where "LOC_THRESHOLD_TINY = 10000"
definition LOC_THRESHOLD_SMALL :: int where "LOC_THRESHOLD_SMALL = 100000"
definition LOC_THRESHOLD_MEDIUM :: int where "LOC_THRESHOLD_MEDIUM = 1000000"
definition SYNTHESIS_INPUT_TOKENS_TINY :: int where "SYNTHESIS_INPUT_TOKENS_TINY = 30000"
definition SYNTHESIS_INPUT_TOKENS_SMALL :: int where "SYNTHESIS_INPUT_TOKENS_SMALL = 50000"
definition SYNTHESIS_INPUT_TOKENS_MEDIUM :: int where "SYNTHESIS_INPUT_TOKENS_MEDIUM = 80000"
definition SYNTHESIS_INPUT_TOKENS_LARGE :: int where "SYNTHESIS_INPUT_TOKENS_LARGE = 150000"
definition SINGLE_PASS_OVERHEAD_TOKENS :: int where "SINGLE_PASS_OVERHEAD_TOKENS = 5000"
definition OUTPUT_TOKENS_WITH_REASONING :: int where "OUTPUT_TOKENS_WITH_REASONING = 30000"

record synthesis_budgets =
  sb_input_tokens :: int
  sb_output_tokens :: int
  sb_overhead_tokens :: int
  sb_total_tokens :: int

text \<open>\<open>env_cap\<close> is the value of CHUNKHOUND_SYNTHESIS_INPUT_TOKENS_MAX.\<close>

definition capped_input :: "string option \<Rightarrow> int \<Rightarrow> int" where
  "capped_input env_cap input_tokens =
     (case env_cap of
        None \<Rightarrow> input_tokens
      | Some s \<Rightarrow>
          (if s = [] then input_tokens
           else case py_int_of_str s of
             Inl e \<Rightarrow> input_tokens
           | Inr cap_value \<Rightarrow> if cap_value > 0 then min input_tokens cap_value else input_tokens))"

definition scaled_input :: "int \<Rightarrow> int" where
  "scaled_input estimated_loc =
     (if estimated_loc < LOC_THRESHOLD_TINY then SYNTHESIS_INPUT_TOKENS_TINY
      else if estimated_loc < LOC_THRESHOLD_SMALL then SYNTHESIS_INPUT_TOKENS_SMALL
      else if estimated_loc < LOC_THRESHOLD_MEDIUM then SYNTHESIS_INPUT_TOKENS_MEDIUM
      else SYNTHESIS_INPUT_TOKENS_LARGE)"

definition calculate_synthesis_budgets :: "string option \<Rightarrow> int option \<Rightarrow> synthesis_budgets" where
  "calculate_synthesis_budgets env_cap chunk_count =
     (let estimated_loc = get_default chunk_count 0 * CHUNKS_TO_LOC_ESTIMATE;
          input_tokens = capped_input env_cap (scaled_input estimated_loc)
      in \<lparr>sb_input_tokens = input_tokens, sb_output_tokens = OUTPUT_TOKENS_WITH_REASONING,
          sb_overhead_tokens = SINGLE_PASS_OVERHEAD_TOKENS,
          sb_total_tokens = input_tokens + OUTPUT_TOKENS_WITH_REASONING + SINGLE_PASS_OVERHEAD_TOKENS\<rparr>)"

definition ENABLE_ADAPTIVE_BUDGETS :: bool where "ENABLE_ADAPTIVE_BUDGETS = True"
definition FILE_CONTENT_TOKENS_MIN :: int where "FILE_CONTENT_TOKENS_MIN = 10000"
definition LLM_INPUT_TOKENS_MIN :: int where "LLM_INPUT_TOKENS_MIN = 15000"
definition LLM_INPUT_TOKENS_MAX :: int where "LLM_INPUT_TOKENS_MAX = 60000"
definition LEAF_ANSWER_TOKENS_BASE :: int where "LEAF_ANSWER_TOKENS_BASE = 18000"
definition LEAF_ANSWER_TOKENS_BONUS :: int where "LEAF_ANSWER_TOKENS_BONUS = 3000"
definition INTERNAL_ROOT_TARGET :: int where "INTERNAL_ROOT_TARGET = 11000"
definition INTERNAL_MAX_TOKENS :: int where "INTERNAL_MAX_TOKENS = 19000"
definition FOLLOWUP_OUTPUT_TOKENS_MIN :: int where "FOLLOWUP_OUTPUT_TOKENS_MIN = 8000"
definition FOLLOWUP_OUTPUT_TOKENS_MAX :: int where "FOLLOWUP_OUTPUT_TOKENS_MAX = 15000"
definition MAX_FILE_CONTENT_TOKENS :: int where "MAX_FILE_CONTENT_TOKENS = 3000"
definition MAX_LLM_INPUT_TOKENS :: int where "MAX_LLM_INPUT_TOKENS = 5000"
definition MAX_LEAF_ANSWER_TOKENS :: int where "MAX_LEAF_ANSWER_TOKENS = 400"
definition MAX_SYNTHESIS_TOKENS :: int where "MAX_SYNTHESIS_TOKENS = 600"

record token_budgets =
  tb_file_content_tokens :: int
  tb_llm_input_tokens :: int
  tb_answer_tokens :: int
  tb_followup_output_tokens :: "int option"

text \<open>\<open>int(base + extent * depth_ratio)\<close>.\<close>

definition interpolate :: "int \<Rightarrow> int \<Rightarrow> rat \<Rightarrow> int" where
  "interpolate base extent depth_ratio = py_trunc (fl (fl (of_int base) + py_fmul depth_ratio extent))"

definition get_adaptive_token_budgets :: "int \<Rightarrow> int \<Rightarrow> bool \<Rightarrow> token_budgets" where
  "get_adaptive_token_budgets depth max_depth is_leaf =
     (if \<not> ENABLE_ADAPTIVE_BUDGETS
      then \<lparr>tb_file_content_tokens = MAX_FILE_CONTENT_TOKENS, tb_llm_input_tokens = MAX_LLM_INPUT_TOKENS,
            tb_answer_tokens = (if is_leaf then MAX_LEAF_ANSWER_TOKENS else MAX_SYNTHESIS_TOKENS),
            tb_followup_output_tokens = None\<rparr>
      else
        let depth_ratio = py_truediv depth (max max_depth 1)
        in \<lparr>tb_file_content_tokens = interpolate FILE_CONTENT_TOKENS_MIN (FILE_CONTENT_TOKENS_MAX - FILE_CONTENT_TOKENS_MIN) depth_ratio,
            tb_llm_input_tokens = interpolate LLM_INPUT_TOKENS_MIN (LLM_INPUT_TOKENS_MAX - LLM_INPUT_TOKENS_MIN) depth_ratio,
            tb_answer_tokens =
              (if is_leaf then interpolate LEAF_ANSWER_TOKENS_BASE LEAF_ANSWER_TOKENS_BONUS depth_ratio
               else interpolate INTERNAL_ROOT_TARGET (INTERNAL_MAX_TOKENS - INTERNAL_ROOT_TARGET) depth_ratio),
            tb_followup_output_tokens =
              Some (interpolate FOLLOWUP_OUTPUT_TOKENS_MIN (FOLLOWUP_OUTPUT_TOKENS_MAX - FOLLOWUP_OUTPUT_TOKENS_MIN) depth_ratio)\<rparr>)"

lemmas budget_constants = FILE_CONTENT_TOKENS_MIN_def FILE_CONTENT_TOKENS_MAX_def LLM_INPUT_TOKENS_MIN_def LLM_INPUT_TOKENS_MAX_def
  LEAF_ANSWER_TOKENS_BASE_def LEAF_ANSWER_TOKENS_BONUS_def INTERNAL_ROOT_TARGET_def INTERNAL_MAX_TOKENS_def
  FOLLOWUP_OUTPUT_TOKENS_MIN_def FOLLOWUP_OUTPUT_TOKENS_MAX_def

lemma interpolate_bounds:
  assumes "0 \<le> r" "r \<le> 1" "0 \<le> base" "0 \<le> extent" "base + extent \<le> 2 ^ 53"
  shows "base \<le> interpolate base extent r" "interpolate base extent r \<le> base + extent"
proof -
  have "\<bar>base\<bar> \<le> 2 ^ 53" "\<bar>base + extent\<bar> \<le> 2 ^ 53" "extent \<le> 2 ^ 53" using assms by auto
  moreover have "0 \<le> py_fmul r extent" "py_fmul r extent \<le> of_int extent"
    using py_fmul_nonneg [of r extent] py_fmul_le [of r extent] assms calculation by auto
  moreover from this have "of_int base + py_fmul r extent \<le> of_int (base + extent)" by simp
  ultimately have "of_int base \<le> fl (fl (of_int base) + py_fmul r extent)"
    "fl (fl (of_int base) + py_fmul r extent) \<le> of_int (base + extent)"
    using int_le_fl [of base "of_int base + py_fmul r extent"] fl_le_int [of "of_int base + py_fmul r extent" "base + extent"]
    by (simp_all add: fl_exact_int)
  then show "base \<le> interpolate base extent r" "interpolate base extent r \<le> base + extent"
    unfolding interpolate_def using le_py_trunc py_trunc_le by blast+
qed

lemma interpolate_mono: "0 \<le> extent \<Longrightarrow> r \<le> r' \<Longrightarrow> interpolate base extent r \<le> interpolate base extent r'"
  unfolding interpolate_def by (intro py_trunc_mono fl_mono add_left_mono py_fmul_mono)

lemma depth_ratio_bounds: "0 \<le> d \<Longrightarrow> d \<le> m \<Longrightarrow> 0 \<le> py_truediv d (max m 1) \<and> py_truediv d (max m 1) \<le> 1"
  using py_truediv_nonneg [of d "max m 1"] py_truediv_le_1 [of d "max m 1"] by auto

definition adaptive_list :: "token_budgets \<Rightarrow> int list" where
  "adaptive_list b = [tb_file_content_tokens b, tb_llm_input_tokens b, tb_answer_tokens b,
     get_default (tb_followup_output_tokens b) 0]"

lemma adaptive_list_eq:
  "adaptive_list (get_adaptive_token_budgets d m leaf) = map (\<lambda>(base, extent). interpolate base extent (py_truediv d (max m 1)))
     [(10000, 40000), (15000, 45000), if leaf then (18000, 3000) else (11000, 8000), (8000, 7000)]"
  by (simp add: adaptive_list_def get_adaptive_token_budgets_def ENABLE_ADAPTIVE_BUDGETS_def Let_def budget_constants
      get_default_def)

lemma interpolate_step:
  assumes "0 \<le> r" "r \<le> r'" "r' \<le> 1" "0 \<le> base" "0 \<le> extent" "base + extent \<le> 100000"
  shows "base \<le> interpolate base extent r \<and> interpolate base extent r \<le> interpolate base extent r'
    \<and> interpolate base extent r' \<le> base + extent"
proof -
  have "base + extent \<le> 2 ^ 53" using assms(6) by simp
  with interpolate_bounds(1) [of r base extent] interpolate_bounds(2) [of r' base extent] interpolate_mono [of extent r r' base]
  show ?thesis using assms(1-5) by linarith
qed

text \<open>
  within the depth of the tree every adaptive budget stays between its two constants, whatever
  the rounding of the ratio, and none shrinks when a node is deeper.
\<close>

theorem adaptive_budgets_scale:
  assumes "0 \<le> d" "d \<le> d'" "d' \<le> m"
  shows "list_all2 (\<le>) [10000, 15000, if leaf then 18000 else 11000, 8000] (adaptive_list (get_adaptive_token_budgets d m leaf))
    \<and> list_all2 (\<le>) (adaptive_list (get_adaptive_token_budgets d m leaf)) (adaptive_list (get_adaptive_token_budgets d' m leaf))
    \<and> list_all2 (\<le>) (adaptive_list (get_adaptive_token_budgets d' m leaf)) [50000, 60000, if leaf then 21000 else 19000, 15000]"
proof -
  define r where "r = py_truediv d (max m 1)"
  define r' where "r' = py_truediv d' (max m 1)"
  have r: "0 \<le> r" "r \<le> r'" "r' \<le> 1"
    using assms depth_ratio_bounds [of d m] depth_ratio_bounds [of d' m]
    unfolding r_def r'_def by (auto intro!: py_truediv_mono)
  note step = interpolate_step [OF r]
  have "(10000 :: int) + 40000 \<le> 100000" "(15000 :: int) + 45000 \<le> 100000" "(18000 :: int) + 3000 \<le> 100000"
    "(11000 :: int) + 8000 \<le> 100000" "(8000 :: int) + 7000 \<le> 100000" by simp_all
  note steps = this [THEN step [rotated 2]]
  show ?thesis
    unfolding adaptive_list_eq r_def [symmetric] r'_def [symmetric] using steps by (cases leaf) simp_all
qed

theorem adaptive_budgets_scale_witness:
  "list_all2 (\<le>) (adaptive_list (get_adaptive_token_budgets 1 3 True)) (adaptive_list (get_adaptive_token_budgets 2 3 True))"
  using adaptive_budgets_scale [of 1 2 3 True] by simp


lemma capped_input_bounds: "0 < n \<Longrightarrow> 0 < capped_input env n \<and> capped_input env n \<le> n"
  by (auto simp: capped_input_def split: option.split sum.split)

lemma capped_input_mono: "m \<le> n \<Longrightarrow> capped_input env m \<le> capped_input env n"
  by (auto simp: capped_input_def min_def split: option.split sum.split)

lemma synthesis_budgets_grow:
  assumes "m \<le> n"
  shows "sb_input_tokens (calculate_synthesis_budgets env (Some m)) \<le> sb_input_tokens (calculate_synthesis_budgets env (Some n))
    \<and> 0 < sb_input_tokens (calculate_synthesis_budgets env (Some m))
    \<and> sb_total_tokens (calculate_synthesis_budgets env (Some n)) \<le> 185000"
proof -
  have "scaled_input (m * 20) \<le> scaled_input (n * 20)" "0 < scaled_input (m * 20)" "0 < scaled_input (n * 20)"
    "scaled_input (n * 20) \<le> 150000"
    using assms by (auto simp: scaled_input_def LOC_THRESHOLD_TINY_def LOC_THRESHOLD_SMALL_def LOC_THRESHOLD_MEDIUM_def
        SYNTHESIS_INPUT_TOKENS_TINY_def SYNTHESIS_INPUT_TOKENS_SMALL_def SYNTHESIS_INPUT_TOKENS_MEDIUM_def
        SYNTHESIS_INPUT_TOKENS_LARGE_def)
  with capped_input_mono [of "scaled_input (m * 20)" "scaled_input (n * 20)" env] capped_input_bounds [of _ env]
  show ?thesis
    by (fastforce simp: calculate_synthesis_budgets_def Let_def get_default_def CHUNKS_TO_LOC_ESTIMATE_def
        OUTPUT_TOKENS_WITH_REASONING_def SINGLE_PASS_OVERHEAD_TOKENS_def)
qed

text \<open>
  The documentation gives the root 5k to 8k tokens of output, the leaves 10k to 12k and the follow-up
  questions 3k to 8k; the root has 11k, the leaves 18k to 21k and the questions 8k to 15k.
\<close>

theorem root_budget_exceeds_documented:
  "tb_answer_tokens (get_adaptive_token_budgets 0 5 False) = 11000
     \<and> tb_answer_tokens (get_adaptive_token_budgets 5 5 True) = 21000
     \<and> tb_followup_output_tokens (get_adaptive_token_budgets 5 5 False) = Some 15000"
proof -
  have "0 \<le> (5 :: int)" by simp
  then have "interpolate 11000 8000 (py_truediv 0 (max 5 1)) = 11000" "interpolate 18000 3000 (py_truediv 5 (max 5 1)) = 21000"
    "interpolate 8000 7000 (py_truediv 5 (max 5 1)) = 15000"
    using fl_exact_int [of 11000] fl_exact_int [of 18000] fl_exact_int [of 3000] fl_exact_int [of 21000]
      fl_exact_int [of 8000] fl_exact_int [of 7000] fl_exact_int [of 15000] py_trunc_of_int [of 11000]
      py_trunc_of_int [of 21000] py_trunc_of_int [of 15000]
    by (simp_all add: interpolate_def py_truediv_def py_fmul_def)
  then show ?thesis
    by (simp add: get_adaptive_token_budgets_def ENABLE_ADAPTIVE_BUDGETS_def Let_def budget_constants)
qed

end
