(* ===== verification/Embedding_Batches.thy ===== *)
theory Embedding_Batches
  imports Batching
begin

text \<open>
  The concurrent batches of \<open>services/embedding_service.py\<close> (\<open>_generate_embeddings_in_batches\<close>):
  every batch is a task that holds a permit of a semaphore while it calls the provider and stores
  the vectors; on a token limit error it is halved and both halves are processed, one after the
  other, inside the call that holds the permit.  Tasks are switched at \<open>await\<close> only, so the model is
  a step relation with one step for each acquisition, each call with what follows it, and each
  release.

  \<open>attempt batch\<close> is the call of the provider together with the insertion of its vectors: the number
  of vectors it returned, or the message of the exception one of the two raised.
\<close>

type_synonym batch = "(int \<times> string) list"

definition is_token_limit_error :: "string \<Rightarrow> bool" where
  "is_token_limit_error message =
     (let error_message = py_lower message
      in list_ex (str_contains error_message) [''max allowed tokens'', ''token limit'', ''tokens per batch''])"

definition is_retried :: "nat \<Rightarrow> batch \<Rightarrow> string \<Rightarrow> bool" where
  "is_retried retry_depth b message \<longleftrightarrow> is_token_limit_error message \<and> length b > 1 \<and> retry_depth < 3"

subsection \<open>Tasks\<close>

text \<open>
  What a task still has to do, first things first: \<open>Enter\<close> is a call of \<open>process_batch\<close> that waits for
  a permit, \<open>Call\<close> its body with the permit, \<open>Leave\<close> the end of its \<open>async with\<close>.
\<close>

datatype item = Enter nat batch | Call nat batch | Leave

record emb_state =
  es_free :: nat
  es_tasks :: "item list list"
  es_stored :: "int list"

text \<open>The body: the ids it stores and the calls it goes on with.\<close>

definition run_body :: "(batch \<Rightarrow> string + nat) \<Rightarrow> nat \<Rightarrow> batch \<Rightarrow> int list \<times> item list" where
  "run_body attempt retry_depth b =
     (case attempt b of
        Inr n \<Rightarrow> if n \<noteq> length b then ([], []) else (map fst b, [])
      | Inl message \<Rightarrow>
          (if is_retried retry_depth b message
           then let mid = length b div 2
                in ([], [Enter (retry_depth + 1) (take mid b), Enter (retry_depth + 1) (drop mid b)])
           else ([], [])))"

inductive step :: "(batch \<Rightarrow> string + nat) \<Rightarrow> emb_state \<Rightarrow> emb_state \<Rightarrow> bool" for attempt where
  acquire: "i < length (es_tasks s) \<Longrightarrow> es_tasks s ! i = Enter d b # rest \<Longrightarrow> es_free s > 0 \<Longrightarrow>
    step attempt s (s\<lparr>es_free := es_free s - 1, es_tasks := (es_tasks s)[i := Call d b # Leave # rest]\<rparr>)"
| call: "i < length (es_tasks s) \<Longrightarrow> es_tasks s ! i = Call d b # rest \<Longrightarrow> run_body attempt d b = (ids, items) \<Longrightarrow>
    step attempt s (s\<lparr>es_stored := es_stored s @ ids, es_tasks := (es_tasks s)[i := items @ rest]\<rparr>)"
| release: "i < length (es_tasks s) \<Longrightarrow> es_tasks s ! i = Leave # rest \<Longrightarrow>
    step attempt s (s\<lparr>es_free := es_free s + 1, es_tasks := (es_tasks s)[i := rest]\<rparr>)"

inductive_cases step_elim: "step attempt s s'"

inductive steps :: "(batch \<Rightarrow> string + nat) \<Rightarrow> nat \<Rightarrow> emb_state \<Rightarrow> emb_state \<Rightarrow> bool" for attempt where
  steps_refl: "steps attempt 0 s s"
| steps_step: "steps attempt n s s' \<Longrightarrow> step attempt s' s'' \<Longrightarrow> steps attempt (Suc n) s s''"

definition start_state :: "nat \<Rightarrow> batch list \<Rightarrow> emb_state" where
  "start_state permits batches =
     \<lparr>es_free = permits, es_tasks = map (\<lambda>b. [Enter 0 b]) batches, es_stored = []\<rparr>"

definition finished :: "emb_state \<Rightarrow> bool" where
  "finished s \<longleftrightarrow> (\<forall>t\<in>set (es_tasks s). t = [])"

text \<open>The same work without a semaphore: what one call stores.\<close>

function process_batch :: "(batch \<Rightarrow> string + nat) \<Rightarrow> nat \<Rightarrow> batch \<Rightarrow> int list" where
  "process_batch attempt retry_depth b =
     (case attempt b of
        Inr n \<Rightarrow> if n \<noteq> length b then [] else map fst b
      | Inl message \<Rightarrow>
          (if is_retried retry_depth b message
           then let mid = length b div 2
                in process_batch attempt (retry_depth + 1) (take mid b) @ process_batch attempt (retry_depth + 1) (drop mid b)
           else []))"
  by pat_completeness auto
termination by (relation "measure (\<lambda>(_, d, _). 3 - d)") (auto simp: is_retried_def)

declare process_batch.simps [simp del]

text \<open>\<open>_generate_embeddings_in_batches\<close> when it returns: the stored ids and their number.\<close>

definition generate_in_batches ::
  "tokenizers \<Rightarrow> embedding_provider option \<Rightarrow> (batch \<Rightarrow> string + nat) \<Rightarrow> batch \<Rightarrow> int list \<times> nat" where
  "generate_in_batches tk provider attempt chunk_data =
     (if chunk_data = [] then ([], 0)
      else let stored = concat (map (process_batch attempt 0) (create_token_aware_batches tk provider chunk_data))
           in (stored, length stored))"

subsection \<open>Permits\<close>

definition held :: "item list \<Rightarrow> nat" where
  "held t = length (filter (\<lambda>x. x = Leave) t)"

fun task_ok :: "nat \<Rightarrow> item list \<Rightarrow> bool" where
  "task_ok D [] = True"
| "task_ok D (Enter d b # rest) \<longleftrightarrow> d \<le> D \<and> held rest = d \<and> task_ok D rest"
| "task_ok D (Call d b # rest) \<longleftrightarrow> d \<le> D \<and> held rest = d + 1 \<and> task_ok D rest"
| "task_ok D (Leave # rest) \<longleftrightarrow> task_ok D rest"

text \<open>No batch is retried at the depth \<open>D\<close>; for \<open>D = 3\<close> this holds always, for \<open>D = 0\<close> if no call reports a token limit.\<close>

definition retries_below :: "(batch \<Rightarrow> string + nat) \<Rightarrow> nat \<Rightarrow> bool" where
  "retries_below attempt D \<longleftrightarrow> (\<forall>b d message. attempt b = Inl message \<longrightarrow> is_retried d b message \<longrightarrow> d < D)"

lemma retries_below_3: "retries_below attempt 3"
  by (simp add: retries_below_def is_retried_def)

lemma held_simps [simp]:
  "held [] = 0" "held (Leave # t) = Suc (held t)" "held (Enter d b # t) = held t" "held (Call d b # t) = held t"
  "held (t @ u) = held t + held u"
  by (simp_all add: held_def)

lemma run_body_items:
  assumes "run_body attempt d b = (ids, items)" "retries_below attempt D" "d \<le> D" "held rest = d + 1" "task_ok D rest"
  shows "held items = 0 \<and> task_ok D (items @ rest)"
proof -
  have "Suc d \<le> D" if "attempt b = Inl message" "is_retried d b message" for message
    using assms(2) that by (auto simp: retries_below_def Suc_le_eq)
  then show ?thesis using assms(1,3-5) by (auto simp: run_body_def Let_def split: sum.splits if_splits)
qed

definition permits_ok :: "nat \<Rightarrow> nat \<Rightarrow> emb_state \<Rightarrow> bool" where
  "permits_ok permits D s \<longleftrightarrow> es_free s + sum_list (map held (es_tasks s)) = permits \<and> list_all (task_ok D) (es_tasks s)"

lemma sum_list_update_nat:
  "i < length xs \<Longrightarrow> sum_list (map f (xs[i := y])) + f (xs ! i) = sum_list (map f xs) + (f y :: nat)"
  by (induction xs arbitrary: i) (auto split: nat.split)

lemma list_all_update: "list_all P xs \<Longrightarrow> P y \<Longrightarrow> list_all P (xs[i := y])"
  by (auto simp: list_all_iff dest!: set_update_subset_insert [THEN subsetD])

lemma permits_ok_step:
  assumes "step attempt s s'" "permits_ok permits D s" "retries_below attempt D"
  shows "permits_ok permits D s'"
  using assms(1)
proof (cases rule: step.cases)
  case (acquire i d b rest)
  have "task_ok D (es_tasks s ! i)" using assms(2) acquire(2) by (simp add: permits_ok_def list_all_length)
  then have "task_ok D (Call d b # Leave # rest)" using acquire(3) by simp
  with assms(2) acquire sum_list_update_nat [of i "es_tasks s" held "Call d b # Leave # rest"] show ?thesis
    by (simp add: permits_ok_def list_all_update)
next
  case (call i d b rest ids items)
  have "task_ok D (es_tasks s ! i)" using assms(2) call(2) by (simp add: permits_ok_def list_all_length)
  then have "held items = 0 \<and> task_ok D (items @ rest)"
    using call(3) run_body_items [OF call(4) assms(3), of rest] by simp
  with assms(2) call sum_list_update_nat [of i "es_tasks s" held "items @ rest"] show ?thesis
    by (simp add: permits_ok_def list_all_update)
next
  case (release i rest)
  have "task_ok D (es_tasks s ! i)" using assms(2) release(2) by (simp add: permits_ok_def list_all_length)
  then have "task_ok D rest" using release(3) by simp
  with assms(2) release sum_list_update_nat [of i "es_tasks s" held rest] show ?thesis
    by (simp add: permits_ok_def list_all_update)
qed

lemma permits_ok_start: "permits_ok permits D (start_state permits batches)"
proof -
  have "sum_list (map held (map (\<lambda>b. [Enter 0 b]) batches)) = 0" by (induction batches) auto
  then show ?thesis by (simp add: permits_ok_def start_state_def list_all_iff)
qed

lemma permits_ok_steps:
  assumes "steps attempt n (start_state permits batches) s" "retries_below attempt D"
  shows "permits_ok permits D s"
  using assms(1)
proof (induction "start_state permits batches" s rule: steps.induct)
  case steps_refl
  show ?case by (rule permits_ok_start)
next
  case (steps_step n s' s'')
  then show ?case using permits_ok_step assms(2) by blast
qed


subsection \<open>What is stored\<close>

fun item_result :: "(batch \<Rightarrow> string + nat) \<Rightarrow> item \<Rightarrow> int list" where
  "item_result attempt (Enter d b) = process_batch attempt d b"
| "item_result attempt (Call d b) = process_batch attempt d b"
| "item_result attempt Leave = []"

definition task_result :: "(batch \<Rightarrow> string + nat) \<Rightarrow> item list \<Rightarrow> int list" where
  "task_result attempt t = concat (map (item_result attempt) t)"

definition outcome_of :: "(batch \<Rightarrow> string + nat) \<Rightarrow> emb_state \<Rightarrow> int multiset" where
  "outcome_of attempt s = mset (es_stored s) + sum_list (map (mset \<circ> task_result attempt) (es_tasks s))"

lemma task_result_simps [simp]:
  "task_result attempt [] = []" "task_result attempt (x # t) = item_result attempt x @ task_result attempt t"
  "task_result attempt (t @ u) = task_result attempt t @ task_result attempt u"
  by (simp_all add: task_result_def)

lemma run_body_result:
  "run_body attempt d b = (ids, items) \<Longrightarrow> process_batch attempt d b = ids @ task_result attempt items"
  by (auto simp: run_body_def process_batch.simps [of attempt d b] Let_def split: sum.splits if_splits)

lemma sum_list_update_mset:
  "i < length xs \<Longrightarrow> sum_list (map f (xs[i := y])) + f (xs ! i) = sum_list (map f xs) + (f y :: 'a multiset)"
  by (induction xs arbitrary: i) (auto split: nat.split simp: ac_simps)

lemma outcome_step:
  assumes "step attempt s s'"
  shows "outcome_of attempt s' = outcome_of attempt s"
  using assms
proof (cases rule: step.cases)
  case (acquire i d b rest)
  then show ?thesis
    using sum_list_update_mset [of i "es_tasks s" "mset \<circ> task_result attempt" "Call d b # Leave # rest"]
    by (simp add: outcome_of_def)
next
  case (call i d b rest ids items)
  then show ?thesis
    using sum_list_update_mset [of i "es_tasks s" "mset \<circ> task_result attempt" "items @ rest"] run_body_result [OF call(4)]
    by (simp add: outcome_of_def ac_simps)
next
  case (release i rest)
  then show ?thesis
    using sum_list_update_mset [of i "es_tasks s" "mset \<circ> task_result attempt" rest] by (simp add: outcome_of_def)
qed

lemma outcome_steps: "steps attempt n s s' \<Longrightarrow> outcome_of attempt s' = outcome_of attempt s"
  by (induction rule: steps.induct) (simp_all add: outcome_step)

lemma outcome_start:
  "outcome_of attempt (start_state permits batches) = mset (concat (map (process_batch attempt 0) batches))"
  by (induction batches) (simp_all add: outcome_of_def start_state_def o_def)

lemma outcome_finished:
  assumes "finished s"
  shows "outcome_of attempt s = mset (es_stored s)"
proof -
  have "sum_list (map (mset \<circ> task_result attempt) ts) = {#}" if "\<forall>t\<in>set ts. t = []" for ts :: "item list list"
    using that by (induction ts) auto
  with assms show ?thesis by (simp add: outcome_of_def finished_def)
qed

subsection \<open>The length of a run\<close>

fun item_steps :: "item \<Rightarrow> nat" where
  "item_steps (Enter d b) = 6 * 2 ^ (3 - d) - 3"
| "item_steps (Call d b) = 6 * 2 ^ (3 - d) - 5"
| "item_steps Leave = 1"

definition task_steps :: "item list \<Rightarrow> nat" where
  "task_steps t = sum_list (map item_steps t)"

definition left_steps :: "emb_state \<Rightarrow> nat" where
  "left_steps s = sum_list (map task_steps (es_tasks s))"

lemma task_steps_simps [simp]:
  "task_steps [] = 0" "task_steps (x # t) = item_steps x + task_steps t" "task_steps (t @ u) = task_steps t + task_steps u"
  by (simp_all add: task_steps_def)

lemma power_step: "d < (3 :: nat) \<Longrightarrow> 2 * (6 * 2 ^ (3 - Suc d) - 3) < (6 * 2 ^ (3 - d) - 5 :: nat)"
proof -
  assume "d < 3"
  define x where "x = (2 :: nat) ^ (3 - Suc d)"
  have "3 - d = Suc (3 - Suc d)" using \<open>d < 3\<close> by simp
  then have "(2 :: nat) ^ (3 - d) = 2 * x" by (simp add: x_def)
  moreover have "1 \<le> x" by (simp add: x_def)
  ultimately show ?thesis unfolding x_def [symmetric] by arith
qed

lemma run_body_steps:
  assumes "run_body attempt d b = (ids, items)"
  shows "task_steps items < item_steps (Call d b)"
proof -
  have "(5 :: nat) < 6 * 2 ^ (3 - d)" by (rule less_le_trans [of _ 6]) simp_all
  then show ?thesis using assms power_step [of d]
    by (auto simp: run_body_def is_retried_def Let_def split: sum.splits if_splits)
qed

lemma left_steps_step:
  assumes "step attempt s s'"
  shows "left_steps s' < left_steps s"
  using assms
proof (cases rule: step.cases)
  case (acquire i d b rest)
  have "(5 :: nat) < 6 * 2 ^ (3 - d)" by (rule less_le_trans [of _ 6]) simp_all
  with acquire sum_list_update_nat [of i "es_tasks s" task_steps "Call d b # Leave # rest"] show ?thesis
    by (simp add: left_steps_def)
next
  case (call i d b rest ids items)
  with sum_list_update_nat [of i "es_tasks s" task_steps "items @ rest"] run_body_steps [OF call(4)] show ?thesis
    by (simp add: left_steps_def)
next
  case (release i rest)
  with sum_list_update_nat [of i "es_tasks s" task_steps rest] show ?thesis by (simp add: left_steps_def)
qed

lemma left_steps_start: "left_steps (start_state permits batches) = 45 * length batches"
  by (induction batches) (simp_all add: left_steps_def start_state_def)

lemma steps_bounded: "steps attempt n s s' \<Longrightarrow> n + left_steps s' \<le> left_steps s"
proof (induction rule: steps.induct)
  case (steps_step n s s' s'')
  with left_steps_step [OF steps_step(2)] show ?case by simp
qed simp


subsection \<open>The theorems\<close>

text \<open>
  C26: the schedule does not matter: every interleaving of the batches that comes to its end has stored
  exactly the chunks that processing the batches one after the other stores, and has given back all
  permits; and every run has at most 45 steps for each batch.
\<close>

theorem batches_schedule_independent:
  assumes "steps attempt n (start_state permits batches) s"
  shows "n \<le> 45 * length batches
    \<and> (finished s \<longrightarrow> mset (es_stored s) = mset (concat (map (process_batch attempt 0) batches)) \<and> es_free s = permits)"
proof -
  have "n \<le> 45 * length batches"
    using steps_bounded [OF assms] left_steps_start [of permits batches] by simp
  moreover have "es_free s = permits" if "finished s"
  proof -
    have "sum_list (map held (es_tasks s)) = 0" using that by (auto simp: finished_def)
    moreover have "es_free s + sum_list (map held (es_tasks s)) = permits"
      using permits_ok_steps [OF assms retries_below_3] by (simp add: permits_ok_def)
    ultimately show ?thesis by linarith
  qed
  moreover have "mset (es_stored s) = mset (concat (map (process_batch attempt 0) batches))" if "finished s"
    using outcome_steps [OF assms] outcome_start outcome_finished [OF that] by simp
  ultimately show ?thesis by blast
qed

lemma waiting_tasks_hold:
  assumes "list_all (task_ok D) ts" "\<forall>t\<in>set ts. t = [] \<or> (\<exists>d b rest. t = Enter d b # rest)"
  shows "sum_list (map held ts) \<le> D * length ts"
  using assms
proof (induction ts)
  case (Cons t ts)
  then have "held t \<le> D" by auto
  with Cons show ?case by simp
qed simp

text \<open>
  C27: batches make progress when there are enough permits: if no batch is retried at depth D (for D
  = 3 that is always so, for D = 0 if the provider reports no token limit) and there are more than D
  permits for each batch, every run can be continued until all batches are finished.
\<close>

theorem batches_make_progress:
  assumes "retries_below attempt D" "D * length batches < permits" "steps attempt n (start_state permits batches) s"
  shows "finished s \<or> (\<exists>s'. step attempt s s')"
proof (rule ccontr)
  assume no: "\<not> ?thesis"
  have ok: "permits_ok permits D s" by (rule permits_ok_steps [OF assms(3,1)])
  have stuck: "t = [] \<or> (\<exists>d b rest. t = Enter d b # rest) \<and> es_free s = 0" if "t \<in> set (es_tasks s)" for t
  proof (cases t)
    case (Cons x rest)
    from that obtain i where i: "i < length (es_tasks s)" "es_tasks s ! i = t" by (auto simp: in_set_conv_nth)
    show ?thesis
    proof (cases x)
      case (Enter d b)
      then show ?thesis using no i Cons step.acquire [of i s d b rest attempt] by auto
    next
      case (Call d b)
      obtain ids items where "run_body attempt d b = (ids, items)" by fastforce
      then show ?thesis using no i Cons Call step.call [of i s d b rest attempt ids items] by auto
    next
      case Leave
      then show ?thesis using no i Cons step.release [of i s rest attempt] by auto
    qed
  qed simp
  have "length (es_tasks s) = length batches"
    using assms(3) by (induction "start_state permits batches" s rule: steps.induct)
      (auto simp: start_state_def elim!: step_elim)
  moreover have "sum_list (map held (es_tasks s)) \<le> D * length (es_tasks s)"
    using ok stuck by (intro waiting_tasks_hold) (auto simp: permits_ok_def)
  moreover have "es_free s = 0" using no stuck by (auto simp: finished_def)
  ultimately show False using ok assms(2) by (simp add: permits_ok_def)
qed

definition limited :: "batch \<Rightarrow> string + nat" where
  "limited b = (if length b > 1 then Inl ''Token limit exceeded'' else Inr (length b))"

definition two_texts :: batch where
  "two_texts = [(1, ''a''), (2, ''b'')]"

lemma limited_body: "run_body limited 0 two_texts = ([], [Enter 1 [(1, ''a'')], Enter 1 [(2, ''b'')]])"
  by code_simp

theorem batches_make_progress_witness:
  "\<exists>s'. step limited (start_state 4 [two_texts]) s'"
proof -
  have "3 * length [two_texts] < 4" by simp
  from batches_make_progress [OF retries_below_3 this steps_refl, of limited] show ?thesis
    by (simp add: finished_def start_state_def)
qed

theorem batches_schedule_independent_witness:
  "\<exists>s. steps limited 3 (start_state 1 [[(7, ''a'')]]) s \<and> mset (es_stored s) = {#7#} \<and> es_free s = 1"
proof -
  let ?b = "[(7, ''a'')] :: batch"
  let ?s1 = "\<lparr>es_free = 0, es_tasks = [[Call 0 ?b, Leave]], es_stored = []\<rparr>"
  let ?s2 = "\<lparr>es_free = 0, es_tasks = [[Leave]], es_stored = [7]\<rparr>"
  let ?s3 = "\<lparr>es_free = 1, es_tasks = [[]], es_stored = [7]\<rparr>"
  have body: "run_body limited 0 ?b = ([7], [])" "process_batch limited 0 ?b = [7]"
    by (simp_all add: run_body_def limited_def process_batch.simps)
  have "step limited (start_state 1 [?b]) ?s1"
    using step.acquire [of 0 "start_state 1 [?b]" 0 ?b "[]" limited] by (simp add: start_state_def)
  moreover have "step limited ?s1 ?s2" using step.call [of 0 ?s1 0 ?b "[Leave]" limited, OF _ _ body(1)] by simp
  moreover have "step limited ?s2 ?s3" using step.release [of 0 ?s2 "[]" limited] by simp
  ultimately have run: "steps limited (Suc (Suc (Suc 0))) (start_state 1 [?b]) ?s3"
    by (intro steps_step [OF steps_step [OF steps_step [OF steps_refl]]])
  moreover have "finished ?s3" by (simp add: finished_def)
  ultimately show ?thesis using batches_schedule_independent [OF run] body(2)
    by (intro exI [of _ ?s3]) (simp add: numeral_3_eq_3)
qed

text \<open>
  With one permit a token limit error never ends: the halves wait for a permit inside the call that
  holds it.
\<close>

theorem retry_deadlock:
  "\<exists>s. steps limited 2 (start_state 1 [two_texts]) s \<and> \<not> finished s \<and> (\<forall>s'. \<not> step limited s s')"
proof -
  let ?s1 = "\<lparr>es_free = 0, es_tasks = [[Call 0 two_texts, Leave]], es_stored = []\<rparr>"
  let ?s2 = "\<lparr>es_free = 0, es_tasks = [[Enter 1 [(1, ''a'')], Enter 1 [(2, ''b'')], Leave]], es_stored = []\<rparr>"
  have "step limited (start_state 1 [two_texts]) ?s1"
    using step.acquire [of 0 "start_state 1 [two_texts]" 0 two_texts "[]" limited] by (simp add: start_state_def)
  moreover have "step limited ?s1 ?s2"
    using step.call [of 0 ?s1 0 two_texts "[Leave]" limited, OF _ _ limited_body] by simp
  ultimately have "steps limited (Suc (Suc 0)) (start_state 1 [two_texts]) ?s2"
    by (intro steps_step [OF steps_step [OF steps_refl]])
  moreover have "\<not> step limited ?s2 s'" for s' by (auto elim!: step_elim)
  ultimately show ?thesis by (auto simp: finished_def numeral_2_eq_2)
qed

end
