(* ===== verification/Embedding_Service.thy ===== *)
theory Embedding_Service
  imports Embedding_Batches DB_Search File_Patterns
begin

text \<open>
  Which chunks get an embedding: the rest of \<open>services/embedding_service.py\<close>, and
  \<open>_generate_embeddings\<close> of \<open>services/indexing_coordinator.py\<close>.  The chunks without an embedding are
  found by SQL (DuckDB) or over the list of all chunks (LanceDB); both select the same chunks.

  The embeddings are rows (chunk, provider, model) in tables by dimension.  Arguments: \<open>LIKE\<close>, the
  provider, and the insertion with its exceptions (\<open>attempt\<close> of \<open>Embedding_Batches\<close>).
\<close>

subsection \<open>Patterns\<close>

definition glob_like_char :: "char \<Rightarrow> string" where
  "glob_like_char ch =
     (if ch = CHR ''*'' then ''%''
      else if ch = CHR ''?'' then ''_''
      else if ch \<in> {CHR ''%'', CHR ''_'', backslash} then [backslash, ch]
      else [ch])"

definition fnmatch_to_sql_like :: "string \<Rightarrow> string" where
  "fnmatch_to_sql_like pattern = concat (map glob_like_char pattern)"

definition partition_exclude_patterns :: "string list option \<Rightarrow> string list \<times> string list" where
  "partition_exclude_patterns exclude_patterns =
     (let ps = (case exclude_patterns of None \<Rightarrow> [] | Some ps \<Rightarrow> ps);
          bracketed = (\<lambda>p. CHR ''['' \<in> set p \<or> CHR '']'' \<in> set p)
      in (filter (\<lambda>p. \<not> bracketed p) ps, filter bracketed ps))"

text \<open>\<open>LIKE\<close> with the law of its second wildcard, one character.\<close>

locale like_wildcards = like_operator +
  assumes like_one: "like (CHR ''_'' # p) s \<longleftrightarrow> (\<exists>c t. s = c # t \<and> like p t)"
begin

lemma like_glob:
  "CHR ''['' \<notin> set p \<Longrightarrow> like (fnmatch_to_sql_like p) s \<longleftrightarrow> fnmatch s p"
proof (induction p arbitrary: s)
  case Nil
  then show ?case by (simp add: fnmatch_to_sql_like_def like_Nil fnmatch_def)
next
  case (Cons c p)
  then have c: "c \<noteq> CHR ''[''" and IH: "like (fnmatch_to_sql_like p) t \<longleftrightarrow> fnmatch t p" for t by auto
  have cons: "fnmatch_to_sql_like (c # p) = glob_like_char c @ fnmatch_to_sql_like p"
    by (simp add: fnmatch_to_sql_like_def)
  consider "c = CHR ''*''" | "c = CHR ''?''" | "c \<in> {CHR ''%'', CHR ''_'', backslash}"
    | "c \<notin> {CHR ''*'', CHR ''?'', CHR ''%'', CHR ''_'', backslash}" by blast
  then show ?case
  proof cases
    case 1
    have "fnmatch s (''*'' @ p) \<longleftrightarrow> (\<exists>a b. s = a @ b \<and> fnmatch b p)"
      using fnmatch_append [of "''*''" s p] by (simp add: fnmatch_star)
    then show ?thesis unfolding cons using 1 by (simp add: glob_like_char_def like_any IH)
  next
    case 2
    then show ?thesis unfolding cons using IH by (cases s) (auto simp: glob_like_char_def like_one fnmatch_def)
  next
    case 3
    have "fnmatch s (c # p) \<longleftrightarrow> (\<exists>t. s = c # t \<and> fnmatch t p)"
      using 3 by (cases s) (auto simp: fnmatch_def)
    moreover have "glob_like_char c = [backslash, c]" using 3 by (auto simp: glob_like_char_def)
    ultimately show ?thesis unfolding cons by (simp add: like_escape IH)
  next
    case 4
    have "fnmatch s (c # p) \<longleftrightarrow> (\<exists>t. s = c # t \<and> fnmatch t p)" using 4 c by (cases s) (auto simp: fnmatch_def)
    moreover have "glob_like_char c = [c]" using 4 by (auto simp: glob_like_char_def)
    ultimately show ?thesis unfolding cons using 4 c by (simp add: like_plain IH)
  qed
qed

end

interpretation sqlw: like_wildcards sql_like
proof
  show "sql_like (CHR ''_'' # p) s \<longleftrightarrow> (\<exists>c t. s = c # t \<and> sql_like p t)" for p s
    by (cases p; cases s) auto
qed

subsection \<open>Chunks without an embedding\<close>

text \<open>\<open>joined\<close>: the chunks with their files, by id; a table is a list of embedding rows.\<close>

definition has_embedding :: "embedding_row list list \<Rightarrow> string \<Rightarrow> string \<Rightarrow> int \<Rightarrow> bool" where
  "has_embedding tables provider model cid \<longleftrightarrow> list_ex (\<lambda>t. (cid, provider, model) \<in> set t) tables"

definition missing_ids_sql ::
  "(string \<Rightarrow> string \<Rightarrow> bool) \<Rightarrow> database \<Rightarrow> embedding_row list list \<Rightarrow> string \<Rightarrow> string \<Rightarrow> string list option \<Rightarrow> int list" where
  "missing_ids_sql like db tables provider model exclude_patterns =
     (let (sql_patterns, python_patterns) = partition_exclude_patterns exclude_patterns;
          rows = (if sql_patterns = [] \<and> python_patterns = []
                  then map (\<lambda>c. (r_id c, [])) (t_chunks (db_tables db))
                  else map (\<lambda>(c, f). (r_id c, fr_path f)) (chunks_with_files db));
          selected = sort_key fst (filter (\<lambda>(cid, path). \<not> has_embedding tables provider model cid
                       \<and> list_all (\<lambda>p. \<not> like (fnmatch_to_sql_like p) path) sql_patterns) rows)
      in map fst (filter (\<lambda>(cid, path). \<not> list_ex (fnmatch path) python_patterns) selected))"

text \<open>\<open>all_chunks\<close> is \<open>get_all_chunks_with_metadata\<close>: ids (if there is one) and paths; \<open>existing\<close> is \<open>get_existing_embeddings\<close>.\<close>

definition missing_ids_fallback ::
  "(int option \<times> string) list \<Rightarrow> (int list \<Rightarrow> int list) \<Rightarrow> string list option \<Rightarrow> int list" where
  "missing_ids_fallback all_chunks existing exclude_patterns =
     (let kept = (case exclude_patterns of
                    None \<Rightarrow> all_chunks
                  | Some ps \<Rightarrow> filter (\<lambda>(cid, path). \<not> list_ex (fnmatch path) ps) all_chunks);
          all_chunk_ids = List.map_filter fst kept
      in if all_chunk_ids = [] then []
         else filter (\<lambda>cid. cid \<notin> set (existing all_chunk_ids)) all_chunk_ids)"

lemma list_all_glob:
  assumes "like_wildcards like"
  shows "list_all (\<lambda>p. \<not> like (fnmatch_to_sql_like p) path) (fst (partition_exclude_patterns ps))
    \<and> \<not> list_ex (fnmatch path) (snd (partition_exclude_patterns ps))
    \<longleftrightarrow> \<not> list_ex (fnmatch path) (case ps of None \<Rightarrow> [] | Some qs \<Rightarrow> qs)"
  using like_wildcards.like_glob [OF assms]
  by (auto simp: partition_exclude_patterns_def Let_def list_all_iff list_ex_iff split: option.split)

text \<open>The chunks with their files when every chunk has its one file.\<close>

definition file_path_of :: "database \<Rightarrow> chunk_row \<Rightarrow> string" where
  "file_path_of db c = fr_path (hd (filter (\<lambda>f. fr_id f = r_file_id c) (t_files (db_tables db))))"

definition files_known :: "database \<Rightarrow> bool" where
  "files_known db \<longleftrightarrow> list_all (\<lambda>c. length (filter (\<lambda>f. fr_id f = r_file_id c) (t_files (db_tables db))) = 1)
     (t_chunks (db_tables db))"

lemma chunk_paths:
  assumes "files_known db"
  shows "map (\<lambda>(c, f). (r_id c, fr_path f)) (chunks_with_files db)
    = map (\<lambda>c. (r_id c, file_path_of db c)) (t_chunks (db_tables db))"
proof -
  have "map (\<lambda>(c, f). (r_id c, fr_path f)) (map (Pair c) (filter (\<lambda>f. fr_id f = r_file_id c) (t_files (db_tables db))))
      = [(r_id c, file_path_of db c)]" if "c \<in> set (t_chunks (db_tables db))" for c
    using assms that by (auto simp: files_known_def list_all_iff file_path_of_def length_Suc_conv)
  then have "map (\<lambda>c. map (\<lambda>(c, f). (r_id c, fr_path f)) (map (Pair c) (filter (\<lambda>f. fr_id f = r_file_id c)
      (t_files (db_tables db))))) (t_chunks (db_tables db))
    = map (\<lambda>c. [(r_id c, file_path_of db c)]) (t_chunks (db_tables db))"
    by (rule map_cong [OF refl])
  then show ?thesis unfolding chunks_with_files_def map_concat map_map o_def by (simp only: concat_map_singleton)
qed


definition wants_embedding :: "database \<Rightarrow> embedding_row list list \<Rightarrow> string \<Rightarrow> string \<Rightarrow> string list option \<Rightarrow> chunk_row \<Rightarrow> bool" where
  "wants_embedding db tables provider model ps c \<longleftrightarrow> \<not> has_embedding tables provider model (r_id c)
     \<and> \<not> list_ex (fnmatch (file_path_of db c)) (case ps of None \<Rightarrow> [] | Some qs \<Rightarrow> qs)"

lemma missing_ids_sql_eq:
  assumes "like_wildcards like" "files_known db"
  shows "missing_ids_sql like db tables provider model ps
    = map r_id (filter (wants_embedding db tables provider model ps) (sort_key r_id (t_chunks (db_tables db))))"
proof -
  obtain sp pp where parts: "partition_exclude_patterns ps = (sp, pp)" by fastforce
  define path where "path = (\<lambda>c. if sp = [] \<and> pp = [] then [] else file_path_of db c)"
  let ?h = "\<lambda>c. (r_id c, path c)"
  have rows: "(if sp = [] \<and> pp = [] then map (\<lambda>c. (r_id c, [])) (t_chunks (db_tables db))
      else map (\<lambda>(c, f). (r_id c, fr_path f)) (chunks_with_files db)) = map ?h (t_chunks (db_tables db))"
    by (cases "sp = [] \<and> pp = []") (auto simp: path_def chunk_paths [OF assms(2)])
  have cond: "\<not> has_embedding tables provider model (r_id c) \<and> list_all (\<lambda>p. \<not> like (fnmatch_to_sql_like p) (path c)) sp
      \<and> \<not> list_ex (fnmatch (path c)) pp \<longleftrightarrow> wants_embedding db tables provider model ps c" for c
    using list_all_glob [OF assms(1), of "path c" ps] list_all_glob [OF assms(1), of "file_path_of db c" ps]
    by (auto simp: wants_embedding_def parts path_def)
  have w: "wants_embedding db tables provider model ps = (\<lambda>c. \<not> has_embedding tables provider model (r_id c)
      \<and> list_all (\<lambda>p. \<not> like (fnmatch_to_sql_like p) (path c)) sp \<and> \<not> list_ex (fnmatch (path c)) pp)"
    by (rule ext) (rule cond [symmetric])
  have "missing_ids_sql like db tables provider model ps
      = map fst (filter (\<lambda>(cid, p). \<not> list_ex (fnmatch p) pp) (sort_key fst (filter (\<lambda>(cid, p). \<not> has_embedding tables provider model cid
          \<and> list_all (\<lambda>q. \<not> like (fnmatch_to_sql_like q) p) sp) (map ?h (t_chunks (db_tables db))))))"
    unfolding missing_ids_sql_def parts Let_def prod.case rows ..
  also have "\<dots> = map fst (filter (\<lambda>(cid, p). (\<not> has_embedding tables provider model cid
          \<and> list_all (\<lambda>q. \<not> like (fnmatch_to_sql_like q) p) sp) \<and> \<not> list_ex (fnmatch p) pp)
          (map ?h (sort_key r_id (t_chunks (db_tables db)))))"
    by (simp add: filter_sort [symmetric] sort_key_map o_def case_prod_unfold conj_commute)
  also have "\<dots> = map r_id (filter (wants_embedding db tables provider model ps) (sort_key r_id (t_chunks (db_tables db))))"
    unfolding w by (simp add: filter_map o_def)
  finally show ?thesis .
qed

text \<open>
  C28: both ways of finding the chunks without an embedding agree: for the backend that answers SQL and
  the one that lists all chunks the same ids are selected, in the same order, whatever exclude
  patterns are given, although the first turns them into LIKE patterns with their metacharacters
  escaped.
\<close>

theorem missing_ids_backends_agree:
  assumes "like_wildcards like" "files_known db"
    and "all_chunks = map (\<lambda>c. (Some (r_id c), file_path_of db c)) (sort_key r_id (t_chunks (db_tables db)))"
    and "\<And>ids. set (existing ids) = {i \<in> set ids. has_embedding tables provider model i}"
  shows "missing_ids_fallback all_chunks existing ps = missing_ids_sql like db tables provider model ps"
proof -
  let ?s = "sort_key r_id (t_chunks (db_tables db))"
  let ?p = "\<lambda>c. \<not> list_ex (fnmatch (file_path_of db c)) (case ps of None \<Rightarrow> [] | Some qs \<Rightarrow> qs)"
  have "(case ps of None \<Rightarrow> all_chunks | Some qs \<Rightarrow> filter (\<lambda>(cid, path). \<not> list_ex (fnmatch path) qs) all_chunks)
      = map (\<lambda>c. (Some (r_id c), file_path_of db c)) (filter ?p ?s)"
    by (cases ps) (simp_all add: assms(3) filter_map o_def)
  moreover have "List.map_filter fst (map (\<lambda>c. (Some (r_id c), file_path_of db c)) cs) = map r_id cs" for cs
    by (induction cs) (simp_all add: List.map_filter_def)
  ultimately have "missing_ids_fallback all_chunks existing ps
      = filter (\<lambda>cid. cid \<notin> set (existing (map r_id (filter ?p ?s)))) (map r_id (filter ?p ?s))"
    unfolding missing_ids_fallback_def Let_def by (simp split: if_splits)
  also have "\<dots> = filter (\<lambda>cid. \<not> has_embedding tables provider model cid) (map r_id (filter ?p ?s))"
    by (rule filter_cong) (simp_all only: assms(4) mem_Collect_eq simp_thms)
  also have "\<dots> = map r_id (filter (wants_embedding db tables provider model ps) ?s)"
    by (simp add: filter_map o_def wants_embedding_def [abs_def] conj_commute)
  finally show ?thesis unfolding missing_ids_sql_eq [OF assms(1,2)] .
qed


subsection \<open>Generating\<close>

definition existing_ids :: "embedding_row list \<Rightarrow> embedding_provider \<Rightarrow> int list \<Rightarrow> int list" where
  "existing_ids rows ep ids = filter (\<lambda>i. (i, ep_name ep, ep_model ep) \<in> set rows) ids"

text \<open>\<open>existing\<close> is \<open>None\<close> when the query raises: then nothing counts as existing.\<close>

definition filter_existing_embeddings :: "int list option \<Rightarrow> int list \<Rightarrow> string list \<Rightarrow> batch" where
  "filter_existing_embeddings existing chunk_ids chunk_texts =
     filter (\<lambda>(cid, txt). cid \<notin> set (case existing of None \<Rightarrow> [] | Some xs \<Rightarrow> xs) \<and> py_strip txt \<noteq> [])
       (zip chunk_ids chunk_texts)"

definition generate_embeddings_for_chunks ::
  "tokenizers \<Rightarrow> embedding_provider option \<Rightarrow> (batch \<Rightarrow> string + nat) \<Rightarrow> embedding_row list \<Rightarrow> int list \<Rightarrow> string list \<Rightarrow>
     (embedding_row list \<times> nat) result" where
  "generate_embeddings_for_chunks tk provider attempt rows chunk_ids chunk_texts =
     (case provider of
        None \<Rightarrow> Inr (rows, 0)
      | Some ep \<Rightarrow>
          (if length chunk_ids \<noteq> length chunk_texts then Inl ValueError
           else
             let filtered = filter_existing_embeddings (Some (existing_ids rows ep chunk_ids)) chunk_ids chunk_texts;
                 (stored, n) = generate_in_batches tk provider attempt filtered
             in if filtered = [] then Inr (rows, 0)
                else Inr (rows @ map (\<lambda>i. (i, ep_name ep, ep_model ep)) stored, n)))"

text \<open>\<open>_get_chunks_by_ids\<close> of the SQL backend: the id and the code of the chunks, 5000 ids at a time.\<close>

definition get_chunks_by_ids :: "database \<Rightarrow> int list \<Rightarrow> batch" where
  "get_chunks_by_ids db ids =
     concat (map (\<lambda>part. sort_key fst (map (\<lambda>(c, f). (r_id c, r_code c)) (filter (\<lambda>(c, f). r_id c \<in> set part) (chunks_with_files db))))
       (slices 5000 ids))"

definition get_chunks_by_file_path :: "database \<Rightarrow> string \<Rightarrow> batch" where
  "get_chunks_by_file_path db file_path =
     sort_key fst (map (\<lambda>(c, f). (r_id c, r_code c)) (filter (\<lambda>(c, f). fr_path f = file_path) (chunks_with_files db)))"

record emb_report =
  er_status :: string
  er_generated :: nat
  er_total_chunks :: "nat option"
  er_target :: "(string \<times> string) option"

definition emb_error :: emb_report where
  "emb_error = \<lparr>er_status = ''error'', er_generated = 0, er_total_chunks = None, er_target = None\<rparr>"

definition emb_complete :: emb_report where
  "emb_complete = \<lparr>er_status = ''complete'', er_generated = 0, er_total_chunks = None, er_target = None\<rparr>"

definition generate_missing_embeddings ::
  "(string \<Rightarrow> string \<Rightarrow> bool) \<Rightarrow> tokenizers \<Rightarrow> embedding_provider option \<Rightarrow> (batch \<Rightarrow> string + nat) \<Rightarrow> database \<Rightarrow>
     string option \<Rightarrow> string option \<Rightarrow> string list option \<Rightarrow> embedding_row list \<Rightarrow> embedding_row list \<times> emb_report" where
  "generate_missing_embeddings like tk provider attempt db provider_name model_name exclude_patterns rows =
     (case provider of
        None \<Rightarrow> (rows, emb_error)
      | Some ep \<Rightarrow>
          (let target_provider = (if truthy_str provider_name then the provider_name else ep_name ep);
               target_model = (if truthy_str model_name then the model_name else ep_model ep);
               ids = missing_ids_sql like db [rows] target_provider target_model exclude_patterns;
               chunks_data = get_chunks_by_ids db ids
           in if ids = [] then (rows, emb_complete)
              else case generate_embeddings_for_chunks tk provider attempt rows (map fst chunks_data) (map snd chunks_data) of
                Inl e \<Rightarrow> (rows, emb_error)
              | Inr (rows', n) \<Rightarrow>
                  (rows', \<lparr>er_status = ''success'', er_generated = n, er_total_chunks = Some (length ids),
                     er_target = Some (target_provider, target_model)\<rparr>)))"

definition delete_embeddings_for_chunks ::
  "embedding_row list \<Rightarrow> int list \<Rightarrow> string \<Rightarrow> string \<Rightarrow> embedding_row list" where
  "delete_embeddings_for_chunks rows chunk_ids provider model =
     filter (\<lambda>(i, p, m). \<not> (i \<in> set chunk_ids \<and> p = provider \<and> m = model)) rows"

definition regenerate_embeddings ::
  "tokenizers \<Rightarrow> embedding_provider option \<Rightarrow> (batch \<Rightarrow> string + nat) \<Rightarrow> database \<Rightarrow> string option \<Rightarrow> int list option \<Rightarrow>
     embedding_row list \<Rightarrow> embedding_row list \<times> emb_report" where
  "regenerate_embeddings tk provider attempt db file_path chunk_ids rows =
     (case provider of
        None \<Rightarrow> (rows, emb_error)
      | Some ep \<Rightarrow>
          (let wanted = (case chunk_ids of Some (i # is) \<Rightarrow> Some (get_chunks_by_ids db (i # is))
                         | _ \<Rightarrow> if truthy_str file_path then Some (get_chunks_by_file_path db (the file_path)) else None)
           in case wanted of
                None \<Rightarrow> (rows, emb_error)
              | Some chunks \<Rightarrow>
                  (if chunks = [] then (rows, emb_complete)
                   else
                     let rows1 = delete_embeddings_for_chunks rows (map fst chunks) (ep_name ep) (ep_model ep)
                     in case generate_embeddings_for_chunks tk provider attempt rows1 (map fst chunks) (map snd chunks) of
                          Inl e \<Rightarrow> (rows1, emb_error)
                        | Inr (rows', n) \<Rightarrow>
                            (rows', \<lparr>er_status = ''success'', er_generated = n, er_total_chunks = Some (length chunks),
                               er_target = Some (ep_name ep, ep_model ep)\<rparr>))))"

subsection \<open>The coordinator's own generation\<close>

record 'v emb_env =
  ee_embed_batch :: "string list \<Rightarrow> string + 'v list"
  ee_insert :: "bool \<Rightarrow> (int \<times> 'v) list \<Rightarrow> string + nat"

record pending_chunk =
  pc_code :: string
  pc_file_path :: "string option"
  pc_language :: "string option"
  pc_constants :: "(string \<times> string) list option"
  pc_rule_target :: "string option"

definition embedding_text :: "pending_chunk \<Rightarrow> string" where
  "embedding_text c =
     format_chunk_for_embedding (normalize_content (pc_code c)) (pc_file_path c) (pc_language c) (pc_constants c) (pc_rule_target c)"

text \<open>\<open>ee_insert retry data\<close>: the first insertion and the one after the rollback of an aborted transaction.\<close>

definition coordinator_generate_embeddings ::
  "'v emb_env \<Rightarrow> int list \<Rightarrow> pending_chunk list \<Rightarrow> nat result" where
  "coordinator_generate_embeddings env chunk_ids chunks =
     (if length chunk_ids \<noteq> length chunks then Inl ValueError
      else
        let valid = filter (\<lambda>(i, c). normalize_content (pc_code c) \<noteq> []) (zip chunk_ids chunks);
            texts = map (embedding_text \<circ> snd) valid
        in if valid = [] then Inr 0
           else case ee_embed_batch env texts of
             Inl e \<Rightarrow> Inr 0
           | Inr vectors \<Rightarrow>
               (let data = zip (map fst valid) vectors in
                case ee_insert env False data of
                  Inr n \<Rightarrow> Inr n
                | Inl message \<Rightarrow>
                    (if str_contains (py_lower message) ''transaction is aborted''
                     then (case ee_insert env True data of Inr n \<Rightarrow> Inr n | Inl e \<Rightarrow> Inr 0)
                     else Inr 0)))"

subsection \<open>Generating the missing embeddings\<close>

lemma concat_batches: "concat (create_token_aware_batches tk provider cs) = cs"
  using concat_slices [of 20 cs] by (cases provider) (simp_all add: create_token_aware_batches_def concat_batch_loop)

lemma all_stored:
  assumes "\<And>b. attempt b = Inr (length b)"
  shows "generate_in_batches tk provider attempt cs = (map fst cs, length cs)"
proof -
  have "process_batch attempt d b = map fst b" for d b by (simp add: process_batch.simps assms)
  then have "concat (map (process_batch attempt 0) bs) = map fst (concat bs)" for bs by (induction bs) simp_all
  then show ?thesis by (simp add: generate_in_batches_def concat_batches)
qed

lemma set_get_chunks_by_ids:
  assumes "files_known db"
  shows "set (get_chunks_by_ids db ids) = {(r_id c, r_code c) | c. c \<in> set (t_chunks (db_tables db)) \<and> r_id c \<in> set ids}"
proof -
  have cf: "(\<exists>f. (c, f) \<in> set (chunks_with_files db)) \<longleftrightarrow> c \<in> set (t_chunks (db_tables db))" for c
  proof
    assume c: "c \<in> set (t_chunks (db_tables db))"
    with assms have "length (filter (\<lambda>f. fr_id f = r_file_id c) (t_files (db_tables db))) = 1"
      by (simp add: files_known_def list_all_iff)
    then obtain f where "filter (\<lambda>f. fr_id f = r_file_id c) (t_files (db_tables db)) = [f]" by (auto simp: length_Suc_conv)
    then have "f \<in> set (filter (\<lambda>f. fr_id f = r_file_id c) (t_files (db_tables db)))" by simp
    with c show "\<exists>f. (c, f) \<in> set (chunks_with_files db)" by (auto simp: chunks_with_files_def)
  qed (auto simp: chunks_with_files_def)
  have "x \<in> set (get_chunks_by_ids db ids) \<longleftrightarrow>
      (\<exists>part\<in>set (slices 5000 ids). \<exists>c f. (c, f) \<in> set (chunks_with_files db) \<and> r_id c \<in> set part \<and> x = (r_id c, r_code c))" for x
    by (auto simp: get_chunks_by_ids_def)
  then have "x \<in> set (get_chunks_by_ids db ids) \<longleftrightarrow>
      (\<exists>c. (\<exists>f. (c, f) \<in> set (chunks_with_files db)) \<and> r_id c \<in> set (concat (slices 5000 ids)) \<and> x = (r_id c, r_code c))" for x
    by auto
  then show ?thesis unfolding cf concat_slices [of 5000, simplified] by blast
qed

lemma zip_fst_snd: "zip (map fst xs) (map snd xs) = xs"
  by (induction xs) auto


text \<open>The chunks that a call embeds when every attempt succeeds.\<close>

definition to_embed :: "database \<Rightarrow> embedding_provider \<Rightarrow> string list option \<Rightarrow> embedding_row list \<Rightarrow> chunk_row \<Rightarrow> bool" where
  "to_embed db ep ps rows c \<longleftrightarrow> c \<in> set (t_chunks (db_tables db))
     \<and> wants_embedding db [rows] (ep_name ep) (ep_model ep) ps c \<and> py_strip (r_code c) \<noteq> []"

lemma missing_filtered:
  assumes "like_wildcards like" "files_known db" "distinct (map r_id (t_chunks (db_tables db)))"
    and "cs = get_chunks_by_ids db (missing_ids_sql like db [rows] (ep_name ep) (ep_model ep) ps)"
  shows "set (filter_existing_embeddings (Some (existing_ids rows ep (map fst cs))) (map fst cs) (map snd cs))
    = (\<lambda>c. (r_id c, r_code c)) ` {c. to_embed db ep ps rows c}"
proof -
  let ?C = "set (t_chunks (db_tables db))"
  let ?w = "wants_embedding db [rows] (ep_name ep) (ep_model ep) ps"
  have "r_id c \<in> set (missing_ids_sql like db [rows] (ep_name ep) (ep_model ep) ps) \<longleftrightarrow> ?w c" if "c \<in> ?C" for c
    using that assms(3) by (auto simp: missing_ids_sql_eq [OF assms(1,2)] distinct_map inj_on_def)
  then have cs: "set cs = (\<lambda>c. (r_id c, r_code c)) ` {c \<in> ?C. ?w c}"
    unfolding assms(4) set_get_chunks_by_ids [OF assms(2)] by blast
  have new: "(i, ep_name ep, ep_model ep) \<notin> set rows" if "(i, t) \<in> set cs" for i t
    using that unfolding cs by (auto simp: wants_embedding_def has_embedding_def)
  have "filter_existing_embeddings (Some (existing_ids rows ep (map fst cs))) (map fst cs) (map snd cs)
      = filter (\<lambda>(i, t). py_strip t \<noteq> []) cs"
    unfolding filter_existing_embeddings_def zip_fst_snd
    by (rule filter_cong) (auto simp: existing_ids_def dest: new)
  then show ?thesis unfolding to_embed_def by (auto simp: cs)
qed

lemma generate_missing_rows:
  assumes "like_wildcards like" "files_known db" "distinct (map r_id (t_chunks (db_tables db)))" "\<And>b. attempt b = Inr (length b)"
    and "generate_missing_embeddings like tk (Some ep) attempt db None None ps rows = (rows', report)"
  shows "set rows' = set rows \<union> {(r_id c, ep_name ep, ep_model ep) | c. to_embed db ep ps rows c}
    \<and> er_status report \<in> {''success'', ''complete''} \<and> (er_generated report = 0 \<longleftrightarrow> (\<nexists>c. to_embed db ep ps rows c))"
proof -
  let ?ids = "missing_ids_sql like db [rows] (ep_name ep) (ep_model ep) ps"
  define cs where "cs = get_chunks_by_ids db ?ids"
  define new where "new = filter_existing_embeddings (Some (existing_ids rows ep (map fst cs))) (map fst cs) (map snd cs)"
  have new: "set new = (\<lambda>c. (r_id c, r_code c)) ` {c. to_embed db ep ps rows c}"
    unfolding new_def by (rule missing_filtered [OF assms(1-3) cs_def])
  show ?thesis
  proof (cases "?ids = []")
    case True
    have "\<not> to_embed db ep ps rows c" for c
      using True by (auto simp: missing_ids_sql_eq [OF assms(1,2)] to_embed_def filter_empty_conv)
    with True assms(5) show ?thesis
      by (auto simp: generate_missing_embeddings_def truthy_str_def emb_complete_def)
  next
    case False
    have g: "generate_embeddings_for_chunks tk (Some ep) attempt rows (map fst cs) (map snd cs)
        = Inr (rows @ map (\<lambda>i. (i, ep_name ep, ep_model ep)) (map fst new), length new)"
      by (simp add: generate_embeddings_for_chunks_def new_def [symmetric] all_stored [OF assms(4)])
    have "rows' = rows @ map (\<lambda>i. (i, ep_name ep, ep_model ep)) (map fst new)"
      "er_status report = ''success''" "er_generated report = length new"
      using assms(5) False g by (auto simp: generate_missing_embeddings_def truthy_str_def cs_def [symmetric] Let_def)
    moreover have "(length new = 0) = (\<nexists>c. to_embed db ep ps rows c)"
      using new by (metis (no_types, lifting) empty_iff image_is_empty length_0_conv mem_Collect_eq set_empty ex_in_conv)
    ultimately show ?thesis by (auto simp: new image_image)
  qed
qed

text \<open>
  C29: generating the missing embeddings is complete and idempotent: when the provider answers, every
  chunk with text that no exclude pattern covers has an embedding of the configured provider and model
  afterwards, no other row changes, and a second call generates nothing.
\<close>

theorem missing_embeddings_filled:
  assumes "like_wildcards like" "files_known db" "distinct (map r_id (t_chunks (db_tables db)))" "\<And>b. attempt b = Inr (length b)"
    and "generate_missing_embeddings like tk (Some ep) attempt db None None ps rows = (rows', report)"
  shows "set rows' = set rows \<union> {(r_id c, ep_name ep, ep_model ep) | c. to_embed db ep ps rows c}
    \<and> er_generated (snd (generate_missing_embeddings like tk (Some ep) attempt db None None ps rows')) = 0"
proof -
  note first = generate_missing_rows [OF assms]
  obtain rows2 report2 where second: "generate_missing_embeddings like tk (Some ep) attempt db None None ps rows' = (rows2, report2)"
    by fastforce
  have "\<not> to_embed db ep ps rows' c" for c
  proof
    assume c: "to_embed db ep ps rows' c"
    then have "(r_id c, ep_name ep, ep_model ep) \<notin> set rows'" by (simp add: to_embed_def wants_embedding_def has_embedding_def)
    moreover from c this have "to_embed db ep ps rows c"
      using first by (auto simp: to_embed_def wants_embedding_def has_embedding_def)
    ultimately show False using first by blast
  qed
  with generate_missing_rows [OF assms(1-4) second] first show ?thesis by (simp add: second)
qed

definition sample_emb_db :: database where
  "sample_emb_db = empty_database\<lparr>db_tables := \<lparr>t_files = [\<lparr>fr_id = 1, fr_path = ''src/a.py'', fr_name = ''a.py'',
       fr_extension = ''.py'', fr_size = 3, fr_mtime = 0, fr_content_hash = None, fr_language = None, fr_skip_reason = None\<rparr>],
     t_chunks = [\<lparr>r_id = 5, r_file_id = 1, r_chunk_type = ''function'', r_symbol = ''f'', r_code = ''x = 1'', r_start_line = 1,
       r_end_line = 1, r_start_byte = None, r_end_byte = None, r_language = ''python'', r_metadata = None\<rparr>],
     t_embeddings = []\<rparr>\<rparr>"

definition answers :: "batch \<Rightarrow> string + nat" where
  "answers b = Inr (length b)"

definition no_tokenizers :: tokenizers where
  "no_tokenizers = (\<lambda>_. None, None)"

lemma sample_emb_db_ok: "files_known sample_emb_db" "distinct (map r_id (t_chunks (db_tables sample_emb_db)))"
  by code_simp+

theorem missing_embeddings_filled_witness:
  "\<exists>rows'. fst (generate_missing_embeddings sql_like no_tokenizers (Some sample_provider) answers sample_emb_db None None
        (Some [''*.js'']) []) = rows'
    \<and> (5, ''voyageai'', ''m'') \<in> set rows'
    \<and> er_generated (snd (generate_missing_embeddings sql_like no_tokenizers (Some sample_provider) answers sample_emb_db None None
        (Some [''*.js'']) rows')) = 0"
proof -
  obtain rows' report where g: "generate_missing_embeddings sql_like no_tokenizers (Some sample_provider) answers sample_emb_db
      None None (Some [''*.js'']) [] = (rows', report)" by fastforce
  define c where "c = hd (t_chunks (db_tables sample_emb_db))"
  have c: "to_embed sample_emb_db sample_provider (Some [''*.js'']) [] c" "r_id c = 5" "ep_name sample_provider = ''voyageai''"
    "ep_model sample_provider = ''m''" unfolding c_def by code_simp+
  have f: "set rows' = set [] \<union> {(r_id c, ep_name sample_provider, ep_model sample_provider) | c.
        to_embed sample_emb_db sample_provider (Some [''*.js'']) [] c}
      \<and> er_generated (snd (generate_missing_embeddings sql_like no_tokenizers (Some sample_provider) answers sample_emb_db None None
        (Some [''*.js'']) rows')) = 0"
    by (rule missing_embeddings_filled [OF sqlw.like_wildcards_axioms sample_emb_db_ok _ g]) (simp add: answers_def)
  then have "(r_id c, ep_name sample_provider, ep_model sample_provider) \<in> set rows'" using c(1) by blast
  then have "(5, ''voyageai'', ''m'') \<in> set rows'" unfolding c(2-4) .
  then show ?thesis using g conjunct2 [OF f] by simp
qed

theorem missing_ids_backends_agree_witness:
  "missing_ids_fallback [(Some 5, ''src/a.py'')] (\<lambda>ids. []) (Some [''*_[ab].py'', ''100%?.py''])
     = missing_ids_sql sql_like sample_emb_db [] ''p'' ''m'' (Some [''*_[ab].py'', ''100%?.py''])"
proof -
  have "[(Some 5, ''src/a.py'')] = map (\<lambda>c. (Some (r_id c), file_path_of sample_emb_db c))
      (sort_key r_id (t_chunks (db_tables sample_emb_db)))" by code_simp
  from missing_ids_backends_agree [OF sqlw.like_wildcards_axioms sample_emb_db_ok(1) this, of "\<lambda>ids. []" "[]"]
  show ?thesis by (simp add: has_embedding_def)
qed

text \<open>
  A target other than the configured provider selects the chunks without an embedding of the target;
  generating uses the configured provider: chunks that it has embedded already are filtered out, and
  the call reports success with nothing generated for the target.
\<close>

theorem other_target_not_generated:
  "generate_missing_embeddings sql_like no_tokenizers (Some sample_provider) answers sample_emb_db (Some ''openai'') None None
     [(5, ''voyageai'', ''m'')]
   = ([(5, ''voyageai'', ''m'')], \<lparr>er_status = ''success'', er_generated = 0, er_total_chunks = Some 1,
        er_target = Some (''openai'', ''m'')\<rparr>)"
  by code_simp

text \<open>
  The coordinator embeds a chunk with a header of its path and language, the service embeds the bare
  code: the vector of a chunk depends on which of the two met it first.
\<close>

theorem embedded_texts_differ:
  "embedding_text \<lparr>pc_code = ''x = 1'', pc_file_path = Some ''src/a.py'', pc_language = Some ''python'', pc_constants = None,
       pc_rule_target = None\<rparr> = ''# src/a.py (python)'' @ [nl] @ ''x = 1''
     \<and> map snd (get_chunks_by_ids sample_emb_db [5]) = [''x = 1'']"
  by code_simp

end
