(* ===== verification/Batch_Processor.thy ===== *)
theory Batch_Processor
  imports Indexing Batching
begin

text \<open>
  From a list of files to parsed results: the worker function \<open>process_file_batch\<close>
  (\<open>services/batch_processor.py\<close>), its counterpart for the native pipeline
  (\<open>parse_batch_callback\<close> of \<open>pipeline_bridge.py\<close>) and the distribution of files over worker
  processes (\<open>_process_files_in_batches\<close> of \<open>services/indexing_coordinator.py\<close>).

  The file system, the parsers and the clock are the record \<open>worker_env\<close>; an exception is the
  text \<open>str(e)\<close> that the code keeps of it.  A child process is the call it makes: it answers in
  time or it does not.  Of the pool of processes the order in which the batches complete is left,
  an argument.  The semaphore that limits concurrent children, debug output and progress are left
  out.
\<close>

record worker_env =
  we_scss :: bool
  we_header :: header_reader
  we_stat :: "string \<Rightarrow> string + int \<times> rat"
  we_sample :: "string \<Rightarrow> string + string"
  we_create :: "Language \<Rightarrow> bool \<Rightarrow> string + (string \<Rightarrow> string + ddict list) option"
  we_in_time :: "rat \<Rightarrow> string \<Rightarrow> bool"
  we_show_language :: "Language \<Rightarrow> string"
  we_show_secs :: "rat \<Rightarrow> string"

record parse_config =
  bc_detect_sql :: bool
  bc_timeout_s :: rat
  bc_timeout_min_kb :: int
  bc_threshold_kb :: int
  bc_index_unknown :: bool

datatype child_answer = Child_Ok "ddict list" | Child_Error string | Child_Timeout

text \<open>\<open>create_parser_for_language\<close> and \<open>parse_file\<close>, for a caller that checks for a missing parser.\<close>

definition parse_with :: "worker_env \<Rightarrow> Language \<Rightarrow> bool \<Rightarrow> string \<Rightarrow> string + ddict list" where
  "parse_with env language detect_sql p =
     (case we_create env language detect_sql of
        Inl e \<Rightarrow> Inl e
      | Inr None \<Rightarrow> Inl (''No parser available for '' @ we_show_language env language)
      | Inr (Some parse) \<Rightarrow> parse p)"

definition parse_file_worker :: "worker_env \<Rightarrow> string \<Rightarrow> string \<Rightarrow> bool \<Rightarrow> string + ddict list" where
  "parse_file_worker env file_path language_val detect_sql =
     parse_with env (language_from_string language_val) detect_sql file_path"

definition parse_file_with_timeout :: "worker_env \<Rightarrow> string \<Rightarrow> Language \<Rightarrow> rat \<Rightarrow> bool \<Rightarrow> child_answer" where
  "parse_file_with_timeout env p language timeout_s detect_sql =
     (if we_in_time env timeout_s p
      then case parse_file_worker env p (language_value language) detect_sql of
             Inr chunks \<Rightarrow> Child_Ok chunks
           | Inl e \<Rightarrow> Child_Error e
      else Child_Timeout)"

definition kilobytes :: "int \<Rightarrow> rat" where
  "kilobytes n = py_truediv n 1024"

definition large_config :: "parse_config \<Rightarrow> Language \<Rightarrow> int \<Rightarrow> bool" where
  "large_config cfg language sz \<longleftrightarrow>
     is_structured_config_language language \<and> \<not> bc_threshold_kb cfg \<le> 0 \<and> kilobytes sz > of_int (bc_threshold_kb cfg)"

definition file_result ::
  "string \<Rightarrow> ddict list \<Rightarrow> Language \<Rightarrow> int \<times> rat \<Rightarrow> string \<Rightarrow> string option \<Rightarrow> string option \<Rightarrow> parsed_file_result" where
  "file_result p chunks language st status err h =
     \<lparr>pf_file_path = p, pf_chunks = chunks, pf_language = language, pf_file_size = fst st, pf_file_mtime = snd st,
      pf_status = status, pf_error = err, pf_content_hash = h\<rparr>"

text \<open>The part of the loop body after the language is known.\<close>

definition process_known :: "worker_env \<Rightarrow> parse_config \<Rightarrow> string \<Rightarrow> string option \<Rightarrow> int \<times> rat \<Rightarrow> Language \<Rightarrow> parsed_file_result" where
  "process_known env cfg p h st language =
     (if large_config cfg language (fst st) then file_result p [] language st ''skipped'' (Some ''large_config_file'') None
      else if bc_timeout_s cfg > 0 \<and> kilobytes (fst st) \<ge> of_int (bc_timeout_min_kb cfg)
      then (case parse_file_with_timeout env p language (bc_timeout_s cfg) (bc_detect_sql cfg) of
              Child_Timeout \<Rightarrow> file_result p [] language st ''skipped'' (Some ''timeout'') h
            | Child_Error e \<Rightarrow> file_result p [] language st ''error'' (Some e) h
            | Child_Ok chunks \<Rightarrow> file_result p chunks language st ''success'' None h)
      else case we_create env language (bc_detect_sql cfg) of
             Inl e \<Rightarrow> file_result p [] L_UNKNOWN (0, 0) ''error'' (Some e) None
           | Inr None \<Rightarrow>
               file_result p [] language st ''error'' (Some (''No parser available for '' @ we_show_language env language)) None
           | Inr (Some parse) \<Rightarrow>
               (case parse p of
                  Inl e \<Rightarrow> file_result p [] L_UNKNOWN (0, 0) ''error'' (Some e) None
                | Inr chunks \<Rightarrow> file_result p chunks language st ''success'' None h))"

definition process_one :: "worker_env \<Rightarrow> parse_config \<Rightarrow> string \<times> string option \<Rightarrow> parsed_file_result" where
  "process_one env cfg = (\<lambda>(p, h).
     case we_stat env p of
       Inl e \<Rightarrow> file_result p [] L_UNKNOWN (0, 0) ''error'' (Some e) None
     | Inr st \<Rightarrow>
         (let language = detect_language (we_scss env) (we_header env) p
          in if language \<noteq> L_UNKNOWN then process_known env cfg p h st language
             else if \<not> bc_index_unknown cfg then file_result p [] language st ''skipped'' (Some ''Unknown file type'') None
             else case we_sample env p of
                    Inl e \<Rightarrow> file_result p [] language st ''error'' (Some e) None
                  | Inr bytes \<Rightarrow>
                      if CHR 0x00 \<in> set bytes then file_result p [] language st ''skipped'' (Some ''binary_file'') None
                      else process_known env cfg p h st L_TEXT))"

text \<open>A file of the list is a bare path or a path with its precomputed hash.\<close>

datatype file_item = Bare string | Hashed string "string option"

definition normalize_to_path_tuples :: "file_item list \<Rightarrow> (string \<times> string option) list" where
  "normalize_to_path_tuples = map (\<lambda>i. case i of Bare p \<Rightarrow> (p, None) | Hashed p h \<Rightarrow> (p, h))"

definition process_file_batch :: "worker_env \<Rightarrow> parse_config \<Rightarrow> file_item list \<Rightarrow> parsed_file_result list" where
  "process_file_batch env cfg items = map (process_one env cfg) (normalize_to_path_tuples items)"

subsection \<open>The callbacks of the native pipeline\<close>

type_synonym callback_result = "string \<times> ddict list \<times> string option \<times> string option"

text \<open>\<open>None.parse_file\<close> raises an \<open>AttributeError\<close> with this text.\<close>

definition no_attribute :: string where
  "no_attribute = [CHR 0x27] @ ''NoneType'' @ [CHR 0x27] @ '' object has no attribute '' @ [CHR 0x27] @ ''parse_file'' @ [CHR 0x27]"

definition callback_known :: "worker_env \<Rightarrow> parse_config \<Rightarrow> string \<Rightarrow> Language \<Rightarrow> string + string \<times> ddict list \<times> string option" where
  "callback_known env cfg p language =
     (let parsed = (case we_create env language (bc_detect_sql cfg) of
                      Inl e \<Rightarrow> Inl e
                    | Inr None \<Rightarrow> Inl no_attribute
                    | Inr (Some parse) \<Rightarrow>
                        (case parse p of Inl e \<Rightarrow> Inl e | Inr chunks \<Rightarrow> Inr (language_value language, chunks, None)))
      in if is_structured_config_language language
         then (case we_stat env p of
                 Inl e \<Rightarrow> Inl e
               | Inr st \<Rightarrow> if bc_threshold_kb cfg > 0 \<and> kilobytes (fst st) > of_int (bc_threshold_kb cfg)
                           then Inr ([], [], Some ''large_config_file'') else parsed)
         else parsed)"

definition parse_file_callback :: "worker_env \<Rightarrow> parse_config \<Rightarrow> string \<Rightarrow> string + string \<times> ddict list \<times> string option" where
  "parse_file_callback env cfg p =
     (let language = detect_language (we_scss env) (we_header env) p
      in if language \<noteq> L_UNKNOWN then callback_known env cfg p language
         else if \<not> bc_index_unknown cfg then Inr ([], [], Some ''Unknown file type'')
         else case we_sample env p of
                Inl e \<Rightarrow> Inl e
              | Inr bytes \<Rightarrow> if CHR 0x00 \<in> set bytes then Inr ([], [], Some ''binary_file'') else callback_known env cfg p L_TEXT)"

definition parse_with_timeout :: "worker_env \<Rightarrow> parse_config \<Rightarrow> string \<Rightarrow> callback_result" where
  "parse_with_timeout env cfg p =
     (if we_in_time env (bc_timeout_s cfg) p
      then case parse_file_callback env cfg p of
             Inr (language, chunks, skip) \<Rightarrow> (language, chunks, None, skip)
           | Inl e \<Rightarrow> ([], [], Some e, None)
      else ([], [], Some (''parse timed out after '' @ we_show_secs env (bc_timeout_s cfg) @ ''s''), None))"

definition parse_one_file :: "worker_env \<Rightarrow> parse_config \<Rightarrow> string \<Rightarrow> callback_result" where
  "parse_one_file env cfg p =
     (let direct = (case parse_file_callback env cfg p of
                      Inr (language, chunks, skip) \<Rightarrow> (language, chunks, None, skip)
                    | Inl e \<Rightarrow> ([], [], Some e, None))
      in if bc_timeout_s cfg > 0
         then (case we_stat env p of
                 Inl e \<Rightarrow> ([], [], Some e, None)
               | Inr st \<Rightarrow> if kilobytes (fst st) \<ge> of_int (bc_timeout_min_kb cfg) then parse_with_timeout env cfg p else direct)
         else direct)"

definition default_parse_config :: parse_config where
  "default_parse_config =
     \<lparr>bc_detect_sql = True, bc_timeout_s = 0, bc_timeout_min_kb = 128, bc_threshold_kb = 20, bc_index_unknown = False\<rparr>"

definition parse_config_from_any :: "parse_config option \<Rightarrow> bool \<Rightarrow> parse_config" where
  "parse_config_from_any given index_unknown =
     (case given of
        None \<Rightarrow> if \<not> index_unknown then default_parse_config else default_parse_config\<lparr>bc_index_unknown := True\<rparr>
      | Some c \<Rightarrow> c\<lparr>bc_index_unknown := index_unknown\<rparr>)"

definition parse_batch_callback :: "worker_env \<Rightarrow> string list \<Rightarrow> parse_config option \<Rightarrow> bool \<Rightarrow> callback_result list" where
  "parse_batch_callback env file_paths given index_unknown =
     map (parse_one_file env (parse_config_from_any given index_unknown)) file_paths"

subsection \<open>Distribution over worker processes\<close>

text \<open>The settings of \<open>config.indexing\<close> that the distribution reads; without a config the defaults.\<close>

record index_settings =
  is_timeout_s :: rat
  is_timeout_min_kb :: int
  is_max_concurrent :: int
  is_detect_sql :: bool

definition default_index_settings :: index_settings where
  "default_index_settings =
     \<lparr>is_timeout_s = 0, is_timeout_min_kb = 128, is_max_concurrent = 0, is_detect_sql = True\<rparr>"

definition calculate_worker_count :: "int \<Rightarrow> int \<Rightarrow> int" where
  "calculate_worker_count file_count cpu_count =
     (if file_count < 100 then min (min cpu_count 4) file_count
      else if file_count < 1000 then min (min cpu_count 8) file_count
      else min (min cpu_count 16) file_count)"

definition number_of_workers :: "index_settings \<Rightarrow> int \<Rightarrow> int \<Rightarrow> int" where
  "number_of_workers cfg cpu_count file_count =
     (if is_timeout_s cfg > 0 \<and> is_max_concurrent cfg \<le> 0 then max 1 (min cpu_count 32)
      else let n = calculate_worker_count file_count cpu_count
           in if is_max_concurrent cfg > 0 then max 1 (min n (is_max_concurrent cfg)) else n)"

definition file_batch_size :: "index_settings \<Rightarrow> int \<Rightarrow> int \<Rightarrow> int" where
  "file_batch_size cfg num_workers file_count =
     (let dynamic_factor = (if is_timeout_s cfg > 0 then 8 else 4);
          target_batches = max (num_workers * dynamic_factor) 1;
          min_batch = (if is_timeout_s cfg > 0 then 16 else 128);
          base = max 1 \<lceil>py_truediv file_count target_batches\<rceil>;
          batch_size = min file_count (max min_batch base)
      in if is_timeout_s cfg > 0
         then min batch_size (max 4 (py_trunc (fl (60 / max (fl (1 / 1000)) (is_timeout_s cfg)))))
         else batch_size)"

text \<open>The \<open>config_dict\<close> handed to the workers: it has no entry \<open>index_unknown_files\<close>.\<close>

definition worker_config :: "index_settings \<Rightarrow> int \<Rightarrow> parse_config" where
  "worker_config cfg threshold_kb =
     \<lparr>bc_detect_sql = is_detect_sql cfg, bc_timeout_s = is_timeout_s cfg, bc_timeout_min_kb = is_timeout_min_kb cfg,
      bc_threshold_kb = threshold_kb, bc_index_unknown = False\<rparr>"

text \<open>
  The handler \<open>on_batch\<close> changes a state and may raise.  Streaming to it stops at the first
  exception; with a single file the exception is only logged.
\<close>

type_synonym 's batch_handler = "'s \<Rightarrow> parsed_file_result list \<Rightarrow> 's \<times> pyerror option"

fun stream_batches ::
  "'s batch_handler option \<Rightarrow> 's \<Rightarrow> parsed_file_result list \<Rightarrow> parsed_file_result list list \<Rightarrow> 's \<times> parsed_file_result list result" where
  "stream_batches on_batch s all_results [] = (s, Inr all_results)"
| "stream_batches on_batch s all_results (b # bs) =
     (case on_batch of
        None \<Rightarrow> stream_batches on_batch s (all_results @ b) bs
      | Some handle \<Rightarrow>
          (case handle s b of
             (s', Some e) \<Rightarrow> (s', Inl e)
           | (s', None) \<Rightarrow> stream_batches on_batch s' (all_results @ b) bs))"

text \<open>\<open>completed n\<close> is the order in which \<open>asyncio.as_completed\<close> yields \<open>n\<close> batches.\<close>

definition process_files_in_batches ::
  "worker_env \<Rightarrow> index_settings \<Rightarrow> int option \<Rightarrow> (nat \<Rightarrow> nat list) \<Rightarrow> int \<Rightarrow> 's batch_handler option \<Rightarrow> 's \<Rightarrow> file_item list \<Rightarrow>
     's \<times> parsed_file_result list result" where
  "process_files_in_batches env cfg cpus completed threshold_kb on_batch s files =
     (if files = [] then (s, Inr [])
      else
        let cpu_count = (case cpus of Some n \<Rightarrow> if n = 0 then 4 else n | None \<Rightarrow> 4);
            file_count = int (length files);
            num_workers = number_of_workers cfg cpu_count file_count;
            config_dict = worker_config cfg threshold_kb
        in if file_count = 1
           then let results = process_file_batch env config_dict files
                in (case on_batch of None \<Rightarrow> s | Some handle \<Rightarrow> if results \<noteq> [] then fst (handle s results) else s, Inr results)
           else let batch_size = file_batch_size cfg num_workers file_count;
                    normalized = map (\<lambda>(p, h). Hashed p h) (normalize_to_path_tuples files);
                    futures = map (process_file_batch env config_dict) (slices (nat batch_size) normalized)
                in stream_batches on_batch s [] (map ((!) futures) (completed (length futures))))"

subsection \<open>One result for every file\<close>

lemma length_normalize [simp]: "length (normalize_to_path_tuples files) = length files"
  by (simp add: normalize_to_path_tuples_def)

lemma normalize_hashed: "normalize_to_path_tuples (map (\<lambda>(p, h). Hashed p h) xs) = xs"
  by (induction xs) (auto simp: normalize_to_path_tuples_def)

lemma process_one_path [simp]: "pf_file_path (process_one env cfg (p, h)) = p"
  by (simp add: process_one_def process_known_def file_result_def Let_def
      split: sum.split option.split child_answer.split)

lemma batch_size_positive:
  assumes "0 < n"
  shows "0 < file_batch_size cfg w n" and "file_batch_size cfg w n \<le> n"
  using assms by (auto simp: file_batch_size_def Let_def intro!: min.coboundedI1)

lemma stream_complete:
  assumes "\<forall>h. on_batch = Some h \<longrightarrow> (\<forall>s b. snd (h s b) = None)"
  shows "snd (stream_batches on_batch s acc bs) = Inr (acc @ concat bs)"
    and "fst (stream_batches on_batch s acc bs)
      = (case on_batch of None \<Rightarrow> s | Some h \<Rightarrow> foldl (\<lambda>s b. fst (h s b)) s bs)"
proof -
  have none: "snd (h s b) = None" if "on_batch = Some h" for h s b using assms that by blast
  show "snd (stream_batches on_batch s acc bs) = Inr (acc @ concat bs)"
    and "fst (stream_batches on_batch s acc bs)
      = (case on_batch of None \<Rightarrow> s | Some h \<Rightarrow> foldl (\<lambda>s b. fst (h s b)) s bs)"
    using none by (induction bs arbitrary: s acc) (auto split: option.splits prod.splits, (metis option.simps(3) snd_conv)+)
qed

definition in_some_order :: "(nat \<Rightarrow> nat list) \<Rightarrow> bool" where
  "in_some_order completed \<longleftrightarrow> (\<forall>n. distinct (completed n) \<and> set (completed n) = {0..<n})"

lemma mset_in_some_order:
  assumes "in_some_order completed"
  shows "mset (map ((!) xs) (completed (length xs))) = mset xs"
proof -
  have "mset (completed (length xs)) = mset [0..<length xs]"
    using assms by (intro set_eq_iff_mset_eq_distinct [THEN iffD1]) (simp_all add: in_some_order_def)
  then have "mset (map ((!) xs) (completed (length xs))) = mset (map ((!) xs) [0..<length xs])" by simp
  then show ?thesis by (simp add: map_nth)
qed

lemma mset_concat_cong: "mset xss = mset yss \<Longrightarrow> mset (concat xss) = mset (concat yss)"
proof -
  have "mset (concat zs) = \<Sum>\<^sub># (image_mset mset (mset zs))" for zs :: "'a list list" by (induction zs) simp_all
  then show "mset xss = mset yss \<Longrightarrow> mset (concat xss) = mset (concat yss)" by simp
qed

lemma batches_concat:
  "concat (map (process_file_batch env cfg) (slices k xs)) = process_file_batch env cfg (concat (slices k xs))"
proof -
  have "process_file_batch env cfg = map (process_one env cfg \<circ> (\<lambda>i. case i of Bare p \<Rightarrow> (p, None) | Hashed p h \<Rightarrow> (p, h)))"
    by (intro ext) (simp add: process_file_batch_def normalize_to_path_tuples_def)
  then show ?thesis by (simp only: map_concat)
qed

text \<open>A handler that never raises sees all results, in some batches.\<close>

lemma process_files_run:
  assumes order: "in_some_order completed" and quiet: "\<And>s b. snd (handle s b) = None"
  shows "\<exists>bs. process_files_in_batches env cfg cpus completed kb (Some handle) s files
      = (foldl (\<lambda>s b. fst (handle s b)) s bs, Inr (concat bs))
    \<and> mset (concat bs) = mset (map (process_one env (worker_config cfg kb)) (normalize_to_path_tuples files))
    \<and> (\<forall>b\<in>set bs. b \<noteq> [] \<and> length b \<le> length files)"
proof (cases "files = [] \<or> length files = 1")
  case True
  let ?r = "process_file_batch env (worker_config cfg kb) files"
  have "normalize_to_path_tuples files \<noteq> [] \<longleftrightarrow> files \<noteq> []" by (simp add: normalize_to_path_tuples_def)
  with True show ?thesis
    by (intro exI [of _ "if files = [] then [] else [?r]"])
      (auto simp: process_files_in_batches_def process_file_batch_def normalize_to_path_tuples_def Let_def)
next
  case False
  define w where "w = number_of_workers cfg (case cpus of Some n \<Rightarrow> if n = 0 then 4 else n | None \<Rightarrow> 4) (int (length files))"
  define k where "k = nat (file_batch_size cfg w (int (length files)))"
  let ?norm = "map (\<lambda>(p, h). Hashed p h) (normalize_to_path_tuples files)"
  let ?fs = "map (process_file_batch env (worker_config cfg kb)) (slices k ?norm)"
  let ?done = "map ((!) ?fs) (completed (length (slices k ?norm)))"
  have k: "0 < k" "k \<le> length files" using False batch_size_positive [of "int (length files)" cfg w] by (auto simp: k_def)
  have "process_files_in_batches env cfg cpus completed kb (Some handle) s files = stream_batches (Some handle) s [] ?done"
    using False by (simp add: process_files_in_batches_def Let_def w_def k_def)
  moreover have "snd (stream_batches (Some handle) s [] ?done) = Inr (concat ?done)"
    "fst (stream_batches (Some handle) s [] ?done) = foldl (\<lambda>s b. fst (handle s b)) s ?done"
    using stream_complete [of "Some handle" s "[]" ?done] quiet by simp_all
  ultimately have run: "process_files_in_batches env cfg cpus completed kb (Some handle) s files
      = (foldl (\<lambda>s b. fst (handle s b)) s ?done, Inr (concat ?done))" by (simp add: prod_eq_iff)
  have perm: "mset ?done = mset ?fs" using mset_in_some_order [OF order, of ?fs] by simp
  have "concat ?fs = map (process_one env (worker_config cfg kb)) (normalize_to_path_tuples files)"
    unfolding batches_concat concat_slices [OF k(1)] by (simp add: process_file_batch_def normalize_hashed)
  with mset_concat_cong [OF perm]
  have all: "mset (concat ?done) = mset (map (process_one env (worker_config cfg kb)) (normalize_to_path_tuples files))" by simp
  have "b \<noteq> [] \<and> length b \<le> length files" if "b \<in> set ?done" for b
  proof -
    have "b \<in> set ?fs" using that perm by (metis set_mset_mset)
    then obtain x where "x \<in> set (slices k ?norm)" "b = process_file_batch env (worker_config cfg kb) x" by auto
    with slices_bounds [of x k ?norm] k(2) show ?thesis
      by (auto simp: process_file_batch_def normalize_to_path_tuples_def)
  qed
  with run all show ?thesis by (intro exI [of _ ?done]) blast
qed

text \<open>
  C23: Whatever the number of CPUs, the settings and the order in which the worker processes finish,
  every file of the list is parsed exactly once: the results handed to the batch handler, in batches
  of at most as many as there are files, and the results returned are those of the files one by one.
\<close>

theorem files_parsed_once:
  assumes "in_some_order completed"
    and "process_files_in_batches env cfg cpus completed kb (Some (\<lambda>s b. (s @ [b], None))) [] files = (handed, Inr results)"
  shows "mset (concat handed) = mset (map (process_one env (worker_config cfg kb)) (normalize_to_path_tuples files))
    \<and> mset results = mset (concat handed)
    \<and> (\<forall>b\<in>set handed. b \<noteq> [] \<and> length b \<le> length files)"
proof -
  have "foldl (\<lambda>s b. s @ [b]) acc xs = acc @ xs" for acc xs :: "parsed_file_result list list"
    by (induction xs arbitrary: acc) simp_all
  then show ?thesis
    using process_files_run [OF assms(1), of "\<lambda>s b. (s @ [b], None)" env cfg cpus kb "[]" files] assms(2) by auto
qed

definition sample_worker :: worker_env where
  "sample_worker = \<lparr>we_scss = True, we_header = (\<lambda>_. None),
     we_stat = (\<lambda>p. if p = ''gone.py'' then Inl ''gone'' else Inr (100, 1)), we_sample = (\<lambda>_. Inr []),
     we_create = (\<lambda>l d. Inr (Some (\<lambda>p. if p = ''bad.py'' then Inl ''syntax'' else Inr []))),
     we_in_time = (\<lambda>t p. True), we_show_language = language_value, we_show_secs = (\<lambda>_. [])\<rparr>"

lemma files_parsed_once_witness:
  "mset (map pf_status (projr (snd (process_files_in_batches sample_worker default_index_settings (Some 2) (\<lambda>n. rev [0..<n]) 20
      (Some (\<lambda>s b. (s @ [b], None))) [] [Bare ''a.py'', Bare ''bad.py'', Bare ''gone.py'', Bare ''x.bin'']))))
    = {#''success'', ''error'', ''error'', ''skipped''#}"
proof -
  let ?run = "process_files_in_batches sample_worker default_index_settings (Some 2) (\<lambda>n. rev [0..<n]) 20
      (Some (\<lambda>s b. (s @ [b], None))) [] [Bare ''a.py'', Bare ''bad.py'', Bare ''gone.py'', Bare ''x.bin'']"
  have order: "in_some_order (\<lambda>n. rev [0..<n])" by (simp add: in_some_order_def)
  have run: "?run = (fst ?run, Inr (projr (snd ?run)))" by code_simp
  have "map pf_status (map (process_one sample_worker (worker_config default_index_settings 20))
      (normalize_to_path_tuples [Bare ''a.py'', Bare ''bad.py'', Bare ''gone.py'', Bare ''x.bin'']))
    = [''success'', ''error'', ''error'', ''skipped'']" by code_simp
  moreover have "image_mset pf_status (mset (projr (snd ?run))) = image_mset pf_status (mset (map (process_one sample_worker
      (worker_config default_index_settings 20)) (normalize_to_path_tuples [Bare ''a.py'', Bare ''bad.py'', Bare ''gone.py'', Bare ''x.bin''])))"
    using files_parsed_once [OF order run] by simp
  ultimately show ?thesis by (simp only: mset_map [symmetric]) simp
qed

subsection \<open>The two worker functions agree\<close>

text \<open>What a result means for the file, read from the two forms; the coordinator reads the timeout from the error text.\<close>

datatype file_outcome = Stored Language "ddict list" | Skipped string | Errored string

definition result_outcome :: "parsed_file_result \<Rightarrow> file_outcome" where
  "result_outcome r =
     (if pf_status r = ''success'' then Stored (pf_language r) (pf_chunks r)
      else if pf_status r = ''skipped'' then Skipped (case pf_error r of Some e \<Rightarrow> e | None \<Rightarrow> [])
      else Errored (case pf_error r of Some e \<Rightarrow> e | None \<Rightarrow> []))"

definition timed_out_text :: "string \<Rightarrow> bool" where
  "timed_out_text e \<longleftrightarrow> starts_with e ''parse timed out after''"

definition callback_outcome :: "callback_result \<Rightarrow> file_outcome" where
  "callback_outcome = (\<lambda>(language, chunks, err, skip).
     case err of
       Some e \<Rightarrow> if timed_out_text e then Skipped ''timeout'' else Errored e
     | None \<Rightarrow> (case skip of Some why \<Rightarrow> Skipped why | None \<Rightarrow> Stored (language_from_string language) chunks))"

definition no_timeout_texts :: "worker_env \<Rightarrow> bool" where
  "no_timeout_texts env \<longleftrightarrow>
     (\<forall>p e. we_sample env p = Inl e \<longrightarrow> \<not> timed_out_text e) \<and>
     (\<forall>l d. case we_create env l d of
        Inl e \<Rightarrow> \<not> timed_out_text e
      | Inr None \<Rightarrow> False
      | Inr (Some parse) \<Rightarrow> \<forall>p e. parse p = Inl e \<longrightarrow> \<not> timed_out_text e)"

lemma no_timeout_textsE:
  assumes "no_timeout_texts env"
  obtains e where "we_create env l d = Inl e" "\<not> timed_out_text e"
    | parse where "we_create env l d = Inr (Some parse)" "\<And>p e. parse p = Inl e \<Longrightarrow> \<not> timed_out_text e"
proof (cases "we_create env l d")
  case (Inl e)
  with assms that(1) show thesis by (force simp: no_timeout_texts_def dest: spec [of _ l] spec [of _ d])
next
  case (Inr x)
  with assms have "case x of None \<Rightarrow> False | Some parse \<Rightarrow> \<forall>p e. parse p = Inl e \<longrightarrow> \<not> timed_out_text e"
    unfolding no_timeout_texts_def by (metis (mono_tags, lifting) sum.simps(6))
  with Inr that(2) show thesis by (auto split: option.splits)
qed

lemma timed_out_message: "timed_out_text (''parse timed out after '' @ s)"
  by (simp add: timed_out_text_def starts_with_def)

lemma structured_not_large: "large_config cfg l n \<longleftrightarrow>
    is_structured_config_language l \<and> bc_threshold_kb cfg > 0 \<and> kilobytes n > of_int (bc_threshold_kb cfg)"
  by (auto simp: large_config_def)

lemma known_agree:
  assumes "no_timeout_texts env" "we_stat env p = Inr st"
  shows "(case callback_known env cfg p l of
       Inr (language, chunks, skip) \<Rightarrow> callback_outcome (language, chunks, None, skip)
     | Inl e \<Rightarrow> callback_outcome ([], [], Some e, None))
    = (if large_config cfg l (fst st) then Skipped ''large_config_file''
       else case parse_with env l (bc_detect_sql cfg) p of Inl e \<Rightarrow> Errored e | Inr chunks \<Rightarrow> Stored l chunks)"
  using assms(1)
  by (rule no_timeout_textsE [of env l "bc_detect_sql cfg"])
    (auto simp: callback_known_def Let_def assms(2) structured_not_large parse_with_def callback_outcome_def split: sum.splits)

lemma process_known_outcome:
  assumes "no_timeout_texts env"
  shows "result_outcome (process_known env cfg p h st l)
    = (if large_config cfg l (fst st) then Skipped ''large_config_file''
       else if bc_timeout_s cfg > 0 \<and> kilobytes (fst st) \<ge> of_int (bc_timeout_min_kb cfg) \<and> \<not> we_in_time env (bc_timeout_s cfg) p
       then Skipped ''timeout''
       else case parse_with env l (bc_detect_sql cfg) p of Inl e \<Rightarrow> Errored e | Inr chunks \<Rightarrow> Stored l chunks)"
  using assms
  by (rule no_timeout_textsE [of env l "bc_detect_sql cfg"])
    (auto simp: process_known_def file_result_def result_outcome_def parse_file_with_timeout_def parse_file_worker_def
      parse_with_def split: sum.splits)

lemma callback_detected:
  assumes "no_timeout_texts env" "we_stat env p = Inr st"
  defines "l \<equiv> detect_language (we_scss env) (we_header env) p"
  shows "(case parse_file_callback env cfg p of
       Inr (language, chunks, skip) \<Rightarrow> callback_outcome (language, chunks, None, skip)
     | Inl e \<Rightarrow> callback_outcome ([], [], Some e, None))
    = (if l \<noteq> L_UNKNOWN
       then (case callback_known env cfg p l of
               Inr (language, chunks, skip) \<Rightarrow> callback_outcome (language, chunks, None, skip)
             | Inl e \<Rightarrow> callback_outcome ([], [], Some e, None))
       else if \<not> bc_index_unknown cfg then Skipped ''Unknown file type''
       else case we_sample env p of
              Inl e \<Rightarrow> Errored e
            | Inr bytes \<Rightarrow> if CHR 0x00 \<in> set bytes then Skipped ''binary_file''
                else (case callback_known env cfg p L_TEXT of
                        Inr (language, chunks, skip) \<Rightarrow> callback_outcome (language, chunks, None, skip)
                      | Inl e \<Rightarrow> callback_outcome ([], [], Some e, None)))"
  using assms(1) by (simp add: parse_file_callback_def l_def Let_def callback_outcome_def no_timeout_texts_def split: sum.split)

lemma one_file_outcome:
  assumes "we_stat env p = Inr st"
  shows "callback_outcome (parse_one_file env cfg p)
    = (if bc_timeout_s cfg > 0 \<and> kilobytes (fst st) \<ge> of_int (bc_timeout_min_kb cfg) \<and> \<not> we_in_time env (bc_timeout_s cfg) p
       then Skipped ''timeout''
       else case parse_file_callback env cfg p of
         Inr (language, chunks, skip) \<Rightarrow> callback_outcome (language, chunks, None, skip)
       | Inl e \<Rightarrow> callback_outcome ([], [], Some e, None))"
proof -
  have "callback_outcome ([], [], Some (''parse timed out after '' @ s), None) = Skipped ''timeout''" for s
    by (simp only: callback_outcome_def prod.case option.case timed_out_message if_True)
  then show ?thesis
    using assms by (simp add: parse_one_file_def parse_with_timeout_def Let_def split: sum.split prod.split)
qed



text \<open>
  Files of unknown type are never indexed by the Python workers, whatever the configuration says;
  the native pipeline passes the setting on.
\<close>

lemma unknown_files_never_indexed:
  "pf_status (process_one env (worker_config cfg kb) (p, h)) \<noteq> ''success''"
  if "detect_language (we_scss env) (we_header env) p = L_UNKNOWN"
  using that by (simp add: process_one_def worker_config_def file_result_def split: sum.split)

lemma unknown_files_indexed_natively:
  "callback_outcome (parse_one_file sample_worker (default_parse_config\<lparr>bc_index_unknown := True\<rparr>) ''x.bin'') = Stored L_TEXT []"
  by code_simp

text \<open>An exception of the batch handler is lost with one file, and ends the run with two.\<close>

lemma single_file_loses_handler_error:
  "snd (process_files_in_batches sample_worker default_index_settings None (\<lambda>n. [0..<n]) 20
      (Some (\<lambda>s b. (s, Some RuntimeError))) () [Bare ''x.bin''])
    = Inr [file_result ''x.bin'' [] L_UNKNOWN (100, 1) ''skipped'' (Some ''Unknown file type'') None]"
  "snd (process_files_in_batches sample_worker default_index_settings None (\<lambda>n. [0..<n]) 20
      (Some (\<lambda>s b. (s, Some RuntimeError))) () [Bare ''x.bin'', Bare ''y.bin'']) = Inl RuntimeError"
  by code_simp+

end
