(* ===== verification/Guarded_Delete.thy ===== *)
theory Guarded_Delete
  imports Chunk_Store
begin

text \<open>
  Deleting files and chunks behind the guard of \<open>providers/database/duckdb_provider.py\<close> that drops
  and recreates the vector indexes: the snapshot of the rows to delete, the restoration after a
  failure, and the batch deletions built on them.

  Every statement sent to the database may fail: \<open>faults n\<close> says that the \<open>n\<close>-th statement raises
  and has no effect; its exception stands as \<^const>\<open>RuntimeError\<close>.  The embedding tables are the one
  list of \<^typ>\<open>tables\<close>.  A vector index has a name, the table it is on and a metric; reading the
  catalog of indexes does not fail, and their dimensions are part of the table's name.
\<close>

record vindex =
  vi_name :: string
  vi_table :: string
  vi_metric :: string

record guard_state =
  g_db :: database
  g_indexes :: "vindex list"
  g_saved_indexes :: "vindex list"
  g_preserve_order :: bool
  g_statements :: nat

type_synonym 'a db_op = "(nat \<Rightarrow> bool) \<Rightarrow> guard_state \<Rightarrow> guard_state \<times> 'a result"

subsection \<open>Operations that may fail\<close>

definition return_op :: "'a \<Rightarrow> 'a db_op" where
  "return_op x = (\<lambda>faults st. (st, Inr x))"

definition raise_op :: "pyerror \<Rightarrow> 'a db_op" where
  "raise_op e = (\<lambda>faults st. (st, Inl e))"

definition bind_op :: "'a db_op \<Rightarrow> ('a \<Rightarrow> 'b db_op) \<Rightarrow> 'b db_op" where
  "bind_op m k = (\<lambda>faults st. case m faults st of (st', Inl e) \<Rightarrow> (st', Inl e) | (st', Inr x) \<Rightarrow> k x faults st')"

definition then_op :: "unit db_op \<Rightarrow> 'b db_op \<Rightarrow> 'b db_op" where
  "then_op m k = bind_op m (\<lambda>_. k)"

definition execute :: "(guard_state \<Rightarrow> guard_state) \<Rightarrow> unit db_op" where
  "execute effect = (\<lambda>faults st.
     let st1 = st\<lparr>g_statements := Suc (g_statements st)\<rparr>
     in if faults (g_statements st) then (st1, Inl RuntimeError) else (effect st1, Inr ()))"

definition when_op :: "bool \<Rightarrow> unit db_op \<Rightarrow> unit db_op" where
  "when_op b m = (if b then m else return_op ())"

definition reads :: "(guard_state \<Rightarrow> 'a) \<Rightarrow> 'a db_op" where
  "reads f = (\<lambda>faults st. (st, Inr (f st)))"

primrec for_each :: "('b \<Rightarrow> unit db_op) \<Rightarrow> 'b list \<Rightarrow> unit db_op" where
  "for_each f [] = return_op ()"
| "for_each f (x # xs) = then_op (f x) (for_each f xs)"

text \<open>A loop that goes on after an exception.\<close>

primrec for_each_logged :: "('b \<Rightarrow> unit db_op) \<Rightarrow> 'b list \<Rightarrow> unit db_op" where
  "for_each_logged f [] = return_op ()"
| "for_each_logged f (x # xs) = (\<lambda>faults st. for_each_logged f xs faults (fst (f x faults st)))"

subsection \<open>Transactions and indexes\<close>

definition map_db :: "(database \<Rightarrow> database) \<Rightarrow> guard_state \<Rightarrow> guard_state" where
  "map_db f st = st\<lparr>g_db := f (g_db st)\<rparr>"

definition map_tables :: "(tables \<Rightarrow> tables) \<Rightarrow> guard_state \<Rightarrow> guard_state" where
  "map_tables f = map_db (\<lambda>db. db\<lparr>db_tables := f (db_tables db)\<rparr>)"

definition transaction_active :: "guard_state \<Rightarrow> bool" where
  "transaction_active st \<longleftrightarrow> transaction (g_db st) \<noteq> None"

definition op_begin_transaction :: "unit db_op" where
  "op_begin_transaction = execute (\<lambda>st. (map_db begin_transaction st)\<lparr>g_saved_indexes := g_indexes st\<rparr>)"

definition op_commit_transaction :: "unit db_op" where
  "op_commit_transaction = execute (map_db commit_transaction)"

definition op_rollback_transaction :: "unit db_op" where
  "op_rollback_transaction = execute (\<lambda>st.
     if transaction_active st then (map_db rollback_transaction st)\<lparr>g_indexes := g_saved_indexes st\<rparr> else st)"

definition drop_vector_index :: "vindex \<Rightarrow> unit db_op" where
  "drop_vector_index i = execute (\<lambda>st. st\<lparr>g_indexes := filter (\<lambda>j. vi_name j \<noteq> vi_name i) (g_indexes st)\<rparr>)"

text \<open>\<open>re.fullmatch(r"[A-Za-z_][A-Za-z0-9_]*", identifier)\<close>.\<close>

definition ident_char :: "char \<Rightarrow> bool" where
  "ident_char c \<longleftrightarrow> (CHR ''a'' \<le> c \<and> c \<le> CHR ''z'') \<or> (CHR ''A'' \<le> c \<and> c \<le> CHR ''Z'') \<or> c = CHR ''_''"

definition is_safe_duckdb_identifier :: "string \<Rightarrow> bool" where
  "is_safe_duckdb_identifier s \<longleftrightarrow>
     (case s of [] \<Rightarrow> False
      | c # cs \<Rightarrow> ident_char c \<and> list_all (\<lambda>d. ident_char d \<or> (CHR ''0'' \<le> d \<and> d \<le> CHR ''9'')) cs)"

definition SUPPORTED_HNSW_METRICS :: "string list" where
  "SUPPORTED_HNSW_METRICS = [''cosine'', ''l2sq'', ''ip'']"

definition normalize_hnsw_metric :: "string \<Rightarrow> string result" where
  "normalize_hnsw_metric metric =
     (let normalized = py_lower (py_strip metric)
      in if normalized \<notin> set SUPPORTED_HNSW_METRICS then Inl ValueError else Inr normalized)"

text \<open>\<open>CREATE INDEX IF NOT EXISTS\<close>, after the embedding table is made sure of.\<close>

definition recreate_vector_index :: "vindex \<Rightarrow> unit db_op" where
  "recreate_vector_index i =
     then_op (execute id)
       (if \<not> is_safe_duckdb_identifier (vi_name i) then return_op ()
        else case normalize_hnsw_metric (vi_metric i) of
               Inl e \<Rightarrow> return_op ()
             | Inr metric \<Rightarrow>
                 execute (\<lambda>st. if vi_name i \<in> vi_name ` set (g_indexes st) then st
                               else st\<lparr>g_indexes := g_indexes st @ [i\<lparr>vi_metric := metric\<rparr>]\<rparr>))"

definition checkpoint_unless_active :: "unit db_op" where
  "checkpoint_unless_active = (\<lambda>faults st. when_op (\<not> transaction_active st) (execute id) faults st)"

subsection \<open>The guarded mutation\<close>

definition guarded_body :: "bool \<Rightarrow> bool \<Rightarrow> vindex list \<Rightarrow> 'a db_op \<Rightarrow> 'a db_op" where
  "guarded_body transactional optimize_for_bulk existing mutation =
     then_op (when_op transactional op_begin_transaction)
      (then_op (when_op optimize_for_bulk (execute (\<lambda>st. st\<lparr>g_preserve_order := False\<rparr>)))
        (then_op (for_each drop_vector_index existing)
          (bind_op mutation (\<lambda>r.
            then_op (when_op transactional op_commit_transaction)
             (then_op (for_each recreate_vector_index existing) (return_op r))))))"

definition guard_failed ::
  "bool \<Rightarrow> vindex list \<Rightarrow> (vindex list \<Rightarrow> unit db_op) option \<Rightarrow> bool \<Rightarrow> pyerror \<Rightarrow> 'a db_op" where
  "guard_failed transactional existing rollback_func indexes_recreated e = (\<lambda>faults st.
     if transactional \<and> transaction_active st
     then (case op_rollback_transaction faults st of
             (st', Inl e') \<Rightarrow> (st', Inl RuntimeError)
           | (st', Inr _) \<Rightarrow> (st', Inl e))
     else case rollback_func of
            Some restore \<Rightarrow>
              (case restore existing faults st of
                 (st', Inl e') \<Rightarrow> (st', Inl RuntimeError)
               | (st', Inr _) \<Rightarrow> (st', Inl e))
          | None \<Rightarrow>
              (if existing \<noteq> [] \<and> \<not> indexes_recreated
               then (fst (for_each_logged recreate_vector_index existing faults st), Inl e) else (st, Inl e)))"

definition run_hnsw_guarded_mutation ::
  "bool \<Rightarrow> bool \<Rightarrow> (vindex list \<Rightarrow> unit db_op) option \<Rightarrow> 'a db_op \<Rightarrow> 'a db_op" where
  "run_hnsw_guarded_mutation transactional optimize_for_bulk rollback_func mutation = (\<lambda>faults st.
     if transaction_active st \<and> transactional then (st, Inl RuntimeError)
     else
       let existing = g_indexes st in
       case guarded_body transactional optimize_for_bulk existing mutation faults st of
         (st1, Inl e) \<Rightarrow> guard_failed transactional existing rollback_func False e faults st1
       | (st1, Inr r) \<Rightarrow>
           (case checkpoint_unless_active faults st1 of
              (st2, Inl e) \<Rightarrow> guard_failed transactional existing rollback_func (existing \<noteq> []) e faults st2
            | (st2, Inr _) \<Rightarrow> (st2, Inr r)))"

subsection \<open>Snapshot, deletion and restoration\<close>

record snapshot =
  sn_files :: "file_row list"
  sn_chunks :: "chunk_row list"
  sn_embeddings :: "embedding_row list"

definition sn_file_ids :: "snapshot \<Rightarrow> int list" where "sn_file_ids sn = map fr_id (sn_files sn)"
definition sn_chunk_ids :: "snapshot \<Rightarrow> int list" where "sn_chunk_ids sn = map r_id (sn_chunks sn)"

definition rows_to_delete :: "tables \<Rightarrow> int list \<Rightarrow> snapshot" where
  "rows_to_delete tb ids =
     (let chunks = sort_key r_id (filter (\<lambda>r. r_file_id r \<in> set ids) (t_chunks tb))
      in \<lparr>sn_files = sort_key fr_id (filter (\<lambda>r. fr_id r \<in> set ids) (t_files tb)), sn_chunks = chunks,
          sn_embeddings = (if chunks = [] then [] else filter (\<lambda>e. fst e \<in> r_id ` set chunks) (t_embeddings tb))\<rparr>)"

definition snapshot_file_delete_targets :: "int list \<Rightarrow> snapshot db_op" where
  "snapshot_file_delete_targets file_ids =
     (if file_ids = [] then return_op \<lparr>sn_files = [], sn_chunks = [], sn_embeddings = []\<rparr>
      else then_op (execute id) (then_op (execute id)
        (bind_op (reads (\<lambda>st. rows_to_delete (db_tables (g_db st)) file_ids)) (\<lambda>sn.
           then_op (when_op (sn_chunks sn \<noteq> []) (execute id)) (return_op sn)))))"

definition op_delete_embeddings :: "int list \<Rightarrow> unit db_op" where
  "op_delete_embeddings chunk_ids = when_op (chunk_ids \<noteq> []) (execute (map_db (\<lambda>db. delete_embeddings_for_chunk_ids db chunk_ids)))"

definition op_delete_chunks :: "int list \<Rightarrow> unit db_op" where
  "op_delete_chunks chunk_ids = when_op (chunk_ids \<noteq> [])
     (execute (map_tables (\<lambda>tb. tb\<lparr>t_chunks := filter (\<lambda>r. r_id r \<notin> set chunk_ids) (t_chunks tb)\<rparr>)))"

definition op_delete_files :: "int list \<Rightarrow> unit db_op" where
  "op_delete_files file_ids = when_op (file_ids \<noteq> [])
     (execute (map_tables (\<lambda>tb. tb\<lparr>t_files := filter (\<lambda>r. fr_id r \<notin> set file_ids) (t_files tb)\<rparr>)))"

definition delete_records :: "int list \<Rightarrow> snapshot \<Rightarrow> nat db_op" where
  "delete_records file_ids sn =
     then_op (op_delete_embeddings (sn_chunk_ids sn))
      (then_op (op_delete_chunks (sn_chunk_ids sn))
        (then_op (op_delete_files file_ids) (return_op (length file_ids))))"

definition insert_rows :: "'r list \<Rightarrow> ('r list \<Rightarrow> tables \<Rightarrow> tables) \<Rightarrow> unit db_op" where
  "insert_rows rows into = when_op (rows \<noteq> []) (execute (map_tables (into rows)))"

definition restore_file_delete_targets :: "snapshot \<Rightarrow> vindex list \<Rightarrow> unit db_op" where
  "restore_file_delete_targets sn original_indexes =
     bind_op (reads g_indexes) (\<lambda>current.
       then_op (for_each drop_vector_index current)
      (then_op (op_delete_embeddings (sn_chunk_ids sn))
      (then_op (op_delete_chunks (sn_chunk_ids sn))
      (then_op (op_delete_files (sn_file_ids sn))
      (then_op (insert_rows (sn_files sn) (\<lambda>rows tb. tb\<lparr>t_files := t_files tb @ rows\<rparr>))
      (then_op (insert_rows (sn_chunks sn) (\<lambda>rows tb. tb\<lparr>t_chunks := t_chunks tb @ rows\<rparr>))
      (then_op (insert_rows (sn_embeddings sn) (\<lambda>rows tb. tb\<lparr>t_embeddings := t_embeddings tb @ rows\<rparr>))
      (then_op (for_each recreate_vector_index original_indexes) checkpoint_unless_active))))))))"

text \<open>\<open>lookup\<close> is \<open>normalize_path_for_lookup\<close> for the base directory of the provider.\<close>

definition first_occurrences :: "'a list \<Rightarrow> 'a list" where
  "first_occurrences xs = rev (remdups (rev xs))"

text \<open>The ids of the paths that have a row; \<open>existing_paths\<close> are the paths that are kept.\<close>

definition ids_of_paths :: "string list \<Rightarrow> file_row list \<Rightarrow> int list" where
  "ids_of_paths normalized_paths existing_rows =
     (let path_to_file_id = rev (map (\<lambda>r. (fr_path r, fr_id r)) (filter (\<lambda>r. fr_path r \<noteq> []) existing_rows));
          existing_paths = filter (\<lambda>p. map_of path_to_file_id p \<noteq> None) normalized_paths
      in map (\<lambda>p. the (map_of path_to_file_id p)) existing_paths)"

definition delete_files_batch :: "(string \<Rightarrow> string result) \<Rightarrow> string list \<Rightarrow> nat db_op" where
  "delete_files_batch lookup file_paths = (\<lambda>faults st.
     if file_paths = [] then (st, Inr 0)
     else if transaction_active st then (st, Inl RuntimeError)
     else case map_result lookup file_paths of
       Inl e \<Rightarrow> (st, Inl e)
     | Inr paths \<Rightarrow>
         (let normalized_paths = first_occurrences paths in
          then_op (execute id)
            (bind_op (reads (\<lambda>st. sort_key fr_id (filter (\<lambda>r. fr_path r \<in> set normalized_paths) (t_files (db_tables (g_db st))))))
              (\<lambda>existing_rows.
                 if existing_rows = [] then return_op 0
                 else
                   let file_ids = ids_of_paths normalized_paths existing_rows
                   in bind_op (snapshot_file_delete_targets file_ids) (\<lambda>sn.
                        if file_ids = [] then raise_op IndexError
                        else run_hnsw_guarded_mutation False (length file_ids > 1) (Some (restore_file_delete_targets sn))
                          (delete_records file_ids sn))))
            faults st))"

subsection \<open>Faults\<close>

text \<open>
  An operation is sound if its clock does not go back, if a result is the one of the run without
  faults, and if an exception is due to a faulty statement of its own.
\<close>

definition sound :: "'a db_op \<Rightarrow> bool" where
  "sound m \<longleftrightarrow> (\<forall>faults st. case m faults st of
     (st', Inr x) \<Rightarrow> g_statements st \<le> g_statements st' \<and> m (\<lambda>_. False) st = (st', Inr x)
   | (st', Inl e) \<Rightarrow> (\<exists>n. g_statements st \<le> n \<and> n < g_statements st' \<and> faults n))"

lemma soundD_Inr:
  assumes "sound m" "m faults st = (st', Inr x)"
  shows "g_statements st \<le> g_statements st' \<and> m (\<lambda>_. False) st = (st', Inr x)"
  using assms(1) [unfolded sound_def, THEN spec [of _ faults], THEN spec [of _ st]] assms(2) by simp

lemma soundD_Inl:
  assumes "sound m" "m faults st = (st', Inl e)"
  shows "\<exists>n. g_statements st \<le> n \<and> n < g_statements st' \<and> faults n"
  using assms(1) [unfolded sound_def, THEN spec [of _ faults], THEN spec [of _ st]] assms(2) by simp

lemma sound_quiet:
  assumes "sound m" "\<forall>n\<ge>g_statements st. \<not> faults n"
  shows "m faults st = m (\<lambda>_. False) st"
proof (cases "m faults st")
  case (Pair st' r)
  show ?thesis
  proof (cases r)
    case (Inl e)
    then show ?thesis using soundD_Inl [OF assms(1), of faults st st' e] Pair assms(2) by blast
  next
    case (Inr x)
    then show ?thesis using soundD_Inr [OF assms(1), of faults st st' x] Pair by simp
  qed
qed

lemma sound_return: "sound (return_op x)" by (simp add: sound_def return_op_def)
lemma sound_reads: "sound (reads f)" by (simp add: sound_def reads_def)

lemma sound_execute:
  assumes "\<And>st. g_statements (eff st) = g_statements st"
  shows "sound (execute eff)"
  using assms by (auto simp: sound_def execute_def Let_def)

lemma sound_bind:
  assumes "sound m" "\<And>x. sound (k x)"
  shows "sound (bind_op m k)"
  unfolding sound_def
proof (intro allI)
  fix faults st
  obtain st1 r where m: "m faults st = (st1, r)" by fastforce
  show "case bind_op m k faults st of
      (st', Inr x) \<Rightarrow> g_statements st \<le> g_statements st' \<and> bind_op m k (\<lambda>_. False) st = (st', Inr x)
    | (st', Inl e) \<Rightarrow> (\<exists>n. g_statements st \<le> n \<and> n < g_statements st' \<and> faults n)"
  proof (cases r)
    case (Inl e)
    with m soundD_Inl [OF assms(1), of faults st st1 e] show ?thesis by (simp add: bind_op_def)
  next
    case (Inr x)
    obtain st2 q where k: "k x faults st1 = (st2, q)" by fastforce
    note step = soundD_Inr [OF assms(1), of faults st st1 x, OF m [unfolded Inr]]
    show ?thesis
    proof (cases q)
      case inl: (Inl e)
      from soundD_Inl [OF assms(2), of x faults st1 st2 e] k inl step
      obtain n where "g_statements st \<le> n" "n < g_statements st2" "faults n" by (meson order_trans)
      with m Inr k inl show ?thesis by (auto simp: bind_op_def)
    next
      case inr: (Inr y)
      from soundD_Inr [OF assms(2), of x faults st1 st2 y] k inr step m Inr show ?thesis by (auto simp: bind_op_def)
    qed
  qed
qed

lemma sound_then: "sound m \<Longrightarrow> sound k \<Longrightarrow> sound (then_op m k)"
  unfolding then_op_def by (rule sound_bind)

lemma sound_when: "sound m \<Longrightarrow> sound (when_op b m)"
  by (simp add: when_op_def sound_return)

lemma sound_for_each: "(\<And>x. sound (f x)) \<Longrightarrow> sound (for_each f xs)"
  by (induction xs) (simp_all add: sound_return sound_then)

named_theorems sound_intro \<open>operations that fail only by a faulty statement\<close>

lemmas sound_rules [sound_intro] = sound_return sound_reads sound_bind sound_then sound_when sound_for_each sound_execute

text \<open>An invariant of the state that every statement keeps, whether it fails or not.\<close>

definition op_keeps :: "(guard_state \<Rightarrow> bool) \<Rightarrow> 'a db_op \<Rightarrow> bool" where
  "op_keeps P m \<longleftrightarrow> (\<forall>faults st. P st \<longrightarrow> P (fst (m faults st)))"

lemma keepsD:
  assumes "op_keeps P m" "P st" "m faults st = (st', r)"
  shows "P st'"
  using assms(1) [unfolded op_keeps_def, THEN spec [of _ faults], THEN spec [of _ st]] assms(2,3) by simp

lemma op_keeps_return: "op_keeps P (return_op x)" by (simp add: op_keeps_def return_op_def)
lemma op_keeps_reads: "op_keeps P (reads f)" by (simp add: op_keeps_def reads_def)

lemma op_keeps_bind:
  assumes "op_keeps P m" "\<And>x. op_keeps P (k x)"
  shows "op_keeps P (bind_op m k)"
  unfolding op_keeps_def
proof (intro allI impI)
  fix faults st assume P: "P st"
  obtain st1 r where m: "m faults st = (st1, r)" by fastforce
  have "P st1" using keepsD [OF assms(1) P m] .
  then have "P (fst (k x faults st1))" for x using assms(2) [of x] by (simp add: op_keeps_def)
  with m \<open>P st1\<close> show "P (fst (bind_op m k faults st))" by (simp add: bind_op_def split: sum.split)
qed

lemma op_keeps_then: "op_keeps P m \<Longrightarrow> op_keeps P k \<Longrightarrow> op_keeps P (then_op m k)"
  unfolding then_op_def by (rule op_keeps_bind)

lemma op_keeps_when: "op_keeps P m \<Longrightarrow> op_keeps P (when_op b m)"
  by (simp add: when_op_def op_keeps_return)

lemma op_keeps_for_each: "(\<And>x. op_keeps P (f x)) \<Longrightarrow> op_keeps P (for_each f xs)"
  by (induction xs) (simp_all add: op_keeps_return op_keeps_then)

named_theorems op_keeps_intro \<open>operations that keep an invariant\<close>

lemmas op_keeps_rules [op_keeps_intro] = op_keeps_return op_keeps_reads op_keeps_bind op_keeps_then op_keeps_when op_keeps_for_each

lemma op_keeps_execute:
  assumes "\<And>st. P st \<Longrightarrow> P (eff (st\<lparr>g_statements := Suc (g_statements st)\<rparr>))"
    and "\<And>st. P st \<Longrightarrow> P (st\<lparr>g_statements := Suc (g_statements st)\<rparr>)"
  shows "op_keeps P (execute eff)"
  using assms by (simp add: op_keeps_def execute_def Let_def)

lemma sound_checkpoint: "sound checkpoint_unless_active"
  by (auto simp: checkpoint_unless_active_def sound_def when_op_def return_op_def execute_def Let_def)

lemma sound_recreate: "sound (recreate_vector_index i)"
  by (auto simp: recreate_vector_index_def split: sum.split intro!: sound_intro)

lemma sound_delete_records: "sound (delete_records ids sn)"
  by (auto simp: delete_records_def op_delete_embeddings_def op_delete_chunks_def op_delete_files_def map_tables_def map_db_def
      intro!: sound_intro)

lemma sound_body: "sound m \<Longrightarrow> sound (guarded_body transactional bulk existing m)"
  unfolding guarded_body_def op_begin_transaction_def op_commit_transaction_def drop_vector_index_def
  by (intro sound_intro sound_recreate) (simp_all add: map_db_def)

lemma sound_restore: "sound (restore_file_delete_targets sn existing)"
  unfolding restore_file_delete_targets_def drop_vector_index_def op_delete_embeddings_def op_delete_chunks_def
    op_delete_files_def insert_rows_def
  by (intro sound_intro sound_recreate sound_checkpoint) (simp_all add: map_tables_def map_db_def)

lemma sound_snapshot: "sound (snapshot_file_delete_targets ids)"
  by (auto simp: snapshot_file_delete_targets_def intro!: sound_intro)

subsection \<open>Runs without faults\<close>

text \<open>What an operation does when no statement fails, the clock apart.\<close>

definition erase :: "guard_state \<Rightarrow> guard_state" where
  "erase st = st\<lparr>g_statements := 0\<rparr>"

definition does :: "'a db_op \<Rightarrow> 'a \<Rightarrow> (guard_state \<Rightarrow> guard_state) \<Rightarrow> bool" where
  "does m x f \<longleftrightarrow> (\<forall>st. \<exists>st'. m (\<lambda>_. False) st = (st', Inr x) \<and> erase st' = f (erase st))"

lemma does_return: "does (return_op x) x id"
  by (simp add: does_def return_op_def)

lemma does_then:
  assumes "does m () f" "does k x g"
  shows "does (then_op m k) x (g \<circ> f)"
  unfolding does_def
proof
  fix st
  obtain st1 where 1: "m (\<lambda>_. False) st = (st1, Inr ())" "erase st1 = f (erase st)" using assms(1) unfolding does_def by blast
  obtain st2 where "k (\<lambda>_. False) st1 = (st2, Inr x)" "erase st2 = g (erase st1)" using assms(2) unfolding does_def by blast
  with 1 show "\<exists>st'. then_op m k (\<lambda>_. False) st = (st', Inr x) \<and> erase st' = (g \<circ> f) (erase st)"
    by (simp add: then_op_def bind_op_def)
qed

lemma does_execute:
  assumes "\<And>st n. erase (eff (st\<lparr>g_statements := n\<rparr>)) = eff (erase st)"
  shows "does (execute eff) () eff"
  using assms by (simp add: does_def execute_def Let_def)

lemma does_drop: "does (drop_vector_index i) () (\<lambda>st. st\<lparr>g_indexes := filter (\<lambda>j. vi_name j \<noteq> vi_name i) (g_indexes st)\<rparr>)"
  unfolding drop_vector_index_def by (rule does_execute) (simp add: erase_def)

lemma does_drop_all:
  "does (for_each drop_vector_index xs) () (\<lambda>st. st\<lparr>g_indexes := filter (\<lambda>j. vi_name j \<notin> vi_name ` set xs) (g_indexes st)\<rparr>)"
proof (induction xs)
  case (Cons x xs)
  from does_then [OF does_drop [of x] Cons.IH] show ?case by (simp add: comp_def conj_commute)
qed (simp add: does_return [unfolded id_def])

lemma does_deletes:
  "does (op_delete_embeddings cids) () (map_db (\<lambda>db. delete_embeddings_for_chunk_ids db cids))"
  "does (op_delete_chunks cids) () (map_tables (\<lambda>tb. tb\<lparr>t_chunks := filter (\<lambda>r. r_id r \<notin> set cids) (t_chunks tb)\<rparr>))"
  "does (op_delete_files fids) () (map_tables (\<lambda>tb. tb\<lparr>t_files := filter (\<lambda>r. fr_id r \<notin> set fids) (t_files tb)\<rparr>))"
  by (auto simp: op_delete_embeddings_def op_delete_chunks_def op_delete_files_def when_op_def does_def return_op_def execute_def
      Let_def map_tables_def map_db_def erase_def delete_embeddings_for_chunk_ids_def)

lemma does_insert_rows:
  assumes "\<And>tb. into [] tb = tb"
  shows "does (insert_rows rows into) () (map_tables (into rows))"
  using assms by (auto simp: insert_rows_def when_op_def does_def return_op_def execute_def Let_def map_tables_def map_db_def erase_def)

text \<open>An index can be recreated as it was: its name is an identifier and its metric a supported one.\<close>

definition restorable :: "vindex \<Rightarrow> bool" where
  "restorable i \<longleftrightarrow> is_safe_duckdb_identifier (vi_name i) \<and> normalize_hnsw_metric (vi_metric i) = Inr (vi_metric i)"

lemma recreate_all:
  assumes "list_all restorable xs" "distinct (map vi_name (g_indexes st @ xs))"
  shows "\<exists>st'. for_each recreate_vector_index xs (\<lambda>_. False) st = (st', Inr ())
    \<and> erase st' = (erase st)\<lparr>g_indexes := g_indexes st @ xs\<rparr>"
  using assms
proof (induction xs arbitrary: st)
  case Nil
  then show ?case by (simp add: return_op_def erase_def)
next
  case (Cons x xs)
  define st1 where "st1 = st\<lparr>g_statements := Suc (Suc (g_statements st)), g_indexes := g_indexes st @ [x]\<rparr>"
  have x: "recreate_vector_index x (\<lambda>_. False) st = (st1, Inr ())"
    using Cons.prems by (auto simp: recreate_vector_index_def restorable_def then_op_def bind_op_def execute_def Let_def st1_def)
  obtain st' where "for_each recreate_vector_index xs (\<lambda>_. False) st1 = (st', Inr ())"
    "erase st' = (erase st1)\<lparr>g_indexes := g_indexes st1 @ xs\<rparr>"
    using Cons.IH [of st1] Cons.prems by (auto simp: st1_def)
  with x show ?case by (simp add: then_op_def bind_op_def st1_def erase_def)
qed

lemma does_checkpoint: "does checkpoint_unless_active () id"
  by (simp add: does_def checkpoint_unless_active_def when_op_def return_op_def execute_def Let_def erase_def)

subsection \<open>All or nothing\<close>

definition deleted_files :: "int list \<Rightarrow> tables \<Rightarrow> tables" where
  "deleted_files ids tb =
     \<lparr>t_files = filter (\<lambda>r. fr_id r \<notin> set ids) (t_files tb),
      t_chunks = filter (\<lambda>r. r_file_id r \<notin> set ids) (t_chunks tb),
      t_embeddings = filter (\<lambda>e. fst e \<notin> r_id ` {r \<in> set (t_chunks tb). r_file_id r \<in> set ids}) (t_embeddings tb)\<rparr>"

definition same_rows :: "tables \<Rightarrow> tables \<Rightarrow> bool" where
  "same_rows tb tb' \<longleftrightarrow> mset (t_files tb) = mset (t_files tb') \<and> mset (t_chunks tb) = mset (t_chunks tb')
     \<and> mset (t_embeddings tb) = mset (t_embeddings tb')"

text \<open>The tables between the first statement of a deletion and its end: the other rows are there.\<close>

definition others_kept :: "snapshot \<Rightarrow> database \<Rightarrow> guard_state \<Rightarrow> bool" where
  "others_kept sn db st \<longleftrightarrow>
     transaction (g_db st) = None \<and> files_id_seq (g_db st) = files_id_seq db \<and> chunks_id_seq (g_db st) = chunks_id_seq db
     \<and> filter (\<lambda>r. fr_id r \<notin> set (sn_file_ids sn)) (t_files (db_tables (g_db st))) = filter (\<lambda>r. fr_id r \<notin> set (sn_file_ids sn)) (t_files (db_tables db))
     \<and> filter (\<lambda>r. r_id r \<notin> set (sn_chunk_ids sn)) (t_chunks (db_tables (g_db st))) = filter (\<lambda>r. r_id r \<notin> set (sn_chunk_ids sn)) (t_chunks (db_tables db))
     \<and> filter (\<lambda>e. fst e \<notin> set (sn_chunk_ids sn)) (t_embeddings (db_tables (g_db st))) = filter (\<lambda>e. fst e \<notin> set (sn_chunk_ids sn)) (t_embeddings (db_tables db))"

lemma op_keeps_deletes:
  assumes "set fids \<subseteq> set (sn_file_ids sn)"
  shows "op_keeps (others_kept sn db) (op_delete_embeddings (sn_chunk_ids sn))"
    and "op_keeps (others_kept sn db) (op_delete_chunks (sn_chunk_ids sn))"
    and "op_keeps (others_kept sn db) (op_delete_files fids)"
proof -
  have sub: "i \<notin> set fids \<and> i \<notin> set (sn_file_ids sn) \<longleftrightarrow> i \<notin> set (sn_file_ids sn)" for i using assms by blast
  show "op_keeps (others_kept sn db) (op_delete_embeddings (sn_chunk_ids sn))"
    and "op_keeps (others_kept sn db) (op_delete_chunks (sn_chunk_ids sn))"
    and "op_keeps (others_kept sn db) (op_delete_files fids)"
    unfolding op_delete_embeddings_def op_delete_chunks_def op_delete_files_def map_tables_def map_db_def
    by (intro op_keeps_when op_keeps_execute; simp add: others_kept_def delete_embeddings_for_chunk_ids_def sub)+
qed

lemma op_keeps_frame:
  assumes "\<And>st. g_db (eff st) = g_db st"
  shows "op_keeps (others_kept sn db) (execute eff)"
  using assms by (intro op_keeps_execute) (simp_all add: others_kept_def)

lemma op_keeps_indexes:
  "op_keeps (others_kept sn db) (drop_vector_index i)" "op_keeps (others_kept sn db) (recreate_vector_index i)"
  by (auto simp: drop_vector_index_def recreate_vector_index_def intro!: op_keeps_frame op_keeps_intro split: sum.split)

lemma guarded_body_plain:
  "guarded_body False bulk existing m =
     then_op (when_op bulk (execute (\<lambda>st. st\<lparr>g_preserve_order := False\<rparr>)))
      (then_op (for_each drop_vector_index existing)
        (bind_op m (\<lambda>r. then_op (for_each recreate_vector_index existing) (return_op r))))"
  by (simp add: guarded_body_def when_op_def then_op_def bind_op_def return_op_def)

lemma op_keeps_body:
  assumes "set fids \<subseteq> set (sn_file_ids sn)"
  shows "op_keeps (others_kept sn db) (guarded_body False bulk existing (delete_records fids sn))"
  unfolding guarded_body_plain delete_records_def
  by (intro op_keeps_intro op_keeps_deletes [OF assms] op_keeps_indexes op_keeps_frame) simp

text \<open>Restoring after a failure brings every row back, and the indexes.\<close>

lemma run_then:
  assumes "does m () f"
  obtains st1 where "erase st1 = f (erase st)" "then_op m k (\<lambda>_. False) st = k (\<lambda>_. False) st1"
  using assms unfolding does_def then_op_def bind_op_def by fastforce

lemma then_op_assoc: "then_op (then_op a b) c = then_op a (then_op b c)"
  by (auto simp: then_op_def bind_op_def intro!: ext split: prod.split sum.split)

lemma bind_reads: "bind_op (reads f) k faults st = k (f st) faults st"
  by (simp add: bind_op_def reads_def)

definition restored_tables :: "snapshot \<Rightarrow> tables \<Rightarrow> tables" where
  "restored_tables sn tb =
     tb\<lparr>t_files := filter (\<lambda>r. fr_id r \<notin> set (sn_file_ids sn)) (t_files tb) @ sn_files sn,
        t_chunks := filter (\<lambda>r. r_id r \<notin> set (sn_chunk_ids sn)) (t_chunks tb) @ sn_chunks sn,
        t_embeddings := filter (\<lambda>e. fst e \<notin> set (sn_chunk_ids sn)) (t_embeddings tb) @ sn_embeddings sn\<rparr>"

definition restore_rows :: "snapshot \<Rightarrow> vindex list \<Rightarrow> unit db_op" where
  "restore_rows sn current =
     then_op (for_each drop_vector_index current)
      (then_op (op_delete_embeddings (sn_chunk_ids sn))
      (then_op (op_delete_chunks (sn_chunk_ids sn))
      (then_op (op_delete_files (sn_file_ids sn))
      (then_op (insert_rows (sn_files sn) (\<lambda>rows tb. tb\<lparr>t_files := t_files tb @ rows\<rparr>))
      (then_op (insert_rows (sn_chunks sn) (\<lambda>rows tb. tb\<lparr>t_chunks := t_chunks tb @ rows\<rparr>))
       (insert_rows (sn_embeddings sn) (\<lambda>rows tb. tb\<lparr>t_embeddings := t_embeddings tb @ rows\<rparr>)))))))"

lemma restore_split:
  "restore_file_delete_targets sn xs faults st
    = then_op (restore_rows sn (g_indexes st)) (then_op (for_each recreate_vector_index xs) checkpoint_unless_active) faults st"
  by (simp add: restore_file_delete_targets_def restore_rows_def bind_reads then_op_assoc)

lemma restore_rows_does:
  "\<exists>f. does (restore_rows sn current) () f \<and>
     (\<forall>st. g_db (f st) = (g_db st)\<lparr>db_tables := restored_tables sn (db_tables (g_db st))\<rparr>
       \<and> g_indexes (f st) = filter (\<lambda>j. vi_name j \<notin> vi_name ` set current) (g_indexes st))"
proof -
  have ins: "does (insert_rows rows1 (\<lambda>rows tb. tb\<lparr>t_files := t_files tb @ rows\<rparr>)) () (map_tables (\<lambda>tb. tb\<lparr>t_files := t_files tb @ rows1\<rparr>))"
    "does (insert_rows rows2 (\<lambda>rows tb. tb\<lparr>t_chunks := t_chunks tb @ rows\<rparr>)) () (map_tables (\<lambda>tb. tb\<lparr>t_chunks := t_chunks tb @ rows2\<rparr>))"
    "does (insert_rows rows3 (\<lambda>rows tb. tb\<lparr>t_embeddings := t_embeddings tb @ rows\<rparr>)) () (map_tables (\<lambda>tb. tb\<lparr>t_embeddings := t_embeddings tb @ rows3\<rparr>))"
    for rows1 rows2 rows3 by (rule does_insert_rows, simp)+
  note d = does_then [OF does_drop_all does_then [OF does_deletes(1) does_then [OF does_deletes(2) does_then [OF does_deletes(3)
      does_then [OF ins(1) does_then [OF ins(2) ins(3)]]]]]]
  show ?thesis
    unfolding restore_rows_def
    by (rule exI, rule conjI, rule d) (simp add: map_tables_def map_db_def restored_tables_def delete_embeddings_for_chunk_ids_def)
qed

lemma restore_run:
  assumes xs: "list_all restorable xs" "distinct (map vi_name xs)"
  shows "\<exists>st'. restore_file_delete_targets sn xs (\<lambda>_. False) st = (st', Inr ())
    \<and> g_db st' = (g_db st)\<lparr>db_tables := restored_tables sn (db_tables (g_db st))\<rparr> \<and> g_indexes st' = xs"
proof -
  obtain f where f: "does (restore_rows sn (g_indexes st)) () f"
    "\<And>st'. g_db (f st') = (g_db st')\<lparr>db_tables := restored_tables sn (db_tables (g_db st'))\<rparr>"
    "\<And>st'. g_indexes (f st') = filter (\<lambda>j. vi_name j \<notin> vi_name ` set (g_indexes st)) (g_indexes st')"
    using restore_rows_does [of sn "g_indexes st"] by blast
  obtain s1 where s1: "erase s1 = f (erase st)" "restore_file_delete_targets sn xs (\<lambda>_. False) st
      = then_op (for_each recreate_vector_index xs) checkpoint_unless_active (\<lambda>_. False) s1"
    unfolding restore_split by (rule run_then [OF f(1)])
  have "g_db (erase s1) = (g_db st)\<lparr>db_tables := restored_tables sn (db_tables (g_db st))\<rparr>" "g_indexes (erase s1) = []"
    unfolding s1(1) f(2,3) by (auto simp: erase_def filter_empty_conv)
  then have d1: "g_db s1 = (g_db st)\<lparr>db_tables := restored_tables sn (db_tables (g_db st))\<rparr>" "g_indexes s1 = []"
    by (simp_all add: erase_def)
  obtain s2 where s2: "for_each recreate_vector_index xs (\<lambda>_. False) s1 = (s2, Inr ())" "erase s2 = (erase s1)\<lparr>g_indexes := xs\<rparr>"
    using recreate_all [OF xs(1), of s1] xs(2) d1(2) by auto
  obtain s3 where s3: "checkpoint_unless_active (\<lambda>_. False) s2 = (s3, Inr ())" "erase s3 = erase s2"
    using does_checkpoint unfolding does_def by fastforce
  have "g_db s3 = g_db (erase s3)" "g_indexes s3 = g_indexes (erase s3)" by (simp_all add: erase_def)
  with s1(2) s2 s3 d1 show ?thesis by (simp add: then_op_def bind_op_def) (simp add: erase_def)
qed

lemma snapshot_ids:
  assumes ok: "tables_ok tb f c" and ids: "set ids \<subseteq> fr_id ` set (t_files tb)" and sn: "sn = rows_to_delete tb ids"
  shows "set (sn_file_ids sn) = set ids"
    and "\<And>r. r \<in> set (t_chunks tb) \<Longrightarrow> r_id r \<in> set (sn_chunk_ids sn) \<longleftrightarrow> r_file_id r \<in> set ids"
    and "set (sn_chunk_ids sn) = r_id ` {r \<in> set (t_chunks tb). r_file_id r \<in> set ids}"
proof -
  show "set (sn_file_ids sn) = set ids" using ids by (auto simp: sn sn_file_ids_def rows_to_delete_def Let_def)
  show chunk_ids: "set (sn_chunk_ids sn) = r_id ` {r \<in> set (t_chunks tb). r_file_id r \<in> set ids}"
    by (auto simp: sn sn_chunk_ids_def rows_to_delete_def Let_def)
  have "inj_on r_id (set (t_chunks tb))" using ok by (simp add: tables_ok_def distinct_map)
  then show "r_id r \<in> set (sn_chunk_ids sn) \<longleftrightarrow> r_file_id r \<in> set ids" if "r \<in> set (t_chunks tb)" for r
    unfolding chunk_ids using that by (auto dest: inj_onD)
qed

lemma sort_key_Nil [simp]: "sort_key f xs = [] \<longleftrightarrow> xs = []"
  by (metis set_empty set_sort)

lemma restored_same_rows:
  assumes st: "others_kept sn db st" and sn: "sn = rows_to_delete (db_tables db) ids"
    and ids: "set ids \<subseteq> fr_id ` set (t_files (db_tables db))" and ok: "tables_ok (db_tables db) f c"
  shows "same_rows (restored_tables sn (db_tables (g_db st))) (db_tables db)"
proof -
  let ?tb = "db_tables db"
  note i = snapshot_ids [OF ok ids sn]
  have kept: "t_files (restored_tables sn (db_tables (g_db st))) = filter (\<lambda>r. fr_id r \<notin> set ids) (t_files ?tb) @ sn_files sn"
    "t_chunks (restored_tables sn (db_tables (g_db st))) = filter (\<lambda>r. r_id r \<notin> set (sn_chunk_ids sn)) (t_chunks ?tb) @ sn_chunks sn"
    "t_embeddings (restored_tables sn (db_tables (g_db st))) = filter (\<lambda>e. fst e \<notin> set (sn_chunk_ids sn)) (t_embeddings ?tb) @ sn_embeddings sn"
    using st i(1) by (simp_all add: restored_tables_def others_kept_def)
  have "filter (\<lambda>r. r_id r \<notin> set (sn_chunk_ids sn)) (t_chunks ?tb) = filter (\<lambda>r. r_file_id r \<notin> set ids) (t_chunks ?tb)"
    using i(2) by (intro filter_cong) auto
  moreover have "mset (sn_embeddings sn) = mset (filter (\<lambda>e. fst e \<in> set (sn_chunk_ids sn)) (t_embeddings ?tb))"
    by (auto simp: sn rows_to_delete_def sn_chunk_ids_def Let_def filter_empty_conv)
  moreover have "mset (sn_files sn) = mset (filter (\<lambda>r. fr_id r \<in> set ids) (t_files ?tb))"
    "mset (sn_chunks sn) = mset (filter (\<lambda>r. r_file_id r \<in> set ids) (t_chunks ?tb))"
    by (simp_all add: sn rows_to_delete_def Let_def)
  ultimately show ?thesis
    unfolding same_rows_def kept by (simp add: multiset_partition [symmetric] union_commute)
qed

lemma delete_records_does:
  assumes "tables_ok tb f c" "set ids \<subseteq> fr_id ` set (t_files tb)" "sn = rows_to_delete tb ids"
  shows "\<exists>h. does (delete_records ids sn) (length ids) h \<and>
    (\<forall>st. g_indexes (h st) = g_indexes st \<and> (db_tables (g_db st) = tb \<longrightarrow> g_db (h st) = (g_db st)\<lparr>db_tables := deleted_files ids tb\<rparr>))"
proof -
  note i = snapshot_ids [OF assms]
  have "filter (\<lambda>r. r_id r \<notin> set (sn_chunk_ids sn)) (t_chunks tb) = filter (\<lambda>r. r_file_id r \<notin> set ids) (t_chunks tb)"
    using i(2) by (intro filter_cong) auto
  then have tabs: "tb\<lparr>t_embeddings := filter (\<lambda>e. fst e \<notin> set (sn_chunk_ids sn)) (t_embeddings tb),
      t_chunks := filter (\<lambda>r. r_id r \<notin> set (sn_chunk_ids sn)) (t_chunks tb),
      t_files := filter (\<lambda>r. fr_id r \<notin> set ids) (t_files tb)\<rparr> = deleted_files ids tb"
    by (simp add: deleted_files_def i(3))
  note d = does_then [OF does_deletes(1) does_then [OF does_deletes(2) does_then [OF does_deletes(3) does_return]]]
  show ?thesis
    unfolding delete_records_def
    by (rule exI, rule conjI, rule d) (auto simp: map_tables_def map_db_def delete_embeddings_for_chunk_ids_def tabs)
qed

lemma others_kept_initial:
  "transaction (g_db st) = None \<Longrightarrow> others_kept sn (g_db st) st"
  by (simp add: others_kept_def)

lemma body_run:
  assumes st: "tables_ok (db_tables (g_db st)) f c" "set ids \<subseteq> fr_id ` set (t_files (db_tables (g_db st)))"
      "sn = rows_to_delete (db_tables (g_db st)) ids"
    and xs: "list_all restorable (g_indexes st)" "distinct (map vi_name (g_indexes st))"
  shows "\<exists>st'. guarded_body False bulk (g_indexes st) (delete_records ids sn) (\<lambda>_. False) st = (st', Inr (length ids))
    \<and> g_db st' = (g_db st)\<lparr>db_tables := deleted_files ids (db_tables (g_db st))\<rparr> \<and> g_indexes st' = g_indexes st"
proof -
  let ?tb = "db_tables (g_db st)"
  obtain h where h: "does (delete_records ids sn) (length ids) h" "\<And>st. g_indexes (h st) = g_indexes st"
    "\<And>s. db_tables (g_db s) = ?tb \<Longrightarrow> g_db (h s) = (g_db s)\<lparr>db_tables := deleted_files ids ?tb\<rparr>"
    using delete_records_does [OF st] by blast
  have bulk: "does (when_op bulk (execute (\<lambda>st. st\<lparr>g_preserve_order := False\<rparr>))) ()
      (\<lambda>st. if bulk then st\<lparr>g_preserve_order := False\<rparr> else st)"
    by (simp add: when_op_def does_def return_op_def execute_def Let_def erase_def)
  note first = does_then [OF bulk does_then [OF does_drop_all h(1)]]
  let ?m = "then_op (when_op bulk (execute (\<lambda>st. st\<lparr>g_preserve_order := False\<rparr>)))
      (then_op (for_each drop_vector_index (g_indexes st)) (delete_records ids sn))"
  obtain s1 where s1: "?m (\<lambda>_. False) st = (s1, Inr (length ids))"
    "erase s1 = (h \<circ> (\<lambda>st'. st'\<lparr>g_indexes := filter (\<lambda>j. vi_name j \<notin> vi_name ` set (g_indexes st)) (g_indexes st')\<rparr>) \<circ>
      (\<lambda>st. if bulk then st\<lparr>g_preserve_order := False\<rparr> else st)) (erase st)"
    using first [of "g_indexes st"] unfolding does_def comp_assoc by blast
  define s0 where "s0 = (erase st)\<lparr>g_indexes := [], g_preserve_order := (\<not> bulk \<and> g_preserve_order st)\<rparr>"
  have s0: "erase s1 = h s0" "g_db s0 = g_db st" "g_indexes s0 = []"
    unfolding s1(2) by (auto simp: s0_def erase_def filter_empty_conv intro!: arg_cong [where f = h])
  then have "g_db (erase s1) = (g_db st)\<lparr>db_tables := deleted_files ids ?tb\<rparr>" "g_indexes (erase s1) = []"
    using h(2,3) [of s0] by simp_all
  then have d1: "g_db s1 = (g_db st)\<lparr>db_tables := deleted_files ids ?tb\<rparr>" "g_indexes s1 = []" by (simp_all add: erase_def)
  obtain s2 where s2: "for_each recreate_vector_index (g_indexes st) (\<lambda>_. False) s1 = (s2, Inr ())"
    "erase s2 = (erase s1)\<lparr>g_indexes := g_indexes st\<rparr>"
    using recreate_all [OF xs(1), of s1] xs(2) d1(2) by auto
  have "g_db s2 = g_db (erase s2)" "g_indexes s2 = g_indexes (erase s2)" by (simp_all add: erase_def)
  then have "g_db s2 = g_db s1" "g_indexes s2 = g_indexes st" unfolding s2(2) by (simp_all add: erase_def)
  moreover have "guarded_body False bulk (g_indexes st) (delete_records ids sn) (\<lambda>_. False) st
      = bind_op ?m (\<lambda>r. then_op (for_each recreate_vector_index (g_indexes st)) (return_op r)) (\<lambda>_. False) st"
    unfolding guarded_body_plain by (auto simp: then_op_def bind_op_def split: prod.split sum.split)
  ultimately show ?thesis using s1(1) s2(1) d1(1) by (simp add: bind_op_def then_op_def return_op_def)
qed

definition single_fault :: "(nat \<Rightarrow> bool) \<Rightarrow> bool" where
  "single_fault faults \<longleftrightarrow> (\<forall>m n. faults m \<and> faults n \<longrightarrow> m = n)"

lemma quiet_afterwards:
  assumes "single_fault faults" "\<exists>n. g_statements st \<le> n \<and> n < g_statements st' \<and> faults n"
  shows "\<forall>n\<ge>g_statements st'. \<not> faults n"
  using assms unfolding single_fault_def by (metis leD)

lemma checkpoint_frame:
  assumes "checkpoint_unless_active faults st = (st', r)"
  shows "g_db st' = g_db st" "g_indexes st' = g_indexes st"
  using assms by (auto simp: checkpoint_unless_active_def when_op_def return_op_def execute_def Let_def split: if_splits)

lemma guarded_delete:
  assumes ok: "tables_ok (db_tables (g_db st)) f c" "transaction (g_db st) = None" and faults: "single_fault faults"
    and ids: "set ids \<subseteq> fr_id ` set (t_files (db_tables (g_db st)))" and sn: "sn = rows_to_delete (db_tables (g_db st)) ids"
    and xs: "list_all restorable (g_indexes st)" "distinct (map vi_name (g_indexes st))"
  shows "case run_hnsw_guarded_mutation False bulk (Some (restore_file_delete_targets sn)) (delete_records ids sn) faults st of
      (st', Inr n) \<Rightarrow> n = length ids \<and> g_db st' = (g_db st)\<lparr>db_tables := deleted_files ids (db_tables (g_db st))\<rparr>
        \<and> g_indexes st' = g_indexes st
    | (st', Inl e) \<Rightarrow> (\<exists>n. faults n) \<and> same_rows (db_tables (g_db st')) (db_tables (g_db st)) \<and> transaction (g_db st') = None
        \<and> g_indexes st' = g_indexes st"
proof -
  let ?db = "g_db st" and ?body = "guarded_body False bulk (g_indexes st) (delete_records ids sn)"
  have keep: "op_keeps (others_kept sn ?db) ?body"
    using snapshot_ids(1) [OF ok(1) ids sn] by (intro op_keeps_body) simp
  have failed: "case guard_failed False (g_indexes st) (Some (restore_file_delete_targets sn)) b e faults s of
      (st', Inr (n :: nat)) \<Rightarrow> False
    | (st', Inl e) \<Rightarrow> same_rows (db_tables (g_db st')) (db_tables ?db) \<and> transaction (g_db st') = None \<and> g_indexes st' = g_indexes st"
    if s: "others_kept sn ?db s" "\<forall>n\<ge>g_statements s. \<not> faults n" for b e s
  proof -
    obtain st' where "restore_file_delete_targets sn (g_indexes st) (\<lambda>_. False) s = (st', Inr ())"
      "g_db st' = (g_db s)\<lparr>db_tables := restored_tables sn (db_tables (g_db s))\<rparr>" "g_indexes st' = g_indexes st"
      using restore_run [OF xs, of sn s] by blast
    moreover have "transaction (g_db s) = None" using s(1) by (simp add: others_kept_def)
    ultimately show ?thesis
      using restored_same_rows [OF s(1) sn ids ok(1)] by (simp add: guard_failed_def sound_quiet [OF sound_restore s(2)])
  qed
  obtain s1 r where body: "?body faults st = (s1, r)" by fastforce
  have s1: "others_kept sn ?db s1" using keepsD [OF keep others_kept_initial [OF ok(2)] body] .
  show ?thesis
  proof (cases r)
    case (Inl e)
    note fault = soundD_Inl [OF sound_body [OF sound_delete_records] body [unfolded Inl]]
    then have "\<exists>n. faults n" by blast
    with failed [OF s1 quiet_afterwards [OF faults fault], of False e] show ?thesis
      by (auto simp: run_hnsw_guarded_mutation_def transaction_active_def ok(2) body Inl Let_def split: prod.splits sum.splits)
  next
    case (Inr x)
    have "?body (\<lambda>_. False) st = (s1, Inr x)"
      using soundD_Inr [OF sound_body [OF sound_delete_records] body [unfolded Inr]] by blast
    with body_run [OF ok(1) ids sn xs, of bulk] have res: "x = length ids"
      "g_db s1 = (g_db st)\<lparr>db_tables := deleted_files ids (db_tables (g_db st))\<rparr>" "g_indexes s1 = g_indexes st" by simp_all
    obtain s2 q where cp: "checkpoint_unless_active faults s1 = (s2, q)" by fastforce
    show ?thesis
    proof (cases q)
      case inl: (Inl e)
      note fault = soundD_Inl [OF sound_checkpoint cp [unfolded inl]]
      then have "\<exists>n. faults n" by blast
      moreover have "others_kept sn ?db s2" using s1 checkpoint_frame [OF cp] by (simp add: others_kept_def)
      ultimately show ?thesis using failed [of s2 "g_indexes st \<noteq> []" e] quiet_afterwards [OF faults fault]
        by (auto simp: run_hnsw_guarded_mutation_def transaction_active_def ok(2) body Inr cp inl Let_def split: prod.splits sum.splits)
    next
      case inr: (Inr y)
      with res checkpoint_frame [OF cp] show ?thesis
        by (simp add: run_hnsw_guarded_mutation_def transaction_active_def ok(2) body Inr cp Let_def)
    qed
  qed
qed

text \<open>The file ids that a list of distinct paths selects.\<close>

abbreviation rows_of_paths :: "string list \<Rightarrow> file_row list \<Rightarrow> file_row list" where
  "rows_of_paths paths files \<equiv> sort_key fr_id (filter (\<lambda>r. fr_path r \<in> set paths) files)"

lemma ids_of_paths_correct:
  assumes "distinct (map fr_path files)" "distinct paths" "[] \<notin> set paths"
  shows "set (ids_of_paths paths (rows_of_paths paths files)) = fr_id ` {r \<in> set files. fr_path r \<in> set paths}"
    and "length (ids_of_paths paths (rows_of_paths paths files)) = length (filter (\<lambda>r. fr_path r \<in> set paths) files)"
proof -
  let ?rows = "sort_key fr_id (filter (\<lambda>r. fr_path r \<in> set paths) files)"
  let ?d = "map (\<lambda>r. (fr_path r, fr_id r)) (filter (\<lambda>r. fr_path r \<noteq> []) ?rows)"
  have "filter (\<lambda>r. fr_path r \<noteq> []) ?rows = ?rows" using assms(3) by (auto simp: filter_id_conv)
  then have d: "?d = map (\<lambda>r. (fr_path r, fr_id r)) ?rows" by simp
  have "distinct (map fr_path (filter (\<lambda>r. fr_path r \<in> set paths) files))" using assms(1) by (simp add: distinct_map_filter)
  then have dist: "distinct (map fst ?d)" unfolding d
    by (simp add: comp_def distinct_map) 
  have get: "map_of (rev ?d) (fr_path r) = Some (fr_id r)" if "r \<in> set files" "fr_path r \<in> set paths" for r
  proof -
    have "distinct (map fst (rev ?d))" using dist by (simp add: rev_map [symmetric])
    moreover have "(fr_path r, fr_id r) \<in> set (rev ?d)" using that unfolding d by force
    ultimately show ?thesis by (rule map_of_is_SomeI)
  qed
  have dom: "map_of (rev ?d) p \<noteq> None \<longleftrightarrow> (\<exists>r\<in>set files. fr_path r = p \<and> fr_path r \<in> set paths)" for p
    unfolding map_of_eq_None_iff d by force
  have ids: "ids_of_paths paths (rows_of_paths paths files) = map (\<lambda>p. the (map_of (rev ?d) p)) (filter (\<lambda>p. map_of (rev ?d) p \<noteq> None) paths)"
    by (simp only: ids_of_paths_def Let_def)
  have "set (filter (\<lambda>p. map_of (rev ?d) p \<noteq> None) paths) = fr_path ` {r \<in> set files. fr_path r \<in> set paths}"
    unfolding set_filter dom by auto
  then show "set (ids_of_paths paths (rows_of_paths paths files)) = fr_id ` {r \<in> set files. fr_path r \<in> set paths}"
    unfolding ids by (force simp: image_image get)
  have "length (ids_of_paths paths (rows_of_paths paths files)) = card (set (filter (\<lambda>p. map_of (rev ?d) p \<noteq> None) paths))"
    unfolding ids using distinct_card [OF distinct_filter [OF assms(2)]] by simp
  also have "\<dots> = card (fr_path ` set (filter (\<lambda>r. fr_path r \<in> set paths) files))"
    unfolding \<open>set (filter _ paths) = _\<close> by (simp add: Collect_conj_eq Int_commute)
  also have "\<dots> = length (filter (\<lambda>r. fr_path r \<in> set paths) files)"
    using distinct_card [of "map fr_path (filter (\<lambda>r. fr_path r \<in> set paths) files)"] assms(1)
    by (simp add: distinct_map_filter)
  finally show "length (ids_of_paths paths (rows_of_paths paths files)) = length (filter (\<lambda>r. fr_path r \<in> set paths) files)" .
qed

lemma deleted_files_cong: "set ids = set ids' \<Longrightarrow> deleted_files ids tb = deleted_files ids' tb"
  by (simp add: deleted_files_def)

lemma deleted_none: "deleted_files [] tb = tb"
  by (simp add: deleted_files_def)

lemma first_occurrences_set [simp]: "set (first_occurrences xs) = set xs" "distinct (first_occurrences xs)"
  by (simp_all add: first_occurrences_def)

lemma execute_id:
  assumes "execute id faults st = (st', r)"
  shows "g_db st' = g_db st" "g_indexes st' = g_indexes st"
  using assms by (auto simp: execute_def Let_def split: if_splits)

lemma snapshot_run:
  assumes "snapshot_file_delete_targets ids faults st = (st', r)"
  shows "g_db st' = g_db st" "g_indexes st' = g_indexes st"
    and "r = Inr sn \<Longrightarrow> ids \<noteq> [] \<Longrightarrow> sn = rows_to_delete (db_tables (g_db st)) ids"
  using assms
  by (auto simp: snapshot_file_delete_targets_def then_op_def bind_op_def reads_def return_op_def when_op_def execute_def Let_def
      split: if_splits)

lemma delete_files_batch_correct:
  assumes ok: "db_ok (g_db st)" "transaction (g_db st) = None" and faults: "single_fault faults"
    and xs: "list_all restorable (g_indexes st)" "distinct (map vi_name (g_indexes st))"
    and paths: "map_result lookup file_paths = Inr paths" "[] \<notin> set paths"
  shows "case delete_files_batch lookup file_paths faults st of
      (st', Inr n) \<Rightarrow>
        n = length (filter (\<lambda>r. fr_path r \<in> set paths) (t_files (db_tables (g_db st))))
        \<and> g_db st' = (g_db st)\<lparr>db_tables := deleted_files
            (map fr_id (filter (\<lambda>r. fr_path r \<in> set paths) (t_files (db_tables (g_db st))))) (db_tables (g_db st))\<rparr>
        \<and> g_indexes st' = g_indexes st
    | (st', Inl e) \<Rightarrow> (\<exists>n. faults n) \<and> same_rows (db_tables (g_db st')) (db_tables (g_db st)) \<and> transaction (g_db st') = None
        \<and> g_indexes st' = g_indexes st"
proof -
  let ?files = "t_files (db_tables (g_db st))"
  define ids where "ids = ids_of_paths (first_occurrences paths) (rows_of_paths paths ?files)"
  let ?sel = "filter (\<lambda>r. fr_path r \<in> set paths) ?files"
  note tok = db_ok_tables [OF ok(1)]
  have i: "set ids = set (map fr_id ?sel)" "length ids = length ?sel"
    using ids_of_paths_correct [of ?files "first_occurrences paths"] tok paths(2) by (simp_all add: tables_ok_def ids_def)
  have unchanged: "same_rows (db_tables (g_db s)) (db_tables (g_db st)) \<and> transaction (g_db s) = None \<and> g_indexes s = g_indexes st"
    if "g_db s = g_db st" "g_indexes s = g_indexes st" for s using that ok(2) by (simp add: same_rows_def)
  have exec: "\<exists>n. faults n" if "execute id faults st = (s, Inl x)" for s x
    using that by (auto simp: execute_def Let_def split: if_splits)
  obtain s1 r1 where e: "execute id faults st = (s1, r1)" by fastforce
  note s1 = execute_id [OF e]
  show ?thesis
  proof (cases "file_paths = [] \<or> (\<exists>x. r1 = Inl x) \<or> ?sel = []")
    case True
    then show ?thesis using paths unchanged e s1 exec
      by (auto simp: delete_files_batch_def transaction_active_def ok(2) then_op_def bind_op_def reads_def return_op_def deleted_none
          Let_def split: sum.splits)
  next
    case False
    then have ne: "file_paths \<noteq> []" "r1 = Inr ()" "?sel \<noteq> []" "ids \<noteq> []" using i by (cases r1; force)+
    obtain s2 r2 where sn: "snapshot_file_delete_targets ids faults s1 = (s2, r2)" by fastforce
    note s2 = snapshot_run [OF sn]
    let ?rest = "\<lambda>sn. run_hnsw_guarded_mutation False (length ids > 1) (Some (restore_file_delete_targets sn)) (delete_records ids sn)"
    have run: "delete_files_batch lookup file_paths faults st = (case r2 of Inl e \<Rightarrow> (s2, Inl e) | Inr sn \<Rightarrow> ?rest sn faults s2)"
      using ne paths(1) e sn s1
      by (simp add: delete_files_batch_def transaction_active_def ok(2) then_op_def bind_op_def [of "execute id"] bind_reads Let_def ids_def [symmetric])
        (simp add: bind_op_def split: sum.split)
    show ?thesis
    proof (cases r2)
      case (Inl x)
      moreover from soundD_Inl [OF sound_snapshot sn [unfolded Inl]] have "\<exists>n. faults n" by blast
      ultimately show ?thesis using run unchanged [of s2] s1 s2 by simp
    next
      case (Inr sn)
      then have "sn = rows_to_delete (db_tables (g_db s2)) ids" using s1 s2 ne(4) by simp
      moreover have "tables_ok (db_tables (g_db s2)) (files_id_seq (g_db st)) (chunks_id_seq (g_db st))" "transaction (g_db s2) = None"
        "set ids \<subseteq> fr_id ` set (t_files (db_tables (g_db s2)))" "list_all restorable (g_indexes s2)" "distinct (map vi_name (g_indexes s2))"
        using s1 s2 ok(2) xs tok i(1) by auto
      ultimately have "case ?rest sn faults s2 of
          (st', Inr n) \<Rightarrow> n = length ids \<and> g_db st' = (g_db s2)\<lparr>db_tables := deleted_files ids (db_tables (g_db s2))\<rparr> \<and> g_indexes st' = g_indexes s2
        | (st', Inl e) \<Rightarrow> (\<exists>n. faults n) \<and> same_rows (db_tables (g_db st')) (db_tables (g_db s2)) \<and> transaction (g_db st') = None \<and> g_indexes st' = g_indexes s2"
        by (intro guarded_delete [OF _ _ faults])
      moreover obtain s3 r3 where rest: "?rest sn faults s2 = (s3, r3)" by fastforce
      ultimately show ?thesis
        unfolding run Inr sum.case rest deleted_files_cong [OF i(1), of "db_tables (g_db st)", symmetric] i(2) [symmetric]
        using s1 s2 by simp
    qed
  qed
qed

text \<open>Without faults the tables stay consistent whatever the paths are.\<close>

lemma ids_of_paths_known: "set (ids_of_paths ps rows) \<subseteq> fr_id ` set rows"
proof
  fix i assume "i \<in> set (ids_of_paths ps rows)"
  then obtain p where "map_of (rev (map (\<lambda>r. (fr_path r, fr_id r)) (filter (\<lambda>r. fr_path r \<noteq> []) rows))) p = Some i"
    unfolding ids_of_paths_def Let_def by auto
  then show "i \<in> fr_id ` set rows" by (auto dest!: map_of_SomeD)
qed

lemma deleted_files_ok: "tables_ok tb f c \<Longrightarrow> tables_ok (deleted_files ids tb) f c"
proof -
  assume ok: "tables_ok tb f c"
  have "r_file_id r \<in> fr_id ` {x \<in> set (t_files tb). fr_id x \<notin> set ids}"
    if "r \<in> set (t_chunks tb)" "r_file_id r \<notin> set ids" for r using ok that by (force simp: tables_ok_def)
  moreover have "fst e \<in> r_id ` {r \<in> set (t_chunks tb). r_file_id r \<notin> set ids}"
    if "e \<in> set (t_embeddings tb)" "fst e \<notin> r_id ` {r \<in> set (t_chunks tb). r_file_id r \<in> set ids}" for e
    using ok that by (force simp: tables_ok_def)
  ultimately show ?thesis using ok by (auto simp: tables_ok_def deleted_files_def distinct_map_filter)
qed

lemma delete_files_batch_db:
  assumes ok: "db_ok (g_db st)" "transaction (g_db st) = None"
    and xs: "list_all restorable (g_indexes st)" "distinct (map vi_name (g_indexes st))"
  shows "\<exists>ids. g_db (fst (delete_files_batch lookup file_paths (\<lambda>_. False) st))
    = (g_db st)\<lparr>db_tables := deleted_files ids (db_tables (g_db st))\<rparr>"
proof -
  have same: "\<exists>ids. g_db st = (g_db st)\<lparr>db_tables := deleted_files ids (db_tables (g_db st))\<rparr>"
    by (rule exI [of _ "[]"]) (simp add: deleted_none)
  let ?files = "t_files (db_tables (g_db st))"
  show ?thesis
  proof (cases "map_result lookup file_paths")
    case (Inl e)
    then show ?thesis using same by (simp add: delete_files_batch_def)
  next
    case (Inr paths)
    define ids where "ids = ids_of_paths (first_occurrences paths) (rows_of_paths paths ?files)"
    define s1 where "s1 = st\<lparr>g_statements := Suc (g_statements st)\<rparr>"
    obtain s2 r2 where r2: "snapshot_file_delete_targets ids (\<lambda>_. False) s1 = (s2, r2)" by fastforce
    then obtain sn where sn: "snapshot_file_delete_targets ids (\<lambda>_. False) s1 = (s2, Inr sn)"
      by (cases r2) (auto dest: soundD_Inl [OF sound_snapshot])
    have s2: "g_db s2 = g_db st" "g_indexes s2 = g_indexes st" "ids \<noteq> [] \<Longrightarrow> sn = rows_to_delete (db_tables (g_db st)) ids"
      using snapshot_run [OF sn] by (simp_all add: s1_def)
    have "set ids \<subseteq> fr_id ` set ?files"
      using ids_of_paths_known [of "first_occurrences paths" "rows_of_paths paths ?files"] unfolding ids_def by auto
    then have known: "set ids \<subseteq> fr_id ` set (t_files (db_tables (g_db s2)))" by (simp add: s2)
    have tb: "tables_ok (db_tables (g_db s2)) (files_id_seq (g_db st)) (chunks_id_seq (g_db st))"
      using db_ok_tables [OF ok(1)] by (simp add: s2)
    have guard: "g_db (fst (run_hnsw_guarded_mutation False bulk (Some (restore_file_delete_targets sn))
        (delete_records ids sn) (\<lambda>_. False) s2)) = (g_db st)\<lparr>db_tables := deleted_files ids (db_tables (g_db st))\<rparr>"
      if "ids \<noteq> []" for bulk
    proof -
      obtain s3 r3 where run: "run_hnsw_guarded_mutation False bulk (Some (restore_file_delete_targets sn))
        (delete_records ids sn) (\<lambda>_. False) s2 = (s3, r3)" by fastforce
      have "single_fault (\<lambda>_. False)" by (simp add: single_fault_def)
      from guarded_delete [OF tb _ this known, of sn bulk] show ?thesis
        using ok(2) xs s2 that unfolding run by (cases r3) simp_all
    qed
    have "delete_files_batch lookup file_paths (\<lambda>_. False) st
        = (if file_paths = [] then (st, Inr 0) else if rows_of_paths paths ?files = [] then (s1, Inr 0)
           else if ids = [] then (s2, Inl IndexError)
           else run_hnsw_guarded_mutation False (length ids > 1) (Some (restore_file_delete_targets sn)) (delete_records ids sn) (\<lambda>_. False) s2)"
      using ok(2) Inr sn
      by (simp add: delete_files_batch_def transaction_active_def then_op_def bind_op_def [of "execute id"] bind_reads execute_def
          return_op_def Let_def ids_def [symmetric] s1_def [symmetric])
        (auto simp: bind_op_def reads_def return_op_def raise_op_def execute_def Let_def s1_def ids_def [symmetric])
    then show ?thesis using same guard s2(1) by (auto simp: s1_def)
  qed
qed

text \<open>
  C10: Deleting a batch of files is all or nothing: whichever single statement fails, either the
  files with all their chunks and embeddings are gone and their number is returned, or an exception
  is raised and every row is back.  There is no exception without a failing statement; the vector
  indexes exist as before and no transaction is open.
\<close>

theorem delete_files_batch_atomic:
  assumes ok: "db_ok (g_db st)" "transaction (g_db st) = None" and faults: "single_fault faults"
    and xs: "list_all restorable (g_indexes st)" "distinct (map vi_name (g_indexes st))"
    and paths: "map_result lookup file_paths = Inr paths" "[] \<notin> set paths"
  shows "case delete_files_batch lookup file_paths faults st of
      (st', Inr n) \<Rightarrow>
        n = length (filter (\<lambda>r. fr_path r \<in> set paths) (t_files (db_tables (g_db st))))
        \<and> g_db st' = (g_db st)\<lparr>db_tables := deleted_files
            (map fr_id (filter (\<lambda>r. fr_path r \<in> set paths) (t_files (db_tables (g_db st))))) (db_tables (g_db st))\<rparr>
        \<and> g_indexes st' = g_indexes st
    | (st', Inl e) \<Rightarrow> (\<exists>n. faults n) \<and> same_rows (db_tables (g_db st')) (db_tables (g_db st)) \<and> transaction (g_db st') = None
        \<and> g_indexes st' = g_indexes st"
  using assms by (rule delete_files_batch_correct)

definition indexed_state :: "database \<Rightarrow> guard_state" where
  "indexed_state db = \<lparr>g_db = db, g_indexes = [\<lparr>vi_name = ''idx_hnsw_3'', vi_table = ''embeddings_3'', vi_metric = ''cosine''\<rparr>],
     g_saved_indexes = [], g_preserve_order = True, g_statements = 0\<rparr>"

definition small_db :: database where
  "small_db = empty_database\<lparr>db_tables := \<lparr>t_files =
       [\<lparr>fr_id = 1, fr_path = ''a.py'', fr_name = ''a.py'', fr_extension = ''.py'', fr_size = 3, fr_mtime = 1,
         fr_content_hash = None, fr_language = None, fr_skip_reason = None\<rparr>,
        \<lparr>fr_id = 2, fr_path = ''b.py'', fr_name = ''b.py'', fr_extension = ''.py'', fr_size = 3, fr_mtime = 1,
         fr_content_hash = None, fr_language = None, fr_skip_reason = None\<rparr>], t_chunks = [], t_embeddings = []\<rparr>,
     files_id_seq := 3\<rparr>"

lemma small_db_ok: "db_ok small_db" "transaction small_db = None"
  by (simp_all add: small_db_def db_ok_def tables_ok_def empty_database_def)

theorem delete_files_batch_atomic_witness:
  "map (\<lambda>k. map fr_path (t_files (db_tables (g_db (fst (delete_files_batch Inr [''a.py'', ''x.py''] (\<lambda>n. n = k) (indexed_state small_db)))))))
     [4, 5, 6, 9] = [[''b.py'', ''a.py''], [''b.py'', ''a.py''], [''b.py'', ''a.py''], [''b.py'']]
   \<and> g_indexes (fst (delete_files_batch Inr [''a.py'', ''x.py''] (\<lambda>n. n = 4) (indexed_state small_db))) = g_indexes (indexed_state small_db)"
proof -
  let ?st = "indexed_state small_db" and ?f = "\<lambda>n::nat. n = 4"
  have idx: "list_all restorable (g_indexes ?st)" "distinct (map vi_name (g_indexes ?st))" by code_simp+
  have ok: "db_ok (g_db ?st)" "transaction (g_db ?st) = None" "single_fault ?f" "map_result Inr [''a.py'', ''x.py''] = Inr [''a.py'', ''x.py'']"
    "[] \<notin> set [''a.py'', ''x.py'']"
    using small_db_ok by (simp_all add: indexed_state_def single_fault_def)
  have "g_indexes (fst (delete_files_batch Inr [''a.py'', ''x.py''] ?f ?st)) = g_indexes ?st"
    using delete_files_batch_atomic [OF ok(1,2,3) idx ok(4,5)] by (auto split: prod.splits sum.splits)
  moreover have "map (\<lambda>k. map fr_path (t_files (db_tables (g_db (fst (delete_files_batch Inr [''a.py'', ''x.py''] (\<lambda>n. n = k) ?st))))))
     [4, 5, 6, 9] = [[''b.py'', ''a.py''], [''b.py'', ''a.py''], [''b.py'', ''a.py''], [''b.py'']]" by code_simp
  ultimately show ?thesis by simp
qed

text \<open>
  Two things do not come back: the bulk setting of the connection is never switched on again, and an
  index whose name is not an identifier is dropped and not recreated.
\<close>

lemma bulk_delete_leaves_order_off:
  "g_preserve_order (fst (delete_files_batch Inr [''a.py'', ''b.py''] (\<lambda>_. False) (indexed_state small_db))) = False"
  by code_simp

lemma custom_index_lost:
  "g_indexes (fst (delete_files_batch Inr [''a.py''] (\<lambda>_. False) ((indexed_state small_db)\<lparr>g_indexes :=
     [\<lparr>vi_name = ''live-idx'', vi_table = ''embeddings_3'', vi_metric = ''cosine''\<rparr>]\<rparr>))) = []"
  by code_simp

subsection \<open>Deleting chunks\<close>

definition remaining_check :: "(tables \<Rightarrow> bool) \<Rightarrow> unit db_op" where
  "remaining_check remaining =
     then_op (execute id) (bind_op (reads (\<lambda>st. remaining (db_tables (g_db st))))
       (\<lambda>stale. if stale then raise_op RuntimeError else return_op ()))"

definition delete_chunk_ids_in_active_transaction :: "int list \<Rightarrow> unit db_op" where
  "delete_chunk_ids_in_active_transaction chunk_ids =
     (let unique_chunk_ids = sort (remdups chunk_ids) in
      if unique_chunk_ids = [] then return_op ()
      else then_op (execute id)
        (bind_op (reads (\<lambda>st. filter (\<lambda>e. fst e \<in> set unique_chunk_ids) (t_embeddings (db_tables (g_db st)))))
          (\<lambda>rows.
            then_op (when_op (rows \<noteq> [])
              (then_op (execute (map_tables (\<lambda>tb. tb\<lparr>t_embeddings := filter (\<lambda>e. e \<notin> set rows) (t_embeddings tb)\<rparr>)))
                (remaining_check (\<lambda>tb. \<exists>e\<in>set (t_embeddings tb). fst e \<in> set unique_chunk_ids))))
           (then_op (op_delete_chunks unique_chunk_ids)
             (remaining_check (\<lambda>tb. \<exists>r\<in>set (t_chunks tb). r_id r \<in> set unique_chunk_ids))))))"

definition delete_chunk_ids_with_hnsw_safety :: "int list \<Rightarrow> unit db_op" where
  "delete_chunk_ids_with_hnsw_safety chunk_ids = (\<lambda>faults st.
     let unique_chunk_ids = sort (remdups chunk_ids) in
     if unique_chunk_ids = [] then (st, Inr ())
     else if transaction_active st then delete_chunk_ids_in_active_transaction unique_chunk_ids faults st
     else run_hnsw_guarded_mutation True (length unique_chunk_ids > 1) None
            (then_op (op_delete_embeddings unique_chunk_ids) (op_delete_chunks unique_chunk_ids)) faults st)"

definition delete_file_chunks :: "int \<Rightarrow> unit db_op" where
  "delete_file_chunks file_id =
     then_op (execute id) (bind_op (reads (\<lambda>st. sort (map r_id (filter (\<lambda>r. r_file_id r = file_id) (t_chunks (db_tables (g_db st)))))))
       delete_chunk_ids_with_hnsw_safety)"

lemma sort_remdups_Nil [simp]: "sort (remdups xs) = [] \<longleftrightarrow> xs = []"
  by (metis set_empty set_remdups set_sort)

lemma in_transaction_run:
  "\<exists>st'. delete_chunk_ids_in_active_transaction ids (\<lambda>_. False) st = (st', Inr ())
     \<and> g_db st' = delete_chunks_batch (g_db st) ids \<and> g_indexes st' = g_indexes st"
proof -
  have same: "filter (\<lambda>e. e \<in> set xs \<longrightarrow> fst e \<notin> set ids) xs = filter (\<lambda>e. fst e \<notin> set ids) xs" for xs :: "embedding_row list"
    by (intro filter_cong) auto
  have none: "filter (\<lambda>e. fst e \<notin> set ids) xs = xs" if "filter (\<lambda>e. fst e \<in> set ids) xs = []" for xs :: "embedding_row list"
    using that by (auto simp: filter_id_conv filter_empty_conv)
  show ?thesis
    by (auto simp: delete_chunk_ids_in_active_transaction_def remaining_check_def op_delete_chunks_def when_op_def then_op_def
        bind_op_def reads_def return_op_def raise_op_def execute_def map_tables_def map_db_def delete_chunks_batch_def
        delete_embeddings_for_chunk_ids_def Let_def same none)
qed

lemma guarded_body_transactional:
  "guarded_body True bulk existing m =
     then_op (then_op op_begin_transaction (then_op (when_op bulk (execute (\<lambda>st. st\<lparr>g_preserve_order := False\<rparr>)))
       (then_op (for_each drop_vector_index existing) (then_op m op_commit_transaction))))
      (then_op (for_each recreate_vector_index existing) (return_op ()))"
proof -
  have "bind_op m (\<lambda>r. k r) = then_op m (k ())" for k :: "unit \<Rightarrow> unit db_op" by (simp add: then_op_def)
  then show ?thesis by (simp add: guarded_body_def when_op_def [of True] then_op_assoc)
qed

lemma guarded_chunks_run:
  assumes st: "transaction (g_db st) = None" and xs: "list_all restorable (g_indexes st)" "distinct (map vi_name (g_indexes st))"
  shows "\<exists>st'. run_hnsw_guarded_mutation True bulk None (then_op (op_delete_embeddings ids) (op_delete_chunks ids)) (\<lambda>_. False) st = (st', Inr ())
     \<and> g_db st' = delete_chunks_batch (g_db st) ids \<and> g_indexes st' = g_indexes st"
proof -
  have started: "does op_begin_transaction () (\<lambda>st. (map_db begin_transaction st)\<lparr>g_saved_indexes := g_indexes st\<rparr>)"
    and commit: "does op_commit_transaction () (map_db commit_transaction)"
    unfolding op_begin_transaction_def op_commit_transaction_def
    by (rule does_execute, simp add: map_db_def erase_def)+
  have bulk: "does (when_op bulk (execute (\<lambda>st. st\<lparr>g_preserve_order := False\<rparr>))) ()
      (\<lambda>st. if bulk then st\<lparr>g_preserve_order := False\<rparr> else st)"
    by (simp add: when_op_def does_def return_op_def execute_def Let_def erase_def)
  note d = does_then [OF started does_then [OF bulk does_then [OF does_drop_all [of "g_indexes st"]
      does_then [OF does_then [OF does_deletes(1) [of ids] does_deletes(2) [of ids]] commit]]]]
  let ?m = "then_op (op_delete_embeddings ids) (op_delete_chunks ids)" and ?xs = "g_indexes st"
  obtain f where f: "does (then_op op_begin_transaction (then_op (when_op bulk (execute (\<lambda>st. st\<lparr>g_preserve_order := False\<rparr>)))
       (then_op (for_each drop_vector_index ?xs) (then_op ?m op_commit_transaction)))) () f"
    "g_db (f (erase st)) = delete_chunks_batch (g_db st) ids" "g_indexes (f (erase st)) = []"
    by (rule that [OF d]) (auto simp: map_db_def map_tables_def begin_transaction_def commit_transaction_def delete_chunks_batch_def
        delete_embeddings_for_chunk_ids_def erase_def st filter_empty_conv)
  obtain s1 where s1: "erase s1 = f (erase st)"
    "guarded_body True bulk ?xs ?m (\<lambda>_. False) st = then_op (for_each recreate_vector_index ?xs) (return_op ()) (\<lambda>_. False) s1"
    unfolding guarded_body_transactional by (rule run_then [OF f(1)])
  have "g_db (erase s1) = delete_chunks_batch (g_db st) ids" "g_indexes (erase s1) = []" unfolding s1(1) by (fact f(2,3))+
  then have d1: "g_db s1 = delete_chunks_batch (g_db st) ids" "g_indexes s1 = []" by (simp_all add: erase_def)
  obtain s2 where s2: "for_each recreate_vector_index ?xs (\<lambda>_. False) s1 = (s2, Inr ())" "erase s2 = (erase s1)\<lparr>g_indexes := ?xs\<rparr>"
    using recreate_all [OF xs(1), of s1] xs(2) d1(2) by auto
  have "g_db s2 = g_db (erase s2)" "g_indexes s2 = g_indexes (erase s2)" by (simp_all add: erase_def)
  then have d2: "g_db s2 = g_db s1" "g_indexes s2 = ?xs" unfolding s2(2) by (simp_all add: erase_def)
  obtain s3 where s3: "checkpoint_unless_active (\<lambda>_. False) s2 = (s3, Inr ())"
    using does_checkpoint unfolding does_def by fastforce
  from s1(2) s2(1) s3 checkpoint_frame [OF s3] d1 d2 show ?thesis
    by (simp add: run_hnsw_guarded_mutation_def transaction_active_def st then_op_def bind_op_def return_op_def Let_def)
qed

text \<open>
  Both ways of deleting chunks, behind the index guard and inside an open transaction, are the
  deletion on the tables that the storing of files uses.
\<close>

theorem delete_chunks_refines:
  assumes "list_all restorable (g_indexes st)" "distinct (map vi_name (g_indexes st))"
  shows "\<exists>st'. delete_chunk_ids_with_hnsw_safety ids (\<lambda>_. False) st = (st', Inr ())
     \<and> g_db st' = delete_chunks_batch (g_db st) ids \<and> g_indexes st' = g_indexes st"
proof -
  have same: "delete_chunks_batch db (sort (remdups ids)) = delete_chunks_batch db ids" for db
    by (simp add: delete_chunks_batch_def delete_embeddings_for_chunk_ids_def)
  show ?thesis
  proof (cases "transaction_active st")
    case True
    then show ?thesis using in_transaction_run [of "sort (remdups ids)" st]
      by (cases "ids = []") (simp_all add: delete_chunk_ids_with_hnsw_safety_def same Let_def, simp add: delete_chunks_batch_def)
  next
    case False
    then show ?thesis
    proof (cases "ids = []")
      case True
      then show ?thesis by (simp add: delete_chunk_ids_with_hnsw_safety_def delete_chunks_batch_def Let_def)
    next
      case ne: False
      with False guarded_chunks_run [OF _ assms, of "length (sort (remdups ids)) > 1" "sort (remdups ids)"] show ?thesis
      by (simp add: delete_chunk_ids_with_hnsw_safety_def transaction_active_def same Let_def)
    qed
  qed
qed

end
