(* ===== verification/Cleanup.thy ===== *)
theory Cleanup
  imports Indexing Path_Filter Guarded_Delete Batching
begin

text \<open>
  Removing the rows of files that are gone or no longer wanted before a directory is indexed:
  \<open>_build_cleanup_path_filter\<close>, \<open>_classify_cleanup_candidate\<close> and \<open>_cleanup_orphaned_files\<close> of
  \<open>services/indexing_coordinator.py\<close> over the batch deletion of \<open>Guarded_Delete\<close> and the filter of
  \<open>Path_Filter\<close>.

  Arguments are what the code asks the file system (the path relative to the base directory, whether
  a file exists, the key of a file's lock), \<open>LIKE\<close>, and building the ignore engine for a scope.  The
  locks of the coordinator are the set of their keys.
\<close>

subsection \<open>The filter of the cleanup\<close>

record ignore_scope =
  sc_sources :: "string list"
  sc_config_excludes :: "string list"
  sc_chignore_file :: string
  sc_backend :: string
  sc_workspace_root_only :: bool

text \<open>What the filter reads of \<open>config.indexing\<close>: \<open>include\<close>, the resolved ignore scope, the flag.\<close>

record indexing_policy =
  po_include :: "string list"
  po_scope :: ignore_scope
  po_index_unknown :: bool

definition settings_from_config :: "indexing_policy option \<Rightarrow> string list option \<Rightarrow> (filter_settings \<times> ignore_scope) option" where
  "settings_from_config config include_patterns =
     (case config of
        None \<Rightarrow> None
      | Some indexing \<Rightarrow>
          (let resolved = (case include_patterns of None \<Rightarrow> po_include indexing | Some ps \<Rightarrow> ps)
           in Some (\<lparr>fs_include_patterns = Some resolved, fs_index_unknown_files = po_index_unknown indexing\<rparr>, po_scope indexing)))"

definition build_cleanup_path_filter ::
  "indexing_policy option \<Rightarrow> string list option \<Rightarrow> string list option \<Rightarrow> filter_settings \<times> ignore_scope" where
  "build_cleanup_path_filter config include_patterns exclude_patterns =
     (case settings_from_config config include_patterns of
        Some s \<Rightarrow> s
      | None \<Rightarrow>
          (\<lparr>fs_include_patterns = include_patterns, fs_index_unknown_files = False\<rparr>,
           (let excludes = (case exclude_patterns of None \<Rightarrow> [] | Some ps \<Rightarrow> ps)
            in \<lparr>sc_sources = (if excludes \<noteq> [] then [''config''] else []), sc_config_excludes = excludes,
                sc_chignore_file = ''.chignore'', sc_backend = ''python'', sc_workspace_root_only = False\<rparr>)))"

subsection \<open>Classification\<close>

datatype cleanup_reason = Missing_on_disk | Excluded_by_current_policy | Degraded_filter_skipped

record cleanup_env =
  ce_rel :: "string \<Rightarrow> string result"
  ce_like :: "string \<Rightarrow> string \<Rightarrow> bool"
  ce_exists :: "string \<Rightarrow> bool result"
  ce_event :: "string \<Rightarrow> event_path"
  ce_build :: "ignore_scope \<Rightarrow> engine result"
  ce_lookup :: "string \<Rightarrow> string result"
  ce_lock_key :: "string \<Rightarrow> string"
  ce_scss :: bool

definition classify_cleanup_candidate ::
  "cleanup_env \<Rightarrow> filter_settings \<times> ignore_scope \<Rightarrow> string list \<Rightarrow> path_filter \<Rightarrow> string \<Rightarrow> (cleanup_reason option \<times> path_filter) result" where
  "classify_cleanup_candidate env s current_file_paths st db_path =
     (if db_path \<in> set current_file_paths then Inr (None, st)
      else bind_result (ce_exists env db_path) (\<lambda>on_disk.
        if \<not> on_disk then Inr (Some Missing_on_disk, st)
        else if is_degraded st then Inr (Some Degraded_filter_skipped, st)
        else let (wanted, st') = should_index (ce_scss env) (Some (fst s)) (ce_build env (snd s)) st (ce_event env db_path)
             in if \<not> wanted
                then (if is_degraded st' then Inr (Some Degraded_filter_skipped, st')
                      else Inr (Some Excluded_by_current_policy, st'))
                else Inr (None, st')))"

text \<open>The loop over the rows: the orphans with their reasons; rows kept by a degraded filter are not enqueued.\<close>

fun find_orphans ::
  "cleanup_env \<Rightarrow> filter_settings \<times> ignore_scope \<Rightarrow> string list \<Rightarrow> path_filter \<Rightarrow> string list \<Rightarrow> (string \<times> cleanup_reason) list result" where
  "find_orphans env s current st [] = Inr []"
| "find_orphans env s current st (p # ps) =
     bind_result (classify_cleanup_candidate env s current st p) (\<lambda>(reason, st').
       case reason of
         None \<Rightarrow> find_orphans env s current st' ps
       | Some Degraded_filter_skipped \<Rightarrow> find_orphans env s current st' ps
       | Some r \<Rightarrow> bind_result (find_orphans env s current st' ps) (\<lambda>rest. Inr ((p, r) # rest)))"

subsection \<open>Deletion\<close>

record coordinator =
  co_db :: database
  co_locks :: "string set"

definition ORPHAN_CLEANUP_BATCH_SIZE :: nat where "ORPHAN_CLEANUP_BATCH_SIZE = 128"

text \<open>\<open>delete_files_batch\<close> of the provider when no statement fails.\<close>

definition provider_delete_files_batch :: "cleanup_env \<Rightarrow> database \<Rightarrow> string list \<Rightarrow> database \<times> nat result" where
  "provider_delete_files_batch env db paths =
     (let (st, r) = delete_files_batch (ce_lookup env) paths (\<lambda>_. False)
            \<lparr>g_db = db, g_indexes = [], g_saved_indexes = [], g_preserve_order = True, g_statements = 0\<rparr>
      in (g_db st, r))"

definition cleanup_file_lock :: "cleanup_env \<Rightarrow> string \<Rightarrow> string set \<Rightarrow> string set" where
  "cleanup_file_lock env p locks = locks - {ce_lock_key env p}"

fun delete_orphan_batches ::
  "cleanup_env \<Rightarrow> coordinator \<Rightarrow> nat \<Rightarrow> string list list \<Rightarrow> coordinator \<times> nat result" where
  "delete_orphan_batches env co orphaned_count [] = (co, Inr orphaned_count)"
| "delete_orphan_batches env co orphaned_count (batch_paths # rest) =
     (case provider_delete_files_batch env (co_db co) batch_paths of
        (db', Inl e) \<Rightarrow> (co\<lparr>co_db := db'\<rparr>, Inl RuntimeError)
      | (db', Inr deleted_count) \<Rightarrow>
          if deleted_count \<noteq> length batch_paths then (co\<lparr>co_db := db'\<rparr>, Inl RuntimeError)
          else delete_orphan_batches env
                 \<lparr>co_db = db', co_locks = fold (cleanup_file_lock env) batch_paths (co_locks co)\<rparr>
                 (orphaned_count + length batch_paths) rest)"

text \<open>The rows of the directory: all rows for the base directory itself, else the two conditions of the query.\<close>

definition rows_in_directory :: "cleanup_env \<Rightarrow> database \<Rightarrow> string \<Rightarrow> string list" where
  "rows_in_directory env db relative_directory =
     (let paths = map fr_path (t_files (db_tables db))
      in if relative_directory = ''.'' then paths
         else filter (\<lambda>p. p = relative_directory \<or> ce_like env (escape_like_pattern relative_directory False @ ''/%'') p) paths)"

definition orphan_batches :: "(string \<times> cleanup_reason) list \<Rightarrow> string list list" where
  "orphan_batches orphaned_files =
     concat (map (\<lambda>reason. slices ORPHAN_CLEANUP_BATCH_SIZE (map fst (filter (\<lambda>(p, r). r = reason) orphaned_files)))
       [Missing_on_disk, Excluded_by_current_policy])"

definition cleanup_orphaned_files ::
  "cleanup_env \<Rightarrow> indexing_policy option \<Rightarrow> coordinator \<Rightarrow> string \<Rightarrow> string list \<Rightarrow> string list option \<Rightarrow> string list option \<Rightarrow>
     coordinator \<times> nat result" where
  "cleanup_orphaned_files env config co directory current_files include_patterns exclude_patterns =
     (let scan =
        bind_result (map_result (ce_rel env) current_files) (\<lambda>current_file_paths.
        bind_result (ce_rel env directory) (\<lambda>relative_directory.
          find_orphans env (build_cleanup_path_filter config include_patterns exclude_patterns) current_file_paths
            initial_path_filter (rows_in_directory env (co_db co) relative_directory)))
      in case scan of
           Inl e \<Rightarrow> (co, Inl RuntimeError)
         | Inr orphaned_files \<Rightarrow> delete_orphan_batches env co 0 (orphan_batches orphaned_files))"

subsection \<open>What a deletion leaves\<close>

definition remaining_files :: "string list \<Rightarrow> database \<Rightarrow> database" where
  "remaining_files paths db =
     db\<lparr>db_tables := deleted_files (map fr_id (filter (\<lambda>r. fr_path r \<in> set paths) (t_files (db_tables db)))) (db_tables db)\<rparr>"

lemma remaining_files_rows:
  assumes "tables_ok (db_tables db) f c"
  shows "t_files (db_tables (remaining_files paths db)) = filter (\<lambda>r. fr_path r \<notin> set paths) (t_files (db_tables db))"
proof -
  have "inj_on fr_id (set (t_files (db_tables db)))" using assms by (simp add: tables_ok_def distinct_map)
  then have "fr_id r \<in> fr_id ` {x \<in> set (t_files (db_tables db)). fr_path x \<in> set paths} \<longleftrightarrow> fr_path r \<in> set paths"
    if "r \<in> set (t_files (db_tables db))" for r using that by (auto dest: inj_onD)
  then show ?thesis by (auto simp: remaining_files_def deleted_files_def intro!: filter_cong)
qed

lemma remaining_files_ok:
  "db_ok db \<Longrightarrow> transaction db = None \<Longrightarrow> db_ok (remaining_files paths db) \<and> transaction (remaining_files paths db) = None"
  by (simp add: remaining_files_def db_ok_def deleted_files_ok)

lemma remaining_files_twice:
  assumes "tables_ok (db_tables db) f c"
  shows "remaining_files qs (remaining_files ps db) = remaining_files (ps @ qs) db"
proof -
  let ?tb = "db_tables db" and ?i = "\<lambda>ps. {r \<in> set (t_files (db_tables db)). fr_path r \<in> set ps}"
  define A where "A = fr_id ` ?i ps"
  define B where "B = fr_id ` ?i qs"
  have B: "fr_id ` {x \<in> set (t_files ?tb). fr_id x \<notin> A \<and> fr_path x \<in> set qs} = B - A" by (auto simp: A_def B_def)
  have AB: "fr_id ` {x \<in> set (t_files ?tb). fr_path x \<in> set ps \<or> fr_path x \<in> set qs} = A \<union> B" by (auto simp: A_def B_def)
  have one: "x \<notin> A \<and> (x \<in> B \<longrightarrow> x \<in> A) \<longleftrightarrow> x \<notin> A \<and> x \<notin> B" for x by blast
  have emb: "x \<notin> r_id ` {r \<in> set (t_chunks ?tb). r_file_id r \<in> A} \<and> x \<notin> r_id ` {r \<in> set (t_chunks ?tb). r_file_id r \<notin> A \<and> r_file_id r \<in> B \<and> r_file_id r \<notin> A}
      \<longleftrightarrow> x \<notin> r_id ` {r \<in> set (t_chunks ?tb). r_file_id r \<in> A \<or> r_file_id r \<in> B}" for x by blast
  show ?thesis
    unfolding remaining_files_def deleted_files_def
    by (simp add: A_def [symmetric] B AB one emb)
qed

lemma provider_delete:
  assumes "db_ok db" "transaction db = None" "map_result (ce_lookup env) ps = Inr ps" "[] \<notin> set ps"
  shows "provider_delete_files_batch env db ps
    = (remaining_files ps db, Inr (length (filter (\<lambda>r. fr_path r \<in> set ps) (t_files (db_tables db)))))"
proof -
  let ?st = "\<lparr>g_db = db, g_indexes = [], g_saved_indexes = [], g_preserve_order = True, g_statements = 0\<rparr>"
  obtain st' r where run: "delete_files_batch (ce_lookup env) ps (\<lambda>_. False) ?st = (st', r)" by fastforce
  with delete_files_batch_correct [of ?st "\<lambda>_. False" "ce_lookup env" ps ps] assms show ?thesis
    by (cases r) (simp_all add: provider_delete_files_batch_def remaining_files_def single_fault_def)
qed

lemma map_result_id: "(\<And>p. p \<in> set ps \<Longrightarrow> f p = Inr p) \<Longrightarrow> map_result f ps = Inr ps"
  using map_result_pure [of ps f id] by simp

text \<open>All batches go through when their paths are stored and distinct.\<close>

lemma delete_batches_run:
  assumes "db_ok (co_db co)" "transaction (co_db co) = None" "distinct (concat bs)"
    and "set (concat bs) \<subseteq> fr_path ` set (t_files (db_tables (co_db co)))"
    and "\<forall>p\<in>set (concat bs). ce_lookup env p = Inr p \<and> p \<noteq> []"
  shows "\<exists>co'. delete_orphan_batches env co n bs = (co', Inr (n + length (concat bs)))
    \<and> co_db co' = remaining_files (concat bs) (co_db co)
    \<and> co_locks co' = co_locks co - ce_lock_key env ` set (concat bs)"
  using assms
proof (induction bs arbitrary: co n)
  case Nil
  have "remaining_files [] (co_db co) = co_db co" by (simp add: remaining_files_def deleted_none)
  with Nil show ?case by simp
next
  case (Cons b bs)
  let ?db = "co_db co"
  note tok = db_ok_tables [OF Cons.prems(1)]
  have del: "provider_delete_files_batch env ?db b = (remaining_files b ?db, Inr (length (filter (\<lambda>r. fr_path r \<in> set b) (t_files (db_tables ?db)))))"
    using Cons.prems by (intro provider_delete map_result_id) auto
  have "length (filter (\<lambda>r. fr_path r \<in> set b) (t_files (db_tables ?db))) = card (fr_path ` set (filter (\<lambda>r. fr_path r \<in> set b) (t_files (db_tables ?db))))"
    using distinct_card [of "map fr_path (filter (\<lambda>r. fr_path r \<in> set b) (t_files (db_tables ?db)))"] tok
    by (simp add: tables_ok_def distinct_map_filter)
  also have "fr_path ` set (filter (\<lambda>r. fr_path r \<in> set b) (t_files (db_tables ?db))) = set b" using Cons.prems(4) by force
  finally have len: "length (filter (\<lambda>r. fr_path r \<in> set b) (t_files (db_tables ?db))) = length b"
    using Cons.prems(3) by (simp add: distinct_card)
  let ?co = "\<lparr>co_db = remaining_files b ?db, co_locks = fold (cleanup_file_lock env) b (co_locks co)\<rparr>"
  have locks: "fold (cleanup_file_lock env) b L = L - ce_lock_key env ` set b" for L
    by (induction b arbitrary: L) (auto simp: cleanup_file_lock_def)
  have "set (concat bs) \<subseteq> fr_path ` set (t_files (db_tables (remaining_files b ?db)))"
    unfolding remaining_files_rows [OF tok] using Cons.prems(3,4) by force
  with Cons.prems remaining_files_ok [OF Cons.prems(1,2), of b] Cons.IH [of ?co "n + length b"]
  obtain co' where "delete_orphan_batches env ?co (n + length b) bs = (co', Inr (n + length b + length (concat bs)))"
    "co_db co' = remaining_files (concat bs) (remaining_files b ?db)"
    "co_locks co' = fold (cleanup_file_lock env) b (co_locks co) - ce_lock_key env ` set (concat bs)" by auto
  then show ?case
    using del len remaining_files_twice [OF tok, of "concat bs" b] by (auto simp: locks)
qed

text \<open>Even a cleanup that raises keeps the tables consistent.\<close>

lemma provider_delete_ok:
  assumes "db_ok db" "transaction db = None"
  shows "db_ok (fst (provider_delete_files_batch env db ps)) \<and> transaction (fst (provider_delete_files_batch env db ps)) = None"
proof -
  let ?st = "\<lparr>g_db = db, g_indexes = [], g_saved_indexes = [], g_preserve_order = True, g_statements = 0\<rparr>"
  obtain ids where "g_db (fst (delete_files_batch (ce_lookup env) ps (\<lambda>_. False) ?st)) = db\<lparr>db_tables := deleted_files ids (db_tables db)\<rparr>"
    using delete_files_batch_db [of ?st "ce_lookup env" ps] assms by auto
  then have "fst (provider_delete_files_batch env db ps) = db\<lparr>db_tables := deleted_files ids (db_tables db)\<rparr>"
    by (simp add: provider_delete_files_batch_def case_prod_beta)
  with assms deleted_files_ok show ?thesis by (simp add: db_ok_def)
qed

lemma delete_batches_ok:
  assumes "db_ok (co_db co)" "transaction (co_db co) = None"
  shows "db_ok (co_db (fst (delete_orphan_batches env co n bs))) \<and> transaction (co_db (fst (delete_orphan_batches env co n bs))) = None"
  using assms
proof (induction bs arbitrary: co n)
  case (Cons b bs)
  obtain db' r where d: "provider_delete_files_batch env (co_db co) b = (db', r)" by fastforce
  with provider_delete_ok [OF Cons.prems, of env b] have "db_ok db'" "transaction db' = None" by simp_all
  with d Cons.IH show ?case by (simp split: sum.split)
qed simp

lemma cleanup_ok:
  assumes "db_ok (co_db co)" "transaction (co_db co) = None"
  shows "db_ok (co_db (fst (cleanup_orphaned_files env config co directory files incs excs)))
    \<and> transaction (co_db (fst (cleanup_orphaned_files env config co directory files incs excs))) = None"
  using delete_batches_ok [OF assms] assms by (simp add: cleanup_orphaned_files_def Let_def split: sum.split)

subsection \<open>Which rows are orphans\<close>

lemma find_orphans_step:
  assumes "find_orphans env s current st (p # ps) = Inr os"
  obtains st' rest where "find_orphans env s current st' ps = Inr rest" "os = rest"
    | st' rest r where "find_orphans env s current st' ps = Inr rest" "r \<in> {Missing_on_disk, Excluded_by_current_policy}" "os = (p, r) # rest"
proof -
  obtain reason st' where c: "classify_cleanup_candidate env s current st p = Inr (reason, st')"
    using assms by (auto simp: bind_result_eq_Inr_iff)
  show thesis
    using assms that [of st']
    by (cases reason) (auto simp: c bind_result_eq_Inr_iff split: cleanup_reason.splits)
qed

lemma find_orphans_paths:
  assumes "find_orphans env s current st ps = Inr os"
  shows "set os \<subseteq> {(p, r). p \<in> set ps \<and> r \<in> {Missing_on_disk, Excluded_by_current_policy}} \<and> (distinct ps \<longrightarrow> distinct (map fst os))"
  using assms
proof (induction ps arbitrary: st os)
  case (Cons p ps)
  from Cons.prems show ?case
    by (rule find_orphans_step) (use Cons.IH in fastforce)+
qed simp

lemma mset_orphan_batches:
  assumes "\<forall>(p, r)\<in>set os. r \<in> {Missing_on_disk, Excluded_by_current_policy}"
  shows "mset (concat (orphan_batches os)) = mset (map fst os)"
proof -
  have "concat (orphan_batches os) = map fst (filter (\<lambda>(p, r). r = Missing_on_disk) os)
      @ map fst (filter (\<lambda>(p, r). r = Excluded_by_current_policy) os)"
    by (simp add: orphan_batches_def concat_slices ORPHAN_CLEANUP_BATCH_SIZE_def)
  also have "mset \<dots> = mset (map fst os)" using assms by (induction os) (auto split: if_splits)
  finally show ?thesis .
qed

definition in_directory :: "string \<Rightarrow> string \<Rightarrow> bool" where
  "in_directory d p \<longleftrightarrow> d = ''.'' \<or> p = d \<or> starts_with p (d @ ''/'')"

lemma rows_in_directory_eq:
  assumes "like_operator (ce_like env)"
  shows "rows_in_directory env db d = filter (in_directory d) (map fr_path (t_files (db_tables db)))"
proof -
  have "escape_like_pattern d False @ ''/%'' = concat (map like_escape_char (d @ ''/'')) @ ''%''"
    by (simp add: escape_like_pattern_eq like_escape_char_def)
  then have "ce_like env (escape_like_pattern d False @ ''/%'') p \<longleftrightarrow> starts_with p (d @ ''/'')" for p
    using like_operator.like_prefix [OF assms, of "d @ ''/''" p] by (simp only:)
  then show ?thesis by (simp add: rows_in_directory_def in_directory_def [abs_def] Let_def)
qed

text \<open>The stored paths are what a lookup of them gives, and \<open>on_disk\<close> says which files exist.\<close>

definition paths_known :: "cleanup_env \<Rightarrow> (string \<Rightarrow> bool) \<Rightarrow> database \<Rightarrow> bool" where
  "paths_known env on_disk db \<longleftrightarrow>
     (\<forall>p\<in>fr_path ` set (t_files (db_tables db)). p \<noteq> [] \<and> ce_lookup env p = Inr p \<and> ce_exists env p = Inr (on_disk p))"

text \<open>With a scan that does not fail, exactly the rows it names are removed.\<close>

lemma cleanup_removes:
  assumes ok: "db_ok (co_db co)" "transaction (co_db co) = None" and env: "like_operator (ce_like env)" "paths_known env on_disk (co_db co)"
    and paths: "map_result (ce_rel env) files = Inr current" "ce_rel env directory = Inr d"
    and scan: "find_orphans env (build_cleanup_path_filter config incs excs) current initial_path_filter
      (filter (in_directory d) (map fr_path (t_files (db_tables (co_db co))))) = Inr os"
    and orphan: "fst ` set os = {p \<in> fr_path ` set (t_files (db_tables (co_db co))). orphan p}"
  shows "\<exists>co'. cleanup_orphaned_files env config co directory files incs excs
      = (co', Inr (length (filter (\<lambda>r. orphan (fr_path r)) (t_files (db_tables (co_db co))))))
    \<and> t_files (db_tables (co_db co')) = filter (\<lambda>r. \<not> orphan (fr_path r)) (t_files (db_tables (co_db co)))
    \<and> db_ok (co_db co') \<and> transaction (co_db co') = None"
proof -
  let ?db = "co_db co" and ?bs = "orphan_batches os"
  note tok = db_ok_tables [OF ok(1)]
  have dist: "distinct (map fr_path (t_files (db_tables ?db)))" using tok by (simp add: tables_ok_def)
  note os = find_orphans_paths [OF scan]
  have perm: "mset (concat ?bs) = mset (map fst os)" using os by (intro mset_orphan_batches) auto
  then have set: "set (concat ?bs) = fst ` set os" by (metis set_map set_mset_mset)
  have "distinct (concat ?bs)" using os dist perm by (metis distinct_filter mset_eq_imp_distinct_iff)
  moreover have "set (concat ?bs) \<subseteq> fr_path ` set (t_files (db_tables ?db))" unfolding set orphan by blast
  moreover from this env(2) have "\<forall>p\<in>set (concat ?bs). ce_lookup env p = Inr p \<and> p \<noteq> []"
    unfolding paths_known_def by blast
  ultimately obtain co' where co': "delete_orphan_batches env co 0 ?bs = (co', Inr (length (concat ?bs)))"
    "co_db co' = remaining_files (concat ?bs) ?db"
    using delete_batches_run [OF ok, of ?bs env 0] by auto
  have "length (concat ?bs) = length os" using arg_cong [OF perm, of size] by simp
  also have "\<dots> = card (fst ` set os)" using os dist distinct_card [of "map fst os"] by simp
  also have "fst ` set os = fr_path ` set (filter (\<lambda>r. orphan (fr_path r)) (t_files (db_tables ?db)))" unfolding orphan by auto
  also have "card \<dots> = length (filter (\<lambda>r. orphan (fr_path r)) (t_files (db_tables ?db)))"
    using distinct_card [of "map fr_path (filter (\<lambda>r. orphan (fr_path r)) (t_files (db_tables ?db)))"] dist
    by (simp add: distinct_map_filter)
  finally have len: "length (concat ?bs) = length (filter (\<lambda>r. orphan (fr_path r)) (t_files (db_tables ?db)))" .
  have "filter (\<lambda>r. fr_path r \<notin> set (concat ?bs)) (t_files (db_tables ?db)) = filter (\<lambda>r. \<not> orphan (fr_path r)) (t_files (db_tables ?db))"
    unfolding set orphan by (intro filter_cong) auto
  then show ?thesis
    using co' len scan paths remaining_files_rows [OF tok] remaining_files_ok [OF ok]
    by (simp add: cleanup_orphaned_files_def rows_in_directory_eq [OF env(1)])
qed

subsection \<open>With a working filter, and with a broken one\<close>

lemma find_orphans_healthy:
  assumes "\<forall>p\<in>set ps. ce_exists env p = Inr (on_disk p) \<and> e_rel (ce_event env p) = Inr (as_posix (e_path (ce_event env p)))"
    and "s = (\<lparr>fs_include_patterns = Some includes, fs_index_unknown_files = unknown\<rparr>, scope)"
    and "ce_build env scope = Inr (\<lambda>p b. Inr (matches p b))"
    and "filter_ready (\<lambda>p b. Inr (matches p b)) (normalize_include_patterns includes) st"
  shows "\<exists>os. find_orphans env s current st ps = Inr os \<and> fst ` set os
    = {p \<in> set ps. p \<notin> set current \<and> (on_disk p \<longrightarrow>
        \<not> wanted (ce_scss env) unknown (normalize_include_patterns includes) matches (e_path (ce_event env p)))}"
  using assms(1,4)
proof (induction ps arbitrary: st)
  case (Cons p ps)
  let ?want = "wanted (ce_scss env) unknown (normalize_include_patterns includes) matches (e_path (ce_event env p))"
  obtain st' where st': "should_index (ce_scss env) (Some (fst s)) (ce_build env (snd s)) st (ce_event env p) = (?want, st')"
    "filter_ready (\<lambda>p b. Inr (matches p b)) (normalize_include_patterns includes) st'"
    using should_index_ready [OF Cons.prems(2), of "ce_event env p" "fst s" unknown "ce_scss env"] Cons.prems(1) assms(2,3) by auto
  have "\<not> is_degraded st" "\<not> is_degraded st'" using Cons.prems(2) st'(2) by (simp_all add: filter_ready_def)
  then have step: "classify_cleanup_candidate env s current st p
      = (if p \<in> set current then Inr (None, st) else if \<not> on_disk p then Inr (Some Missing_on_disk, st)
         else if ?want then Inr (None, st') else Inr (Some Excluded_by_current_policy, st'))"
    using Cons.prems(1) st'(1) by (simp add: classify_cleanup_candidate_def)
  obtain os os' where "find_orphans env s current st ps = Inr os" "find_orphans env s current st' ps = Inr os'"
    "\<forall>x\<in>{os, os'}. fst ` set x = {p \<in> set ps. p \<notin> set current \<and> (on_disk p \<longrightarrow>
        \<not> wanted (ce_scss env) unknown (normalize_include_patterns includes) matches (e_path (ce_event env p)))}"
    using Cons.IH [of st] Cons.IH [of st'] Cons.prems st'(2) by auto
  then show ?case by (auto simp: step)
qed simp

text \<open>
  C11: With a working filter the cleanup removes exactly the orphans: the rows of the directory that
  discovery did not list and that are gone from disk or that the current policy no longer wants.  It
  returns their number, leaves consistent tables, and never touches a listed file or a file outside
  the directory.
\<close>

theorem cleanup_removes_orphans:
  assumes "db_ok (co_db co)" "transaction (co_db co) = None" "like_operator (ce_like env)" "paths_known env on_disk (co_db co)"
    and "map_result (ce_rel env) files = Inr current" "ce_rel env directory = Inr d"
    and "build_cleanup_path_filter config incs excs = (\<lparr>fs_include_patterns = Some includes, fs_index_unknown_files = unknown\<rparr>, scope)"
    and "ce_build env scope = Inr (\<lambda>p b. Inr (matches p b))"
    and "\<forall>p\<in>fr_path ` set (t_files (db_tables (co_db co))). e_rel (ce_event env p) = Inr (as_posix (e_path (ce_event env p)))"
  defines "orphan \<equiv> \<lambda>p. in_directory d p \<and> p \<notin> set current \<and>
    (on_disk p \<longrightarrow> \<not> wanted (ce_scss env) unknown (normalize_include_patterns includes) matches (e_path (ce_event env p)))"
  shows "\<exists>co'. cleanup_orphaned_files env config co directory files incs excs
      = (co', Inr (length (filter (\<lambda>r. orphan (fr_path r)) (t_files (db_tables (co_db co))))))
    \<and> t_files (db_tables (co_db co')) = filter (\<lambda>r. \<not> orphan (fr_path r)) (t_files (db_tables (co_db co)))
    \<and> db_ok (co_db co') \<and> transaction (co_db co') = None"
proof -
  let ?ps = "filter (in_directory d) (map fr_path (t_files (db_tables (co_db co))))"
  have ps: "\<forall>p\<in>set ?ps. ce_exists env p = Inr (on_disk p) \<and> e_rel (ce_event env p) = Inr (as_posix (e_path (ce_event env p)))"
    using assms(4,9) by (auto simp: paths_known_def)
  obtain os where os: "find_orphans env (build_cleanup_path_filter config incs excs) current initial_path_filter ?ps = Inr os"
    "fst ` set os = {p \<in> set ?ps. p \<notin> set current \<and> (on_disk p \<longrightarrow>
        \<not> wanted (ce_scss env) unknown (normalize_include_patterns includes) matches (e_path (ce_event env p)))}"
    using find_orphans_healthy [OF ps assms(7,8) filter_ready_initial, of current] by blast
  from os(2) have "fst ` set os = {p \<in> fr_path ` set (t_files (db_tables (co_db co))). orphan p}"
    by (auto simp: orphan_def)
  from cleanup_removes [OF assms(1-6) os(1) this] show ?thesis .
qed

text \<open>
  With a filter whose engine cannot be built, only rows of files that are gone are removed: nothing
  that is still on disk is lost.
\<close>

lemma find_orphans_degraded:
  assumes "\<forall>p\<in>set ps. ce_exists env p = Inr (on_disk p)" "ce_build env (snd s) = Inl e"
    and "st = initial_path_filter \<or> pf_engine_initialization_failed st"
  shows "\<exists>os. find_orphans env s current st ps = Inr os \<and> fst ` set os = {p \<in> set ps. p \<notin> set current \<and> \<not> on_disk p}"
  using assms(1,3)
proof (induction ps arbitrary: st)
  case (Cons p ps)
  obtain st1 where st1: "should_index (ce_scss env) (Some (fst s)) (ce_build env (snd s)) st (ce_event env p) = (False, st1)"
    "pf_engine_initialization_failed st1"
    using Cons.prems(2) assms(2) by (auto simp: should_index_def init_engine_def initial_path_filter_def)
  define st' where "st' = (if is_degraded st then st else st1)"
  have deg: "pf_engine_initialization_failed st'" using Cons.prems(2) st1(2) by (auto simp: st'_def is_degraded_def initial_path_filter_def)
  have "is_degraded st1" using st1(2) by (simp add: is_degraded_def)
  then have step: "classify_cleanup_candidate env s current st p
      = (if p \<in> set current then Inr (None, st) else if \<not> on_disk p then Inr (Some Missing_on_disk, st)
         else Inr (Some Degraded_filter_skipped, st'))"
    using Cons.prems(1) st1(1) by (simp add: classify_cleanup_candidate_def st'_def)
  obtain os os' where "find_orphans env s current st ps = Inr os" "find_orphans env s current st' ps = Inr os'"
    "\<forall>x\<in>{os, os'}. fst ` set x = {p \<in> set ps. p \<notin> set current \<and> \<not> on_disk p}"
    using Cons.IH [of st] Cons.IH [of st'] Cons.prems deg by auto
  then show ?case by (auto simp: step)
qed simp

theorem cleanup_keeps_files_on_disk:
  assumes "db_ok (co_db co)" "transaction (co_db co) = None" "like_operator (ce_like env)" "paths_known env on_disk (co_db co)"
    and "map_result (ce_rel env) files = Inr current" "ce_rel env directory = Inr d"
    and "ce_build env (snd (build_cleanup_path_filter config incs excs)) = Inl e"
  shows "\<exists>co' n. cleanup_orphaned_files env config co directory files incs excs = (co', Inr n)
    \<and> t_files (db_tables (co_db co')) = filter (\<lambda>r. \<not> (in_directory d (fr_path r) \<and> fr_path r \<notin> set current \<and> \<not> on_disk (fr_path r)))
        (t_files (db_tables (co_db co)))"
proof -
  let ?ps = "filter (in_directory d) (map fr_path (t_files (db_tables (co_db co))))"
  have ps: "\<forall>p\<in>set ?ps. ce_exists env p = Inr (on_disk p)" using assms(4) by (auto simp: paths_known_def)
  obtain os where os: "find_orphans env (build_cleanup_path_filter config incs excs) current initial_path_filter ?ps = Inr os"
    "fst ` set os = {p \<in> set ?ps. p \<notin> set current \<and> \<not> on_disk p}"
    using find_orphans_degraded [OF ps assms(7), of initial_path_filter current] by blast
  have "fst ` set os = {p \<in> fr_path ` set (t_files (db_tables (co_db co))). in_directory d p \<and> p \<notin> set current \<and> \<not> on_disk p}"
    unfolding os(2) by auto
  from cleanup_removes [OF assms(1-6) os(1) this] show ?thesis by blast
qed

definition sample_cleanup :: cleanup_env where
  "sample_cleanup = \<lparr>ce_rel = Inr, ce_like = sql_like, ce_exists = (\<lambda>_. Inr True),
     ce_event = (\<lambda>p. \<lparr>e_path = [p], e_rel = Inr p\<rparr>), ce_build = (\<lambda>_. Inr (\<lambda>p _. Inr (p = [''b.py'']))), ce_lookup = Inr,
     ce_lock_key = (\<lambda>p. if starts_with p ''/'' then p else ''/cwd/'' @ p), ce_scss = True\<rparr>"

lemma cleanup_removes_orphans_witness:
  "\<exists>co'. cleanup_orphaned_files sample_cleanup None \<lparr>co_db = small_db, co_locks = {}\<rparr> ''.'' [''a.py''] (Some [''*.py'']) None = (co', Inr 1)
     \<and> map fr_path (t_files (db_tables (co_db co'))) = [''a.py'']"
proof -
  let ?co = "\<lparr>co_db = small_db, co_locks = {}\<rparr>" and ?m = "\<lambda>p (b::bool). p = [''b.py'']"
  let ?orphan = "\<lambda>p. in_directory ''.'' p \<and> p \<notin> set [''a.py''] \<and>
    (True \<longrightarrow> \<not> wanted (ce_scss sample_cleanup) False (normalize_include_patterns [''*.py'']) ?m (e_path (ce_event sample_cleanup p)))"
  have "filter (\<lambda>r. ?orphan (fr_path r)) (t_files (db_tables small_db)) = [t_files (db_tables small_db) ! 1]"
    "filter (\<lambda>r. \<not> ?orphan (fr_path r)) (t_files (db_tables small_db)) = [t_files (db_tables small_db) ! 0]"
    by (simp_all add: small_db_def in_directory_def wanted_def sample_cleanup_def)
  moreover have "as_posix [p] = p" for p by (simp add: as_posix_def)
  then have "\<exists>co'. cleanup_orphaned_files sample_cleanup None ?co ''.'' [''a.py''] (Some [''*.py'']) None
      = (co', Inr (length (filter (\<lambda>r. ?orphan (fr_path r)) (t_files (db_tables (co_db ?co))))))
    \<and> t_files (db_tables (co_db co')) = filter (\<lambda>r. \<not> ?orphan (fr_path r)) (t_files (db_tables (co_db ?co)))
    \<and> db_ok (co_db co') \<and> transaction (co_db co') = None"
    using small_db_ok sql.like_operator_axioms
    by (intro cleanup_removes_orphans [where scope = "snd (build_cleanup_path_filter None (Some [''*.py'']) None)"])
      (auto simp: sample_cleanup_def paths_known_def build_cleanup_path_filter_def settings_from_config_def small_db_def)
  ultimately show ?thesis by (auto simp: small_db_def)
qed

text \<open>
  The lock of a removed file is looked up under the key of its relative path, which is not the key
  under which the file was locked when the process runs outside the base directory.
\<close>

lemma cleanup_leaves_lock:
  "co_locks (fst (cleanup_orphaned_files sample_cleanup None \<lparr>co_db = small_db, co_locks = {''/base/b.py''}\<rparr> ''.'' [''a.py'']
     (Some [''*.py'']) None)) = {''/base/b.py''}"
  by code_simp

end
