(* ===== verification/Change_Scan.thy ===== *)
theory Change_Scan
  imports Indexing Batch_Processor Guarded_Delete
begin

text \<open>
  The scan for changed files in \<open>process_directory\<close> of \<open>services/indexing_coordinator.py\<close>: which of
  the discovered files have to be parsed again, judged by size, modification time and content hash
  against the rows of the file table.

  Arguments are the relative path of a file, its size and time, its hash
  (\<open>utils/hashing.py\<close> over xxHash), and the time that reading back a stored timestamp gives.  The
  counters of the debug summary and the table of hashes that nothing reads are left out.
\<close>

text \<open>\<open>compute_file_hash\<close>: the digest, an \<open>OSError\<close>, or the \<open>ValueError\<close> for what is not a file.\<close>

datatype hash_answer = Digest string | Os_error | Not_a_file

record scan_env =
  se_rel :: "string \<Rightarrow> string result"
  se_stat :: "string \<Rightarrow> string + int \<times> rat"
  se_hash :: "string \<Rightarrow> hash_answer"
  se_readback :: "rat \<Rightarrow> rat"
  se_mtime_eps :: rat

definition compute_hash_with_fallback :: "scan_env \<Rightarrow> string \<Rightarrow> string option result" where
  "compute_hash_with_fallback env f =
     (case se_hash env f of Digest h \<Rightarrow> Inr (Some h) | Os_error \<Rightarrow> Inr None | Not_a_file \<Rightarrow> Inl ValueError)"

text \<open>\<open>float(getattr(indexing, "mtime_epsilon_seconds", 0.01) or 0.01)\<close>.\<close>

definition mtime_epsilon :: "rat option \<Rightarrow> rat" where
  "mtime_epsilon setting =
     (case setting of None \<Rightarrow> fl (1 / 100) | Some q \<Rightarrow> if q = 0 then fl (1 / 100) else q)"

text \<open>\<open>_cfg_or(indexing_cfg, "mtime_epsilon_seconds", 0.01, float)\<close> of \<open>pipeline_bridge.py\<close>.\<close>

definition native_mtime_epsilon :: "rat option \<Rightarrow> rat" where
  "native_mtime_epsilon setting = (case setting of None \<Rightarrow> fl (1 / 100) | Some q \<Rightarrow> q)"

type_synonym file_meta = "int option \<times> rat option \<times> string option"

definition row_meta :: "scan_env \<Rightarrow> file_row \<Rightarrow> file_meta" where
  "row_meta env r = (Some (fr_size r), Some (se_readback env (fr_mtime r)), fr_content_hash r)"

fun build_meta_map :: "scan_env \<Rightarrow> (string, file_meta) pydict \<Rightarrow> file_row list \<Rightarrow> (string, file_meta) pydict" where
  "build_meta_map env d [] = d"
| "build_meta_map env d (r # rs) =
     (if fr_path r = [] then build_meta_map env d rs else build_meta_map env (dict_set (fr_path r) (row_meta env r) d) rs)"

definition db_tuple :: "scan_env \<Rightarrow> database \<Rightarrow> (string, file_meta) pydict \<Rightarrow> string \<Rightarrow> file_meta option" where
  "db_tuple env db db_meta_map rel =
     (case dict_get db_meta_map rel of
        Some t \<Rightarrow> Some t
      | None \<Rightarrow> map_option (row_meta env) (get_file_by_path db rel))"

datatype scan_decision = Unchanged | Process "string option"

definition same_metadata :: "scan_env \<Rightarrow> file_meta \<Rightarrow> int \<times> rat \<Rightarrow> bool" where
  "same_metadata env = (\<lambda>(db_size, stored_mtime, db_hash) (st_size, st_mtime).
     (case db_size of None \<Rightarrow> -1 | Some n \<Rightarrow> n) = st_size
     \<and> \<bar>fl ((case stored_mtime of None \<Rightarrow> -1 | Some t \<Rightarrow> t) - st_mtime)\<bar> \<le> se_mtime_eps env)"

definition same_content :: "file_meta \<Rightarrow> string option \<Rightarrow> bool" where
  "same_content meta cur_hash \<longleftrightarrow> truthy_str (snd (snd meta)) \<and> truthy_str cur_hash \<and> snd (snd meta) = cur_hash"

definition scan_file :: "scan_env \<Rightarrow> database \<Rightarrow> (string, file_meta) pydict \<Rightarrow> string \<Rightarrow> scan_decision" where
  "scan_file env db db_meta_map f =
     (case se_rel env f of
        Inl e \<Rightarrow> Process None
      | Inr rel \<Rightarrow>
          (case se_stat env f of
             Inl e \<Rightarrow> Process None
           | Inr st \<Rightarrow>
               (case db_tuple env db db_meta_map rel of
                  Some meta \<Rightarrow>
                    if same_metadata env meta st then Unchanged
                    else (case compute_hash_with_fallback env f of
                            Inl e \<Rightarrow> Process None
                          | Inr cur_hash \<Rightarrow> if same_content meta cur_hash then Unchanged else Process cur_hash)
                | None \<Rightarrow>
                    (case compute_hash_with_fallback env f of Inl e \<Rightarrow> Process None | Inr cur_hash \<Rightarrow> Process cur_hash))))"

fun scan_loop :: "scan_env \<Rightarrow> database \<Rightarrow> (string, file_meta) pydict \<Rightarrow> string list \<Rightarrow> (string \<times> string option) list \<times> nat" where
  "scan_loop env db m [] = ([], 0)"
| "scan_loop env db m (f # fs) =
     (let (rest, skipped) = scan_loop env db m fs
      in case scan_file env db m f of
           Unchanged \<Rightarrow> (rest, Suc skipped)
         | Process h \<Rightarrow> ((f, h) # rest, skipped))"

definition change_scan :: "scan_env \<Rightarrow> database \<Rightarrow> string list \<Rightarrow> (string \<times> string option) list \<times> nat" where
  "change_scan env db files = scan_loop env db (build_meta_map env [] (t_files (db_tables db))) files"

subsection \<open>What is skipped\<close>

lemma build_meta_map_get:
  assumes "distinct (map fr_path rs)"
  shows "dict_get (build_meta_map env d rs) p
    = (case find (\<lambda>r. fr_path r = p) rs of Some r \<Rightarrow> if p = [] then dict_get d p else Some (row_meta env r) | None \<Rightarrow> dict_get d p)"
  using assms
proof (induction rs arbitrary: d)
  case (Cons r rs)
  show ?case
  proof (cases "fr_path r = p")
    case True
    then have "p \<notin> fr_path ` set rs" using Cons.prems by simp
    then have "find (\<lambda>r. fr_path r = p) rs = None" by (auto simp: find_None_iff)
    with True Cons show ?thesis by auto
  qed (use Cons in \<open>simp split: option.split\<close>)
qed simp

definition meta_of :: "scan_env \<Rightarrow> database \<Rightarrow> string \<Rightarrow> file_meta option" where
  "meta_of env db rel = map_option (row_meta env) (get_file_by_path db rel)"

lemma db_tuple_eq:
  assumes "db_ok db"
  shows "db_tuple env db (build_meta_map env [] (t_files (db_tables db))) rel = meta_of env db rel"
  using build_meta_map_get [of "t_files (db_tables db)" env "[]" rel] db_ok_tables [OF assms]
  by (auto simp: tables_ok_def meta_of_def get_file_by_path_def db_tuple_def split: option.splits)

definition up_to_date :: "scan_env \<Rightarrow> database \<Rightarrow> string \<Rightarrow> bool" where
  "up_to_date env db f \<longleftrightarrow>
     (\<exists>rel st meta. se_rel env f = Inr rel \<and> se_stat env f = Inr st \<and> meta_of env db rel = Some meta
       \<and> (same_metadata env meta st \<or> (\<exists>h. compute_hash_with_fallback env f = Inr h \<and> same_content meta h)))"

lemma scan_file_unchanged:
  assumes "db_ok db"
  shows "scan_file env db (build_meta_map env [] (t_files (db_tables db))) f = Unchanged \<longleftrightarrow> up_to_date env db f"
  by (auto simp: scan_file_def up_to_date_def db_tuple_eq [OF assms] split: sum.splits option.splits)

lemma scan_loop_eq:
  "scan_loop env db m fs =
     (map (\<lambda>f. (f, case scan_file env db m f of Process h \<Rightarrow> h | Unchanged \<Rightarrow> None)) (filter (\<lambda>f. scan_file env db m f \<noteq> Unchanged) fs),
      length (filter (\<lambda>f. scan_file env db m f = Unchanged) fs))"
  by (induction fs) (auto split: scan_decision.splits)


lemma change_scan_files:
  assumes "db_ok db"
  shows "map fst (fst (change_scan env db files)) = filter (\<lambda>f. \<not> up_to_date env db f) files"
    and "snd (change_scan env db files) = length (filter (up_to_date env db) files)"
  using scan_file_unchanged [OF assms] by (simp_all add: change_scan_def scan_loop_eq comp_def)

text \<open>An explicit tolerance of zero is honoured by the native pipeline only.\<close>

lemma zero_epsilon_differs: "mtime_epsilon (Some 0) \<noteq> native_mtime_epsilon (Some 0)"
  by code_simp

text \<open>
  Parsing a changed file without its hash, as forced reindexing and the realtime service do, leaves
  the hash of the old content in the row.  When the old content comes back, the scan takes the file
  for unchanged although the stored chunks are those of the other content.
\<close>

definition scan_of :: "string \<Rightarrow> rat \<Rightarrow> scan_env" where
  "scan_of digest mtime = \<lparr>se_rel = Inr, se_stat = (\<lambda>_. Inr (1, mtime)), se_hash = (\<lambda>_. Digest digest),
     se_readback = (\<lambda>t. t), se_mtime_eps = mtime_epsilon None\<rparr>"

definition content_a :: parsed_file_result where
  "content_a = sample_result\<lparr>pf_file_mtime := 1, pf_content_hash := Some ''hash-a''\<rparr>"

definition content_b :: parsed_file_result where
  "content_b = sample_result\<lparr>pf_file_mtime := 2, pf_content_hash := None,
     pf_chunks := [chunk_to_dict str_int (sample_chunk\<lparr>c_code := ''b''\<rparr>)]\<rparr>"

lemma stale_hash_hides_change:
  "map_option (\<lambda>(db, st). (map r_code (t_chunks (db_tables db)), change_scan (scan_of ''hash-a'' 3) db [''a.py'']))
     (store_parsed_results sample_env False (fst (the (store_parsed_results sample_env False empty_database [content_a]))) [content_b])
   = Some ([''b''], [], 1)"
  by code_simp

text \<open>
  A file that is skipped while being parsed keeps the chunks of its last successful parsing, and the
  next scan takes it for unchanged.
\<close>

lemma skipped_file_keeps_old_chunks:
  "map_option (\<lambda>(db, st). (length (t_chunks (db_tables db)), change_scan (scan_of ''hash-b'' 2) db [''a.py'']))
     (store_parsed_results sample_env False (fst (the (store_parsed_results sample_env False empty_database [content_a])))
       [content_b\<lparr>pf_status := ''skipped'', pf_error := Some ''timeout''\<rparr>])
   = Some (1, [], 1)"
  by code_simp

text \<open>
  Most skipped files are recorded without their hash, so that touching them is enough to have them
  processed again.
\<close>

lemma touched_skipped_file_processed_again:
  "pf_status (process_one env cfg (p, h)) = ''skipped'' \<Longrightarrow> pf_error (process_one env cfg (p, h)) \<noteq> Some ''timeout'' \<Longrightarrow>
     pf_content_hash (process_one env cfg (p, h)) = None"
proof -
  have "pf_status (process_known env cfg p h st l) = ''skipped'' \<longrightarrow> pf_error (process_known env cfg p h st l) \<noteq> Some ''timeout'' \<longrightarrow>
      pf_content_hash (process_known env cfg p h st l) = None" for st l
    by (simp add: process_known_def file_result_def split: sum.split option.split child_answer.split)
  then show "pf_status (process_one env cfg (p, h)) = ''skipped'' \<Longrightarrow> pf_error (process_one env cfg (p, h)) \<noteq> Some ''timeout'' \<Longrightarrow>
      pf_content_hash (process_one env cfg (p, h)) = None"
    by (cases "we_stat env p"; cases "we_sample env p")
      (auto simp: process_one_def file_result_def Let_def split: if_splits)
qed


end
