(* ===== verification/Directory_Run.thy ===== *)
theory Directory_Run
  imports Change_Scan Cleanup Embedding_Service
begin

text \<open>
  Indexing one file and one directory: \<open>process_file\<close>, \<open>process_directory\<close>, the disk usage limit and
  the choice of the pipeline in \<open>services/indexing_coordinator.py\<close>, composed of the cleanup, the
  change scan, the worker processes and the storing.

  Arguments are the discovery, the check of the indexed root, the size of the database on disk, and
  the run of the native pipeline with the results it reports.  Profiling, progress and log messages
  are left out; so are the locks of \<open>process_file\<close>, since one file is processed at a time, except for
  the table that holds them.  A store that does not return would be \<^const>\<open>None\<close>.
\<close>

subsection \<open>The disk usage limit\<close>

text \<open>The database on disk: a directory with the sizes of its files, a file, nothing, or unreadable.\<close>

datatype db_on_disk = Db_dir "int list result" | Db_file int | Db_missing | Db_unreadable

definition calculate_directory_size_mb :: "int list result \<Rightarrow> rat" where
  "calculate_directory_size_mb sizes = (case sizes of Inl e \<Rightarrow> 0 | Inr ns \<Rightarrow> py_truediv (sum_list ns) (1024 ^ 2))"

definition check_disk_usage_limit :: "rat option \<Rightarrow> db_on_disk \<Rightarrow> (rat \<times> rat) option" where
  "check_disk_usage_limit max_disk_usage_mb disk =
     (case max_disk_usage_mb of
        None \<Rightarrow> None
      | Some limit \<Rightarrow>
          (let test = (\<lambda>size_mb. if size_mb \<ge> limit then Some (size_mb, limit) else None)
           in case disk of
                Db_unreadable \<Rightarrow> None
              | Db_dir sizes \<Rightarrow> test (calculate_directory_size_mb sizes)
              | Db_file n \<Rightarrow> test (py_truediv n (1024 ^ 2))
              | Db_missing \<Rightarrow> test 0))"

subsection \<open>Configuration and environment\<close>

record run_config =
  rc_policy :: "indexing_policy option"
  rc_settings :: index_settings
  rc_cleanup :: bool
  rc_force_reindex :: bool
  rc_mtime_eps :: "rat option"
  rc_disk_limit_mb :: "rat option"

record run_env =
  re_index :: index_env
  re_worker :: worker_env
  re_cleanup :: cleanup_env
  re_hash :: "string \<Rightarrow> hash_answer"
  re_readback :: "rat \<Rightarrow> rat"
  re_disk :: "database \<Rightarrow> db_on_disk"
  re_cpus :: "int option"
  re_completed :: "nat \<Rightarrow> nat list"
  re_ensure_root :: "unit result"

definition scan_env_of :: "run_env \<Rightarrow> run_config \<Rightarrow> scan_env" where
  "scan_env_of env cfg = \<lparr>se_rel = env_rel (re_index env), se_stat = we_stat (re_worker env), se_hash = re_hash env,
     se_readback = re_readback env, se_mtime_eps = mtime_epsilon (rc_mtime_eps cfg)\<rparr>"

definition disk_limit_hit :: "run_env \<Rightarrow> run_config \<Rightarrow> database \<Rightarrow> (rat \<times> rat) option" where
  "disk_limit_hit env cfg db = check_disk_usage_limit (rc_disk_limit_mb cfg) (re_disk env db)"

subsection \<open>Which pipeline\<close>

text \<open>The database provider: whether it supports the native pipeline, and its path if it has one.\<close>

definition resolve_rust_pipeline_decision :: "bool \<Rightarrow> bool \<Rightarrow> string option \<Rightarrow> bool" where
  "resolve_rust_pipeline_decision use_rust supports_rust_pipeline db_path \<longleftrightarrow>
     use_rust \<and> supports_rust_pipeline \<and> (case db_path of None \<Rightarrow> False | Some p \<Rightarrow> path_name p = ''chunks.db'')"

subsection \<open>One batch of parsed files\<close>

record run_totals =
  rt_db :: database
  rt_files :: int
  rt_chunks :: int
  rt_errors :: "(string \<times> store_error) list"
  rt_skipped :: nat
  rt_timeouts :: "string list"
  rt_skipped_paths :: "(string \<times> string option) list"

definition start_totals :: "database \<Rightarrow> run_totals" where
  "start_totals db = \<lparr>rt_db = db, rt_files = 0, rt_chunks = 0, rt_errors = [], rt_skipped = 0, rt_timeouts = [], rt_skipped_paths = []\<rparr>"

definition timed_out :: "parsed_file_result \<Rightarrow> bool" where
  "timed_out r \<longleftrightarrow> py_lower (case pf_error r of Some e \<Rightarrow> e | None \<Rightarrow> []) = ''timeout''"

definition on_batch_store :: "run_env \<Rightarrow> run_config \<Rightarrow> run_totals \<Rightarrow> parsed_file_result list \<Rightarrow> run_totals option" where
  "on_batch_store env cfg t batch =
     (let skipped = filter (\<lambda>r. pf_status r = ''skipped'') batch
      in case store_parsed_results (re_index env) (disk_limit_hit env cfg (rt_db t) \<noteq> None) (rt_db t) batch of
           None \<Rightarrow> None
         | Some (db', st) \<Rightarrow>
             Some \<lparr>rt_db = db', rt_files = rt_files t + total_files st, rt_chunks = rt_chunks t + total_chunks st,
               rt_errors = rt_errors t @ errors st, rt_skipped = rt_skipped t + length skipped,
               rt_timeouts = rt_timeouts t @ map pf_file_path (filter timed_out skipped),
               rt_skipped_paths = rt_skipped_paths t @ skipped_paths st\<rparr>)"

text \<open>As a batch handler; the state is \<^const>\<open>None\<close> after a store that does not return.\<close>

definition store_handler :: "run_env \<Rightarrow> run_config \<Rightarrow> run_totals option batch_handler" where
  "store_handler env cfg = (\<lambda>s batch. (case s of None \<Rightarrow> None | Some t \<Rightarrow> on_batch_store env cfg t batch, None))"

subsection \<open>One directory\<close>

record run_stats =
  rs_files_processed :: int
  rs_total_chunks :: int
  rs_embeddings :: int
  rs_errors :: nat
  rs_skipped :: int
  rs_timeouts :: "string list"
  rs_skipped_unchanged :: int
  rs_skipped_filtered :: int

datatype run_answer =
    No_files
  | Disk_limit_exceeded
  | Run_failed
  | Native_failed
  | Run_success run_stats

record native_result =
  nr_db :: database
  nr_files :: int
  nr_chunks :: int
  nr_embeddings :: int
  nr_errors :: "(string \<times> store_error) list"
  nr_skipped_paths :: "(string \<times> string option) list"

datatype native_answer = Native_ok native_result | Native_error database | Native_disk_limit database | Other_error database

definition is_parse_timeout :: "string \<times> store_error \<Rightarrow> bool" where
  "is_parse_timeout = (\<lambda>(p, e). case e of ParseError (Some t) \<Rightarrow> timed_out_text t | _ \<Rightarrow> False)"

definition success_answer ::
  "int \<Rightarrow> int \<Rightarrow> int \<Rightarrow> (string \<times> store_error) list \<Rightarrow> nat \<Rightarrow> string list \<Rightarrow> int \<Rightarrow> run_answer" where
  "success_answer n_files n_chunks embeddings agg_errors skipped_total timeouts skipped_unchanged =
     (if DiskLimit \<in> snd ` set agg_errors then Disk_limit_exceeded
      else Run_success \<lparr>rs_files_processed = n_files, rs_total_chunks = n_chunks, rs_embeddings = embeddings,
        rs_errors = length agg_errors, rs_skipped = int skipped_total + skipped_unchanged, rs_timeouts = timeouts,
        rs_skipped_unchanged = skipped_unchanged,
        rs_skipped_filtered = max 0 (int skipped_total - int (length timeouts))\<rparr>)"

definition native_run :: "native_answer \<Rightarrow> coordinator \<Rightarrow> string list \<Rightarrow> coordinator \<times> run_answer" where
  "native_run native co files =
     (case native of
        Native_error db \<Rightarrow> (co\<lparr>co_db := db\<rparr>, Native_failed)
      | Native_disk_limit db \<Rightarrow> (co\<lparr>co_db := db\<rparr>, Disk_limit_exceeded)
      | Other_error db \<Rightarrow> (co\<lparr>co_db := db\<rparr>, Run_failed)
      | Native_ok nr \<Rightarrow>
          (let timeouts = map fst (filter is_parse_timeout (nr_errors nr));
               agg_errors = filter (\<lambda>e. \<not> is_parse_timeout e) (nr_errors nr)
           in (co\<lparr>co_db := nr_db nr\<rparr>,
               success_answer (nr_files nr) (nr_chunks nr) (nr_embeddings nr) agg_errors
                 (length timeouts + length (nr_skipped_paths nr)) timeouts (int (length files) - nr_files nr))))"

definition python_run ::
  "run_env \<Rightarrow> run_config \<Rightarrow> int \<Rightarrow> coordinator \<Rightarrow> file_item list \<Rightarrow> nat \<Rightarrow> (coordinator \<times> run_answer) option" where
  "python_run env cfg threshold_kb co files_to_process skipped_unchanged =
     (case process_files_in_batches (re_worker env) (rc_settings cfg) (re_cpus env) (re_completed env) threshold_kb
             (Some (store_handler env cfg)) (Some (start_totals (co_db co))) files_to_process of
        (None, _) \<Rightarrow> None
      | (Some t, Inl e) \<Rightarrow> Some (co\<lparr>co_db := rt_db t\<rparr>, Run_failed)
      | (Some t, Inr _) \<Rightarrow>
          Some (co\<lparr>co_db := rt_db t\<rparr>,
            success_answer (rt_files t) (rt_chunks t) 0 (rt_errors t) (rt_skipped t) (rt_timeouts t) (int skipped_unchanged)))"

text \<open>The files to process and the number skipped: all of them for a native or forced run.\<close>

definition select_files :: "run_env \<Rightarrow> run_config \<Rightarrow> bool \<Rightarrow> database \<Rightarrow> string list \<Rightarrow> file_item list \<times> nat" where
  "select_files env cfg use_rust db files =
     (if use_rust then (map (\<lambda>p. Hashed p None) files, 0)
      else if rc_force_reindex cfg then (map Bare files, 0)
      else let (changed, skipped_unchanged) = change_scan (scan_env_of env cfg) db files
           in (map (\<lambda>(p, h). Hashed p h) changed, skipped_unchanged))"

definition process_directory ::
  "run_env \<Rightarrow> run_config \<Rightarrow> bool \<Rightarrow> (database \<Rightarrow> native_answer) \<Rightarrow> string list result \<Rightarrow> coordinator \<Rightarrow> string \<Rightarrow>
     string list option \<Rightarrow> string list option \<Rightarrow> int \<Rightarrow> (coordinator \<times> run_answer) result option" where
  "process_directory env cfg use_rust native discovered co directory patterns exclude_patterns threshold_kb =
     (case re_ensure_root env of
        Inl e \<Rightarrow> Some (Inl e)
      | Inr _ \<Rightarrow>
         map_option Inr
          (case discovered of
             Inl e \<Rightarrow> Some (co, Run_failed)
           | Inr files \<Rightarrow>
               if files = [] \<and> \<not> use_rust then Some (co, No_files)
               else
                 (case (if rc_cleanup cfg \<and> \<not> use_rust
                        then cleanup_orphaned_files (re_cleanup env) (rc_policy cfg) co directory files patterns exclude_patterns
                        else (co, Inr 0)) of
                    (co1, Inl e) \<Rightarrow> Some (co1, Run_failed)
                  | (co1, Inr cleaned_files) \<Rightarrow>
                      (let (files_to_process, skipped_unchanged) = select_files env cfg use_rust (co_db co1) files
                       in if disk_limit_hit env cfg (co_db co1) \<noteq> None then Some (co1, Disk_limit_exceeded)
                          else if use_rust then Some (native_run (native (co_db co1)) co1 files)
                          else python_run env cfg threshold_kb co1 files_to_process skipped_unchanged))))"

subsection \<open>One file\<close>

text \<open>The entries of a chunk dictionary that the embedding text is made of.\<close>

definition str_entry :: "ddict \<Rightarrow> string \<Rightarrow> string option" where
  "str_entry d k = (case dict_get d k of Some (Py (PyStr s)) \<Rightarrow> Some s | _ \<Rightarrow> None)"

fun pending_constant :: "pyval \<Rightarrow> string \<times> string" where
  "pending_constant (PyDict c) =
     (case map_of c ''name'' of Some (PyStr n) \<Rightarrow> n | _ \<Rightarrow> [], case map_of c ''value'' of Some (PyStr v) \<Rightarrow> v | _ \<Rightarrow> [])"
| "pending_constant _ = ([], [])"

definition pending_of :: "ddict \<Rightarrow> pending_chunk" where
  "pending_of d =
     (let metadata = (case dict_get d ''metadata'' of Some (Py (PyDict md)) \<Rightarrow> md | _ \<Rightarrow> [])
      in \<lparr>pc_code = (case str_entry d ''code'' of Some s \<Rightarrow> s | None \<Rightarrow> []), pc_file_path = str_entry d ''file_path'',
          pc_language = str_entry d ''language'',
          pc_constants = (case map_of metadata ''constants'' of Some (PyList cs) \<Rightarrow> Some (map pending_constant cs) | _ \<Rightarrow> None),
          pc_rule_target = (case map_of metadata ''rule_target'' of Some (PyStr t) \<Rightarrow> Some t | _ \<Rightarrow> None)\<rparr>)"

datatype embedding_error = Too_few nat nat | Embedding_raised pyerror

record file_report =
  fp_success :: bool
  fp_chunks :: int
  fp_errors :: "(string \<times> store_error) list"
  fp_embeddings_skipped :: bool
  fp_embeddings_generated :: nat
  fp_embedding_error :: "embedding_error option"
  fp_file_id :: "int option"

datatype file_answer = No_results | Parse_failed "string option" | File_skipped "string option" | File_report file_report

definition embed_file ::
  "'v emb_env option \<Rightarrow> bool \<Rightarrow> int list \<Rightarrow> ddict list \<Rightarrow> nat \<times> embedding_error option" where
  "embed_file provider skip_embeddings ids chunks =
     (case provider of
        None \<Rightarrow> (0, None)
      | Some env \<Rightarrow>
          if skip_embeddings \<or> ids = [] then (0, None)
          else case coordinator_generate_embeddings env ids (map pending_of chunks) of
                 Inl e \<Rightarrow> (0, Some (Embedding_raised e))
               | Inr generated \<Rightarrow> (generated, if generated < length ids then Some (Too_few generated (length ids)) else None))"

definition process_file ::
  "run_env \<Rightarrow> run_config \<Rightarrow> 'v emb_env option \<Rightarrow> bool \<Rightarrow> coordinator \<Rightarrow> string \<Rightarrow> bool \<Rightarrow> (coordinator \<times> file_answer result) option" where
  "process_file env cfg provider root_validated co file_path skip_embeddings =
     (let co1 = co\<lparr>co_locks := insert (ce_lock_key (re_cleanup env) file_path) (co_locks co)\<rparr>
      in case (if root_validated then Inr () else re_ensure_root env) of
           Inl e \<Rightarrow> Some (co1, Inl e)
         | Inr _ \<Rightarrow>
             (case snd (process_files_in_batches (re_worker env) (rc_settings cfg) (re_cpus env) (re_completed env) 20
                          (None :: unit batch_handler option) () [Hashed file_path None]) of
                Inl e \<Rightarrow> Some (co1, Inl e)
              | Inr [] \<Rightarrow> Some (co1, Inr No_results)
              | Inr (r # rs) \<Rightarrow>
                  if pf_status r = ''error'' then Some (co1, Inr (Parse_failed (pf_error r)))
                  else if pf_status r = ''skipped''
                  then Some (co1\<lparr>co_db := fst (store_skipped (re_index env) (co_db co1) empty_stats r)\<rparr>, Inr (File_skipped (pf_error r)))
                  else
                    (case store_parsed_results (re_index env) (disk_limit_hit env cfg (co_db co1) \<noteq> None) (co_db co1) [r] of
                       None \<Rightarrow> None
                     | Some (db', st) \<Rightarrow>
                         if DiskLimit \<in> snd ` set (errors st) then Some (co1\<lparr>co_db := db'\<rparr>, Inl RuntimeError)
                         else
                           (let (generated, problem) = embed_file provider skip_embeddings (chunk_ids_needing_embeddings st)
                                  (concat (map pf_chunks (r # rs)))
                            in Some (co1\<lparr>co_db := db'\<rparr>, Inr (File_report \<lparr>fp_success = (errors st = []), fp_chunks = total_chunks st,
                                 fp_errors = errors st, fp_embeddings_skipped = skip_embeddings, fp_embeddings_generated = generated,
                                 fp_embedding_error = problem, fp_file_id = stats_file_id st\<rparr>))))))"

subsection \<open>What a run records\<close>

text \<open>
  The size and time of a file by its relative path, and the rows that hold them; a step of the run
  either leaves a row as it is or makes it hold them.
\<close>

type_synonym file_facts = "string \<Rightarrow> int \<times> rat"

definition recorded :: "file_facts \<Rightarrow> database \<Rightarrow> string \<Rightarrow> bool" where
  "recorded facts db p \<longleftrightarrow> (\<exists>r. get_file_by_path db p = Some r \<and> (fr_size r, fr_mtime r) = facts p)"

definition only_records :: "file_facts \<Rightarrow> database \<Rightarrow> database \<Rightarrow> bool" where
  "only_records facts db db' \<longleftrightarrow> (\<forall>p. get_file_by_path db' p = get_file_by_path db p \<or> recorded facts db' p)"

lemma only_records_refl: "t_files (db_tables db') = t_files (db_tables db) \<Longrightarrow> only_records facts db db'"
  by (simp add: only_records_def get_file_by_path_def)

lemma only_records_trans [trans]: "only_records facts a b \<Longrightarrow> only_records facts b c \<Longrightarrow> only_records facts a c"
  unfolding only_records_def recorded_def by metis

lemma recorded_kept: "only_records facts db db' \<Longrightarrow> recorded facts db p \<Longrightarrow> recorded facts db' p"
  unfolding only_records_def recorded_def by metis

lemma recorded_same: "t_files (db_tables db') = t_files (db_tables db) \<Longrightarrow> recorded facts db' p = recorded facts db p"
  by (simp add: recorded_def get_file_by_path_def)

definition row_written :: "database \<Rightarrow> database \<Rightarrow> string \<Rightarrow> int \<times> rat \<Rightarrow> bool" where
  "row_written db db' rel st \<longleftrightarrow> (\<exists>r. get_file_by_path db' rel = Some r \<and> (fr_size r, fr_mtime r) = st)
     \<and> (\<forall>p. p \<noteq> rel \<longrightarrow> get_file_by_path db' p = get_file_by_path db p)"

lemma row_written_records: "row_written db db' rel (facts rel) \<Longrightarrow> only_records facts db db' \<and> recorded facts db' rel"
  unfolding row_written_def only_records_def recorded_def by metis

lemma find_map_path:
  "(\<And>r. fr_path (g r) = fr_path r) \<Longrightarrow> find (\<lambda>r. fr_path r = p) (map g rs) = map_option g (find (\<lambda>r. fr_path r = p) rs)"
  by (induction rs) simp_all

lemma find_append: "find P (xs @ ys) = (case find P xs of Some x \<Rightarrow> Some x | None \<Rightarrow> find P ys)"
  by (induction xs) simp_all

lemma found_path: "get_file_by_path db p = Some r \<Longrightarrow> fr_path r = p"
  by (auto simp: get_file_by_path_def find_Some_iff)

lemma update_file_written:
  assumes ok: "db_ok db" and r: "get_file_by_path db rel = Some r"
  shows "row_written db (update_file db (fr_id r) (Some sz) (Some mt) h) rel (sz, mt)"
proof -
  let ?g = "\<lambda>x. if fr_id x = fr_id r then x\<lparr>fr_size := sz, fr_mtime := mt,
      fr_content_hash := (case h of None \<Rightarrow> fr_content_hash x | Some h \<Rightarrow> Some h), fr_skip_reason := None\<rparr> else x"
  have get: "get_file_by_path (update_file db (fr_id r) (Some sz) (Some mt) h) p = map_option ?g (get_file_by_path db p)" for p
    using find_map_path [of ?g p "t_files (db_tables db)"] by (simp add: get_file_by_path_def update_file_def Let_def)
  have "?g x = x" if "get_file_by_path db p = Some x" "p \<noteq> rel" for p x
    using find_file [OF ok that(1)] find_file [OF ok r] that(2) db_ok_tables [OF ok]
    by (auto simp: tables_ok_def distinct_map dest: inj_onD)
  then have "map_option ?g (get_file_by_path db p) = get_file_by_path db p" if "p \<noteq> rel" for p
    using that by (cases "get_file_by_path db p") simp_all
  with r show ?thesis by (simp add: row_written_def get)
qed

lemma insert_file_written:
  assumes "get_file_by_path db (f_path f) = None" "insert_file db f = (db', i)"
  shows "row_written db db' (f_path f) (f_size_bytes f, f_mtime f)"
  using assms by (auto simp: row_written_def get_file_by_path_def insert_file_def Let_def find_append split: option.split)

lemma record_skipped_file_written:
  "row_written db (record_skipped_file db rel nm ext sz mt l h why) rel (sz, mt)"
proof (cases "rel \<in> fr_path ` set (t_files (db_tables db))")
  case True
  let ?g = "\<lambda>r. if fr_path r = rel then r\<lparr>fr_size := sz, fr_mtime := mt, fr_content_hash := h, fr_skip_reason := Some why\<rparr> else r"
  obtain r where r: "get_file_by_path db rel = Some r" "fr_path r = rel"
    using True by (cases "get_file_by_path db rel") (auto simp: get_file_by_path_def find_None_iff find_Some_iff)
  have get: "get_file_by_path (record_skipped_file db rel nm ext sz mt l h why) p = map_option ?g (get_file_by_path db p)" for p
    using find_map_path [of ?g p "t_files (db_tables db)"] True
    by (simp add: get_file_by_path_def record_skipped_file_def Let_def)
  have "map_option ?g (get_file_by_path db p) = get_file_by_path db p" if "p \<noteq> rel" for p
    using that by (cases "get_file_by_path db p") (auto dest: found_path)
  with r show ?thesis by (simp add: row_written_def get)
next
  case False
  then have "find (\<lambda>r. fr_path r = rel) (t_files (db_tables db)) = None" by (auto simp: find_None_iff)
  with False show ?thesis
    by (auto simp: row_written_def get_file_by_path_def record_skipped_file_def Let_def find_append split: option.split)
qed

lemma store_file_record_written:
  assumes ok: "db_ok db" and st: "store_file_record env db p sz mt l h = Inr (db1, i, ex)" and rel: "env_rel env p = Inr rel"
  shows "row_written db db1 rel (sz, mt)"
proof (cases "get_file_by_path db rel")
  case (Some r)
  with st rel update_file_written [OF ok Some] show ?thesis by (auto simp: store_file_record_def)
next
  case None
  then obtain f where f: "mk_file \<lparr>f_path = rel, f_mtime = mt, f_language = l, f_size_bytes = sz, f_id = None,
        f_content_hash = h, f_created_at = None, f_updated_at = None\<rparr> = Inr f"
      "(case insert_file db f of (db', i) \<Rightarrow> Inr (db', i, False)) = (Inr (db1, i, ex) :: (database \<times> int \<times> bool) result)"
    using st rel by (auto simp: store_file_record_def bind_result_eq_Inr_iff)
  have db1: "fst (insert_file db f) = db1" using f(2) by (cases "insert_file db f") simp
  have fields: "f_path f = rel" "f_size_bytes f = sz" "f_mtime f = mt" using f(1) by (auto simp: mk_file_def split: if_splits)
  with None have "get_file_by_path db (f_path f) = None" by simp
  from insert_file_written [OF this, of db1 "snd (insert_file db f)"] db1 fields show ?thesis by (auto simp: prod_eq_iff)
qed

lemma store_chunks_files: "store_chunks env db i ex ds = Some (db', res) \<Longrightarrow> t_files (db_tables db') = t_files (db_tables db)"
  by (auto simp: store_chunks_def insert_chunks_batch_def delete_chunks_batch_def delete_embeddings_for_chunk_ids_def Let_def
      split: sum.splits option.splits if_splits prod.splits)

lemma store_file_written:
  assumes ok: "db_ok db" and st: "store_file env db r = Some (db', fid, Inr ids)" and rel: "env_rel env (pf_file_path r) = Inr rel"
  shows "row_written db db' rel (pf_file_size r, pf_file_mtime r)"
proof -
  let ?db0 = "begin_transaction db"
  obtain db1 i ex db2 where x: "store_file_record env ?db0 (pf_file_path r) (pf_file_size r) (pf_file_mtime r) (pf_language r)
      (pf_content_hash r) = Inr (db1, i, ex)" "store_chunks env db1 i ex (pf_chunks r) = Some (db2, Inr ids)"
      "db' = commit_transaction db2"
    using st by (auto simp: store_file_def Let_def split: sum.splits option.splits prod.splits)
  from store_file_record_written [OF begin_ok [OF ok] x(1) rel] store_chunks_files [OF x(2)] x(3)
  show ?thesis by (simp add: row_written_def get_file_by_path_def begin_transaction_def commit_transaction_def)
qed

definition known_result :: "index_env \<Rightarrow> file_facts \<Rightarrow> parsed_file_result \<Rightarrow> bool" where
  "known_result env facts r \<longleftrightarrow> pf_status r = ''error''
     \<or> (\<exists>rel. env_rel env (pf_file_path r) = Inr rel \<and> facts rel = (pf_file_size r, pf_file_mtime r))"

definition recorded_result :: "index_env \<Rightarrow> file_facts \<Rightarrow> database \<Rightarrow> parsed_file_result \<Rightarrow> bool" where
  "recorded_result env facts db r \<longleftrightarrow> (\<exists>rel. env_rel env (pf_file_path r) = Inr rel \<and> recorded facts db rel)"

lemma recorded_result_kept: "only_records facts db db' \<Longrightarrow> recorded_result env facts db r \<Longrightarrow> recorded_result env facts db' r"
  unfolding recorded_result_def using recorded_kept by blast

lemma store_skipped_records:
  assumes "env_rel env (pf_file_path r) = Inr rel" "facts rel = (pf_file_size r, pf_file_mtime r)"
  shows "only_records facts db (fst (store_skipped env db st r)) \<and> recorded facts (fst (store_skipped env db st r)) rel"
    and "errors (snd (store_skipped env db st r)) = errors st"
proof -
  have "row_written db (fst (store_skipped env db st r)) rel (facts rel)"
    by (simp add: store_skipped_def Let_def assms record_skipped_file_written)
  then show "only_records facts db (fst (store_skipped env db st r)) \<and> recorded facts (fst (store_skipped env db st r)) rel"
    by (rule row_written_records)
  show "errors (snd (store_skipped env db st r)) = errors st" by (simp add: store_skipped_def Let_def assms)
qed

lemma store_results_records:
  assumes enum: "enum_ok (env_enum env)"
    and "store_results env db st ids rs = Some (db', st', ids')" "db_ok db" "transaction db = None"
    and "\<forall>r\<in>set rs. known_result env facts r" "errors st' = []"
  shows "errors st = [] \<and> only_records facts db db' \<and> (\<forall>r\<in>set rs. recorded_result env facts db' r)"
  using assms(2-6)
proof (induction rs arbitrary: db st ids)
  case (Cons r rs)
  note rest = Cons.IH [OF _ _ _ _ Cons.prems(5)]
  have known: "\<forall>r\<in>set rs. known_result env facts r" using Cons.prems(4) by simp
  show ?case
  proof (cases "pf_status r = ''error''")
    case True
    with Cons.prems(1) rest [OF _ Cons.prems(2,3) known] show ?thesis by fastforce
  next
    case False
    then obtain rel where rel: "env_rel env (pf_file_path r) = Inr rel" "facts rel = (pf_file_size r, pf_file_mtime r)"
      using Cons.prems(4) by (auto simp: known_result_def)
    have step: "errors st = [] \<and> only_records facts db db' \<and> (\<forall>r\<in>set (r # rs). recorded_result env facts db' r)"
      if "only_records facts db db1" "recorded facts db1 rel" "errors st = []" "only_records facts db1 db'"
        "\<forall>r\<in>set rs. recorded_result env facts db' r" for db1
      using that only_records_trans [OF that(1,4)] recorded_kept [OF that(4,2)] rel(1) by (auto simp: recorded_result_def)
    show ?thesis
    proof (cases "pf_status r = ''skipped''")
      case skipped: True
      obtain db1 st1 where s: "store_skipped env db st r = (db1, st1)" by fastforce
      have "db_ok db1" "transaction db1 = None" using store_skipped_ok [OF Cons.prems(2,3), of env st r] s by simp_all
      with rest [OF _ this known] Cons.prems(1) s skipped False
        store_skipped_records [where facts = facts and rel = rel and db = db and st = st, OF rel]
      show ?thesis by (intro step [of db1]) auto
    next
      case stored: False
      obtain db1 fid res where f: "store_file env db r = Some (db1, fid, res)" "db_ok db1" "transaction db1 = None"
        using store_file_correct [OF Cons.prems(2) enum, of r] by blast
      note next_step = rest [OF _ f(2,3) known]
      show ?thesis
      proof (cases res)
        case (Inl e)
        with next_step Cons.prems(1) f(1) False stored show ?thesis by fastforce
      next
        case (Inr new)
        have "only_records facts db db1 \<and> recorded facts db1 rel"
          using store_file_written [OF Cons.prems(2) f(1) [unfolded Inr] rel(1)] rel(2) by (intro row_written_records) simp
        with next_step Cons.prems(1) f(1) False stored Inr show ?thesis by (intro step [of db1]) fastforce+
      qed
    qed
  qed
qed (simp add: only_records_refl)

text \<open>The batches of one run; an error of any batch is an error of the run.\<close>

lemma on_batch_store_records:
  assumes enum: "enum_ok (env_enum (re_index env))" and ok: "db_ok (rt_db t)" "transaction (rt_db t) = None"
    and known: "\<forall>r\<in>set b. known_result (re_index env) facts r"
  shows "\<exists>t'. on_batch_store env cfg t b = Some t' \<and> db_ok (rt_db t') \<and> transaction (rt_db t') = None
    \<and> (rt_errors t' = [] \<longrightarrow> rt_errors t = [] \<and> only_records facts (rt_db t) (rt_db t')
        \<and> (\<forall>r\<in>set b. recorded_result (re_index env) facts (rt_db t') r))"
proof -
  obtain db' st where s: "store_parsed_results (re_index env) (disk_limit_hit env cfg (rt_db t) \<noteq> None) (rt_db t) b = Some (db', st)"
    "db_ok db'" "transaction db' = None"
    using store_parsed_results_correct [OF ok enum] by blast
  have "only_records facts (rt_db t) db' \<and> (\<forall>r\<in>set b. recorded_result (re_index env) facts db' r)" if "errors st = []"
    using s(1) that store_results_records [OF enum _ ok known]
    by (fastforce simp: store_parsed_results_def split: if_splits prod.splits)
  with s show ?thesis by (auto simp: on_batch_store_def Let_def)
qed

lemma batches_recorded:
  assumes enum: "enum_ok (env_enum (re_index env))" and "db_ok (rt_db t)" "transaction (rt_db t) = None"
    and "\<forall>r\<in>set (concat bs). known_result (re_index env) facts r"
  shows "\<exists>t'. foldl (\<lambda>s b. fst (store_handler env cfg s b)) (Some t) bs = Some t' \<and> db_ok (rt_db t') \<and> transaction (rt_db t') = None
    \<and> (rt_errors t' = [] \<longrightarrow> rt_errors t = [] \<and> only_records facts (rt_db t) (rt_db t')
        \<and> (\<forall>r\<in>set (concat bs). recorded_result (re_index env) facts (rt_db t') r))"
  using assms(2-)
proof (induction bs arbitrary: t)
  case (Cons b bs)
  have "\<forall>r\<in>set b. known_result (re_index env) facts r" using Cons.prems(3) by simp
  from on_batch_store_records [OF enum Cons.prems(1,2) this] obtain t1 where
    t1: "on_batch_store env cfg t b = Some t1" "db_ok (rt_db t1)" "transaction (rt_db t1) = None"
      "rt_errors t1 = [] \<longrightarrow> rt_errors t = [] \<and> only_records facts (rt_db t) (rt_db t1)
        \<and> (\<forall>r\<in>set b. recorded_result (re_index env) facts (rt_db t1) r)" by blast
  have "\<forall>r\<in>set (concat bs). known_result (re_index env) facts r" using Cons.prems(3) by simp
  from Cons.IH [OF t1(2,3) this] obtain t' where
    t': "foldl (\<lambda>s b. fst (store_handler env cfg s b)) (Some t1) bs = Some t'" "db_ok (rt_db t')" "transaction (rt_db t') = None"
      "rt_errors t' = [] \<longrightarrow> rt_errors t1 = [] \<and> only_records facts (rt_db t1) (rt_db t')
        \<and> (\<forall>r\<in>set (concat bs). recorded_result (re_index env) facts (rt_db t') r)" by blast
  have "rt_errors t = [] \<and> only_records facts (rt_db t) (rt_db t')
      \<and> (\<forall>r\<in>set (concat (b # bs)). recorded_result (re_index env) facts (rt_db t') r)" if "rt_errors t' = []"
  proof -
    note a = t'(4) [rule_format, OF that]
    note c = t1(4) [rule_format, OF a [THEN conjunct1]]
    have trans: "only_records facts (rt_db t) (rt_db t')" using a c only_records_trans by blast
    have "\<forall>r\<in>set b. recorded_result (re_index env) facts (rt_db t') r" using a c recorded_result_kept by blast
    with a c trans show ?thesis by (simp add: ball_Un)
  qed
  with t1(1) t' show ?case by (simp add: store_handler_def)
qed (simp add: only_records_refl)

subsection \<open>Every run ends\<close>

lemma batches_return:
  assumes enum: "enum_ok (env_enum (re_index env))" and "db_ok (rt_db t)" "transaction (rt_db t) = None"
  shows "\<exists>t'. foldl (\<lambda>s b. fst (store_handler env cfg s b)) (Some t) bs = Some t' \<and> db_ok (rt_db t') \<and> transaction (rt_db t') = None"
  using assms(2,3)
proof (induction bs arbitrary: t)
  case (Cons b bs)
  obtain db' st where s: "store_parsed_results (re_index env) (disk_limit_hit env cfg (rt_db t) \<noteq> None) (rt_db t) b = Some (db', st)"
    "db_ok db'" "transaction db' = None"
    using store_parsed_results_correct [OF Cons.prems enum] by blast
  then obtain t1 where "on_batch_store env cfg t b = Some t1" "rt_db t1 = db'" by (auto simp: on_batch_store_def Let_def)
  with Cons.IH [of t1] s show ?case by (simp add: store_handler_def)
qed simp

lemma python_run_ends:
  assumes "in_some_order (re_completed env)" "enum_ok (env_enum (re_index env))" "db_ok (co_db co)" "transaction (co_db co) = None"
  shows "\<exists>co' a. python_run env cfg kb co items n = Some (co', a) \<and> db_ok (co_db co') \<and> transaction (co_db co') = None"
proof -
  let ?h = "store_handler env cfg" and ?t = "start_totals (co_db co)"
  have "snd (?h s b) = None" for s b by (simp add: store_handler_def)
  from process_files_run [where handle = "?h", OF assms(1) this, where env = "re_worker env" and cfg = "rc_settings cfg"
      and cpus = "re_cpus env" and kb = kb and s = "Some ?t" and files = items] obtain bs where
    bs: "process_files_in_batches (re_worker env) (rc_settings cfg) (re_cpus env) (re_completed env) kb (Some ?h) (Some ?t) items
      = (foldl (\<lambda>s b. fst (?h s b)) (Some ?t) bs, Inr (concat bs))" by blast
  obtain t' where "foldl (\<lambda>s b. fst (?h s b)) (Some ?t) bs = Some t'" "db_ok (rt_db t')" "transaction (rt_db t') = None"
    using batches_return [OF assms(2), of ?t cfg bs] assms(3,4) by (auto simp: start_totals_def)
  then show ?thesis by (simp add: python_run_def bs)
qed


subsection \<open>A second run\<close>

text \<open>A file with a relative path, whose size and time can be read, and whose time survives being stored.\<close>

definition measured :: "run_env \<Rightarrow> run_config \<Rightarrow> file_facts \<Rightarrow> string \<Rightarrow> bool" where
  "measured env cfg facts f \<longleftrightarrow> (\<exists>rel. env_rel (re_index env) f = Inr rel \<and> we_stat (re_worker env) f = Inr (facts rel)
     \<and> \<bar>fl (re_readback env (snd (facts rel)) - snd (facts rel))\<bar> \<le> mtime_epsilon (rc_mtime_eps cfg))"

lemma process_one_known:
  assumes "measured env cfg facts p"
  shows "known_result (re_index env) facts (process_one (re_worker env) wcfg (p, h))"
proof -
  obtain rel where rel: "env_rel (re_index env) p = Inr rel" "we_stat (re_worker env) p = Inr (facts rel)"
    using assms by (auto simp: measured_def)
  have known: "known_result (re_index env) facts (process_known (re_worker env) wcfg p h (facts rel) l)" for l
    using rel(1) by (simp add: process_known_def file_result_def known_result_def split: sum.split option.split child_answer.split)
  have "known_result (re_index env) facts (file_result p cs l (facts rel) st e k)" for cs l st e k
    using rel(1) by (simp add: file_result_def known_result_def)
  with known rel show ?thesis by (simp add: process_one_def Let_def split: sum.split)
qed

lemma recorded_up_to_date:
  assumes "measured env cfg facts f" "env_rel (re_index env) f = Inr rel" "recorded facts db rel"
  shows "up_to_date (scan_env_of env cfg) db f"
proof -
  obtain r where r: "get_file_by_path db rel = Some r" "facts rel = (fr_size r, fr_mtime r)"
    using assms(3) by (auto simp: recorded_def)
  with assms(1,2) have "se_stat (scan_env_of env cfg) f = Inr (fr_size r, fr_mtime r)"
    "\<bar>fl (re_readback env (fr_mtime r) - fr_mtime r)\<bar> \<le> mtime_epsilon (rc_mtime_eps cfg)"
    by (auto simp: measured_def scan_env_of_def)
  with r(1) assms(2) show ?thesis
    unfolding up_to_date_def
    by (intro exI [of _ rel] exI [of _ "(fr_size r, fr_mtime r)"] exI [of _ "row_meta (scan_env_of env cfg) r"])
      (simp add: meta_of_def same_metadata_def row_meta_def scan_env_of_def)
qed

lemma up_to_date_kept:
  assumes "measured env cfg facts f" "only_records facts db db'" "up_to_date (scan_env_of env cfg) db f"
  shows "up_to_date (scan_env_of env cfg) db' f"
proof -
  obtain rel where rel: "env_rel (re_index env) f = Inr rel" using assms(1) by (auto simp: measured_def)
  show ?thesis
  proof (cases "recorded facts db' rel")
    case True
    with recorded_up_to_date [OF assms(1) rel] show ?thesis .
  next
    case False
    then have "get_file_by_path db' rel = get_file_by_path db rel" using assms(2) by (auto simp: only_records_def)
    with assms(3) rel show ?thesis by (simp add: up_to_date_def meta_of_def scan_env_of_def)
  qed
qed

lemma python_run_returns:
  assumes order: "in_some_order (re_completed env)" and enum: "enum_ok (env_enum (re_index env))"
    and ok: "db_ok (co_db co)" "transaction (co_db co) = None"
    and known: "\<forall>p\<in>fst ` set (normalize_to_path_tuples items). measured env cfg facts p"
  shows "\<exists>co' st. python_run env cfg kb co items n = Some (co', st) \<and> db_ok (co_db co') \<and> transaction (co_db co') = None
    \<and> (case st of Run_success s \<Rightarrow> rs_errors s = 0 \<longrightarrow> only_records facts (co_db co) (co_db co')
          \<and> (\<forall>p\<in>fst ` set (normalize_to_path_tuples items). \<exists>rel. env_rel (re_index env) p = Inr rel \<and> recorded facts (co_db co') rel)
        | _ \<Rightarrow> True)"
proof -
  let ?h = "store_handler env cfg" and ?one = "process_one (re_worker env) (worker_config (rc_settings cfg) kb)"
  let ?t = "start_totals (co_db co)" and ?norm = "normalize_to_path_tuples items"
  have "snd (?h s b) = None" for s b by (simp add: store_handler_def)
  from process_files_run [where handle = "?h", OF order this, where env = "re_worker env" and cfg = "rc_settings cfg" and cpus = "re_cpus env" and kb = kb
      and s = "Some ?t" and files = items] obtain bs where
    bs: "process_files_in_batches (re_worker env) (rc_settings cfg) (re_cpus env) (re_completed env) kb (Some ?h) (Some ?t) items
      = (foldl (\<lambda>s b. fst (?h s b)) (Some ?t) bs, Inr (concat bs))" "mset (concat bs) = mset (map ?one ?norm)" by blast
  from bs(2) have set: "set (concat bs) = ?one ` set ?norm" by (metis set_map set_mset_mset)
  have "\<forall>r\<in>set (concat bs). known_result (re_index env) facts r"
  proof
    fix r assume "r \<in> set (concat bs)"
    then obtain p h where "r = ?one (p, h)" "(p, h) \<in> set ?norm" unfolding set by (auto simp del: process_one_path)
    then show "known_result (re_index env) facts r" using known process_one_known [of env cfg facts p] by force
  qed
  moreover have "db_ok (rt_db ?t)" "transaction (rt_db ?t) = None" using ok by (simp_all add: start_totals_def)
  ultimately obtain t' where t': "foldl (\<lambda>s b. fst (?h s b)) (Some ?t) bs = Some t'" "db_ok (rt_db t')" "transaction (rt_db t') = None"
    "rt_errors t' = [] \<longrightarrow> only_records facts (co_db co) (rt_db t')
      \<and> (\<forall>r\<in>set (concat bs). recorded_result (re_index env) facts (rt_db t') r)"
    using batches_recorded [OF enum, of ?t bs facts cfg] by (auto simp: start_totals_def)
  have run: "python_run env cfg kb co items n = Some (co\<lparr>co_db := rt_db t'\<rparr>,
      success_answer (rt_files t') (rt_chunks t') 0 (rt_errors t') (rt_skipped t') (rt_timeouts t') (int n))"
    by (simp only: python_run_def bs(1) t'(1) prod.case option.case sum.case)
  have "\<exists>rel. env_rel (re_index env) p = Inr rel \<and> recorded facts (rt_db t') rel" if "rt_errors t' = []" "p \<in> fst ` set ?norm" for p
  proof -
    obtain h where "(p, h) \<in> set ?norm" using \<open>p \<in> fst ` set ?norm\<close> by force
    then have "?one (p, h) \<in> set (concat bs)" unfolding set by blast
    with t'(4) that(1) have "recorded_result (re_index env) facts (rt_db t') (?one (p, h))" by blast
    then show ?thesis by (simp add: recorded_result_def)
  qed
  with t' run show ?thesis by (auto simp: success_answer_def)
qed

lemma python_run_empty:
  "python_run env cfg kb co [] n = Some (co, Run_success \<lparr>rs_files_processed = 0, rs_total_chunks = 0, rs_embeddings = 0, rs_errors = 0,
     rs_skipped = int n, rs_timeouts = [], rs_skipped_unchanged = int n, rs_skipped_filtered = 0\<rparr>)"
  by (simp add: python_run_def process_files_in_batches_def start_totals_def success_answer_def)

lemma normalize_selected:
  assumes "db_ok db"
  shows "fst ` set (normalize_to_path_tuples (fst (select_files env cfg False db files)))
    = (if rc_force_reindex cfg then set files else {f \<in> set files. \<not> up_to_date (scan_env_of env cfg) db f})"
proof (cases "rc_force_reindex cfg")
  case True
  then show ?thesis by (simp add: select_files_def normalize_to_path_tuples_def image_image)
next
  case False
  obtain changed n where scan: "change_scan (scan_env_of env cfg) db files = (changed, n)" by fastforce
  have "fst ` set changed = set (map fst (fst (change_scan (scan_env_of env cfg) db files)))" by (simp add: scan)
  with False scan change_scan_files(1) [OF assms, of "scan_env_of env cfg" files] show ?thesis
    by (simp add: select_files_def normalize_hashed)
qed

lemma first_run_updates:
  assumes order: "in_some_order (re_completed env)" and enum: "enum_ok (env_enum (re_index env))"
    and ok: "db_ok (co_db co)" "transaction (co_db co) = None"
    and files: "files \<noteq> []" "\<forall>f\<in>set files. measured env cfg facts f"
    and run: "process_directory env cfg False native (Inr files) co directory incs excs kb = Some (Inr (co', Run_success st))"
      "rs_errors st = 0"
  shows "db_ok (co_db co') \<and> (\<forall>f\<in>set files. up_to_date (scan_env_of env cfg) (co_db co') f)"
proof -
  obtain co1 r where c: "(if rc_cleanup cfg then cleanup_orphaned_files (re_cleanup env) (rc_policy cfg) co directory files incs excs
      else (co, Inr 0)) = (co1, r)" by fastforce
  have ok1: "db_ok (co_db co1)" "transaction (co_db co1) = None"
    using c ok cleanup_ok [OF ok, of "re_cleanup env" "rc_policy cfg" directory files incs excs] by (auto split: if_splits)
  obtain items n where sel: "select_files env cfg False (co_db co1) files = (items, n)" by fastforce
  from run(1) c sel files(1) have py: "python_run env cfg kb co1 items n = Some (co', Run_success st)"
    by (auto simp: process_directory_def split: sum.splits if_splits)
  have paths: "fst ` set (normalize_to_path_tuples items)
    = (if rc_force_reindex cfg then set files else {f \<in> set files. \<not> up_to_date (scan_env_of env cfg) (co_db co1) f})"
    using normalize_selected [OF ok1(1), of env cfg files] sel by simp
  then have "\<forall>p\<in>fst ` set (normalize_to_path_tuples items). measured env cfg facts p" using files(2) by (auto split: if_splits)
  from python_run_returns [OF order enum ok1 this, of kb n] py run(2)
  have stored: "db_ok (co_db co')" "only_records facts (co_db co1) (co_db co')"
    "\<forall>p\<in>fst ` set (normalize_to_path_tuples items). \<exists>rel. env_rel (re_index env) p = Inr rel \<and> recorded facts (co_db co') rel"
    by auto
  have "up_to_date (scan_env_of env cfg) (co_db co') f" if "f \<in> set files" for f
  proof (cases "f \<in> fst ` set (normalize_to_path_tuples items)")
    case True
    with stored(3) files(2) that recorded_up_to_date show ?thesis by blast
  next
    case False
    then have "up_to_date (scan_env_of env cfg) (co_db co1) f" using paths that by (auto split: if_splits)
    with up_to_date_kept [OF _ stored(2)] files(2) that show ?thesis by blast
  qed
  with stored(1) show ?thesis by blast
qed

text \<open>
  C9: Indexing is idempotent.  After a run without errors over files whose size and time can be
  read and whose time survives being stored up to the tolerance, every file is up to date.  A second
  run over the same files, with neither the cleanup nor a forced reindexing, parses nothing, skips
  all of them as unchanged and leaves the database as it is, or stops at once at the disk limit.
\<close>

theorem second_run_idle:
  assumes order: "in_some_order (re_completed env)" and enum: "enum_ok (env_enum (re_index env))"
    and ok: "db_ok (co_db co)" "transaction (co_db co) = None"
    and files: "files \<noteq> []" "\<forall>f\<in>set files. measured env cfg facts f"
    and run: "process_directory env cfg False native (Inr files) co directory incs excs kb = Some (Inr (co', Run_success st))"
      "rs_errors st = 0"
  shows "(\<forall>f\<in>set files. up_to_date (scan_env_of env cfg) (co_db co') f)
    \<and> process_directory env (cfg\<lparr>rc_cleanup := False, rc_force_reindex := False\<rparr>) False native (Inr files) co' directory incs excs kb
      = Some (Inr (co', if disk_limit_hit env cfg (co_db co') \<noteq> None then Disk_limit_exceeded
          else Run_success \<lparr>rs_files_processed = 0, rs_total_chunks = 0, rs_embeddings = 0, rs_errors = 0,
            rs_skipped = int (length files), rs_timeouts = [], rs_skipped_unchanged = int (length files), rs_skipped_filtered = 0\<rparr>))"
proof
  let ?cfg = "cfg\<lparr>rc_cleanup := False, rc_force_reindex := False\<rparr>"
  have root: "re_ensure_root env = Inr ()" using run(1) by (auto simp: process_directory_def split: sum.splits)
  note updated = first_run_updates [OF order enum ok files run]
  show "\<forall>f\<in>set files. up_to_date (scan_env_of env cfg) (co_db co') f" using updated by blast
  have scan: "scan_env_of env ?cfg = scan_env_of env cfg" and disk: "disk_limit_hit env ?cfg = disk_limit_hit env cfg"
    by (simp_all add: scan_env_of_def disk_limit_hit_def fun_eq_iff)
  have "change_scan (scan_env_of env cfg) (co_db co') files = ([], length files)"
    using updated change_scan_files [of "co_db co'" "scan_env_of env cfg" files] by (simp add: prod_eq_iff filter_empty_conv)
  then have "select_files env ?cfg False (co_db co') files = ([], length files)" by (simp add: select_files_def scan)
  then show "process_directory env ?cfg False native (Inr files) co' directory incs excs kb
      = Some (Inr (co', if disk_limit_hit env cfg (co_db co') \<noteq> None then Disk_limit_exceeded
          else Run_success \<lparr>rs_files_processed = 0, rs_total_chunks = 0, rs_embeddings = 0, rs_errors = 0,
            rs_skipped = int (length files), rs_timeouts = [], rs_skipped_unchanged = int (length files), rs_skipped_filtered = 0\<rparr>))"
    using files(1) root by (simp add: process_directory_def disk python_run_empty)
qed

definition demo_env :: "string list \<Rightarrow> rat \<Rightarrow> run_env" where
  "demo_env codes mtime = \<lparr>re_index = sample_env,
     re_worker = sample_worker\<lparr>we_stat := (\<lambda>_. Inr (40000, mtime)),
       we_create := (\<lambda>l d. Inr (Some (\<lambda>p. Inr (map (\<lambda>s. chunk_to_dict str_int (sample_chunk\<lparr>c_code := s\<rparr>)) codes))))\<rparr>,
     re_cleanup = sample_cleanup, re_hash = (\<lambda>_. Os_error), re_readback = (\<lambda>t. t), re_disk = (\<lambda>_. Db_missing), re_cpus = Some 2,
     re_completed = (\<lambda>n. [0..<n]), re_ensure_root = Inr ()\<rparr>"

definition demo_config :: run_config where
  "demo_config = \<lparr>rc_policy = None, rc_settings = default_index_settings, rc_cleanup = True, rc_force_reindex = False,
     rc_mtime_eps = None, rc_disk_limit_mb = None\<rparr>"

definition demo_start :: coordinator where
  "demo_start = \<lparr>co_db = empty_database, co_locks = {}\<rparr>"

definition first_run :: "coordinator \<times> run_answer" where
  "first_run = projr (the (process_directory (demo_env [''x'', ''y''] 1) demo_config False (\<lambda>db. Native_error db)
     (Inr [''a.py'']) demo_start ''.'' None None 20))"

lemma second_run_idle_witness:
  "process_directory (demo_env [''x'', ''y''] 1) (demo_config\<lparr>rc_cleanup := False, rc_force_reindex := False\<rparr>) False (\<lambda>db. Native_error db)
     (Inr [''a.py'']) (fst first_run) ''.'' None None 20
   = Some (Inr (fst first_run, Run_success \<lparr>rs_files_processed = 0, rs_total_chunks = 0, rs_embeddings = 0, rs_errors = 0,
       rs_skipped = 1, rs_timeouts = [], rs_skipped_unchanged = 1, rs_skipped_filtered = 0\<rparr>))
   \<and> map r_code (t_chunks (db_tables (co_db (fst first_run)))) = [''x'', ''y'']"
proof -
  let ?env = "demo_env [''x'', ''y''] 1"
  let ?stats = "\<lparr>rs_files_processed = 1, rs_total_chunks = 2, rs_embeddings = 0, rs_errors = 0,
       rs_skipped = 0, rs_timeouts = [], rs_skipped_unchanged = 0, rs_skipped_filtered = 0\<rparr>"
  have order: "in_some_order (re_completed ?env)" by (simp add: in_some_order_def demo_env_def)
  have enum: "enum_ok (env_enum (re_index ?env))" using sample_env_ok by (simp add: demo_env_def)
  have ok: "db_ok (co_db demo_start)" "transaction (co_db demo_start) = None"
    using empty_database_ok by (simp_all add: demo_start_def empty_database_def)
  have eps: "0 \<le> mtime_epsilon None" by code_simp
  then have files: "\<forall>f\<in>set [''a.py'']. measured ?env demo_config (\<lambda>_. (40000, 1)) f"
    by (simp add: measured_def demo_env_def demo_config_def sample_env_def fl_def)
  have run: "process_directory ?env demo_config False (\<lambda>db. Native_error db) (Inr [''a.py'']) demo_start ''.'' None None 20
      = Some (Inr (fst first_run, Run_success ?stats))" by code_simp
  have "disk_limit_hit ?env demo_config (co_db (fst first_run)) = None" by code_simp
  moreover have "map r_code (t_chunks (db_tables (co_db (fst first_run)))) = [''x'', ''y'']" by code_simp
  ultimately show ?thesis
    using second_run_idle [OF order enum ok _ files run] by simp
qed


subsection \<open>What the runs do otherwise\<close>

text \<open>A directory from which every file has gone keeps its rows: no file, no cleanup.\<close>

lemma emptied_directory_keeps_rows:
  "process_directory (demo_env [] 1) demo_config False (\<lambda>db. Native_error db) (Inr []) (fst first_run) ''.'' None None 20
    = Some (Inr (fst first_run, No_files))"
  by (simp add: process_directory_def demo_env_def)

definition echo_embeddings :: "string emb_env" where
  "echo_embeddings = \<lparr>ee_embed_batch = (\<lambda>texts. Inr texts), ee_insert = (\<lambda>retry rows. Inr (length rows))\<rparr>"

definition embedding_problem :: "(coordinator \<times> file_answer result) option \<Rightarrow> embedding_error option" where
  "embedding_problem a = (case a of Some (_, Inr (File_report r)) \<Rightarrow> fp_embedding_error r | _ \<Rightarrow> None)"

text \<open>A new file is embedded; after an edit that leaves one of its chunks alone it is not.\<close>

lemma new_file_embedded:
  "embedding_problem (process_file (demo_env [''x'', ''y''] 1) demo_config (Some echo_embeddings) True demo_start ''a.py'' False) = None"
  by code_simp

lemma edited_file_not_embedded:
  "embedding_problem (process_file (demo_env [''x'', ''z''] 2) demo_config (Some echo_embeddings) True (fst first_run) ''a.py'' False)
    = Some (Embedding_raised ValueError)"
  by code_simp

text \<open>
  When all its chunks change, they are stored in the order in which a set lists them and paired with
  the texts in the order of the file.
\<close>

lemma embeddings_paired_wrongly:
  "map_option (\<lambda>(db, st). map (\<lambda>i. map r_code (filter (\<lambda>r. r_id r = i) (t_chunks (db_tables db)))) (chunk_ids_needing_embeddings st))
     (store_parsed_results sample_env False (co_db (fst first_run))
       [sample_result\<lparr>pf_chunks := map (\<lambda>s. chunk_to_dict str_int (sample_chunk\<lparr>c_code := s\<rparr>)) [''w'', ''v'']\<rparr>])
    = Some [[''v''], [''w'']]"
  "map (pc_code \<circ> pending_of \<circ> chunk_to_dict str_int \<circ> (\<lambda>s. sample_chunk\<lparr>c_code := s\<rparr>)) [''w'', ''v''] = [''w'', ''v'']"
  by code_simp+

text \<open>One file is parsed with the default limit for configuration files, a directory with the given one.\<close>

lemma threshold_of_single_file:
  "map_option (snd) (process_file (demo_env [''x''] 1) demo_config (None :: string emb_env option) True demo_start ''a.json'' True)
    = Some (Inr (File_skipped (Some ''large_config_file'')))"
  "map_option (map_sum id snd) (process_directory (demo_env [''x''] 1) demo_config False (\<lambda>db. Native_error db) (Inr [''a.json'']) demo_start ''.'' None None 100)
    = Some (Inr (Run_success \<lparr>rs_files_processed = 1, rs_total_chunks = 1, rs_embeddings = 0, rs_errors = 0,
       rs_skipped = 0, rs_timeouts = [], rs_skipped_unchanged = 0, rs_skipped_filtered = 0\<rparr>))"
  by code_simp+

end
