(* ===== verification/Spec2Isabelle.thy ===== *)
theory Spec2Isabelle
  imports Prelude Py_Regex Py_Float Core_Types Text_Utils Chunk_Model Splitter Dedup Chunk_Cache Chunk_Store Indexing Batching Realtime_Queue Realtime_Loop Realtime_Events Git_Diff File_Patterns Path_Filter Citations Caches Evidence_Ledger Search_Results DB_Search Diff_Search Multi_Hop Search_Service Cast_Parser Parse_Content Research_Context Context_Budget Embedding_Batches Embedding_Service Batch_Processor Guarded_Delete Cleanup Change_Scan Directory_Run
begin

text \<open>
  A verification development of ChunkHound, a tool that indexes source code into a database of
  chunks and embeddings, keeps the index current while files change, and answers searches and
  research questions over it.  The Python package is \<open>src/chunkhound\<close>; paths below are relative to it.

  THE PROGRAM.  A file that discovery finds (\<open>utils/file_patterns.py\<close>,
  \<open>services/indexing_coordinator.py\<close>) is parsed into concepts by a tree-sitter parser; these are
  deduplicated (\<open>utils/chunk_deduplication.py\<close>), merged with their neighbours
  (\<open>parsers/universal_parser.py\<close>) and split to the size limits
  (\<open>parsers/chunk_splitter.py\<close>).  The chunks of a file are compared by content with the stored ones
  (\<open>services/chunk_cache_service.py\<close>) and written in one transaction
  (\<open>services/indexing_coordinator.py\<close> over \<open>providers/database/duckdb_provider.py\<close>).  Texts are sent
  to an embedding provider in batches bounded by tokens (\<open>services/embedding_service.py\<close>,
  \<open>providers/embeddings/*\<close>).  The realtime service (\<open>services/realtime/*\<close>) turns file system events
  into a queue of mutations, coalesces and debounces them and processes them in batches; it accepts
  an event with the same filter the discovery uses (\<open>services/realtime_path_filter.py\<close>).  A search
  can be restricted to a git diff (\<open>core/git_diff/*\<close>).  Deep research answers a question from
  clusters of files; the summaries of the clusters cite files by number
  (\<open>services/research/shared/citation_manager.py\<close>) and rest on a ledger of facts
  (\<open>services/research/shared/evidence_ledger/*\<close>).

  CONVENTIONS.  \<open>Prelude\<close> fixes the vocabulary: a \<open>str\<close> is a list of Latin-1 code points, a \<open>dict\<close>
  an association list in insertion order, an \<open>Any\<close> value a \<open>pyval\<close>, an exception the left part of a
  sum.  Python ints are \<open>int\<close>; floats are rational numbers rounded as IEEE 754 does (\<open>Py_Float\<close>).  A
  class with state is a record, its methods return the updated record.  Code outside the repository
  (parsers, tokenizers, providers, git, the file system, clocks, hashes, the order in which a set is
  listed) is an argument of the definitions that use it.  \<open>Py_Regex\<close> has the pieces of \<open>re\<close> and the
  laws of \<open>str.replace\<close> that several components share.

  THE THEORIES.

  \<^item> \<open>Core_Types\<close>: \<open>core/types/common.py\<close>, \<open>core/detection/language_detector.py\<close>, the extension
    table of \<open>parsers/parser_factory.py\<close>.  The enums, their strings, language detection; the two
    separately kept extension tables accept the same paths.
  \<^item> \<open>Text_Utils\<close>: \<open>utils/normalization.py\<close>, \<open>core/utils/token_utils.py\<close> and neighbours: content
    normalisation, token estimates, chunk ids, LIKE escaping, slugs.
  \<^item> \<open>Chunk_Model\<close>: \<open>core/models/chunk.py\<close> and \<open>file.py\<close>: validation, dictionary forms, predicates.
  \<^item> \<open>Splitter\<close>: \<open>parsers/chunk_splitter.py\<close>.  Splitting returns for positive limits, every part fits,
    no text is lost, line ranges stay inside the original.
  \<^item> \<open>Cast_Parser\<close>, \<open>Parse_Content\<close>: \<open>parsers/universal_parser.py\<close>.  The concepts of a syntax tree
    are deduplicated, merged and split: the algorithm returns, its chunks fit, no text is lost.
    Around it, files and plain text, and the conversion to well-typed chunks.
  \<^item> \<open>Dedup\<close>: \<open>utils/chunk_deduplication.py\<close>: what is removed is covered by what stays; idempotence.
  \<^item> \<open>Chunk_Cache\<close>: \<open>services/chunk_cache_service.py\<close>: the content diff partitions both sides.
  \<^item> \<open>Chunk_Store\<close>: the tables, transactions and operations of \<open>providers/database/duckdb_provider.py\<close>
    that indexing uses, with the laws of rollback.
  \<^item> \<open>Indexing\<close>: the storing half of \<open>services/indexing_coordinator.py\<close>: the size guard, storing one file
    atomically, storing a batch of parsed results.
  \<^item> \<open>Batch_Processor\<close>: \<open>services/batch_processor.py\<close>, the parse callback of \<open>pipeline_bridge.py\<close> and the
    distribution over worker processes: every file is parsed once, and both workers judge it alike.
  \<^item> \<open>Guarded_Delete\<close>, \<open>Cleanup\<close>: the batch deletions of \<open>duckdb_provider.py\<close> with the guard around the
    vector indexes, as sequences of statements any one of which may fail: all or nothing.  On top of
    them, the removal of the rows of orphaned files: exactly those.
  \<^item> \<open>Change_Scan\<close>, \<open>Directory_Run\<close>: the other half of \<open>services/indexing_coordinator.py\<close>: which files have
    changed, a run over a directory and over one file, composed of the theories before.  A run always
    ends in a consistent state, and a second run over the same files does nothing.
  \<^item> \<open>Batching\<close>: token-aware batches, recovery from token limit errors, splitting of long texts, checks
    of vector dimensions.
  \<^item> \<open>Realtime_Queue\<close>, \<open>Realtime_Loop\<close>, \<open>Realtime_Events\<close>: \<open>services/realtime/pipeline.py\<close> and
    \<open>events.py\<close>.  The queue with its registration, coalescing, superseding, priorities, retries and
    debouncing; the consumer, the processing loop, overflow recovery and polling as a step relation
    whose invariant holds in every reachable state; the translation of watchdog events.
  \<^item> \<open>Git_Diff\<close>: \<open>core/git_diff/parser.py\<close> and \<open>runner.py\<close>: parsing inverts printing; splitting of hunks;
    git is called on safe ranges only.
  \<^item> \<open>File_Patterns\<close>, \<open>Path_Filter\<close>: \<open>fnmatch\<close>, include and exclude predicates, the pruning walk, the
    prefilter; the sequential discovery with its fallback and the realtime filter, which agree.
  \<^item> \<open>Citations\<close>: the numbering, remapping and checking of citations; replacing the numbers one after
    the other is the simultaneous renumbering.  Locale \<open>reference_numbering\<close>.
  \<^item> \<open>Caches\<close>: \<open>tree_cache.py\<close> and \<open>file_discovery_cache.py\<close>: what is served was written last under
    its key and is still valid; eviction removes the oldest entries and no more than needed.  Locale
    \<open>evicting_cache\<close>.
  \<^item> \<open>Evidence_Ledger\<close>: the ledger of constants and facts: its index, queries and conflicts against
    their declarative meaning, and the JSON round trip.
  \<^item> \<open>Search_Results\<close>, \<open>DB_Search\<close>, \<open>Diff_Search\<close>, \<open>Multi_Hop\<close>, \<open>Search_Service\<close>: \<open>services/search/*\<close>,
    \<open>services/search_service.py\<close>, \<open>services/diff_aware_search_service.py\<close> and the searches of
    \<open>providers/database/duckdb_provider.py\<close>.  Results, their enrichment and pages (locale
    \<open>paged_search\<close>: following the pages yields the whole list); the exact scope of a path filter; the
    merge of diff and database; the expansion loop, which ends and keeps its results well-formed.
  \<^item> \<open>Embedding_Batches\<close>, \<open>Embedding_Service\<close>: \<open>services/embedding_service.py\<close>.  The concurrent batches as
    a step relation over tasks and the permits of a semaphore: the schedule does not matter, runs are
    bounded, and progress needs enough permits.  Which chunks have no embedding, by SQL and without
    (locale \<open>like_wildcards\<close>), and generating them.
  \<^item> \<open>Research_Context\<close>, \<open>Context_Budget\<close>: \<open>services/research/shared/*\<close>.  Ranges widened to functions and
    blocks, deduplication by score, the elbow of a list of scores; reading files and building
    prompts within a token budget, and the budgets.

  INTERFACES.  A component is used through a locale where a contract is shared; each is interpreted on
  the model's own definitions in the theory of the provider, and the properties rest on these
  interpretations.

  TERMINATION AND FUEL.  Recursions are structural or have a proved measure.  A loop of the code that
  may not end is a \<open>partial_function (option)\<close>, whose result \<open>None\<close> is "does not return": the
  emergency split of \<open>Splitter\<close> (returns for positive limits, theorem there), the eviction of
  \<open>Caches\<close> (returns for a non-negative limit, and provably does not for a negative one) and the
  expansion of \<open>Multi_Hop\<close> (returns with a result limit or a finite index).  The other
  unbounded loops are steps of a relation.  No definition uses fuel unless its theory says which amount
  is enough and proves it.

  FINDINGS.  Where the code does not do what its documentation or its callers expect, a lemma shows the
  behaviour on a concrete input next to the definitions concerned; the theorems about the same code
  name the condition under which it is right.

  NOT MODELLED.  The language mappings, the concept extractor and the special parsers under
  \<open>parsers/\<close> read syntax trees of third-party grammars whose shapes are not in the sources.  The embedding and language model providers
  are HTTP clients, the LanceDB provider and the connection management calls into libraries, the
  daemon, the MCP server and the command line glue over sockets, processes and protocol libraries;
  configuration is declarative data; code mapper, autodoc, web search and the research strategies
  orchestrate language model calls and numeric clustering.  Of the coordinator, the parallel discovery,
  the Rust pipeline and the progress reporting are left out; of the DuckDB provider, the catalog of
  vector indexes, compaction and schema migration.  Log messages and statistics reports are left out everywhere.
\<close>

end
